(* ===== verification/Prelude.thy ===== *)
theory Prelude
  imports Main "HOL-Library.Word"
begin

text \<open>
  Shared vocabulary of the development.

  The types of \<open>types.h\<close> and the error codes of \<open>error.h\<close>; the result type of every fallible
  routine, in which an access outside a buffer is a value of its own; a small calculus of safe
  results; and the facts on byte lists that the components share.
\<close>

unbundle bit_operations_syntax

text \<open>Offsets stay sums, so that \<open>p + 2\<close> reads the same in every fact.\<close>

declare add_2_eq_Suc [simp del] add_2_eq_Suc' [simp del]

section \<open>Machine types\<close>

type_synonym u8 = "8 word"
type_synonym u16 = "16 word"
type_synonym u32 = "32 word"
type_synonym u64 = "64 word"

type_synonym bytes = "u8 list"

text \<open>
  A \<open>const char*\<close> is \<open>None\<close> for the null pointer and \<open>Some s\<close> for a NUL-terminated string, where
  \<open>s\<close> holds the bytes before the terminator.
\<close>

type_synonym cstring = "bytes option"

named_theorems safe_simps \<open>equations that evaluate \<open>safe\<close> on the primitives\<close>
named_theorems bytes_simps \<open>lengths and shapes of byte strings\<close>

section \<open>Error codes\<close>

datatype error =
    XT_OK
  | XT_ERR_INVALID_ARGUMENT
  | XT_ERR_BUFFER_TOO_SMALL
  | XT_ERR_BAD_RECORD
  | XT_ERR_BAD_HANDSHAKE
  | XT_ERR_UNSUPPORTED
  | XT_ERR_CRYPTO
  | XT_ERR_VERIFY
  | XT_ERR_IO
  | XT_ERR_CLOSED

primrec error_code :: "error \<Rightarrow> int" where
  "error_code XT_OK = 0"
| "error_code XT_ERR_INVALID_ARGUMENT = -1"
| "error_code XT_ERR_BUFFER_TOO_SMALL = -2"
| "error_code XT_ERR_BAD_RECORD = -3"
| "error_code XT_ERR_BAD_HANDSHAKE = -4"
| "error_code XT_ERR_UNSUPPORTED = -5"
| "error_code XT_ERR_CRYPTO = -6"
| "error_code XT_ERR_VERIFY = -7"
| "error_code XT_ERR_IO = -8"
| "error_code XT_ERR_CLOSED = -9"

lemma error_code_inject: "error_code a = error_code b \<longleftrightarrow> a = b"
  by (cases a; cases b) simp_all

text \<open>The order of the error type is the order of the enumeration's integers.\<close>

instantiation error :: linorder
begin

definition less_eq_error :: "error \<Rightarrow> error \<Rightarrow> bool" where
  "less_eq_error a b \<longleftrightarrow> error_code a \<le> error_code b"

definition less_error :: "error \<Rightarrow> error \<Rightarrow> bool" where
  "less_error a b \<longleftrightarrow> error_code a < error_code b"

instance
  by standard (auto simp: less_eq_error_def less_error_def error_code_inject)

end

section \<open>Byte spans\<close>

text \<open>
  A \<open>ByteSpan\<close> (or \<open>MutableByteSpan\<close>) is a pointer and a size. \<open>NullSpan n\<close> is the null pointer
  with size \<open>n\<close>; \<open>Span bs\<close> is a valid pointer to the bytes \<open>bs\<close>, whose length is the size.
\<close>

datatype byte_span = NullSpan nat | Span bytes

primrec span_size :: "byte_span \<Rightarrow> nat" where
  "span_size (NullSpan n) = n"
| "span_size (Span bs) = length bs"

primrec span_null :: "byte_span \<Rightarrow> bool" where
  "span_null (NullSpan n) = True"
| "span_null (Span bs) = False"

primrec span_bytes :: "byte_span \<Rightarrow> bytes" where
  "span_bytes (NullSpan n) = []"
| "span_bytes (Span bs) = bs"

lemma span_nonnull: "\<not> span_null s \<Longrightarrow> s = Span (span_bytes s)"
  by (cases s) simp_all

lemma span_nonnull_size [simp]: "\<not> span_null s \<Longrightarrow> span_size s = length (span_bytes s)"
  by (cases s) simp_all

text \<open>A span that may be read: the contract of every routine of the library on its arguments.\<close>

definition span_valid :: "byte_span \<Rightarrow> bool" where
  "span_valid s \<longleftrightarrow> length (span_bytes s) = span_size s"

lemma span_valid_simps [simp]: "span_valid (Span bs)" "span_valid (NullSpan n) \<longleftrightarrow> n = 0"
  by (auto simp: span_valid_def)

section \<open>Results\<close>

text \<open>
  A routine returns a value (\<open>Ok\<close>), an error code (\<open>Err\<close>), or commits an access outside the
  buffers it was given, which C++ leaves undefined (\<open>UB\<close>). The last one is a value so that its
  absence is a theorem.
\<close>

datatype 'a res = Ok 'a | Err error | UB

primrec bind_res :: "'a res \<Rightarrow> ('a \<Rightarrow> 'b res) \<Rightarrow> 'b res" where
  "bind_res (Ok x) f = f x"
| "bind_res (Err e) f = Err e"
| "bind_res UB f = UB"

text \<open>\<open>if (e != XT_OK) return e';\<close> replaces whatever error the call gave.\<close>

primrec or_err :: "'a res \<Rightarrow> error \<Rightarrow> 'a res" where
  "or_err (Ok x) e' = Ok x"
| "or_err (Err e) e' = Err e'"
| "or_err UB e' = UB"

primrec res_error :: "'a res \<Rightarrow> error" where
  "res_error (Ok x) = XT_OK"
| "res_error (Err e) = e"
| "res_error UB = XT_ERR_CRYPTO"

primrec is_ok :: "'a res \<Rightarrow> bool" where
  "is_ok (Ok x) = True"
| "is_ok (Err e) = False"
| "is_ok UB = False"

lemma bind_res_assoc: "bind_res (bind_res r f) g = bind_res r (\<lambda>x. bind_res (f x) g)"
  by (cases r) simp_all

lemma bind_res_Ok_iff: "bind_res r f = Ok y \<longleftrightarrow> (\<exists>x. r = Ok x \<and> f x = Ok y)"
  by (cases r) simp_all

lemma bind_res_pair_Ok:
  "bind_res r (\<lambda>(a, b). f a b) = Ok y \<longleftrightarrow> (\<exists>a b. r = Ok (a, b) \<and> f a b = Ok y)"
  by (cases r) auto

text \<open>Taking apart a routine that returned a value: every guard was passed, every call returned.\<close>

lemma bind_res_OkE:
  assumes "bind_res r f = Ok y"
  obtains x where "r = Ok x" and "f x = Ok y"
  using assms by (cases r) simp_all

lemma if_Err_OkE:
  assumes "(if b then Err e else r) = Ok y"
  obtains "\<not> b" and "r = Ok y"
  using assms by (cases b) simp_all

lemmas res_OkE = bind_res_OkE if_Err_OkE

lemma or_err_Ok_iff [simp]: "or_err r e = Ok x \<longleftrightarrow> r = Ok x"
  by (cases r) simp_all

lemma is_ok_iff: "is_ok r \<longleftrightarrow> (\<exists>x. r = Ok x)"
  by (cases r) simp_all

lemma bind_res_cong [fundef_cong]:
  "r = r' \<Longrightarrow> (\<And>x. r' = Ok x \<Longrightarrow> f x = g x) \<Longrightarrow> bind_res r f = bind_res r' g"
  by (cases r') simp_all

subsection \<open>Safe results\<close>

text \<open>
  \<open>safe r Q\<close>: the result is not an access outside a buffer, and a returned value satisfies \<open>Q\<close>.
  The equations below push \<open>safe\<close> through the constructs of the model, so that a routine is
  proved safe by simplification.
\<close>

definition safe :: "'a res \<Rightarrow> ('a \<Rightarrow> bool) \<Rightarrow> bool" where
  "safe r Q = (case r of Ok x \<Rightarrow> Q x | Err e \<Rightarrow> True | UB \<Rightarrow> False)"

lemma safe_Ok [simp, safe_simps]: "safe (Ok x) Q = Q x"
  and safe_Err [simp, safe_simps]: "safe (Err e) Q = True"
  and safe_UB [simp, safe_simps]: "safe UB Q = False"
  by (simp_all add: safe_def)

lemma safe_bind [simp, safe_simps]: "safe (bind_res r f) Q = safe r (\<lambda>x. safe (f x) Q)"
  by (cases r) simp_all

lemma safe_or_err [simp, safe_simps]: "safe (or_err r e) Q = safe r Q"
  by (cases r) simp_all

lemma safe_if [safe_simps]:
  "safe (if b then r else r') Q = ((b \<longrightarrow> safe r Q) \<and> (\<not> b \<longrightarrow> safe r' Q))"
  by simp

lemma safe_let [safe_simps]: "safe (let x = t in f x) Q = (let x = t in safe (f x) Q)"
  by simp

lemma safe_not_UB: "safe r Q \<Longrightarrow> r \<noteq> UB"
  by (cases r) simp_all

lemma safe_True_iff: "safe r (\<lambda>_. True) \<longleftrightarrow> r \<noteq> UB"
  by (cases r) simp_all

lemma safe_mono: "safe r P \<Longrightarrow> (\<And>x. P x \<Longrightarrow> Q x) \<Longrightarrow> safe r Q"
  by (cases r) simp_all

lemma safe_mono_Ok: "safe r P \<Longrightarrow> (\<And>x. r = Ok x \<Longrightarrow> P x \<Longrightarrow> Q x) \<Longrightarrow> safe r Q"
  by (cases r) simp_all

lemma safe_bindI:
  "safe r P \<Longrightarrow> (\<And>x. r = Ok x \<Longrightarrow> P x \<Longrightarrow> safe (f x) Q) \<Longrightarrow> safe (bind_res r f) Q"
  by (cases r) simp_all

lemma safe_guardI: "(\<not> b \<Longrightarrow> safe r Q) \<Longrightarrow> safe (if b then Err e else r) Q"
  by simp

lemma safe_ifI: "(b \<Longrightarrow> safe r Q) \<Longrightarrow> (\<not> b \<Longrightarrow> safe r' Q) \<Longrightarrow> safe (if b then r else r') Q"
  by simp

lemma safe_OkI: "Q x \<Longrightarrow> safe (Ok x) Q"
  by simp

lemma safe_OkD: "safe r Q \<Longrightarrow> r = Ok x \<Longrightarrow> Q x"
  by simp

section \<open>Reading spans\<close>

definition slice :: "'a list \<Rightarrow> nat \<Rightarrow> nat \<Rightarrow> 'a list" where
  "slice xs p n = take n (drop p xs)"

text \<open>\<open>s.data[p]\<close>\<close>

definition rd :: "byte_span \<Rightarrow> nat \<Rightarrow> u8 res" where
  "rd s p = (if p < length (span_bytes s) then Ok (span_bytes s ! p) else UB)"

text \<open>\<open>ByteSpan(s.data + p, n)\<close>: an address outside the buffer is an error of the program.\<close>

definition subspan :: "byte_span \<Rightarrow> nat \<Rightarrow> nat \<Rightarrow> byte_span res" where
  "subspan s p n =
     (case s of
        NullSpan k \<Rightarrow> (if p = 0 \<and> n = 0 then Ok (NullSpan 0) else UB)
      | Span bs \<Rightarrow> (if p + n \<le> length bs then Ok (Span (slice bs p n)) else UB))"

text \<open>\<open>memcpy(dst, s.data + p, n)\<close>: the bytes read.\<close>

definition rd_bytes :: "byte_span \<Rightarrow> nat \<Rightarrow> nat \<Rightarrow> bytes res" where
  "rd_bytes s p n =
     (if p + n \<le> length (span_bytes s) then Ok (slice (span_bytes s) p n) else UB)"

lemma length_slice [simp, bytes_simps]: "length (slice xs p n) = min n (length xs - p)"
  by (simp add: slice_def)

lemma length_slice_le [bytes_simps]: "p + n \<le> length xs \<Longrightarrow> length (slice xs p n) = n"
  by simp

lemma slice_0 [simp]: "slice xs 0 n = take n xs"
  by (simp add: slice_def)

lemma slice_nil [simp]: "slice xs p 0 = []"
  by (simp add: slice_def)

lemma slice_nth: "p + i < length xs \<Longrightarrow> i < n \<Longrightarrow> slice xs p n ! i = xs ! (p + i)"
  by (simp add: slice_def)

lemma slice_append_left: "p + n \<le> length xs \<Longrightarrow> slice (xs @ ys) p n = slice xs p n"
  by (simp add: slice_def)

lemma slice_append_right: "slice (xs @ ys) (length xs + p) n = slice ys p n"
  by (simp add: slice_def)

lemma slice_append_mid: "length xs = p \<Longrightarrow> length ys = n \<Longrightarrow> slice (xs @ ys @ zs) p n = ys"
  by (auto simp: slice_def)

lemma rd_Ok [simp]: "p < length (span_bytes s) \<Longrightarrow> rd s p = Ok (span_bytes s ! p)"
  by (simp add: rd_def)

lemma subspan_Ok_iff:
  "subspan (Span bs) p n = Ok s \<longleftrightarrow> p + n \<le> length bs \<and> s = Span (slice bs p n)"
  by (auto simp: subspan_def)

lemma rd_Span_Ok: "rd (Span bs) p = Ok b \<longleftrightarrow> p < length bs \<and> b = bs ! p"
  by (auto simp: rd_def)

lemma safe_rd [simp, safe_simps]:
  "safe (rd s p) Q = (p < length (span_bytes s) \<and> Q (span_bytes s ! p))"
  by (simp add: rd_def)

lemma safe_rdI:
  "p < length (span_bytes s) \<Longrightarrow> safe (f (span_bytes s ! p)) Q \<Longrightarrow> safe (bind_res (rd s p) f) Q"
  by (simp add: rd_def)

lemma safe_subspan_Span [simp, safe_simps]:
  "safe (subspan (Span bs) p n) Q = (p + n \<le> length bs \<and> Q (Span (slice bs p n)))"
  by (simp add: subspan_def)

lemma safe_subspan:
  "\<not> span_null s \<Longrightarrow>
   safe (subspan s p n) Q = (p + n \<le> length (span_bytes s) \<and> Q (Span (slice (span_bytes s) p n)))"
  by (cases s) simp_all

lemma safe_rd_bytes [simp, safe_simps]:
  "safe (rd_bytes s p n) Q
     = (p + n \<le> length (span_bytes s) \<and> Q (slice (span_bytes s) p n))"
  by (simp add: rd_bytes_def)

section \<open>Writing into fixed arrays\<close>

text \<open>\<open>memcpy(buf + off, bs, length bs)\<close> into an array.\<close>

definition write_at :: "'a list \<Rightarrow> nat \<Rightarrow> 'a list \<Rightarrow> 'a list" where
  "write_at buf off bs = take off buf @ bs @ drop (off + length bs) buf"

lemma length_write_at [simp, bytes_simps]:
  "off + length bs \<le> length buf \<Longrightarrow> length (write_at buf off bs) = length buf"
  by (simp add: write_at_def)

lemma take_write_at [simp]:
  "off \<le> length buf \<Longrightarrow> take (off + length bs) (write_at buf off bs) = take off buf @ bs"
  by (simp add: write_at_def)

lemma write_at_nil [simp]: "write_at buf off [] = buf"
  by (simp add: write_at_def)

lemma write_at_full: "length bs = length buf \<Longrightarrow> write_at buf 0 bs = bs"
  by (simp add: write_at_def)

section \<open>Combining byte strings\<close>

definition xor_bytes :: "bytes \<Rightarrow> bytes \<Rightarrow> bytes" where
  "xor_bytes a b = map2 (XOR) a b"

lemma length_xor_bytes [simp, bytes_simps]: "length (xor_bytes a b) = min (length a) (length b)"
  by (simp add: xor_bytes_def)

lemma nth_xor_bytes: "i < length a \<Longrightarrow> i < length b \<Longrightarrow> xor_bytes a b ! i = a ! i XOR b ! i"
  by (simp add: xor_bytes_def)

lemma xor_bytes_cancel: "length a = length b \<Longrightarrow> xor_bytes (xor_bytes a b) b = a"
  by (rule nth_equalityI) (simp_all add: nth_xor_bytes xor.assoc)

lemma xor_bytes_commute: "xor_bytes a b = xor_bytes b a"
proof (rule nth_equalityI)
  show "length (xor_bytes a b) = length (xor_bytes b a)" by simp
next
  fix i assume "i < length (xor_bytes a b)"
  then show "xor_bytes a b ! i = xor_bytes b a ! i"
    by (simp add: nth_xor_bytes xor.commute)
qed

subsection \<open>Comparison without early exit\<close>

text \<open>
  The loop \<open>for i < n: diff |= a[i] ^ b[i]\<close>, which occurs in the record tag check, the Finished
  check, the certificate pin and the RSA-PSS check.
\<close>

definition or_diff :: "nat \<Rightarrow> bytes \<Rightarrow> bytes \<Rightarrow> u8" where
  "or_diff n a b = fold (\<lambda>i d. d OR (a ! i XOR b ! i)) [0..<n] 0"

lemma word_or_eq_zero_iff: "(x OR y = (0 :: 'a::len word)) \<longleftrightarrow> x = 0 \<and> y = 0"
  by (auto simp: bit_eq_iff bit_or_iff)

lemma word_xor_eq_zero_iff: "(x XOR y = (0 :: 'a::len word)) \<longleftrightarrow> x = y"
  by (metis xor.assoc xor.left_neutral xor.right_neutral xor_self_eq)

lemma or_diff_eq_zero_iff:
  "or_diff n a b = 0 \<longleftrightarrow> (\<forall>i < n. a ! i = b ! i)"
proof (induction n)
  case 0
  show ?case by (simp add: or_diff_def)
next
  case (Suc n)
  have "or_diff (Suc n) a b = or_diff n a b OR (a ! n XOR b ! n)"
    by (simp add: or_diff_def)
  with Suc.IH show ?case
    by (auto simp: word_or_eq_zero_iff word_xor_eq_zero_iff less_Suc_eq)
qed

lemma or_diff_zero_lists:
  "length a = n \<Longrightarrow> length b = n \<Longrightarrow> or_diff n a b = 0 \<longleftrightarrow> a = b"
  by (auto simp: or_diff_eq_zero_iff intro: nth_equalityI)

section \<open>Loops that fill arrays\<close>

lemma length_fold_list_update [simp]:
  "length (fold (\<lambda>i a. a[f i := g i a]) is a) = length a"
  by (induction "is" arbitrary: a) simp_all

lemma fold_preserves:
  "P s \<Longrightarrow> (\<And>x s. x \<in> set xs \<Longrightarrow> P s \<Longrightarrow> P (f x s)) \<Longrightarrow> P (fold f xs s)"
  by (induction xs arbitrary: s) auto

lemma fold_upt_Suc: "i \<le> j \<Longrightarrow> fold f [i..<Suc j] s = f j (fold f [i..<j] s)"
  by simp

end
