(* ===== verification/Platform.thy ===== *)
theory Platform
  imports Prelude
begin

text \<open>
  The interfaces of \<open>platform.h\<close>: a source of random bytes and of the time, and a byte stream. They
  are implemented outside the library, so each is a record of functions over a world, whose type is
  a parameter: an operation gives a result and the world after it. The contract that the library
  relies on is stated as a locale where it is used.
\<close>

section \<open>Model: actions on the outside world\<close>

text \<open>An action returns a result and the world after it; an error stops a sequence of actions.\<close>

type_synonym ('w, 'a) action = "'w \<Rightarrow> 'a res \<times> 'w"

definition pure_act :: "'a res \<Rightarrow> ('w, 'a) action" where
  "pure_act r w = (r, w)"

definition bind_act :: "('w, 'a) action \<Rightarrow> ('a \<Rightarrow> ('w, 'b) action) \<Rightarrow> ('w, 'b) action" where
  "bind_act m f w =
     (case m w of (Ok x, w') \<Rightarrow> f x w' | (Err e, w') \<Rightarrow> (Err e, w') | (UB, w') \<Rightarrow> (UB, w'))"

text \<open>\<open>if (e != XT_OK) return e';\<close>\<close>

definition or_err_act :: "('w, 'a) action \<Rightarrow> error \<Rightarrow> ('w, 'a) action" where
  "or_err_act m e w = (case m w of (r, w') \<Rightarrow> (or_err r e, w'))"

lemma pure_act_simps [simp]:
  "bind_act (pure_act (Ok x)) f = f x"
  "bind_act (pure_act (Err e)) f = pure_act (Err e)"
  "bind_act (pure_act UB) f = pure_act UB"
  by (auto simp: bind_act_def pure_act_def fun_eq_iff)

lemma bind_act_Ok_iff:
  "bind_act m f w = (Ok y, w') \<longleftrightarrow> (\<exists>x w1. m w = (Ok x, w1) \<and> f x w1 = (Ok y, w'))"
  by (auto simp: bind_act_def split: prod.splits res.splits)

lemma pure_act_iff [simp]: "pure_act r w = (s, w') \<longleftrightarrow> r = s \<and> w' = w"
  by (auto simp: pure_act_def)

lemma or_err_act_Ok_iff [simp]: "or_err_act m e w = (Ok x, w') \<longleftrightarrow> m w = (Ok x, w')"
  by (cases "m w") (auto simp: or_err_act_def)

lemma bind_act_UB:
  "fst (m w) \<noteq> UB \<Longrightarrow> (\<And>x w'. m w = (Ok x, w') \<Longrightarrow> fst (f x w') \<noteq> UB) \<Longrightarrow> fst (bind_act m f w) \<noteq> UB"
  by (auto simp: bind_act_def split: prod.splits res.splits)

section \<open>Model: the interfaces\<close>

text \<open>
  \<open>random_bytes\<close> gives the bytes it writes; \<open>recv_some\<close> the bytes it received, given the capacity;
  \<open>close\<close> has no result.
\<close>

record 'w platform =
  pf_random_bytes :: "nat \<Rightarrow> ('w, bytes) action"
  pf_unix_time_seconds :: "'w \<Rightarrow> u64 \<times> 'w"

record 'w stream =
  sm_send_all :: "bytes \<Rightarrow> ('w, unit) action"
  sm_recv_some :: "nat \<Rightarrow> ('w, bytes) action"
  sm_close :: "'w \<Rightarrow> 'w"

section \<open>What the library relies on\<close>

text \<open>
  The contract of the two interfaces, with a measure of the world: how many more bytes the peer will
  send. A call does not leave its buffers, a source of random bytes fills the buffer, the stream
  gives no more than it was asked for, and what it gives is gone. A peer that sends finitely many
  bytes is the one assumption under which the client's loops end.
\<close>

definition obeys :: "('w \<Rightarrow> nat) \<Rightarrow> ('a \<Rightarrow> bool) \<Rightarrow> ('w, 'a) action \<Rightarrow> bool" where
  "obeys budget Q m \<longleftrightarrow> (\<forall>w. safe (fst (m w)) Q \<and> budget (snd (m w)) \<le> budget w)"

lemma obeysI: "(\<And>w r w'. m w = (r, w') \<Longrightarrow> safe r Q \<and> budget w' \<le> budget w) \<Longrightarrow> obeys budget Q m"
  and obeysD: "obeys budget Q m \<Longrightarrow> m w = (r, w') \<Longrightarrow> safe r Q \<and> budget w' \<le> budget w"
  unfolding obeys_def by (metis fst_conv snd_conv prod.collapse)+

lemma obeys_pure: "safe r Q \<Longrightarrow> obeys budget Q (pure_act r)"
  by (auto intro!: obeysI)

lemma obeys_bind:
  assumes "obeys budget P m" and "\<And>x. P x \<Longrightarrow> obeys budget Q (f x)"
  shows "obeys budget Q (bind_act m f)"
proof (rule obeysI)
  fix w r w' assume run: "bind_act m f w = (r, w')"
  obtain r1 w1 where m: "m w = (r1, w1)" by (cases "m w")
  from obeysD [OF assms(1) m] have m1: "safe r1 P" "budget w1 \<le> budget w" by simp_all
  show "safe r Q \<and> budget w' \<le> budget w"
  proof (cases r1)
    case (Ok x)
    with m1 run m have "P x" "f x w1 = (r, w')" by (simp_all add: bind_act_def)
    from obeysD [OF assms(2) [OF this(1)] this(2)] m1(2) show ?thesis by simp
  qed (use m m1 run in \<open>auto simp: bind_act_def\<close>)
qed

lemma obeys_if: "(b \<Longrightarrow> obeys budget Q m) \<Longrightarrow> (\<not> b \<Longrightarrow> obeys budget Q k) \<Longrightarrow>
    obeys budget Q (if b then m else k)"
  by simp

lemma obeys_let: "obeys budget Q (f t) \<Longrightarrow> obeys budget Q (let x = t in f x)"
  by simp

lemma obeys_mono: "obeys budget P m \<Longrightarrow> (\<And>x. P x \<Longrightarrow> Q x) \<Longrightarrow> obeys budget Q m"
  unfolding obeys_def by (blast intro: safe_mono)

locale platform_laws =
  fixes pf :: "'w platform" and budget :: "'w \<Rightarrow> nat"
  assumes random_law: "n \<le> 0xFFFFFFFF \<Longrightarrow> obeys budget (\<lambda>bs. length bs = n) (pf_random_bytes pf n)"
    and clock_law: "budget (snd (pf_unix_time_seconds pf w)) \<le> budget w"

locale stream_laws =
  fixes sm :: "'w stream" and budget :: "'w \<Rightarrow> nat"
  assumes send_law: "obeys budget (\<lambda>_. True) (sm_send_all sm bs)"
    and recv_law: "obeys budget (\<lambda>bs. length bs \<le> n) (sm_recv_some sm n)"
    and recv_uses: "sm_recv_some sm n w = (Ok bs, w') \<Longrightarrow> budget w' + length bs \<le> budget w"
    and close_law: "budget (sm_close sm w) \<le> budget w"

end
