(* ===== verification/Program.thy ===== *)
theory Program
  imports Platform
begin

text \<open>
  Programs of the connection: they work on a state, give a result, and may fail to return, which
  happens only in a loop that the peer keeps alive. \<open>None\<close> is a run that does not return. The
  lemmas are the rules by which the connection is proved: a relation that every step keeps, and a
  measure that lets a loop end.
\<close>

section \<open>Model\<close>

type_synonym ('s, 'a) prog = "'s \<Rightarrow> ('a res \<times> 's) option"

definition ret :: "'a \<Rightarrow> ('s, 'a) prog" where
  "ret x s = Some (Ok x, s)"

definition throw :: "error \<Rightarrow> ('s, 'a) prog" where
  "throw e s = Some (Err e, s)"

definition of_res :: "'a res \<Rightarrow> ('s, 'a) prog" where
  "of_res r s = Some (r, s)"

definition bind_prog :: "('s, 'a) prog \<Rightarrow> ('a \<Rightarrow> ('s, 'b) prog) \<Rightarrow> ('s, 'b) prog" where
  "bind_prog m f s =
     (case m s of
        None \<Rightarrow> None
      | Some (r, s') \<Rightarrow>
          (case r of Ok x \<Rightarrow> f x s' | Err e \<Rightarrow> Some (Err e, s') | UB \<Rightarrow> Some (UB, s')))"

definition then_prog :: "('s, 'a) prog \<Rightarrow> ('s, 'b) prog \<Rightarrow> ('s, 'b) prog" where
  "then_prog m k = bind_prog m (\<lambda>_. k)"

text \<open>A handler for errors; an access outside a buffer is not an error that can be handled.\<close>

definition on_error :: "('s, 'a) prog \<Rightarrow> (error \<Rightarrow> ('s, 'a) prog) \<Rightarrow> ('s, 'a) prog" where
  "on_error m h s =
     (case m s of
        None \<Rightarrow> None
      | Some (r, s') \<Rightarrow> (case r of Ok x \<Rightarrow> Some (Ok x, s') | Err e \<Rightarrow> h e s' | UB \<Rightarrow> Some (UB, s')))"

text \<open>\<open>if (e != XT_OK) return e;\<close> for a routine that gives an error code.\<close>

definition check_error :: "error \<Rightarrow> ('s, unit) prog" where
  "check_error e = (if e = XT_OK then ret () else throw e)"

definition get_state :: "('s, 's) prog" where
  "get_state s = Some (Ok s, s)"

definition update_state :: "('s \<Rightarrow> 's) \<Rightarrow> ('s, unit) prog" where
  "update_state f s = Some (Ok (), f s)"

text \<open>
  A loop whose body gives either the value with which it goes round again or the value of the loop.
\<close>

partial_function (option) loop_prog :: "('l \<Rightarrow> ('s, 'l + 'a) prog) \<Rightarrow> 'l \<Rightarrow> ('s, 'a) prog" where
  "loop_prog body l s =
     Option.bind (body l s) (\<lambda>(r, s').
       (case r of
          Ok (Inl l') \<Rightarrow> loop_prog body l' s'
        | Ok (Inr x) \<Rightarrow> Some (Ok x, s')
        | Err e \<Rightarrow> Some (Err e, s')
        | UB \<Rightarrow> Some (UB, s')))"

section \<open>Runs\<close>

lemma ret_run [simp]: "ret x s = Some (r, s') \<longleftrightarrow> r = Ok x \<and> s' = s"
  and throw_run [simp]: "throw e s = Some (r2, s') \<longleftrightarrow> r2 = Err e \<and> s' = s"
  and of_res_run [simp]: "of_res r0 s = Some (r, s') \<longleftrightarrow> r0 = r \<and> s' = s"
  and get_state_run [simp]: "get_state s = Some (r3, s') \<longleftrightarrow> r3 = Ok s \<and> s' = s"
  and update_state_run [simp]: "update_state f s = Some (r4, s') \<longleftrightarrow> r4 = Ok () \<and> s' = f s"
  by (auto simp: ret_def throw_def of_res_def get_state_def update_state_def)

lemma check_error_run [simp]:
  "check_error e s = Some (r, s') \<longleftrightarrow> s' = s \<and> r = (if e = XT_OK then Ok () else Err e)"
  by (auto simp: check_error_def)

lemma bind_prog_run:
  "bind_prog m f s = Some (r, s') \<longleftrightarrow>
     (\<exists>x s1. m s = Some (Ok x, s1) \<and> f x s1 = Some (r, s'))
     \<or> (\<exists>e. m s = Some (Err e, s') \<and> r = Err e) \<or> (m s = Some (UB, s') \<and> r = UB)"
  by (auto simp: bind_prog_def split: option.splits res.splits)

lemma bind_prog_Ok:
  "bind_prog m f s = Some (Ok y, s') \<longleftrightarrow> (\<exists>x s1. m s = Some (Ok x, s1) \<and> f x s1 = Some (Ok y, s'))"
  by (auto simp: bind_prog_run)

lemma then_prog_Ok:
  "then_prog m k s = Some (Ok y, s') \<longleftrightarrow> (\<exists>x s1. m s = Some (Ok x, s1) \<and> k s1 = Some (Ok y, s'))"
  by (auto simp: then_prog_def bind_prog_Ok)

lemma prog_step:
  "m s = Some (Ok x, t) \<Longrightarrow> bind_prog m f s = f x t"
  "m s = Some (Ok x, t) \<Longrightarrow> then_prog m k s = k t"
  "m s = Some (Ok x, t) \<Longrightarrow> on_error m h s = Some (Ok x, t)"
  "m s = Some (Err e, t) \<Longrightarrow> bind_prog m f s = Some (Err e, t)"
  "m s = Some (Err e, t) \<Longrightarrow> on_error m h s = h e t"
  "m s = Some (UB, t) \<Longrightarrow> bind_prog m f s = Some (UB, t)"
  by (simp_all add: bind_prog_def then_prog_def on_error_def)

lemma on_error_Ok:
  "(\<And>e s1. h e s1 \<noteq> Some (Ok y, s')) \<Longrightarrow>
   on_error m h s = Some (Ok y, s') \<longleftrightarrow> m s = Some (Ok y, s')"
  by (auto simp: on_error_def split: option.splits res.splits)

lemma on_error_Err:
  "on_error m h s = Some (Err e, s') \<longleftrightarrow> (\<exists>e1 s1. m s = Some (Err e1, s1) \<and> h e1 s1 = Some (Err e, s'))"
  by (auto simp: on_error_def split: option.splits res.splits)

text \<open>
  The rule of a loop: what holds before every round holds where the loop stops. It says nothing of
  a loop that does not return.
\<close>

lemma loop_prog_invariant:
  assumes run: "loop_prog body l s = Some (r, s')" and start: "I l s"
    and again: "\<And>l s l' s'. I l s \<Longrightarrow> body l s = Some (Ok (Inl l'), s') \<Longrightarrow> I l' s'"
    and stop: "\<And>l s x s'. I l s \<Longrightarrow> body l s = Some (Ok (Inr x), s') \<Longrightarrow> Q (Ok x) s'"
    and error: "\<And>l s e s'. I l s \<Longrightarrow> body l s = Some (Err e, s') \<Longrightarrow> Q (Err e) s'"
    and ub: "\<And>l s s'. I l s \<Longrightarrow> body l s = Some (UB, s') \<Longrightarrow> Q UB s'"
  shows "Q r s'"
proof -
  define P where "P b \<longleftrightarrow> (\<forall>l s r s'. I l s \<longrightarrow> b l s = Some (r, s') \<longrightarrow>
      (case r of Ok (Inl l') \<Rightarrow> I l' s' | Ok (Inr x) \<Rightarrow> Q (Ok x) s' | Err e \<Rightarrow> Q (Err e) s' | UB \<Rightarrow> Q UB s'))" for b
  have "P body"
    unfolding P_def using again stop error ub by (auto split: res.split sum.split)
  moreover have "P body \<longrightarrow> I l s \<longrightarrow> Q (fst (r, s')) (snd (r, s'))"
  proof (rule loop_prog.raw_induct
      [where P = "\<lambda>body l s y. P body \<longrightarrow> I l s \<longrightarrow> Q (fst y) (snd y)", OF _ run])
    fix loop body l s y
    assume ih: "\<And>body l s y. loop body l s = Some y \<Longrightarrow> P body \<longrightarrow> I l s \<longrightarrow> Q (fst y) (snd y)"
      and run: "Option.bind (body l s) (\<lambda>(r, s'). case r of Ok (Inl l') \<Rightarrow> loop body l' s'
         | Ok (Inr x) \<Rightarrow> Some (Ok x, s') | Err e \<Rightarrow> Some (Err e, s') | UB \<Rightarrow> Some (UB, s')) = Some y"
    show "P body \<longrightarrow> I l s \<longrightarrow> Q (fst y) (snd y)"
    proof (intro impI)
      assume b: "P body" and i: "I l s"
      from run obtain z where "body l s = Some z" by (cases "body l s") simp_all
      then obtain r1 s1 where m: "body l s = Some (r1, s1)" by (cases z) simp
      with b i have out: "case r1 of Ok (Inl l') \<Rightarrow> I l' s1 | Ok (Inr x) \<Rightarrow> Q (Ok x) s1
          | Err e \<Rightarrow> Q (Err e) s1 | UB \<Rightarrow> Q UB s1"
        unfolding P_def by blast
      from run m have c: "(case r1 of Ok (Inl l') \<Rightarrow> loop body l' s1 | Ok (Inr x) \<Rightarrow> Some (Ok x, s1)
          | Err e \<Rightarrow> Some (Err e, s1) | UB \<Rightarrow> Some (UB, s1)) = Some y" by simp
      show "Q (fst y) (snd y)"
        using out c b ih [of body _ s1 y] by (auto split: res.splits sum.splits)
    qed
  qed
  ultimately show ?thesis using start by simp
qed

text \<open>A loop returns when some measure of its rounds goes down.\<close>

lemma loop_prog_returns:
  fixes m :: "'l \<Rightarrow> 's \<Rightarrow> nat"
  assumes start: "I l s"
    and returns: "\<And>l s. I l s \<Longrightarrow> body l s \<noteq> None"
    and again: "\<And>l s l' s'. I l s \<Longrightarrow> body l s = Some (Ok (Inl l'), s') \<Longrightarrow> I l' s' \<and> m l' s' < m l s"
  shows "loop_prog body l s \<noteq> None"
  using start
proof (induction "m l s" arbitrary: l s rule: less_induct)
  case less
  from returns [OF less.prems] obtain r s1 where run: "body l s = Some (r, s1)" by auto
  show ?case
  proof (cases r)
    case (Ok z)
    show ?thesis
    proof (cases z)
      case (Inl l')
      with again [OF less.prems] run Ok have "I l' s1" "m l' s1 < m l s" by auto
      from less.hyps [OF this(2,1)] show ?thesis using run Ok Inl by (simp add: loop_prog.simps)
    qed (use run Ok in \<open>simp add: loop_prog.simps\<close>)
  qed (use run in \<open>simp_all add: loop_prog.simps\<close>)
qed

section \<open>A relation that programs keep\<close>

text \<open>
  \<open>keeps_rel R m\<close>: whatever the result, the state after \<open>m\<close> stands in the relation to the state
  before it. For a reflexive and transitive relation this goes through every construct.
\<close>

definition keeps_rel :: "('s \<Rightarrow> 's \<Rightarrow> bool) \<Rightarrow> ('s, 'a) prog \<Rightarrow> bool" where
  "keeps_rel R m \<longleftrightarrow> (\<forall>s r s'. m s = Some (r, s') \<longrightarrow> R s s')"

lemma keeps_relI: "(\<And>s r s'. m s = Some (r, s') \<Longrightarrow> R s s') \<Longrightarrow> keeps_rel R m"
  and keeps_relD: "keeps_rel R m \<Longrightarrow> m s = Some (r, s') \<Longrightarrow> R s s'"
  by (auto simp: keeps_rel_def)

named_theorems keeps_intros \<open>what keeps a preorder\<close>

locale state_preorder =
  fixes R :: "'s \<Rightarrow> 's \<Rightarrow> bool"
  assumes R_refl: "R s s" and R_trans: "R s t \<Longrightarrow> R t u \<Longrightarrow> R s u"
begin

lemma keeps_ret: "keeps_rel R (ret x)"
  and keeps_throw: "keeps_rel R (throw e)"
  and keeps_of_res: "keeps_rel R (of_res r)"
  and keeps_get: "keeps_rel R get_state"
  and keeps_check: "keeps_rel R (check_error e)"
  by (auto simp: keeps_rel_def R_refl)

lemma keeps_update: "(\<And>s. R s (f s)) \<Longrightarrow> keeps_rel R (update_state f)"
  by (auto simp: keeps_rel_def)

lemma keeps_bind: "keeps_rel R m \<Longrightarrow> (\<And>x. keeps_rel R (f x)) \<Longrightarrow> keeps_rel R (bind_prog m f)"
  unfolding keeps_rel_def bind_prog_run by (blast intro: R_trans)

lemma keeps_at:
  "(\<And>r1 s1. m s = Some (r1, s1) \<Longrightarrow> R s s1) \<Longrightarrow> (\<And>x. keeps_rel R (f x)) \<Longrightarrow>
   bind_prog m f s = Some (r, s') \<Longrightarrow> R s s'"
  unfolding keeps_rel_def bind_prog_run by (blast intro: R_trans)

lemma keeps_then: "keeps_rel R m \<Longrightarrow> keeps_rel R k \<Longrightarrow> keeps_rel R (then_prog m k)"
  unfolding then_prog_def by (rule keeps_bind)

lemma keeps_if: "keeps_rel R m \<Longrightarrow> keeps_rel R k \<Longrightarrow> keeps_rel R (if b then m else k)"
  by simp

lemma keeps_on_error:
  "keeps_rel R m \<Longrightarrow> (\<And>e. keeps_rel R (h e)) \<Longrightarrow> keeps_rel R (on_error m h)"
  unfolding keeps_rel_def on_error_def
  by (auto split: option.splits res.splits) (blast intro: R_trans)+

lemma keeps_loop:
  assumes "\<And>l. keeps_rel R (body l)"
  shows "keeps_rel R (loop_prog body l)"
proof (rule keeps_relI)
  fix s r s' assume run: "loop_prog body l s = Some (r, s')"
  show "R s s'"
    by (rule loop_prog_invariant [OF run, where I = "\<lambda>l t. R s t"])
      (auto simp: R_refl intro: R_trans keeps_relD [OF assms])
qed

end

section \<open>Programs that return and stay inside their buffers\<close>

text \<open>
  \<open>runs m s Q E\<close>: from \<open>s\<close> the program returns, without undefined behaviour, either a value for
  which \<open>Q\<close> holds or an error for which \<open>E\<close> holds.
\<close>

definition runs :: "('s, 'a) prog \<Rightarrow> 's \<Rightarrow> ('a \<Rightarrow> 's \<Rightarrow> bool) \<Rightarrow> (error \<Rightarrow> 's \<Rightarrow> bool) \<Rightarrow> bool" where
  "runs m s Q E \<longleftrightarrow>
     (case m s of
        None \<Rightarrow> False
      | Some (r, t) \<Rightarrow> (case r of Ok x \<Rightarrow> Q x t | Err e \<Rightarrow> E e t | UB \<Rightarrow> False))"

lemma runs_iff:
  "runs m s Q E \<longleftrightarrow> (\<exists>r t. m s = Some (r, t) \<and> r \<noteq> UB \<and> (\<forall>x. r = Ok x \<longrightarrow> Q x t) \<and> (\<forall>e. r = Err e \<longrightarrow> E e t))"
  by (auto simp: runs_def split: option.splits res.splits)

lemma runs_returns:
  assumes "runs m s Q E" and "\<And>x t. Q x t \<Longrightarrow> P t" and "\<And>e t. E e t \<Longrightarrow> P t"
  shows "\<exists>r t. m s = Some (r, t) \<and> r \<noteq> UB \<and> P t"
proof -
  from assms(1) obtain r t where r: "m s = Some (r, t)" "r \<noteq> UB"
    "\<forall>x. r = Ok x \<longrightarrow> Q x t" "\<forall>e. r = Err e \<longrightarrow> E e t"
    unfolding runs_iff by blast
  then have "P t" using assms(2,3) by (cases r) simp_all
  with r show ?thesis by blast
qed

lemma runs_simps [simp]:
  "runs (ret x) s Q E \<longleftrightarrow> Q x s"
  "runs (throw e) s Q E \<longleftrightarrow> E e s"
  "runs get_state s Q2 E \<longleftrightarrow> Q2 s s"
  "runs (update_state f) s Q3 E \<longleftrightarrow> Q3 () (f s)"
  "runs (bind_prog m k) s Q4 E \<longleftrightarrow> runs m s (\<lambda>x t. runs (k x) t Q4 E) E"
  "runs (on_error n h) s Q E \<longleftrightarrow> runs n s Q (\<lambda>e t. runs (h e) t Q E)"
  by (auto simp: runs_def ret_def throw_def get_state_def update_state_def bind_prog_def on_error_def
      split: option.splits res.splits)

lemma runs_then [simp]: "runs (then_prog m k) s Q E \<longleftrightarrow> runs m s (\<lambda>_ t. runs k t Q E) E"
  by (simp add: then_prog_def)

lemma runs_of_res [simp]:
  "runs (of_res r) s Q E \<longleftrightarrow> (case r of Ok x \<Rightarrow> Q x s | Err e \<Rightarrow> E e s | UB \<Rightarrow> False)"
  by (simp add: runs_def of_res_def)

lemma runs_check [simp]: "runs (check_error e) s Q E \<longleftrightarrow> (if e = XT_OK then Q () s else E e s)"
  by (simp add: check_error_def)

lemma runs_mono:
  "runs m s Q E \<Longrightarrow> (\<And>x t. Q x t \<Longrightarrow> Q' x t) \<Longrightarrow> (\<And>e t. E e t \<Longrightarrow> E' e t) \<Longrightarrow> runs m s Q' E'"
  unfolding runs_iff by blast

lemma runs_conj:
  "runs m s Q E \<Longrightarrow> keeps_rel R m \<Longrightarrow> runs m s (\<lambda>x t. Q x t \<and> R s t) (\<lambda>e t. E e t \<and> R s t)"
  unfolding runs_iff keeps_rel_def by blast

lemma runs_loop:
  fixes \<mu> :: "'l \<Rightarrow> 's \<Rightarrow> nat"
  assumes start: "I l s"
    and step: "\<And>l s. I l s \<Longrightarrow>
      runs (body l) s (\<lambda>z t. case z of Inl l' \<Rightarrow> I l' t \<and> \<mu> l' t < \<mu> l s | Inr x \<Rightarrow> Q x t) E"
  shows "runs (loop_prog body l) s Q E"
  using start
proof (induction "\<mu> l s" arbitrary: l s rule: less_induct)
  case less
  from step [OF less.prems] obtain r t where run: "body l s = Some (r, t)" "r \<noteq> UB"
    and ok: "\<And>z. r = Ok z \<Longrightarrow> case z of Inl l' \<Rightarrow> I l' t \<and> \<mu> l' t < \<mu> l s | Inr x \<Rightarrow> Q x t"
    and err: "\<And>e. r = Err e \<Longrightarrow> E e t"
    unfolding runs_iff by blast
  show ?case
  proof (cases r)
    case (Ok z)
    show ?thesis
    proof (cases z)
      case (Inl l')
      with ok [OF Ok] have "I l' t" "\<mu> l' t < \<mu> l s" by simp_all
      from less.hyps [OF this(2,1)] run(1) Ok Inl show ?thesis
        by (simp add: runs_def loop_prog.simps)
    qed (use run ok Ok in \<open>simp add: runs_def loop_prog.simps\<close>)
  qed (use run err in \<open>simp_all add: runs_def loop_prog.simps\<close>)
qed

text \<open>
  \<open>fulfils I \<mu> P m\<close>: wherever the invariant holds, \<open>m\<close> returns without undefined behaviour, keeps the
  invariant, does not raise the measure \<open>\<mu>\<close>, and its value satisfies \<open>P\<close>, which is also told by
  how much the measure went down.
\<close>

definition fulfils :: "('s \<Rightarrow> bool) \<Rightarrow> ('s \<Rightarrow> nat) \<Rightarrow> ('a \<Rightarrow> nat \<Rightarrow> bool) \<Rightarrow> ('s, 'a) prog \<Rightarrow> bool" where
  "fulfils I \<mu> P m \<longleftrightarrow> (\<forall>s. I s \<longrightarrow>
     runs m s (\<lambda>x t. I t \<and> \<mu> t \<le> \<mu> s \<and> P x (\<mu> s - \<mu> t)) (\<lambda>_ t. I t \<and> \<mu> t \<le> \<mu> s))"

abbreviation safely :: "('s \<Rightarrow> bool) \<Rightarrow> ('s \<Rightarrow> nat) \<Rightarrow> ('s, 'a) prog \<Rightarrow> bool" where
  "safely I \<mu> \<equiv> fulfils I \<mu> (\<lambda>_ _. True)"

named_theorems fulfils_intros \<open>what keeps the contract of a program\<close>

lemma fulfilsI:
  "(\<And>s. I s \<Longrightarrow> runs m s (\<lambda>x t. I t \<and> \<mu> t \<le> \<mu> s \<and> P x (\<mu> s - \<mu> t)) (\<lambda>_ t. I t \<and> \<mu> t \<le> \<mu> s)) \<Longrightarrow>
   fulfils I \<mu> P m"
  and fulfilsD:
  "fulfils I \<mu> P m \<Longrightarrow> I s \<Longrightarrow>
   runs m s (\<lambda>x t. I t \<and> \<mu> t \<le> \<mu> s \<and> P x (\<mu> s - \<mu> t)) (\<lambda>_ t. I t \<and> \<mu> t \<le> \<mu> s)"
  by (auto simp: fulfils_def)

lemma fulfils_mono:
  "fulfils I \<mu> P m \<Longrightarrow> (\<And>x d. P x d \<Longrightarrow> Q x d) \<Longrightarrow> fulfils I \<mu> Q m"
  unfolding fulfils_def by (blast intro: runs_mono)

lemma fulfils_ret [fulfils_intros]: "P x 0 \<Longrightarrow> fulfils I \<mu> P (ret x)"
  and fulfils_throw [fulfils_intros]: "fulfils I \<mu> P (throw e)"
  by (simp_all add: fulfils_def)

lemma fulfils_check [fulfils_intros]: "P () 0 \<Longrightarrow> fulfils I \<mu> P (check_error e)"
  by (auto simp: fulfils_def)

lemma fulfils_of_res: "safe r (\<lambda>x. P x 0) \<Longrightarrow> fulfils I \<mu> P (of_res r)"
  by (cases r) (auto simp: fulfils_def)

lemma fulfils_of_res_eq: "r \<noteq> UB \<Longrightarrow> fulfils I \<mu> (\<lambda>x d. d = 0 \<and> r = Ok x) (of_res r)"
  by (cases r) (auto simp: fulfils_def)

lemma fulfils_bind:
  assumes "fulfils I \<mu> P m" and "\<And>x d. P x d \<Longrightarrow> fulfils I \<mu> (\<lambda>y d'. Q y (d + d')) (f x)"
  shows "fulfils I \<mu> Q (bind_prog m f)"
proof (rule fulfilsI)
  fix s assume s: "I s"
  have "runs (f x) t (\<lambda>y u. I u \<and> \<mu> u \<le> \<mu> s \<and> Q y (\<mu> s - \<mu> u)) (\<lambda>_ u. I u \<and> \<mu> u \<le> \<mu> s)"
    if t: "I t \<and> \<mu> t \<le> \<mu> s \<and> P x (\<mu> s - \<mu> t)" for x t
  proof (rule runs_mono [OF fulfilsD [OF assms(2) [of x "\<mu> s - \<mu> t"], of t]])
    fix y u assume "I u \<and> \<mu> u \<le> \<mu> t \<and> Q y (\<mu> s - \<mu> t + (\<mu> t - \<mu> u))"
    with t show "I u \<and> \<mu> u \<le> \<mu> s \<and> Q y (\<mu> s - \<mu> u)" by auto
  qed (use t in auto)
  then show "runs (bind_prog m f) s (\<lambda>y u. I u \<and> \<mu> u \<le> \<mu> s \<and> Q y (\<mu> s - \<mu> u)) (\<lambda>_ u. I u \<and> \<mu> u \<le> \<mu> s)"
    unfolding runs_simps by (rule runs_mono [OF fulfilsD [OF assms(1) s]])
qed

lemma fulfils_then:
  assumes "fulfils I \<mu> P m" and "\<And>x d. P x d \<Longrightarrow> fulfils I \<mu> (\<lambda>y d'. Q y (d + d')) k"
  shows "fulfils I \<mu> Q (then_prog m k)"
  unfolding then_prog_def using assms by (rule fulfils_bind)

lemma fulfils_if [fulfils_intros]:
  "(b \<Longrightarrow> fulfils I \<mu> P m) \<Longrightarrow> (\<not> b \<Longrightarrow> fulfils I \<mu> P k) \<Longrightarrow> fulfils I \<mu> P (if b then m else k)"
  by simp

lemma fulfils_prod [fulfils_intros]:
  "(\<And>x y. p = (x, y) \<Longrightarrow> fulfils I \<mu> P (f x y)) \<Longrightarrow> fulfils I \<mu> P (case p of (x, y) \<Rightarrow> f x y)"
  by (cases p) simp

lemma fulfils_on_error [fulfils_intros]:
  assumes "fulfils I \<mu> Q m" and "\<And>e. fulfils I \<mu> (\<lambda>x d. \<forall>d0. Q x (d0 + d)) (h e)"
  shows "fulfils I \<mu> Q (on_error m h)"
proof (rule fulfilsI)
  fix s assume s: "I s"
  show "runs (on_error m h) s (\<lambda>x t. I t \<and> \<mu> t \<le> \<mu> s \<and> Q x (\<mu> s - \<mu> t)) (\<lambda>_ t. I t \<and> \<mu> t \<le> \<mu> s)"
    unfolding runs_simps
  proof (rule runs_mono [OF fulfilsD [OF assms(1) s]])
    fix e t assume t: "I t \<and> \<mu> t \<le> \<mu> s"
    then have "I t" ..
    from fulfilsD [OF assms(2) this]
    show "runs (h e) t (\<lambda>x u. I u \<and> \<mu> u \<le> \<mu> s \<and> Q x (\<mu> s - \<mu> u)) (\<lambda>_ u. I u \<and> \<mu> u \<le> \<mu> s)"
    proof (rule runs_mono)
      fix x u assume "I u \<and> \<mu> u \<le> \<mu> t \<and> (\<forall>d0. Q x (d0 + (\<mu> t - \<mu> u)))"
      then have "Q x ((\<mu> s - \<mu> t) + (\<mu> t - \<mu> u))" and u: "I u" "\<mu> u \<le> \<mu> t" by blast+
      moreover from u t have "(\<mu> s - \<mu> t) + (\<mu> t - \<mu> u) = \<mu> s - \<mu> u" by auto
      ultimately show "I u \<and> \<mu> u \<le> \<mu> s \<and> Q x (\<mu> s - \<mu> u)" using t by simp
    qed (use t in auto)
  qed
qed

text \<open>
  A loop whose rounds either lower the measure or leave it and lower a measure of the loop's own
  variable.
\<close>

lemma fulfils_loop:
  fixes \<nu> :: "'l \<Rightarrow> nat"
  assumes body: "\<And>l. J l \<Longrightarrow> fulfils I \<mu> (\<lambda>z d. case z of
      Inl l' \<Rightarrow> J l' \<and> \<nu> l' \<le> \<nu> l \<and> (0 < d \<or> \<nu> l' < \<nu> l) | Inr x \<Rightarrow> P x) (body l)"
    and start: "J l"
  shows "fulfils I \<mu> (\<lambda>x _. P x) (loop_prog body l)"
proof (rule fulfilsI)
  fix s0 assume s0: "I s0"
  show "runs (loop_prog body l) s0 (\<lambda>x t. I t \<and> \<mu> t \<le> \<mu> s0 \<and> P x) (\<lambda>_ t. I t \<and> \<mu> t \<le> \<mu> s0)"
  proof (rule runs_loop [where I = "\<lambda>l t. I t \<and> \<mu> t \<le> \<mu> s0 \<and> J l" and \<mu> = "\<lambda>l t. \<mu> t + \<nu> l"])
    fix l s assume l: "I s \<and> \<mu> s \<le> \<mu> s0 \<and> J l"
    then show "runs (body l) s
        (\<lambda>z t. case z of Inl l' \<Rightarrow> (I t \<and> \<mu> t \<le> \<mu> s0 \<and> J l') \<and> \<mu> t + \<nu> l' < \<mu> s + \<nu> l
           | Inr x \<Rightarrow> I t \<and> \<mu> t \<le> \<mu> s0 \<and> P x)
        (\<lambda>_ t. I t \<and> \<mu> t \<le> \<mu> s0)"
      by (intro runs_mono [OF fulfilsD [OF body]]) (auto split: sum.splits)
  qed (use s0 start in simp)
qed

end
