(* ===== verification/Endian.thy ===== *)
theory Endian
  imports Prelude
begin

text \<open>
  Big-endian loads and stores (\<open>endian.h\<close>, and the local copies \<open>be24\<close>, \<open>load_u24\<close>,
  \<open>read_u24\<close>, \<open>read_be24_local\<close> and \<open>put_be64\<close> of the other files): the value a load reads, and
  that loads undo stores.
\<close>

section \<open>Byte combinations\<close>

definition be16 :: "u8 \<Rightarrow> u8 \<Rightarrow> u16" where
  "be16 a b = push_bit 8 (ucast a) OR ucast b"

definition be24 :: "u8 \<Rightarrow> u8 \<Rightarrow> u8 \<Rightarrow> u32" where
  "be24 a b c = push_bit 16 (ucast a) OR push_bit 8 (ucast b) OR ucast c"

definition be32 :: "u8 \<Rightarrow> u8 \<Rightarrow> u8 \<Rightarrow> u8 \<Rightarrow> u32" where
  "be32 a b c d =
     push_bit 24 (ucast a) OR push_bit 16 (ucast b) OR push_bit 8 (ucast c) OR ucast d"

section \<open>Loads from a span\<close>

definition load_be16 :: "byte_span \<Rightarrow> nat \<Rightarrow> u16 res" where
  "load_be16 s p = bind_res (rd s p) (\<lambda>a. bind_res (rd s (p + 1)) (\<lambda>b. Ok (be16 a b)))"

definition load_be24 :: "byte_span \<Rightarrow> nat \<Rightarrow> u32 res" where
  "load_be24 s p =
     bind_res (rd s p) (\<lambda>a. bind_res (rd s (p + 1)) (\<lambda>b. bind_res (rd s (p + 2)) (\<lambda>c.
       Ok (be24 a b c))))"

definition load_be32 :: "byte_span \<Rightarrow> nat \<Rightarrow> u32 res" where
  "load_be32 s p =
     bind_res (rd s p) (\<lambda>a. bind_res (rd s (p + 1)) (\<lambda>b.
     bind_res (rd s (p + 2)) (\<lambda>c. bind_res (rd s (p + 3)) (\<lambda>d. Ok (be32 a b c d)))))"

section \<open>Stores\<close>

definition store_be16 :: "u16 \<Rightarrow> bytes" where
  "store_be16 v = [ucast (drop_bit 8 v), ucast v]"

definition store_be24 :: "u32 \<Rightarrow> bytes" where
  "store_be24 v = [ucast (drop_bit 16 v), ucast (drop_bit 8 v), ucast v]"

definition store_be32 :: "u32 \<Rightarrow> bytes" where
  "store_be32 v = [ucast (drop_bit 24 v), ucast (drop_bit 16 v), ucast (drop_bit 8 v), ucast v]"

definition store_be64 :: "u64 \<Rightarrow> bytes" where
  "store_be64 v = map (\<lambda>i. ucast (drop_bit (8 * (7 - i)) v)) [0..<8]"

text \<open>
  The loop of \<open>put_be64\<close> and \<open>make_record_nonce\<close>: from the last byte to the first, store the low
  byte and shift the value right.
\<close>

primrec put_be_loop :: "nat \<Rightarrow> u64 \<Rightarrow> bytes" where
  "put_be_loop 0 v = []"
| "put_be_loop (Suc k) v = put_be_loop k (drop_bit 8 v) @ [ucast v]"

definition put_be64 :: "u64 \<Rightarrow> bytes" where
  "put_be64 v = put_be_loop 8 v"

lemma length_put_be_loop [simp]: "length (put_be_loop k v) = k"
  by (induction k arbitrary: v) simp_all

lemma put_be_loop_eq: "put_be_loop k v = map (\<lambda>i. ucast (drop_bit (8 * (k - 1 - i)) v)) [0..<k]"
proof (induction k arbitrary: v)
  case 0
  show ?case by simp
next
  case (Suc k)
  have "put_be_loop k (drop_bit 8 v) = map (\<lambda>i. ucast (drop_bit (8 * (k - i)) v)) [0..<k]"
    unfolding Suc.IH
  proof (rule map_cong [OF refl])
    fix i assume "i \<in> set [0..<k]"
    then have "8 * (k - 1 - i) + 8 = 8 * (k - i)" by auto
    then show "ucast (drop_bit (8 * (k - 1 - i)) (drop_bit 8 v)) = ucast (drop_bit (8 * (k - i)) v)"
      by (simp add: drop_bit_drop_bit)
  qed
  then show ?case by simp
qed

lemma put_be64_eq: "put_be64 v = store_be64 v"
  by (simp only: put_be64_def store_be64_def put_be_loop_eq) simp

lemma length_put_be64 [simp, bytes_simps]: "length (put_be64 v) = 8"
  by (simp add: put_be64_def)

lemma length_store [simp, bytes_simps]:
  "length (store_be16 a) = 2" "length (store_be24 b) = 3"
  "length (store_be32 b) = 4" "length (store_be64 c) = 8"
  by (simp_all add: store_be16_def store_be24_def store_be32_def store_be64_def)

section \<open>Values\<close>

lemma unat_push_or:
  fixes x y :: "'a::len word"
  assumes y: "unat y < 2 ^ k" and x: "unat x * 2 ^ k < 2 ^ LENGTH('a)"
  shows "unat (push_bit k x OR y) = unat x * 2 ^ k + unat y"
proof -
  have t: "take_bit k (unat y) = unat y"
    using y by (simp add: take_bit_nat_eq_self)
  have "push_bit k (unat x) AND take_bit k (unat y) = 0"
    by (rule bit_eqI) (auto simp: bit_simps)
  then have "push_bit k (unat x) OR unat y = push_bit k (unat x) + unat y"
    unfolding t by (simp add: disjunctive_add_eq_or)
  moreover have "unat (push_bit k x) = push_bit k (unat x)"
    unfolding unsigned_push_bit_eq
    using x by (intro take_bit_nat_eq_self) (simp add: push_bit_eq_mult)
  ultimately show ?thesis
    by (simp add: unsigned_or_eq push_bit_eq_mult)
qed

lemma unat_u8_less [simp]: "unat (x :: u8) < 256"
  using unsigned_less [of x] by simp

lemma unat_u8_le [simp]: "unat (x :: u8) \<le> 255"
  using unat_u8_less [of x] by linarith

lemma unat_ucast_u8 [simp]:
  "unat (ucast (x :: u8) :: u16) = unat x" "unat (ucast x :: u32) = unat x"
  "unat (ucast x :: u64) = unat x"
  using unat_u8_less [of x]
  by (simp_all add: unsigned_ucast_eq take_bit_nat_eq_self_iff del: unat_u8_less)

lemma unat_be16: "unat (be16 a b) = 256 * unat a + unat b"
  unfolding be16_def
  using unat_u8_less [of a] unat_u8_less [of b] by (subst unat_push_or) simp_all

lemma unat_be16_less [simp]: "unat (be16 a b) < 65536"
  using unsigned_less [of "be16 a b"] by simp

lemma push_bit_or_nested:
  "push_bit 16 x OR push_bit 8 y OR z = push_bit 8 (push_bit 8 x OR y) OR (z :: u32)"
  by (simp add: or.assoc)

lemma unat_be24: "unat (be24 a b c) = 65536 * unat a + 256 * unat b + unat c"
proof -
  note bounds = unat_u8_less [of a] unat_u8_less [of b] unat_u8_less [of c]
  have i: "unat (push_bit 8 (ucast a) OR ucast b :: u32) = unat a * 2 ^ 8 + unat b"
    by (subst unat_push_or) (use bounds in \<open>simp_all del: unat_u8_less\<close>)
  have "(unat a * 2 ^ 8 + unat b) * 2 ^ 8 < (2::nat) ^ 32"
    using bounds by (simp del: unat_u8_less)
  then have "unat (push_bit 8 (push_bit 8 (ucast a) OR ucast b) OR ucast c :: u32)
          = (unat a * 2 ^ 8 + unat b) * 2 ^ 8 + unat c"
    by (subst unat_push_or) (simp_all only: i unat_ucast_u8, simp_all)
  then show ?thesis
    by (simp add: be24_def push_bit_or_nested algebra_simps del: push_bit_or)
qed

lemma unat_be24_less [simp]: "unat (be24 a b c) < 16777216"
proof -
  note unat_u8_le [of a] unat_u8_le [of b] unat_u8_le [of c]
  then show ?thesis unfolding unat_be24 by linarith
qed

subsection \<open>Loads undo stores\<close>

lemma be16_store: "be16 (ucast (drop_bit 8 v)) (ucast v) = (v :: u16)"
  unfolding be16_def by (rule bit_word_eqI) (auto simp: bit_simps)

lemma be24_store:
  assumes "unat (v :: u32) < 2 ^ 24"
  shows "be24 (ucast (drop_bit 16 v)) (ucast (drop_bit 8 v)) (ucast v) = v"
proof -
  have "take_bit 24 (unat v) = unat v" using assms by (simp add: take_bit_nat_eq_self)
  then have "bit (unat v) n \<Longrightarrow> n < 24" for n by (metis bit_take_bit_iff)
  then have small: "bit v n \<Longrightarrow> n < 24" for n
    by (simp add: bit_unsigned_iff)
  show ?thesis
    unfolding be24_def
  proof (rule bit_word_eqI)
    fix n assume "n < LENGTH(32)"
    show "bit (push_bit 16 (ucast (ucast (drop_bit 16 v) :: u8)) OR
           push_bit 8 (ucast (ucast (drop_bit 8 v) :: u8)) OR ucast (ucast v :: u8) :: u32) n
          = bit v n"
    proof (cases "n < 8")
      case True
      then show ?thesis by (auto simp: bit_simps)
    next
      case ge8: False
      show ?thesis
      proof (cases "n < 16")
        case True
        with ge8 have "n - 8 < 8" by linarith
        with True ge8 show ?thesis by (auto simp: bit_simps)
      next
        case False
        with small [of n] have "bit v n \<Longrightarrow> n - 16 < 8" by linarith
        with False ge8 \<open>n < LENGTH(32)\<close> show ?thesis by (auto simp: bit_simps)
      qed
    qed
  qed
qed

lemma be32_store:
  "be32 (ucast (drop_bit 24 v)) (ucast (drop_bit 16 v)) (ucast (drop_bit 8 v)) (ucast v)
     = (v :: u32)"
  unfolding be32_def
proof (rule bit_word_eqI)
  fix n assume n: "n < LENGTH(32)"
  consider "n < 8" | "8 \<le> n" "n < 16" | "16 \<le> n" "n < 24" | "24 \<le> n" by linarith
  then show "bit (push_bit 24 (ucast (ucast (drop_bit 24 v) :: u8)) OR
         push_bit 16 (ucast (ucast (drop_bit 16 v) :: u8)) OR
         push_bit 8 (ucast (ucast (drop_bit 8 v) :: u8)) OR ucast (ucast v :: u8) :: u32) n
       = bit v n"
  proof cases
    case 2
    then have "n - 8 < 8" by linarith
    with 2 show ?thesis by (auto simp: bit_simps)
  next
    case 3
    then have "n - 16 < 8" "\<not> n - 8 < 8" by linarith+
    with 3 show ?thesis by (auto simp: bit_simps)
  next
    case 4
    with n have "n - 24 < 8" "\<not> n - 16 < 8" "\<not> n - 8 < 8" by auto
    with 4 n show ?thesis by (auto simp: bit_simps)
  qed (auto simp: bit_simps)
qed

lemma load_store_be16: "load_be16 (Span (pre @ store_be16 v @ post)) (length pre) = Ok v"
  by (simp add: load_be16_def store_be16_def rd_def nth_append be16_store)

lemma load_store_be24:
  "unat v < 2 ^ 24 \<Longrightarrow> load_be24 (Span (pre @ store_be24 v @ post)) (length pre) = Ok v"
  by (simp add: load_be24_def store_be24_def rd_def nth_append be24_store)

lemma load_store_be32: "load_be32 (Span (pre @ store_be32 v @ post)) (length pre) = Ok v"
  by (simp add: load_be32_def store_be32_def rd_def nth_append be32_store)

subsection \<open>Loads are safe inside the span\<close>

lemma load_be16_Ok [simp]:
  "p + 1 < length (span_bytes s) \<Longrightarrow>
   load_be16 s p = Ok (be16 (span_bytes s ! p) (span_bytes s ! (p + 1)))"
  by (simp add: load_be16_def)

lemma load_be24_Ok [simp]:
  "p + 2 < length (span_bytes s) \<Longrightarrow>
   load_be24 s p =
     Ok (be24 (span_bytes s ! p) (span_bytes s ! (p + 1)) (span_bytes s ! (p + 2)))"
  by (simp add: load_be24_def)

lemma safe_load_be16 [simp, safe_simps]:
  "safe (load_be16 s p) Q
     = (p + 1 < length (span_bytes s) \<and> Q (be16 (span_bytes s ! p) (span_bytes s ! (p + 1))))"
  by (auto simp: load_be16_def)

lemma safe_load_be24 [simp, safe_simps]:
  "safe (load_be24 s p) Q
     = (p + 2 < length (span_bytes s) \<and>
        Q (be24 (span_bytes s ! p) (span_bytes s ! (p + 1)) (span_bytes s ! (p + 2))))"
  by (auto simp: load_be24_def)

end
