(* ===== verification/Wire.thy ===== *)
theory Wire
  imports Endian
begin

text \<open>
  The wire forms that the parsers and the writer of the handshake share: big-endian length
  prefixes and the list of extensions, each a 16-bit type, a 16-bit length and that many bytes.
\<close>

section \<open>Stores undo loads\<close>

lemma high_bit_u8: "\<not> bit (x :: u8) (8 + n)" "\<not> bit x (16 + n)"
  by (auto dest: bit_imp_le_length)

lemma store_be16_be16: "store_be16 (be16 a b) = [a, b]"
  unfolding store_be16_def be16_def
  by (auto intro!: bit_word_eqI simp: bit_simps high_bit_u8)

lemma store_be24_be24: "store_be24 (be24 a b c) = [a, b, c]"
  unfolding store_be24_def be24_def
  by (auto intro!: bit_word_eqI simp: bit_simps high_bit_u8)

lemma of_nat_unat_be16: "of_nat (unat (be16 a b)) = be16 a b"
  and of_nat_unat_be24: "of_nat (unat (be24 a b c)) = be24 a b c"
  by simp_all

lemma unat_of_nat_u8: "n < 256 \<Longrightarrow> unat (of_nat n :: u8) = n"
  and unat_of_nat_u16: "n < 65536 \<Longrightarrow> unat (of_nat n :: u16) = n"
  and unat_of_nat_u32: "n < 4294967296 \<Longrightarrow> unat (of_nat n :: u32) = n"
  by (simp_all add: unat_of_nat)

lemma of_nat_u16_eq_iff: "n < 65536 \<Longrightarrow> (of_nat n :: u16) = w \<longleftrightarrow> n = unat w"
  by (auto simp: unat_of_nat_u16)

lemma of_nat_u8_eq_iff: "n < 256 \<Longrightarrow> (of_nat n :: u8) = w \<longleftrightarrow> n = unat w"
  by (auto simp: unat_of_nat_u8)

section \<open>Reading at a suffix\<close>

lemma drop_two: "p + 2 \<le> length xs \<Longrightarrow> drop p xs = [xs ! p, xs ! (p + 1)] @ drop (p + 2) xs"
  by (simp add: Cons_nth_drop_Suc [symmetric] numeral_eq_Suc)

lemma drop_three:
  "p + 3 \<le> length xs \<Longrightarrow> drop p xs = [xs ! p, xs ! (p + 1), xs ! (p + 2)] @ drop (p + 3) xs"
  by (simp add: Cons_nth_drop_Suc [symmetric] numeral_eq_Suc)

lemma drop_slice: "p + n \<le> length xs \<Longrightarrow> drop p xs = slice xs p n @ drop (p + n) xs"
  by (simp add: slice_def add.commute flip: drop_drop)

lemma slice_of_drop: "drop p xs = ys @ zs \<Longrightarrow> slice xs p (length ys) = ys"
  by (simp add: slice_def)

lemma drop_of_drop: "drop p xs = ys @ zs \<Longrightarrow> drop (p + length ys) xs = zs"
  by (metis add.commute append_eq_conv_conj drop_drop)

lemma drop_append_length: "drop p xs = ys @ zs \<Longrightarrow> ys \<noteq> [] \<Longrightarrow> p + length ys + length zs = length xs"
  by (cases "p \<le> length xs") (drule arg_cong [where f = length], simp)+

text \<open>A 16-bit load where the bytes of a value stand.\<close>

lemma load_be16_at:
  assumes "drop p xs = store_be16 v @ zs"
  shows "load_be16 (Span xs) p = Ok v" and "p + 2 \<le> length xs" and "drop (p + 2) xs = zs"
proof -
  have l: "p + length (store_be16 v) + length zs = length xs"
    using drop_append_length [OF assms] by (auto simp: store_be16_def)
  then show "p + 2 \<le> length xs" by simp
  have "xs = take p xs @ store_be16 v @ zs" using assms by (metis append_take_drop_id)
  then show "load_be16 (Span xs) p = Ok v"
    using load_store_be16 [of "take p xs" v zs] l by simp
  show "drop (p + 2) xs = zs" using drop_of_drop [OF assms] by simp
qed

lemma load_be24_at:
  assumes "drop p xs = store_be24 v @ zs" and "unat v < 16777216"
  shows "load_be24 (Span xs) p = Ok v" and "p + 3 \<le> length xs" and "drop (p + 3) xs = zs"
proof -
  have l: "p + length (store_be24 v) + length zs = length xs"
    using drop_append_length [OF assms(1)] by (auto simp: store_be24_def)
  then show "p + 3 \<le> length xs" by simp
  have "xs = take p xs @ store_be24 v @ zs" using assms(1) by (metis append_take_drop_id)
  then show "load_be24 (Span xs) p = Ok v"
    using load_store_be24 [of v "take p xs" zs] l assms(2) by simp
  show "drop (p + 3) xs = zs" using drop_of_drop [OF assms(1)] by simp
qed

lemma subspan_at:
  assumes "drop p xs = b @ zs" and "p \<le> length xs"
  shows "subspan (Span xs) p (length b) = Ok (Span b)" and "p + length b \<le> length xs"
    and "drop (p + length b) xs = zs"
proof -
  have "length (drop p xs) = length (b @ zs)" by (simp only: assms(1))
  then show "p + length b \<le> length xs" using assms(2) by simp
  then show "subspan (Span xs) p (length b) = Ok (Span b)"
    using slice_of_drop [OF assms(1)] by (simp add: subspan_def)
  show "drop (p + length b) xs = zs" using drop_of_drop [OF assms(1)] .
qed

text \<open>A read that succeeds shows what stands at its offset.\<close>

lemma rd_drop: "rd (Span xs) p = Ok v \<Longrightarrow> drop p xs = [v] @ drop (p + 1) xs"
  by (auto simp: rd_def Cons_nth_drop_Suc split: if_splits)

lemma load_be16_drop: "load_be16 (Span xs) p = Ok v \<Longrightarrow> drop p xs = store_be16 v @ drop (p + 2) xs"
  using drop_two [of p xs]
  by (auto simp: load_be16_def rd_def store_be16_be16 split: if_splits)

lemma load_be24_drop: "load_be24 (Span xs) p = Ok v \<Longrightarrow> drop p xs = store_be24 v @ drop (p + 3) xs"
  using drop_three [of p xs]
  by (auto simp: load_be24_def rd_def store_be24_be24 split: if_splits)

lemma load_be24_less: "load_be24 s p = Ok v \<Longrightarrow> unat v < 16777216"
  by (auto simp: load_be24_def bind_res_Ok_iff)

lemma subspan_drop:
  "subspan (Span xs) p n = Ok s \<Longrightarrow> \<exists>b. s = Span b \<and> length b = n \<and> drop p xs = b @ drop (p + n) xs"
  using drop_slice [of p n xs] by (auto simp: subspan_Ok_iff)

lemma rd_bytes_drop:
  "rd_bytes (Span xs) p n = Ok b \<Longrightarrow> drop p xs = b @ drop (p + n) xs \<and> length b = n"
  using drop_slice [of p n xs] by (auto simp: rd_bytes_def split: if_splits)

text \<open>Conversely, what stands at an offset is read there.\<close>

lemma rd_at: "drop p xs = [v] @ zs \<Longrightarrow> rd (Span xs) p = Ok v \<and> drop (p + 1) xs = zs"
  using drop_append_length [of p xs "[v]" zs]
  by (auto simp: rd_def) (metis append.simps hd_drop_conv_nth list.sel(1) drop_of_drop less_add_Suc1
      list.distinct(1) list.size(3,4) One_nat_def add.commute plus_1_eq_Suc)+

lemma rd_bytes_at:
  "drop p xs = b @ zs \<Longrightarrow> p \<le> length xs \<Longrightarrow>
   rd_bytes (Span xs) p (length b) = Ok b \<and> drop (p + length b) xs = zs \<and> p + length b \<le> length xs"
  using drop_of_drop [of p xs b zs] slice_of_drop [of p xs b zs] arg_cong [of _ _ length]
  by (cases "b = []") (auto simp: rd_bytes_def dest: drop_append_length)

text \<open>Reading from a slice is reading from where it was cut.\<close>

lemma load_be16_slice:
  "p + n \<le> length xs \<Longrightarrow> k + 2 \<le> n \<Longrightarrow>
   load_be16 (Span (slice xs p n)) k = load_be16 (Span xs) (p + k)"
  by (simp add: load_be16_def slice_nth add.assoc)

lemma rd_bytes_slice:
  "p + n \<le> length xs \<Longrightarrow> k + m \<le> n \<Longrightarrow>
   rd_bytes (Span (slice xs p n)) k m = rd_bytes (Span xs) (p + k) m"
  by (auto simp: rd_bytes_def slice_def drop_take min_def add.commute)

section \<open>Extensions\<close>

type_synonym extension = "u16 \<times> bytes"

fun ext_bytes :: "extension \<Rightarrow> bytes" where
  "ext_bytes (t, d) = store_be16 t @ store_be16 (of_nat (length d)) @ d"

definition exts_bytes :: "extension list \<Rightarrow> bytes" where
  "exts_bytes exts = concat (map ext_bytes exts)"

definition ext_fits :: "extension \<Rightarrow> bool" where
  "ext_fits e \<longleftrightarrow> length (snd e) < 65536"

lemma exts_bytes_simps [simp]:
  "exts_bytes [] = []" "exts_bytes (e # es) = ext_bytes e @ exts_bytes es"
  "exts_bytes (es @ fs) = exts_bytes es @ exts_bytes fs"
  by (simp_all add: exts_bytes_def)

lemma length_ext_bytes [simp, bytes_simps]: "length (ext_bytes e) = 4 + length (snd e)"
  by (cases e) simp

text \<open>What the two loads of an extension header show of the bytes, and conversely.\<close>

lemma ext_at_read:
  assumes "p + 4 \<le> length xs" and "l = be16 (xs ! (p + 2)) (xs ! (p + 3))"
    and "p + 4 + unat l \<le> length xs"
  shows "drop p xs = ext_bytes (be16 (xs ! p) (xs ! (p + 1)), slice xs (p + 4) (unat l))
           @ drop (p + 4 + unat l) xs"
proof -
  have i: "3 + p = p + 3" "p + 2 + 1 = p + 3" "p + 2 + 2 = p + 4" by simp_all
  have "drop p xs = [xs ! p, xs ! (p + 1)] @ drop (p + 2) xs"
    using assms by (intro drop_two) simp
  also have "drop (p + 2) xs = [xs ! (p + 2), xs ! (p + 3)] @ drop (p + 4) xs"
    using drop_two [of "p + 2" xs] assms(1) i by simp
  also have "drop (p + 4) xs = slice xs (p + 4) (unat l) @ drop (p + 4 + unat l) xs"
    using assms(3) by (rule drop_slice)
  finally show ?thesis
    using assms by (simp add: store_be16_be16 add.commute)
qed

lemma ext_at_write:
  assumes "drop p xs = ext_bytes (t, d) @ zs" and "length d < 65536"
  shows "load_be16 (Span xs) p = Ok t"
    and "load_be16 (Span xs) (p + 2) = Ok (of_nat (length d))"
    and "unat (of_nat (length d) :: u16) = length d"
    and "slice xs (p + 4) (length d) = d"
    and "drop (p + 4 + length d) xs = zs"
    and "p + 4 + length d + length zs = length xs"
proof -
  have d: "drop p xs = store_be16 t @ store_be16 (of_nat (length d)) @ d @ zs"
    using assms(1) by simp
  note h = load_be16_at [OF d]
  note h2 = load_be16_at [OF h(3)]
  have d4: "drop (p + 4) xs = d @ zs" using h2(3) by (simp add: add.assoc)
  show "load_be16 (Span xs) p = Ok t" by (rule h(1))
  show "load_be16 (Span xs) (p + 2) = Ok (of_nat (length d))" by (rule h2(1))
  show "unat (of_nat (length d) :: u16) = length d" using assms(2) by (rule unat_of_nat_u16)
  show "slice xs (p + 4) (length d) = d" using slice_of_drop [OF d4] .
  show "drop (p + 4 + length d) xs = zs" using drop_of_drop [OF d4] .
  show "p + 4 + length d + length zs = length xs"
    using drop_append_length [OF assms(1)] by (simp add: store_be16_def)
qed

section \<open>Readers of an extension list\<close>

text \<open>
  Several messages end in a list of extensions that is read by the same kind of loop: take a
  header, check that the data is there, hand the data to a step that updates a state, go on behind
  it. \<open>run_exts\<close> is what such a loop means on the decoded list.
\<close>

primrec run_exts ::
    "(byte_span \<Rightarrow> u16 \<Rightarrow> nat \<Rightarrow> nat \<Rightarrow> 's \<Rightarrow> 's res) \<Rightarrow> extension list \<Rightarrow> 's \<Rightarrow> 's res" where
  "run_exts step [] s = Ok s"
| "run_exts step (e # es) s =
     bind_res (step (Span (snd e)) (fst e) 0 (length (snd e)) s) (run_exts step es)"

lemma run_exts_invariant:
  assumes "run_exts step exts s = Ok r" and "P s"
    and "\<And>t d s s'. P s \<Longrightarrow> step (Span d) t 0 (length d) s = Ok s' \<Longrightarrow> P s'"
  shows "P r"
  using assms(1,2) by (induction exts arbitrary: s) (auto simp: bind_res_Ok_iff intro: assms(3))

locale extension_reader =
  fixes step :: "byte_span \<Rightarrow> u16 \<Rightarrow> nat \<Rightarrow> nat \<Rightarrow> 's \<Rightarrow> 's res"
    and loop :: "byte_span \<Rightarrow> nat \<Rightarrow> nat \<Rightarrow> 's \<Rightarrow> 's res"
  assumes step_local: "p + len \<le> length body \<Longrightarrow>
      step (Span body) t p len s = step (Span (slice body p len)) t 0 len s"
    and step_safe: "step (Span d) t 0 (length d) s \<noteq> UB"
    and loop_done: "loop (Span body) p 0 s = Ok s"
    and loop_short: "0 < remain \<Longrightarrow> remain < 4 \<Longrightarrow>
      loop (Span body) p remain s = Err XT_ERR_BAD_HANDSHAKE"
    and loop_step: "p + remain = length body \<Longrightarrow> 4 \<le> remain \<Longrightarrow>
      load_be16 (Span body) p = Ok t \<Longrightarrow> load_be16 (Span body) (p + 2) = Ok l \<Longrightarrow>
      loop (Span body) p remain s =
        (if remain - 4 < unat l then Err XT_ERR_BAD_HANDSHAKE
         else bind_res (step (Span body) t (p + 4) (unat l) s)
           (loop (Span body) (p + 4 + unat l) (remain - 4 - unat l)))"
begin

text \<open>On the bytes of a list of extensions the loop runs the steps in order.\<close>

lemma loop_exts:
  assumes "drop p body = exts_bytes exts" and "list_all ext_fits exts"
    and "p + length (exts_bytes exts) = length body"
  shows "loop (Span body) p (length (exts_bytes exts)) s = run_exts step exts s"
  using assms
proof (induction exts arbitrary: p s)
  case Nil
  then show ?case by (simp add: loop_done)
next
  case (Cons e es)
  obtain t d where e: "e = (t, d)" by (cases e)
  have dr: "drop p body = ext_bytes (t, d) @ exts_bytes es" and ld: "length d < 65536"
    using Cons.prems e by (simp_all add: ext_fits_def)
  note w = ext_at_write [OF dr ld]
  have "p + 4 + length d \<le> length body" using w(6) by simp
  then have st: "step (Span body) t (p + 4) (length d) s = step (Span d) t 0 (length d) s"
    using step_local w(4) by metis
  have r: "loop (Span body) p (4 + length d + length (exts_bytes es)) s =
     bind_res (step (Span body) t (p + 4) (length d) s)
       (loop (Span body) (p + 4 + length d) (length (exts_bytes es)))"
    using w(6) by (subst loop_step [OF _ _ w(1,2)]) (simp_all add: w(3))
  have "loop (Span body) (p + 4 + length d) (length (exts_bytes es)) s' = run_exts step es s'" for s'
    using Cons.IH w(5,6) Cons.prems(2) by simp
  then show ?case using r st by (simp add: e add.assoc cong: bind_res_cong)
qed

text \<open>Conversely, a loop that succeeds has read such a list.\<close>

lemma loop_Ok:
  assumes "loop (Span body) p remain s = Ok r" and "p + remain = length body"
  shows "\<exists>exts. drop p body = exts_bytes exts \<and> list_all ext_fits exts \<and> run_exts step exts s = Ok r"
  using assms
proof (induction remain arbitrary: p s rule: less_induct)
  case (less remain)
  show ?case
  proof (cases "remain = 0")
    case True
    with less.prems show ?thesis by (intro exI [of _ "[]"]) (simp add: loop_done)
  next
    case False
    with less.prems loop_short [of remain] have rem: "4 \<le> remain"
      by (metis gr0I not_le res.distinct(1))
    define t where "t = be16 (body ! p) (body ! (p + 1))"
    define w where "w = be16 (body ! (p + 2)) (body ! (p + 3))"
    define d where "d = slice body (p + 4) (unat w)"
    have ld: "load_be16 (Span body) p = Ok t" "load_be16 (Span body) (p + 2) = Ok w"
      using rem less.prems(2) by (simp_all add: t_def w_def add.commute)
    note st = loop_step [OF less.prems(2) rem ld]
    with less.prems(1) have nl: "\<not> remain - 4 < unat w" by (auto split: if_splits)
    with rem less.prems(2) have fit: "p + 4 + unat w \<le> length body" by simp
    from less.prems(1) nl obtain s' where s': "step (Span body) t (p + 4) (unat w) s = Ok s'"
      and rec: "loop (Span body) (p + 4 + unat w) (remain - 4 - unat w) s' = Ok r"
      unfolding st by (auto simp: bind_res_Ok_iff)
    have lt: "remain - 4 - unat w < remain" using rem by simp
    obtain es where es: "drop (p + 4 + unat w) body = exts_bytes es" "list_all ext_fits es"
      "run_exts step es s' = Ok r"
      using less.IH [OF lt rec] fit less.prems(2) rem by auto
    have "drop p body = ext_bytes (t, d) @ exts_bytes es"
      unfolding t_def d_def es(1) [symmetric] using fit by (intro ext_at_read w_def) simp_all
    moreover have "ext_fits (t, d)"
      using unat_be16_less [of "body ! (p + 2)" "body ! (p + 3)"]
      unfolding ext_fits_def d_def w_def [symmetric] by simp
    moreover have "step (Span d) t 0 (length d) s = Ok s'"
      using s' step_local [OF fit] fit by (simp add: d_def)
    ultimately show ?thesis using es by (intro exI [of _ "(t, d) # es"]) simp
  qed
qed

lemma loop_iff:
  assumes "p + remain = length body"
  shows "loop (Span body) p remain s = Ok r \<longleftrightarrow>
    (\<exists>exts. drop p body = exts_bytes exts \<and> list_all ext_fits exts \<and> run_exts step exts s = Ok r)"
proof
  assume "loop (Span body) p remain s = Ok r"
  then show "\<exists>exts. drop p body = exts_bytes exts \<and> list_all ext_fits exts
      \<and> run_exts step exts s = Ok r"
    using assms by (rule loop_Ok)
next
  assume "\<exists>exts. drop p body = exts_bytes exts \<and> list_all ext_fits exts \<and> run_exts step exts s = Ok r"
  then obtain exts where e: "drop p body = exts_bytes exts" "list_all ext_fits exts"
    "run_exts step exts s = Ok r" by blast
  have "length (exts_bytes exts) = remain" using assms unfolding e(1) [symmetric] by simp
  with loop_exts [OF e(1,2)] e(3) assms show "loop (Span body) p remain s = Ok r" by auto
qed

lemma loop_safe:
  assumes "p + remain = length body"
  shows "loop (Span body) p remain s \<noteq> UB"
  using assms
proof (induction remain arbitrary: p s rule: less_induct)
  case (less remain)
  consider "remain = 0" | "0 < remain" "remain < 4" | "4 \<le> remain" by linarith
  then show ?case
  proof cases
    case 3
    then obtain t l where ld: "load_be16 (Span body) p = Ok t" "load_be16 (Span body) (p + 2) = Ok l"
      using less.prems by (simp add: add.assoc)
    show ?thesis
    proof (cases "remain - 4 < unat l")
      case True
      then show ?thesis by (simp add: loop_step [OF less.prems 3 ld])
    next
      case False
      with less.prems 3 have fit: "p + 4 + unat l \<le> length body" by simp
      have lt: "remain - 4 - unat l < remain" using 3 by simp
      have "step (Span body) t (p + 4) (unat l) s \<noteq> UB"
        using step_safe [of "slice body (p + 4) (unat l)" t s] fit step_local [OF fit, of t s] by simp
      with less.IH [OF lt] fit less.prems False show ?thesis
        by (cases "step (Span body) t (p + 4) (unat l) s") (auto simp: loop_step [OF less.prems 3 ld])
    qed
  qed (simp_all add: loop_done loop_short)
qed

end

end
