(* ===== verification/Bignum.thy ===== *)
theory Bignum
  imports Endian
begin

text \<open>
  The multi-word natural numbers that \<open>src/crypto/p256_verify.cpp\<close> (\<open>N256\<close>, nine words) and
  \<open>src/crypto/rsa_verify.cpp\<close> (\<open>Nat\<close>, 129 words) both define, with the same code: an array of
  32-bit words, least significant first, of which the first \<open>n\<close> count. The capacity is the length
  of the array. The lemmas relate every operation to natural numbers.
\<close>

section \<open>Model\<close>

record limbs =
  lw :: "u32 list"
  ln :: nat

definition limbs_zero :: "nat \<Rightarrow> limbs" where
  "limbs_zero cap = \<lparr>lw = replicate cap 0, ln = 0\<rparr>"

primrec trim_len :: "u32 list \<Rightarrow> nat \<Rightarrow> nat" where
  "trim_len w 0 = 0"
| "trim_len w (Suc n) = (if w ! n = 0 then trim_len w n else Suc n)"

definition trim :: "limbs \<Rightarrow> limbs" where
  "trim a = a\<lparr>ln := trim_len (lw a) (ln a)\<rparr>"

primrec cmp_words :: "u32 list \<Rightarrow> u32 list \<Rightarrow> nat \<Rightarrow> int" where
  "cmp_words v w 0 = 0"
| "cmp_words v w (Suc i) =
     (if v ! i \<noteq> w ! i then (if v ! i < w ! i then -1 else 1) else cmp_words v w i)"

definition cmp :: "limbs \<Rightarrow> limbs \<Rightarrow> int" where
  "cmp a b =
     (if ln a \<noteq> ln b then (if ln a < ln b then -1 else 1) else cmp_words (lw a) (lw b) (ln a))"

text \<open>Big-endian bytes to words; a number that does not fit is read as zero.\<close>

definition limbs_be :: "nat \<Rightarrow> bytes \<Rightarrow> limbs" where
  "limbs_be cap p =
     (let n = length p; nw = (n + 3) div 4 in
      if nw > cap - 1 then limbs_zero cap
      else trim \<lparr>lw = fold (\<lambda>i w. w[i div 4 := (w ! (i div 4)) OR
                            push_bit ((i mod 4) * 8) (ucast (p ! (n - 1 - i)))]) [0..<n]
                        (replicate cap 0),
                 ln = nw\<rparr>)"

text \<open>\<open>i < a.n ? a.w[i] : 0\<close>\<close>

definition limb :: "limbs \<Rightarrow> nat \<Rightarrow> u64" where
  "limb a i = (if i < ln a then ucast (lw a ! i) else 0)"

fun sub_step :: "limbs \<Rightarrow> nat \<Rightarrow> u32 list \<times> u64 \<Rightarrow> u32 list \<times> u64" where
  "sub_step b i (w, br) =
     (let av = ucast (w ! i); bv = limb b i + br in
      if av \<ge> bv then (w[i := ucast (av - bv)], 0)
      else (w[i := ucast (push_bit 32 1 + av - bv)], 1))"

definition subraw :: "limbs \<Rightarrow> limbs \<Rightarrow> limbs" where
  "subraw a b = trim (a\<lparr>lw := fst (fold (sub_step b) [0..<ln a] (lw a, 0))\<rparr>)"

fun add_step :: "limbs \<Rightarrow> limbs \<Rightarrow> nat \<Rightarrow> u32 list \<times> u64 \<Rightarrow> u32 list \<times> u64" where
  "add_step a b i (w, c) =
     (let s = c + limb a i + limb b i in (w[i := ucast s], drop_bit 32 s))"

definition addm :: "limbs \<Rightarrow> limbs \<Rightarrow> limbs \<Rightarrow> limbs" where
  "addm a b m =
     (let (w, c) = fold (add_step a b) [0..<ln m] (replicate (length (lw m)) 0, 0);
          t = trim \<lparr>lw = w[ln m := ucast c], ln = ln m + 1\<rparr>
      in if ln t > ln m \<or> cmp t m \<ge> 0 then subraw t m else t)"

definition subm :: "limbs \<Rightarrow> limbs \<Rightarrow> limbs \<Rightarrow> limbs" where
  "subm a b m = (if cmp a b \<ge> 0 then subraw a b else subraw m (subraw b a))"

primrec word_bits :: "u32 \<Rightarrow> nat \<Rightarrow> nat" where
  "word_bits v 0 = 0"
| "word_bits v (Suc b) = (if drop_bit b v AND 1 = 0 then word_bits v b else Suc b)"

definition nbits :: "limbs \<Rightarrow> nat" where
  "nbits a = (if ln a = 0 then 0 else (ln a - 1) * 32 + word_bits (lw a ! (ln a - 1)) 32)"

definition limb_bit :: "limbs \<Rightarrow> nat \<Rightarrow> bool" where
  "limb_bit a i \<longleftrightarrow> i div 32 < ln a \<and> drop_bit (i mod 32) (lw a ! (i div 32)) AND 1 \<noteq> 0"

definition limbs_small :: "nat \<Rightarrow> u32 \<Rightarrow> limbs" where
  "limbs_small cap v =
     (if v = 0 then limbs_zero cap else \<lparr>lw = (replicate cap 0)[0 := v], ln = 1\<rparr>)"

text \<open>
  The loop of \<open>mulm\<close> and \<open>powm\<close>, over the bits from the lowest: combine the accumulator when the
  bit is set, then combine the base with itself.
\<close>

definition binary_loop :: "('a \<Rightarrow> 'a \<Rightarrow> 'a) \<Rightarrow> bool list \<Rightarrow> 'a \<times> 'a \<Rightarrow> 'a \<times> 'a" where
  "binary_loop opr bits ra =
     fold (\<lambda>b (r, a). (if b then opr r a else r, opr a a)) bits ra"

definition limb_bits :: "limbs \<Rightarrow> bool list" where
  "limb_bits b = map (limb_bit b) [0..<nbits b]"

definition mulm :: "limbs \<Rightarrow> limbs \<Rightarrow> limbs \<Rightarrow> limbs" where
  "mulm a b m =
     fst (binary_loop (\<lambda>x y. addm x y m) (limb_bits b) (limbs_zero (length (lw m)), a))"

definition powm :: "limbs \<Rightarrow> limbs \<Rightarrow> limbs \<Rightarrow> limbs" where
  "powm a e m =
     fst (binary_loop (\<lambda>x y. mulm x y m) (limb_bits e) (limbs_small (length (lw m)) 1, a))"

definition limbs_eq :: "limbs \<Rightarrow> limbs \<Rightarrow> bool" where
  "limbs_eq a b \<longleftrightarrow> cmp a b = 0"

section \<open>Values\<close>

definition words_val :: "u32 list \<Rightarrow> nat \<Rightarrow> nat" where
  "words_val w n = (\<Sum>i < n. unat (w ! i) * 2 ^ (32 * i))"

definition limbs_val :: "limbs \<Rightarrow> nat" where
  "limbs_val a = words_val (lw a) (ln a)"

text \<open>Inside the array, and without a leading zero word.\<close>

definition limbs_ok :: "limbs \<Rightarrow> bool" where
  "limbs_ok a \<longleftrightarrow> ln a \<le> length (lw a) \<and> (ln a \<noteq> 0 \<longrightarrow> lw a ! (ln a - 1) \<noteq> 0)"

lemma words_val_0 [simp]: "words_val w 0 = 0"
  and words_val_Suc: "words_val w (Suc n) = words_val w n + unat (w ! n) * 2 ^ (32 * n)"
  by (simp_all add: words_val_def)

lemma digit_less:
  fixes x a b B :: nat
  assumes "x < B" and "a < b"
  shows "x + a * B < b * B"
proof -
  have "(a + 1) * B \<le> b * B" using assms(2) by (intro mult_le_mono1) simp
  with assms(1) show ?thesis by simp
qed

lemma unat_u32_less: "unat (x :: u32) < 2 ^ 32"
  using unsigned_less [of x] by simp

lemma words_val_less: "words_val w n < 2 ^ (32 * n)"
proof (induction n)
  case (Suc n)
  have "words_val w n + unat (w ! n) * 2 ^ (32 * n) < 2 ^ 32 * 2 ^ (32 * n)"
    using Suc unat_u32_less by (rule digit_less)
  then show ?case by (simp add: words_val_Suc power_add)
qed simp

lemma words_val_cong: "(\<And>i. i < n \<Longrightarrow> v ! i = w ! i) \<Longrightarrow> words_val v n = words_val w n"
  by (simp add: words_val_def)

lemma words_val_trim: "words_val w (trim_len w n) = words_val w n"
  by (induction n) (simp_all add: words_val_Suc)

lemma trim_len_le: "trim_len w n \<le> n"
  by (induction n) simp_all

lemma trim_len_top: "trim_len w n \<noteq> 0 \<Longrightarrow> w ! (trim_len w n - 1) \<noteq> 0"
  by (induction n) (simp_all split: if_splits)

lemma trim_val [simp]: "limbs_val (trim a) = limbs_val a"
  by (simp add: limbs_val_def trim_def words_val_trim)

lemma trim_ok: "ln a \<le> length (lw a) \<Longrightarrow> limbs_ok (trim a)"
  using trim_len_le [of "lw a" "ln a"] trim_len_top [of "lw a" "ln a"]
  by (simp add: limbs_ok_def trim_def)

lemma trim_lw [simp]: "lw (trim a) = lw a"
  by (simp add: trim_def)

lemma words_val_lower: "n \<noteq> 0 \<Longrightarrow> w ! (n - 1) \<noteq> 0 \<Longrightarrow> 2 ^ (32 * (n - 1)) \<le> words_val w n"
proof -
  assume n: "n \<noteq> 0" and w: "w ! (n - 1) \<noteq> 0"
  then obtain k where k: "n = Suc k" by (cases n) auto
  have "1 \<le> unat (w ! k)" using w k by (simp add: unat_gt_0 Suc_leI)
  then have "1 * 2 ^ (32 * k) \<le> unat (w ! k) * 2 ^ (32 * k)" by (rule mult_le_mono1)
  then have "2 ^ (32 * k) \<le> words_val w k + unat (w ! k) * 2 ^ (32 * k)" by linarith
  then show ?thesis by (simp add: k words_val_Suc)
qed

text \<open>A normalised number with fewer words is smaller.\<close>

lemma limbs_val_ln_less:
  assumes "limbs_ok b" and "ln a < ln b"
  shows "limbs_val a < limbs_val b"
proof -
  have "limbs_val a < 2 ^ (32 * ln a)" by (simp add: limbs_val_def words_val_less)
  also have "\<dots> \<le> 2 ^ (32 * (ln b - 1))" using assms(2) by (intro power_increasing) auto
  also have "\<dots> \<le> limbs_val b"
    using assms unfolding limbs_val_def limbs_ok_def by (intro words_val_lower) auto
  finally show ?thesis .
qed

lemma limbs_ln_mono: "limbs_ok a \<Longrightarrow> limbs_val a \<le> limbs_val b \<Longrightarrow> ln a \<le> ln b"
  using limbs_val_ln_less [of a b] by (meson leD le_less_linear)

lemma cmp_words_val:
  "cmp_words v w n = (if words_val v n < words_val w n then -1
     else if words_val v n = words_val w n then 0 else 1)"
proof (induction n)
  case (Suc n)
  have lv: "words_val v n < 2 ^ (32 * n)" "words_val w n < 2 ^ (32 * n)"
    by (rule words_val_less)+
  show ?case
  proof (cases "v ! n = w ! n")
    case True
    with Suc show ?thesis by (simp add: words_val_Suc)
  next
    case False
    then consider "unat (v ! n) < unat (w ! n)" | "unat (w ! n) < unat (v ! n)"
      by (metis linorder_neqE_nat word_unat_eq_iff)
    then show ?thesis
    proof cases
      case 1
      from digit_less [OF lv(1) 1] have "words_val v (Suc n) < words_val w (Suc n)"
        by (simp add: words_val_Suc)
      with 1 show ?thesis by (simp add: word_less_nat_alt False del: words_val_Suc)
    next
      case 2
      from digit_less [OF lv(2) 2] have "words_val w (Suc n) < words_val v (Suc n)"
        by (simp add: words_val_Suc)
      with 2 show ?thesis by (simp add: word_less_nat_alt False del: words_val_Suc)
    qed
  qed
qed simp

text \<open>Comparison is comparison of values.\<close>

lemma cmp_val:
  assumes "limbs_ok a" and "limbs_ok b"
  shows "cmp a b = (if limbs_val a < limbs_val b then -1
    else if limbs_val a = limbs_val b then 0 else 1)"
proof (cases "ln a = ln b")
  case True
  then show ?thesis by (simp add: cmp_def cmp_words_val limbs_val_def)
next
  case False
  then show ?thesis
    using limbs_val_ln_less [OF assms(2), of a] limbs_val_ln_less [OF assms(1), of b]
    by (auto simp: cmp_def)
qed

lemma cmp_less_iff: "limbs_ok a \<Longrightarrow> limbs_ok b \<Longrightarrow> cmp a b < 0 \<longleftrightarrow> limbs_val a < limbs_val b"
  and cmp_ge_iff: "limbs_ok a \<Longrightarrow> limbs_ok b \<Longrightarrow> cmp a b \<ge> 0 \<longleftrightarrow> limbs_val b \<le> limbs_val a"
  and limbs_eq_iff: "limbs_ok a \<Longrightarrow> limbs_ok b \<Longrightarrow> limbs_eq a b \<longleftrightarrow> limbs_val a = limbs_val b"
  by (auto simp: cmp_val limbs_eq_def)

section \<open>Subtraction\<close>

definition limb_val :: "limbs \<Rightarrow> nat \<Rightarrow> nat" where
  "limb_val a n = (\<Sum>i < n. unat (limb a i) * 2 ^ (32 * i))"

lemma limb_val_0 [simp]: "limb_val a 0 = 0"
  and limb_val_Suc: "limb_val a (Suc n) = limb_val a n + unat (limb a n) * 2 ^ (32 * n)"
  by (simp_all add: limb_val_def)

lemma unat_ucast_u32_u64: "unat (ucast (x :: u32) :: u64) = unat x"
  using unat_u32_less [of x] by (simp add: unsigned_ucast_eq take_bit_nat_eq_self_iff)

lemma unat_limb_less: "unat (limb a i) < 2 ^ 32"
  using unat_u32_less [of "lw a ! i"] by (simp add: limb_def unat_ucast_u32_u64)

lemma limb_val_eq: "ln a \<le> n \<Longrightarrow> limb_val a n = limbs_val a"
proof -
  assume "ln a \<le> n"
  then have "limb_val a n = (\<Sum>i < ln a. unat (limb a i) * 2 ^ (32 * i))"
    unfolding limb_val_def
    by (intro sum.mono_neutral_right) (auto simp: limb_def)
  also have "\<dots> = limbs_val a"
    unfolding limbs_val_def words_val_def
    by (intro sum.cong) (simp_all add: limb_def unat_ucast_u32_u64)
  finally show ?thesis .
qed

lemma unat_u64_plus: "unat x + unat y < 2 ^ 64 \<Longrightarrow> unat (x + y :: u64) = unat x + unat y"
  by (simp add: unat_word_ariths)

lemma unat_ucast_u64_u32: "unat (ucast (x :: u64) :: u32) = unat x mod 2 ^ 32"
  by (simp add: unsigned_ucast_eq take_bit_eq_mod)

text \<open>One digit: what is borrowed is what is missing.\<close>

lemma sub_step_digit:
  assumes "sub_step b i (w, br) = (w', br')" and "unat br \<le> 1" and "i < length w"
  shows "unat (w ! i) + unat br' * 2 ^ 32 = unat (w' ! i) + unat (limb b i) + unat br
    \<and> unat br' \<le> 1 \<and> length w' = length w \<and> (\<forall>j. j \<noteq> i \<longrightarrow> w' ! j = w ! j)"
proof -
  define av where "av = (ucast (w ! i) :: u64)"
  define bv where "bv = limb b i + br"
  have a: "unat av = unat (w ! i)" "unat av < 2 ^ 32"
    using unat_u32_less [of "w ! i"] by (simp_all add: av_def unat_ucast_u32_u64)
  have b: "unat bv = unat (limb b i) + unat br" "unat bv \<le> 2 ^ 32"
    using unat_limb_less [of b i] assms(2) unfolding bv_def
    by (subst unat_u64_plus; simp)+
  show ?thesis
  proof (cases "av \<ge> bv")
    case True
    then have "unat (av - bv) = unat av - unat bv" "unat bv \<le> unat av"
      by (simp_all add: unat_sub word_le_nat_alt)
    moreover have "w' = w[i := ucast (av - bv)]" "br' = 0"
      using assms(1) True by (simp_all add: av_def bv_def Let_def)
    ultimately show ?thesis
      using a b assms(3) by (simp add: unat_ucast_u64_u32)
  next
    case False
    then have lt: "unat av < unat bv" by (simp add: word_le_nat_alt)
    have "unat (push_bit 32 1 + av - bv :: u64) = 2 ^ 32 + unat av - unat bv"
      using a b lt by (subst unat_sub) (simp_all add: word_le_nat_alt unat_u64_plus)
    moreover have "w' = w[i := ucast (push_bit 32 1 + av - bv)]" "br' = 1"
      using assms(1) False by (simp_all add: av_def bv_def Let_def)
    ultimately show ?thesis
      using a b lt assms(3) by (simp add: unat_ucast_u64_u32)
  qed
qed

lemma sub_fold:
  assumes "n \<le> length w" and "fold (sub_step b) [0..<n] (w, 0) = (w', br)"
  shows "words_val w n + unat br * 2 ^ (32 * n) = words_val w' n + limb_val b n
    \<and> unat br \<le> 1 \<and> length w' = length w \<and> (\<forall>j \<ge> n. w' ! j = w ! j)"
  using assms
proof (induction n arbitrary: w' br)
  case 0
  then show ?case by simp
next
  case (Suc n)
  obtain w1 br1 where f: "fold (sub_step b) [0..<n] (w, 0) = (w1, br1)" by fastforce
  with Suc.prems have st: "sub_step b n (w1, br1) = (w', br)" by simp
  from Suc.IH [OF _ f] Suc.prems(1)
  have ih: "words_val w n + unat br1 * 2 ^ (32 * n) = words_val w1 n + limb_val b n"
    "unat br1 \<le> 1" "length w1 = length w" "\<forall>j \<ge> n. w1 ! j = w ! j" by simp_all
  from sub_step_digit [OF st ih(2)] ih(3) Suc.prems(1)
  have d: "unat (w1 ! n) + unat br * 2 ^ 32 = unat (w' ! n) + unat (limb b n) + unat br1"
    "unat br \<le> 1" "length w' = length w1" "\<forall>j. j \<noteq> n \<longrightarrow> w' ! j = w1 ! j" by simp_all
  have eq: "words_val w' n = words_val w1 n" using d(4) by (intro words_val_cong) simp
  have "(unat (w1 ! n) + unat br * 2 ^ 32) * 2 ^ (32 * n)
      = (unat (w' ! n) + unat (limb b n) + unat br1) * 2 ^ (32 * n)"
    using d(1) by simp
  then have "words_val w (Suc n) + unat br * 2 ^ (32 * Suc n)
      = words_val w' (Suc n) + limb_val b (Suc n)"
    using ih(1,4) eq by (simp add: words_val_Suc limb_val_Suc power_add algebra_simps)
  then show ?case using d ih by simp
qed

lemma subraw_val:
  assumes "limbs_ok a" and "limbs_ok b" and "limbs_val b \<le> limbs_val a"
  shows "limbs_val (subraw a b) = limbs_val a - limbs_val b \<and> limbs_ok (subraw a b)
    \<and> length (lw (subraw a b)) = length (lw a)"
proof -
  obtain w br where f: "fold (sub_step b) [0..<ln a] (lw a, 0) = (w, br)" by fastforce
  have la: "ln a \<le> length (lw a)" using assms(1) by (simp add: limbs_ok_def)
  have lb: "ln b \<le> ln a" using limbs_ln_mono assms by blast
  from sub_fold [OF la f] have s: "limbs_val a + unat br * 2 ^ (32 * ln a)
      = words_val w (ln a) + limbs_val b" "unat br \<le> 1" "length w = length (lw a)"
    using limb_val_eq [OF lb] by (simp_all add: limbs_val_def)
  have "words_val w (ln a) < 2 ^ (32 * ln a)" by (rule words_val_less)
  then have "unat br = 0" using s(1,2) assms(3) by (cases "unat br") auto
  with s have "words_val w (ln a) = limbs_val a - limbs_val b" by simp
  moreover have "subraw a b = trim (a\<lparr>lw := w\<rparr>)" by (simp add: subraw_def f)
  moreover have "limbs_ok (trim (a\<lparr>lw := w\<rparr>))" using la s(3) by (intro trim_ok) simp
  ultimately show ?thesis using s(3) by (simp add: limbs_val_def [of "a\<lparr>lw := w\<rparr>"])
qed

section \<open>Modular addition and subtraction\<close>

lemma add_step_digit:
  assumes "add_step a b i (w, c) = (w', c')" and "unat c \<le> 1" and "i < length w"
  shows "unat (w' ! i) + unat c' * 2 ^ 32 = unat (limb a i) + unat (limb b i) + unat c
    \<and> unat c' \<le> 1 \<and> length w' = length w \<and> (\<forall>j. j \<noteq> i \<longrightarrow> w' ! j = w ! j)"
proof -
  define s where "s = c + limb a i + limb b i"
  have "unat (c + limb a i) = unat c + unat (limb a i)"
    using unat_limb_less [of a i] assms(2) by (intro unat_u64_plus) simp
  then have s: "unat s = unat c + unat (limb a i) + unat (limb b i)"
    using unat_limb_less [of a i] unat_limb_less [of b i] assms(2) unfolding s_def
    by (subst unat_u64_plus) simp_all
  have "unat (drop_bit 32 s) = drop_bit 32 (unat s)" by (rule unat_drop_bit_eq)
  then have "unat (drop_bit 32 s) = unat s div 2 ^ 32" by (simp only: drop_bit_eq_div)
  moreover have "unat s < 2 * 2 ^ 32"
    using s unat_limb_less [of a i] unat_limb_less [of b i] assms(2) by simp
  moreover have "unat (ucast s :: u32) = unat s mod 2 ^ 32" by (rule unat_ucast_u64_u32)
  moreover have "w' = w[i := ucast s]" "c' = drop_bit 32 s"
    using assms(1) by (simp_all add: s_def Let_def)
  moreover have "unat s mod 2 ^ 32 + unat s div 2 ^ 32 * 2 ^ 32 = unat s" by simp
  ultimately show ?thesis using s assms(3) by (simp add: less_mult_imp_div_less)
qed

lemma add_fold:
  assumes "n \<le> length w" and "fold (add_step a b) [0..<n] (w, 0) = (w', c)"
  shows "words_val w' n + unat c * 2 ^ (32 * n) = limb_val a n + limb_val b n
    \<and> unat c \<le> 1 \<and> length w' = length w"
  using assms
proof (induction n arbitrary: w' c)
  case 0
  then show ?case by simp
next
  case (Suc n)
  obtain w1 c1 where f: "fold (add_step a b) [0..<n] (w, 0) = (w1, c1)" by fastforce
  with Suc.prems have st: "add_step a b n (w1, c1) = (w', c)" by simp
  from Suc.IH [OF _ f] Suc.prems(1)
  have ih: "words_val w1 n + unat c1 * 2 ^ (32 * n) = limb_val a n + limb_val b n"
    "unat c1 \<le> 1" "length w1 = length w" by simp_all
  from add_step_digit [OF st ih(2)] ih(3) Suc.prems(1)
  have d: "unat (w' ! n) + unat c * 2 ^ 32 = unat (limb a n) + unat (limb b n) + unat c1"
    "unat c \<le> 1" "length w' = length w1" "\<forall>j. j \<noteq> n \<longrightarrow> w' ! j = w1 ! j" by simp_all
  have eq: "words_val w' n = words_val w1 n" using d(4) by (intro words_val_cong) simp
  have "(unat (w' ! n) + unat c * 2 ^ 32) * 2 ^ (32 * n)
      = (unat (limb a n) + unat (limb b n) + unat c1) * 2 ^ (32 * n)"
    using d(1) by simp
  then have "words_val w' (Suc n) + unat c * 2 ^ (32 * Suc n)
      = limb_val a (Suc n) + limb_val b (Suc n)"
    using ih(1) eq by (simp add: words_val_Suc limb_val_Suc power_add algebra_simps)
  then show ?case using d ih by simp
qed

text \<open>A residue of the modulus \<open>m\<close>: normalised, below \<open>m\<close>, in an array as long as \<open>m\<close>'s.\<close>

definition residue :: "limbs \<Rightarrow> limbs \<Rightarrow> bool" where
  "residue m a \<longleftrightarrow> limbs_ok a \<and> limbs_val a < limbs_val m \<and> length (lw a) = length (lw m)"

definition modulus_ok :: "limbs \<Rightarrow> bool" where
  "modulus_ok m \<longleftrightarrow> limbs_ok m \<and> ln m < length (lw m) \<and> 1 < limbs_val m"

lemma addm_val:
  assumes m: "modulus_ok m" and a: "residue m a" and b: "residue m b"
  shows "residue m (addm a b m)
    \<and> limbs_val (addm a b m) = (limbs_val a + limbs_val b) mod limbs_val m"
proof -
  define n where "n = ln m"
  obtain w c where f: "fold (add_step a b) [0..<n] (replicate (length (lw m)) 0, 0) = (w, c)"
    by fastforce
  have mok: "limbs_ok m" "n < length (lw m)" using m by (simp_all add: modulus_ok_def n_def)
  have ln: "ln a \<le> n" "ln b \<le> n"
    using a b mok limbs_ln_mono unfolding residue_def n_def by (meson less_imp_le)+
  from add_fold [OF _ f] mok(2) have s: "words_val w n + unat c * 2 ^ (32 * n)
      = limbs_val a + limbs_val b" "unat c \<le> 1" "length w = length (lw m)"
    using limb_val_eq [OF ln(1)] limb_val_eq [OF ln(2)] by simp_all
  define t where "t = trim \<lparr>lw = w[n := ucast c], ln = n + 1\<rparr>"
  have uc: "unat (ucast c :: u32) = unat c" using s(2) by (simp add: unat_ucast_u64_u32)
  have "words_val (w[n := ucast c]) n = words_val w n" by (rule words_val_cong) simp
  moreover have "limbs_val t = words_val (w[n := ucast c]) (Suc n)"
    unfolding t_def trim_val by (simp add: limbs_val_def)
  moreover have "w[n := ucast c] ! n = ucast c" using s(3) mok(2) by simp
  ultimately have tv: "limbs_val t = limbs_val a + limbs_val b"
    using s(1) uc by (simp only: words_val_Suc)
  have tok: "limbs_ok t" "length (lw t) = length (lw m)"
    using mok(2) s(3) unfolding t_def by (auto intro: trim_ok)
  have cond: "ln t > ln m \<or> cmp t m \<ge> 0 \<longleftrightarrow> limbs_val m \<le> limbs_val t"
    using limbs_val_ln_less [OF tok(1), of m] cmp_ge_iff [OF tok(1) mok(1)] by auto
  have r: "addm a b m = (if limbs_val m \<le> limbs_val t then subraw t m else t)"
    unfolding addm_def n_def [symmetric] f using cond by (simp add: t_def Let_def n_def)
  have sum: "limbs_val a + limbs_val b < 2 * limbs_val m" using a b by (simp add: residue_def)
  show ?thesis
  proof (cases "limbs_val m \<le> limbs_val t")
    case True
    note sv = subraw_val [OF tok(1) mok(1) True]
    have "(limbs_val a + limbs_val b) mod limbs_val m = limbs_val a + limbs_val b - limbs_val m"
      using True tv sum by (subst le_mod_geq) simp_all
    then show ?thesis using sv tok True sum tv r by (simp add: residue_def)
  next
    case False
    then show ?thesis using tv tok r by (simp add: residue_def)
  qed
qed

lemma subm_val:
  assumes m: "modulus_ok m" and a: "residue m a" and b: "residue m b"
  shows "residue m (subm a b m)
    \<and> int (limbs_val (subm a b m)) = (int (limbs_val a) - int (limbs_val b)) mod int (limbs_val m)"
proof (cases "limbs_val b \<le> limbs_val a")
  case True
  have "subm a b m = subraw a b"
    using a b True cmp_ge_iff [of a b] by (simp add: subm_def residue_def)
  then show ?thesis
    using subraw_val [of a b] a b True by (auto simp: residue_def of_nat_diff)
next
  case False
  have r: "subm a b m = subraw m (subraw b a)"
    using a b False cmp_ge_iff [of a b] by (simp add: subm_def residue_def)
  have d: "limbs_val (subraw b a) = limbs_val b - limbs_val a" "limbs_ok (subraw b a)"
    using subraw_val [of b a] a b False by (simp_all add: residue_def)
  have le: "limbs_val (subraw b a) \<le> limbs_val m" using d b by (auto simp: residue_def)
  note v = subraw_val [OF _ d(2) le]
  have mok: "limbs_ok m" using m by (simp add: modulus_ok_def)
  have "(int (limbs_val a) - int (limbs_val b)) mod int (limbs_val m)
      = int (limbs_val a) - int (limbs_val b) + int (limbs_val m)"
  proof -
    have "(int (limbs_val a) - int (limbs_val b)) mod int (limbs_val m)
        = (int (limbs_val a) - int (limbs_val b) + int (limbs_val m)) mod int (limbs_val m)"
      by simp
    also have "\<dots> = int (limbs_val a) - int (limbs_val b) + int (limbs_val m)"
      using a b False by (intro mod_pos_pos_trivial) (simp_all add: residue_def)
    finally show ?thesis .
  qed
  then show ?thesis
    using v [OF mok] d a b False r by (auto simp: residue_def)
qed

section \<open>Bits\<close>

lemma bit_digit:
  fixes x y :: nat
  assumes "x < 2 ^ k"
  shows "bit (x + y * 2 ^ k) i = (if i < k then bit x i else bit y (i - k))"
proof (cases "i < k")
  case True
  have "(2::nat) ^ k = 2 ^ i * 2 ^ (k - i)" using True by (simp flip: power_add)
  then have "x + y * 2 ^ k = x + 2 ^ i * (y * 2 ^ (k - i))" by (simp add: ac_simps)
  then have "(x + y * 2 ^ k) div 2 ^ i = y * 2 ^ (k - i) + x div 2 ^ i"
    by (simp only: div_mult_self2 power_eq_0_iff numeral_eq_iff, simp)
  moreover have "even (y * 2 ^ (k - i))" using True by simp
  ultimately show ?thesis using True by (simp add: bit_iff_odd)
next
  case False
  then have "(2::nat) ^ i = 2 ^ k * 2 ^ (i - k)" by (simp flip: power_add)
  then have "(x + y * 2 ^ k) div 2 ^ i = (x + y * 2 ^ k) div 2 ^ k div 2 ^ (i - k)"
    by (simp add: div_mult2_eq)
  moreover have "(x + y * 2 ^ k) div 2 ^ k = y" using assms by simp
  ultimately show ?thesis using False by (simp add: bit_iff_odd)
qed

lemma and_one_eq_bit: "drop_bit j v AND 1 \<noteq> (0 :: u32) \<longleftrightarrow> bit v j"
  by (simp add: and_one_eq bit_iff_odd_drop_bit odd_iff_mod_2_eq_one)

lemma bit_words_val:
  "bit (words_val w n) i \<longleftrightarrow> i div 32 < n \<and> bit (w ! (i div 32)) (i mod 32)"
proof (induction n)
  case (Suc n)
  have "bit (words_val w (Suc n)) i
      = (if i < 32 * n then bit (words_val w n) i else bit (unat (w ! n)) (i - 32 * n))"
    unfolding words_val_Suc by (rule bit_digit [OF words_val_less])
  also have "\<dots> \<longleftrightarrow> i div 32 < Suc n \<and> bit (w ! (i div 32)) (i mod 32)"
  proof (cases "i < 32 * n")
    case True
    then have "i div 32 < n" by (simp add: less_mult_imp_div_less mult.commute)
    with True Suc show ?thesis by simp
  next
    case False
    show ?thesis
    proof (cases "i < 32 * Suc n")
      case True
      with False have d: "i div 32 = n" by (intro div_nat_eqI) auto
      then have "i mod 32 = i - 32 * n"
        using minus_div_mult_eq_mod [of i 32] by (simp add: mult.commute)
      note d this
      with False show ?thesis by (simp add: bit_unsigned_iff)
    next
      case ge: False
      then have "\<not> i div 32 < Suc n" by (simp add: not_less less_eq_div_iff_mult_less_eq mult.commute)
      moreover have "\<not> bit (unat (w ! n)) (i - 32 * n)"
        using ge by (auto simp: bit_unsigned_iff dest: bit_imp_le_length)
      ultimately show ?thesis using False by simp
    qed
  qed
  finally show ?case .
qed simp

lemma limb_bit_val: "limb_bit a i \<longleftrightarrow> bit (limbs_val a) i"
  by (simp add: limb_bit_def limbs_val_def bit_words_val and_one_eq_bit)

lemma word_bits_less: "unat v < 2 ^ b \<Longrightarrow> unat v < 2 ^ word_bits v b"
proof (induction b)
  case (Suc b)
  show ?case
  proof (cases "drop_bit b v AND 1 = 0")
    case True
    then have "\<not> bit (unat v) b" using and_one_eq_bit [of b v] by (simp add: bit_unsigned_iff)
    moreover have "unat v div 2 ^ b < 2" using Suc.prems by (simp add: less_mult_imp_div_less)
    ultimately have "even (unat v div 2 ^ b)" "unat v div 2 ^ b < 2" by (simp_all add: bit_iff_odd)
    then have "unat v div 2 ^ b = 0" by (auto simp: less_2_cases_iff)
    then have "unat v < 2 ^ b" by (simp add: div_eq_0_iff)
    with Suc.IH True show ?thesis by simp
  next
    case False
    with Suc.prems show ?thesis by simp
  qed
qed simp

lemma limbs_val_nbits: "limbs_val a < 2 ^ nbits a"
proof (cases "ln a")
  case 0
  then show ?thesis by (simp add: limbs_val_def nbits_def)
next
  case (Suc k)
  have "unat (lw a ! k) < 2 ^ word_bits (lw a ! k) 32"
    using unat_u32_less by (rule word_bits_less)
  with words_val_less have "words_val (lw a) k + unat (lw a ! k) * 2 ^ (32 * k)
      < 2 ^ word_bits (lw a ! k) 32 * 2 ^ (32 * k)"
    by (rule digit_less)
  then show ?thesis
    using Suc by (simp add: limbs_val_def words_val_Suc nbits_def power_add mult.commute)
qed

text \<open>The bits that the loops run over are those of the number.\<close>

lemma limb_bits_val: "horner_sum of_bool 2 (limb_bits a) = limbs_val a"
proof -
  have "limb_bits a = map (bit (limbs_val a)) [0..<nbits a]"
    by (simp add: limb_bits_def limb_bit_val)
  then have "horner_sum of_bool 2 (limb_bits a) = take_bit (nbits a) (limbs_val a)"
    by (simp add: horner_sum_bit_eq_take_bit)
  then show ?thesis using limbs_val_nbits [of a] by (simp add: take_bit_nat_eq_self)
qed

section \<open>The binary method\<close>

text \<open>
  \<open>rep a x\<close>: the number \<open>a\<close> of the program stands for \<open>x\<close>. Whatever the operation, the loop
  computes the \<open>k\<close>-fold combination that \<open>act\<close> describes.
\<close>

locale binary_method =
  fixes opr :: "'a \<Rightarrow> 'a \<Rightarrow> 'a"
    and rep :: "'a \<Rightarrow> 'v \<Rightarrow> bool"
    and vop :: "'v \<Rightarrow> 'v \<Rightarrow> 'v"
    and act :: "nat \<Rightarrow> 'v \<Rightarrow> 'v \<Rightarrow> 'v"
  assumes rep_opr: "rep a x \<Longrightarrow> rep b y \<Longrightarrow> rep (opr a b) (vop x y)"
    and act_zero: "act 0 u v = u"
    and act_even: "act (2 * k) u v = act k u (vop v v)"
    and act_odd: "act (Suc (2 * k)) u v = act k (vop u v) (vop v v)"
begin

lemma loop_rep:
  "rep r u \<Longrightarrow> rep a v \<Longrightarrow>
   rep (fst (binary_loop opr bits (r, a))) (act (horner_sum of_bool 2 bits) u v)"
proof (induction bits arbitrary: r a u v)
  case Nil
  then show ?case by (simp add: binary_loop_def act_zero)
next
  case (Cons b bs)
  have step: "binary_loop opr (b # bs) (r, a) = binary_loop opr bs (if b then opr r a else r, opr a a)"
    by (simp add: binary_loop_def)
  show ?case
  proof (cases b)
    case True
    have "rep (fst (binary_loop opr bs (opr r a, opr a a)))
        (act (horner_sum of_bool 2 bs) (vop u v) (vop v v))"
      using Cons.prems by (intro Cons.IH rep_opr)
    with True show ?thesis unfolding step by (simp add: act_odd)
  next
    case False
    have "rep (fst (binary_loop opr bs (r, opr a a))) (act (horner_sum of_bool 2 bs) u (vop v v))"
      using Cons.prems by (intro Cons.IH rep_opr)
    with False show ?thesis unfolding step by (simp add: act_even)
  qed
qed

end

text \<open>The residue \<open>a\<close> stands for every number congruent to it.\<close>

definition res_rep :: "limbs \<Rightarrow> limbs \<Rightarrow> nat \<Rightarrow> bool" where
  "res_rep m a x \<longleftrightarrow> (modulus_ok m \<longrightarrow> residue m a \<and> limbs_val a = x mod limbs_val m)"

interpretation add_loop: binary_method "\<lambda>x y. addm x y m" "res_rep m" "(+)" "\<lambda>k u v. u + k * v"
  for m
  by unfold_locales (auto simp: res_rep_def addm_val mod_add_eq algebra_simps)

lemma limbs_zero_residue: "modulus_ok m \<Longrightarrow> residue m (limbs_zero (length (lw m)))"
  by (simp add: residue_def limbs_zero_def limbs_ok_def modulus_ok_def limbs_val_def [of "\<lparr>lw = _, ln = 0\<rparr>"])

lemma limbs_small_val:
  assumes "0 < cap"
  shows "limbs_val (limbs_small cap v) = unat v \<and> limbs_ok (limbs_small cap v)
    \<and> length (lw (limbs_small cap v)) = cap"
  using assms
  by (cases cap) (auto simp: limbs_small_def limbs_zero_def limbs_ok_def limbs_val_def words_val_Suc
      words_val_Suc [of _ 0, simplified])

lemma mulm_val:
  assumes m: "modulus_ok m" and a: "residue m a"
  shows "residue m (mulm a b m) \<and> limbs_val (mulm a b m) = limbs_val a * limbs_val b mod limbs_val m"
proof -
  have "res_rep m (limbs_zero (length (lw m))) 0"
    using limbs_zero_residue by (simp add: res_rep_def limbs_zero_def limbs_val_def)
  moreover have "res_rep m a (limbs_val a)" using a by (simp add: res_rep_def residue_def)
  ultimately have "res_rep m (mulm a b m) (0 + limbs_val b * limbs_val a)"
    unfolding mulm_def limb_bits_val [symmetric] by (rule add_loop.loop_rep)
  with m show ?thesis by (simp add: res_rep_def mult.commute)
qed

interpretation mul_loop: binary_method "\<lambda>x y. mulm x y m" "res_rep m" "(*)" "\<lambda>k u v. u * v ^ k"
  for m
proof unfold_locales
  fix a b x y
  assume "res_rep m a x" "res_rep m b y"
  then show "res_rep m (mulm a b m) (x * y)"
    by (auto simp: res_rep_def mulm_val mod_mult_eq)
qed (simp_all add: power_mult power2_eq_square mult.assoc)

lemma powm_val:
  assumes m: "modulus_ok m" and a: "residue m a"
  shows "residue m (powm a e m) \<and> limbs_val (powm a e m) = limbs_val a ^ limbs_val e mod limbs_val m"
proof -
  have "0 < length (lw m)" using m by (auto simp: modulus_ok_def)
  from limbs_small_val [OF this, of 1] have "res_rep m (limbs_small (length (lw m)) 1) 1"
    by (simp add: res_rep_def residue_def modulus_ok_def)
  moreover have "res_rep m a (limbs_val a)" using a by (simp add: res_rep_def residue_def)
  ultimately have "res_rep m (powm a e m) (1 * limbs_val a ^ limbs_val e)"
    unfolding powm_def limb_bits_val [symmetric] by (rule mul_loop.loop_rep)
  with m show ?thesis by (simp add: res_rep_def)
qed

section \<open>Bytes\<close>

definition be_val :: "bytes \<Rightarrow> nat" where
  "be_val p = foldl (\<lambda>v b. unat b + v * 2 ^ 8) 0 p"

lemma be_val_snoc [simp]: "be_val (p @ [b]) = unat b + be_val p * 2 ^ 8"
  and be_val_nil [simp]: "be_val [] = 0"
  by (simp_all add: be_val_def)

lemma be_val_less: "be_val p < 2 ^ (8 * length p)"
proof (induction p rule: rev_induct)
  case (snoc b p)
  have "unat b < 2 ^ 8" using unsigned_less [of b] by simp
  from digit_less [OF this snoc] show ?case by (simp add: power_add)
qed simp

lemma bit_be_val:
  "bit (be_val p) k \<longleftrightarrow> k div 8 < length p \<and> bit (p ! (length p - 1 - k div 8)) (k mod 8)"
proof (induction p arbitrary: k rule: rev_induct)
  case (snoc b p)
  have "bit (be_val (p @ [b])) k = (if k < 8 then bit (unat b) k else bit (be_val p) (k - 8))"
    unfolding be_val_snoc using unsigned_less [of b] by (intro bit_digit) simp
  also have "\<dots> \<longleftrightarrow> k div 8 < length (p @ [b])
      \<and> bit ((p @ [b]) ! (length (p @ [b]) - 1 - k div 8)) (k mod 8)"
  proof (cases "k < 8")
    case True
    then show ?thesis by (simp add: bit_unsigned_iff)
  next
    case False
    then have m: "k mod 8 = (k - 8) mod 8" "k div 8 = Suc ((k - 8) div 8)"
      by (simp_all add: le_div_geq le_mod_geq)
    have nth: "l < length p \<Longrightarrow> (p @ [b]) ! (length (p @ [b]) - 1 - Suc l) = p ! (length p - 1 - l)" for l
      by (auto simp: nth_append)
    show ?thesis
    proof (cases "(k - 8) div 8 < length p")
      case True
      then show ?thesis unfolding m nth [OF True] using False snoc [of "k - 8"] by simp
    next
      case f: False
      then show ?thesis unfolding m using False snoc [of "k - 8"] by simp
    qed
  qed
  finally show ?case .
qed simp

lemma be_words_bit:
  assumes "n \<le> 4 * length w0" and "j \<le> n" and "q < length w0" and "r < 32"
    and "\<forall>q < length w0. w0 ! q = (0 :: u32)"
  shows "bit (fold (\<lambda>i w. w[i div 4 := (w ! (i div 4)) OR push_bit ((i mod 4) * 8) (ucast (p i :: u8))])
      [0..<j] w0 ! q) r \<longleftrightarrow> 4 * q + r div 8 < j \<and> bit (p (4 * q + r div 8)) (r mod 8)"
  using assms(2)
proof (induction j)
  case 0
  then show ?case using assms(3,5) by simp
next
  case (Suc j)
  define w where "w = fold (\<lambda>i w. w[i div 4 := (w ! (i div 4)) OR push_bit ((i mod 4) * 8) (ucast (p i))])
      [0..<j] w0"
  have len: "length w = length w0" unfolding w_def by (rule fold_preserves) auto
  from Suc have ih: "bit (w ! q) r \<longleftrightarrow> 4 * q + r div 8 < j \<and> bit (p (4 * q + r div 8)) (r mod 8)"
    by (simp add: w_def)
  have jq: "j div 4 < length w" using Suc.prems assms(1) len by auto
  show ?case
  proof (cases "q = j div 4")
    case False
    then have "4 * q + r div 8 \<noteq> j" using assms(4) by auto
    with False ih show ?thesis by (auto simp: w_def [symmetric])
  next
    case True
    have "bit (push_bit ((j mod 4) * 8) (ucast (p j)) :: u32) r
        \<longleftrightarrow> (j mod 4) * 8 \<le> r \<and> bit (p j) (r - (j mod 4) * 8)"
      using assms(4) by (auto simp: bit_simps)
    also have "\<dots> \<longleftrightarrow> r div 8 = j mod 4 \<and> bit (p j) (r mod 8)"
    proof
      assume l: "(j mod 4) * 8 \<le> r \<and> bit (p j) (r - (j mod 4) * 8)"
      then have "r - (j mod 4) * 8 < 8" by (auto dest: bit_imp_le_length)
      with l have "r div 8 = j mod 4" by (intro div_nat_eqI) auto
      moreover from this have "r mod 8 = r - (j mod 4) * 8"
        using minus_div_mult_eq_mod [of r 8] by simp
      ultimately show "r div 8 = j mod 4 \<and> bit (p j) (r mod 8)" using l by simp
    next
      assume l: "r div 8 = j mod 4 \<and> bit (p j) (r mod 8)"
      then have "r = (j mod 4) * 8 + r mod 8" by (metis div_mult_mod_eq)
      then have "(j mod 4) * 8 \<le> r" "r mod 8 = r - (j mod 4) * 8" by simp_all
      then show "(j mod 4) * 8 \<le> r \<and> bit (p j) (r - (j mod 4) * 8)" using l by simp
    qed
    also have "\<dots> \<longleftrightarrow> 4 * q + r div 8 = j \<and> bit (p j) (r mod 8)"
    proof -
      have "r div 8 = j mod 4 \<longleftrightarrow> 4 * q + r div 8 = j"
        using mult_div_mod_eq [of 4 j] unfolding True by (intro iffI) linarith+
      then show ?thesis by simp
    qed
    finally have new: "bit (push_bit ((j mod 4) * 8) (ucast (p j)) :: u32) r
        \<longleftrightarrow> 4 * q + r div 8 = j \<and> bit (p j) (r mod 8)" .
    have "fold (\<lambda>i w. w[i div 4 := (w ! (i div 4)) OR push_bit ((i mod 4) * 8) (ucast (p i))])
      [0..<Suc j] w0 ! q = w ! q OR push_bit ((j mod 4) * 8) (ucast (p j))"
      using jq True by (simp add: w_def [symmetric])
    then show ?thesis using new ih by (auto simp: bit_or_iff less_Suc_eq)
  qed
qed

lemma limbs_be_val:
  assumes "length p \<le> 4 * (cap - 1)"
  shows "limbs_val (limbs_be cap p) = be_val p \<and> limbs_ok (limbs_be cap p)
    \<and> length (lw (limbs_be cap p)) = cap"
proof -
  define n where "n = length p"
  define nw where "nw = (n + 3) div 4"
  define w where "w = fold (\<lambda>i w. w[i div 4 := (w ! (i div 4)) OR
      push_bit ((i mod 4) * 8) (ucast (p ! (n - 1 - i)))]) [0..<n] (replicate cap (0 :: u32))"
  have nw: "nw \<le> cap - 1" "n \<le> 4 * nw" using assms unfolding nw_def n_def by auto
  have len: "length w = cap" unfolding w_def by (rule fold_preserves) auto
  have be: "limbs_be cap p = trim \<lparr>lw = w, ln = nw\<rparr>"
    using nw(1) by (simp add: limbs_be_def Let_def n_def [symmetric] nw_def [symmetric] w_def)
  have "words_val w nw = be_val p"
  proof (rule bit_eqI)
    fix k
    show "bit (words_val w nw) k = bit (be_val p) k"
    proof (cases "k div 32 < nw")
      case True
      then have q: "k div 32 < cap" using nw(1) by simp
      have "bit (w ! (k div 32)) (k mod 32) \<longleftrightarrow> 4 * (k div 32) + k mod 32 div 8 < n
          \<and> bit (p ! (n - 1 - (4 * (k div 32) + k mod 32 div 8))) (k mod 32 mod 8)"
        unfolding w_def
        using be_words_bit [of n "replicate cap 0" n "k div 32" "k mod 32" "\<lambda>i. p ! (n - 1 - i)"]
          q nw by simp
      moreover have "4 * (k div 32) + k mod 32 div 8 = k div 8" "k mod 32 mod 8 = k mod 8"
      proof -
        have "k div 8 = (8 * (4 * (k div 32)) + k mod 32) div 8" by simp
        then show "4 * (k div 32) + k mod 32 div 8 = k div 8" by (simp only: div_mult_self4)
        show "k mod 32 mod 8 = k mod 8" by (simp add: mod_mod_cancel)
      qed
      ultimately show ?thesis using True by (simp add: bit_words_val bit_be_val n_def)
    next
      case False
      then have "\<not> k div 8 < n" using nw(2) by (auto simp: not_less less_eq_div_iff_mult_less_eq)
      with False show ?thesis by (simp add: bit_words_val bit_be_val n_def)
    qed
  qed
  moreover have "limbs_ok (trim \<lparr>lw = w, ln = nw\<rparr>)" using len nw(1) by (intro trim_ok) simp
  ultimately show ?thesis using len by (simp add: be limbs_val_def [of "\<lparr>lw = w, ln = nw\<rparr>"])
qed

text \<open>The byte of a number at position \<open>k\<close> from the end.\<close>

lemma words_byte:
  assumes "i < n" and "j < 4"
  shows "(ucast (drop_bit (8 * j) (w ! i)) :: u8) = of_nat (words_val w n div 2 ^ (8 * (4 * i + j)))"
proof (rule bit_word_eqI)
  fix b assume "b < LENGTH(8)"
  then have b: "b < 8" by simp
  have ix: "(8 * (4 * i + j) + b) div 32 = i" "(8 * (4 * i + j) + b) mod 32 = 8 * j + b"
  proof -
    have e: "8 * (4 * i + j) + b = 8 * j + b + 32 * i" by simp
    have "8 * j + b < 32" using b assms(2) by simp
    then show "(8 * (4 * i + j) + b) div 32 = i" "(8 * (4 * i + j) + b) mod 32 = 8 * j + b"
      unfolding e by simp_all
  qed
  have "bit (of_nat (words_val w n div 2 ^ (8 * (4 * i + j))) :: u8) b
      \<longleftrightarrow> bit (words_val w n) (8 * (4 * i + j) + b)"
    using b by (simp add: bit_simps) (simp add: bit_iff_odd div_mult2_eq power_add)
  also have "\<dots> \<longleftrightarrow> bit (w ! i) (8 * j + b)" unfolding bit_words_val ix using assms(1) by simp
  finally show "bit (ucast (drop_bit (8 * j) (w ! i)) :: u8) b
      = bit (of_nat (words_val w n div 2 ^ (8 * (4 * i + j))) :: u8) b"
    using b by (simp add: bit_simps add.commute)
qed

end
