(* ===== verification/Der.thy ===== *)
theory Der
  imports Wire Bignum "HOL-Library.Sublist"
begin

text \<open>
  The contract of the readers of DER elements. The certificate parser, the native verifier and the
  two signature verifiers each have their own reader; the locale \<open>tlv_reader\<close> states what all of
  them promise, and what follows for a loop that walks over a sequence of elements.
\<close>

section \<open>Spans inside spans\<close>

definition span_within :: "byte_span \<Rightarrow> bytes \<Rightarrow> bool" where
  "span_within s bs \<longleftrightarrow> (case s of NullSpan n \<Rightarrow> n = 0 | Span xs \<Rightarrow> sublist xs bs)"

lemma span_within_Span [simp]: "span_within (Span xs) bs \<longleftrightarrow> sublist xs bs"
  and span_within_null [simp]: "span_within (NullSpan n) bs \<longleftrightarrow> n = 0"
  by (simp_all add: span_within_def)

lemma sublist_slice: "sublist (slice xs p n) xs"
proof -
  have "xs = take p xs @ slice xs p n @ drop (p + n) xs"
    by (metis add.commute append_take_drop_id drop_drop slice_def)
  then show ?thesis unfolding sublist_def by metis
qed

lemma span_within_trans: "span_within s xs \<Longrightarrow> sublist xs ys \<Longrightarrow> span_within s ys"
  by (cases s) (auto intro: sublist_order.order.trans)

section \<open>Elements\<close>

record der_elem =
  el_tag :: u8
  el_full :: byte_span
  el_value :: byte_span

text \<open>
  \<open>elem_at bs off el nxt\<close>: \<open>el\<close> stands at \<open>off\<close> in \<open>bs\<close> and ends at \<open>nxt\<close>.
\<close>

definition elem_at :: "bytes \<Rightarrow> nat \<Rightarrow> der_elem \<Rightarrow> nat \<Rightarrow> bool" where
  "elem_at bs off el nxt \<longleftrightarrow>
     off + 2 \<le> nxt \<and> nxt \<le> length bs \<and> el_tag el = bs ! off
     \<and> el_full el = Span (slice bs off (nxt - off))
     \<and> (\<exists>h. 2 \<le> h \<and> off + h \<le> nxt \<and> el_value el = Span (slice bs (off + h) (nxt - (off + h))))"

lemma elem_atI:
  assumes "off + 2 \<le> p" and "p + len \<le> length bs"
  shows "elem_at bs off \<lparr>el_tag = bs ! off, el_full = Span (slice bs off (p - off + len)),
           el_value = Span (slice bs p len)\<rparr> (p + len)"
  unfolding elem_at_def
proof (intro conjI exI [of _ "p - off"])
  show "el_full \<lparr>el_tag = bs ! off, el_full = Span (slice bs off (p - off + len)),
          el_value = Span (slice bs p len)\<rparr> = Span (slice bs off (p + len - off))"
    using assms by (simp add: add.commute)
qed (use assms in auto)

lemma elem_at_within:
  "elem_at bs off el nxt \<Longrightarrow> span_within (el_value el) bs \<and> span_within (el_full el) bs"
  by (auto simp: elem_at_def sublist_slice)

lemma elem_at_value:
  assumes "elem_at bs off el nxt"
  obtains vs where "el_value el = Span vs" "sublist vs bs" "length vs + 2 \<le> length bs"
proof -
  from assms obtain h where "2 \<le> h" "off + h \<le> nxt" "nxt \<le> length bs"
    "el_value el = Span (slice bs (off + h) (nxt - (off + h)))"
    by (auto simp: elem_at_def)
  then show thesis using that sublist_slice [of bs "off + h" "nxt - (off + h)"] by auto
qed

lemma elem_at_full:
  assumes "elem_at bs off el nxt"
  obtains vs where "el_full el = Span vs" "sublist vs bs" "2 \<le> length vs"
proof -
  from assms have "el_full el = Span (slice bs off (nxt - off))" "off + 2 \<le> nxt" "nxt \<le> length bs"
    by (simp_all add: elem_at_def)
  moreover from this have "2 \<le> nxt - off" "nxt - off \<le> length bs - off" by linarith+
  ultimately show thesis using that sublist_slice [of bs off "nxt - off"] by simp
qed

text \<open>\<open>walks reader s p els q\<close>: reading \<open>s\<close> from \<open>p\<close>, element by element, gives \<open>els\<close> and ends at \<open>q\<close>.\<close>

fun walks :: "(byte_span \<Rightarrow> nat \<Rightarrow> (der_elem \<times> nat) res) \<Rightarrow> byte_span \<Rightarrow> nat \<Rightarrow> der_elem list \<Rightarrow> nat \<Rightarrow> bool" where
  "walks reader s p [] q \<longleftrightarrow> p = q"
| "walks reader s p (el # els) q \<longleftrightarrow>
     (case reader s p of Ok (el', np) \<Rightarrow> el' = el \<and> walks reader s np els q | _ \<Rightarrow> False)"

lemma walks_Cons:
  "walks reader s p (el # els) q \<longleftrightarrow> (\<exists>np. reader s p = Ok (el, np) \<and> walks reader s np els q)"
  by (auto split: res.splits)

lemma walks_append:
  "walks reader s p (xs @ ys) q \<longleftrightarrow> (\<exists>m. walks reader s p xs m \<and> walks reader s m ys q)"
  by (induction xs arbitrary: p) (auto split: res.splits)

locale tlv_reader =
  fixes reader :: "byte_span \<Rightarrow> nat \<Rightarrow> (der_elem \<times> nat) res"
  assumes reader_Ok: "reader (Span bs) off = Ok (el, nxt) \<Longrightarrow> elem_at bs off el nxt"
    and reader_safe: "reader s off \<noteq> UB"
    and reader_null: "reader (NullSpan n) off \<noteq> Ok r"
begin

lemma reader_span:
  assumes "reader s off = Ok (el, nxt)"
  obtains bs where "s = Span bs" "elem_at bs off el nxt"
  using assms reader_Ok reader_null by (cases s) auto

text \<open>The offset grows and stays inside: a walk over the elements ends.\<close>

lemma reader_advances:
  "reader s off = Ok (el, nxt) \<Longrightarrow> off < nxt \<and> nxt \<le> span_size s"
  by (erule reader_span) (auto simp: elem_at_def)

lemma reader_measure:
  "reader s off = Ok (el, nxt) \<Longrightarrow> span_size s - nxt < span_size s - off"
  using reader_advances by fastforce

lemma reader_within:
  "reader s off = Ok (el, nxt) \<Longrightarrow> span_within s bs \<Longrightarrow>
   span_within (el_value el) bs \<and> span_within (el_full el) bs"
  by (erule reader_span) (auto dest: elem_at_within intro: span_within_trans)

lemma reader_nonnull:
  "reader s off = Ok (el, nxt) \<Longrightarrow>
   \<not> span_null (el_value el) \<and> \<not> span_null (el_full el) \<and> \<not> span_null s"
  by (erule reader_span) (auto simp: elem_at_def)

text \<open>A read followed by anything is safe when the rest is, on what was read.\<close>

lemma reader_safe_iff:
  "safe (reader s off) Q \<longleftrightarrow> (\<forall>el nxt. reader s off = Ok (el, nxt) \<longrightarrow> Q (el, nxt))"
  using reader_safe [of s off] by (cases "reader s off") auto

lemma safe_readI:
  "(\<And>el nxt. reader s off = Ok (el, nxt) \<Longrightarrow> safe (f el nxt) Q) \<Longrightarrow>
   safe (bind_res (reader s off) (\<lambda>(el, nxt). f el nxt)) Q"
  "(\<And>el nxt. reader s off = Ok (el, nxt) \<Longrightarrow> safe (f el nxt) Q) \<Longrightarrow>
   safe (bind_res (or_err (reader s off) e) (\<lambda>(el, nxt). f el nxt)) Q"
  by (auto simp: reader_safe_iff)

lemma reader_value:
  assumes "reader s off = Ok (el, nxt)"
  obtains vs fs where "el_value el = Span vs" "el_full el = Span fs"
    "sublist vs (span_bytes s)" "sublist fs (span_bytes s)" "s = Span (span_bytes s)"
  using assms
  by (elim reader_span) (metis elem_at_full elem_at_value span_bytes.simps(2) that)

end

section \<open>A reader over a reader of lengths\<close>

text \<open>
  The four readers of the library differ in the lengths they accept: the element around a length is
  read alike, so that the contract is proved once.
\<close>

definition read_elem ::
    "(byte_span \<Rightarrow> nat \<Rightarrow> (nat \<times> nat) res) \<Rightarrow> error \<Rightarrow> byte_span \<Rightarrow> nat \<Rightarrow> (der_elem \<times> nat) res" where
  "read_elem read_length e s off =
     (if span_null s \<or> off \<ge> span_size s then Err e
      else bind_res (rd s off) (\<lambda>tag.
        let p = off + 1 in
        if p \<ge> span_size s then Err e
        else bind_res (read_length s p) (\<lambda>(len, p).
          if len > span_size s - p then Err e
          else bind_res (subspan s off ((p - off) + len)) (\<lambda>full.
            bind_res (subspan s p len) (\<lambda>value.
              Ok (\<lparr>el_tag = tag, el_full = full, el_value = value\<rparr>, p + len))))))"

lemma read_elem_reader:
  assumes len: "\<And>bs p. p < length bs \<Longrightarrow>
    safe (read_length (Span bs) p) (\<lambda>(len, q). p + 1 \<le> q \<and> q \<le> length bs)"
  shows "tlv_reader (read_elem read_length e)"
proof (unfold_locales, goal_cases)
  case (1 bs off el nxt)
  then obtain n p where p: "off + 1 < length bs" "read_length (Span bs) (off + 1) = Ok (n, p)"
    and el: "el = \<lparr>el_tag = bs ! off, el_full = Span (slice bs off (p - off + n)),
        el_value = Span (slice bs p n)\<rparr>" "nxt = p + n" "p + n \<le> length bs"
    by (auto simp: read_elem_def Let_def bind_res_Ok_iff rd_Span_Ok subspan_Ok_iff split: if_splits)
  from len [OF p(1)] p(2) have "off + 2 \<le> p" by simp
  then show ?case unfolding el using el(3) by (intro elem_atI) simp_all
next
  case (2 s off)
  show ?case
  proof (cases "\<not> span_null s \<and> off + 1 < span_size s")
    case True
    then obtain bs where s: "s = Span bs" "off + 1 < length bs" by (cases s) simp_all
    have "safe (read_elem read_length e s off) (\<lambda>_. True)"
      unfolding read_elem_def s Let_def
      by (intro safe_guardI safe_rdI safe_bindI [OF len]) (use s in \<open>auto split: prod.splits\<close>)
    then show ?thesis by (rule safe_not_UB)
  qed (auto simp: read_elem_def Let_def)
next
  case (3 n off r)
  show ?case by (simp add: read_elem_def)
qed

end
