(* ===== verification/X509.thy ===== *)
theory X509
  imports Der "HOL-Library.Signed_Division"
begin

text \<open>
  The certificate parser and the hostname check of \<open>src/x509/x509.cpp\<close>. A helper that answers
  \<open>bool\<close> is modelled with the error its caller turns \<open>false\<close> into. The view of a certificate is the
  value of a parse that succeeds; the lemmas show that every span of it stands inside the
  certificate, that times are counted by the civil calendar, and which hostnames are accepted.
\<close>

section \<open>Model: DER elements\<close>

definition der_len :: "bytes \<Rightarrow> nat" where
  "der_len bs = fold (\<lambda>b len. len * 256 + unat b) bs 0"

text \<open>The length at \<open>p\<close> and the offset behind it: definite, at most four bytes, minimal.\<close>

definition der_length :: "byte_span \<Rightarrow> nat \<Rightarrow> (nat \<times> nat) res" where
  "der_length s p =
     bind_res (rd s p) (\<lambda>lb.
       let p = p + 1 in
       if lb AND 0x80 = 0 then Ok (unat lb, p)
       else
         let n = unat (lb AND 0x7F) in
         if n = 0 \<or> n > 4 \<or> p + n > span_size s then Err XT_ERR_BAD_HANDSHAKE
         else bind_res (rd s p) (\<lambda>b.
           if b = 0 then Err XT_ERR_BAD_HANDSHAKE
           else bind_res (rd_bytes s p n) (\<lambda>lbs.
             if der_len lbs < 128 then Err XT_ERR_BAD_HANDSHAKE
             else Ok (der_len lbs, p + n))))"

definition der_tlv :: "byte_span \<Rightarrow> nat \<Rightarrow> (der_elem \<times> nat) res" where
  "der_tlv s off =
     (if span_null s \<or> off \<ge> span_size s then Err XT_ERR_BAD_HANDSHAKE
      else bind_res (rd s off) (\<lambda>tag.
        let p = off + 1 in
        if p \<ge> span_size s then Err XT_ERR_BAD_HANDSHAKE
        else bind_res (der_length s p) (\<lambda>(len, p).
          if len > span_size s - p then Err XT_ERR_BAD_HANDSHAKE
          else bind_res (subspan s off ((p - off) + len)) (\<lambda>full.
            bind_res (subspan s p len) (\<lambda>value.
              Ok (\<lparr>el_tag = tag, el_full = full, el_value = value\<rparr>, p + len))))))"

section \<open>Model: times\<close>

definition dec2 :: "byte_span \<Rightarrow> nat \<Rightarrow> int res" where
  "dec2 s p =
     bind_res (rd s p) (\<lambda>a.
       if a < 0x30 \<or> a > 0x39 then Err XT_ERR_BAD_HANDSHAKE
       else bind_res (rd s (p + 1)) (\<lambda>b.
         if b < 0x30 \<or> b > 0x39 then Err XT_ERR_BAD_HANDSHAKE
         else Ok ((uint a - 0x30) * 10 + (uint b - 0x30))))"

definition dec4 :: "byte_span \<Rightarrow> nat \<Rightarrow> int res" where
  "dec4 s p = bind_res (dec2 s p) (\<lambda>a. bind_res (dec2 s (p + 2)) (\<lambda>b. Ok (a * 100 + b)))"

definition days_before_year :: "int \<Rightarrow> u64" where
  "days_before_year y =
     (let ym1 = y - 1
      in word_of_int (365 * ym1 + ym1 sdiv 4 - ym1 sdiv 100 + ym1 sdiv 400))"

definition days_before_month :: "int \<Rightarrow> nat \<Rightarrow> u64" where
  "days_before_month y m =
     (let cum = [0, 0, 31, 59, 90, 120, 151, 181, 212, 243, 273, 304, 334] :: u64 list;
          d = cum ! m
      in if m > 2 \<and> (y smod 4 = 0 \<and> y smod 100 \<noteq> 0 \<or> y smod 400 = 0) then d + 1 else d)"

text \<open>The year and where the month stands.\<close>

definition asn1_time_year :: "der_elem \<Rightarrow> (int \<times> nat) res" where
  "asn1_time_year t =
     (let p = el_value t; n = span_size (el_value t) in
      if el_tag t = 0x17 then
        if n \<noteq> 13 then Err XT_ERR_BAD_HANDSHAKE
        else bind_res (dec2 p 0) (\<lambda>y. Ok (if y \<ge> 50 then 1900 + y else 2000 + y, 2))
      else
        if n \<noteq> 15 then Err XT_ERR_BAD_HANDSHAKE
        else bind_res (dec4 p 0) (\<lambda>y. Ok (y, 4)))"

definition parse_asn1_time :: "der_elem \<Rightarrow> u64 res" where
  "parse_asn1_time t =
     (if el_tag t \<noteq> 0x17 \<and> el_tag t \<noteq> 0x18 then Err XT_ERR_BAD_HANDSHAKE
      else
        let p = el_value t in
        bind_res (asn1_time_year t) (\<lambda>(y, off).
          bind_res (dec2 p off) (\<lambda>mo.
          bind_res (dec2 p (off + 2)) (\<lambda>d.
          bind_res (dec2 p (off + 4)) (\<lambda>h.
          bind_res (dec2 p (off + 6)) (\<lambda>mi.
          bind_res (dec2 p (off + 8)) (\<lambda>se.
          bind_res (rd p (off + 10)) (\<lambda>z.
            if z \<noteq> 0x5A then Err XT_ERR_BAD_HANDSHAKE
            else if y < 1970 \<or> mo < 1 \<or> mo > 12 \<or> d < 1 \<or> d > 31 \<or> h > 23 \<or> mi > 59 \<or> se > 60
            then Err XT_ERR_BAD_HANDSHAKE
            else
              let days = (days_before_year y - days_before_year 1970)
                         + days_before_month y (nat mo) + word_of_int (d - 1)
              in Ok (days * 86400 + word_of_int h * 3600 + word_of_int mi * 60 + word_of_int se)))))))))"

section \<open>Model: the certificate\<close>

datatype public_key_kind = PUBLIC_KEY_UNKNOWN | PUBLIC_KEY_RSA | PUBLIC_KEY_EC_P256

record x509_view =
  x_der :: byte_span
  x_tbs_certificate :: byte_span
  x_issuer_name :: byte_span
  x_subject_name :: byte_span
  x_subject_public_key_info :: byte_span
  x_subject_public_key_bits :: byte_span
  x_subject_alt_name :: byte_span
  x_public_key_kind :: public_key_kind
  x_validity_present :: bool
  x_not_before :: u64
  x_not_after :: u64
  x_basic_constraints_present :: bool
  x_is_ca :: bool
  x_path_len_present :: bool
  x_path_len_constraint :: u32
  x_key_usage_present :: bool
  x_key_usage_digital_signature :: bool
  x_key_usage_key_cert_sign :: bool
  x_extended_key_usage_present :: bool
  x_eku_server_auth :: bool

definition x509_view_init :: x509_view where
  "x509_view_init =
     \<lparr>x_der = NullSpan 0, x_tbs_certificate = NullSpan 0, x_issuer_name = NullSpan 0,
      x_subject_name = NullSpan 0, x_subject_public_key_info = NullSpan 0,
      x_subject_public_key_bits = NullSpan 0, x_subject_alt_name = NullSpan 0,
      x_public_key_kind = PUBLIC_KEY_UNKNOWN, x_validity_present = False,
      x_not_before = 0, x_not_after = 0,
      x_basic_constraints_present = False, x_is_ca = False, x_path_len_present = False,
      x_path_len_constraint = 0, x_key_usage_present = False,
      x_key_usage_digital_signature = False, x_key_usage_key_cert_sign = False,
      x_extended_key_usage_present = False, x_eku_server_auth = False\<rparr>"

definition parse_validity :: "byte_span \<Rightarrow> x509_view \<Rightarrow> x509_view res" where
  "parse_validity full out =
     bind_res (or_err (der_tlv full 0) XT_ERR_BAD_HANDSHAKE) (\<lambda>(seq, n).
       if el_tag seq \<noteq> 0x30 \<or> n \<noteq> span_size full then Err XT_ERR_BAD_HANDSHAKE
       else bind_res (der_tlv (el_value seq) 0) (\<lambda>(a, p).
         bind_res (or_err (der_tlv (el_value seq) p) XT_ERR_BAD_HANDSHAKE) (\<lambda>(b, np).
           if np \<noteq> span_size (el_value seq) then Err XT_ERR_BAD_HANDSHAKE
           else bind_res (parse_asn1_time a) (\<lambda>nb.
             bind_res (parse_asn1_time b) (\<lambda>na.
               if nb > na then Err XT_ERR_BAD_HANDSHAKE
               else Ok (out\<lparr>x_not_before := nb, x_not_after := na, x_validity_present := True\<rparr>))))))"

definition oid_eq :: "byte_span \<Rightarrow> bytes \<Rightarrow> bool" where
  "oid_eq oid bs \<longleftrightarrow> span_size oid = length bs \<and> span_bytes oid = bs"

definition OID_RSA :: bytes where
  "OID_RSA = [0x2A, 0x86, 0x48, 0x86, 0xF7, 0x0D, 0x01, 0x01, 0x01]"

definition OID_EC :: bytes where
  "OID_EC = [0x2A, 0x86, 0x48, 0xCE, 0x3D, 0x02, 0x01]"

definition OID_P256 :: bytes where
  "OID_P256 = [0x2A, 0x86, 0x48, 0xCE, 0x3D, 0x03, 0x01, 0x07]"

text \<open>The algorithm of a key: an EC key is accepted only with the curve P-256 named.\<close>

definition spki_kind :: "der_elem \<Rightarrow> der_elem \<Rightarrow> nat \<Rightarrow> public_key_kind res" where
  "spki_kind alg oid ap =
     (if oid_eq (el_value oid) OID_RSA then Ok PUBLIC_KEY_RSA
      else if oid_eq (el_value oid) OID_EC then
        if ap \<ge> span_size (el_value alg) then Err XT_ERR_UNSUPPORTED
        else bind_res (or_err (der_tlv (el_value alg) ap) XT_ERR_UNSUPPORTED) (\<lambda>(param, _).
          if el_tag param \<noteq> 0x06 \<or> \<not> oid_eq (el_value param) OID_P256
          then Err XT_ERR_UNSUPPORTED else Ok PUBLIC_KEY_EC_P256)
      else Err XT_ERR_UNSUPPORTED)"

text \<open>The bits of a key: the last element, a BIT STRING without unused bits.\<close>

definition spki_key :: "byte_span \<Rightarrow> nat \<Rightarrow> byte_span res" where
  "spki_key seq p =
     bind_res (or_err (der_tlv seq p) XT_ERR_BAD_HANDSHAKE) (\<lambda>(bits, bp).
       if el_tag bits \<noteq> 0x03 \<or> span_size (el_value bits) < 1 then Err XT_ERR_BAD_HANDSHAKE
       else bind_res (rd (el_value bits) 0) (\<lambda>unused.
         if unused \<noteq> 0 \<or> bp \<noteq> span_size seq then Err XT_ERR_BAD_HANDSHAKE
         else subspan (el_value bits) 1 (span_size (el_value bits) - 1)))"

definition parse_spki :: "byte_span \<Rightarrow> x509_view \<Rightarrow> x509_view res" where
  "parse_spki spki_full out =
     bind_res (or_err (der_tlv spki_full 0) XT_ERR_BAD_HANDSHAKE) (\<lambda>(seq, n).
       if el_tag seq \<noteq> 0x30 \<or> n \<noteq> span_size spki_full then Err XT_ERR_BAD_HANDSHAKE
       else bind_res (or_err (der_tlv (el_value seq) 0) XT_ERR_BAD_HANDSHAKE) (\<lambda>(alg, p).
         if el_tag alg \<noteq> 0x30 then Err XT_ERR_BAD_HANDSHAKE
         else bind_res (or_err (der_tlv (el_value alg) 0) XT_ERR_BAD_HANDSHAKE) (\<lambda>(oid, ap).
           if el_tag oid \<noteq> 0x06 then Err XT_ERR_BAD_HANDSHAKE
           else bind_res (spki_kind alg oid ap) (\<lambda>kind.
             bind_res (spki_key (el_value seq) p) (\<lambda>key.
               Ok (out\<lparr>x_public_key_kind := kind, x_subject_public_key_info := spki_full,
                       x_subject_public_key_bits := key\<rparr>))))))"

definition OID_SAN :: bytes where "OID_SAN = [0x55, 0x1D, 0x11]"
definition OID_BC :: bytes where "OID_BC = [0x55, 0x1D, 0x13]"
definition OID_KU :: bytes where "OID_KU = [0x55, 0x1D, 0x0F]"
definition OID_EKU :: bytes where "OID_EKU = [0x55, 0x1D, 0x25]"

definition OID_SERVER_AUTH :: bytes where
  "OID_SERVER_AUTH = [0x2B, 0x06, 0x01, 0x05, 0x05, 0x07, 0x03, 0x01]"

definition x509_san :: "byte_span \<Rightarrow> x509_view \<Rightarrow> x509_view res" where
  "x509_san v out =
     bind_res (or_err (der_tlv v 0) XT_ERR_BAD_HANDSHAKE) (\<lambda>(names, nn).
       if el_tag names \<noteq> 0x30 \<or> nn \<noteq> span_size v then Err XT_ERR_BAD_HANDSHAKE
       else Ok (out\<lparr>x_subject_alt_name := el_value names\<rparr>))"

text \<open>The two optional fields of BasicConstraints; the second component is where the next one starts.\<close>

definition x509_bc_ca :: "byte_span \<Rightarrow> x509_view \<Rightarrow> (x509_view \<times> nat) res" where
  "x509_bc_ca bc out =
     (if 0 < span_size bc then
        bind_res (der_tlv bc 0) (\<lambda>(ca, cn).
          if el_tag ca = 0x01 then
            if span_size (el_value ca) \<noteq> 1 then Err XT_ERR_BAD_HANDSHAKE
            else bind_res (rd (el_value ca) 0) (\<lambda>b. Ok (out\<lparr>x_is_ca := (b \<noteq> 0)\<rparr>, cn))
          else Ok (out, 0))
      else Ok (out, 0))"

definition u32_of_bytes :: "bytes \<Rightarrow> u32" where
  "u32_of_bytes bs = fold (\<lambda>b v. push_bit 8 v OR ucast b) bs 0"

definition x509_bc_path_len :: "byte_span \<Rightarrow> x509_view \<times> nat \<Rightarrow> x509_view res" where
  "x509_bc_path_len bc = (\<lambda>(out, bp).
     if bp < span_size bc then
       bind_res (or_err (der_tlv bc bp) XT_ERR_BAD_HANDSHAKE) (\<lambda>(pl, pn).
         if el_tag pl \<noteq> 0x02 \<or> span_size (el_value pl) = 0 \<or> span_size (el_value pl) > 4
            \<or> pn \<noteq> span_size bc
         then Err XT_ERR_BAD_HANDSHAKE
         else bind_res (rd (el_value pl) 0) (\<lambda>b0.
           if b0 AND 0x80 \<noteq> 0 then Err XT_ERR_BAD_HANDSHAKE
           else bind_res (rd_bytes (el_value pl) 0 (span_size (el_value pl))) (\<lambda>bs.
             Ok (out\<lparr>x_path_len_present := True, x_path_len_constraint := u32_of_bytes bs\<rparr>))))
     else Ok out)"

definition x509_basic_constraints :: "byte_span \<Rightarrow> x509_view \<Rightarrow> x509_view res" where
  "x509_basic_constraints v out =
     bind_res (or_err (der_tlv v 0) XT_ERR_BAD_HANDSHAKE) (\<lambda>(bc, bn).
       if el_tag bc \<noteq> 0x30 \<or> bn \<noteq> span_size v then Err XT_ERR_BAD_HANDSHAKE
       else
         let out = out\<lparr>x_basic_constraints_present := True, x_is_ca := False\<rparr>
         in bind_res (x509_bc_ca (el_value bc) out) (x509_bc_path_len (el_value bc)))"

definition x509_key_usage :: "byte_span \<Rightarrow> x509_view \<Rightarrow> x509_view res" where
  "x509_key_usage v out =
     bind_res (or_err (der_tlv v 0) XT_ERR_BAD_HANDSHAKE) (\<lambda>(ku, kn).
       if el_tag ku \<noteq> 0x03 \<or> kn \<noteq> span_size v \<or> span_size (el_value ku) < 2
       then Err XT_ERR_BAD_HANDSHAKE
       else bind_res (rd (el_value ku) 0) (\<lambda>unused.
         if unused > 7 then Err XT_ERR_BAD_HANDSHAKE
         else bind_res (rd (el_value ku) 1) (\<lambda>b0.
           Ok (out\<lparr>x_key_usage_present := True,
                   x_key_usage_digital_signature := (b0 AND 0x80 \<noteq> 0),
                   x_key_usage_key_cert_sign := (b0 AND 0x04 \<noteq> 0)\<rparr>))))"

text \<open>
  The reader gives an offset that grows: the loops over its elements end.
\<close>

lemma der_length_bounds:
  "p < length bs \<Longrightarrow> safe (der_length (Span bs) p) (\<lambda>(len, q). p + 1 \<le> q \<and> q \<le> length bs)"
  by (auto simp: der_length_def Let_def word_greater_zero_iff)

interpretation der: tlv_reader der_tlv
proof -
  have "der_tlv = read_elem der_length XT_ERR_BAD_HANDSHAKE"
    by (intro ext) (simp only: der_tlv_def read_elem_def)
  with read_elem_reader [OF der_length_bounds, of XT_ERR_BAD_HANDSHAKE] show "tlv_reader der_tlv" by simp
qed

function x509_eku_loop :: "byte_span \<Rightarrow> nat \<Rightarrow> x509_view \<Rightarrow> x509_view res" where
  "x509_eku_loop es ep out =
     (if ep < span_size es then
        bind_res (or_err (der_tlv es ep) XT_ERR_BAD_HANDSHAKE) (\<lambda>(eo, eon).
          if el_tag eo \<noteq> 0x06 then Err XT_ERR_BAD_HANDSHAKE
          else x509_eku_loop es eon
                 (if oid_eq (el_value eo) OID_SERVER_AUTH then out\<lparr>x_eku_server_auth := True\<rparr> else out))
      else Ok out)"
  by pat_completeness auto
termination
  by (relation "measure (\<lambda>(es, ep, out). span_size es - ep)") (auto dest: der.reader_measure)

declare x509_eku_loop.simps [simp del]

definition x509_ext_key_usage :: "byte_span \<Rightarrow> x509_view \<Rightarrow> x509_view res" where
  "x509_ext_key_usage v out =
     bind_res (or_err (der_tlv v 0) XT_ERR_BAD_HANDSHAKE) (\<lambda>(es, en).
       if el_tag es \<noteq> 0x30 \<or> en \<noteq> span_size v then Err XT_ERR_BAD_HANDSHAKE
       else x509_eku_loop (el_value es) 0 (out\<lparr>x_extended_key_usage_present := True\<rparr>))"

text \<open>What one extension does, by its OID; a critical one must be known.\<close>

definition x509_ext_value :: "byte_span \<Rightarrow> bool \<Rightarrow> byte_span \<Rightarrow> x509_view \<Rightarrow> x509_view res" where
  "x509_ext_value oid critical v out =
     (if oid_eq oid OID_SAN then x509_san v out
      else if oid_eq oid OID_BC then x509_basic_constraints v out
      else if oid_eq oid OID_KU then x509_key_usage v out
      else if oid_eq oid OID_EKU then x509_ext_key_usage v out
      else if critical then Err XT_ERR_UNSUPPORTED
      else Ok out)"

text \<open>The optional critical flag, and the value element with the offset behind it.\<close>

definition x509_ext_critical :: "byte_span \<Rightarrow> nat \<Rightarrow> (bool \<times> der_elem \<times> nat) res" where
  "x509_ext_critical ext q =
     bind_res (der_tlv ext q) (\<lambda>(v, vn).
       if el_tag v = 0x01 then
         if span_size (el_value v) \<noteq> 1 then Err XT_ERR_BAD_HANDSHAKE
         else bind_res (rd (el_value v) 0) (\<lambda>b.
           bind_res (der_tlv ext vn) (\<lambda>(v', vn'). Ok (b \<noteq> 0, v', vn')))
       else Ok (False, v, vn))"

definition x509_extension :: "der_elem \<Rightarrow> x509_view \<Rightarrow> x509_view res" where
  "x509_extension ext out =
     (if el_tag ext \<noteq> 0x30 then Err XT_ERR_BAD_HANDSHAKE
      else bind_res (or_err (der_tlv (el_value ext) 0) XT_ERR_BAD_HANDSHAKE) (\<lambda>(oid, q).
        if el_tag oid \<noteq> 0x06 then Err XT_ERR_BAD_HANDSHAKE
        else bind_res (x509_ext_critical (el_value ext) q) (\<lambda>(critical, v, vn).
          if el_tag v \<noteq> 0x04 \<or> vn \<noteq> span_size (el_value ext) then Err XT_ERR_BAD_HANDSHAKE
          else x509_ext_value (el_value oid) critical (el_value v) out)))"

function x509_ext_loop :: "byte_span \<Rightarrow> nat \<Rightarrow> x509_view \<Rightarrow> x509_view res" where
  "x509_ext_loop seq p out =
     (if p < span_size seq then
        bind_res (or_err (der_tlv seq p) XT_ERR_BAD_HANDSHAKE) (\<lambda>(ext, np).
          bind_res (x509_extension ext out) (x509_ext_loop seq np))
      else Ok out)"
  by pat_completeness auto
termination
  by (relation "measure (\<lambda>(seq, p, out). span_size seq - p)") (auto dest: der.reader_measure)

declare x509_ext_loop.simps [simp del]

definition parse_extensions :: "byte_span \<Rightarrow> x509_view \<Rightarrow> x509_view res" where
  "parse_extensions extensions_explicit out =
     bind_res (or_err (der_tlv extensions_explicit 0) XT_ERR_BAD_HANDSHAKE) (\<lambda>(exwrap, n).
       if el_tag exwrap \<noteq> 0xA3 \<or> n \<noteq> span_size extensions_explicit then Err XT_ERR_BAD_HANDSHAKE
       else bind_res (or_err (der_tlv (el_value exwrap) 0) XT_ERR_BAD_HANDSHAKE) (\<lambda>(seq, sn).
         if el_tag seq \<noteq> 0x30 \<or> sn \<noteq> span_size (el_value exwrap) then Err XT_ERR_BAD_HANDSHAKE
         else x509_ext_loop (el_value seq) 0 out))"

text \<open>
  The five fields before the key: serial number, signature algorithm, issuer, validity, subject.
\<close>

primrec x509_fields :: "byte_span \<Rightarrow> nat list \<Rightarrow> nat \<Rightarrow> x509_view \<Rightarrow> (x509_view \<times> nat) res" where
  "x509_fields tbs [] q out = Ok (out, q)"
| "x509_fields tbs (i # is) q out =
     bind_res (der_tlv tbs q) (\<lambda>(f, qn).
       let out = (if i = 2 then out\<lparr>x_issuer_name := el_full f\<rparr> else out) in
       bind_res (if i = 3 then parse_validity (el_full f) out else Ok out) (\<lambda>out.
         let out = (if i = 4 then out\<lparr>x_subject_name := el_full f\<rparr> else out) in
         x509_fields tbs is qn out))"

function x509_tail_loop :: "byte_span \<Rightarrow> nat \<Rightarrow> x509_view \<Rightarrow> x509_view res" where
  "x509_tail_loop tbs q out =
     (if q < span_size tbs then
        bind_res (der_tlv tbs q) (\<lambda>(f, qn).
          bind_res (if el_tag f = 0xA3 then parse_extensions (el_full f) out else Ok out)
            (x509_tail_loop tbs qn))
      else Ok out)"
  by pat_completeness auto
termination
  by (relation "measure (\<lambda>(tbs, q, out). span_size tbs - q)") (auto dest: der.reader_measure)

declare x509_tail_loop.simps [simp del]

definition x509_parse_tbs :: "byte_span \<Rightarrow> x509_view \<Rightarrow> x509_view res" where
  "x509_parse_tbs tbs out =
     bind_res (der_tlv tbs 0) (\<lambda>(f, qn).
       let q = (if el_tag f = 0xA0 then qn else 0) in
       bind_res (x509_fields tbs [0, 1, 2, 3, 4] q out) (\<lambda>(out, q).
         bind_res (or_err (der_tlv tbs q) XT_ERR_BAD_HANDSHAKE) (\<lambda>(spki, qn).
           if el_tag spki \<noteq> 0x30 then Err XT_ERR_BAD_HANDSHAKE
           else bind_res (parse_spki (el_full spki) out) (x509_tail_loop tbs qn))))"

definition x509_parse_certificate :: "byte_span \<Rightarrow> x509_view res" where
  "x509_parse_certificate der =
     (if span_null der \<or> span_size der = 0 then Err XT_ERR_INVALID_ARGUMENT
      else
        let out = x509_view_init\<lparr>x_der := der\<rparr> in
        bind_res (or_err (der_tlv der 0) XT_ERR_BAD_HANDSHAKE) (\<lambda>(cert, cn).
          if el_tag cert \<noteq> 0x30 \<or> cn \<noteq> span_size der then Err XT_ERR_BAD_HANDSHAKE
          else bind_res (or_err (der_tlv (el_value cert) 0) XT_ERR_BAD_HANDSHAKE) (\<lambda>(tbs, np).
            if el_tag tbs \<noteq> 0x30 then Err XT_ERR_BAD_HANDSHAKE
            else x509_parse_tbs (el_value tbs) (out\<lparr>x_tbs_certificate := el_full tbs\<rparr>))))"

section \<open>Model: hostnames\<close>

definition ascii_lower :: "u8 \<Rightarrow> u8" where
  "ascii_lower c = (if c \<ge> 0x41 \<and> c \<le> 0x5A then c + 0x20 else c)"

text \<open>\<open>strchr (host, '.')\<close>: the rest of the string from the first dot on.\<close>

fun strchr_dot :: "bytes \<Rightarrow> bytes option" where
  "strchr_dot [] = None"
| "strchr_dot (c # cs) = (if c = 0x2E then Some (c # cs) else strchr_dot cs)"

definition same_lower :: "bytes \<Rightarrow> bytes \<Rightarrow> nat \<Rightarrow> bool" where
  "same_lower a b n \<longleftrightarrow> list_all (\<lambda>i. ascii_lower (a ! i) = ascii_lower (b ! i)) [0..<n]"

text \<open>The wildcard case: what stands behind the first dot of the host, which is not its first byte.\<close>

definition dns_wildcard :: "bytes \<Rightarrow> bytes \<Rightarrow> bool" where
  "dns_wildcard p host =
     (case strchr_dot host of
        None \<Rightarrow> False
      | Some dot \<Rightarrow>
          if length dot = length host then False
          else
            let suffix = length dot - 1 in
            if suffix \<noteq> length p - 2 then False
            else same_lower (drop 2 p) (drop 1 dot) suffix)"

definition dns_equal :: "byte_span \<Rightarrow> bytes \<Rightarrow> bool" where
  "dns_equal pat host =
     (let hn = length host; p = span_bytes pat in
      if span_size pat = hn \<and> same_lower p host hn then True
      else if span_size pat > 2 \<and> p ! 0 = 0x2A \<and> p ! 1 = 0x2E then dns_wildcard p host
      else False)"

function x509_san_loop :: "byte_span \<Rightarrow> bytes \<Rightarrow> nat \<Rightarrow> unit res" where
  "x509_san_loop san hostname p =
     (if p < span_size san then
        bind_res (der_tlv san p) (\<lambda>(gn, np).
          if el_tag gn = 0x82 \<and> dns_equal (el_value gn) hostname then Ok ()
          else x509_san_loop san hostname np)
      else Err XT_ERR_VERIFY)"
  by pat_completeness auto
termination
  by (relation "measure (\<lambda>(san, hostname, p). span_size san - p)") (auto dest: der.reader_measure)

declare x509_san_loop.simps [simp del]

definition x509_verify_hostname :: "x509_view \<Rightarrow> cstring \<Rightarrow> unit res" where
  "x509_verify_hostname cert hostname =
     (case hostname of
        None \<Rightarrow> Err XT_ERR_INVALID_ARGUMENT
      | Some h \<Rightarrow>
          if h = [] then Err XT_ERR_INVALID_ARGUMENT
          else if span_null (x_subject_alt_name cert) then Err XT_ERR_VERIFY
          else x509_san_loop (x_subject_alt_name cert) h 0)"

section \<open>Times by the civil calendar\<close>

text \<open>The reference: days are counted year by year and month by month.\<close>

definition leap_year :: "int \<Rightarrow> bool" where
  "leap_year y \<longleftrightarrow> 4 dvd y \<and> \<not> 100 dvd y \<or> 400 dvd y"

definition year_length :: "int \<Rightarrow> int" where
  "year_length y = (if leap_year y then 366 else 365)"

definition month_length :: "int \<Rightarrow> nat \<Rightarrow> int" where
  "month_length y m =
     (if m = 2 then if leap_year y then 29 else 28
      else if m \<in> {4, 6, 9, 11} then 30 else 31)"

definition civil_days :: "int \<Rightarrow> nat \<Rightarrow> int \<Rightarrow> int" where
  "civil_days y m d = (\<Sum>x = 1970..<y. year_length x) + (\<Sum>x = 1..<m. month_length y x) + (d - 1)"

text \<open>The closed form of the code counts the same days.\<close>

definition years_closed :: "int \<Rightarrow> int" where
  "years_closed y = 365 * (y - 1) + (y - 1) div 4 - (y - 1) div 100 + (y - 1) div 400"

lemma div_step: "0 < (k :: int) \<Longrightarrow> y div k = (y - 1) div k + of_bool (k dvd y)"
proof -
  assume k: "0 < k"
  have y: "y = k * (y div k) + y mod k" by simp
  show ?thesis
  proof (cases "y mod k = 0")
    case True
    have "y - 1 = k * (y div k - 1) + (k - 1)"
      using y True by (simp add: algebra_simps)
    from int_div_pos_eq [OF this] k have "(y - 1) div k = y div k - 1" by simp
    with True show ?thesis by (simp add: dvd_eq_mod_eq_0)
  next
    case False
    have "y - 1 = k * (y div k) + (y mod k - 1)" using y by linarith
    from int_div_pos_eq [OF this] False k pos_mod_bound [OF k, of y] pos_mod_sign [OF k, of y]
    have "(y - 1) div k = y div k" by simp
    with False show ?thesis by (simp add: dvd_eq_mod_eq_0)
  qed
qed

lemma year_length_of_bool:
  "year_length y = 365 + of_bool (4 dvd y) - of_bool (100 dvd y) + of_bool (400 dvd y)"
proof -
  have "400 dvd y \<Longrightarrow> 100 dvd y" by (rule dvd_trans [of 100 400]) simp
  moreover have "100 dvd y \<Longrightarrow> 4 dvd y" by (rule dvd_trans [of 4 100]) simp
  ultimately show ?thesis by (simp add: year_length_def leap_year_def) blast
qed

lemma years_closed_step: "years_closed (y + 1) = years_closed y + year_length y"
  unfolding years_closed_def year_length_of_bool
  using div_step [of 4 y] div_step [of 100 y] div_step [of 400 y] by simp

lemma years_closed_sum:
  assumes "1970 \<le> y"
  shows "years_closed y - years_closed 1970 = (\<Sum>x = 1970..<y. year_length x)"
  using assms
proof (induction y rule: int_ge_induct)
  case (step y)
  then have "{1970..<y + 1} = insert y {1970..<y}" by auto
  with step show ?case by (simp add: years_closed_step)
qed simp

lemma sdiv_pos: "0 \<le> (a :: int) \<Longrightarrow> 0 < b \<Longrightarrow> a sdiv b = a div b"
  and smod_pos: "0 \<le> (a :: int) \<Longrightarrow> 0 < b \<Longrightarrow> a smod b = a mod b"
  by (auto simp: signed_divide_int_def signed_modulo_int_def sgn_if)

lemma days_before_year_closed:
  "1 \<le> y \<Longrightarrow> days_before_year y = word_of_int (years_closed y)"
  by (simp add: days_before_year_def years_closed_def sdiv_pos Let_def)

lemma days_before_month_sum:
  assumes "1 \<le> m" "m \<le> 12" "1970 \<le> y"
  shows "days_before_month y m = word_of_int (\<Sum>x = 1..<m. month_length y x)"
proof -
  have leap: "(y smod 4 = 0 \<and> y smod 100 \<noteq> 0 \<or> y smod 400 = 0) = leap_year y"
    using assms by (simp add: smod_pos leap_year_def dvd_eq_mod_eq_0)
  have "m = 1 \<or> m = 2 \<or> m = 3 \<or> m = 4 \<or> m = 5 \<or> m = 6 \<or> m = 7 \<or> m = 8 \<or> m = 9 \<or> m = 10
    \<or> m = 11 \<or> m = 12" using assms(1,2) by presburger
  then show ?thesis
    unfolding days_before_month_def leap
    by (elim disjE) (simp_all add: month_length_def numeral_eq_Suc sum.atLeast_Suc_lessThan)
qed

text \<open>The digits of a time, and where the fields stand.\<close>

definition two_digits :: "bytes \<Rightarrow> nat \<Rightarrow> int" where
  "two_digits bs p = (uint (bs ! p) - 0x30) * 10 + (uint (bs ! (p + 1)) - 0x30)"

definition digit :: "u8 \<Rightarrow> bool" where
  "digit b \<longleftrightarrow> 0x30 \<le> b \<and> b \<le> 0x39"

lemma dec2_eq:
  "p + 2 \<le> length bs \<Longrightarrow> dec2 (Span bs) p =
     (if digit (bs ! p) \<and> digit (bs ! (p + 1)) then Ok (two_digits bs p) else Err XT_ERR_BAD_HANDSHAKE)"
  by (auto simp: dec2_def digit_def two_digits_def)

lemma two_digits_range:
  assumes "digit (bs ! p)" "digit (bs ! (p + 1))"
  shows "0 \<le> two_digits bs p \<and> two_digits bs p \<le> 99"
  using assms by (simp add: digit_def two_digits_def word_le_def)

definition asn1_year :: "der_elem \<Rightarrow> int" where
  "asn1_year t =
     (let bs = span_bytes (el_value t); yy = two_digits bs 0
      in if el_tag t = 0x17 then if yy \<ge> 50 then 1900 + yy else 2000 + yy
         else yy * 100 + two_digits bs 2)"

definition asn1_field :: "der_elem \<Rightarrow> nat \<Rightarrow> int" where
  "asn1_field t k = two_digits (span_bytes (el_value t)) ((if el_tag t = 0x17 then 2 else 4) + 2 * k)"

definition asn1_seconds :: "der_elem \<Rightarrow> int" where
  "asn1_seconds t =
     civil_days (asn1_year t) (nat (asn1_field t 0)) (asn1_field t 1) * 86400
     + asn1_field t 2 * 3600 + asn1_field t 3 * 60 + asn1_field t 4"

lemma dec2_OkD:
  assumes "dec2 (Span bs) p = Ok v"
  shows "v = two_digits bs p" "0 \<le> v" "v \<le> 99" "p + 2 \<le> length bs"
proof -
  have l: "p + 2 \<le> length bs"
    using assms by (auto simp: dec2_def rd_def split: if_splits)
  with assms have d: "digit (bs ! p)" "digit (bs ! (p + 1))" "v = two_digits bs p"
    by (auto simp: dec2_eq split: if_splits)
  with l two_digits_range [of bs p] show "v = two_digits bs p" "0 \<le> v" "v \<le> 99" "p + 2 \<le> length bs"
    by auto
qed

lemma year_length_bounds: "365 \<le> year_length y" "year_length y \<le> 366"
  by (simp_all add: year_length_def)

lemma civil_days_bounds:
  assumes "1970 \<le> y" "y \<le> 9999" "1 \<le> m" "m \<le> 12" "1 \<le> d" "d \<le> 31"
  shows "0 \<le> civil_days y m d" "civil_days y m d < 4000000"
proof -
  have y: "(\<Sum>x = 1970..<y. year_length x) \<le> (\<Sum>x = 1970..<y. 366)"
    by (rule sum_mono) (rule year_length_bounds)
  have m: "(\<Sum>x = 1..<m. month_length y x) \<le> (\<Sum>x = 1..<m. 31)"
    by (rule sum_mono) (simp add: month_length_def)
  have "0 \<le> (\<Sum>x = 1970..<y. year_length x)" "0 \<le> (\<Sum>x = 1..<m. month_length y x)"
    by (auto intro!: sum_nonneg simp: year_length_def month_length_def)
  then show "0 \<le> civil_days y m d" using assms by (simp add: civil_days_def)
  show "civil_days y m d < 4000000" using y m assms by (simp add: civil_days_def)
qed

lemma asn1_time_year_Ok:
  assumes "asn1_time_year t = Ok (y, off)" and "el_value t = Span bs"
  shows "y = asn1_year t \<and> y \<le> 9999 \<and> off = (if el_tag t = 0x17 then 2 else 4) \<and> off + 11 \<le> length bs"
proof (cases "el_tag t = 0x17")
  case True
  with assms obtain x where "length bs = 13" "dec2 (Span bs) 0 = Ok x"
    "y = (if x \<ge> 50 then 1900 + x else 2000 + x)" "off = 2"
    by (auto simp: asn1_time_year_def Let_def bind_res_Ok_iff split: if_splits)
  with True assms(2) dec2_OkD [of bs 0 x] show ?thesis by (simp add: asn1_year_def)
next
  case False
  with assms obtain x z where "length bs = 15" "dec2 (Span bs) 0 = Ok x" "dec2 (Span bs) 2 = Ok z"
    "y = x * 100 + z" "off = 4"
    by (auto simp: asn1_time_year_def dec4_def Let_def bind_res_Ok_iff numeral_2_eq_2 [symmetric]
        split: if_splits)
  with False assms(2) dec2_OkD [of bs 0 x] dec2_OkD [of bs 2 z] show ?thesis
    by (simp add: asn1_year_def)
qed

text \<open>A time that is accepted is the number of seconds since 1970, and the count does not wrap.\<close>

lemma parse_asn1_time_Ok:
  assumes "parse_asn1_time t = Ok s" and v: "el_value t = Span bs"
  shows "uint s = asn1_seconds t"
proof -
  from assms(1) obtain y off mo d h mi se where
    yr: "asn1_time_year t = Ok (y, off)" "1970 \<le> y" and
    dec: "dec2 (Span bs) off = Ok mo" "dec2 (Span bs) (off + 2) = Ok d" "dec2 (Span bs) (off + 4) = Ok h"
      "dec2 (Span bs) (off + 6) = Ok mi" "dec2 (Span bs) (off + 8) = Ok se" and
    range: "1 \<le> mo" "mo \<le> 12" "1 \<le> d" "d \<le> 31" "h \<le> 23" "mi \<le> 59" "se \<le> 60" and
    s: "s = ((days_before_year y - days_before_year 1970) + days_before_month y (nat mo)
              + word_of_int (d - 1)) * 86400
            + word_of_int h * 3600 + word_of_int mi * 60 + word_of_int se"
    unfolding parse_asn1_time_def Let_def v by (fastforce simp: bind_res_Ok_iff split: if_splits)
  note y = asn1_time_year_Ok [OF yr(1) v]
  have n: "1 \<le> nat mo" "nat mo \<le> 12" using range by simp_all
  have days: "(days_before_year y - days_before_year 1970) + days_before_month y (nat mo)
      + word_of_int (d - 1) = word_of_int (civil_days y (nat mo) d)"
  proof -
    have "1 \<le> y" using yr(2) by simp
    note c = days_before_year_closed [OF this] days_before_year_closed [of 1970, simplified]
    show ?thesis
      unfolding c days_before_month_sum [OF n yr(2)] civil_days_def years_closed_sum [OF yr(2), symmetric]
      by (simp only: wi_hom_sub wi_hom_add)
  qed
  define secs where "secs = civil_days y (nat mo) d * 86400 + h * 3600 + mi * 60 + se"
  have "s = word_of_int secs"
    unfolding s days secs_def by (simp flip: wi_hom_add wi_hom_mult)
  moreover have "0 \<le> secs \<and> secs < 2 ^ 64"
    using civil_days_bounds [OF yr(2) _ n range(3,4)] y dec2_OkD(2) [OF dec(3)]
      dec2_OkD(2) [OF dec(4)] dec2_OkD(2) [OF dec(5)] range
    by (simp add: secs_def)
  ultimately have "uint s = secs" by (simp add: uint_word_of_int_eq take_bit_int_eq_self)
  also have "secs = asn1_seconds t"
    using y dec2_OkD(1) [OF dec(1)] dec2_OkD(1) [OF dec(2)] dec2_OkD(1) [OF dec(3)]
      dec2_OkD(1) [OF dec(4)] dec2_OkD(1) [OF dec(5)]
    by (simp add: secs_def asn1_seconds_def asn1_field_def v)
  finally show ?thesis .
qed

lemma safe_dec2: "safe (dec2 (Span bs) p) (\<lambda>_. True) \<longleftrightarrow> dec2 (Span bs) p \<noteq> UB"
  by (rule safe_True_iff)

lemma dec2_not_UB: "p + 2 \<le> length bs \<Longrightarrow> safe (dec2 (Span bs) p) (\<lambda>_. True)"
  by (simp add: dec2_eq)

lemma asn1_time_year_safe:
  "el_value t = Span bs \<Longrightarrow> safe (asn1_time_year t) (\<lambda>(y, off). off + 11 \<le> length bs)"
  by (auto simp: asn1_time_year_def dec4_def dec2_eq Let_def)

lemma parse_asn1_time_safe:
  assumes "el_value t = Span bs"
  shows "parse_asn1_time t \<noteq> UB"
proof -
  have "safe (parse_asn1_time t) (\<lambda>_. True)"
    unfolding parse_asn1_time_def Let_def assms safe_if safe_bind
    by (intro conjI impI safe_mono [OF asn1_time_year_safe [OF assms]]) (auto simp: dec2_eq)
  then show ?thesis by (rule safe_not_UB)
qed

section \<open>Every span of the view stands inside the certificate\<close>

definition x509_within :: "bytes \<Rightarrow> x509_view \<Rightarrow> bool" where
  "x509_within bs v \<longleftrightarrow> list_all (\<lambda>s. span_within s bs)
     [x_der v, x_tbs_certificate v, x_issuer_name v, x_subject_name v,
      x_subject_public_key_info v, x_subject_public_key_bits v, x_subject_alt_name v]"

lemma x509_within_update [simp]:
  "x509_within bs v \<Longrightarrow> span_within s bs \<Longrightarrow> x509_within bs (v\<lparr>x_issuer_name := s\<rparr>)"
  "x509_within bs v \<Longrightarrow> span_within s bs \<Longrightarrow> x509_within bs (v\<lparr>x_subject_name := s\<rparr>)"
  "x509_within bs v \<Longrightarrow> span_within s bs \<Longrightarrow> x509_within bs (v\<lparr>x_subject_alt_name := s\<rparr>)"
  "x509_within bs v \<Longrightarrow> x509_within bs (v\<lparr>x_is_ca := b\<rparr>)"
  "x509_within bs v \<Longrightarrow> x509_within bs (v\<lparr>x_eku_server_auth := b\<rparr>)"
  "x509_within bs v \<Longrightarrow> x509_within bs (v\<lparr>x_extended_key_usage_present := b\<rparr>)"
  by (simp_all add: x509_within_def)

text \<open>
  \<open>keeps bs f\<close>: the step \<open>f\<close> never reads outside its spans, and keeps the view inside \<open>bs\<close>.
\<close>

definition keeps :: "bytes \<Rightarrow> (x509_view \<Rightarrow> x509_view res) \<Rightarrow> bool" where
  "keeps bs f \<longleftrightarrow> (\<forall>v. x509_within bs v \<longrightarrow> safe (f v) (x509_within bs))"

lemma keepsI: "(\<And>v. x509_within bs v \<Longrightarrow> safe (f v) (x509_within bs)) \<Longrightarrow> keeps bs f"
  and keepsD: "keeps bs f \<Longrightarrow> x509_within bs v \<Longrightarrow> safe (f v) (x509_within bs)"
  by (simp_all add: keeps_def)

lemma elem_span:
  assumes "der_tlv s off = Ok (el, nxt)"
  obtains vs fs where "el_value el = Span vs" "el_full el = Span fs"
  using assms by (rule der.reader_value)

lemma elem_within:
  assumes "der_tlv s off = Ok (el, nxt)" and "span_within s bs"
  shows "span_within (el_value el) bs" "span_within (el_full el) bs"
  using der.reader_within [OF assms] by simp_all

lemma parse_validity_keeps: "keeps bs (parse_validity full)"
proof (rule keepsI)
  fix v assume v: "x509_within bs v"
  have t: "safe (parse_asn1_time el) (\<lambda>_. True)" if "der_tlv s p = Ok (el, np)" for s p el np
    using elem_span [OF that] parse_asn1_time_safe by (metis safe_True_iff)
  show "safe (parse_validity full v) (x509_within bs)"
    using v
    by (auto simp: parse_validity_def der.reader_safe_iff x509_within_def intro!: safe_mono [OF t])
qed

lemma spki_kind_safe: "safe (spki_kind alg oid ap) (\<lambda>k. k \<noteq> PUBLIC_KEY_UNKNOWN)"
  by (auto simp: spki_kind_def der.reader_safe_iff)

lemma spki_key_safe:
  assumes s: "span_within s bs"
  shows "safe (spki_key s p) (\<lambda>k. span_within k bs \<and> \<not> span_null k)"
  unfolding spki_key_def
proof (intro der.safe_readI safe_guardI safe_rdI)
  fix el nxt
  assume el: "der_tlv s p = Ok (el, nxt)"
    and n: "\<not> (el_tag el \<noteq> 0x03 \<or> span_size (el_value el) < 1)"
  obtain vs where vs: "el_value el = Span vs" using elem_span [OF el] by blast
  with elem_within(1) [OF el s] have "sublist (slice vs 1 (length vs - 1)) bs"
    by (auto intro: sublist_order.order.trans sublist_slice)
  with vs n show "0 < length (span_bytes (el_value el))"
    and "safe (subspan (el_value el) 1 (span_size (el_value el) - 1))
           (\<lambda>k. span_within k bs \<and> \<not> span_null k)" by auto
qed

lemma parse_spki_keeps:
  assumes full: "span_within full bs"
  shows "keeps bs (parse_spki full)"
  unfolding parse_spki_def
proof (intro keepsI der.safe_readI safe_guardI safe_bindI [OF spki_kind_safe] safe_bindI [OF spki_key_safe]
    safe_OkI)
  fix v kind key assume "x509_within bs v" "span_within key bs \<and> \<not> span_null key"
  then show "x509_within bs (v\<lparr>x_public_key_kind := kind, x_subject_public_key_info := full,
               x_subject_public_key_bits := key\<rparr>)"
    using full by (simp add: x509_within_def)
qed (use full in \<open>auto dest: elem_within\<close>)

subsection \<open>Extensions\<close>

lemma x509_san_keeps: "span_within s bs \<Longrightarrow> keeps bs (x509_san s)"
  unfolding x509_san_def
  by (intro keepsI der.safe_readI safe_guardI safe_OkI) (auto dest: elem_within)

lemma value_size:
  "der_tlv s p = Ok (el, np) \<Longrightarrow> span_size (el_value el) = length (span_bytes (el_value el))"
  by (auto elim: elem_span)

lemma x509_basic_constraints_keeps: "keeps bs (x509_basic_constraints s)"
  unfolding x509_basic_constraints_def Let_def
proof (intro keepsI der.safe_readI safe_guardI)
  fix v bc n assume v: "x509_within bs v"
  define P where "P = (\<lambda>r. case r of (v, bp :: nat) \<Rightarrow> x509_within bs v)"
  have "safe (x509_bc_ca (el_value bc) (v\<lparr>x_basic_constraints_present := True, x_is_ca := False\<rparr>)) P"
    using v unfolding x509_bc_ca_def P_def
    by (auto simp: der.reader_safe_iff x509_within_def dest!: value_size)
  moreover have "safe (x509_bc_path_len (el_value bc) r) (x509_within bs)" if "P r" for r
  proof -
    obtain w bp where r: "r = (w, bp)" by (cases r)
    show ?thesis using that unfolding x509_bc_path_len_def r P_def prod.case
      by (auto simp: der.reader_safe_iff x509_within_def dest!: value_size elim!: elem_span)
  qed
  ultimately show "safe (bind_res (x509_bc_ca (el_value bc) (v\<lparr>x_basic_constraints_present := True,
      x_is_ca := False\<rparr>)) (x509_bc_path_len (el_value bc))) (x509_within bs)"
    by (rule safe_bindI)
qed

lemma x509_key_usage_keeps: "keeps bs (x509_key_usage s)"
  unfolding x509_key_usage_def
  by (intro keepsI der.safe_readI safe_guardI safe_rdI safe_OkI)
    (auto simp: x509_within_def dest!: value_size)

lemma x509_eku_loop_safe: "x509_within bs v \<Longrightarrow> safe (x509_eku_loop s p v) (x509_within bs)"
proof (induction s p v rule: x509_eku_loop.induct)
  case (1 es ep out)
  show ?case
  proof (cases "ep < span_size es")
    case True
    have "safe (bind_res (or_err (der_tlv es ep) XT_ERR_BAD_HANDSHAKE) (\<lambda>(eo, eon).
          if el_tag eo \<noteq> 0x06 then Err XT_ERR_BAD_HANDSHAKE
          else x509_eku_loop es eon
                 (if oid_eq (el_value eo) OID_SERVER_AUTH then out\<lparr>x_eku_server_auth := True\<rparr> else out)))
        (x509_within bs)"
      using "1.prems" by (intro der.safe_readI safe_guardI "1.IH" [OF True]) auto
    with True show ?thesis by (subst x509_eku_loop.simps) simp
  next
    case False
    with "1.prems" show ?thesis by (subst x509_eku_loop.simps) simp
  qed
qed

lemma x509_ext_key_usage_keeps: "keeps bs (x509_ext_key_usage s)"
  unfolding x509_ext_key_usage_def
  by (intro keepsI der.safe_readI safe_guardI x509_eku_loop_safe) simp

lemma x509_ext_value_keeps: "span_within s bs \<Longrightarrow> keeps bs (x509_ext_value oid critical s)"
  using x509_san_keeps x509_basic_constraints_keeps x509_key_usage_keeps x509_ext_key_usage_keeps
  by (auto simp: x509_ext_value_def keeps_def)

lemma x509_ext_critical_safe:
  assumes s: "span_within s bs"
  shows "safe (x509_ext_critical s q) (\<lambda>(c, v, vn). span_within (el_value v) bs)"
  unfolding x509_ext_critical_def
  by (auto simp: der.reader_safe_iff dest: value_size elem_within(1) [OF _ s])

lemma x509_extension_keeps:
  assumes "span_within (el_value ext) bs"
  shows "keeps bs (x509_extension ext)"
  unfolding x509_extension_def
proof (intro keepsI der.safe_readI safe_guardI safe_bindI [OF x509_ext_critical_safe [OF assms]])
  fix v :: x509_view and oid :: der_elem and x :: "bool \<times> der_elem \<times> nat"
  assume "x509_within bs v" and "case x of (c, v, vn) \<Rightarrow> span_within (el_value v) bs"
  then show "safe (case x of (critical, v' :: der_elem, vn) \<Rightarrow>
      if el_tag v' \<noteq> 0x04 \<or> vn \<noteq> span_size (el_value ext) then Err XT_ERR_BAD_HANDSHAKE
      else x509_ext_value (el_value oid) critical (el_value v') v) (x509_within bs)"
    by (auto intro: keepsD [OF x509_ext_value_keeps])
qed

lemma x509_ext_loop_safe:
  "span_within s bs \<Longrightarrow> x509_within bs v \<Longrightarrow> safe (x509_ext_loop s p v) (x509_within bs)"
proof (induction s p v rule: x509_ext_loop.induct)
  case (1 sq p out)
  show ?case
  proof (cases "p < span_size sq")
    case True
    have "safe (bind_res (or_err (der_tlv sq p) XT_ERR_BAD_HANDSHAKE) (\<lambda>(ext, np).
          bind_res (x509_extension ext out) (x509_ext_loop sq np))) (x509_within bs)"
    proof (intro der.safe_readI)
      fix ext np assume el: "der_tlv sq p = Ok (ext, np)"
      note k = keepsD [OF x509_extension_keeps [OF elem_within(1) [OF el "1.prems"(1)]] "1.prems"(2)]
      show "safe (bind_res (x509_extension ext out) (x509_ext_loop sq np)) (x509_within bs)"
        by (rule safe_bindI [OF k]) (rule "1.IH" [OF True _ refl _ "1.prems"(1)], use el in simp_all)
    qed
    with True show ?thesis by (subst x509_ext_loop.simps) simp
  next
    case False
    with "1.prems" show ?thesis by (subst x509_ext_loop.simps) simp
  qed
qed

lemma parse_extensions_keeps:
  assumes "span_within s bs"
  shows "keeps bs (parse_extensions s)"
  unfolding parse_extensions_def
  by (intro keepsI der.safe_readI safe_guardI x509_ext_loop_safe)
    (auto dest: elem_within [OF _ assms] elem_within)

subsection \<open>The certificate\<close>

lemma x509_fields_safe:
  assumes s: "span_within s bs"
  shows "x509_within bs v \<Longrightarrow> safe (x509_fields s is q v) (\<lambda>(v, q). x509_within bs v)"
proof (induction "is" arbitrary: q v)
  case (Cons i "is")
  show ?case
    unfolding x509_fields.simps Let_def
  proof (intro der.safe_readI)
    fix f qn assume el: "der_tlv s q = Ok (f, qn)"
    let ?v = "if i = 2 then v\<lparr>x_issuer_name := el_full f\<rparr> else v"
    note w = elem_within(2) [OF el s]
    have v: "x509_within bs ?v" using Cons.prems w by simp
    have "safe (if i = 3 then parse_validity (el_full f) ?v else Ok ?v) (x509_within bs)"
      by (intro safe_ifI keepsD [OF parse_validity_keeps v] safe_OkI v)
    then show "safe (bind_res (if i = 3 then parse_validity (el_full f) ?v else Ok ?v) (\<lambda>out.
        x509_fields s is qn (if i = 4 then out\<lparr>x_subject_name := el_full f\<rparr> else out)))
        (\<lambda>(v, q). x509_within bs v)"
      by (rule safe_bindI) (rule Cons.IH, use w in simp)
  qed
qed simp

lemma x509_tail_loop_safe:
  "span_within s bs \<Longrightarrow> x509_within bs v \<Longrightarrow> safe (x509_tail_loop s p v) (x509_within bs)"
proof (induction s p v rule: x509_tail_loop.induct)
  case (1 tbs q out)
  show ?case
  proof (cases "q < span_size tbs")
    case True
    have "safe (bind_res (der_tlv tbs q) (\<lambda>(f, qn).
          bind_res (if el_tag f = 0xA3 then parse_extensions (el_full f) out else Ok out)
            (x509_tail_loop tbs qn))) (x509_within bs)"
    proof (intro der.safe_readI)
      fix f qn assume el: "der_tlv tbs q = Ok (f, qn)"
      have "safe (if el_tag f = 0xA3 then parse_extensions (el_full f) out else Ok out) (x509_within bs)"
        using keepsD [OF parse_extensions_keeps [OF elem_within(2) [OF el "1.prems"(1)]] "1.prems"(2)]
          "1.prems"(2) by simp
      then show "safe (bind_res (if el_tag f = 0xA3 then parse_extensions (el_full f) out else Ok out)
          (x509_tail_loop tbs qn)) (x509_within bs)"
        by (rule safe_bindI) (rule "1.IH" [OF True _ refl _ "1.prems"(1)], use el in simp_all)
    qed
    with True show ?thesis by (subst x509_tail_loop.simps) simp
  next
    case False
    with "1.prems" show ?thesis by (subst x509_tail_loop.simps) simp
  qed
qed

lemma x509_parse_tbs_keeps:
  assumes s: "span_within s bs"
  shows "keeps bs (x509_parse_tbs s)"
  unfolding x509_parse_tbs_def Let_def
proof (intro keepsI der.safe_readI)
  fix v f qn assume "x509_within bs v"
  from x509_fields_safe [OF s this]
  have "safe (x509_fields s [0, 1, 2, 3, 4] (if el_tag f = 0xA0 then qn else 0) v)
          (\<lambda>(v, q). x509_within bs v)" .
  then show "safe (bind_res (x509_fields s [0, 1, 2, 3, 4] (if el_tag f = 0xA0 then qn else 0) v)
      (\<lambda>(out, q). bind_res (or_err (der_tlv s q) XT_ERR_BAD_HANDSHAKE) (\<lambda>(spki, qn).
           if el_tag spki \<noteq> 0x30 then Err XT_ERR_BAD_HANDSHAKE
           else bind_res (parse_spki (el_full spki) out) (x509_tail_loop s qn)))) (x509_within bs)"
  proof (rule safe_bindI, clarify, intro der.safe_readI safe_guardI)
    fix w q spki qn assume w: "x509_within bs w" and el: "der_tlv s q = Ok (spki, qn)"
    show "safe (bind_res (parse_spki (el_full spki) w) (x509_tail_loop s qn)) (x509_within bs)"
      by (rule safe_bindI [OF keepsD [OF parse_spki_keeps [OF elem_within(2) [OF el s]] w]])
        (rule x509_tail_loop_safe [OF s])
  qed
qed

theorem x509_parse_certificate_within:
  "safe (x509_parse_certificate (Span bs)) (x509_within bs)"
  unfolding x509_parse_certificate_def Let_def
proof (intro der.safe_readI safe_guardI)
  fix cert cn tbs np
  assume c: "der_tlv (Span bs) 0 = Ok (cert, cn)" and t: "der_tlv (el_value cert) 0 = Ok (tbs, np)"
  have "span_within (el_value cert) bs" using elem_within(1) [OF c] by simp
  note w = elem_within [OF t this]
  have "x509_within bs (x509_view_init\<lparr>x_der := Span bs, x_tbs_certificate := el_full tbs\<rparr>)"
    using w by (simp add: x509_within_def x509_view_init_def)
  then show "safe (x509_parse_tbs (el_value tbs)
      (x509_view_init\<lparr>x_der := Span bs, x_tbs_certificate := el_full tbs\<rparr>)) (x509_within bs)"
    by (rule keepsD [OF x509_parse_tbs_keeps [OF w(1)]])
qed

section \<open>What a parsed certificate shows\<close>

text \<open>A key of a known kind, a validity period in order, and the six spans that are always there.\<close>

definition x509_complete :: "x509_view \<Rightarrow> bool" where
  "x509_complete v \<longleftrightarrow>
     x_public_key_kind v \<noteq> PUBLIC_KEY_UNKNOWN \<and> x_validity_present v \<and> x_not_before v \<le> x_not_after v"

lemma parse_validity_Ok:
  assumes "parse_validity full v = Ok w"
  shows "\<exists>nb na. nb \<le> na \<and> w = v\<lparr>x_not_before := nb, x_not_after := na, x_validity_present := True\<rparr>"
  using assms by (fastforce simp: parse_validity_def bind_res_Ok_iff not_less split: if_splits prod.splits)

lemma parse_spki_Ok:
  assumes "parse_spki full v = Ok w"
  shows "\<exists>kind key. kind \<noteq> PUBLIC_KEY_UNKNOWN \<and> w = v\<lparr>x_public_key_kind := kind,
    x_subject_public_key_info := full, x_subject_public_key_bits := key\<rparr>"
  using assms safe_OkD [OF spki_kind_safe]
  by (fastforce simp: parse_spki_def bind_res_Ok_iff split: if_splits prod.splits)

text \<open>The extensions do not touch the key and the validity.\<close>

definition same_core :: "x509_view \<Rightarrow> x509_view \<Rightarrow> bool" where
  "same_core v w \<longleftrightarrow> x_public_key_kind w = x_public_key_kind v
     \<and> x_validity_present w = x_validity_present v
     \<and> x_not_before w = x_not_before v \<and> x_not_after w = x_not_after v
     \<and> x_der w = x_der v \<and> x_tbs_certificate w = x_tbs_certificate v
     \<and> x_subject_public_key_bits w = x_subject_public_key_bits v"

lemma same_core_refl [simp]: "same_core v v"
  and same_core_trans: "same_core u v \<Longrightarrow> same_core v w \<Longrightarrow> same_core u w"
  by (simp_all add: same_core_def)

lemma x509_eku_loop_core: "x509_eku_loop s p v = Ok w \<Longrightarrow> same_core v w"
proof (induction s p v rule: x509_eku_loop.induct)
  case (1 es ep out)
  show ?case
  proof (cases "ep < span_size es")
    case True
    with "1.prems" obtain eo eon where
      r: "or_err (der_tlv es ep) XT_ERR_BAD_HANDSHAKE = Ok (eo, eon)" "\<not> el_tag eo \<noteq> 0x06"
        "x509_eku_loop es eon (if oid_eq (el_value eo) OID_SERVER_AUTH
           then out\<lparr>x_eku_server_auth := True\<rparr> else out) = Ok w"
      by (subst (asm) x509_eku_loop.simps) (auto simp: bind_res_Ok_iff split: if_splits)
    from "1.IH" [OF True r(1) refl r(2,3)] show ?thesis
      by (rule same_core_trans [rotated]) (simp add: same_core_def)
  next
    case False
    with "1.prems" show ?thesis by (subst (asm) x509_eku_loop.simps) simp
  qed
qed

lemma x509_bc_core:
  assumes "x509_basic_constraints s v = Ok w"
  shows "same_core v w"
proof -
  have ca: "same_core u w" if "x509_bc_ca bc u = Ok (w, n)" for bc u w n
    using that by (auto simp: x509_bc_ca_def bind_res_pair_Ok bind_res_Ok_iff same_core_def split: if_splits)
  have pl: "same_core u w" if "x509_bc_path_len bc (u, n) = Ok w" for bc u w n
    using that unfolding x509_bc_path_len_def
    by (auto simp: bind_res_pair_Ok bind_res_Ok_iff same_core_def split: if_splits)
  from assms obtain bc u n where
    "x509_bc_ca bc (v\<lparr>x_basic_constraints_present := True, x_is_ca := False\<rparr>) = Ok (u, n)"
    "x509_bc_path_len bc (u, n) = Ok w"
    unfolding x509_basic_constraints_def Let_def bind_res_pair_Ok
    by (elim exE conjE if_Err_OkE bind_res_OkE) (metis surj_pair)
  from ca [OF this(1)] pl [OF this(2)] show ?thesis by (auto simp: same_core_def)
qed

lemma x509_ext_value_core:
  assumes "x509_ext_value oid critical s v = Ok w"
  shows "same_core v w"
proof -
  have "same_core v w" if "x509_san s v = Ok w"
    using that by (auto simp: x509_san_def bind_res_pair_Ok same_core_def split: if_splits)
  moreover have "same_core v w" if "x509_key_usage s v = Ok w"
    using that
    by (auto simp: x509_key_usage_def bind_res_pair_Ok bind_res_Ok_iff same_core_def split: if_splits)
  moreover have "same_core v w" if "x509_ext_key_usage s v = Ok w"
    using that by (auto simp: x509_ext_key_usage_def bind_res_pair_Ok same_core_def
        dest!: x509_eku_loop_core split: if_splits)
  ultimately show ?thesis
    using assms x509_bc_core by (auto simp: x509_ext_value_def split: if_splits)
qed

lemma x509_extension_core: "x509_extension ext v = Ok w \<Longrightarrow> same_core v w"
  by (auto simp: x509_extension_def bind_res_Ok_iff split: if_splits prod.splits
      dest: x509_ext_value_core)

lemma x509_ext_loop_core: "x509_ext_loop s p v = Ok w \<Longrightarrow> same_core v w"
proof (induction s p v rule: x509_ext_loop.induct)
  case (1 sq p out)
  show ?case
  proof (cases "p < span_size sq")
    case True
    with "1.prems" obtain ext np u where
      r: "or_err (der_tlv sq p) XT_ERR_BAD_HANDSHAKE = Ok (ext, np)" "x509_extension ext out = Ok u"
        "x509_ext_loop sq np u = Ok w"
      by (subst (asm) x509_ext_loop.simps) (auto simp: bind_res_Ok_iff)
    from "1.IH" [OF True r(1) refl r(2,3)] x509_extension_core [OF r(2)] show ?thesis
      by (metis same_core_trans)
  next
    case False
    with "1.prems" show ?thesis by (subst (asm) x509_ext_loop.simps) simp
  qed
qed

lemma parse_extensions_core: "parse_extensions s v = Ok w \<Longrightarrow> same_core v w"
  by (auto simp: parse_extensions_def bind_res_Ok_iff split: if_splits prod.splits
      dest: x509_ext_loop_core)

lemma x509_tail_loop_core: "x509_tail_loop s p v = Ok w \<Longrightarrow> same_core v w"
proof (induction s p v rule: x509_tail_loop.induct)
  case (1 tbs q out)
  show ?case
  proof (cases "q < span_size tbs")
    case True
    with "1.prems" obtain f qn u where
      r: "der_tlv tbs q = Ok (f, qn)"
        "(if el_tag f = 0xA3 then parse_extensions (el_full f) out else Ok out) = Ok u"
        "x509_tail_loop tbs qn u = Ok w"
      by (subst (asm) x509_tail_loop.simps) (auto simp: bind_res_Ok_iff)
    from r(2) parse_extensions_core have "same_core out u" by (auto split: if_splits)
    with "1.IH" [OF True r(1) refl r(2,3)] show ?thesis by (metis same_core_trans)
  next
    case False
    with "1.prems" show ?thesis by (subst (asm) x509_tail_loop.simps) simp
  qed
qed

lemma x509_fields_validity:
  assumes "x509_fields tbs [0, 1, 2, 3, 4] q v = Ok (w, q')"
  shows "x_validity_present w \<and> x_not_before w \<le> x_not_after w \<and> x_der w = x_der v
    \<and> x_tbs_certificate w = x_tbs_certificate v"
  using assms
  by (auto simp: bind_res_Ok_iff Let_def dest!: parse_validity_Ok split: prod.splits)

theorem x509_parse_certificate_complete:
  assumes "x509_parse_certificate d = Ok v"
  shows "x509_complete v \<and> x_der v = d"
proof -
  from assms obtain tbs u where t: "x509_parse_tbs tbs u = Ok v" "x_der u = d"
    unfolding x509_parse_certificate_def Let_def
    by (auto simp: bind_res_Ok_iff split: if_splits prod.splits)
  from t(1) obtain f q w q' and spki :: der_elem and x where
    w: "x509_fields tbs [0, 1, 2, 3, 4] q u = Ok (w, q')" and
    x: "parse_spki (el_full spki) w = Ok x" and
    l: "x509_tail_loop tbs f x = Ok v"
    unfolding x509_parse_tbs_def Let_def
    unfolding bind_res_pair_Ok or_err_Ok_iff
    by (elim exE conjE if_Err_OkE bind_res_OkE) (rule that)
  from parse_spki_Ok [OF x] x509_fields_validity [OF w] x509_tail_loop_core [OF l] t(2)
  show ?thesis by (auto simp: x509_complete_def same_core_def)
qed

section \<open>Hostnames\<close>

text \<open>
  A DNS name matches a host when they are equal up to case, or when the name is a wildcard for
  exactly the first label and the rest is equal up to case.
\<close>

definition dns_matches :: "bytes \<Rightarrow> bytes \<Rightarrow> bool" where
  "dns_matches p h \<longleftrightarrow>
     map ascii_lower p = map ascii_lower h
     \<or> (\<exists>suffix label rest. p = [0x2A, 0x2E] @ suffix \<and> suffix \<noteq> [] \<and> h = label @ [0x2E] @ rest
          \<and> label \<noteq> [] \<and> 0x2E \<notin> set label \<and> map ascii_lower suffix = map ascii_lower rest)"

lemma same_lower_iff:
  "length a = n \<Longrightarrow> length b = n \<Longrightarrow> same_lower a b n \<longleftrightarrow> map ascii_lower a = map ascii_lower b"
  unfolding same_lower_def list_all_iff list_eq_iff_nth_eq [of "map ascii_lower a"] by auto

lemma strchr_dot_append:
  "0x2E \<notin> set label \<Longrightarrow> strchr_dot (label @ [0x2E] @ rest) = Some ([0x2E] @ rest)"
  by (induction label) auto

lemma strchr_dot_Some:
  "strchr_dot h = Some d \<longleftrightarrow> (\<exists>label rest. h = label @ [0x2E] @ rest \<and> 0x2E \<notin> set label \<and> d = [0x2E] @ rest)"
    (is "?L h \<longleftrightarrow> ?R h")
proof
  show "?L h \<Longrightarrow> ?R h"
  proof (induction h)
    case (Cons c cs)
    show ?case
    proof (cases "c = 0x2E")
      case True
      with Cons.prems show ?thesis by (intro exI [of _ "[]"] exI [of _ cs]) simp
    next
      case False
      with Cons obtain label rest where "cs = label @ [0x2E] @ rest" "0x2E \<notin> set label" "d = [0x2E] @ rest"
        by auto
      with False show ?thesis by (intro exI [of _ "c # label"] exI [of _ rest]) simp
    qed
  qed simp
  show "?R h \<Longrightarrow> ?L h" using strchr_dot_append by blast
qed

lemma wildcard_shape:
  "length p > 2 \<and> p ! 0 = a \<and> p ! 1 = b \<longleftrightarrow> (\<exists>suffix. p = [a, b] @ suffix \<and> suffix \<noteq> [])"
  by (cases p; cases "tl p") auto

lemma dns_wildcard_iff:
  assumes p: "p = [0x2A, 0x2E] @ sfx"
  shows "dns_wildcard p h \<longleftrightarrow> (\<exists>label rest. h = label @ [0x2E] @ rest \<and> label \<noteq> [] \<and> 0x2E \<notin> set label
           \<and> map ascii_lower sfx = map ascii_lower rest)" (is "_ \<longleftrightarrow> ?R")
proof
  assume "dns_wildcard p h"
  then obtain d where d: "strchr_dot h = Some d" "length d \<noteq> length h" "length d - 1 = length p - 2"
    "same_lower (drop 2 p) (drop 1 d) (length d - 1)"
    by (auto simp: dns_wildcard_def Let_def split: option.splits if_splits)
  then obtain label rest where r: "h = label @ [0x2E] @ rest" "0x2E \<notin> set label" "d = [0x2E] @ rest"
    by (auto simp: strchr_dot_Some)
  with d p show ?R by (auto simp: same_lower_iff)
next
  assume ?R
  then obtain label rest where r: "h = label @ [0x2E] @ rest" "label \<noteq> []" "0x2E \<notin> set label"
    "map ascii_lower sfx = map ascii_lower rest" by blast
  then have "strchr_dot h = Some ([0x2E] @ rest)" by (subst strchr_dot_Some) blast
  moreover have "length sfx = length rest" using r(4) by (rule map_eq_imp_length_eq)
  ultimately show "dns_wildcard p h" using r p by (simp add: dns_wildcard_def same_lower_iff)
qed

lemma dns_equal_iff: "dns_equal (Span p) h \<longleftrightarrow> dns_matches p h"
proof -
  have "length p = length h \<and> same_lower p h (length h) \<longleftrightarrow> map ascii_lower p = map ascii_lower h"
    using same_lower_iff [of p "length h" h] map_eq_imp_length_eq by blast
  moreover have "(length p > 2 \<and> p ! 0 = 0x2A \<and> p ! 1 = 0x2E) \<and> dns_wildcard p h \<longleftrightarrow>
      (\<exists>suffix label rest. p = [0x2A, 0x2E] @ suffix \<and> suffix \<noteq> [] \<and> h = label @ [0x2E] @ rest
        \<and> label \<noteq> [] \<and> 0x2E \<notin> set label \<and> map ascii_lower suffix = map ascii_lower rest)"
    unfolding wildcard_shape using dns_wildcard_iff by blast
  ultimately show ?thesis
    unfolding dns_equal_def dns_matches_def Let_def span_size.simps span_bytes.simps by argo
qed

text \<open>The check succeeds exactly when some DNS name of the certificate, reached by reading, matches.\<close>

definition san_dns_names :: "byte_span \<Rightarrow> der_elem list \<Rightarrow> bytes \<Rightarrow> bool" where
  "san_dns_names san els name \<longleftrightarrow> (\<exists>el q. walks der_tlv san 0 (els @ [el]) q
     \<and> el_tag el = 0x82 \<and> el_value el = Span name)"

lemma x509_san_loop_iff:
  "x509_san_loop san h p = Ok () \<longleftrightarrow>
     (\<exists>els el q. walks der_tlv san p (els @ [el]) q \<and> el_tag el = 0x82 \<and> dns_equal (el_value el) h)"
proof (induction san h p rule: x509_san_loop.induct)
  case (1 san h p)
  have step: "(\<exists>els el q. walks der_tlv san p (els @ [el]) q \<and> el_tag el = 0x82 \<and> dns_equal (el_value el) h)
    \<longleftrightarrow> (\<exists>gn np. der_tlv san p = Ok (gn, np) \<and> (el_tag gn = 0x82 \<and> dns_equal (el_value gn) h \<or>
          (\<exists>els el q. walks der_tlv san np (els @ [el]) q \<and> el_tag el = 0x82 \<and> dns_equal (el_value el) h)))"
    (is "?L \<longleftrightarrow> ?R")
  proof
    assume ?L
    then obtain els el q where w: "walks der_tlv san p (els @ [el]) q" "el_tag el = 0x82"
      "dns_equal (el_value el) h" by blast
    then show ?R
    proof (cases els)
      case (Cons gn els')
      with w(1) obtain np where "der_tlv san p = Ok (gn, np)" "walks der_tlv san np (els' @ [el]) q"
        by (auto split: res.splits)
      with w(2,3) show ?thesis by blast
    qed (auto split: res.splits)
  next
    assume ?R
    then obtain gn np where g: "der_tlv san p = Ok (gn, np)" and
      d: "el_tag gn = 0x82 \<and> dns_equal (el_value gn) h \<or> (\<exists>els el q. walks der_tlv san np (els @ [el]) q
          \<and> el_tag el = 0x82 \<and> dns_equal (el_value el) h)" by blast
    from d show ?L
    proof
      assume "el_tag gn = 0x82 \<and> dns_equal (el_value gn) h"
      with g show ?L by (intro exI [of _ "[]"] exI [of _ gn] exI [of _ np]) simp
    next
      assume "\<exists>els el q. walks der_tlv san np (els @ [el]) q \<and> el_tag el = 0x82 \<and> dns_equal (el_value el) h"
      then obtain els el q where "walks der_tlv san np (els @ [el]) q" "el_tag el = 0x82"
        "dns_equal (el_value el) h" by blast
      with g show ?L by (intro exI [of _ "gn # els"] exI [of _ el] exI [of _ q]) simp
    qed
  qed
  show ?case
  proof (cases "der_tlv san p")
    case (Ok r)
    obtain gn np where r: "r = (gn, np)" by (cases r)
    have lt: "p < span_size san" using der.reader_advances [of san p gn np] Ok r by auto
    show ?thesis
    proof (cases "el_tag gn = 0x82 \<and> dns_equal (el_value gn) h")
      case True
      with Ok r lt step show ?thesis by (subst x509_san_loop.simps) auto
    next
      case False
      from "1.IH" [OF lt _ refl False] Ok r step False lt show ?thesis
        by (subst x509_san_loop.simps) auto
    qed
  qed (use step in \<open>subst x509_san_loop.simps, simp\<close>)+
qed

lemma x509_verify_hostname_iff:
  "x509_verify_hostname v (Some h) = Ok () \<longleftrightarrow>
     h \<noteq> [] \<and> (\<exists>els name. san_dns_names (x_subject_alt_name v) els name \<and> dns_matches name h)"
proof -
  have sp: "walks der_tlv s p (els @ [el]) q \<Longrightarrow> \<exists>name. el_value el = Span name" for s p els el q
    by (metis elem_span walks_append walks_Cons)
  have nul: "\<not> walks der_tlv s 0 (els @ [el]) q" if "span_null s" for s els el q
    using that by (cases s; cases els) (auto simp: der_tlv_def)
  have "x509_san_loop s h 0 = Ok () \<longleftrightarrow> (\<exists>els name. san_dns_names s els name \<and> dns_matches name h)" for s
    unfolding x509_san_loop_iff san_dns_names_def
    using dns_equal_iff by (metis sp)
  with nul show ?thesis
    unfolding x509_verify_hostname_def san_dns_names_def option.case by auto
qed

end
