(* ===== verification/Sha256.thy ===== *)
theory Sha256
  imports Endian
begin

text \<open>
  The streaming SHA-256 of \<open>src/crypto/sha256.cpp\<close>, and the proof that it computes the padded
  Merkle-Damgard iteration of its compression function, whatever the chunks it is fed.
\<close>

section \<open>The compression function\<close>

definition rotr :: "u32 \<Rightarrow> nat \<Rightarrow> u32" where
  "rotr x n = drop_bit n x OR push_bit (32 - n) x"

definition ch :: "u32 \<Rightarrow> u32 \<Rightarrow> u32 \<Rightarrow> u32" where
  "ch x y z = (x AND y) XOR (NOT x AND z)"

definition maj :: "u32 \<Rightarrow> u32 \<Rightarrow> u32 \<Rightarrow> u32" where
  "maj x y z = (x AND y) XOR (x AND z) XOR (y AND z)"

definition bsig0 :: "u32 \<Rightarrow> u32" where
  "bsig0 x = rotr x 2 XOR rotr x 13 XOR rotr x 22"

definition bsig1 :: "u32 \<Rightarrow> u32" where
  "bsig1 x = rotr x 6 XOR rotr x 11 XOR rotr x 25"

definition ssig0 :: "u32 \<Rightarrow> u32" where
  "ssig0 x = rotr x 7 XOR rotr x 18 XOR drop_bit 3 x"

definition ssig1 :: "u32 \<Rightarrow> u32" where
  "ssig1 x = rotr x 17 XOR rotr x 19 XOR drop_bit 10 x"

definition sha_K :: "u32 list" where
  "sha_K = concat [
    [0x428a2f98, 0x71374491, 0xb5c0fbcf, 0xe9b5dba5, 0x3956c25b, 0x59f111f1, 0x923f82a4],
    [0xab1c5ed5, 0xd807aa98, 0x12835b01, 0x243185be, 0x550c7dc3, 0x72be5d74, 0x80deb1fe],
    [0x9bdc06a7, 0xc19bf174, 0xe49b69c1, 0xefbe4786, 0x0fc19dc6, 0x240ca1cc, 0x2de92c6f],
    [0x4a7484aa, 0x5cb0a9dc, 0x76f988da, 0x983e5152, 0xa831c66d, 0xb00327c8, 0xbf597fc7],
    [0xc6e00bf3, 0xd5a79147, 0x06ca6351, 0x14292967, 0x27b70a85, 0x2e1b2138, 0x4d2c6dfc],
    [0x53380d13, 0x650a7354, 0x766a0abb, 0x81c2c92e, 0x92722c85, 0xa2bfe8a1, 0xa81a664b],
    [0xc24b8b70, 0xc76c51a3, 0xd192e819, 0xd6990624, 0xf40e3585, 0x106aa070, 0x19a4c116],
    [0x1e376c08, 0x2748774c, 0x34b0bcb5, 0x391c0cb3, 0x4ed8aa4a, 0x5b9cca4f, 0x682e6ff3],
    [0x748f82ee, 0x78a5636f, 0x84c87814, 0x8cc70208, 0x90befffa, 0xa4506ceb, 0xbef9a3f7],
    [0xc67178f2]]"

text \<open>The message schedule \<open>w[64]\<close>: sixteen words of the block, then forty-eight derived ones.\<close>

definition sha_block_words :: "bytes \<Rightarrow> u32 list" where
  "sha_block_words block =
     map (\<lambda>i. be32 (block ! (i * 4)) (block ! (i * 4 + 1)) (block ! (i * 4 + 2))
                   (block ! (i * 4 + 3))) [0..<16]"

definition sha_extend :: "u32 list \<Rightarrow> u32 list" where
  "sha_extend w0 =
     fold (\<lambda>i w. w @ [ssig1 (w ! (i - 2)) + w ! (i - 7) + ssig0 (w ! (i - 15)) + w ! (i - 16)])
       [16..<64] w0"

type_synonym sha_vars = "u32 \<times> u32 \<times> u32 \<times> u32 \<times> u32 \<times> u32 \<times> u32 \<times> u32"

fun sha_shift :: "u32 \<Rightarrow> u32 \<Rightarrow> sha_vars \<Rightarrow> sha_vars" where
  "sha_shift t1 t2 (a, b, c, d, e, f, g, h) = (t1 + t2, a, b, c, d + t1, e, f, g)"

fun sha_round :: "u32 list \<Rightarrow> nat \<Rightarrow> sha_vars \<Rightarrow> sha_vars" where
  "sha_round w i (a, b, c, d, e, f, g, h) =
     sha_shift (h + bsig1 e + ch e f g + sha_K ! i + w ! i) (bsig0 a + maj a b c)
       (a, b, c, d, e, f, g, h)"

fun sha_vars_list :: "sha_vars \<Rightarrow> u32 list" where
  "sha_vars_list (a, b, c, d, e, f, g, h) = [a, b, c, d, e, f, g, h]"

definition sha_compress :: "u32 list \<Rightarrow> bytes \<Rightarrow> u32 list" where
  "sha_compress st block =
     map2 (+) st (sha_vars_list
       (fold (sha_round (sha_extend (sha_block_words block))) [0..<64]
         (st ! 0, st ! 1, st ! 2, st ! 3, st ! 4, st ! 5, st ! 6, st ! 7)))"

lemma length_sha_vars_list [simp]: "length (sha_vars_list v) = 8"
  by (cases v rule: sha_vars_list.cases) simp

lemma length_sha_compress [simp]: "length st = 8 \<Longrightarrow> length (sha_compress st b) = 8"
  by (simp add: sha_compress_def)

section \<open>The streaming object\<close>

record sha256_ctx =
  sha_state :: "u32 list"
  sha_total_bytes :: u64
  sha_buffer :: bytes
  sha_buffered :: nat

definition sha_iv :: "u32 list" where
  "sha_iv = [0x6a09e667, 0xbb67ae85, 0x3c6ef372, 0xa54ff53a,
             0x510e527f, 0x9b05688c, 0x1f83d9ab, 0x5be0cd19]"

text \<open>The constructor and \<open>reset\<close> assign every field.\<close>

definition sha_reset :: sha256_ctx where
  "sha_reset = \<lparr>sha_state = sha_iv, sha_total_bytes = 0,
                sha_buffer = replicate 64 0, sha_buffered = 0\<rparr>"

definition sha_transform :: "sha256_ctx \<Rightarrow> bytes \<Rightarrow> sha256_ctx" where
  "sha_transform s block = s\<lparr>sha_state := sha_compress (sha_state s) block\<rparr>"

text \<open>
  The loop of \<open>update\<close>. With a full buffer at its head (\<open>buffered_ = 64\<close>) the C++ loop would copy
  nothing for ever; no operation leaves the object in that state (\<open>sha_inv\<close> below), and the model
  stops there.
\<close>

function sha_update_loop :: "sha256_ctx \<Rightarrow> bytes \<Rightarrow> sha256_ctx" where
  "sha_update_loop s p =
     (if p = [] \<or> 64 \<le> sha_buffered s then s
      else
        let n = min (64 - sha_buffered s) (length p);
            s1 = s\<lparr>sha_buffer := write_at (sha_buffer s) (sha_buffered s) (take n p),
                   sha_buffered := sha_buffered s + n\<rparr>;
            s2 = (if sha_buffered s1 = 64
                  then (sha_transform s1 (sha_buffer s1))\<lparr>sha_buffered := 0\<rparr>
                  else s1)
        in sha_update_loop s2 (drop n p))"
  by pat_completeness auto
termination
  by (relation "measure (\<lambda>(s, p). length p)") (auto simp: min_def)

declare sha_update_loop.simps [simp del]

definition sha_update :: "sha256_ctx \<Rightarrow> bytes \<Rightarrow> sha256_ctx" where
  "sha_update s data =
     sha_update_loop (s\<lparr>sha_total_bytes := sha_total_bytes s + of_nat (length data)\<rparr>) data"

text \<open>\<open>while (buffered_ < lim) buffer_[buffered_++] = 0;\<close>\<close>

definition sha_zero_fill :: "nat \<Rightarrow> sha256_ctx \<Rightarrow> sha256_ctx" where
  "sha_zero_fill lim s =
     s\<lparr>sha_buffer := write_at (sha_buffer s) (sha_buffered s) (replicate (lim - sha_buffered s) 0),
       sha_buffered := max lim (sha_buffered s)\<rparr>"

definition sha_output :: "u32 list \<Rightarrow> bytes" where
  "sha_output st = concat (map store_be32 st)"

definition sha_final :: "sha256_ctx \<Rightarrow> bytes" where
  "sha_final s =
     (let len = sha_total_bytes s * 8;
          s1 = s\<lparr>sha_buffer := write_at (sha_buffer s) (sha_buffered s) [0x80],
                 sha_buffered := sha_buffered s + 1\<rparr>;
          s2 = (if 56 < sha_buffered s1
                then (let z = sha_zero_fill 64 s1
                      in (sha_transform z (sha_buffer z))\<lparr>sha_buffered := 0\<rparr>)
                else s1);
          s3 = sha_zero_fill 56 s2;
          s4 = s3\<lparr>sha_buffer := write_at (sha_buffer s3) (sha_buffered s3) (store_be64 len),
                  sha_buffered := sha_buffered s3 + 8\<rparr>
      in sha_output (sha_state (sha_transform s4 (sha_buffer s4))))"

definition sha256 :: "bytes \<Rightarrow> bytes" where
  "sha256 inp = sha_final (sha_update sha_reset inp)"

section \<open>What the object computes\<close>

text \<open>
  The specification: the message with its padding (a one bit, zeros, the length in bits as 64
  bits) is cut into blocks of 64 bytes, which the compression function absorbs in order.
\<close>

fun blocks64 :: "bytes \<Rightarrow> bytes list" where
  "blocks64 m = (if length m < 64 then [] else take 64 m # blocks64 (drop 64 m))"

declare blocks64.simps [simp del]

definition sha_pad :: "nat \<Rightarrow> bytes" where
  "sha_pad n = 0x80 # replicate ((119 - n mod 64) mod 64) 0 @ store_be64 (of_nat n * 8)"

definition sha_absorb :: "bytes \<Rightarrow> u32 list" where
  "sha_absorb m = foldl sha_compress sha_iv (blocks64 m)"

definition sha256_spec :: "bytes \<Rightarrow> bytes" where
  "sha256_spec m = sha_output (sha_absorb (m @ sha_pad (length m)))"

lemma blocks64_short [simp]: "length m < 64 \<Longrightarrow> blocks64 m = []"
  by (simp add: blocks64.simps)

lemma blocks64_one [simp]: "length b = 64 \<Longrightarrow> blocks64 (b @ m) = b # blocks64 m"
  by (subst blocks64.simps) simp

lemma blocks64_append:
  "64 dvd length a \<Longrightarrow> blocks64 (a @ b) = blocks64 a @ blocks64 b"
proof (induction a rule: blocks64.induct)
  case (1 a)
  show ?case
  proof (cases "length a < 64")
    case True
    with 1 have "a = []" by (auto dest: dvd_imp_le)
    then show ?thesis by simp
  next
    case False
    with 1 have ih: "blocks64 (drop 64 a @ b) = blocks64 (drop 64 a) @ blocks64 b"
      by (auto simp: dvd_diff_nat)
    have "blocks64 (a @ b) = blocks64 (take 64 a @ (drop 64 a @ b))"
      by (metis append.assoc append_take_drop_id)
    also have "\<dots> = take 64 a # blocks64 (drop 64 a) @ blocks64 b"
      using False ih by simp
    also have "\<dots> = blocks64 a @ blocks64 b"
      using False blocks64.simps [of a] by simp
    finally show ?thesis .
  qed
qed

lemma sha_absorb_block:
  "64 dvd length m \<Longrightarrow> length b = 64 \<Longrightarrow> sha_absorb (m @ b) = sha_compress (sha_absorb m) b"
  using blocks64_one [of b "[]"] by (simp add: sha_absorb_def blocks64_append)

section \<open>The invariant\<close>

text \<open>
  After the bytes \<open>m\<close>: the state has absorbed the full blocks of \<open>m\<close>, and the first
  \<open>buffered_\<close> bytes of the buffer are what is left of it.
\<close>

definition sha_holds :: "bytes \<Rightarrow> sha256_ctx \<Rightarrow> bool" where
  "sha_holds m s \<longleftrightarrow>
     length (sha_buffer s) = 64 \<and> sha_buffered s < 64 \<and>
     (\<exists>full. m = full @ take (sha_buffered s) (sha_buffer s) \<and> 64 dvd length full \<and>
             sha_state s = sha_absorb full)"

definition sha_inv :: "bytes \<Rightarrow> sha256_ctx \<Rightarrow> bool" where
  "sha_inv m s \<longleftrightarrow> sha_holds m s \<and> sha_total_bytes s = of_nat (length m)"

lemma sha_inv_reset: "sha_inv [] sha_reset"
  by (auto simp: sha_inv_def sha_holds_def sha_reset_def sha_absorb_def)

lemma sha_holds_step:
  assumes h: "sha_holds m s" and x: "sha_buffered s + length x \<le> 64"
    and s1: "s1 = s\<lparr>sha_buffer := write_at (sha_buffer s) (sha_buffered s) x,
                    sha_buffered := sha_buffered s + length x\<rparr>"
  shows "sha_holds (m @ x) (if sha_buffered s1 = 64
           then (sha_transform s1 (sha_buffer s1))\<lparr>sha_buffered := 0\<rparr> else s1)"
proof -
  obtain full where f: "m = full @ take (sha_buffered s) (sha_buffer s)" "64 dvd length full"
      "sha_state s = sha_absorb full" and l: "length (sha_buffer s) = 64" "sha_buffered s < 64"
    using h by (auto simp: sha_holds_def)
  have len: "length (sha_buffer s1) = 64" using x l by (simp add: s1)
  have pre: "full @ take (sha_buffered s1) (sha_buffer s1) = m @ x"
    using f l x by (simp add: s1)
  show ?thesis
  proof (cases "sha_buffered s1 = 64")
    case True
    then have "m @ x = full @ sha_buffer s1" using pre len by simp
    moreover have "sha_state (sha_transform s1 (sha_buffer s1)) = sha_absorb (full @ sha_buffer s1)"
      using f(2,3) len by (simp add: sha_transform_def s1 sha_absorb_block)
    ultimately show ?thesis
      using True f(2) len by (auto simp: sha_holds_def sha_transform_def)
  next
    case False
    then have "sha_buffered s1 < 64" using x by (simp add: s1)
    with False pre f len show ?thesis
      by (auto simp: sha_holds_def s1 intro!: exI [of _ full])
  qed
qed

lemma sha_update_loop_holds: "sha_holds m s \<Longrightarrow> sha_holds (m @ p) (sha_update_loop s p)"
proof (induction s p arbitrary: m rule: sha_update_loop.induct)
  case (1 s p)
  show ?case
  proof (cases "p = []")
    case True
    with 1(2) show ?thesis by (simp add: sha_update_loop.simps)
  next
    case False
    have b: "sha_buffered s < 64" using 1(2) by (simp add: sha_holds_def)
    define n where "n = min (64 - sha_buffered s) (length p)"
    define s1 where "s1 = s\<lparr>sha_buffer := write_at (sha_buffer s) (sha_buffered s) (take n p),
                             sha_buffered := sha_buffered s + n\<rparr>"
    define s2 where "s2 = (if sha_buffered s1 = 64
        then (sha_transform s1 (sha_buffer s1))\<lparr>sha_buffered := 0\<rparr> else s1)"
    have n: "length (take n p) = n" by (simp add: n_def)
    have "sha_holds (m @ take n p) s2"
      unfolding s2_def
      by (rule sha_holds_step [OF 1(2)]) (use b n in \<open>auto simp: s1_def n_def\<close>)
    from 1(1) [OF _ n_def s1_def s2_def this] False b
    have "sha_holds ((m @ take n p) @ drop n p) (sha_update_loop s2 (drop n p))" by simp
    moreover have "sha_update_loop s p = sha_update_loop s2 (drop n p)"
      using False b
      by (subst sha_update_loop.simps) (simp add: Let_def n_def s1_def s2_def)
    ultimately show ?thesis by simp
  qed
qed

lemma sha_update_loop_total: "sha_total_bytes (sha_update_loop s p) = sha_total_bytes s"
proof (induction s p rule: sha_update_loop.induct)
  case (1 s p)
  then show ?case
    by (subst sha_update_loop.simps) (auto simp: Let_def sha_transform_def)
qed

lemma sha_holds_total [simp]: "sha_holds m (s\<lparr>sha_total_bytes := t\<rparr>) = sha_holds m s"
  by (simp add: sha_holds_def)

lemma sha_inv_update: "sha_inv m s \<Longrightarrow> sha_inv (m @ p) (sha_update s p)"
  by (simp add: sha_inv_def sha_update_def sha_update_loop_total sha_update_loop_holds)

text \<open>A sequence of updates keeps the invariant for the concatenation of its chunks.\<close>

lemma sha_inv_updates: "sha_inv m s \<Longrightarrow> sha_inv (m @ concat ps) (fold (\<lambda>p s. sha_update s p) ps s)"
proof (induction ps arbitrary: m s)
  case Nil
  then show ?case by simp
next
  case (Cons p ps)
  from Cons.IH [OF sha_inv_update [OF Cons.prems]] show ?case by simp
qed

section \<open>The digest\<close>

lemma write_at_write_at:
  "off + length xs + length ys \<le> length buf \<Longrightarrow>
   write_at (write_at buf off xs) (off + length xs) ys = write_at buf off (xs @ ys)"
  by (cases xs) (auto simp: write_at_def min_def ac_simps)

lemma write_at_to_end:
  "off + length xs = length buf \<Longrightarrow> write_at buf off xs = take off buf @ xs"
  by (simp add: write_at_def)

lemma sha_pad_short:
  "n mod 64 < 56 \<Longrightarrow> sha_pad n = 0x80 # replicate (55 - n mod 64) 0 @ store_be64 (of_nat n * 8)"
proof -
  assume "n mod 64 < 56"
  then have "119 - n mod 64 = (55 - n mod 64) + 64" "55 - n mod 64 < 64" by arith+
  then have "(119 - n mod 64) mod 64 = 55 - n mod 64" by (simp only: mod_add_self2 mod_less)
  then show ?thesis by (simp add: sha_pad_def)
qed

lemma sha_pad_long:
  assumes "56 \<le> n mod 64"
  shows "sha_pad n = (0x80 # replicate (63 - n mod 64) 0) @ replicate 56 0 @ store_be64 (of_nat n * 8)"
proof -
  have "n mod 64 < 64" by simp
  with assms have "(119 - n mod 64) mod 64 = (63 - n mod 64) + 56" by (simp add: mod_less)
  then show ?thesis by (simp only: sha_pad_def replicate_add append_Cons append_assoc)
qed

lemma sha_final_correct:
  assumes "sha_inv m s"
  shows "sha_final s = sha256_spec m"
proof -
  define b where "b = sha_buffered s"
  define r where "r = take b (sha_buffer s)"
  define len where "len = sha_total_bytes s * 8"
  obtain full where f: "m = full @ r" "64 dvd length full" "sha_state s = sha_absorb full"
      and l: "length (sha_buffer s) = 64" "b < 64" and tot: "sha_total_bytes s = of_nat (length m)"
    using assms by (auto simp: sha_inv_def sha_holds_def b_def r_def)
  have rl: "length r = b" using l by (simp add: r_def)
  have mb: "length m mod 64 = b" using f(1,2) rl l(2) by (auto simp: dvd_def)
  have len: "len = of_nat (length m) * 8" by (simp add: len_def tot)
  show ?thesis
  proof (cases "b < 56")
    case True
    define blk where "blk = r @ 0x80 # replicate (55 - b) 0 @ store_be64 len"
    have "write_at (write_at (write_at (sha_buffer s) b [0x80]) (b + 1) (replicate (55 - b) 0)) 56
            (store_be64 len) = blk"
      using True l write_at_write_at [of b "[0x80]" "replicate (55 - b) 0" "sha_buffer s"]
        write_at_write_at [of b "0x80 # replicate (55 - b) 0" "store_be64 len" "sha_buffer s"]
      by (simp add: write_at_to_end blk_def r_def)
    then have "sha_final s = sha_output (sha_compress (sha_absorb full) blk)"
      using True f(3)
      by (simp add: sha_final_def Let_def sha_zero_fill_def sha_transform_def b_def [symmetric]
          len_def [symmetric])
    also have "\<dots> = sha_output (sha_absorb (full @ blk))"
      using True rl f(2) by (simp add: sha_absorb_block blk_def)
    also have "full @ blk = m @ sha_pad (length m)"
      using sha_pad_short [of "length m"] True
      by (simp only: mb len blk_def) (simp add: f(1))
    finally show ?thesis by (simp add: sha256_spec_def)
  next
    case False
    define blk1 where "blk1 = r @ 0x80 # replicate (63 - b) 0"
    define blk2 where "blk2 = replicate 56 0 @ store_be64 len"
    have l1: "length blk1 = 64" "length blk2 = 64" using l(2) rl by (simp_all add: blk1_def blk2_def)
    have w1: "write_at (write_at (sha_buffer s) b [0x80]) (b + 1) (replicate (63 - b) 0) = blk1"
      using False l write_at_write_at [of b "[0x80]" "replicate (63 - b) 0" "sha_buffer s"]
      by (simp add: write_at_to_end blk1_def r_def)
    have w2: "write_at (write_at blk1 0 (replicate 56 0)) 56 (store_be64 len) = blk2"
      using l1 write_at_write_at [of 0 "replicate 56 0" "store_be64 len" blk1]
      by (simp add: write_at_to_end blk2_def)
    have "sha_final s = sha_output (sha_compress (sha_compress (sha_absorb full) blk1) blk2)"
      using False l(2) f(3) w1 w2
      by (simp add: sha_final_def Let_def sha_zero_fill_def sha_transform_def b_def [symmetric]
          len_def [symmetric])
    also have "\<dots> = sha_output (sha_absorb (full @ blk1 @ blk2))"
      using f(2) l1 sha_absorb_block [of "full @ blk1" blk2] by (simp add: sha_absorb_block)
    also have "full @ blk1 @ blk2 = m @ sha_pad (length m)"
      using sha_pad_long [of "length m"] False
      by (simp only: mb len blk1_def blk2_def) (simp add: f(1))
    finally show ?thesis by (simp add: sha256_spec_def)
  qed
qed

lemma sha256_correct: "sha256 m = sha256_spec m"
  using sha_final_correct [OF sha_inv_update [OF sha_inv_reset, of m]] by (simp add: sha256_def)

lemma sha_absorb_length [simp]: "length (sha_absorb m) = 8"
proof -
  have "length (foldl sha_compress st bs) = 8" if "length st = 8" for st bs
    using that by (induction bs arbitrary: st) simp_all
  then show ?thesis by (simp add: sha_absorb_def sha_iv_def)
qed

lemma length_sha_output: "length (sha_output st) = 4 * length st"
  by (induction st) (simp_all add: sha_output_def)

lemma length_sha256 [simp, bytes_simps]: "length (sha256 m) = 32"
  by (simp add: sha256_correct sha256_spec_def length_sha_output)

lemma length_sha_final_updates:
  "length (sha_final (fold (\<lambda>p s. sha_update s p) ps sha_reset)) = 32"
  using sha_final_correct [OF sha_inv_updates [OF sha_inv_reset, of ps]]
  by (simp add: sha256_spec_def length_sha_output)

end
