(* ===== verification/Hkdf.thy ===== *)
theory Hkdf
  imports Sha256
begin

text \<open>
  HMAC, HKDF and the TLS 1.3 label expansion of \<open>src/crypto/hkdf.cpp\<close>, with their
  specifications over whole messages: RFC 2104, RFC 5869 and the \<open>HkdfLabel\<close> of RFC 8446.
\<close>

section \<open>HMAC\<close>

definition hmac_k0 :: "bytes \<Rightarrow> bytes" where
  "hmac_k0 key =
     (if length key > 64 then write_at (replicate 64 0) 0 (sha256 key)
      else write_at (replicate 64 0) 0 key)"

definition hmac_sha256 :: "bytes \<Rightarrow> bytes \<Rightarrow> bytes" where
  "hmac_sha256 key data =
     (let k0 = hmac_k0 key;
          ipad = map (\<lambda>b. b XOR 0x36) k0;
          opad = map (\<lambda>b. b XOR 0x5c) k0;
          inner = sha_update sha_reset ipad;
          inner = (if data \<noteq> [] then sha_update inner data else inner);
          ih = sha_final inner;
          outer = sha_update (sha_update sha_reset opad) ih
      in sha_final outer)"

text \<open>RFC 2104: the key is hashed when longer than a block, and padded with zeros.\<close>

definition hmac_key_block :: "bytes \<Rightarrow> bytes" where
  "hmac_key_block key =
     (let k = (if 64 < length key then sha256 key else key) in k @ replicate (64 - length k) 0)"

definition hmac_spec :: "bytes \<Rightarrow> bytes \<Rightarrow> bytes" where
  "hmac_spec key data =
     sha256 (map (\<lambda>b. b XOR 0x5c) (hmac_key_block key) @
       sha256 (map (\<lambda>b. b XOR 0x36) (hmac_key_block key) @ data))"

lemma sha_final_two: "sha_final (sha_update (sha_update sha_reset a) b) = sha256 (a @ b)"
  using sha_final_correct [OF sha_inv_update [OF sha_inv_update [OF sha_inv_reset, of a], of b]]
  by (simp add: sha256_correct)

lemma hmac_k0_block: "hmac_k0 key = hmac_key_block key"
  by (simp add: hmac_k0_def hmac_key_block_def write_at_def Let_def)

lemma length_hmac_key_block [simp, bytes_simps]: "length (hmac_key_block key) = 64"
  by (simp add: hmac_key_block_def Let_def)

lemma hmac_correct: "hmac_sha256 key data = hmac_spec key data"
proof -
  have "sha_final (sha_update sha_reset a) = sha256 (a @ [])" for a
    by (simp add: sha256_def)
  then show ?thesis
    by (simp add: hmac_sha256_def hmac_spec_def hmac_k0_block sha_final_two Let_def)
qed

lemma length_hmac [simp, bytes_simps]: "length (hmac_sha256 key data) = 32"
  by (simp add: hmac_correct hmac_spec_def)

section \<open>HKDF\<close>

definition hkdf_extract_sha256 :: "bytes \<Rightarrow> bytes \<Rightarrow> bytes" where
  "hkdf_extract_sha256 salt ikm =
     (let s = (if salt \<noteq> [] then salt else replicate 32 0) in hmac_sha256 s ikm)"

lemma length_hkdf_extract [simp, bytes_simps]: "length (hkdf_extract_sha256 salt ikm) = 32"
  by (simp add: hkdf_extract_sha256_def Let_def)

text \<open>
  The loop: \<open>t\<close> is the previous block (empty before the first one, the code's \<open>tlen = 0\<close>),
  \<open>ctr\<close> the 8-bit counter and \<open>out\<close> the bytes written so far, of the \<open>n\<close> to write.
\<close>

function hkdf_expand_loop ::
    "bytes \<Rightarrow> bytes \<Rightarrow> nat \<Rightarrow> bytes \<Rightarrow> u8 \<Rightarrow> bytes \<Rightarrow> bytes res" where
  "hkdf_expand_loop prk info n t ctr out =
     (if length out < n then
        if length info > 512 then Err XT_ERR_INVALID_ARGUMENT
        else
          let t' = hmac_sha256 prk (t @ info @ [ctr]);
              m = min (n - length out) 32
          in hkdf_expand_loop prk info n t' (ctr + 1) (out @ take m t')
      else Ok out)"
  by pat_completeness auto
termination
  by (relation "measure (\<lambda>(prk, info, n, t, ctr, out). n - length out)") auto

declare hkdf_expand_loop.simps [simp del]

definition hkdf_expand_sha256 :: "bytes \<Rightarrow> bytes \<Rightarrow> nat \<Rightarrow> bytes res" where
  "hkdf_expand_sha256 prk info n =
     (if n > 255 * 32 then Err XT_ERR_INVALID_ARGUMENT
      else hkdf_expand_loop prk info n [] 1 [])"

subsection \<open>RFC 5869\<close>

primrec hkdf_T :: "bytes \<Rightarrow> bytes \<Rightarrow> nat \<Rightarrow> bytes" where
  "hkdf_T prk info 0 = []"
| "hkdf_T prk info (Suc i) = hmac_sha256 prk (hkdf_T prk info i @ info @ [of_nat (Suc i)])"

definition hkdf_okm :: "bytes \<Rightarrow> bytes \<Rightarrow> nat \<Rightarrow> bytes" where
  "hkdf_okm prk info k = concat (map (hkdf_T prk info) [1..<Suc k])"

lemma length_hkdf_T: "0 < i \<Longrightarrow> length (hkdf_T prk info i) = 32"
  by (cases i) simp_all

lemma length_hkdf_okm: "length (hkdf_okm prk info k) = 32 * k"
  by (induction k) (simp_all add: hkdf_okm_def)

lemma hkdf_okm_Suc: "hkdf_okm prk info (Suc k) = hkdf_okm prk info k @ hkdf_T prk info (Suc k)"
  by (simp add: hkdf_okm_def)

lemma hkdf_okm_mono:
  "k \<le> l \<Longrightarrow> take (32 * k) (hkdf_okm prk info l) = hkdf_okm prk info k"
proof (induction l)
  case 0
  then show ?case by (simp add: hkdf_okm_def)
next
  case (Suc l)
  show ?case
  proof (cases "k = Suc l")
    case True
    then show ?thesis by (simp add: length_hkdf_okm)
  next
    case False
    with Suc.prems have "k \<le> l" by simp
    with Suc.IH show ?thesis by (simp add: hkdf_okm_Suc length_hkdf_okm)
  qed
qed

lemma take_hkdf_okm:
  "n \<le> 32 * k \<Longrightarrow> k \<le> l \<Longrightarrow> take n (hkdf_okm prk info l) = take n (hkdf_okm prk info k)"
  using hkdf_okm_mono [of k l prk info] by (metis min.absorb1 take_take)

lemma hkdf_expand_loop_spec:
  assumes "length info \<le> 512" and "n \<le> 32 * l" and "32 * k \<le> n \<or> k = l"
    and "out = take n (hkdf_okm prk info k)" and "k \<le> l"
  shows "hkdf_expand_loop prk info n (hkdf_T prk info k) (of_nat (Suc k)) out
           = Ok (take n (hkdf_okm prk info l))"
  using assms
proof (induction "l - k" arbitrary: k out)
  case 0
  then have "k = l" by simp
  with 0 show ?case
    by (subst hkdf_expand_loop.simps) (simp add: length_hkdf_okm)
next
  case (Suc d)
  show ?case
  proof (cases "length out < n")
    case False
    with Suc.prems have "n \<le> 32 * k" by (simp add: length_hkdf_okm)
    then have "take n (hkdf_okm prk info l) = out"
      using take_hkdf_okm [of n k l prk info] Suc.prems by simp
    with False show ?thesis
      by (subst hkdf_expand_loop.simps) simp
  next
    case True
    with Suc.prems have out: "out = hkdf_okm prk info k" "32 * k < n"
      by (auto simp: length_hkdf_okm)
    have k: "k < l" using Suc.hyps(2) by simp
    define t' where "t' = hkdf_T prk info (Suc k)"
    have t': "hmac_sha256 prk (hkdf_T prk info k @ info @ [of_nat (Suc k)]) = t'"
      by (simp add: t'_def)
    have next_out: "out @ take (min (n - length out) 32) t' = take n (hkdf_okm prk info (Suc k))"
      using out by (simp add: hkdf_okm_Suc length_hkdf_okm t'_def length_hkdf_T min_def)
    have "hkdf_expand_loop prk info n t' (of_nat (Suc (Suc k))) (take n (hkdf_okm prk info (Suc k)))
            = Ok (take n (hkdf_okm prk info l))"
    proof (cases "32 * Suc k \<le> n \<or> Suc k = l")
      case True
      then show ?thesis unfolding t'_def
        using Suc.hyps Suc.prems k by (intro Suc.hyps(1)) auto
    next
      case False
      then have "n \<le> 32 * Suc k" by simp
      with k have "take n (hkdf_okm prk info l) = take n (hkdf_okm prk info (Suc k))"
        by (intro take_hkdf_okm) simp_all
      with \<open>n \<le> 32 * Suc k\<close> show ?thesis
        by (subst hkdf_expand_loop.simps) (simp add: length_hkdf_okm)
    qed
    moreover have "hkdf_expand_loop prk info n (hkdf_T prk info k) (of_nat (Suc k)) out
        = hkdf_expand_loop prk info n t' (of_nat (Suc k) + 1)
            (take n (hkdf_okm prk info (Suc k)))"
      using True Suc.prems(1)
      by (subst hkdf_expand_loop.simps) (simp only: t' Let_def next_out, simp)
    ultimately show ?thesis by (simp add: algebra_simps)
  qed
qed

text \<open>The first \<open>n\<close> bytes of \<open>T(1) | T(2) | \<dots>\<close>, with at most 255 blocks.\<close>

lemma hkdf_expand_correct:
  assumes "n \<le> 255 * 32" and "length info \<le> 512"
  shows "hkdf_expand_sha256 prk info n = Ok (take n (hkdf_okm prk info 255))"
  using hkdf_expand_loop_spec [of info n 255 0 "[]" prk] assms
  by (simp add: hkdf_expand_sha256_def hkdf_okm_def)

lemma hkdf_expand_long_info:
  "0 < n \<Longrightarrow> 512 < length info \<Longrightarrow> hkdf_expand_sha256 prk info n = Err XT_ERR_INVALID_ARGUMENT"
  by (simp add: hkdf_expand_sha256_def hkdf_expand_loop.simps)

section \<open>TLS 1.3 labels\<close>

definition ascii :: "string \<Rightarrow> bytes" where
  "ascii s = map of_char s"

definition hkdf_label_info :: "bytes \<Rightarrow> bytes \<Rightarrow> nat \<Rightarrow> bytes" where
  "hkdf_label_info label context n =
     store_be16 (of_nat n) @ [of_nat (6 + length label)] @ ascii ''tls13 '' @ label @
     [of_nat (length context)] @ context"

definition hkdf_expand_label_sha256 :: "bytes \<Rightarrow> cstring \<Rightarrow> bytes \<Rightarrow> nat \<Rightarrow> bytes res" where
  "hkdf_expand_label_sha256 secret label context n =
     (case label of
        None \<Rightarrow> Err XT_ERR_INVALID_ARGUMENT
      | Some label \<Rightarrow>
          if 6 + length label > 255 \<or> length context > 255 then Err XT_ERR_INVALID_ARGUMENT
          else hkdf_expand_sha256 secret (hkdf_label_info label context n) n)"

lemma length_ascii [simp, bytes_simps]: "length (ascii s) = length s"
  by (simp add: ascii_def)

lemma length_hkdf_label_info [simp, bytes_simps]:
  "length (hkdf_label_info label context n) = 10 + length label + length context"
  by (simp add: hkdf_label_info_def)

lemma hkdf_expand_label_Ok:
  assumes "length label + length context \<le> 500" and "length label \<le> 249"
    and "length context \<le> 255" and "n \<le> 255 * 32"
  shows "hkdf_expand_label_sha256 secret (Some label) context n
           = Ok (take n (hkdf_okm secret (hkdf_label_info label context n) 255))"
  using assms by (simp add: hkdf_expand_label_sha256_def hkdf_expand_correct)

text \<open>The encoding is unambiguous: the information string determines label and context.\<close>

lemma store_be16_inject: "store_be16 a = store_be16 b \<longleftrightarrow> a = b"
proof
  assume "store_be16 a = store_be16 b"
  then have "load_be16 (Span ([] @ store_be16 a @ [])) 0 = load_be16 (Span ([] @ store_be16 b @ [])) 0"
    by simp
  with load_store_be16 [of "[]" a "[]"] load_store_be16 [of "[]" b "[]"] show "a = b" by simp
qed simp

lemma of_nat_u8_inject: "m < 256 \<Longrightarrow> n < 256 \<Longrightarrow> (of_nat m :: u8) = of_nat n \<longleftrightarrow> m = n"
  by (auto dest!: arg_cong [of _ _ unat] simp: unat_of_nat)

lemma hkdf_label_info_inject:
  assumes "length l1 \<le> 249" "length l2 \<le> 249" "length c1 \<le> 255" "length c2 \<le> 255"
  shows "hkdf_label_info l1 c1 n1 = hkdf_label_info l2 c2 n2
           \<longleftrightarrow> l1 = l2 \<and> c1 = c2 \<and> (of_nat n1 :: u16) = of_nat n2"
proof
  assume eq: "hkdf_label_info l1 c1 n1 = hkdf_label_info l2 c2 n2"
  then have "(of_nat (6 + length l1) :: u8) = of_nat (6 + length l2)"
    and n: "store_be16 (of_nat n1) = store_be16 (of_nat n2)"
    and rest: "l1 @ [of_nat (length c1)] @ c1 = l2 @ [of_nat (length c2)] @ c2"
    by (simp_all add: hkdf_label_info_def store_be16_def)
  then have "length l1 = length l2"
    using assms(1,2) of_nat_u8_inject [of "6 + length l1" "6 + length l2"] by linarith
  with rest n show "l1 = l2 \<and> c1 = c2 \<and> (of_nat n1 :: u16) = of_nat n2"
    by (simp add: store_be16_inject)
qed (simp add: hkdf_label_info_def)

end
