(* ===== verification/KeySchedule.thy ===== *)
theory KeySchedule
  imports Hkdf
begin

text \<open>
  The transcript hash (\<open>src/tls/transcript.cpp\<close>), the key schedule and the traffic-secret
  update (\<open>src/tls/key_schedule.cpp\<close>), and the derivation of traffic keys
  (\<open>derive_traffic_keys_sha256\<close> in \<open>src/tls/protected_record.cpp\<close>).
\<close>

section \<open>Transcript\<close>

type_synonym transcript = sha256_ctx

definition transcript_reset :: transcript where
  "transcript_reset = sha_reset"

definition transcript_update :: "transcript \<Rightarrow> byte_span \<Rightarrow> transcript" where
  "transcript_update t b = (if span_size b \<noteq> 0 then sha_update t (span_bytes b) else t)"

definition transcript_snapshot :: "transcript \<Rightarrow> bytes" where
  "transcript_snapshot t = sha_final t"

lemma transcript_inv_reset: "sha_inv [] transcript_reset"
  by (simp add: transcript_reset_def sha_inv_reset)

lemma transcript_inv_update:
  "sha_inv m t \<Longrightarrow> sha_inv (m @ span_bytes b) (transcript_update t b)"
  using sha_inv_update [of m t "[]"]
  by (cases b) (auto simp: transcript_update_def sha_inv_update)

lemma transcript_snapshot_eq: "sha_inv m t \<Longrightarrow> transcript_snapshot t = sha256 m"
  by (simp add: transcript_snapshot_def sha_final_correct sha256_correct)

section \<open>Key schedule\<close>

record key_schedule =
  early_secret :: bytes
  handshake_secret :: bytes
  client_handshake_traffic_secret :: bytes
  server_handshake_traffic_secret :: bytes
  master_secret :: bytes
  client_application_traffic_secret :: bytes
  server_application_traffic_secret :: bytes

definition key_schedule_zero :: key_schedule where
  "key_schedule_zero =
     \<lparr>early_secret = replicate 32 0, handshake_secret = replicate 32 0,
      client_handshake_traffic_secret = replicate 32 0,
      server_handshake_traffic_secret = replicate 32 0,
      master_secret = replicate 32 0,
      client_application_traffic_secret = replicate 32 0,
      server_application_traffic_secret = replicate 32 0\<rparr>"

definition derive_secret :: "bytes \<Rightarrow> string \<Rightarrow> bytes \<Rightarrow> bytes res" where
  "derive_secret secret label th = hkdf_expand_label_sha256 secret (Some (ascii label)) th 32"

definition derive_early_secret :: "key_schedule \<Rightarrow> bytes \<Rightarrow> error \<times> key_schedule" where
  "derive_early_secret ks psk =
     (XT_OK, ks\<lparr>early_secret := hkdf_extract_sha256 (replicate 32 0) psk\<rparr>)"

text \<open>
  The two later steps assign their secrets one by one and stop at the first expansion that
  fails, so the state is returned with the error.
\<close>

definition derive_handshake_secret ::
    "key_schedule \<Rightarrow> bytes \<Rightarrow> bytes \<Rightarrow> error \<times> key_schedule" where
  "derive_handshake_secret ks ecdhe th =
     (let empty_hash = sha256 [] in
      case derive_secret (early_secret ks) ''derived'' empty_hash of
        Ok derived \<Rightarrow>
          (let ks1 = ks\<lparr>handshake_secret := hkdf_extract_sha256 derived ecdhe\<rparr> in
           case derive_secret (handshake_secret ks1) ''c hs traffic'' th of
             Ok c \<Rightarrow>
               (let ks2 = ks1\<lparr>client_handshake_traffic_secret := c\<rparr> in
                case derive_secret (handshake_secret ks2) ''s hs traffic'' th of
                  Ok s \<Rightarrow> (XT_OK, ks2\<lparr>server_handshake_traffic_secret := s\<rparr>)
                | r \<Rightarrow> (res_error r, ks2))
           | r \<Rightarrow> (res_error r, ks1))
      | r \<Rightarrow> (res_error r, ks))"

definition derive_master_secret :: "key_schedule \<Rightarrow> bytes \<Rightarrow> error \<times> key_schedule" where
  "derive_master_secret ks th =
     (let empty_hash = sha256 [] in
      case derive_secret (handshake_secret ks) ''derived'' empty_hash of
        Ok derived \<Rightarrow>
          (let ks1 = ks\<lparr>master_secret := hkdf_extract_sha256 derived (replicate 32 0)\<rparr> in
           case derive_secret (master_secret ks1) ''c ap traffic'' th of
             Ok c \<Rightarrow>
               (let ks2 = ks1\<lparr>client_application_traffic_secret := c\<rparr> in
                case derive_secret (master_secret ks2) ''s ap traffic'' th of
                  Ok s \<Rightarrow> (XT_OK, ks2\<lparr>server_application_traffic_secret := s\<rparr>)
                | r \<Rightarrow> (res_error r, ks2))
           | r \<Rightarrow> (res_error r, ks1))
      | r \<Rightarrow> (res_error r, ks))"

subsection \<open>The schedule of RFC 8446, section 7.1\<close>

text \<open>
  \<open>Derive-Secret(Secret, Label, Messages)\<close> over the transcript hash, as HKDF output: the first 32
  bytes expanded from the label's information string.
\<close>

definition rfc_derive_secret :: "bytes \<Rightarrow> string \<Rightarrow> bytes \<Rightarrow> bytes" where
  "rfc_derive_secret secret label th =
     hmac_spec secret (hkdf_label_info (ascii label) th 32 @ [1])"

definition rfc_handshake_secret :: "bytes \<Rightarrow> bytes \<Rightarrow> bytes" where
  "rfc_handshake_secret early ecdhe =
     hmac_spec (rfc_derive_secret early ''derived'' (sha256_spec [])) ecdhe"

definition rfc_master_secret :: "bytes \<Rightarrow> bytes" where
  "rfc_master_secret hs =
     hmac_spec (rfc_derive_secret hs ''derived'' (sha256_spec [])) (replicate 32 0)"

lemma derive_secret_Ok:
  assumes "length label \<le> 12" and "length th = 32"
  shows "derive_secret secret label th = Ok (rfc_derive_secret secret label th)"
proof -
  have "take 32 (hkdf_okm secret info 255) = hkdf_T secret info 1" for info
  proof -
    have "take 32 (hkdf_okm secret info 255) = take 32 (hkdf_okm secret info 1)"
      by (rule take_hkdf_okm) simp_all
    then show ?thesis by (simp add: hkdf_okm_def length_hkdf_T)
  qed
  with assms show ?thesis
    by (simp add: derive_secret_def hkdf_expand_label_Ok rfc_derive_secret_def hmac_correct)
qed

lemma length_rfc_derive_secret [simp, bytes_simps]: "length (rfc_derive_secret s l th) = 32"
  by (simp add: rfc_derive_secret_def hmac_correct [symmetric])

lemma hkdf_extract_spec: "salt \<noteq> [] \<Longrightarrow> hkdf_extract_sha256 salt ikm = hmac_spec salt ikm"
  by (simp add: hkdf_extract_sha256_def hmac_correct)

lemma rfc_derive_secret_nonempty [simp]: "rfc_derive_secret s l th \<noteq> []"
  using length_rfc_derive_secret [of s l th] by (metis list.size(3) zero_neq_numeral)

lemma derive_early_secret_eq:
  "derive_early_secret ks psk = (XT_OK, ks\<lparr>early_secret := hmac_spec (replicate 32 0) psk\<rparr>)"
  by (simp add: derive_early_secret_def hkdf_extract_spec)

lemma derive_handshake_secret_eq:
  assumes "length th = 32"
  shows "derive_handshake_secret ks ecdhe th =
    (let hs = rfc_handshake_secret (early_secret ks) ecdhe in
     (XT_OK, ks\<lparr>handshake_secret := hs,
               client_handshake_traffic_secret := rfc_derive_secret hs ''c hs traffic'' th,
               server_handshake_traffic_secret := rfc_derive_secret hs ''s hs traffic'' th\<rparr>))"
  using assms
  by (simp add: derive_handshake_secret_def derive_secret_Ok rfc_handshake_secret_def
      hkdf_extract_spec sha256_correct [symmetric] Let_def)

lemma derive_master_secret_eq:
  assumes "length th = 32"
  shows "derive_master_secret ks th =
    (let ms = rfc_master_secret (handshake_secret ks) in
     (XT_OK, ks\<lparr>master_secret := ms,
               client_application_traffic_secret := rfc_derive_secret ms ''c ap traffic'' th,
               server_application_traffic_secret := rfc_derive_secret ms ''s ap traffic'' th\<rparr>))"
  using assms
  by (simp add: derive_master_secret_def derive_secret_Ok rfc_master_secret_def
      hkdf_extract_spec sha256_correct [symmetric] Let_def)

section \<open>Traffic keys\<close>

record traffic_keys =
  tk_key :: bytes
  tk_iv :: bytes
  tk_seq :: u64

definition traffic_keys_zero :: traffic_keys where
  "traffic_keys_zero = \<lparr>tk_key = replicate 16 0, tk_iv = replicate 12 0, tk_seq = 0\<rparr>"

definition derive_traffic_keys_sha256 ::
    "byte_span \<Rightarrow> traffic_keys \<Rightarrow> error \<times> traffic_keys" where
  "derive_traffic_keys_sha256 secret out =
     (if span_null secret \<or> span_size secret \<noteq> 32 then (XT_ERR_INVALID_ARGUMENT, out)
      else case hkdf_expand_label_sha256 (span_bytes secret) (Some (ascii ''key'')) [] 16 of
        Ok k \<Rightarrow>
          (let out1 = out\<lparr>tk_key := k\<rparr> in
           case hkdf_expand_label_sha256 (span_bytes secret) (Some (ascii ''iv'')) [] 12 of
             Ok v \<Rightarrow> (XT_OK, out1\<lparr>tk_iv := v, tk_seq := 0\<rparr>)
           | r \<Rightarrow> (res_error r, out1))
      | r \<Rightarrow> (res_error r, out))"

definition update_traffic_secret_sha256 ::
    "bytes \<Rightarrow> traffic_keys \<Rightarrow> error \<times> bytes \<times> traffic_keys" where
  "update_traffic_secret_sha256 traffic_secret keys =
     (case hkdf_expand_label_sha256 traffic_secret (Some (ascii ''traffic upd'')) [] 32 of
        Ok nxt \<Rightarrow>
          (let (e, keys') = derive_traffic_keys_sha256 (Span nxt) keys in (e, nxt, keys'))
      | r \<Rightarrow> (res_error r, traffic_secret, keys))"

text \<open>RFC 8446, section 7.3: the keys of a traffic secret.\<close>

definition rfc_expand_label :: "bytes \<Rightarrow> string \<Rightarrow> nat \<Rightarrow> bytes" where
  "rfc_expand_label secret label n =
     take n (hmac_spec secret (hkdf_label_info (ascii label) [] n @ [1]))"

definition rfc_traffic_keys :: "bytes \<Rightarrow> traffic_keys" where
  "rfc_traffic_keys secret =
     \<lparr>tk_key = rfc_expand_label secret ''key'' 16, tk_iv = rfc_expand_label secret ''iv'' 12,
      tk_seq = 0\<rparr>"

lemma hkdf_expand_label_one:
  assumes "length label \<le> 12" and "n \<le> 32"
  shows "hkdf_expand_label_sha256 secret (Some (ascii label)) [] n
           = Ok (rfc_expand_label secret label n)"
proof -
  have "take n (hkdf_okm secret info 255) = take n (hkdf_T secret info 1)" for info
  proof -
    have "take n (hkdf_okm secret info 255) = take n (hkdf_okm secret info 1)"
      using assms(2) by (intro take_hkdf_okm) simp_all
    then show ?thesis by (simp add: hkdf_okm_def)
  qed
  with assms show ?thesis
    by (simp add: hkdf_expand_label_Ok rfc_expand_label_def hmac_correct)
qed

lemma length_rfc_expand_label [simp, bytes_simps]:
  "n \<le> 32 \<Longrightarrow> length (rfc_expand_label secret label n) = n"
  by (simp add: rfc_expand_label_def hmac_correct [symmetric])

lemma derive_traffic_keys_eq:
  "length secret = 32 \<Longrightarrow>
   derive_traffic_keys_sha256 (Span secret) out = (XT_OK, rfc_traffic_keys secret)"
  by (simp add: derive_traffic_keys_sha256_def hkdf_expand_label_one rfc_traffic_keys_def Let_def)

lemma update_traffic_secret_eq:
  "update_traffic_secret_sha256 secret keys =
     (let nxt = rfc_expand_label secret ''traffic upd'' 32 in (XT_OK, nxt, rfc_traffic_keys nxt))"
  by (simp add: update_traffic_secret_sha256_def hkdf_expand_label_one derive_traffic_keys_eq
      Let_def)

text \<open>Well-formed keys: a 16-byte key and a 12-byte IV.\<close>

definition keys_ok :: "traffic_keys \<Rightarrow> bool" where
  "keys_ok k \<longleftrightarrow> length (tk_key k) = 16 \<and> length (tk_iv k) = 12"

lemma keys_ok_zero [simp]: "keys_ok traffic_keys_zero"
  by (simp add: keys_ok_def traffic_keys_zero_def)

lemma keys_ok_rfc [simp]: "keys_ok (rfc_traffic_keys secret)"
  by (simp add: keys_ok_def rfc_traffic_keys_def)

lemma keys_ok_seq [simp]: "keys_ok (k\<lparr>tk_seq := n\<rparr>) = keys_ok k"
  by (simp add: keys_ok_def)

end
