(* ===== verification/Handshake.thy ===== *)
theory Handshake
  imports KeySchedule Wire
begin

text \<open>
  Handshake messages (\<open>src/tls/handshake.cpp\<close>): framing and the reassembly buffer, the parsers of
  EncryptedExtensions, Certificate and CertificateVerify, and the Finished message. A reassembly
  buffer is specified as a queue of bytes by the locale \<open>byte_queue\<close>, which the deframer of the
  code interprets.
\<close>

section \<open>Messages\<close>

definition hs_client_hello :: u8 where "hs_client_hello = 1"
definition hs_server_hello :: u8 where "hs_server_hello = 2"
definition hs_new_session_ticket :: u8 where "hs_new_session_ticket = 4"
definition hs_encrypted_extensions :: u8 where "hs_encrypted_extensions = 8"
definition hs_certificate :: u8 where "hs_certificate = 11"
definition hs_certificate_verify :: u8 where "hs_certificate_verify = 15"
definition hs_finished :: u8 where "hs_finished = 20"
definition hs_key_update :: u8 where "hs_key_update = 24"

lemmas hs_type_defs =
  hs_client_hello_def hs_server_hello_def hs_new_session_ticket_def hs_encrypted_extensions_def
  hs_certificate_def hs_certificate_verify_def hs_finished_def hs_key_update_def

record handshake_message =
  hm_type :: u8
  hm_body :: byte_span
  hm_encoded :: byte_span

definition handshake_message_init :: handshake_message where
  "handshake_message_init = \<lparr>hm_type = 0, hm_body = NullSpan 0, hm_encoded = NullSpan 0\<rparr>"

definition load_u24 :: "byte_span \<Rightarrow> nat \<Rightarrow> u32 res" where
  "load_u24 s p = bind_res (rd s p) (\<lambda>a. bind_res (rd s (p + 1)) (\<lambda>b. bind_res (rd s (p + 2)) (\<lambda>c.
     Ok (push_bit 16 (ucast a) OR push_bit 8 (ucast b) OR ucast c))))"

text \<open>The message and the number of bytes it takes.\<close>

definition parse_handshake_message :: "byte_span \<Rightarrow> (handshake_message \<times> nat) res" where
  "parse_handshake_message inp =
     (if span_null inp \<and> span_size inp \<noteq> 0 then Err XT_ERR_INVALID_ARGUMENT
      else if span_size inp < 4 then Err XT_ERR_BUFFER_TOO_SMALL
      else bind_res (load_u24 inp 1) (\<lambda>l.
        let body_len = unat l in
        if body_len > 0xFFFFFF then Err XT_ERR_BAD_HANDSHAKE
        else
          let total = body_len + 4 in
          if span_size inp < total then Err XT_ERR_BUFFER_TOO_SMALL
          else bind_res (rd inp 0) (\<lambda>t. bind_res (subspan inp 4 body_len) (\<lambda>body.
            bind_res (subspan inp 0 total) (\<lambda>encoded.
              Ok (\<lparr>hm_type = t, hm_body = body, hm_encoded = encoded\<rparr>, total))))))"

section \<open>Deframer\<close>

record deframer =
  df_storage :: byte_span
  df_used :: nat

definition deframer_new :: "byte_span \<Rightarrow> deframer" where
  "deframer_new storage = \<lparr>df_storage = storage, df_used = 0\<rparr>"

definition deframer_reset :: "deframer \<Rightarrow> deframer" where
  "deframer_reset d = d\<lparr>df_used := 0\<rparr>"

definition deframer_buffered :: "deframer \<Rightarrow> nat" where
  "deframer_buffered d = df_used d"

definition write_span :: "byte_span \<Rightarrow> nat \<Rightarrow> bytes \<Rightarrow> byte_span" where
  "write_span s off bs = (case s of NullSpan n \<Rightarrow> NullSpan n | Span buf \<Rightarrow> Span (write_at buf off bs))"

definition deframer_append :: "deframer \<Rightarrow> byte_span \<Rightarrow> error \<times> deframer" where
  "deframer_append d bs =
     (if (span_null bs \<and> span_size bs \<noteq> 0)
         \<or> (span_null (df_storage d) \<and> span_size (df_storage d) \<noteq> 0)
      then (XT_ERR_INVALID_ARGUMENT, d)
      else if span_size bs > span_size (df_storage d) - df_used d
      then (XT_ERR_BUFFER_TOO_SMALL, d)
      else (XT_OK, d\<lparr>df_storage := write_span (df_storage d) (df_used d) (span_bytes bs),
                     df_used := df_used d + span_size bs\<rparr>))"

definition deframer_peek :: "deframer \<Rightarrow> handshake_message res" where
  "deframer_peek d =
     bind_res (subspan (df_storage d) 0 (df_used d)) (\<lambda>s.
     bind_res (parse_handshake_message s) (\<lambda>(m, n). Ok m))"

definition deframer_consume :: "deframer \<Rightarrow> unit res \<times> deframer" where
  "deframer_consume d =
     (case bind_res (subspan (df_storage d) 0 (df_used d)) parse_handshake_message of
        Ok (m, n) \<Rightarrow>
          (Ok (), d\<lparr>df_storage :=
                     (if n < df_used d
                      then write_span (df_storage d) 0
                             (slice (span_bytes (df_storage d)) n (df_used d - n))
                      else df_storage d),
                   df_used := df_used d - n\<rparr>)
      | Err e \<Rightarrow> (Err e, d)
      | UB \<Rightarrow> (UB, d))"

section \<open>EncryptedExtensions\<close>

record encrypted_extensions_info =
  ee_alpn :: byte_span
  ee_has_alpn :: bool

definition encrypted_extensions_info_init :: encrypted_extensions_info where
  "encrypted_extensions_info_init = \<lparr>ee_alpn = NullSpan 0, ee_has_alpn = False\<rparr>"

text \<open>The extension at \<open>p\<close> with \<open>len\<close> bytes of data: only ALPN is looked at.\<close>

definition ee_extension ::
    "byte_span \<Rightarrow> u16 \<Rightarrow> nat \<Rightarrow> nat \<Rightarrow> encrypted_extensions_info \<Rightarrow> encrypted_extensions_info res" where
  "ee_extension body type p len out =
     (if type = 0x0010 then
        if len < 3 then Err XT_ERR_BAD_HANDSHAKE
        else bind_res (load_be16 body p) (\<lambda>l.
          let list_len = unat l in
          if list_len + 2 \<noteq> len \<or> list_len < 1 then Err XT_ERR_BAD_HANDSHAKE
          else bind_res (rd body (p + 2)) (\<lambda>pl.
            let proto_len = unat pl in
            if proto_len = 0 \<or> proto_len + 1 \<noteq> list_len then Err XT_ERR_BAD_HANDSHAKE
            else bind_res (subspan body (p + 3) proto_len) (\<lambda>s.
              Ok (out\<lparr>ee_alpn := s, ee_has_alpn := True\<rparr>))))
      else Ok out)"

function ee_loop ::
    "byte_span \<Rightarrow> nat \<Rightarrow> nat \<Rightarrow> encrypted_extensions_info \<Rightarrow> encrypted_extensions_info res" where
  "ee_loop body p remain out =
     (if remain = 0 then Ok out
      else if remain < 4 then Err XT_ERR_BAD_HANDSHAKE
      else bind_res (load_be16 body p) (\<lambda>type. bind_res (load_be16 body (p + 2)) (\<lambda>l.
        if unat l > remain - 4 then Err XT_ERR_BAD_HANDSHAKE
        else bind_res (ee_extension body type (p + 4) (unat l) out) (\<lambda>out'.
          ee_loop body (p + 4 + unat l) (remain - 4 - unat l) out'))))"
  by pat_completeness auto
termination
  by (relation "measure (\<lambda>(body, p, remain, out). remain)") auto

declare ee_loop.simps [simp del]

definition parse_encrypted_extensions ::
    "handshake_message \<Rightarrow> encrypted_extensions_info res" where
  "parse_encrypted_extensions msg =
     (if hm_type msg \<noteq> hs_encrypted_extensions \<or> span_null (hm_body msg)
         \<or> span_size (hm_body msg) < 2
      then Err XT_ERR_BAD_HANDSHAKE
      else bind_res (load_be16 (hm_body msg) 0) (\<lambda>l.
        let remain = span_size (hm_body msg) - 2 in
        if unat l \<noteq> remain then Err XT_ERR_BAD_HANDSHAKE
        else ee_loop (hm_body msg) 2 remain encrypted_extensions_info_init))"

section \<open>Certificate and CertificateVerify\<close>

record certificate_info =
  ci_request_context :: byte_span
  ci_certificate_list :: byte_span

definition parse_certificate :: "handshake_message \<Rightarrow> certificate_info res" where
  "parse_certificate msg =
     (let body = hm_body msg in
      if hm_type msg \<noteq> hs_certificate \<or> span_null body \<or> span_size body < 4
      then Err XT_ERR_BAD_HANDSHAKE
      else bind_res (rd body 0) (\<lambda>c.
        let context_len = unat c; remain = span_size body - 1 in
        if context_len > remain then Err XT_ERR_BAD_HANDSHAKE
        else bind_res (subspan body 1 context_len) (\<lambda>request_context.
          let p = 1 + context_len; remain = remain - context_len in
          if remain < 3 then Err XT_ERR_BAD_HANDSHAKE
          else bind_res (load_u24 body p) (\<lambda>l.
            let list_len = unat l; remain = remain - 3 in
            if list_len \<noteq> remain then Err XT_ERR_BAD_HANDSHAKE
            else bind_res (subspan body (p + 3) list_len) (\<lambda>certificate_list.
              Ok \<lparr>ci_request_context = request_context,
                  ci_certificate_list = certificate_list\<rparr>)))))"

definition first_certificate_der :: "certificate_info \<Rightarrow> (byte_span \<times> byte_span) res" where
  "first_certificate_der info =
     (let s = ci_certificate_list info in
      if span_null s \<or> span_size s < 5 then Err XT_ERR_BAD_HANDSHAKE
      else bind_res (load_u24 s 0) (\<lambda>l.
        let cert_len = unat l; remain = span_size s - 3 in
        if cert_len = 0 \<or> cert_len > remain then Err XT_ERR_BAD_HANDSHAKE
        else bind_res (subspan s 3 cert_len) (\<lambda>cert_der.
          let p = 3 + cert_len; remain = remain - cert_len in
          if remain < 2 then Err XT_ERR_BAD_HANDSHAKE
          else bind_res (load_be16 s p) (\<lambda>e.
            let ext_len = unat e; remain = remain - 2 in
            if ext_len > remain then Err XT_ERR_BAD_HANDSHAKE
            else bind_res (subspan s (p + 2) ext_len) (\<lambda>extensions.
              Ok (cert_der, extensions))))))"

record certificate_verify_info =
  cv_algorithm :: u16
  cv_signature :: byte_span

definition parse_certificate_verify :: "handshake_message \<Rightarrow> certificate_verify_info res" where
  "parse_certificate_verify msg =
     (let body = hm_body msg in
      if hm_type msg \<noteq> hs_certificate_verify \<or> span_null body \<or> span_size body < 4
      then Err XT_ERR_BAD_HANDSHAKE
      else bind_res (load_be16 body 0) (\<lambda>alg. bind_res (load_be16 body 2) (\<lambda>l.
        let sig_len = unat l in
        if sig_len = 0 \<or> sig_len + 4 \<noteq> span_size body then Err XT_ERR_BAD_HANDSHAKE
        else bind_res (subspan body 4 sig_len) (\<lambda>sig.
          Ok \<lparr>cv_algorithm = alg, cv_signature = sig\<rparr>))))"

section \<open>Finished\<close>

definition finished_key_sha256 :: "byte_span \<Rightarrow> bytes res" where
  "finished_key_sha256 traffic_secret =
     (if span_null traffic_secret \<or> span_size traffic_secret \<noteq> 32 then Err XT_ERR_INVALID_ARGUMENT
      else hkdf_expand_label_sha256 (span_bytes traffic_secret) (Some (ascii ''finished'')) [] 32)"

definition compute_finished_verify_data_sha256 :: "byte_span \<Rightarrow> byte_span \<Rightarrow> bytes res" where
  "compute_finished_verify_data_sha256 traffic_secret transcript_hash =
     (if span_null transcript_hash \<or> span_size transcript_hash \<noteq> 32
      then Err XT_ERR_INVALID_ARGUMENT
      else bind_res (finished_key_sha256 traffic_secret) (\<lambda>finished_key.
        Ok (hmac_sha256 finished_key (span_bytes transcript_hash))))"

definition constant_time_equal :: "bytes \<Rightarrow> bytes \<Rightarrow> nat \<Rightarrow> bool" where
  "constant_time_equal a b n \<longleftrightarrow> or_diff n a b = 0"

definition verify_finished_sha256 ::
    "byte_span \<Rightarrow> byte_span \<Rightarrow> handshake_message \<Rightarrow> unit res" where
  "verify_finished_sha256 traffic_secret transcript_hash msg =
     (if hm_type msg \<noteq> hs_finished \<or> span_null (hm_body msg) \<or> span_size (hm_body msg) \<noteq> 32
      then Err XT_ERR_BAD_HANDSHAKE
      else bind_res (compute_finished_verify_data_sha256 traffic_secret transcript_hash) (\<lambda>expected.
        bind_res (rd_bytes (hm_body msg) 0 32) (\<lambda>got.
          if constant_time_equal expected got 32 then Ok () else Err XT_ERR_VERIFY)))"

definition build_finished_sha256 :: "byte_span \<Rightarrow> byte_span \<Rightarrow> byte_span \<Rightarrow> bytes res" where
  "build_finished_sha256 traffic_secret transcript_hash out =
     (if span_null out then Err XT_ERR_INVALID_ARGUMENT
      else if span_size out < 36 then Err XT_ERR_BUFFER_TOO_SMALL
      else bind_res (compute_finished_verify_data_sha256 traffic_secret transcript_hash) (\<lambda>v.
        Ok ([hs_finished, 0, 0, 32] @ v)))"

section \<open>Framing\<close>

text \<open>The wire form of a message: type, 24-bit length, body.\<close>

definition encode_handshake :: "u8 \<Rightarrow> bytes \<Rightarrow> bytes" where
  "encode_handshake t body = [t] @ store_be24 (of_nat (length body)) @ body"

definition handshake_of :: "u8 \<Rightarrow> bytes \<Rightarrow> handshake_message" where
  "handshake_of t body =
     \<lparr>hm_type = t, hm_body = Span body, hm_encoded = Span (encode_handshake t body)\<rparr>"

lemma length_encode_handshake [simp, bytes_simps]:
  "length (encode_handshake t body) = 4 + length body"
  by (simp add: encode_handshake_def)

lemma load_u24_eq: "load_u24 = load_be24"
  by (intro ext) (simp add: load_u24_def load_be24_def be24_def)

text \<open>Every branch of the message parser, over the bytes of a valid span.\<close>

lemma parse_handshake_Span:
  "parse_handshake_message (Span bs) =
     (if length bs < 4 then Err XT_ERR_BUFFER_TOO_SMALL
      else let n = unat (be24 (bs ! 1) (bs ! 2) (bs ! 3)) in
        if length bs < n + 4 then Err XT_ERR_BUFFER_TOO_SMALL
        else Ok (\<lparr>hm_type = bs ! 0, hm_body = Span (slice bs 4 n),
                  hm_encoded = Span (take (n + 4) bs)\<rparr>, n + 4))"
proof (cases "length bs < 4")
  case False
  have "\<not> 16777215 < unat (be24 a b c)" for a b c
    using unat_be24_less [of a b c] by linarith
  moreover from False have "bs \<noteq> []" by auto
  ultimately show ?thesis using False
    by (simp add: parse_handshake_message_def load_u24_eq subspan_def Let_def
        numeral_2_eq_2 [symmetric] numeral_3_eq_3 [symmetric] not_less)
qed (simp add: parse_handshake_message_def)

lemma parse_handshake_message_safe: "parse_handshake_message s \<noteq> UB"
proof (cases s)
  case (NullSpan n)
  then show ?thesis by (simp add: parse_handshake_message_def)
next
  case (Span bs)
  then show ?thesis by (simp add: parse_handshake_Span Let_def)
qed

lemma be24_length:
  assumes "n < 16777216"
  shows "unat (be24 (ucast (drop_bit 16 (of_nat n :: u32))) (ucast (drop_bit 8 (of_nat n :: u32)))
           (ucast (of_nat n :: u32))) = n"
proof -
  have "unat (of_nat n :: u32) = n" using assms by (simp add: unat_of_nat)
  with assms show ?thesis by (subst be24_store) simp_all
qed

lemma parse_encode_handshake:
  assumes "length body < 16777216"
  shows "parse_handshake_message (Span (encode_handshake t body @ rest))
           = Ok (handshake_of t body, 4 + length body)"
  using be24_length [OF assms]
  by (simp add: parse_handshake_Span Let_def encode_handshake_def store_be24_def handshake_of_def
      slice_def take_Cons')

text \<open>A parsed message is a prefix of the input in wire form.\<close>

lemma parse_handshake_Ok:
  assumes "parse_handshake_message (Span bs) = Ok (m, n)"
  shows "4 \<le> n \<and> n \<le> length bs \<and> hm_encoded m = Span (take n bs) \<and> hm_type m = bs ! 0
    \<and> hm_body m = Span (drop 4 (take n bs))"
  using assms
  by (auto simp: parse_handshake_Span Let_def slice_def drop_take split: if_splits)

text \<open>Appending bytes never changes a message that is already complete.\<close>

lemma parse_handshake_append:
  assumes "parse_handshake_message (Span bs) = Ok (m, n)"
  shows "parse_handshake_message (Span (bs @ suf)) = Ok (m, n)"
  using assms
  by (auto simp: parse_handshake_Span Let_def nth_append slice_append_left split: if_splits)

section \<open>The reassembly buffer as a byte queue\<close>

primrec feed :: "('q \<Rightarrow> bytes \<Rightarrow> error \<times> 'q) \<Rightarrow> 'q \<Rightarrow> bytes list \<Rightarrow> error \<times> 'q" where
  "feed app q [] = (XT_OK, q)"
| "feed app q (c # cs) =
     (let (e, q') = app q c in if e = XT_OK then feed app q' cs else (e, q'))"

locale byte_queue =
  fixes inv :: "'q \<Rightarrow> bool"
    and content :: "'q \<Rightarrow> bytes"
    and room :: "'q \<Rightarrow> nat"
    and app :: "'q \<Rightarrow> bytes \<Rightarrow> error \<times> 'q"
    and front :: "'q \<Rightarrow> handshake_message res"
    and pop :: "'q \<Rightarrow> unit res \<times> 'q"
  assumes app_fits: "inv q \<Longrightarrow> length bs \<le> room q \<Longrightarrow>
      \<exists>q'. app q bs = (XT_OK, q') \<and> inv q' \<and> content q' = content q @ bs
        \<and> room q' = room q - length bs"
    and app_full: "inv q \<Longrightarrow> room q < length bs \<Longrightarrow> app q bs = (XT_ERR_BUFFER_TOO_SMALL, q)"
    and front_eq: "inv q \<Longrightarrow>
      front q = bind_res (parse_handshake_message (Span (content q))) (\<lambda>(m, n). Ok m)"
    and pop_Ok: "inv q \<Longrightarrow> parse_handshake_message (Span (content q)) = Ok (m, n) \<Longrightarrow>
      \<exists>q'. pop q = (Ok (), q') \<and> inv q' \<and> content q' = drop n (content q) \<and> room q' = room q + n"
    and pop_Err: "inv q \<Longrightarrow> parse_handshake_message (Span (content q)) = Err e \<Longrightarrow>
      pop q = (Err e, q)"
begin

text \<open>Fragments that fit are queued in order, however the bytes were cut.\<close>

lemma feed_content:
  assumes "inv q" and "length (concat cs) \<le> room q"
  shows "\<exists>q'. feed app q cs = (XT_OK, q') \<and> inv q' \<and> content q' = content q @ concat cs
           \<and> room q' = room q - length (concat cs)"
  using assms
proof (induction cs arbitrary: q)
  case Nil
  then show ?case by simp
next
  case (Cons c cs)
  from Cons.prems obtain q1 where q1: "app q c = (XT_OK, q1)" "inv q1"
    "content q1 = content q @ c" "room q1 = room q - length c"
    using app_fits [of q c] by auto
  moreover from q1 Cons.prems have "length (concat cs) \<le> room q1" by simp
  ultimately show ?case using Cons.IH [of q1] by auto
qed

text \<open>A message cut into any fragments comes out whole, and leaves what followed it.\<close>

lemma feed_message:
  assumes "inv q" and "content q = []" and "length (concat cs) \<le> room q"
    and "concat cs = encode_handshake t body @ rest" and "length body < 16777216"
  shows "\<exists>q' q''. feed app q cs = (XT_OK, q') \<and> front q' = Ok (handshake_of t body)
           \<and> pop q' = (Ok (), q'') \<and> inv q'' \<and> content q'' = rest"
proof -
  obtain q' where q': "feed app q cs = (XT_OK, q')" "inv q'" "content q' = concat cs"
    using feed_content [OF assms(1,3)] assms(2) by auto
  then have p: "parse_handshake_message (Span (content q'))
      = Ok (handshake_of t body, 4 + length body)"
    using parse_encode_handshake [OF assms(5)] assms(4) by simp
  with q' have f: "front q' = Ok (handshake_of t body)" by (simp add: front_eq)
  obtain q'' where "pop q' = (Ok (), q'')" "inv q''"
    "content q'' = drop (4 + length body) (content q')"
    using pop_Ok [OF q'(2) p] by auto
  moreover from this assms(4) q'(3) have "content q'' = rest" by simp
  ultimately show ?thesis using q'(1) f by blast
qed

text \<open>Popping always shrinks the queue: a loop of \<open>front\<close> and \<open>pop\<close> ends.\<close>

lemma pop_shrinks:
  assumes "inv q" and "pop q = (Ok (), q')"
  shows "length (content q') < length (content q)"
proof (cases "parse_handshake_message (Span (content q))")
  case (Ok r)
  then obtain m n where p: "parse_handshake_message (Span (content q)) = Ok (m, n)"
    by (cases r) auto
  with pop_Ok [OF assms(1) p] assms(2) parse_handshake_Ok [OF p] show ?thesis by auto
next
  case (Err e)
  then show ?thesis using pop_Err [OF assms(1)] assms(2) by auto
next
  case UB
  then show ?thesis using parse_handshake_message_safe by blast
qed

end

subsection \<open>The deframer implements the queue\<close>

definition deframer_inv :: "deframer \<Rightarrow> bool" where
  "deframer_inv d \<longleftrightarrow> \<not> span_null (df_storage d) \<and> df_used d \<le> span_size (df_storage d)"

definition deframer_content :: "deframer \<Rightarrow> bytes" where
  "deframer_content d = take (df_used d) (span_bytes (df_storage d))"

definition deframer_room :: "deframer \<Rightarrow> nat" where
  "deframer_room d = span_size (df_storage d) - df_used d"

lemmas deframer_defs = deframer_inv_def deframer_content_def deframer_room_def

lemma deframer_invE:
  assumes "deframer_inv d"
  obtains buf where "df_storage d = Span buf" "df_used d \<le> length buf"
  using assms by (cases "df_storage d") (auto simp: deframer_inv_def)

lemma deframer_view:
  "deframer_inv d \<Longrightarrow> subspan (df_storage d) 0 (df_used d) = Ok (Span (deframer_content d))"
  by (erule deframer_invE) (simp add: subspan_def deframer_content_def)

interpretation df: byte_queue deframer_inv deframer_content deframer_room
  "\<lambda>d bs. deframer_append d (Span bs)" deframer_peek deframer_consume
proof unfold_locales
  fix d :: deframer and bs :: bytes
  assume "deframer_inv d" and "length bs \<le> deframer_room d"
  then show "\<exists>q'. deframer_append d (Span bs) = (XT_OK, q') \<and> deframer_inv q'
      \<and> deframer_content q' = deframer_content d @ bs
      \<and> deframer_room q' = deframer_room d - length bs"
    by (elim deframer_invE) (auto simp: deframer_append_def deframer_defs write_span_def)
next
  fix d :: deframer and bs :: bytes
  assume "deframer_inv d" and "deframer_room d < length bs"
  then show "deframer_append d (Span bs) = (XT_ERR_BUFFER_TOO_SMALL, d)"
    by (elim deframer_invE) (auto simp: deframer_append_def deframer_defs)
next
  fix d assume "deframer_inv d"
  then show "deframer_peek d
      = bind_res (parse_handshake_message (Span (deframer_content d))) (\<lambda>(m, n). Ok m)"
    by (simp add: deframer_peek_def deframer_view)
next
  fix d m n
  assume inv: "deframer_inv d"
    and p: "parse_handshake_message (Span (deframer_content d)) = Ok (m, n)"
  from inv obtain buf where buf: "df_storage d = Span buf" "df_used d \<le> length buf"
    by (rule deframer_invE)
  from parse_handshake_Ok [OF p] buf have n: "n \<le> df_used d" by (simp add: deframer_content_def)
  have "take (df_used d - n) (write_at buf 0 (slice buf n (df_used d - n)))
          = drop n (take (df_used d) buf)"
    using n buf by (simp add: write_at_def slice_def drop_take)
  moreover have "deframer_consume d = (Ok (), d\<lparr>df_storage :=
      (if n < df_used d
       then write_span (df_storage d) 0 (slice (span_bytes (df_storage d)) n (df_used d - n))
       else df_storage d), df_used := df_used d - n\<rparr>)"
    by (simp add: deframer_consume_def deframer_view [OF inv] p)
  ultimately show "\<exists>q'. deframer_consume d = (Ok (), q') \<and> deframer_inv q'
      \<and> deframer_content q' = drop n (deframer_content d)
      \<and> deframer_room q' = deframer_room d + n"
    using n buf by (auto simp: deframer_defs write_span_def)
next
  fix d e
  assume "deframer_inv d" and "parse_handshake_message (Span (deframer_content d)) = Err e"
  then show "deframer_consume d = (Err e, d)"
    by (simp add: deframer_consume_def deframer_view)
qed

lemma deframer_new_inv: "deframer_inv (deframer_new (Span buf))"
  and deframer_new_content: "deframer_content (deframer_new (Span buf)) = []"
  and deframer_new_room: "deframer_room (deframer_new (Span buf)) = length buf"
  by (simp_all add: deframer_new_def deframer_defs)

lemma deframer_reset_inv: "deframer_inv d \<Longrightarrow> deframer_inv (deframer_reset d)"
  and deframer_reset_content: "deframer_content (deframer_reset d) = []"
  by (simp_all add: deframer_reset_def deframer_defs)

section \<open>EncryptedExtensions: the accepted grammar\<close>

definition alpn_payload :: "bytes \<Rightarrow> bytes" where
  "alpn_payload proto =
     store_be16 (of_nat (1 + length proto)) @ [of_nat (length proto)] @ proto"

text \<open>The extension data is a list of one protocol name of 1 to 255 bytes.\<close>

definition alpn_ok :: "bytes \<Rightarrow> bool" where
  "alpn_ok d \<longleftrightarrow> 3 < length d \<and> length d \<le> 258 \<and> d = alpn_payload (drop 3 d)"

fun ee_apply :: "extension list \<Rightarrow> encrypted_extensions_info \<Rightarrow> encrypted_extensions_info option" where
  "ee_apply [] out = Some out"
| "ee_apply ((t, d) # es) out =
     (if t = 0x0010 then
        if alpn_ok d then ee_apply es (out\<lparr>ee_alpn := Span (drop 3 d), ee_has_alpn := True\<rparr>)
        else None
      else ee_apply es out)"

lemma alpn_ok_iff:
  "3 \<le> length d \<Longrightarrow> alpn_ok d \<longleftrightarrow>
     unat (be16 (d ! 0) (d ! 1)) + 2 = length d \<and> unat (d ! 2) \<noteq> 0
     \<and> unat (d ! 2) + 1 = unat (be16 (d ! 0) (d ! 1))"
proof -
  assume l: "3 \<le> length d"
  then have d: "d = [d ! 0, d ! 1, d ! 2] @ drop 3 d"
    using drop_three [of 0 d] by (simp add: numeral_2_eq_2 [symmetric])
  define n where "n = length d - 3"
  have n: "length (drop 3 d) = n" by (simp add: n_def)
  have "d = alpn_payload (drop 3 d) \<longleftrightarrow>
      store_be16 (be16 (d ! 0) (d ! 1)) @ [d ! 2] @ drop 3 d
        = store_be16 (of_nat (1 + n)) @ [of_nat n] @ drop 3 d"
    unfolding alpn_payload_def n store_be16_be16 using d by (simp only: append.simps)
  also have "\<dots> \<longleftrightarrow> store_be16 (of_nat (1 + n)) = store_be16 (be16 (d ! 0) (d ! 1)) \<and> of_nat n = d ! 2"
    by (subst append_eq_append_conv) auto
  finally have "d = alpn_payload (drop 3 d)
      \<longleftrightarrow> store_be16 (of_nat (1 + n)) = store_be16 (be16 (d ! 0) (d ! 1)) \<and> of_nat n = d ! 2" .
  then have eq: "d = alpn_payload (drop 3 d)
      \<longleftrightarrow> of_nat (1 + n) = be16 (d ! 0) (d ! 1) \<and> of_nat n = d ! 2"
    by (simp add: store_be16_inject)
  show ?thesis
  proof (cases "n < 256")
    case True
    then have le: "length d \<le> 258" using l n_def by linarith
    have "of_nat (1 + n) = be16 (d ! 0) (d ! 1) \<longleftrightarrow> 1 + n = unat (be16 (d ! 0) (d ! 1))"
      using True by (intro of_nat_u16_eq_iff) simp
    moreover have "of_nat n = d ! 2 \<longleftrightarrow> n = unat (d ! 2)"
      using True by (intro of_nat_u8_eq_iff) simp
    ultimately show ?thesis
      unfolding alpn_ok_def eq using l True n_def le by auto
  next
    case False
    then show ?thesis
      using unat_u8_le [of "d ! 2"] l unfolding alpn_ok_def n_def by linarith
  qed
qed

lemma slice_slice: "p + n \<le> length xs \<Longrightarrow> k + m \<le> n \<Longrightarrow> slice (slice xs p n) k m = slice xs (p + k) m"
  by (simp add: slice_def drop_take add.commute min_def)

lemma ee_extension_eq:
  assumes "p + len \<le> length body"
  shows "ee_extension (Span body) t p len out =
    (if t = 0x0010 then
       if alpn_ok (slice body p len)
       then Ok (out\<lparr>ee_alpn := Span (drop 3 (slice body p len)), ee_has_alpn := True\<rparr>)
       else Err XT_ERR_BAD_HANDSHAKE
     else Ok out)"
proof (cases "len < 3")
  case True
  with assms have "\<not> alpn_ok (slice body p len)" by (simp add: alpn_ok_def)
  with True show ?thesis by (simp add: ee_extension_def)
next
  case False
  define d where "d = slice body p len"
  have ld: "length d = len" using assms by (simp add: d_def)
  have nth: "body ! p = d ! 0" "body ! (p + 1) = d ! 1" "body ! (p + 2) = d ! 2"
    using assms False by (simp_all add: d_def slice_nth del: One_nat_def)
  have ld16: "load_be16 (Span body) p = Ok (be16 (d ! 0) (d ! 1))"
    "rd (Span body) (p + 2) = Ok (d ! 2)"
    using assms False nth by simp_all
  have sub: "unat (d ! 2) + 1 = unat (be16 (d ! 0) (d ! 1)) \<Longrightarrow>
      unat (be16 (d ! 0) (d ! 1)) + 2 = len \<Longrightarrow>
      subspan (Span body) (p + 3) (unat (d ! 2)) = Ok (Span (drop 3 d))"
  proof -
    assume "unat (d ! 2) + 1 = unat (be16 (d ! 0) (d ! 1))" "unat (be16 (d ! 0) (d ! 1)) + 2 = len"
    then have "unat (d ! 2) = len - 3" "3 \<le> len" by simp_all
    then show ?thesis
      using assms by (simp add: subspan_def d_def slice_def drop_take add.commute)
  qed
  show ?thesis
    using False sub alpn_ok_iff [of d]
    by (auto simp: ee_extension_def ld16 ld Let_def d_def [symmetric] simp del: One_nat_def)
qed

interpretation ee: extension_reader ee_extension ee_loop
proof unfold_locales
  fix p len t s and body :: bytes
  assume "p + len \<le> length body"
  then show "ee_extension (Span body) t p len s = ee_extension (Span (slice body p len)) t 0 len s"
    by (simp add: ee_extension_eq)
next
  fix t s and d :: bytes
  show "ee_extension (Span d) t 0 (length d) s \<noteq> UB" by (simp add: ee_extension_eq)
qed (simp_all add: ee_loop.simps)

lemma run_ee_extension:
  "run_exts ee_extension exts out =
     (case ee_apply exts out of Some r \<Rightarrow> Ok r | None \<Rightarrow> Err XT_ERR_BAD_HANDSHAKE)"
  by (induction exts out rule: ee_apply.induct) (simp_all add: ee_extension_eq)

lemma ee_apply_iff: "run_exts ee_extension exts out = Ok r \<longleftrightarrow> ee_apply exts out = Some r"
  by (simp add: run_ee_extension split: option.split)

text \<open>The body is a 16-bit length and exactly that many bytes of extensions.\<close>

lemma parse_encrypted_extensions_iff:
  "parse_encrypted_extensions msg = Ok info \<longleftrightarrow>
     hm_type msg = hs_encrypted_extensions \<and>
     (\<exists>exts. hm_body msg = Span (store_be16 (of_nat (length (exts_bytes exts))) @ exts_bytes exts)
        \<and> length (exts_bytes exts) < 65536 \<and> list_all ext_fits exts
        \<and> ee_apply exts encrypted_extensions_info_init = Some info)"
  (is "?L \<longleftrightarrow> ?R")
proof
  assume L: ?L
  then have g: "hm_type msg = hs_encrypted_extensions" "\<not> span_null (hm_body msg)"
    "\<not> span_size (hm_body msg) < 2"
    by (auto simp: parse_encrypted_extensions_def split: if_splits)
  then obtain bs where bs: "hm_body msg = Span bs" "2 \<le> length bs" using span_nonnull by force
  define w where "w = be16 (bs ! 0) (bs ! 1)"
  have "load_be16 (Span bs) 0 = Ok w" using bs by (simp add: w_def)
  with L g bs have w: "unat w = length bs - 2"
    and l: "ee_loop (Span bs) 2 (length bs - 2) encrypted_extensions_info_init = Ok info"
    by (auto simp: parse_encrypted_extensions_def Let_def split: if_splits)
  obtain exts where e: "drop 2 bs = exts_bytes exts" "list_all ext_fits exts"
    "ee_apply exts encrypted_extensions_info_init = Some info"
    using ee.loop_Ok [OF l] bs(2) by (auto simp: ee_apply_iff)
  have len: "length (exts_bytes exts) = unat w" using w bs e(1) by (metis length_drop)
  have "bs = [bs ! 0, bs ! 1] @ exts_bytes exts" using drop_two [of 0 bs] bs e(1) by simp
  also have "[bs ! 0, bs ! 1] = store_be16 w" by (simp add: w_def store_be16_be16)
  finally have "bs = store_be16 (of_nat (length (exts_bytes exts))) @ exts_bytes exts"
    by (simp add: len)
  moreover have "unat w < 65536" by (simp add: w_def)
  ultimately show ?R
    using g(1) bs(1) e(2,3) len by (intro conjI exI [of _ exts]) simp_all
next
  assume ?R
  then obtain exts where t: "hm_type msg = hs_encrypted_extensions"
    and b: "hm_body msg = Span (store_be16 (of_nat (length (exts_bytes exts))) @ exts_bytes exts)"
    and e: "length (exts_bytes exts) < 65536" "list_all ext_fits exts"
      "ee_apply exts encrypted_extensions_info_init = Some info"
    by auto
  define body where "body = store_be16 (of_nat (length (exts_bytes exts))) @ exts_bytes exts"
  have "drop 0 body = store_be16 (of_nat (length (exts_bytes exts))) @ exts_bytes exts"
    by (simp add: body_def)
  note ld = load_be16_at [OF this]
  have "ee_loop (Span body) 2 (length (exts_bytes exts)) encrypted_extensions_info_init = Ok info"
    using ee.loop_exts [of 2 body exts] ld(3) e(2,3) by (simp add: body_def ee_apply_iff)
  then show ?L
    using t b ld e(1) unfolding body_def [symmetric]
    by (simp add: parse_encrypted_extensions_def Let_def unat_of_nat_u16) (simp add: body_def)
qed

section \<open>Certificate and CertificateVerify: the accepted grammar\<close>

definition encode_certificate :: "bytes \<Rightarrow> bytes \<Rightarrow> bytes" where
  "encode_certificate context list =
     [of_nat (length context)] @ context @ store_be24 (of_nat (length list)) @ list"

definition encode_certificate_verify :: "u16 \<Rightarrow> bytes \<Rightarrow> bytes" where
  "encode_certificate_verify alg sig = store_be16 alg @ store_be16 (of_nat (length sig)) @ sig"

lemma parse_certificate_encode:
  assumes "hm_type msg = hs_certificate" and "hm_body msg = Span (encode_certificate ctx l)"
    and "length ctx < 256" and "length l < 16777216"
  shows "parse_certificate msg = Ok \<lparr>ci_request_context = Span ctx, ci_certificate_list = Span l\<rparr>"
proof -
  define body where "body = encode_certificate ctx l"
  have len: "length body = 4 + length ctx + length l"
    by (simp add: body_def encode_certificate_def)
  have b0: "body ! 0 = of_nat (length ctx)" by (simp add: body_def encode_certificate_def)
  have u0: "unat (of_nat (length ctx) :: u8) = length ctx" using assms(3) by (rule unat_of_nat_u8)
  have "body = ([of_nat (length ctx)] @ ctx) @ store_be24 (of_nat (length l)) @ l"
    by (simp add: body_def encode_certificate_def)
  then have "load_u24 (Span body) (length ([of_nat (length ctx) :: u8] @ ctx)) = Ok (of_nat (length l))"
    using assms(4) unfolding load_u24_eq by (simp only:) (rule load_store_be24, simp add: unat_of_nat)
  then have l24: "load_u24 (Span body) (Suc (length ctx)) = Ok (of_nat (length l))" by simp
  have ul: "unat (of_nat (length l) :: u32) = length l"
    using assms(4) by (intro unat_of_nat_u32) simp
  have sub: "subspan (Span body) 1 (length ctx) = Ok (Span ctx)"
    "subspan (Span body) (Suc (length ctx) + 3) (length l) = Ok (Span l)"
    using len slice_append_right [of "[of_nat (length ctx)] @ ctx @ store_be24 (of_nat (length l))" l 0]
    by (simp_all add: subspan_def body_def encode_certificate_def slice_def)
  show ?thesis
    using assms(1) len sub l24 unfolding parse_certificate_def assms(2) body_def [symmetric]
    by (simp add: Let_def b0 u0 ul)
qed

lemma parse_certificate_decode:
  assumes "parse_certificate msg = Ok info"
  shows "hm_type msg = hs_certificate \<and> (\<exists>ctx l. hm_body msg = Span (encode_certificate ctx l)
    \<and> length ctx < 256 \<and> length l < 16777216
    \<and> info = \<lparr>ci_request_context = Span ctx, ci_certificate_list = Span l\<rparr>)"
proof -
  from assms have g: "hm_type msg = hs_certificate" "\<not> span_null (hm_body msg)"
    "\<not> span_size (hm_body msg) < 4"
    by (auto simp: parse_certificate_def Let_def split: if_splits)
  then obtain body where body: "hm_body msg = Span body" "4 \<le> length body"
    using span_nonnull by force
  define c where "c = unat (body ! 0)"
  define w where "w = be24 (body ! (1 + c)) (body ! (2 + c)) (body ! (3 + c))"
  have ne: "body \<noteq> []" using body(2) by auto
  from assms g body ne have c: "\<not> length body - 1 < c" "\<not> length body - 1 - c < 3"
    by (auto simp: parse_certificate_def Let_def c_def [symmetric] bind_res_Ok_iff split: if_splits)
  have l24: "load_u24 (Span body) (1 + c) = Ok w"
    using c body(2) unfolding load_u24_eq w_def by (simp add: eval_nat_numeral)
  from assms g body ne c have eq: "unat w = length body - 1 - c - 3"
    and info: "info = \<lparr>ci_request_context = Span (slice body 1 c),
        ci_certificate_list = Span (slice body (1 + c + 3) (unat w))\<rparr>"
    using l24 by (auto simp: parse_certificate_def Let_def c_def [symmetric] subspan_def
        split: if_splits)
  have "body = [body ! 0] @ drop 1 body"
    using ne by (cases body) simp_all
  also have "drop 1 body = slice body 1 c @ drop (1 + c) body"
    using c body(2) by (intro drop_slice) simp
  also have "drop (1 + c) body = [body ! (1 + c), body ! (1 + c + 1), body ! (1 + c + 2)]
      @ drop (1 + c + 3) body"
    using c body(2) by (intro drop_three) simp
  also have "[body ! (1 + c), body ! (1 + c + 1), body ! (1 + c + 2)] = store_be24 w"
    by (simp add: w_def store_be24_be24 eval_nat_numeral)
  also have "drop (1 + c + 3) body = slice body (1 + c + 3) (unat w)"
    using eq c body(2) by (simp add: slice_def)
  finally have dec: "body = [body ! 0] @ slice body 1 c @ store_be24 w @ slice body (1 + c + 3) (unat w)"
    by simp
  have lw: "of_nat (length (slice body (1 + c + 3) (unat w))) = w"
  proof -
    have "length (slice body (1 + c + 3) (unat w)) = unat w" using c body(2) eq by simp
    then show ?thesis by simp
  qed
  from dec have "body = encode_certificate (slice body 1 c) (slice body (1 + c + 3) (unat w))"
    unfolding encode_certificate_def lw using c body(2) by (simp add: c_def)
  moreover have "length (slice body 1 c) < 256"
    using unat_u8_le [of "body ! 0"] unfolding c_def length_slice by linarith
  moreover have "length (slice body (1 + c + 3) (unat w)) < 16777216"
    using unat_be24_less [of "body ! (1 + c)" "body ! (2 + c)" "body ! (3 + c)"]
    unfolding w_def [symmetric] length_slice by linarith
  ultimately show ?thesis using g(1) body(1) info by metis
qed

lemma parse_certificate_iff:
  "parse_certificate msg = Ok info \<longleftrightarrow>
     hm_type msg = hs_certificate \<and> (\<exists>ctx l. hm_body msg = Span (encode_certificate ctx l)
       \<and> length ctx < 256 \<and> length l < 16777216
       \<and> info = \<lparr>ci_request_context = Span ctx, ci_certificate_list = Span l\<rparr>)"
  using parse_certificate_encode parse_certificate_decode by blast

lemma parse_certificate_verify_iff:
  "parse_certificate_verify msg = Ok info \<longleftrightarrow>
     hm_type msg = hs_certificate_verify \<and>
     (\<exists>alg sig. hm_body msg = Span (encode_certificate_verify alg sig) \<and> sig \<noteq> []
       \<and> length sig < 65536 \<and> info = \<lparr>cv_algorithm = alg, cv_signature = Span sig\<rparr>)"
  (is "?L \<longleftrightarrow> ?R")
proof
  assume L: ?L
  then have g: "hm_type msg = hs_certificate_verify" "\<not> span_null (hm_body msg)"
    "\<not> span_size (hm_body msg) < 4"
    by (auto simp: parse_certificate_verify_def Let_def split: if_splits)
  then obtain body where body: "hm_body msg = Span body" "4 \<le> length body"
    using span_nonnull by force
  define w where "w = be16 (body ! 2) (body ! 3)"
  define alg where "alg = be16 (body ! 0) (body ! 1)"
  have ld: "load_be16 (Span body) 0 = Ok alg" "load_be16 (Span body) 2 = Ok w"
    using body by (simp_all add: w_def alg_def)
  from L g body have w: "unat w \<noteq> 0" "unat w + 4 = length body"
    and info: "info = \<lparr>cv_algorithm = alg, cv_signature = Span (slice body 4 (unat w))\<rparr>"
    using ld by (auto simp: parse_certificate_verify_def Let_def subspan_def split: if_splits)
  have "body = [body ! 0, body ! 1] @ [body ! 2, body ! 3] @ drop 4 body"
    using drop_two [of 0 body] drop_two [of 2 body] body(2) by (simp del: One_nat_def)
  moreover have lw: "of_nat (length (slice body 4 (unat w))) = w"
  proof -
    have "length (slice body 4 (unat w)) = unat w" using w by simp
    then show ?thesis by simp
  qed
  ultimately have "body = encode_certificate_verify alg (slice body 4 (unat w))"
    unfolding encode_certificate_verify_def lw using w(2)
    by (simp add: alg_def store_be16_be16 w_def slice_def)
  moreover have "slice body 4 (unat w) \<noteq> []" using w by (auto simp: slice_def)
  moreover have "length (slice body 4 (unat w)) < 65536"
    using unat_be16_less [of "body ! 2" "body ! 3"] unfolding w_def [symmetric] length_slice
    by linarith
  ultimately show ?R using g(1) body(1) info by metis
next
  assume ?R
  then obtain alg sig where t: "hm_type msg = hs_certificate_verify"
    and b: "hm_body msg = Span (encode_certificate_verify alg sig)"
    and s: "sig \<noteq> []" "length sig < 65536"
      "info = \<lparr>cv_algorithm = alg, cv_signature = Span sig\<rparr>"
    by auto
  define body where "body = encode_certificate_verify alg sig"
  have "drop 0 body = ext_bytes (alg, sig) @ []"
    by (simp add: body_def encode_certificate_verify_def)
  note w = ext_at_write [OF this s(2)]
  have "subspan (Span body) 4 (length sig) = Ok (Span sig)"
    using w(4,6) by (simp add: subspan_def)
  then show ?L
    using t s w(1,2,3,6) unfolding parse_certificate_verify_def b body_def [symmetric]
    by (simp add: Let_def)
qed

section \<open>The parsers stay inside the message\<close>

lemma parse_encrypted_extensions_safe: "parse_encrypted_extensions msg \<noteq> UB"
proof (cases "span_null (hm_body msg) \<or> span_size (hm_body msg) < 2")
  case True
  then show ?thesis by (auto simp: parse_encrypted_extensions_def)
next
  case False
  then obtain body where "hm_body msg = Span body" "2 \<le> length body" using span_nonnull by force
  then show ?thesis
    using ee.loop_safe [of 2 "length body - 2" body]
    by (simp add: parse_encrypted_extensions_def Let_def)
qed

lemma safe_load_u24 [simp, safe_simps]:
  "safe (load_u24 s p) Q
     = (p + 2 < length (span_bytes s) \<and>
        Q (be24 (span_bytes s ! p) (span_bytes s ! (p + 1)) (span_bytes s ! (p + 2))))"
  by (simp add: load_u24_eq)

lemma parse_certificate_safe: "parse_certificate msg \<noteq> UB"
  unfolding safe_True_iff [symmetric] parse_certificate_def Let_def
  by (auto simp: safe_subspan dest: span_nonnull_size)

lemma first_certificate_der_safe: "first_certificate_der info \<noteq> UB"
  unfolding safe_True_iff [symmetric] first_certificate_der_def Let_def
  by (auto simp: safe_subspan)

lemma parse_certificate_verify_safe: "parse_certificate_verify msg \<noteq> UB"
  unfolding safe_True_iff [symmetric] parse_certificate_verify_def Let_def
  by (auto simp: safe_subspan)

section \<open>Finished\<close>

text \<open>RFC 8446, section 4.4.4, over the HMAC of RFC 2104.\<close>

definition rfc_verify_data :: "bytes \<Rightarrow> bytes \<Rightarrow> bytes" where
  "rfc_verify_data secret th = hmac_spec (rfc_expand_label secret ''finished'' 32) th"

lemma length_rfc_verify_data [simp, bytes_simps]: "length (rfc_verify_data secret th) = 32"
  by (simp add: rfc_verify_data_def hmac_correct [symmetric])

lemma compute_finished_eq:
  "length secret = 32 \<Longrightarrow> length th = 32 \<Longrightarrow>
   compute_finished_verify_data_sha256 (Span secret) (Span th) = Ok (rfc_verify_data secret th)"
  by (simp add: compute_finished_verify_data_sha256_def finished_key_sha256_def
      hkdf_expand_label_one rfc_verify_data_def hmac_correct)

lemma verify_finished_eq:
  assumes "length secret = 32" and "length th = 32"
  shows "verify_finished_sha256 (Span secret) (Span th) msg =
    (if hm_type msg \<noteq> hs_finished \<or> span_null (hm_body msg) \<or> span_size (hm_body msg) \<noteq> 32
     then Err XT_ERR_BAD_HANDSHAKE
     else if span_bytes (hm_body msg) = rfc_verify_data secret th then Ok () else Err XT_ERR_VERIFY)"
  using assms
  by (auto simp: verify_finished_sha256_def compute_finished_eq rd_bytes_def constant_time_equal_def
      or_diff_zero_lists)

lemma build_finished_eq:
  assumes "length secret = 32" and "length th = 32" and "36 \<le> length buf"
  shows "build_finished_sha256 (Span secret) (Span th) (Span buf)
           = Ok (encode_handshake hs_finished (rfc_verify_data secret th))"
  using assms
  by (simp add: build_finished_sha256_def compute_finished_eq encode_handshake_def store_be24_def)

lemma verify_finished_safe: "verify_finished_sha256 s th msg \<noteq> UB"
proof (cases "span_null s \<or> span_null th \<or> span_size s \<noteq> 32 \<or> span_size th \<noteq> 32")
  case True
  then show ?thesis
    by (auto simp: verify_finished_sha256_def compute_finished_verify_data_sha256_def
        finished_key_sha256_def)
next
  case False
  then obtain a b where "s = Span a" "th = Span b" "length a = 32" "length b = 32"
    using span_nonnull by (metis span_size.simps(2))
  then show ?thesis by (simp add: verify_finished_eq)
qed

end
