(* ===== verification/Authentication.thy ===== *)
theory Authentication
  imports X509 Handshake Platform
begin

text \<open>
  Server authentication of \<open>src/tls/authentication.cpp\<close>: the certificate chain of a Certificate
  message, the message that CertificateVerify signs, and the checks of a server flight, with the
  verifier as an interface of two operations.
\<close>

section \<open>Model: certificate chains\<close>

datatype signature_scheme =
    SIG_ECDSA_SECP256R1_SHA256
  | SIG_RSA_PSS_RSAE_SHA256
  | SIG_RSA_PSS_PSS_SHA256

primrec signature_scheme_code :: "signature_scheme \<Rightarrow> u16" where
  "signature_scheme_code SIG_ECDSA_SECP256R1_SHA256 = 0x0403"
| "signature_scheme_code SIG_RSA_PSS_RSAE_SHA256 = 0x0804"
| "signature_scheme_code SIG_RSA_PSS_PSS_SHA256 = 0x0809"

record chain_entry =
  ce_der :: byte_span
  ce_extensions :: byte_span

text \<open>The entries in use, of which there are at most eight.\<close>

type_synonym chain_view = "chain_entry list"

record 'w auth_verifier =
  av_verify_chain :: "chain_view \<Rightarrow> cstring \<Rightarrow> ('w, unit) action"
  av_verify_signature ::
    "signature_scheme \<Rightarrow> x509_view \<Rightarrow> byte_span \<Rightarrow> byte_span \<Rightarrow> ('w, unit) action"

definition read_u24 :: "byte_span \<Rightarrow> nat \<Rightarrow> u32 res" where
  "read_u24 s p =
     bind_res (rd s p) (\<lambda>a. bind_res (rd s (p + 1)) (\<lambda>b. bind_res (rd s (p + 2)) (\<lambda>c.
       Ok (push_bit 16 (ucast a) OR push_bit 8 (ucast b) OR ucast c))))"

text \<open>One entry of the list at \<open>p\<close>, and the offset behind it.\<close>

definition chain_entry_at :: "byte_span \<Rightarrow> nat \<Rightarrow> (chain_entry \<times> nat) res" where
  "chain_entry_at s p =
     (if span_size s - p < 3 then Err XT_ERR_BAD_HANDSHAKE
      else bind_res (read_u24 s p) (\<lambda>cl.
        let cert_len = unat cl; p = p + 3 in
        if cert_len = 0 \<or> cert_len > span_size s - p then Err XT_ERR_BAD_HANDSHAKE
        else bind_res (subspan s p cert_len) (\<lambda>der.
          let p = p + cert_len in
          if span_size s - p < 2 then Err XT_ERR_BAD_HANDSHAKE
          else bind_res (load_be16 s p) (\<lambda>el.
            let ext_len = unat el; p = p + 2 in
            if ext_len > span_size s - p then Err XT_ERR_BAD_HANDSHAKE
            else bind_res (subspan s p ext_len) (\<lambda>ext.
              Ok (\<lparr>ce_der = der, ce_extensions = ext\<rparr>, p + ext_len))))))"

lemma chain_entry_at_advances: "chain_entry_at s p = Ok (en, q) \<Longrightarrow> p < q"
  by (auto simp: chain_entry_at_def Let_def bind_res_Ok_iff split: if_splits)

function chain_loop :: "byte_span \<Rightarrow> nat \<Rightarrow> chain_view \<Rightarrow> chain_view res" where
  "chain_loop s p out =
     (if p < span_size s then
        if length out \<ge> 8 then Err XT_ERR_BAD_HANDSHAKE
        else bind_res (chain_entry_at s p) (\<lambda>(en, q). chain_loop s q (out @ [en]))
      else if out = [] then Err XT_ERR_VERIFY else Ok out)"
  by pat_completeness auto
termination
  by (relation "measure (\<lambda>(s, p, out). span_size s - p)")
    (auto dest!: chain_entry_at_advances)

declare chain_loop.simps [simp del]

definition parse_certificate_chain :: "certificate_info \<Rightarrow> chain_view res" where
  "parse_certificate_chain info = chain_loop (ci_certificate_list info) 0 []"

section \<open>Model: the signed message\<close>

definition cert_verify_context :: bytes where
  "cert_verify_context = ascii ''TLS 1.3, server CertificateVerify''"

definition build_server_certificate_verify_message :: "byte_span \<Rightarrow> byte_span \<Rightarrow> bytes res" where
  "build_server_certificate_verify_message transcript_hash out =
     (if span_size transcript_hash \<noteq> 32 \<or> span_null transcript_hash then Err XT_ERR_INVALID_ARGUMENT
      else
        let need = 64 + length cert_verify_context + 1 + 32 in
        if span_null out \<or> span_size out < need then Err XT_ERR_BUFFER_TOO_SMALL
        else bind_res (rd_bytes transcript_hash 0 32) (\<lambda>th.
          Ok (replicate 64 0x20 @ cert_verify_context @ [0] @ th)))"

section \<open>Model: the server flight\<close>

definition scheme_of :: "u16 \<Rightarrow> signature_scheme res" where
  "scheme_of alg =
     (if alg = signature_scheme_code SIG_ECDSA_SECP256R1_SHA256 then Ok SIG_ECDSA_SECP256R1_SHA256
      else if alg = signature_scheme_code SIG_RSA_PSS_RSAE_SHA256 then Ok SIG_RSA_PSS_RSAE_SHA256
      else if alg = signature_scheme_code SIG_RSA_PSS_PSS_SHA256 then Ok SIG_RSA_PSS_PSS_SHA256
      else Err XT_ERR_UNSUPPORTED)"

definition scheme_fits_key :: "signature_scheme \<Rightarrow> public_key_kind \<Rightarrow> bool" where
  "scheme_fits_key scheme kind \<longleftrightarrow>
     \<not> (scheme = SIG_ECDSA_SECP256R1_SHA256 \<and> kind \<noteq> PUBLIC_KEY_EC_P256
        \<or> (scheme = SIG_RSA_PSS_RSAE_SHA256 \<or> scheme = SIG_RSA_PSS_PSS_SHA256)
          \<and> kind \<noteq> PUBLIC_KEY_RSA)"

definition authenticate_server_flight ::
    "certificate_info \<Rightarrow> certificate_verify_info \<Rightarrow> byte_span \<Rightarrow> cstring \<Rightarrow> 'w auth_verifier option
      \<Rightarrow> ('w, unit) action" where
  "authenticate_server_flight certificates certificate_verify transcript_hash hostname verifier =
     (case verifier of
        None \<Rightarrow> pure_act (Err XT_ERR_VERIFY)
      | Some v \<Rightarrow>
          if hostname = None then pure_act (Err XT_ERR_VERIFY)
          else
            bind_act (pure_act (parse_certificate_chain certificates)) (\<lambda>chain.
            bind_act (pure_act (x509_parse_certificate (ce_der (hd chain)))) (\<lambda>leaf.
            bind_act (pure_act (x509_verify_hostname leaf hostname)) (\<lambda>_.
            bind_act (av_verify_chain v chain hostname) (\<lambda>_.
            bind_act (pure_act (scheme_of (cv_algorithm certificate_verify))) (\<lambda>scheme.
              if \<not> scheme_fits_key scheme (x_public_key_kind leaf) then pure_act (Err XT_ERR_VERIFY)
              else
                bind_act (pure_act (build_server_certificate_verify_message transcript_hash
                  (Span (replicate 160 0)))) (\<lambda>m.
                av_verify_signature v scheme leaf (Span m) (cv_signature certificate_verify))))))))"

section \<open>What the client relies on\<close>

text \<open>
  The contract of a verifier: on readable spans it stays inside them, whatever it answers. The
  client's part of it is that the spans it hands over are readable.
\<close>

definition chain_valid :: "chain_view \<Rightarrow> bool" where
  "chain_valid chain \<longleftrightarrow> chain \<noteq> [] \<and> (\<forall>en \<in> set chain. \<not> span_null (ce_der en))"

definition key_readable :: "x509_view \<Rightarrow> bool" where
  "key_readable v \<longleftrightarrow> span_valid (x_subject_public_key_bits v)"

locale verifier_laws =
  fixes av :: "'w auth_verifier" and budget :: "'w \<Rightarrow> nat"
  assumes chain_law: "chain_valid chain \<Longrightarrow> obeys budget (\<lambda>_. True) (av_verify_chain av chain h)"
    and signature_law: "key_readable leaf \<Longrightarrow> span_valid msg \<Longrightarrow> span_valid sig \<Longrightarrow>
      obeys budget (\<lambda>_. True) (av_verify_signature av scheme leaf msg sig)"

lemma read_u24_eq: "read_u24 = load_be24"
  by (intro ext) (simp add: read_u24_def load_be24_def be24_def)

lemma chain_entry_at_safe:
  "p < length bs \<Longrightarrow> safe (chain_entry_at (Span bs) p) (\<lambda>(en, q). \<not> span_null (ce_der en))"
  by (auto simp: chain_entry_at_def Let_def read_u24_eq)

lemma chain_loop_safe:
  "\<forall>en \<in> set out. \<not> span_null (ce_der en) \<Longrightarrow> safe (chain_loop (Span bs) p out) chain_valid"
proof (induction "Span bs" p out rule: chain_loop.induct)
  case (1 p out)
  show ?case
  proof (cases "p < length bs \<and> length out < 8")
    case True
    show ?thesis
      by (subst chain_loop.simps)
        (use True 1 in \<open>fastforce intro!: safe_mono_Ok [OF chain_entry_at_safe]\<close>)
  next
    case False
    with 1(2) show ?thesis by (subst chain_loop.simps) (auto simp: chain_valid_def)
  qed
qed

lemma parse_certificate_chain_safe:
  "ci_certificate_list info = Span bs \<Longrightarrow> safe (parse_certificate_chain info) chain_valid"
  by (simp add: parse_certificate_chain_def chain_loop_safe)

lemma x509_parse_safe: "\<not> span_null d \<Longrightarrow> safe (x509_parse_certificate d) key_readable"
proof -
  have "key_readable v" if "x509_within bs v" for bs v
    using that by (cases "x_subject_public_key_bits v") (auto simp: key_readable_def x509_within_def)
  moreover assume "\<not> span_null d"
  then have "safe (x509_parse_certificate d) (x509_within (span_bytes d))"
    using x509_parse_certificate_within by (metis span_nonnull)
  ultimately show ?thesis by (auto elim: safe_mono)
qed

lemma x509_san_loop_safe: "safe (x509_san_loop san h p) (\<lambda>_. True)"
proof (induction san h p rule: x509_san_loop.induct)
  case (1 san h p)
  show ?case
    by (subst x509_san_loop.simps) (auto simp: der.reader_safe_iff intro!: 1)
qed

lemma x509_verify_hostname_safe: "safe (x509_verify_hostname v h) (\<lambda>_. True)"
  unfolding x509_verify_hostname_def using x509_san_loop_safe by (auto split: option.splits)

lemma cert_verify_message_eq:
  "length th = 32 \<Longrightarrow> 130 \<le> length out \<Longrightarrow>
   build_server_certificate_verify_message (Span th) (Span out)
     = Ok (replicate 64 0x20 @ cert_verify_context @ [0] @ th)"
  by (simp add: build_server_certificate_verify_message_def cert_verify_context_def rd_bytes_def)

context verifier_laws
begin

lemma authenticate_server_flight_obeys:
  assumes list: "ci_certificate_list info = Span l" and sig: "span_valid (cv_signature cv)"
    and th: "length th = 32"
  shows "obeys budget (\<lambda>_. True) (authenticate_server_flight info cv (Span th) h (Some av))"
  unfolding authenticate_server_flight_def option.case
  by (intro obeys_if obeys_bind [OF obeys_pure [OF parse_certificate_chain_safe [OF list]]]
      obeys_bind [OF obeys_pure [OF x509_parse_safe]] obeys_pure obeys_bind [OF chain_law]
      obeys_bind [OF obeys_pure [OF x509_verify_hostname_safe]]
      obeys_bind [OF obeys_pure, where P = "\<lambda>_. True"]
      obeys_bind [OF obeys_pure, where P = span_valid] signature_law)
    (use th sig in \<open>auto simp: chain_valid_def cert_verify_message_eq scheme_of_def\<close>)

end

end
