(* ===== verification/AesGcm.thy ===== *)
theory AesGcm
  imports Endian
begin

text \<open>
  AES-128 and AES-128-GCM of \<open>src/crypto/aes_gcm.cpp\<close>: the block cipher, GHASH, counter mode and
  the two authenticated operations. Blocks are lists of sixteen bytes.
\<close>

section \<open>AES-128\<close>

definition aes_sbox :: bytes where
  "aes_sbox = [
    0x63, 0x7c, 0x77, 0x7b, 0xf2, 0x6b, 0x6f, 0xc5, 0x30, 0x01, 0x67, 0x2b, 0xfe, 0xd7, 0xab, 0x76,
    0xca, 0x82, 0xc9, 0x7d, 0xfa, 0x59, 0x47, 0xf0, 0xad, 0xd4, 0xa2, 0xaf, 0x9c, 0xa4, 0x72, 0xc0,
    0xb7, 0xfd, 0x93, 0x26, 0x36, 0x3f, 0xf7, 0xcc, 0x34, 0xa5, 0xe5, 0xf1, 0x71, 0xd8, 0x31, 0x15,
    0x04, 0xc7, 0x23, 0xc3, 0x18, 0x96, 0x05, 0x9a, 0x07, 0x12, 0x80, 0xe2, 0xeb, 0x27, 0xb2, 0x75,
    0x09, 0x83, 0x2c, 0x1a, 0x1b, 0x6e, 0x5a, 0xa0, 0x52, 0x3b, 0xd6, 0xb3, 0x29, 0xe3, 0x2f, 0x84,
    0x53, 0xd1, 0x00, 0xed, 0x20, 0xfc, 0xb1, 0x5b, 0x6a, 0xcb, 0xbe, 0x39, 0x4a, 0x4c, 0x58, 0xcf,
    0xd0, 0xef, 0xaa, 0xfb, 0x43, 0x4d, 0x33, 0x85, 0x45, 0xf9, 0x02, 0x7f, 0x50, 0x3c, 0x9f, 0xa8,
    0x51, 0xa3, 0x40, 0x8f, 0x92, 0x9d, 0x38, 0xf5, 0xbc, 0xb6, 0xda, 0x21, 0x10, 0xff, 0xf3, 0xd2,
    0xcd, 0x0c, 0x13, 0xec, 0x5f, 0x97, 0x44, 0x17, 0xc4, 0xa7, 0x7e, 0x3d, 0x64, 0x5d, 0x19, 0x73,
    0x60, 0x81, 0x4f, 0xdc, 0x22, 0x2a, 0x90, 0x88, 0x46, 0xee, 0xb8, 0x14, 0xde, 0x5e, 0x0b, 0xdb,
    0xe0, 0x32, 0x3a, 0x0a, 0x49, 0x06, 0x24, 0x5c, 0xc2, 0xd3, 0xac, 0x62, 0x91, 0x95, 0xe4, 0x79,
    0xe7, 0xc8, 0x37, 0x6d, 0x8d, 0xd5, 0x4e, 0xa9, 0x6c, 0x56, 0xf4, 0xea, 0x65, 0x7a, 0xae, 0x08,
    0xba, 0x78, 0x25, 0x2e, 0x1c, 0xa6, 0xb4, 0xc6, 0xe8, 0xdd, 0x74, 0x1f, 0x4b, 0xbd, 0x8b, 0x8a,
    0x70, 0x3e, 0xb5, 0x66, 0x48, 0x03, 0xf6, 0x0e, 0x61, 0x35, 0x57, 0xb9, 0x86, 0xc1, 0x1d, 0x9e,
    0xe1, 0xf8, 0x98, 0x11, 0x69, 0xd9, 0x8e, 0x94, 0x9b, 0x1e, 0x87, 0xe9, 0xce, 0x55, 0x28, 0xdf,
    0x8c, 0xa1, 0x89, 0x0d, 0xbf, 0xe6, 0x42, 0x68, 0x41, 0x99, 0x2d, 0x0f, 0xb0, 0x54, 0xbb, 0x16]"

definition xtime :: "u8 \<Rightarrow> u8" where
  "xtime x = push_bit 1 x XOR (if x AND 0x80 \<noteq> 0 then 0x1b else 0)"

definition add_round_key :: "bytes \<Rightarrow> bytes \<Rightarrow> bytes" where
  "add_round_key s rk = map (\<lambda>i. s ! i XOR rk ! i) [0..<16]"

definition sub_bytes :: "bytes \<Rightarrow> bytes" where
  "sub_bytes s = map (\<lambda>b. aes_sbox ! unat b) s"

definition shift_rows :: "bytes \<Rightarrow> bytes" where
  "shift_rows t =
     [t ! 0, t ! 5, t ! 10, t ! 15, t ! 4, t ! 9, t ! 14, t ! 3,
      t ! 8, t ! 13, t ! 2, t ! 7, t ! 12, t ! 1, t ! 6, t ! 11]"

definition mix_column :: "u8 \<Rightarrow> u8 \<Rightarrow> u8 \<Rightarrow> u8 \<Rightarrow> bytes" where
  "mix_column a b d e =
     (let x = a XOR b XOR d XOR e in
      [a XOR (x XOR xtime (a XOR b)), b XOR (x XOR xtime (b XOR d)),
       d XOR (x XOR xtime (d XOR e)), e XOR (x XOR xtime (e XOR a))])"

definition mix_columns :: "bytes \<Rightarrow> bytes" where
  "mix_columns s =
     concat (map (\<lambda>c. mix_column (s ! (c * 4)) (s ! (c * 4 + 1)) (s ! (c * 4 + 2)) (s ! (c * 4 + 3)))
       [0..<4])"

text \<open>
  One turn of the expansion loop: \<open>rk\<close> holds the bytes written so far (the code's \<open>bytes\<close> is its
  length), and four more are appended.
\<close>

fun key_expand_step :: "bytes \<times> u8 \<Rightarrow> bytes \<times> u8" where
  "key_expand_step (rk, rcon) =
     (let n = length rk;
          t = map (\<lambda>i. rk ! (n - 4 + i)) [0..<4];
          (t, rcon) = (if n mod 16 = 0
            then ([aes_sbox ! unat (t ! 1) XOR rcon, aes_sbox ! unat (t ! 2),
                   aes_sbox ! unat (t ! 3), aes_sbox ! unat (t ! 0)], xtime rcon)
            else (t, rcon))
      in (rk @ map (\<lambda>i. rk ! (n + i - 16) XOR t ! i) [0..<4], rcon))"

definition key_expand :: "bytes \<Rightarrow> bytes" where
  "key_expand key = fst ((key_expand_step ^^ 40) (take 16 key, 1))"

definition aes_round :: "bytes \<Rightarrow> nat \<Rightarrow> bytes \<Rightarrow> bytes" where
  "aes_round rk r s =
     add_round_key (mix_columns (shift_rows (sub_bytes s))) (drop (16 * r) rk)"

definition aes_block :: "bytes \<Rightarrow> bytes \<Rightarrow> bytes" where
  "aes_block key inp =
     (let rk = key_expand key;
          s = add_round_key (take 16 inp) rk;
          s = fold (aes_round rk) [1..<10] s
      in add_round_key (shift_rows (sub_bytes s)) (drop 160 rk))"

lemma length_add_round_key [simp, bytes_simps]: "length (add_round_key s rk) = 16"
  by (simp add: add_round_key_def)

lemma length_aes_block [simp, bytes_simps]: "length (aes_block key inp) = 16"
  by (simp add: aes_block_def Let_def)

lemma length_key_expand: "length key = 16 \<Longrightarrow> length (key_expand key) = 176"
proof -
  assume k: "length key = 16"
  have step: "length (fst (key_expand_step p)) = length (fst p) + 4" for p
    by (cases p) (simp add: Let_def split: prod.splits)
  have "length (fst ((key_expand_step ^^ n) p)) = length (fst p) + 4 * n" for n p
    by (induction n) (simp_all add: step)
  with k show ?thesis by (simp add: key_expand_def)
qed

section \<open>GHASH\<close>

definition xor16 :: "bytes \<Rightarrow> bytes \<Rightarrow> bytes" where
  "xor16 a b = map (\<lambda>i. a ! i XOR b ! i) [0..<16]"

fun shr1_loop :: "u8 \<Rightarrow> bytes \<Rightarrow> bytes" where
  "shr1_loop carry [] = []"
| "shr1_loop carry (b # bs) = (drop_bit 1 b OR push_bit 7 carry) # shr1_loop (b AND 1) bs"

definition shr1 :: "bytes \<Rightarrow> bytes" where
  "shr1 v = shr1_loop 0 v"

text \<open>One of the 128 turns: \<open>z\<close> accumulates, \<open>v\<close> is multiplied by the indeterminate.\<close>

definition gf_bit :: "bytes \<Rightarrow> nat \<Rightarrow> bool" where
  "gf_bit x i = bit (x ! (i div 8)) (7 - i mod 8)"

definition gf_next :: "bytes \<Rightarrow> bytes" where
  "gf_next v =
     (let lsb = v ! 15 AND 1; v' = shr1 v
      in if lsb \<noteq> 0 then v'[0 := v' ! 0 XOR 0xe1] else v')"

fun gfmul_step :: "bytes \<Rightarrow> nat \<Rightarrow> bytes \<times> bytes \<Rightarrow> bytes \<times> bytes" where
  "gfmul_step x i (z, v) = (if gf_bit x i then xor16 z v else z, gf_next v)"

definition gfmul :: "bytes \<Rightarrow> bytes \<Rightarrow> bytes" where
  "gfmul x y = fst (fold (gfmul_step x) [0..<128] (replicate 16 0, take 16 y))"

definition ghash_block :: "bytes \<Rightarrow> bytes \<Rightarrow> bytes \<Rightarrow> bytes" where
  "ghash_block y h b = gfmul (xor16 y b) h"

fun ghash_data :: "bytes \<Rightarrow> bytes \<Rightarrow> bytes \<Rightarrow> bytes" where
  "ghash_data y h d =
     (if d = [] then y
      else ghash_data (ghash_block y h (write_at (replicate 16 0) 0 (take 16 d))) h (drop 16 d))"

declare ghash_data.simps [simp del]

section \<open>Counter mode\<close>

text \<open>\<open>for i = 15 downto 12: if (++c[i]) break;\<close>\<close>

primrec inc32_loop :: "nat \<Rightarrow> bytes \<Rightarrow> bytes" where
  "inc32_loop 0 c = c"
| "inc32_loop (Suc k) c =
     (let c' = c[12 + k := c ! (12 + k) + 1]
      in if c' ! (12 + k) \<noteq> 0 then c' else inc32_loop k c')"

definition inc32 :: "bytes \<Rightarrow> bytes" where
  "inc32 c = inc32_loop 4 c"

fun ctr_loop :: "bytes \<Rightarrow> bytes \<Rightarrow> bytes \<Rightarrow> bytes" where
  "ctr_loop key c inp =
     (if inp = [] then []
      else let c' = inc32 c; ks = aes_block key c'; n = min 16 (length inp)
           in xor_bytes (take n inp) (take n ks) @ ctr_loop key c' (drop n inp))"

declare ctr_loop.simps [simp del]

definition ctr_crypt :: "bytes \<Rightarrow> bytes \<Rightarrow> bytes \<Rightarrow> bytes" where
  "ctr_crypt key j0 inp = ctr_loop key j0 inp"

definition gcm_j0 :: "bytes \<Rightarrow> bytes" where
  "gcm_j0 nonce = (write_at (replicate 16 0) 0 (take 12 nonce))[15 := 1]"

definition auth_tag :: "bytes \<Rightarrow> bytes \<Rightarrow> bytes \<Rightarrow> bytes \<Rightarrow> bytes" where
  "auth_tag key nonce aad ct =
     (let h = aes_block key (replicate 16 0);
          y = ghash_data (replicate 16 0) h aad;
          y = ghash_data y h ct;
          lens = put_be64 (of_nat (length aad) * 8) @ put_be64 (of_nat (length ct) * 8);
          y = ghash_block y h lens;
          e0 = aes_block key (gcm_j0 nonce)
      in map (\<lambda>i. y ! i XOR e0 ! i) [0..<16])"

definition tag_equal :: "bytes \<Rightarrow> bytes \<Rightarrow> bool" where
  "tag_equal a b \<longleftrightarrow> or_diff 16 a b = 0"

section \<open>The authenticated operations\<close>

definition aes128_gcm_encrypt ::
    "bytes \<Rightarrow> bytes \<Rightarrow> byte_span \<Rightarrow> byte_span \<Rightarrow> byte_span \<Rightarrow> (bytes \<times> bytes) res" where
  "aes128_gcm_encrypt key nonce aad plaintext ciphertext =
     (if (span_size plaintext \<noteq> 0 \<and> span_null plaintext) \<or> (span_size aad \<noteq> 0 \<and> span_null aad) \<or>
         (span_size ciphertext \<noteq> 0 \<and> span_null ciphertext)
      then Err XT_ERR_INVALID_ARGUMENT
      else if span_size ciphertext < span_size plaintext then Err XT_ERR_BUFFER_TOO_SMALL
      else let ct = ctr_crypt key (gcm_j0 nonce) (span_bytes plaintext)
           in Ok (ct, auth_tag key nonce (span_bytes aad) ct))"

definition aes128_gcm_decrypt ::
    "bytes \<Rightarrow> bytes \<Rightarrow> byte_span \<Rightarrow> byte_span \<Rightarrow> bytes \<Rightarrow> byte_span \<Rightarrow> bytes res" where
  "aes128_gcm_decrypt key nonce aad ciphertext tag plaintext =
     (if (span_size ciphertext \<noteq> 0 \<and> span_null ciphertext) \<or> (span_size aad \<noteq> 0 \<and> span_null aad) \<or>
         (span_size plaintext \<noteq> 0 \<and> span_null plaintext)
      then Err XT_ERR_INVALID_ARGUMENT
      else if span_size plaintext < span_size ciphertext then Err XT_ERR_BUFFER_TOO_SMALL
      else if \<not> tag_equal (auth_tag key nonce (span_bytes aad) (span_bytes ciphertext)) tag
           then Err XT_ERR_VERIFY
      else Ok (ctr_crypt key (gcm_j0 nonce) (span_bytes ciphertext)))"

section \<open>Lengths, involution, round trip\<close>

lemma length_ctr_loop [simp, bytes_simps]: "length (ctr_loop key c inp) = length inp"
proof (induction key c inp rule: ctr_loop.induct)
  case (1 key c inp)
  then show ?case by (subst ctr_loop.simps) (auto simp: Let_def)
qed

lemma length_ctr_crypt [simp, bytes_simps]: "length (ctr_crypt key j0 inp) = length inp"
  by (simp add: ctr_crypt_def)

lemma length_auth_tag [simp, bytes_simps]: "length (auth_tag key nonce aad ct) = 16"
  by (simp add: auth_tag_def Let_def)

lemma ctr_loop_involution: "ctr_loop key c (ctr_loop key c inp) = inp"
proof (induction key c inp rule: ctr_loop.induct)
  case (1 key c inp)
  show ?case
  proof (cases "inp = []")
    case True
    then show ?thesis by (simp add: ctr_loop.simps)
  next
    case False
    define n where "n = min 16 (length inp)"
    define ks where "ks = take n (aes_block key (inc32 c))"
    define x where "x = xor_bytes (take n inp) ks"
    define rest where "rest = ctr_loop key (inc32 c) (drop n inp)"
    have lx: "length x = n" "length ks = n" by (simp_all add: x_def ks_def n_def)
    have e: "ctr_loop key c inp = x @ rest"
      using False by (subst ctr_loop.simps) (simp add: Let_def x_def ks_def rest_def n_def)
    have n': "min 16 (length (x @ rest)) = n"
      by (simp add: lx rest_def) (auto simp: n_def)
    have "0 < n" using False by (simp add: n_def)
    with lx have "x @ rest \<noteq> []" by auto
    then have "ctr_loop key c (x @ rest) = xor_bytes x ks @ ctr_loop key (inc32 c) rest"
      by (subst ctr_loop.simps) (simp only: Let_def n' if_False, simp add: lx ks_def)
    also have "xor_bytes x ks = take n inp"
      unfolding x_def by (rule xor_bytes_cancel) (simp add: lx n_def)
    also have "ctr_loop key (inc32 c) rest = drop n inp"
      unfolding rest_def using 1 [OF False refl refl refl] by (simp add: n_def)
    finally show ?thesis by (simp add: e)
  qed
qed

lemma tag_equal_iff: "length a = 16 \<Longrightarrow> length b = 16 \<Longrightarrow> tag_equal a b \<longleftrightarrow> a = b"
  by (simp add: tag_equal_def or_diff_zero_lists)

lemma gcm_decrypt_encrypt:
  assumes "aes128_gcm_encrypt key nonce aad pt out = Ok (ct, tag)" and "length ct \<le> length buf"
  shows "aes128_gcm_decrypt key nonce aad (Span ct) tag (Span buf) = Ok (span_bytes pt)"
  using assms
  by (auto simp: aes128_gcm_encrypt_def aes128_gcm_decrypt_def Let_def tag_equal_iff ctr_crypt_def
      ctr_loop_involution split: if_splits)

lemma gcm_decrypt_iff:
  assumes "length tag = 16" and "length ct \<le> length buf" and "span_size aad = 0 \<or> \<not> span_null aad"
  shows "aes128_gcm_decrypt key nonce aad (Span ct) tag (Span buf) =
     (if tag = auth_tag key nonce (span_bytes aad) ct
      then Ok (ctr_crypt key (gcm_j0 nonce) ct) else Err XT_ERR_VERIFY)"
  using assms by (auto simp: aes128_gcm_decrypt_def tag_equal_iff)

lemma gcm_encrypt_Ok:
  assumes "length pt \<le> length out" and "span_size aad = 0 \<or> \<not> span_null aad"
  shows "aes128_gcm_encrypt key nonce aad (Span pt) (Span out) =
     Ok (ctr_crypt key (gcm_j0 nonce) pt,
         auth_tag key nonce (span_bytes aad) (ctr_crypt key (gcm_j0 nonce) pt))"
  using assms by (auto simp: aes128_gcm_encrypt_def Let_def)

section \<open>The counter\<close>

lemma unat_be32:
  "unat (be32 a b c d) = 16777216 * unat a + 65536 * unat b + 256 * unat c + unat d"
proof -
  note bounds = unat_u8_le [of a] unat_u8_le [of b] unat_u8_le [of c] unat_u8_le [of d]
  have i: "unat (be24 a b c) = 65536 * unat a + 256 * unat b + unat c" by (rule unat_be24)
  have "push_bit 8 (be24 a b c) OR ucast d = be32 a b c d"
    by (simp add: be32_def be24_def or.assoc)
  moreover have "unat (push_bit 8 (be24 a b c) OR ucast d :: u32) = unat (be24 a b c) * 2 ^ 8 + unat d"
    by (subst unat_push_or) (use unat_be24_less [of a b c] in simp_all)
  ultimately show ?thesis by (simp add: i)
qed

lemma store_be32_be32: "store_be32 (be32 a b c d) = [a, b, c, d]"
proof -
  have high: "\<not> bit (x :: u8) (8 + n)" "\<not> bit x (16 + n)" "\<not> bit x (24 + n)" for x n
    by (auto dest: bit_imp_le_length)
  have "ucast (drop_bit 24 (be32 a b c d)) = a"
    by (rule bit_word_eqI) (auto simp: be32_def bit_simps high)
  moreover have "ucast (drop_bit 16 (be32 a b c d)) = b"
    by (rule bit_word_eqI) (auto simp: be32_def bit_simps high)
  moreover have "ucast (drop_bit 8 (be32 a b c d)) = c"
    by (rule bit_word_eqI) (auto simp: be32_def bit_simps high)
  moreover have "ucast (be32 a b c d) = d"
    by (rule bit_word_eqI) (auto simp: be32_def bit_simps)
  ultimately show ?thesis by (simp add: store_be32_def)
qed

lemma unat_u8_plus_one: "unat (x + 1 :: u8) = (if x = 255 then 0 else unat x + 1)"
proof (cases "x = 255")
  case True
  then show ?thesis by simp
next
  case False
  then have "unat x \<noteq> 255" by (simp add: word_unat_eq_iff)
  with unat_u8_le [of x] have "unat x + 1 < 256" by linarith
  with False show ?thesis by (simp add: unat_word_ariths)
qed

lemma be32_plus_one:
  "be32 a b c d + 1 =
     (if d \<noteq> 255 then be32 a b c (d + 1)
      else if c \<noteq> 255 then be32 a b (c + 1) 0
      else if b \<noteq> 255 then be32 a (b + 1) 0 0
      else be32 (a + 1) 0 0 0)"
proof -
  note bounds = unat_u8_le [of a] unat_u8_le [of b] unat_u8_le [of c] unat_u8_le [of d]
  have "unat (be32 a b c d + 1) = (unat (be32 a b c d) + 1) mod 4294967296"
    by (simp add: unat_word_ariths)
  then show ?thesis
    using bounds unat_u8_plus_one [of a] unat_u8_plus_one [of b] unat_u8_plus_one [of c]
      unat_u8_plus_one [of d]
    by (auto simp: word_unat_eq_iff unat_be32 simp del: unat_u8_le split: if_splits)
qed

lemma u8_plus_one_zero: "(x + 1 = (0 :: u8)) \<longleftrightarrow> x = 255"
  using unat_u8_plus_one [of x] by (auto simp: word_unat_eq_iff split: if_splits)

text \<open>Incrementing the block increments its last 32 bits, modulo \<open>2^32\<close>, and nothing else.\<close>

lemma inc32_block:
  assumes "length n = 12"
  shows "inc32 (n @ store_be32 w) = n @ store_be32 (w + 1)"
proof -
  obtain a b c d where w: "w = be32 a b c d" by (metis be32_store)
  have idx: "(n @ [a, b, c, d]) ! 12 = a" "(n @ [a, b, c, d]) ! 13 = b"
    "(n @ [a, b, c, d]) ! 14 = c" "(n @ [a, b, c, d]) ! 15 = d" for a b c d
    using assms by (simp_all add: nth_append)
  have upd: "(n @ [a, b, c, d])[12 := x] = n @ [x, b, c, d]"
    "(n @ [a, b, c, d])[13 := x] = n @ [a, x, c, d]"
    "(n @ [a, b, c, d])[14 := x] = n @ [a, b, x, d]"
    "(n @ [a, b, c, d])[15 := x] = n @ [a, b, c, x]" for a b c d x
    using assms by (simp_all add: list_update_append)
  have four: "4 = Suc (Suc (Suc (Suc 0)))" by simp
  show ?thesis
    unfolding w inc32_def be32_plus_one store_be32_be32 four
    by (simp add: Let_def idx upd u8_plus_one_zero store_be32_be32 numeral_eq_Suc [symmetric])
qed

lemma gcm_j0_eq: "length nonce = 12 \<Longrightarrow> gcm_j0 nonce = nonce @ store_be32 1"
  by (simp add: gcm_j0_def write_at_def store_be32_def list_update_append numeral_eq_Suc
      replicate_Suc)

lemma inc32_iterate:
  "length nonce = 12 \<Longrightarrow> (inc32 ^^ i) (gcm_j0 nonce) = nonce @ store_be32 (1 + of_nat i)"
  by (induction i) (simp_all add: gcm_j0_eq inc32_block algebra_simps)

text \<open>Within a message of fewer than \<open>2^32\<close> blocks no counter block occurs twice.\<close>

lemma counter_blocks_distinct:
  assumes "length nonce = 12" and "i < 2 ^ 32" and "j < 2 ^ 32"
    and "(inc32 ^^ i) (gcm_j0 nonce) = (inc32 ^^ j) (gcm_j0 nonce)"
  shows "i = j"
proof -
  have "store_be32 (1 + of_nat i) = store_be32 (1 + of_nat j)"
    using assms by (simp add: inc32_iterate)
  then have "(1 + of_nat i :: u32) = 1 + of_nat j"
    by (metis append_Nil append_Nil2 load_store_be32 res.inject(1))
  then have "(of_nat i :: u32) = of_nat j" by simp
  then have "unat (of_nat i :: u32) = unat (of_nat j :: u32)" by simp
  with assms(2,3) show ?thesis by (simp add: unat_of_nat)
qed

end
