(* ===== verification/RecordLayer.thy ===== *)
theory RecordLayer
  imports AesGcm KeySchedule
begin

text \<open>
  The record layer: the header parser and the nonce of \<open>src/tls/record.cpp\<close>, and record
  protection and its removal in \<open>src/tls/protected_record.cpp\<close>. The C library's \<open>malloc\<close> is a
  parameter: \<open>alloc n\<close> says whether an allocation of \<open>n\<close> bytes succeeds.
\<close>

section \<open>Headers and nonces\<close>

record record_header =
  rh_type :: u8
  rh_version :: u16
  rh_length :: u16

definition parse_record_header :: "byte_span \<Rightarrow> record_header res" where
  "parse_record_header inp =
     (if span_null inp then Err XT_ERR_INVALID_ARGUMENT
      else if span_size inp < 5 then Err XT_ERR_BUFFER_TOO_SMALL
      else bind_res (rd inp 0) (\<lambda>t. bind_res (load_be16 inp 1) (\<lambda>v. bind_res (load_be16 inp 3) (\<lambda>l.
        if unat l > 16640 then Err XT_ERR_BAD_RECORD
        else Ok \<lparr>rh_type = t, rh_version = v, rh_length = l\<rparr>))))"

definition make_record_nonce :: "bytes \<Rightarrow> u64 \<Rightarrow> bytes" where
  "make_record_nonce iv seq =
     (let s = put_be64 seq in
      fold (\<lambda>i nonce. nonce[4 + i := nonce ! (4 + i) XOR s ! i]) [0..<8] (take 12 iv))"

definition content_change_cipher_spec :: u8 where "content_change_cipher_spec = 20"
definition content_alert :: u8 where "content_alert = 21"
definition content_handshake :: u8 where "content_handshake = 22"
definition content_application_data :: u8 where "content_application_data = 23"

lemmas content_type_defs =
  content_change_cipher_spec_def content_alert_def content_handshake_def
  content_application_data_def

section \<open>Protection\<close>

definition protect_record_aes128_gcm ::
    "(nat \<Rightarrow> bool) \<Rightarrow> traffic_keys \<Rightarrow> u8 \<Rightarrow> byte_span \<Rightarrow> nat \<Rightarrow> byte_span \<Rightarrow> bytes res \<times> traffic_keys"
  where
  "protect_record_aes128_gcm alloc keys inner_type content padding out =
     (if (span_size content \<noteq> 0 \<and> span_null content) \<or> span_null out
      then (Err XT_ERR_INVALID_ARGUMENT, keys)
      else if inner_type < 20 \<or> inner_type > 23 then (Err XT_ERR_INVALID_ARGUMENT, keys)
      else if span_size content > 16384 \<or> padding > 255 then (Err XT_ERR_BAD_RECORD, keys)
      else
        let inner_len = span_size content + 1 + padding;
            frag_len = inner_len + 16;
            total = 5 + frag_len
        in
        if frag_len > 16640 then (Err XT_ERR_BAD_RECORD, keys)
        else if span_size out < total then (Err XT_ERR_BUFFER_TOO_SMALL, keys)
        else if \<not> alloc inner_len then (Err XT_ERR_CRYPTO, keys)
        else
          let inner = span_bytes content @ [inner_type] @ replicate padding 0;
              hdr = [content_application_data, 0x03, 0x03,
                     ucast (drop_bit 8 (of_nat frag_len :: u32)), ucast (of_nat frag_len :: u32)];
              nonce = make_record_nonce (tk_iv keys) (tk_seq keys)
          in case aes128_gcm_encrypt (tk_key keys) nonce (Span hdr) (Span inner)
                    (Span (replicate inner_len 0)) of
               Ok (ct, tag) \<Rightarrow> (Ok (hdr @ ct @ tag), keys\<lparr>tk_seq := tk_seq keys + 1\<rparr>)
             | Err e \<Rightarrow> (Err e, keys)
             | UB \<Rightarrow> (UB, keys))"

text \<open>\<open>while (n > 0 && plaintext[n - 1] == 0) --n;\<close>\<close>

primrec strip_zeros :: "bytes \<Rightarrow> nat \<Rightarrow> nat" where
  "strip_zeros p 0 = 0"
| "strip_zeros p (Suc n) = (if p ! n = 0 then strip_zeros p n else Suc n)"

definition unprotect_record_aes128_gcm ::
    "traffic_keys \<Rightarrow> byte_span \<Rightarrow> byte_span \<Rightarrow> (u8 \<times> bytes) res \<times> traffic_keys" where
  "unprotect_record_aes128_gcm keys rec plaintext =
     (if span_null rec \<or> span_null plaintext then (Err XT_ERR_INVALID_ARGUMENT, keys)
      else
       (let r = bind_res (parse_record_header rec) (\<lambda>h.
          if rh_type h \<noteq> content_application_data \<or> rh_version h \<noteq> 0x0303 then Err XT_ERR_BAD_RECORD
          else if span_size rec < 5 + unat (rh_length h) \<or> unat (rh_length h) < 17
               then Err XT_ERR_BAD_RECORD
          else
            let ct_len = unat (rh_length h) - 16 in
            if span_size plaintext < ct_len then Err XT_ERR_BUFFER_TOO_SMALL
            else
              let nonce = make_record_nonce (tk_iv keys) (tk_seq keys) in
              bind_res (subspan rec 0 5) (\<lambda>aad.
              bind_res (subspan rec 5 ct_len) (\<lambda>ct.
              bind_res (rd_bytes rec (5 + ct_len) 16) (\<lambda>tag.
              bind_res (subspan plaintext 0 ct_len) (\<lambda>dst.
              bind_res (aes128_gcm_decrypt (tk_key keys) nonce aad ct tag dst) (\<lambda>plain.
                let n = strip_zeros plain ct_len in
                if n = 0 then Err XT_ERR_BAD_RECORD
                else
                  let t = plain ! (n - 1) in
                  if t < 20 \<or> t > 23 then Err XT_ERR_BAD_RECORD
                  else Ok (t, take (n - 1) plain)))))))
        in (r, if is_ok r then keys\<lparr>tk_seq := tk_seq keys + 1\<rparr> else keys)))"

section \<open>Nonces\<close>

lemma fold_update_xor:
  "length n = 4 + k \<Longrightarrow> length s = k \<Longrightarrow> j \<le> k \<Longrightarrow>
   fold (\<lambda>i n. n[4 + i := n ! (4 + i) XOR s ! i]) [0..<j] n
     = take 4 n @ map (\<lambda>i. n ! (4 + i) XOR s ! i) [0..<j] @ drop (4 + j) n"
proof (induction j)
  case 0
  then show ?case by simp
next
  case (Suc j)
  then have "drop (4 + j) n = n ! (4 + j) # drop (4 + Suc j) n"
    using Cons_nth_drop_Suc [of "4 + j" n] by simp
  with Suc show ?case
    by (simp add: nth_append list_update_append)
qed

lemma make_record_nonce_eq:
  assumes "length iv = 12"
  shows "make_record_nonce iv seq = take 4 iv @ xor_bytes (drop 4 iv) (put_be64 seq)"
proof -
  have "map (\<lambda>i. iv ! (4 + i) XOR put_be64 seq ! i) [0..<8] = xor_bytes (drop 4 iv) (put_be64 seq)"
    using assms by (intro nth_equalityI) (simp_all add: nth_xor_bytes)
  with assms show ?thesis
    by (simp add: make_record_nonce_def fold_update_xor [where k = 8])
qed

lemma length_make_record_nonce [simp, bytes_simps]:
  "length iv = 12 \<Longrightarrow> length (make_record_nonce iv seq) = 12"
  by (simp add: make_record_nonce_eq)

lemma put_be_loop_inject:
  "take_bit (8 * k) v = take_bit (8 * k) w" if "put_be_loop k v = put_be_loop k w"
  using that
proof (induction k arbitrary: v w)
  case 0
  show ?case by simp
next
  case (Suc k)
  then have lo: "(ucast v :: u8) = ucast w"
    and eq: "put_be_loop k (drop_bit 8 v) = put_be_loop k (drop_bit 8 w)"
    by simp_all
  from Suc.IH [OF eq]
  have hi: "take_bit (8 * k) (drop_bit 8 v) = take_bit (8 * k) (drop_bit 8 w)" .
  show ?case
  proof (rule bit_word_eqI)
    fix n assume n: "n < LENGTH(64)"
    show "bit (take_bit (8 * Suc k) v) n = bit (take_bit (8 * Suc k) w) n"
    proof (cases "n < 8")
      case True
      have "bit (ucast v :: u8) n = bit (ucast w :: u8) n" by (simp only: lo)
      with True n show ?thesis by (simp add: bit_simps)
    next
      case False
      have "bit (take_bit (8 * k) (drop_bit 8 v)) (n - 8)
          = bit (take_bit (8 * k) (drop_bit 8 w)) (n - 8)"
        by (simp only: hi)
      with False show ?thesis by (simp add: bit_simps less_diff_conv2 add.commute)
    qed
  qed
qed

lemma put_be64_inject: "put_be64 v = put_be64 w \<longleftrightarrow> v = w"
  using put_be_loop_inject [of 8 v w] by (auto simp: put_be64_def take_bit_word_eq_self)

text \<open>Under one IV, different sequence numbers give different nonces.\<close>

lemma make_record_nonce_inject:
  assumes "length iv = 12"
  shows "make_record_nonce iv m = make_record_nonce iv n \<longleftrightarrow> m = n"
proof
  assume "make_record_nonce iv m = make_record_nonce iv n"
  then have eq: "xor_bytes (drop 4 iv) (put_be64 m) = xor_bytes (drop 4 iv) (put_be64 n)"
    by (simp add: make_record_nonce_eq assms)
  have c: "xor_bytes (xor_bytes (drop 4 iv) (put_be64 x)) (drop 4 iv) = put_be64 x" for x
    using assms by (subst xor_bytes_commute [of "drop 4 iv"]) (rule xor_bytes_cancel, simp)
  have "put_be64 m = put_be64 n"
    by (metis c eq)
  then show "m = n" by (simp add: put_be64_inject)
qed simp

section \<open>Headers\<close>


lemma parse_record_header_Span:
  "parse_record_header (Span bs) =
     (if length bs < 5 then Err XT_ERR_BUFFER_TOO_SMALL
      else if unat (be16 (bs ! 3) (bs ! 4)) > 16640 then Err XT_ERR_BAD_RECORD
      else Ok \<lparr>rh_type = bs ! 0, rh_version = be16 (bs ! 1) (bs ! 2),
               rh_length = be16 (bs ! 3) (bs ! 4)\<rparr>)"
proof (cases "length bs < 5")
  case False
  then have "rd (Span bs) 0 = Ok (bs ! 0)"
    by (cases bs) simp_all
  moreover from False have "load_be16 (Span bs) 1 = Ok (be16 (bs ! 1) (bs ! 2))"
    "load_be16 (Span bs) 3 = Ok (be16 (bs ! 3) (bs ! 4))"
    by (auto simp: numeral_2_eq_2)
  ultimately show ?thesis
    using False by (simp add: parse_record_header_def del: load_be16_Ok rd_Ok)
qed (simp add: parse_record_header_def)

lemma parse_record_header_safe: "parse_record_header inp \<noteq> UB"
  by (cases inp) (simp_all add: parse_record_header_Span, simp add: parse_record_header_def)

lemma parse_record_header_length:
  "parse_record_header inp = Ok h \<Longrightarrow> unat (rh_length h) \<le> 16640"
  by (cases inp) (auto simp: parse_record_header_def bind_res_Ok_iff split: if_splits)

section \<open>What protection writes\<close>

definition record_hdr :: "nat \<Rightarrow> bytes" where
  "record_hdr frag_len =
     [content_application_data, 0x03, 0x03,
      ucast (drop_bit 8 (of_nat frag_len :: u32)), ucast (of_nat frag_len :: u32)]"

definition inner_plaintext :: "u8 \<Rightarrow> bytes \<Rightarrow> nat \<Rightarrow> bytes" where
  "inner_plaintext t content padding = content @ [t] @ replicate padding 0"

definition sealed_record :: "traffic_keys \<Rightarrow> u8 \<Rightarrow> bytes \<Rightarrow> nat \<Rightarrow> bytes" where
  "sealed_record keys t content padding =
     (let hdr = record_hdr (length content + 1 + padding + 16);
          nonce = make_record_nonce (tk_iv keys) (tk_seq keys);
          ct = ctr_crypt (tk_key keys) (gcm_j0 nonce) (inner_plaintext t content padding)
      in hdr @ ct @ auth_tag (tk_key keys) nonce hdr ct)"

lemma length_record_hdr [simp, bytes_simps]: "length (record_hdr n) = 5"
  by (simp add: record_hdr_def)

lemma length_inner_plaintext [simp, bytes_simps]:
  "length (inner_plaintext t content padding) = length content + 1 + padding"
  by (simp add: inner_plaintext_def)

lemma length_sealed_record [simp, bytes_simps]:
  "length (sealed_record keys t content padding) = 5 + (length content + 1 + padding) + 16"
  by (simp add: sealed_record_def Let_def)

text \<open>Every branch of \<open>protect_record_aes128_gcm\<close>.\<close>

lemma protect_record_eq:
  "protect_record_aes128_gcm alloc keys t (Span content) padding (Span out) =
     (if t < 20 \<or> t > 23 then (Err XT_ERR_INVALID_ARGUMENT, keys)
      else if length content > 16384 \<or> padding > 255 \<or> length content + padding > 16623
           then (Err XT_ERR_BAD_RECORD, keys)
      else if length out < length content + padding + 22 then (Err XT_ERR_BUFFER_TOO_SMALL, keys)
      else if \<not> alloc (length content + 1 + padding) then (Err XT_ERR_CRYPTO, keys)
      else (Ok (sealed_record keys t content padding), keys\<lparr>tk_seq := tk_seq keys + 1\<rparr>))"
  by (simp add: protect_record_aes128_gcm_def gcm_encrypt_Ok sealed_record_def record_hdr_def
      inner_plaintext_def Let_def)

lemma protect_record_safe: "fst (protect_record_aes128_gcm alloc keys t content padding out) \<noteq> UB"
proof (cases content)
  case (NullSpan n)
  then show ?thesis
    by (cases out) (simp_all add: protect_record_aes128_gcm_def gcm_encrypt_Ok Let_def)
next
  case (Span c)
  then show ?thesis
  proof (cases out)
    case (Span o')
    with \<open>content = Span c\<close> show ?thesis by (simp add: protect_record_eq)
  qed (simp add: protect_record_aes128_gcm_def)
qed

lemma unprotect_record_safe: "fst (unprotect_record_aes128_gcm keys rec plain) \<noteq> UB"
proof -
  have "aes128_gcm_decrypt k n a c t p \<noteq> UB" for k n a c t p
    by (simp add: aes128_gcm_decrypt_def)
  then have dec: "safe (aes128_gcm_decrypt k n a c t p) (\<lambda>_. True)" for k n a c t p
    by (simp add: safe_True_iff)
  show ?thesis
  proof (cases "span_null rec \<or> span_null plain")
    case True
    then show ?thesis by (auto simp: unprotect_record_aes128_gcm_def)
  next
    case False
    then obtain rb pb where sp: "rec = Span rb" "plain = Span pb"
      using span_nonnull by blast
    have "safe (fst (unprotect_record_aes128_gcm keys rec plain)) (\<lambda>_. True)"
      unfolding sp
      by (auto simp: unprotect_record_aes128_gcm_def Let_def parse_record_header_Span
          intro!: safe_mono [OF dec])
    then show ?thesis by (simp add: safe_True_iff)
  qed
qed

section \<open>What removal of protection accepts\<close>

text \<open>Every branch of \<open>unprotect_record_aes128_gcm\<close>, over the bytes of the record.\<close>

definition opened_record :: "traffic_keys \<Rightarrow> bytes \<Rightarrow> nat \<Rightarrow> (u8 \<times> bytes) res" where
  "opened_record keys rec cap =
     (if length rec < 5 then Err XT_ERR_BUFFER_TOO_SMALL
      else
        let len = unat (be16 (rec ! 3) (rec ! 4)); ct_len = len - 16 in
        if len > 16640 \<or> rec ! 0 \<noteq> content_application_data \<or> be16 (rec ! 1) (rec ! 2) \<noteq> 0x0303
           \<or> length rec < 5 + len \<or> len < 17
        then Err XT_ERR_BAD_RECORD
        else if cap < ct_len then Err XT_ERR_BUFFER_TOO_SMALL
        else
          let nonce = make_record_nonce (tk_iv keys) (tk_seq keys); ct = slice rec 5 ct_len in
          if slice rec (5 + ct_len) 16 \<noteq> auth_tag (tk_key keys) nonce (take 5 rec) ct
          then Err XT_ERR_VERIFY
          else
            let plain = ctr_crypt (tk_key keys) (gcm_j0 nonce) ct; n = strip_zeros plain ct_len in
            if n = 0 \<or> plain ! (n - 1) < 20 \<or> plain ! (n - 1) > 23 then Err XT_ERR_BAD_RECORD
            else Ok (plain ! (n - 1), take (n - 1) plain))"

lemma unprotect_record_eq:
  "unprotect_record_aes128_gcm keys (Span rec) (Span buf) =
     (let r = opened_record keys rec (length buf)
      in (r, if is_ok r then keys\<lparr>tk_seq := tk_seq keys + 1\<rparr> else keys))"
proof -
  define len where "len = unat (be16 (rec ! 3) (rec ! 4))"
  have "fst (unprotect_record_aes128_gcm keys (Span rec) (Span buf))
          = opened_record keys rec (length buf)"
  proof (cases "length rec < 5 \<or> len > 16640 \<or> rec ! 0 \<noteq> content_application_data
      \<or> be16 (rec ! 1) (rec ! 2) \<noteq> 0x0303 \<or> length rec < 5 + len \<or> len < 17")
    case True
    then show ?thesis
      unfolding unprotect_record_aes128_gcm_def opened_record_def parse_record_header_Span
      by (auto simp: Let_def len_def [symmetric])
  next
    case False
    then have l: "5 + (len - 16) + 16 \<le> length rec" "\<not> len < 17" by auto
    have d: "\<not> length buf < len - 16 \<Longrightarrow>
      aes128_gcm_decrypt (tk_key keys) nonce (Span (take 5 rec)) (Span (slice rec 5 (len - 16)))
        (slice rec (5 + (len - 16)) 16) (Span (take (len - 16) buf)) =
      (if slice rec (5 + (len - 16)) 16 = auth_tag (tk_key keys) nonce (take 5 rec) (slice rec 5 (len - 16))
       then Ok (ctr_crypt (tk_key keys) (gcm_j0 nonce) (slice rec 5 (len - 16)))
       else Err XT_ERR_VERIFY)" for nonce
      using l by (subst gcm_decrypt_iff) auto
    show ?thesis
      unfolding unprotect_record_aes128_gcm_def opened_record_def parse_record_header_Span
      using False l d by (auto simp: subspan_def rd_bytes_def Let_def len_def [symmetric])
  qed
  then show ?thesis
    by (simp add: unprotect_record_aes128_gcm_def Let_def)
qed

lemma unprotect_null:
  "span_null rec \<or> span_null buf \<Longrightarrow>
   unprotect_record_aes128_gcm keys rec buf = (Err XT_ERR_INVALID_ARGUMENT, keys)"
  by (simp add: unprotect_record_aes128_gcm_def)

lemma strip_zeros_le: "strip_zeros p n \<le> n"
  by (induction n) simp_all

lemma strip_zeros_inner:
  assumes "t \<noteq> 0" "k \<le> padding"
  shows "strip_zeros (inner_plaintext t content padding) (length content + 1 + k) = length content + 1"
  using assms(2)
proof (induction k)
  case 0
  from assms(1) show ?case by (simp add: inner_plaintext_def nth_append)
next
  case (Suc k)
  then have "inner_plaintext t content padding ! (length content + 1 + k) = 0"
    by (simp add: inner_plaintext_def nth_append)
  with Suc show ?case by simp
qed

text \<open>An accepted record carries a content type in range and at most 16623 bytes of content.\<close>

lemma opened_record_bounds:
  assumes "opened_record keys rec cap = Ok (t, c)"
  shows "20 \<le> t \<and> t \<le> 23 \<and> length c \<le> 16623 \<and> length c + 22 \<le> length rec \<and> length c < cap"
proof -
  define len where "len = unat (be16 (rec ! 3) (rec ! 4))"
  define plain where "plain = ctr_crypt (tk_key keys)
    (gcm_j0 (make_record_nonce (tk_iv keys) (tk_seq keys))) (slice rec 5 (len - 16))"
  define n where "n = strip_zeros plain (len - 16)"
  have b: "\<not> length rec < 5" "len \<le> 16640" "5 + len \<le> length rec" "17 \<le> len" "len - 16 \<le> cap"
    and n: "n \<noteq> 0" "t = plain ! (n - 1)" "c = take (n - 1) plain" "\<not> t < 20" "\<not> 23 < t"
    using assms
    by (auto simp: opened_record_def Let_def len_def [symmetric] plain_def [symmetric]
        n_def [symmetric] split: if_splits)
  have "n \<le> len - 16" unfolding n_def by (rule strip_zeros_le)
  with b n show ?thesis by (auto simp: not_less)
qed

lemma be16_of_nat:
  assumes "n < 65536"
  shows "be16 (ucast (drop_bit 8 (of_nat n :: u32))) (ucast (of_nat n :: u32)) = of_nat n"
proof -
  have "be16 (ucast (drop_bit 8 w)) (ucast w) = ucast w" for w :: u32
    unfolding be16_def by (rule bit_word_eqI) (auto simp: bit_simps)
  moreover have "(ucast (of_nat n :: u32) :: u16) = of_nat n"
    by (rule bit_word_eqI) (simp add: bit_simps)
  ultimately show ?thesis by simp
qed

text \<open>Opening what was sealed under the same keys gives back type and content.\<close>

lemma opened_sealed:
  assumes t: "20 \<le> t" "t \<le> 23" and len: "length content + padding \<le> 16623"
    and cap: "length content + 1 + padding \<le> cap"
  shows "opened_record keys (sealed_record keys t content padding) cap = Ok (t, content)"
proof -
  define m where "m = length content + 1 + padding"
  define hdr where "hdr = record_hdr (m + 16)"
  define nonce where "nonce = make_record_nonce (tk_iv keys) (tk_seq keys)"
  define inner where "inner = inner_plaintext t content padding"
  define ct where "ct = ctr_crypt (tk_key keys) (gcm_j0 nonce) inner"
  define tag where "tag = auth_tag (tk_key keys) nonce hdr ct"
  have rec: "sealed_record keys t content padding = hdr @ ct @ tag"
    by (simp add: sealed_record_def Let_def m_def hdr_def nonce_def inner_def ct_def tag_def
        add.assoc)
  have l: "length hdr = 5" "length ct = m" "length tag = 16" "m \<le> 16624" "m \<le> cap" "1 \<le> m"
    using len cap by (simp_all add: hdr_def ct_def inner_def tag_def m_def)
  have h: "(hdr @ ct @ tag) ! 0 = content_application_data" "(hdr @ ct @ tag) ! 1 = 3"
    "(hdr @ ct @ tag) ! 2 = 3"
    "be16 ((hdr @ ct @ tag) ! 3) ((hdr @ ct @ tag) ! 4) = of_nat (m + 16)"
    using l be16_of_nat [of "m + 16"] by (simp_all add: hdr_def record_hdr_def)
  have u: "unat (of_nat (m + 16) :: u16) = m + 16"
    using l by (simp add: unat_of_nat del: of_nat_add)
  have dec: "ctr_crypt (tk_key keys) (gcm_j0 nonce) ct = inner"
    by (simp add: ct_def ctr_crypt_def ctr_loop_involution)
  have t0: "t \<noteq> 0" using t by auto
  have s: "strip_zeros inner m = length content + 1"
    using strip_zeros_inner [OF t0 order_refl, of content padding] by (simp add: inner_def m_def)
  have v: "be16 3 3 = 0x0303" by (simp add: be16_def)
  have sl: "slice (hdr @ ct @ tag) 5 m = ct" "slice (hdr @ ct @ tag) (5 + m) 16 = tag"
    "take 5 (hdr @ ct @ tag) = hdr"
    using l by (simp_all add: slice_def)
  have "inner ! length content = t" "take (length content) inner = content"
    by (simp_all add: inner_def inner_plaintext_def nth_append)
  then show ?thesis
    unfolding rec opened_record_def Let_def h u nonce_def [symmetric]
    using t l by (simp add: v sl s dec tag_def [symmetric] not_less)
qed

lemma unprotect_protect:
  assumes "protect_record_aes128_gcm alloc keys t (Span content) padding (Span out) = (Ok rec, keys')"
    and "length content + 1 + padding \<le> length buf"
  shows "unprotect_record_aes128_gcm keys (Span rec) (Span buf) = (Ok (t, content), keys')"
  using assms opened_sealed [of t content padding "length buf" keys]
  by (auto simp: protect_record_eq unprotect_record_eq Let_def not_less split: if_splits)

lemma unprotect_keys:
  "unprotect_record_aes128_gcm keys rec buf = (r, keys') \<Longrightarrow>
   keys' = (if is_ok r then keys\<lparr>tk_seq := tk_seq keys + 1\<rparr> else keys)"
  by (auto simp: unprotect_record_aes128_gcm_def Let_def split: if_splits)

lemma protect_keys:
  "protect_record_aes128_gcm alloc keys t c pad out = (r, keys') \<Longrightarrow>
   keys' = (if is_ok r then keys\<lparr>tk_seq := tk_seq keys + 1\<rparr> else keys)"
  by (auto simp: protect_record_aes128_gcm_def Let_def split: if_splits res.splits)

end
