(* ===== verification/ClientHello.thy ===== *)
theory ClientHello
  imports Handshake
begin

text \<open>
  The ClientHello writer of \<open>src/tls/client_hello.cpp\<close>: the bounded \<open>Writer\<close>, one function per
  extension, and \<open>build_client_hello\<close>. The lemmas show that the writer appends exactly while the
  output fits, and that a returned message is the encoding of the parameters, with every length
  field equal to what it counts.
\<close>

section \<open>Writer\<close>

record writer =
  w_buf :: bytes
  w_n :: nat
  w_ok :: bool

definition w_new :: "bytes \<Rightarrow> writer" where
  "w_new buf = \<lparr>w_buf = buf, w_n = 0, w_ok = True\<rparr>"

definition put8 :: "writer \<Rightarrow> u8 \<Rightarrow> writer" where
  "put8 w v =
     (if w_n w + 1 > length (w_buf w) then w\<lparr>w_ok := False\<rparr>
      else w\<lparr>w_buf := (w_buf w)[w_n w := v], w_n := w_n w + 1\<rparr>)"

definition put16 :: "writer \<Rightarrow> u16 \<Rightarrow> writer" where
  "put16 w v =
     (if w_n w + 2 > length (w_buf w) then w\<lparr>w_ok := False\<rparr>
      else w\<lparr>w_buf := write_at (w_buf w) (w_n w) (store_be16 v), w_n := w_n w + 2\<rparr>)"

definition put24 :: "writer \<Rightarrow> u32 \<Rightarrow> writer" where
  "put24 w v =
     (if w_n w + 3 > length (w_buf w) then w\<lparr>w_ok := False\<rparr>
      else w\<lparr>w_buf := write_at (w_buf w) (w_n w) (store_be24 v), w_n := w_n w + 3\<rparr>)"

text \<open>\<open>Writer::bytes\<close>: copying from a null pointer is an access outside a buffer.\<close>

definition put_bytes :: "writer \<Rightarrow> byte_span \<Rightarrow> writer res" where
  "put_bytes w s =
     (let z = span_size s in
      if w_n w + z > length (w_buf w) then Ok (w\<lparr>w_ok := False\<rparr>)
      else if z \<noteq> 0 \<and> span_null s then UB
      else Ok (w\<lparr>w_buf := write_at (w_buf w) (w_n w) (span_bytes s), w_n := w_n w + z\<rparr>))"

definition patch16 :: "writer \<Rightarrow> nat \<Rightarrow> u16 \<Rightarrow> writer" where
  "patch16 w at v =
     (if at + 2 > w_n w then w else w\<lparr>w_buf := write_at (w_buf w) at (store_be16 v)\<rparr>)"

definition patch24 :: "writer \<Rightarrow> nat \<Rightarrow> u32 \<Rightarrow> writer" where
  "patch24 w at v =
     (if at + 3 > w_n w then w else w\<lparr>w_buf := write_at (w_buf w) at (store_be24 v)\<rparr>)"

section \<open>Extensions\<close>

definition group_secp256r1 :: u16 where "group_secp256r1 = 0x0017"
definition group_x25519 :: u16 where "group_x25519 = 0x001D"
definition tls_aes_128_gcm_sha256 :: u16 where "tls_aes_128_gcm_sha256 = 0x1301"

text \<open>Each returns whether the writer is still good, and the writer.\<close>

definition ext_supported_versions :: "writer \<Rightarrow> bool \<times> writer" where
  "ext_supported_versions w =
     (let w = put16 w 0x002b; w = put16 w 3; w = put8 w 2; w = put16 w 0x0304 in (w_ok w, w))"

definition ext_supported_groups :: "writer \<Rightarrow> u16 \<Rightarrow> bool \<times> writer" where
  "ext_supported_groups w preferred =
     (let w = put16 w 0x000a; w = put16 w 6; w = put16 w 4; w = put16 w preferred;
          w = put16 w (if preferred = group_x25519 then group_secp256r1 else group_x25519)
      in (w_ok w, w))"

definition ext_sig_algs :: "writer \<Rightarrow> bool \<times> writer" where
  "ext_sig_algs w =
     (let w = put16 w 0x000d; w = put16 w (2 + 6); w = put16 w 6;
          w = fold (\<lambda>a w. put16 w a) [0x0804, 0x0809, 0x0403] w
      in (w_ok w, w))"

definition ext_key_share :: "writer \<Rightarrow> u16 \<Rightarrow> byte_span \<Rightarrow> (bool \<times> writer) res" where
  "ext_key_share w g k =
     (let w = put16 w 0x0033;
          w = put16 w (of_nat (4 + 2 + span_size k));
          w = put16 w (of_nat (2 + 2 + span_size k));
          w = put16 w g;
          w = put16 w (of_nat (span_size k))
      in bind_res (put_bytes w k) (\<lambda>w. Ok (w_ok w, w)))"

definition ext_sni :: "writer \<Rightarrow> cstring \<Rightarrow> (bool \<times> writer) res" where
  "ext_sni w host =
     (case host of
        None \<Rightarrow> Ok (True, w)
      | Some s \<Rightarrow>
          if s = [] then Ok (True, w)
          else
            let h = length s in
            if h > 65530 then Ok (False, w)
            else
              let w = put16 w 0x0000;
                  w = put16 w (of_nat (5 + h));
                  w = put16 w (of_nat (3 + h));
                  w = put8 w 0;
                  w = put16 w (of_nat h)
              in bind_res (put_bytes w (Span s)) (\<lambda>w. Ok (w_ok w, w)))"

definition ext_cookie :: "writer \<Rightarrow> byte_span \<Rightarrow> (bool \<times> writer) res" where
  "ext_cookie w cookie =
     (if span_size cookie = 0 then Ok (True, w)
      else if span_null cookie \<or> span_size cookie > 65535 then Ok (False, w)
      else
        let w = put16 w 0x002c;
            w = put16 w (of_nat (2 + span_size cookie));
            w = put16 w (of_nat (span_size cookie))
        in bind_res (put_bytes w cookie) (\<lambda>w. Ok (w_ok w, w)))"

text \<open>The comma of the list of protocol names.\<close>

definition comma :: u8 where "comma = 0x2c"

lemma drop_token_less: "p \<noteq> [] \<Longrightarrow> length (dropWhile P p) - Suc 0 < length p"
  using length_dropWhile_le [of P p] by (cases p) auto

text \<open>First pass: the total size of the list, or \<open>None\<close> where the code returns false.\<close>

function alpn_size_loop :: "bytes \<Rightarrow> nat \<Rightarrow> nat option" where
  "alpn_size_loop p list_size =
     (if p = [] then Some list_size
      else
        let len = length (takeWhile (\<lambda>c. c \<noteq> comma) p);
            rest = dropWhile (\<lambda>c. c \<noteq> comma) p
        in
        if len = 0 \<or> len > 255 then None
        else if list_size + (1 + len) > 65535 then None
        else alpn_size_loop (drop 1 rest) (list_size + (1 + len)))"
  by pat_completeness auto
termination
  by (relation "measure (\<lambda>(p, n). length p)") (simp_all add: drop_token_less)

declare alpn_size_loop.simps [simp del]

text \<open>Second pass: a length byte and the name, for each name.\<close>

function alpn_write_loop :: "bytes \<Rightarrow> writer \<Rightarrow> writer res" where
  "alpn_write_loop p w =
     (if p = [] then Ok w
      else
        let name = takeWhile (\<lambda>c. c \<noteq> comma) p;
            rest = dropWhile (\<lambda>c. c \<noteq> comma) p;
            w = put8 w (of_nat (length name))
        in bind_res (put_bytes w (Span name)) (\<lambda>w. alpn_write_loop (drop 1 rest) w))"
  by pat_completeness auto
termination
  by (relation "measure (\<lambda>(p, w). length p)") (simp_all add: drop_token_less)

declare alpn_write_loop.simps [simp del]

definition ext_alpn :: "writer \<Rightarrow> cstring \<Rightarrow> (bool \<times> writer) res" where
  "ext_alpn w alpn =
     (case alpn of
        None \<Rightarrow> Ok (True, w)
      | Some p \<Rightarrow>
          if p = [] then Ok (True, w)
          else case alpn_size_loop p 0 of
            None \<Rightarrow> Ok (False, w)
          | Some list_size \<Rightarrow>
              let w = put16 w 0x0010;
                  w = put16 w (of_nat (2 + list_size));
                  w = put16 w (of_nat list_size)
              in bind_res (alpn_write_loop p w) (\<lambda>w. Ok (w_ok w, w)))"

section \<open>The message\<close>

record client_hello_params =
  chp_random32 :: byte_span
  chp_session_id :: byte_span
  chp_key_share :: byte_span
  chp_group :: u16
  chp_server_name :: cstring
  chp_alpn :: cstring
  chp_cookie :: byte_span

definition client_hello_params_init :: client_hello_params where
  "client_hello_params_init =
     \<lparr>chp_random32 = NullSpan 0, chp_session_id = NullSpan 0, chp_key_share = NullSpan 0,
      chp_group = group_x25519, chp_server_name = None, chp_alpn = None, chp_cookie = NullSpan 0\<rparr>"

text \<open>\<open>a || b\<close>: the next extension is written only when the last one succeeded.\<close>

definition then_ext ::
    "(bool \<times> writer) res \<Rightarrow> (writer \<Rightarrow> (bool \<times> writer) res) \<Rightarrow> (bool \<times> writer) res" where
  "then_ext r f = bind_res r (\<lambda>(ok, w). if ok then f w else Ok (False, w))"

definition write_extensions :: "client_hello_params \<Rightarrow> writer \<Rightarrow> (bool \<times> writer) res" where
  "write_extensions p w =
     then_ext (then_ext (then_ext (then_ext (then_ext (then_ext (then_ext (ext_sni w (chp_server_name p))
       (\<lambda>w. Ok (ext_supported_versions w)))
       (\<lambda>w. Ok (ext_supported_groups w (chp_group p))))
       (\<lambda>w. Ok (ext_sig_algs w)))
       (\<lambda>w. ext_key_share w (chp_group p) (chp_key_share p)))
       (\<lambda>w. ext_cookie w (chp_cookie p)))
       (\<lambda>w. ext_alpn w (chp_alpn p)))
       (\<lambda>w. Ok (w_ok w, w))"

definition build_client_hello :: "client_hello_params \<Rightarrow> byte_span \<Rightarrow> bytes res" where
  "build_client_hello p out =
     (if span_null out \<or> span_size (chp_random32 p) \<noteq> 32 \<or> span_null (chp_random32 p)
         \<or> span_size (chp_session_id p) > 32 \<or> span_size (chp_key_share p) = 0
         \<or> span_size (chp_key_share p) > 65535
      then Err XT_ERR_INVALID_ARGUMENT
      else
        let w = put8 (w_new (span_bytes out)) hs_client_hello;
            hs_len = w_n w;
            w = put24 w 0;
            w = put16 w 0x0303
        in
        bind_res (put_bytes w (chp_random32 p)) (\<lambda>w.
        let w = put8 w (of_nat (span_size (chp_session_id p))) in
        bind_res (put_bytes w (chp_session_id p)) (\<lambda>w.
        let w = put16 w 2;
            w = put16 w tls_aes_128_gcm_sha256;
            w = put8 w 1;
            w = put8 w 0;
            ext_len = w_n w;
            w = put16 w 0;
            ext_start = w_n w
        in
        bind_res (write_extensions p w) (\<lambda>(ok, w).
          if \<not> ok then Err XT_ERR_BUFFER_TOO_SMALL
          else
            let exts = w_n w - ext_start in
            if exts > 65535 then Err XT_ERR_INVALID_ARGUMENT
            else
              let w = patch16 w ext_len (of_nat exts);
                  body = w_n w - (hs_len + 3)
              in
              if body > 0xffffff then Err XT_ERR_INVALID_ARGUMENT
              else
                let w = patch24 w hs_len (of_nat body)
                in Ok (take (w_n w) (w_buf w))))))"

section \<open>The writer as an appender\<close>

text \<open>
  \<open>wrote w m cap\<close>: the writer over a buffer of \<open>cap\<close> bytes has been asked for the bytes \<open>m\<close>. While
  they fit, it holds them; afterwards it is not good any more.
\<close>

definition wrote :: "writer \<Rightarrow> bytes \<Rightarrow> nat \<Rightarrow> bool" where
  "wrote w m cap \<longleftrightarrow>
     length (w_buf w) = cap \<and>
     (if length m \<le> cap then w_ok w \<and> w_n w = length m \<and> take (length m) (w_buf w) = m
      else \<not> w_ok w)"

lemma wrote_ok: "wrote w m cap \<Longrightarrow> w_ok w \<longleftrightarrow> length m \<le> cap"
  by (simp add: wrote_def split: if_splits)

lemma wrote_new: "wrote (w_new buf) [] (length buf)"
  by (simp add: wrote_def w_new_def)

lemma wrote_append:
  assumes "wrote w m cap"
    and "w' = (if w_n w + length bs > length (w_buf w) then w\<lparr>w_ok := False\<rparr>
               else w\<lparr>w_buf := write_at (w_buf w) (w_n w) bs, w_n := w_n w + length bs\<rparr>)"
  shows "wrote w' (m @ bs) cap"
proof (cases "length m \<le> cap")
  case True
  then show ?thesis
    using assms take_write_at [of "length m" "w_buf w" bs]
    by (auto simp: wrote_def)
next
  case False
  then show ?thesis using assms by (auto simp: wrote_def)
qed

lemma wrote_put8 [intro]: "wrote w m cap \<Longrightarrow> wrote (put8 w v) (m @ [v]) cap"
  by (rule wrote_append) (auto simp: put8_def write_at_def upd_conv_take_nth_drop not_less)

lemma wrote_put16 [intro]: "wrote w m cap \<Longrightarrow> wrote (put16 w v) (m @ store_be16 v) cap"
  by (rule wrote_append) (auto simp: put16_def)

lemma wrote_put24 [intro]: "wrote w m cap \<Longrightarrow> wrote (put24 w v) (m @ store_be24 v) cap"
  by (rule wrote_append) (auto simp: put24_def)

lemma wrote_put_bytes:
  assumes "wrote w m cap" and "span_size s = 0 \<or> \<not> span_null s"
  obtains w' where "put_bytes w s = Ok w'" "wrote w' (m @ span_bytes s) cap"
proof -
  have "span_size s = length (span_bytes s)" using assms(2) by (cases s) auto
  then show thesis
    using assms wrote_append [OF assms(1) refl, of "span_bytes s"]
    by (intro that [of "if w_n w + length (span_bytes s) > length (w_buf w) then w\<lparr>w_ok := False\<rparr>
         else w\<lparr>w_buf := write_at (w_buf w) (w_n w) (span_bytes s), w_n := w_n w + length (span_bytes s)\<rparr>"])
      (auto simp: put_bytes_def Let_def)
qed

lemma write_at_append: "p + length bs \<le> length a \<Longrightarrow> write_at (a @ b) p bs = write_at a p bs @ b"
  by (simp add: write_at_def)

lemma take_write_at_inner:
  assumes "p + length bs \<le> n" and "n \<le> length buf"
  shows "take n (write_at buf p bs) = write_at (take n buf) p bs"
proof -
  have "write_at (take n buf @ drop n buf) p bs = write_at (take n buf) p bs @ drop n buf"
    using assms by (intro write_at_append) simp
  then show ?thesis using assms by simp
qed

lemma write_at_middle: "length b = length b' \<Longrightarrow> write_at (a @ b @ c) (length a) b' = a @ b' @ c"
  by (simp add: write_at_def)

section \<open>The encoding\<close>

text \<open>The names of the comma-separated list.\<close>

function alpn_names :: "bytes \<Rightarrow> bytes list" where
  "alpn_names p =
     (if p = [] then []
      else takeWhile (\<lambda>c. c \<noteq> comma) p # alpn_names (drop 1 (dropWhile (\<lambda>c. c \<noteq> comma) p)))"
  by pat_completeness auto
termination
  by (relation "measure length") (simp_all add: drop_token_less)

declare alpn_names.simps [simp del]

definition alpn_list :: "bytes list \<Rightarrow> bytes" where
  "alpn_list names = concat (map (\<lambda>n. of_nat (length n) # n) names)"

definition alpn_name_ok :: "bytes \<Rightarrow> bool" where
  "alpn_name_ok n \<longleftrightarrow> n \<noteq> [] \<and> length n \<le> 255"

lemma alpn_list_simps [simp]:
  "alpn_list [] = []" "alpn_list (n # ns) = of_nat (length n) # n @ alpn_list ns"
  by (simp_all add: alpn_list_def)

lemma alpn_size_loop_eq:
  "acc \<le> 65535 \<Longrightarrow> alpn_size_loop p acc =
     (if list_all alpn_name_ok (alpn_names p) \<and> acc + length (alpn_list (alpn_names p)) \<le> 65535
      then Some (acc + length (alpn_list (alpn_names p))) else None)"
proof (induction p acc rule: alpn_size_loop.induct)
  case (1 p acc)
  show ?case
  proof (cases "p = []")
    case True
    then show ?thesis using "1.prems" by (simp add: alpn_size_loop.simps alpn_names.simps)
  next
    case False
    define n where "n = takeWhile (\<lambda>c. c \<noteq> comma) p"
    define rest where "rest = drop 1 (dropWhile (\<lambda>c. c \<noteq> comma) p)"
    have names: "alpn_names p = n # alpn_names rest"
      using False by (subst alpn_names.simps) (simp add: n_def rest_def)
    have step: "alpn_size_loop p acc =
      (if length n = 0 \<or> length n > 255 \<or> acc + (1 + length n) > 65535 then None
       else alpn_size_loop rest (acc + (1 + length n)))"
      using False by (subst alpn_size_loop.simps) (simp add: n_def rest_def Let_def)
    show ?thesis
    proof (cases "length n = 0 \<or> length n > 255 \<or> acc + (1 + length n) > 65535")
      case True
      then show ?thesis unfolding step names by (auto simp: alpn_name_ok_def)
    next
      case f: False
      have "alpn_size_loop rest (acc + (1 + length n)) =
        (if list_all alpn_name_ok (alpn_names rest)
            \<and> acc + (1 + length n) + length (alpn_list (alpn_names rest)) \<le> 65535
         then Some (acc + (1 + length n) + length (alpn_list (alpn_names rest))) else None)"
        using f False unfolding n_def rest_def by (intro "1.IH") auto
      moreover have "alpn_name_ok n" using f by (simp add: alpn_name_ok_def)
      ultimately show ?thesis using f unfolding step names by auto
    qed
  qed
qed

lemma alpn_write_loop_wrote:
  "wrote w m cap \<Longrightarrow>
   \<exists>w'. alpn_write_loop p w = Ok w' \<and> wrote w' (m @ alpn_list (alpn_names p)) cap"
proof (induction p w arbitrary: m rule: alpn_write_loop.induct)
  case (1 p w)
  show ?case
  proof (cases "p = []")
    case True
    then show ?thesis using "1.prems" by (simp add: alpn_write_loop.simps alpn_names.simps)
  next
    case False
    define n where "n = takeWhile (\<lambda>c. c \<noteq> comma) p"
    define rest where "rest = drop 1 (dropWhile (\<lambda>c. c \<noteq> comma) p)"
    define w1 where "w1 = put8 w (of_nat (length n))"
    have "wrote w1 (m @ [of_nat (length n)]) cap"
      unfolding w1_def using "1.prems" by (rule wrote_put8)
    then obtain w2 where w2: "put_bytes w1 (Span n) = Ok w2"
      "wrote w2 ((m @ [of_nat (length n)]) @ n) cap"
      by (rule wrote_put_bytes [where s = "Span n"]) auto
    have step: "alpn_write_loop p w = alpn_write_loop rest w2"
      using False w2(1) by (subst alpn_write_loop.simps) (simp add: n_def rest_def w1_def Let_def)
    have "\<exists>w'. alpn_write_loop rest w2 = Ok w'
        \<and> wrote w' (((m @ [of_nat (length n)]) @ n) @ alpn_list (alpn_names rest)) cap"
      unfolding rest_def
      using "1.IH" [OF False refl refl refl, of w2 "(m @ [of_nat (length n)]) @ n"] w2
      by (simp add: n_def w1_def)
    moreover have "alpn_names p = n # alpn_names rest"
      using False by (subst alpn_names.simps) (simp add: n_def rest_def)
    ultimately show ?thesis unfolding step by simp
  qed
qed

text \<open>The extensions of a ClientHello, in order.\<close>

definition ch_sni :: "cstring \<Rightarrow> extension list" where
  "ch_sni host =
     (case host of None \<Rightarrow> []
      | Some s \<Rightarrow> if s = [] then []
          else [(0x0000, store_be16 (of_nat (3 + length s)) @ [0] @ store_be16 (of_nat (length s)) @ s)])"

definition ch_cookie :: "byte_span \<Rightarrow> extension list" where
  "ch_cookie c =
     (if span_size c = 0 then []
      else [(0x002c, store_be16 (of_nat (span_size c)) @ span_bytes c)])"

definition ch_alpn :: "cstring \<Rightarrow> extension list" where
  "ch_alpn alpn =
     (case alpn of None \<Rightarrow> []
      | Some p \<Rightarrow> if p = [] then []
          else [(0x0010, store_be16 (of_nat (length (alpn_list (alpn_names p))))
                  @ alpn_list (alpn_names p))])"

definition ch_extensions :: "client_hello_params \<Rightarrow> extension list" where
  "ch_extensions p =
     ch_sni (chp_server_name p) @
     [(0x002b, [2] @ store_be16 0x0304)] @
     [(0x000a, store_be16 4 @ store_be16 (chp_group p) @
        store_be16 (if chp_group p = group_x25519 then group_secp256r1 else group_x25519))] @
     [(0x000d, store_be16 6 @ store_be16 0x0804 @ store_be16 0x0809 @ store_be16 0x0403)] @
     [(0x0033, store_be16 (of_nat (2 + 2 + span_size (chp_key_share p))) @ store_be16 (chp_group p)
        @ store_be16 (of_nat (span_size (chp_key_share p))) @ span_bytes (chp_key_share p))] @
     ch_cookie (chp_cookie p) @
     ch_alpn (chp_alpn p)"

definition client_hello_bytes :: "client_hello_params \<Rightarrow> bytes" where
  "client_hello_bytes p =
     encode_handshake hs_client_hello
       (store_be16 0x0303 @ span_bytes (chp_random32 p) @
        [of_nat (span_size (chp_session_id p))] @ span_bytes (chp_session_id p) @
        store_be16 2 @ store_be16 tls_aes_128_gcm_sha256 @ [1, 0] @
        store_be16 (of_nat (length (exts_bytes (ch_extensions p)))) @ exts_bytes (ch_extensions p))"

section \<open>What the extension writers write\<close>

text \<open>
  \<open>ext_writes f e\<close>: the writer of an extension appends the bytes \<open>e\<close>; it says so unless the
  buffer is too short for everything asked for so far.
\<close>

definition ext_writes :: "(writer \<Rightarrow> (bool \<times> writer) res) \<Rightarrow> bytes \<Rightarrow> bool" where
  "ext_writes f e \<longleftrightarrow> (\<forall>w m cap. wrote w m cap \<longrightarrow>
     (\<exists>b w'. f w = Ok (b, w') \<and> (if b then wrote w' (m @ e) cap else cap < length (m @ e))))"

lemma ext_writesI:
  assumes "\<And>w m cap. wrote w m cap \<Longrightarrow> \<exists>w'. f w = Ok (w_ok w', w') \<and> wrote w' (m @ e) cap"
  shows "ext_writes f e"
  unfolding ext_writes_def
proof (intro allI impI)
  fix w m cap assume "wrote w m cap"
  then obtain w' where "f w = Ok (w_ok w', w')" "wrote w' (m @ e) cap" using assms by blast
  then show "\<exists>b w'. f w = Ok (b, w') \<and> (if b then wrote w' (m @ e) cap else cap < length (m @ e))"
    using wrote_ok by auto
qed

lemma ext_writes_skip: "ext_writes (\<lambda>w. Ok (True, w)) []"
  by (auto simp: ext_writes_def intro!: exI [of _ True])

lemma ext_writes_then:
  assumes "ext_writes f e" and "ext_writes g e'"
  shows "ext_writes (\<lambda>w. then_ext (f w) g) (e @ e')"
  unfolding ext_writes_def
proof (intro allI impI)
  fix w m cap assume "wrote w m cap"
  with assms(1) obtain b w1 where f: "f w = Ok (b, w1)"
    and w1: "if b then wrote w1 (m @ e) cap else cap < length (m @ e)"
    unfolding ext_writes_def by blast
  show "\<exists>b w'. then_ext (f w) g = Ok (b, w')
      \<and> (if b then wrote w' (m @ e @ e') cap else cap < length (m @ e @ e'))"
  proof (cases b)
    case True
    with w1 assms(2) obtain b' w2 where "g w1 = Ok (b', w2)"
      "if b' then wrote w2 ((m @ e) @ e') cap else cap < length ((m @ e) @ e')"
      unfolding ext_writes_def by (metis (full_types))
    with True f show ?thesis by (auto simp: then_ext_def)
  next
    case False
    with f w1 show ?thesis by (auto simp: then_ext_def)
  qed
qed

lemma ext_supported_versions_writes:
  "ext_writes (\<lambda>w. Ok (ext_supported_versions w)) (ext_bytes (0x002b, [2] @ store_be16 0x0304))"
proof (rule ext_writesI)
  fix w m cap assume "wrote w m cap"
  note w = wrote_put16 [OF wrote_put8 [OF wrote_put16 [OF wrote_put16 [OF this]]]]
  show "\<exists>w'. Ok (ext_supported_versions w) = Ok (w_ok w', w')
      \<and> wrote w' (m @ ext_bytes (0x002b, [2] @ store_be16 0x0304)) cap"
    using w [of "0x002b" 3 2 "0x0304"] by (auto simp: ext_supported_versions_def Let_def)
qed

lemma ext_supported_groups_writes:
  "ext_writes (\<lambda>w. Ok (ext_supported_groups w g)) (ext_bytes (0x000a, store_be16 4 @ store_be16 g @
     store_be16 (if g = group_x25519 then group_secp256r1 else group_x25519)))"
proof (rule ext_writesI)
  fix w m cap assume "wrote w m cap"
  note w = wrote_put16 [OF wrote_put16 [OF wrote_put16 [OF wrote_put16 [OF wrote_put16 [OF this]]]]]
  show "\<exists>w'. Ok (ext_supported_groups w g) = Ok (w_ok w', w') \<and> wrote w' (m @ ext_bytes (0x000a,
      store_be16 4 @ store_be16 g @
      store_be16 (if g = group_x25519 then group_secp256r1 else group_x25519))) cap"
    using w [of "0x000a" 6 4 g "if g = group_x25519 then group_secp256r1 else group_x25519"]
    by (auto simp: ext_supported_groups_def Let_def split del: if_split)
qed

lemma ext_sig_algs_writes:
  "ext_writes (\<lambda>w. Ok (ext_sig_algs w)) (ext_bytes (0x000d,
     store_be16 6 @ store_be16 0x0804 @ store_be16 0x0809 @ store_be16 0x0403))"
proof (rule ext_writesI)
  fix w m cap assume "wrote w m cap"
  note w = wrote_put16 [OF wrote_put16 [OF wrote_put16 [OF wrote_put16 [OF wrote_put16
    [OF wrote_put16 [OF this]]]]]]
  show "\<exists>w'. Ok (ext_sig_algs w) = Ok (w_ok w', w') \<and> wrote w' (m @ ext_bytes (0x000d,
      store_be16 6 @ store_be16 0x0804 @ store_be16 0x0809 @ store_be16 0x0403)) cap"
    using w [of "0x000d" 8 6 "0x0804" "0x0809" "0x0403"]
    by (auto simp: ext_sig_algs_def Let_def)
qed

lemma ext_key_share_writes:
  assumes "\<not> span_null k"
  shows "ext_writes (\<lambda>w. ext_key_share w g k) (ext_bytes (0x0033,
    store_be16 (of_nat (2 + 2 + span_size k)) @ store_be16 g @ store_be16 (of_nat (span_size k))
    @ span_bytes k))"
proof (rule ext_writesI)
  fix w m cap assume "wrote w m cap"
  note w = wrote_put16 [OF wrote_put16 [OF wrote_put16 [OF wrote_put16 [OF wrote_put16 [OF this]]]]]
  obtain w' where "put_bytes (put16 (put16 (put16 (put16 (put16 w 0x0033)
      (of_nat (4 + 2 + span_size k))) (of_nat (2 + 2 + span_size k))) g) (of_nat (span_size k))) k
      = Ok w'"
    and "wrote w' ((((((m @ store_be16 0x0033) @ store_be16 (of_nat (4 + 2 + span_size k)))
      @ store_be16 (of_nat (2 + 2 + span_size k))) @ store_be16 g) @ store_be16 (of_nat (span_size k)))
      @ span_bytes k) cap"
    by (rule wrote_put_bytes [OF w, where s = k]) (use assms in auto)
  then show "\<exists>w'. ext_key_share w g k = Ok (w_ok w', w') \<and> wrote w' (m @ ext_bytes (0x0033,
      store_be16 (of_nat (2 + 2 + span_size k)) @ store_be16 g @ store_be16 (of_nat (span_size k))
      @ span_bytes k)) cap"
    using assms by (auto simp: ext_key_share_def Let_def add.assoc)
qed

lemma ext_sni_writes:
  assumes "\<And>s. host = Some s \<Longrightarrow> length s \<le> 65530"
  shows "ext_writes (\<lambda>w. ext_sni w host) (exts_bytes (ch_sni host))"
proof (cases "host = None \<or> host = Some []")
  case True
  then show ?thesis using ext_writes_skip by (auto simp: ext_sni_def ch_sni_def)
next
  case False
  then obtain s where s: "host = Some s" "s \<noteq> []" by auto
  show ?thesis
  proof (rule ext_writesI)
    fix w m cap assume "wrote w m cap"
    note w = wrote_put16 [OF wrote_put8 [OF wrote_put16 [OF wrote_put16 [OF wrote_put16 [OF this]]]]]
    obtain w' where "put_bytes (put16 (put8 (put16 (put16 (put16 w 0x0000) (of_nat (5 + length s)))
        (of_nat (3 + length s))) 0) (of_nat (length s))) (Span s) = Ok w'"
      and "wrote w' ((((((m @ store_be16 0x0000) @ store_be16 (of_nat (5 + length s)))
        @ store_be16 (of_nat (3 + length s))) @ [0]) @ store_be16 (of_nat (length s)))
        @ span_bytes (Span s)) cap"
      by (rule wrote_put_bytes [OF w, where s = "Span s"]) auto
    then show "\<exists>w'. ext_sni w host = Ok (w_ok w', w') \<and> wrote w' (m @ exts_bytes (ch_sni host)) cap"
      using s assms [OF s(1)] by (auto simp: ext_sni_def ch_sni_def Let_def add.assoc)
  qed
qed

lemma ext_cookie_writes:
  assumes "span_size c \<noteq> 0 \<Longrightarrow> \<not> span_null c \<and> span_size c \<le> 65535"
  shows "ext_writes (\<lambda>w. ext_cookie w c) (exts_bytes (ch_cookie c))"
proof (cases "span_size c = 0")
  case True
  then show ?thesis using ext_writes_skip by (auto simp: ext_cookie_def ch_cookie_def)
next
  case False
  show ?thesis
  proof (rule ext_writesI)
    fix w m cap assume "wrote w m cap"
    note w = wrote_put16 [OF wrote_put16 [OF wrote_put16 [OF this]]]
    obtain w' where "put_bytes (put16 (put16 (put16 w 0x002c) (of_nat (2 + span_size c)))
        (of_nat (span_size c))) c = Ok w'"
      and "wrote w' ((((m @ store_be16 0x002c) @ store_be16 (of_nat (2 + span_size c)))
        @ store_be16 (of_nat (span_size c))) @ span_bytes c) cap"
      by (rule wrote_put_bytes [OF w, where s = c]) (use assms False in auto)
    then show "\<exists>w'. ext_cookie w c = Ok (w_ok w', w') \<and> wrote w' (m @ exts_bytes (ch_cookie c)) cap"
      using False assms by (auto simp: ext_cookie_def ch_cookie_def Let_def)
  qed
qed

lemma ext_alpn_writes:
  assumes "\<And>p. alpn = Some p \<Longrightarrow> list_all alpn_name_ok (alpn_names p)
    \<and> length (alpn_list (alpn_names p)) \<le> 65535"
  shows "ext_writes (\<lambda>w. ext_alpn w alpn) (exts_bytes (ch_alpn alpn))"
proof (cases "alpn = None \<or> alpn = Some []")
  case True
  then show ?thesis using ext_writes_skip by (auto simp: ext_alpn_def ch_alpn_def)
next
  case False
  then obtain p where p: "alpn = Some p" "p \<noteq> []" by auto
  define l where "l = length (alpn_list (alpn_names p))"
  have l: "alpn_size_loop p 0 = Some l"
    using assms [OF p(1)] by (simp add: alpn_size_loop_eq l_def)
  show ?thesis
  proof (rule ext_writesI)
    fix w m cap assume "wrote w m cap"
    note w = wrote_put16 [OF wrote_put16 [OF wrote_put16 [OF this]]]
    obtain w' where "alpn_write_loop p (put16 (put16 (put16 w 0x0010) (of_nat (2 + l))) (of_nat l))
        = Ok w'"
      and "wrote w' ((((m @ store_be16 0x0010) @ store_be16 (of_nat (2 + l)))
        @ store_be16 (of_nat l)) @ alpn_list (alpn_names p)) cap"
      using alpn_write_loop_wrote [OF w, of p] by blast
    then show "\<exists>w'. ext_alpn w alpn = Ok (w_ok w', w') \<and> wrote w' (m @ exts_bytes (ch_alpn alpn)) cap"
      using p l by (auto simp: ext_alpn_def ch_alpn_def Let_def l_def [symmetric])
  qed
qed

section \<open>Every branch of \<open>build_client_hello\<close>\<close>

text \<open>The parameters that the extension writers do not refuse.\<close>

definition ch_names_ok :: "client_hello_params \<Rightarrow> bool" where
  "ch_names_ok p \<longleftrightarrow>
     (case chp_server_name p of None \<Rightarrow> True | Some s \<Rightarrow> length s \<le> 65530)
     \<and> (span_size (chp_cookie p) \<noteq> 0 \<longrightarrow>
          \<not> span_null (chp_cookie p) \<and> span_size (chp_cookie p) \<le> 65535)
     \<and> (case chp_alpn p of None \<Rightarrow> True | Some a \<Rightarrow>
          list_all alpn_name_ok (alpn_names a) \<and> length (alpn_list (alpn_names a)) \<le> 65535)"

text \<open>The spans that are copied without a check of their pointer are valid.\<close>

definition ch_spans_valid :: "client_hello_params \<Rightarrow> bool" where
  "ch_spans_valid p \<longleftrightarrow>
     (span_null (chp_session_id p) \<longrightarrow> span_size (chp_session_id p) = 0)
     \<and> (span_null (chp_key_share p) \<longrightarrow> span_size (chp_key_share p) = 0)"

lemma write_extensions_writes:
  assumes "ch_names_ok p" and "\<not> span_null (chp_key_share p)"
  shows "ext_writes (write_extensions p) (exts_bytes (ch_extensions p))"
proof -
  have last: "ext_writes (\<lambda>w. Ok (w_ok w, w)) []"
    by (rule ext_writesI) auto
  note sni = ext_sni_writes [of "chp_server_name p"] and cookie = ext_cookie_writes [of "chp_cookie p"]
    and alpn = ext_alpn_writes [of "chp_alpn p"]
  have "ext_writes (write_extensions p)
    (((((((exts_bytes (ch_sni (chp_server_name p)) @ ext_bytes (0x002b, [2] @ store_be16 0x0304)) @
      ext_bytes (0x000a, store_be16 4 @ store_be16 (chp_group p) @
        store_be16 (if chp_group p = group_x25519 then group_secp256r1 else group_x25519))) @
      ext_bytes (0x000d, store_be16 6 @ store_be16 0x0804 @ store_be16 0x0809 @ store_be16 0x0403)) @
      ext_bytes (0x0033, store_be16 (of_nat (2 + 2 + span_size (chp_key_share p)))
        @ store_be16 (chp_group p) @ store_be16 (of_nat (span_size (chp_key_share p)))
        @ span_bytes (chp_key_share p))) @
      exts_bytes (ch_cookie (chp_cookie p))) @ exts_bytes (ch_alpn (chp_alpn p))) @ [])"
    unfolding write_extensions_def
    by (intro ext_writes_then last ext_supported_versions_writes ext_supported_groups_writes
        ext_sig_algs_writes ext_key_share_writes sni cookie alpn)
      (use assms in \<open>auto simp: ch_names_ok_def\<close>)
  then show ?thesis by (simp add: ch_extensions_def)
qed

lemma then_ext_Ok: "\<exists>b w. r = Ok (b, w) \<Longrightarrow> (\<And>w. \<exists>b' w'. f w = Ok (b', w')) \<Longrightarrow>
   \<exists>b w. then_ext r f = Ok (b, w)"
  by (auto simp: then_ext_def)

lemma then_ext_False: "\<exists>w. r = Ok (False, w) \<Longrightarrow> \<exists>w. then_ext r f = Ok (False, w)"
  by (auto simp: then_ext_def)

lemma then_ext_stuck:
  "\<exists>b w. r = Ok (b, w) \<Longrightarrow> (\<And>w. \<exists>w'. f w = Ok (False, w')) \<Longrightarrow> \<exists>w. then_ext r f = Ok (False, w)"
  by (fastforce simp: then_ext_def)

lemma ex_bool [simp]: "\<exists>b. b" "\<exists>b. \<not> b"
  by (rule exI [of _ True], simp) (rule exI [of _ False], simp)

lemma write_extensions_ok: "write_extensions p w = Ok (True, w') \<Longrightarrow> w_ok w'"
proof -
  have "then_ext r (\<lambda>w. Ok (w_ok w, w)) = Ok (True, w') \<Longrightarrow> w_ok w'" for r w'
    by (cases r) (auto simp: then_ext_def split: if_splits)
  then show "write_extensions p w = Ok (True, w') \<Longrightarrow> w_ok w'" unfolding write_extensions_def .
qed

lemma put_bytes_total: "\<not> span_null s \<Longrightarrow> \<exists>w'. put_bytes w s = Ok w'"
  by (simp add: put_bytes_def Let_def)

lemma alpn_write_loop_total: "\<exists>w'. alpn_write_loop p w = Ok w'"
proof (induction p w rule: alpn_write_loop.induct)
  case (1 p w)
  show ?case
  proof (cases "p = []")
    case False
    obtain w2 where "put_bytes (put8 w (of_nat (length (takeWhile (\<lambda>c. c \<noteq> comma) p))))
        (Span (takeWhile (\<lambda>c. c \<noteq> comma) p)) = Ok w2"
      using put_bytes_total [of "Span _"] by auto
    with False "1.IH" [OF False refl refl refl, of w2] show ?thesis
      by (subst alpn_write_loop.simps) (simp add: Let_def)
  qed (simp add: alpn_write_loop.simps)
qed

lemma ext_sni_total: "\<exists>b w'. ext_sni w h = Ok (b, w')"
proof (cases h)
  case (Some s)
  obtain w' where "put_bytes (put16 (put8 (put16 (put16 (put16 w 0) (of_nat (5 + length s)))
      (of_nat (3 + length s))) 0) (of_nat (length s))) (Span s) = Ok w'"
    using put_bytes_total [of "Span s"] by auto
  then show ?thesis using Some by (simp add: ext_sni_def Let_def)
qed (simp add: ext_sni_def)

lemma ext_key_share_total: "\<not> span_null k \<Longrightarrow> \<exists>b w'. ext_key_share w g k = Ok (b, w')"
  by (simp add: ext_key_share_def put_bytes_def Let_def)

lemma ext_cookie_total: "\<exists>b w'. ext_cookie w c = Ok (b, w')"
proof (cases "span_size c = 0 \<or> span_null c \<or> span_size c > 65535")
  case True
  then show ?thesis by (auto simp: ext_cookie_def)
next
  case False
  then show ?thesis by (simp add: ext_cookie_def put_bytes_def Let_def)
qed

lemma ext_alpn_total: "\<exists>b w'. ext_alpn w alpn = Ok (b, w')"
proof (cases alpn)
  case (Some p)
  show ?thesis
  proof (cases "p = [] \<or> alpn_size_loop p 0 = None")
    case True
    then show ?thesis using Some by (auto simp: ext_alpn_def)
  next
    case False
    then obtain l where "p \<noteq> []" "alpn_size_loop p 0 = Some l" by auto
    then show ?thesis
      using Some alpn_write_loop_total [of p "put16 (put16 (put16 w 16) (of_nat (2 + l))) (of_nat l)"]
      by (auto simp: ext_alpn_def Let_def)
  qed
qed (simp add: ext_alpn_def)

lemma write_extensions_refused:
  assumes "\<not> ch_names_ok p" and "\<not> span_null (chp_key_share p)"
  shows "\<exists>w'. write_extensions p w = Ok (False, w')"
proof -
  have pair: "\<exists>b w'. Ok (x w) = Ok (b, w')" for x :: "writer \<Rightarrow> bool \<times> writer" and w
    by (cases "x w") simp
  note total = ext_sni_total ext_key_share_total [OF assms(2)] ext_cookie_total ext_alpn_total pair
  from assms(1) consider
      (sni) s where "chp_server_name p = Some s" "65530 < length s"
    | (cookie) "span_size (chp_cookie p) \<noteq> 0"
        "span_null (chp_cookie p) \<or> 65535 < span_size (chp_cookie p)"
    | (alpn) a where "chp_alpn p = Some a" "\<not> (list_all alpn_name_ok (alpn_names a)
        \<and> length (alpn_list (alpn_names a)) \<le> 65535)"
    by (auto simp: ch_names_ok_def not_le split: option.splits)
  then show ?thesis
  proof cases
    case sni
    then have c: "\<exists>w'. ext_sni w (chp_server_name p) = Ok (False, w')" by (auto simp: ext_sni_def)
    show ?thesis unfolding write_extensions_def by (intro then_ext_False c)
  next
    case cookie
    then have c: "\<exists>w'. ext_cookie w (chp_cookie p) = Ok (False, w')" for w
      by (auto simp: ext_cookie_def)
    show ?thesis unfolding write_extensions_def
      by (rule then_ext_False, rule then_ext_False, rule then_ext_stuck)
        (intro then_ext_Ok total c)+
  next
    case alpn
    then have "a \<noteq> []" by (auto simp: alpn_names.simps)
    with alpn have c: "\<exists>w'. ext_alpn w (chp_alpn p) = Ok (False, w')" for w
      by (auto simp: ext_alpn_def alpn_size_loop_eq)
    show ?thesis unfolding write_extensions_def
      by (rule then_ext_False, rule then_ext_stuck) (intro then_ext_Ok total c)+
  qed
qed

lemma build_client_hello_eq:
  assumes "ch_spans_valid p"
  shows "build_client_hello p (Span out) =
    (if span_null (chp_random32 p) \<or> span_size (chp_random32 p) \<noteq> 32
        \<or> span_size (chp_session_id p) > 32 \<or> span_size (chp_key_share p) = 0
        \<or> span_size (chp_key_share p) > 65535
     then Err XT_ERR_INVALID_ARGUMENT
     else if \<not> ch_names_ok p \<or> length (client_hello_bytes p) > length out
     then Err XT_ERR_BUFFER_TOO_SMALL
     else if length (exts_bytes (ch_extensions p)) > 65535 then Err XT_ERR_INVALID_ARGUMENT
     else Ok (client_hello_bytes p))"
  (is "_ = ?rhs")
proof (cases "span_null (chp_random32 p) \<or> span_size (chp_random32 p) \<noteq> 32
    \<or> span_size (chp_session_id p) > 32 \<or> span_size (chp_key_share p) = 0
    \<or> span_size (chp_key_share p) > 65535")
  case True
  then show ?thesis by (auto simp: build_client_hello_def)
next
  case False
  define rb where "rb = span_bytes (chp_random32 p)"
  define sb where "sb = span_bytes (chp_session_id p)"
  define eb where "eb = exts_bytes (ch_extensions p)"
  define cap where "cap = length out"
  have k: "\<not> span_null (chp_key_share p)" using assms False by (auto simp: ch_spans_valid_def)
  have sz: "span_size (chp_session_id p) = length sb" "length rb = 32" "length sb \<le> 32"
    using assms False unfolding sb_def rb_def
    by (auto simp: ch_spans_valid_def) (cases "chp_session_id p"; simp)+
  define hd1 where "hd1 = [hs_client_hello] @ store_be24 0 @ store_be16 0x0303"
  define hd2 where "hd2 = hd1 @ rb @ [of_nat (length sb)] @ sb @ store_be16 2
      @ store_be16 tls_aes_128_gcm_sha256 @ [1, 0]"
  define w1 where "w1 = put16 (put24 (put8 (w_new out) hs_client_hello) 0) 0x0303"
  have "wrote w1 ((([] @ [hs_client_hello]) @ store_be24 0) @ store_be16 0x0303) cap"
    unfolding w1_def cap_def
    by (intro wrote_put16 wrote_put24 wrote_put8 wrote_new)
  then have "wrote w1 hd1 cap" by (simp add: hd1_def)
  then obtain w2 where w2: "put_bytes w1 (chp_random32 p) = Ok w2" "wrote w2 (hd1 @ rb) cap"
    unfolding rb_def by (rule wrote_put_bytes [where s = "chp_random32 p"]) (use False in auto)
  obtain w3 where w3: "put_bytes (put8 w2 (of_nat (length sb))) (chp_session_id p) = Ok w3"
    "wrote w3 (((hd1 @ rb) @ [of_nat (length sb)]) @ sb) cap"
    unfolding sb_def
    by (rule wrote_put_bytes [OF wrote_put8 [OF w2(2)], where s = "chp_session_id p"])
      (use assms in \<open>auto simp: ch_spans_valid_def\<close>)
  define w4 where "w4 = put8 (put8 (put16 (put16 w3 2) tls_aes_128_gcm_sha256) 1) 0"
  have "wrote w4 (((((((hd1 @ rb) @ [of_nat (length sb)]) @ sb) @ store_be16 2)
      @ store_be16 tls_aes_128_gcm_sha256) @ [1]) @ [0]) cap"
    unfolding w4_def by (intro wrote_put8 wrote_put16 w3(2))
  then have w4: "wrote w4 hd2 cap" by (simp add: hd2_def)
  define w5 where "w5 = put16 w4 0"
  have w5: "wrote w5 (hd2 @ store_be16 0) cap" unfolding w5_def by (intro wrote_put16 w4)
  have drop4: "drop 4 hd2 = store_be16 0x0303 @ rb @ [of_nat (length sb)] @ sb @ store_be16 2
      @ store_be16 tls_aes_128_gcm_sha256 @ [1, 0]"
    by (simp add: hd2_def hd1_def store_be24_def)
  have bytes: "client_hello_bytes p = encode_handshake hs_client_hello (drop 4 hd2
      @ store_be16 (of_nat (length eb)) @ eb)"
    unfolding client_hello_bytes_def drop4 sz(1) rb_def [symmetric] sb_def [symmetric]
      eb_def [symmetric] by simp
  have lhd: "length hd2 = 45 + length sb" using sz by (simp add: hd2_def hd1_def)
  then have lb: "length (client_hello_bytes p) = length ((hd2 @ store_be16 0) @ eb)"
    by (simp add: bytes)
  have unf: "build_client_hello p (Span out) = bind_res (write_extensions p w5) (\<lambda>(ok, w).
      if \<not> ok then Err XT_ERR_BUFFER_TOO_SMALL
      else if w_n w - w_n w5 > 65535 then Err XT_ERR_INVALID_ARGUMENT
      else let w' = patch16 w (w_n w4) (of_nat (w_n w - w_n w5)); hs_len = w_n (put8 (w_new out) hs_client_hello);
               body = w_n w' - (hs_len + 3) in
        if body > 0xffffff then Err XT_ERR_INVALID_ARGUMENT
        else let w'' = patch24 w' hs_len (of_nat body) in Ok (take (w_n w'') (w_buf w'')))"
    using False w2(1) w3(1)
    by (simp add: build_client_hello_def Let_def w1_def [symmetric] sz(1) w4_def [symmetric]
        w5_def [symmetric] split_def cong: if_cong)
  show ?thesis
  proof (cases "ch_names_ok p")
    case False
    then obtain w' where "write_extensions p w5 = Ok (False, w')"
      using write_extensions_refused k by blast
    then show ?thesis
      unfolding unf using False \<open>\<not> (span_null (chp_random32 p) \<or> _)\<close> by simp
  next
    case names: True
    obtain b w6 where w6: "write_extensions p w5 = Ok (b, w6)"
      "if b then wrote w6 ((hd2 @ store_be16 0) @ eb) cap else cap < length ((hd2 @ store_be16 0) @ eb)"
      using write_extensions_writes [OF names k] w5 unfolding ext_writes_def eb_def by blast
    have fits: "b \<longleftrightarrow> length ((hd2 @ store_be16 0) @ eb) \<le> cap"
      using w6 wrote_ok [of w6 "(hd2 @ store_be16 0) @ eb" cap]
        write_extensions_ok [of p w5 w6] by (cases b) auto
    show ?thesis
    proof (cases b)
      case nb: False
      then show ?thesis
        unfolding unf w6(1) using False names fits lb by (simp add: cap_def)
    next
      case b: True
      define m where "m = (hd2 @ store_be16 0) @ eb"
      have w6m: "w_n w6 = length m" "take (length m) (w_buf w6) = m" "length m \<le> length (w_buf w6)"
        using b w6(2) fits by (auto simp: wrote_def m_def)
      have n5: "w_n w5 = length hd2 + 2" "w_n w4 = length hd2" "w_n (put8 (w_new out) hs_client_hello) = 1"
        using b fits w5 w4 wrote_put8 [OF wrote_new, of out hs_client_hello] lhd
        by (auto simp: wrote_def cap_def)
      have p16: "take (length m) (w_buf (patch16 w6 (length hd2) v)) = hd2 @ store_be16 v @ eb"
        "w_n (patch16 w6 (length hd2) v) = length m"
        "length m \<le> length (w_buf (patch16 w6 (length hd2) v))" for v
        using w6m write_at_middle [of "store_be16 0" "store_be16 v" hd2 eb]
        by (simp_all add: patch16_def take_write_at_inner) (simp_all add: m_def)
      have h4: "hd2 @ r = [hs_client_hello] @ store_be24 0 @ drop 4 hd2 @ r" for r
        by (simp add: hd2_def hd1_def store_be24_def)
      have w24: "write_at (hd2 @ r) (Suc 0) (store_be24 v) = [hs_client_hello] @ store_be24 v @ drop 4 hd2 @ r" for r v
        unfolding h4 using write_at_middle [of "store_be24 0" "store_be24 v" "[hs_client_hello]"] by simp
      have p24: "take (length m) (w_buf (patch24 (patch16 w6 (length hd2) v) 1 x))
          = [hs_client_hello] @ store_be24 x @ drop 4 hd2 @ store_be16 v @ eb"
        "w_n (patch24 (patch16 w6 (length hd2) v) 1 x) = length m" for v x
        using p16 [of v] lhd
        by (simp_all add: patch24_def take_write_at_inner w24) (simp_all add: m_def)
      have lm: "length m = 47 + length sb + length eb" using lhd by (simp add: m_def)
      have bnd: "length m - (length hd2 + 2) = length eb"
        "length eb \<le> 65535 \<Longrightarrow> \<not> 16777215 < length m - 4"
        using lm lhd sz(3) by simp_all
      have res: "[hs_client_hello] @ store_be24 (of_nat (length m - 4)) @ drop 4 hd2
          @ store_be16 (of_nat (length eb)) @ eb = client_hello_bytes p"
        by (simp add: bytes encode_handshake_def lm lhd)
      have out: "build_client_hello p (Span out) =
          (if 65535 < length eb then Err XT_ERR_INVALID_ARGUMENT else Ok (client_hello_bytes p))"
        unfolding unf w6(1) using b bnd
        by (auto simp add: n5 w6m(1) p24 p16(2) res [simplified] Let_def simp del: One_nat_def)
      show ?thesis
        unfolding out using False names fits lb b by (simp add: cap_def eb_def)
    qed
  qed
qed

end
