(* ===== verification/ServerHello.thy ===== *)
theory ServerHello
  imports ClientHello
begin

text \<open>
  The ServerHello parser of \<open>src/tls/server_hello.cpp\<close>, which also recognises HelloRetryRequest.
  The fixed arrays of \<open>ServerHelloInfo\<close> are byte lists of their size. The lemmas show that the
  parser reads inside its input, and which byte strings it accepts with what result.
\<close>

section \<open>Model\<close>

definition hrr_random :: bytes where
  "hrr_random = concat [
    [0xcf, 0x21, 0xad, 0x74, 0xe5, 0x9a, 0x61, 0x11, 0xbe, 0x1d, 0x8c, 0x02, 0x1e, 0x65, 0xb8, 0x91],
    [0xc2, 0xa2, 0x11, 0x16, 0x7a, 0xbb, 0x8c, 0x5e, 0x07, 0x9e, 0x09, 0xe2, 0xc8, 0xa8, 0x33, 0x9c]]"

record server_hello_info =
  sh_random :: bytes
  sh_session_id :: bytes
  sh_session_id_length :: nat
  sh_cipher_suite :: u16
  sh_selected_version :: u16
  sh_group :: u16
  sh_key_share :: bytes
  sh_key_share_length :: nat
  sh_hello_retry_request :: bool
  sh_cookie :: bytes
  sh_cookie_length :: nat

definition server_hello_info_init :: server_hello_info where
  "server_hello_info_init =
     \<lparr>sh_random = replicate 32 0, sh_session_id = replicate 32 0, sh_session_id_length = 0,
      sh_cipher_suite = 0, sh_selected_version = 0, sh_group = group_x25519,
      sh_key_share = replicate 65 0, sh_key_share_length = 0, sh_hello_retry_request = False,
      sh_cookie = replicate 512 0, sh_cookie_length = 0\<rparr>"

text \<open>The locals of the extension loop: the message, and the flags \<open>version\<close> and \<open>keyshare\<close>.\<close>

record sh_state =
  st_info :: server_hello_info
  st_version :: bool
  st_keyshare :: bool

definition sh_extension :: "byte_span \<Rightarrow> u16 \<Rightarrow> nat \<Rightarrow> nat \<Rightarrow> sh_state \<Rightarrow> sh_state res" where
  "sh_extension h type p len st =
     (let out = st_info st in
      if type = 0x002b then
        if len \<noteq> 2 then Err XT_ERR_BAD_HANDSHAKE
        else bind_res (load_be16 h p) (\<lambda>v.
          Ok (st\<lparr>st_info := out\<lparr>sh_selected_version := v\<rparr>, st_version := True\<rparr>))
      else if type = 0x0033 then
        if sh_hello_retry_request out then
          if len \<noteq> 2 then Err XT_ERR_BAD_HANDSHAKE
          else bind_res (load_be16 h p) (\<lambda>g.
            Ok (st\<lparr>st_info := out\<lparr>sh_group := g, sh_key_share_length := 0\<rparr>, st_keyshare := True\<rparr>))
        else if len < 4 then Err XT_ERR_BAD_HANDSHAKE
        else bind_res (load_be16 h p) (\<lambda>g. bind_res (load_be16 h (p + 2)) (\<lambda>k.
          let kl = unat k in
          if kl + 4 \<noteq> len \<or> kl > length (sh_key_share out) then Err XT_ERR_BAD_HANDSHAKE
          else bind_res (rd_bytes h (p + 4) kl) (\<lambda>bs.
            Ok (st\<lparr>st_info := out\<lparr>sh_group := g, sh_key_share := write_at (sh_key_share out) 0 bs,
                                   sh_key_share_length := kl\<rparr>,
                   st_keyshare := True\<rparr>))))
      else if type = 0x002c then
        if \<not> sh_hello_retry_request out \<or> len < 2 then Err XT_ERR_BAD_HANDSHAKE
        else bind_res (load_be16 h p) (\<lambda>c.
          let cl = unat c in
          if cl + 2 \<noteq> len \<or> cl > length (sh_cookie out) then Err XT_ERR_BAD_HANDSHAKE
          else bind_res (rd_bytes h (p + 2) cl) (\<lambda>bs.
            Ok (st\<lparr>st_info := out\<lparr>sh_cookie := write_at (sh_cookie out) 0 bs,
                                   sh_cookie_length := cl\<rparr>\<rparr>)))
      else Ok st)"

function sh_loop :: "byte_span \<Rightarrow> nat \<Rightarrow> nat \<Rightarrow> sh_state \<Rightarrow> sh_state res" where
  "sh_loop h p fin st =
     (if p < fin then
        if p + 4 > fin then Err XT_ERR_BAD_HANDSHAKE
        else bind_res (load_be16 h p) (\<lambda>type. bind_res (load_be16 h (p + 2)) (\<lambda>l.
          if p + 4 + unat l > fin then Err XT_ERR_BAD_HANDSHAKE
          else bind_res (sh_extension h type (p + 4) (unat l) st) (\<lambda>st'.
            sh_loop h (p + 4 + unat l) fin st')))
      else Ok st)"
  by pat_completeness auto
termination
  by (relation "measure (\<lambda>(h, p, fin, st). fin - p)") auto

declare sh_loop.simps [simp del]

text \<open>The checks after the loop.\<close>

definition sh_final_checks :: "sh_state \<Rightarrow> server_hello_info res" where
  "sh_final_checks st =
     (let out = st_info st in
      if \<not> st_version st \<or> sh_selected_version out \<noteq> 0x0304 \<or> \<not> st_keyshare st
      then Err XT_ERR_BAD_HANDSHAKE
      else if sh_cipher_suite out \<noteq> tls_aes_128_gcm_sha256 then Err XT_ERR_UNSUPPORTED
      else if sh_hello_retry_request out then
        if sh_group out \<noteq> group_x25519 \<and> sh_group out \<noteq> group_secp256r1
        then Err XT_ERR_UNSUPPORTED else Ok out
      else if sh_group out = group_x25519 \<and> sh_key_share_length out = 32 then Ok out
      else if sh_group out = group_secp256r1 \<and> sh_key_share_length out = 65
              \<and> sh_key_share out ! 0 = 0x04 then Ok out
      else Err XT_ERR_UNSUPPORTED)"

definition parse_server_hello :: "byte_span \<Rightarrow> server_hello_info res" where
  "parse_server_hello h =
     (if span_null h then Err XT_ERR_INVALID_ARGUMENT
      else if span_size h < 4 then Err XT_ERR_BAD_HANDSHAKE
      else bind_res (rd h 0) (\<lambda>t.
        if t \<noteq> hs_server_hello then Err XT_ERR_BAD_HANDSHAKE
        else bind_res (load_be24 h 1) (\<lambda>body.
          if unat body + 4 \<noteq> span_size h \<or> unat body < 38 then Err XT_ERR_BAD_HANDSHAKE
          else bind_res (load_be16 h 4) (\<lambda>v.
            if v \<noteq> 0x0303 then Err XT_ERR_BAD_HANDSHAKE
            else bind_res (rd_bytes h 6 32) (\<lambda>random.
              let out = server_hello_info_init\<lparr>sh_random := random,
                          sh_hello_retry_request := (random = hrr_random)\<rparr>;
                  p = 38 in
              if p \<ge> span_size h then Err XT_ERR_BAD_HANDSHAKE
              else bind_res (rd h p) (\<lambda>s.
                let sid = unat s; p = p + 1 in
                if sid > 32 \<or> p + sid + 5 > span_size h then Err XT_ERR_BAD_HANDSHAKE
                else bind_res (rd_bytes h p sid) (\<lambda>sid_bytes.
                  let out = out\<lparr>sh_session_id_length := sid,
                                sh_session_id := write_at (sh_session_id out) 0 sid_bytes\<rparr>;
                      p = p + sid in
                  bind_res (load_be16 h p) (\<lambda>cipher.
                    let out = out\<lparr>sh_cipher_suite := cipher\<rparr>; p = p + 2 in
                    bind_res (rd h p) (\<lambda>comp.
                      if comp \<noteq> 0 then Err XT_ERR_BAD_HANDSHAKE
                      else bind_res (load_be16 h (p + 1)) (\<lambda>ext_total.
                        let p = p + 3 in
                        if p + unat ext_total \<noteq> span_size h then Err XT_ERR_BAD_HANDSHAKE
                        else bind_res (sh_loop h p (p + unat ext_total)
                               \<lparr>st_info = out, st_version = False, st_keyshare = False\<rparr>)
                             sh_final_checks))))))))))"

section \<open>The extension loop\<close>

lemma sh_extension_local:
  assumes "p + len \<le> length body"
  shows "sh_extension (Span body) t p len st = sh_extension (Span (slice body p len)) t 0 len st"
proof -
  have l0: "2 \<le> len \<Longrightarrow> load_be16 (Span (slice body p len)) 0 = load_be16 (Span body) p"
    and l2: "4 \<le> len \<Longrightarrow> load_be16 (Span (slice body p len)) 2 = load_be16 (Span body) (p + 2)"
    and b2: "2 + m \<le> len \<Longrightarrow> rd_bytes (Span (slice body p len)) 2 m = rd_bytes (Span body) (p + 2) m"
    and b4: "4 + m \<le> len \<Longrightarrow> rd_bytes (Span (slice body p len)) 4 m = rd_bytes (Span body) (p + 4) m"
    for m
    using load_be16_slice [OF assms, of 0] load_be16_slice [OF assms, of 2]
      rd_bytes_slice [OF assms, of 2 m] rd_bytes_slice [OF assms, of 4 m] by simp_all
  show ?thesis
  proof (cases "len = 2")
    case True
    show ?thesis
      using l0 b2 [of 0] unfolding True
      by (auto simp: sh_extension_def Let_def intro!: bind_res_cong)
  next
    case False
    then show ?thesis
      by (auto simp: sh_extension_def Let_def l0 l2 b2 b4 not_less add.commute intro!: bind_res_cong)
  qed
qed

lemma sh_extension_safe: "sh_extension (Span d) t 0 (length d) st \<noteq> UB"
  unfolding safe_True_iff [symmetric] sh_extension_def by (auto simp: Let_def)

interpretation sh: extension_reader sh_extension "\<lambda>h p remain. sh_loop h p (p + remain)"
proof unfold_locales
  fix p remain t l st and body :: bytes
  assume "p + remain = length body" "4 \<le> remain"
    and ld: "load_be16 (Span body) p = Ok t" "load_be16 (Span body) (p + 2) = Ok l"
  moreover have "\<not> remain - 4 < unat l \<Longrightarrow> p + 4 + unat l + (remain - 4 - unat l) = p + remain"
    using \<open>4 \<le> remain\<close> by simp
  ultimately show "sh_loop (Span body) p (p + remain) st =
      (if remain - 4 < unat l then Err XT_ERR_BAD_HANDSHAKE
       else bind_res (sh_extension (Span body) t (p + 4) (unat l) st)
         (sh_loop (Span body) (p + 4 + unat l) (p + 4 + unat l + (remain - 4 - unat l))))"
    by (subst sh_loop.simps) (auto simp: ld)
next
  fix p remain :: nat and st and body :: bytes
  assume "0 < remain" "remain < 4"
  then show "sh_loop (Span body) p (p + remain) st = Err XT_ERR_BAD_HANDSHAKE"
    by (subst sh_loop.simps) simp
next
  fix p st and body :: bytes
  show "sh_loop (Span body) p (p + 0) st = Ok st" by (subst sh_loop.simps) simp
qed (fact sh_extension_local sh_extension_safe)+

lemma parse_server_hello_safe: "parse_server_hello h \<noteq> UB"
proof (cases h)
  case (NullSpan n)
  then show ?thesis by (simp add: parse_server_hello_def)
next
  case (Span bs)
  have fin: "safe (sh_final_checks st) (\<lambda>_. True)" for st by (simp add: sh_final_checks_def Let_def)
  have loop: "p \<le> length bs \<Longrightarrow> safe (sh_loop (Span bs) p (length bs) st) (\<lambda>_. True)" for p st
    using sh.loop_safe [of p "length bs - p" bs st] by (simp add: safe_True_iff)
  show ?thesis
    unfolding Span safe_True_iff [symmetric] parse_server_hello_def
    by (auto simp: Let_def fin loop)
qed

section \<open>The accepted messages\<close>

definition server_hello_body :: "bytes \<Rightarrow> bytes \<Rightarrow> u16 \<Rightarrow> extension list \<Rightarrow> bytes" where
  "server_hello_body random sid cipher exts =
     store_be16 0x0303 @ random @ [of_nat (length sid)] @ sid @ store_be16 cipher @ [0] @
     store_be16 (of_nat (length (exts_bytes exts))) @ exts_bytes exts"

definition server_hello_start :: "bytes \<Rightarrow> bytes \<Rightarrow> u16 \<Rightarrow> sh_state" where
  "server_hello_start random sid cipher =
     \<lparr>st_info = server_hello_info_init\<lparr>sh_random := random,
        sh_hello_retry_request := (random = hrr_random), sh_session_id_length := length sid,
        sh_session_id := write_at (replicate 32 0) 0 sid, sh_cipher_suite := cipher\<rparr>,
      st_version = False, st_keyshare = False\<rparr>"

lemma server_hello_assemble:
  assumes r: "rd (Span bs) 0 = Ok hs_server_hello" "load_be24 (Span bs) 1 = Ok body"
      "load_be16 (Span bs) 4 = Ok 0x0303" "rd_bytes (Span bs) 6 32 = Ok random"
      "rd (Span bs) 38 = Ok s" "rd_bytes (Span bs) 39 (unat s) = Ok sid"
      "load_be16 (Span bs) (39 + unat s) = Ok cipher" "rd (Span bs) (41 + unat s) = Ok 0"
      "load_be16 (Span bs) (42 + unat s) = Ok et"
    and c: "unat body + 4 = length bs" "44 + unat s + unat et = length bs"
    and e: "drop (44 + unat s) bs = exts_bytes exts"
  shows "bs = encode_handshake hs_server_hello (server_hello_body random sid cipher exts)
    \<and> length random = 32 \<and> length sid = unat s \<and> length (exts_bytes exts) = unat et"
proof -
  have le: "length (exts_bytes exts) = unat et" using c unfolding e [symmetric] by simp
  have lens: "length random = 32" "length sid = unat s"
    using rd_bytes_drop [OF r(4)] rd_bytes_drop [OF r(6)] by simp_all
  have "drop 0 bs = [hs_server_hello] @ drop 1 bs" using rd_drop [OF r(1)] by simp
  also have "drop 1 bs = store_be24 body @ drop 4 bs" using load_be24_drop [OF r(2)] by simp
  also have "drop 4 bs = store_be16 0x0303 @ drop 6 bs" using load_be16_drop [OF r(3)] by simp
  also have "drop 6 bs = random @ drop 38 bs" using rd_bytes_drop [OF r(4)] by simp
  also have "drop 38 bs = [s] @ drop 39 bs" using rd_drop [OF r(5)] by simp
  also have "drop 39 bs = sid @ drop (39 + unat s) bs" using rd_bytes_drop [OF r(6)] by simp
  also have "drop (39 + unat s) bs = store_be16 cipher @ drop (41 + unat s) bs"
    using load_be16_drop [OF r(7)] by (simp add: add.commute add.left_commute)
  also have "drop (41 + unat s) bs = [0] @ drop (42 + unat s) bs"
    using rd_drop [OF r(8)] by (simp add: add.commute add.left_commute)
  also have "drop (42 + unat s) bs = store_be16 et @ drop (44 + unat s) bs"
    using load_be16_drop [OF r(9)] by (simp add: add.commute add.left_commute)
  finally have bs: "bs = [hs_server_hello] @ store_be24 body @ store_be16 0x0303 @ random @ [s] @ sid
      @ store_be16 cipher @ [0] @ store_be16 et @ exts_bytes exts"
    by (simp add: e)
  have s: "of_nat (length sid) = s" "of_nat (length (exts_bytes exts)) = et"
    unfolding lens(2) le by simp_all
  have "length (server_hello_body random sid cipher exts) = unat body"
    using c lens le by (simp add: server_hello_body_def)
  then have "(of_nat (length (server_hello_body random sid cipher exts)) :: u32) = body" by simp
  then have "encode_handshake hs_server_hello (server_hello_body random sid cipher exts) = bs"
    unfolding encode_handshake_def by (subst bs) (simp add: server_hello_body_def s)
  then show ?thesis using lens le by simp
qed

lemma parse_server_hello_decode:
  assumes "parse_server_hello (Span bs) = Ok info"
  shows "\<exists>random sid cipher exts st.
    bs = encode_handshake hs_server_hello (server_hello_body random sid cipher exts)
    \<and> length random = 32 \<and> length sid \<le> 32 \<and> list_all ext_fits exts
    \<and> length (exts_bytes exts) < 65536
    \<and> run_exts sh_extension exts (server_hello_start random sid cipher) = Ok st
    \<and> sh_final_checks st = Ok info"
  using assms unfolding parse_server_hello_def Let_def
proof (elim res_OkE, goal_cases)
  case (1 t body v random s sid cipher comp et st)
  then have c: "unat body + 4 = length bs" "44 + unat s + unat et = length bs" "unat s \<le> 32"
    by simp_all
  have "sh_loop (Span bs) (44 + unat s) (44 + unat s + unat et)
      \<lparr>st_info = server_hello_info_init\<lparr>sh_random := random,
        sh_hello_retry_request := (random = hrr_random), sh_session_id_length := unat s,
        sh_session_id := write_at (sh_session_id server_hello_info_init) 0 sid,
        sh_cipher_suite := cipher\<rparr>,
      st_version = False, st_keyshare = False\<rparr> = Ok st"
    using 1 by (simp add: add.commute add.left_commute)
  from sh.loop_Ok [OF this c(2)] obtain exts where e: "drop (44 + unat s) bs = exts_bytes exts"
    "list_all ext_fits exts"
    "run_exts sh_extension exts \<lparr>st_info = server_hello_info_init\<lparr>sh_random := random,
        sh_hello_retry_request := (random = hrr_random), sh_session_id_length := unat s,
        sh_session_id := write_at (sh_session_id server_hello_info_init) 0 sid,
        sh_cipher_suite := cipher\<rparr>,
      st_version = False, st_keyshare = False\<rparr> = Ok st"
    by blast
  have as: "bs = encode_handshake hs_server_hello (server_hello_body random sid cipher exts)
    \<and> length random = 32 \<and> length sid = unat s \<and> length (exts_bytes exts) = unat et"
    by (rule server_hello_assemble [OF _ _ _ _ _ _ _ _ _ c(1,2) e(1)])
      (use 1 in \<open>simp_all add: add.commute add.left_commute\<close>)
  moreover have "run_exts sh_extension exts (server_hello_start random sid cipher) = Ok st"
    using e(3) as by (simp add: server_hello_start_def server_hello_info_init_def)
  moreover have "unat et < 65536" using unsigned_less [of et] by simp
  ultimately show ?case using 1 e(2) c(3) by metis
qed

lemma parse_server_hello_encode:
  assumes random: "length random = 32" and sid: "length sid \<le> 32" and fits: "list_all ext_fits exts"
    and len: "length (exts_bytes exts) < 65536"
  shows "parse_server_hello (Span (encode_handshake hs_server_hello
      (server_hello_body random sid cipher exts)))
    = bind_res (run_exts sh_extension exts (server_hello_start random sid cipher)) sh_final_checks"
proof -
  define bs where "bs = encode_handshake hs_server_hello (server_hello_body random sid cipher exts)"
  define n where "n = length sid"
  define body where "body = server_hello_body random sid cipher exts"
  have lb: "length body = 40 + n + length (exts_bytes exts)"
    using random by (simp add: body_def server_hello_body_def n_def)
  then have small: "length body < 16777216" using sid len by (simp add: n_def)
  have ul: "unat (of_nat (length body) :: u32) = length body"
    using small by (intro unat_of_nat_u32) simp
  have un: "unat (of_nat n :: u8) = n" using sid by (intro unat_of_nat_u8) (simp add: n_def)
  have ue: "unat (of_nat (length (exts_bytes exts)) :: u16) = length (exts_bytes exts)"
    using len by (rule unat_of_nat_u16)
  have lbs: "length bs = 44 + n + length (exts_bytes exts)"
    using lb by (simp add: bs_def body_def)
  have d0: "drop 0 bs = [hs_server_hello] @ (store_be24 (of_nat (length body)) @ body)"
    by (simp add: bs_def encode_handshake_def body_def)
  have d4: "drop 4 bs = store_be16 0x0303 @ (random @ [of_nat n] @ sid @ store_be16 cipher @ [0] @
      store_be16 (of_nat (length (exts_bytes exts))) @ exts_bytes exts)"
    by (simp add: bs_def encode_handshake_def body_def server_hello_body_def store_be24_def n_def)
  note r4 = load_be16_at [OF d4]
  have d6: "drop 6 bs = random @ ([of_nat n] @ sid @ store_be16 cipher @ [0] @
      store_be16 (of_nat (length (exts_bytes exts))) @ exts_bytes exts)"
    using r4(3) by simp
  have r6: "rd_bytes (Span bs) 6 32 = Ok random" "drop 38 bs = [of_nat n] @ (sid @ store_be16 cipher @ [0] @
      store_be16 (of_nat (length (exts_bytes exts))) @ exts_bytes exts)"
    using rd_bytes_at [OF d6] random lbs by simp_all
  have r38: "rd (Span bs) 38 = Ok (of_nat n)" "drop 39 bs = sid @ (store_be16 cipher @ [0] @
      store_be16 (of_nat (length (exts_bytes exts))) @ exts_bytes exts)"
    using rd_at [OF r6(2)] by simp_all
  have r39: "rd_bytes (Span bs) 39 n = Ok sid" "drop (39 + n) bs = store_be16 cipher @ ([0] @
      store_be16 (of_nat (length (exts_bytes exts))) @ exts_bytes exts)"
    using rd_bytes_at [OF r38(2)] lbs by (simp_all add: n_def)
  note r40 = load_be16_at [OF r39(2)]
  have d41: "drop (41 + n) bs = [0] @ (store_be16 (of_nat (length (exts_bytes exts))) @ exts_bytes exts)"
    using r40(3) by (simp add: add.commute add.left_commute)
  have r41: "rd (Span bs) (41 + n) = Ok 0" "drop (42 + n) bs =
      store_be16 (of_nat (length (exts_bytes exts))) @ exts_bytes exts"
    using rd_at [OF d41] by (simp_all add: add.commute add.left_commute)
  note r42 = load_be16_at [OF r41(2)]
  have d44: "drop (44 + n) bs = exts_bytes exts"
    using r42(3) by (simp add: add.commute add.left_commute)
  have r0: "rd (Span bs) 0 = Ok hs_server_hello" using rd_at [OF d0] by simp
  have "bs = [hs_server_hello] @ store_be24 (of_nat (length body)) @ body" using d0 by simp
  then have r1: "load_be24 (Span bs) 1 = Ok (of_nat (length body))"
    using load_store_be24 [of "of_nat (length body)" "[hs_server_hello]" body] small ul by simp
  obtain L :: u32 where L: "load_be24 (Span bs) 1 = Ok L" "unat L = 40 + n + length (exts_bytes exts)"
    using r1 ul lb by metis
  have loop: "sh_loop (Span bs) (44 + n) (44 + n + length (exts_bytes exts)) st
      = run_exts sh_extension exts st" for st
    using sh.loop_exts [OF d44 fits] lbs by simp
  have start: "\<lparr>st_info = server_hello_info_init\<lparr>sh_random := random,
        sh_hello_retry_request := (random = hrr_random), sh_session_id_length := n,
        sh_session_id := write_at (sh_session_id server_hello_info_init) 0 sid,
        sh_cipher_suite := cipher\<rparr>, st_version = False, st_keyshare = False\<rparr>
      = server_hello_start random sid cipher"
    by (simp add: server_hello_start_def server_hello_info_init_def n_def)
  have arith: "38 + 1 = (39::nat)" "39 + n + 2 = 41 + n" "41 + n + 1 = 42 + n" "41 + n + 3 = 44 + n"
    "\<not> 32 < n" using sid by (simp_all add: n_def)
  show ?thesis
    unfolding bs_def [symmetric] parse_server_hello_def
    using lbs arith(5)
    by (simp add: Let_def r0 L r4(1) r6(1) r38(1) un r39(1) arith r40(1) r41(1) r42(1) ue loop start
        del: One_nat_def)
qed

text \<open>The parser accepts exactly these byte strings.\<close>

lemma parse_server_hello_iff:
  "parse_server_hello (Span bs) = Ok info \<longleftrightarrow>
    (\<exists>random sid cipher exts st.
      bs = encode_handshake hs_server_hello (server_hello_body random sid cipher exts)
      \<and> length random = 32 \<and> length sid \<le> 32 \<and> list_all ext_fits exts
      \<and> length (exts_bytes exts) < 65536
      \<and> run_exts sh_extension exts (server_hello_start random sid cipher) = Ok st
      \<and> sh_final_checks st = Ok info)"
proof
  assume "parse_server_hello (Span bs) = Ok info"
  then show "\<exists>random sid cipher exts st.
      bs = encode_handshake hs_server_hello (server_hello_body random sid cipher exts)
      \<and> length random = 32 \<and> length sid \<le> 32 \<and> list_all ext_fits exts
      \<and> length (exts_bytes exts) < 65536
      \<and> run_exts sh_extension exts (server_hello_start random sid cipher) = Ok st
      \<and> sh_final_checks st = Ok info"
    by (rule parse_server_hello_decode)
qed (auto simp: parse_server_hello_encode)

section \<open>What an accepted message promises\<close>

definition sh_sizes :: "server_hello_info \<Rightarrow> bool" where
  "sh_sizes i \<longleftrightarrow> length (sh_random i) = 32 \<and> length (sh_session_id i) = 32
     \<and> sh_session_id_length i \<le> 32 \<and> length (sh_key_share i) = 65
     \<and> length (sh_cookie i) = 512 \<and> sh_cookie_length i \<le> 512"

lemma sh_extension_sizes:
  assumes "sh_sizes (st_info st)" and "sh_extension (Span d) t 0 (length d) st = Ok st'"
  shows "sh_sizes (st_info st') \<and> sh_hello_retry_request (st_info st') = sh_hello_retry_request (st_info st)
    \<and> sh_random (st_info st') = sh_random (st_info st)
    \<and> sh_session_id (st_info st') = sh_session_id (st_info st)
    \<and> sh_session_id_length (st_info st') = sh_session_id_length (st_info st)
    \<and> sh_cipher_suite (st_info st') = sh_cipher_suite (st_info st)"
  using assms(2,1) unfolding sh_extension_def Let_def
  by (auto simp: sh_sizes_def rd_bytes_def elim!: res_OkE split: if_splits)

text \<open>
  The negotiated parameters: TLS 1.3, the one cipher suite, one of the two groups, and for a
  ServerHello proper a key share of that group's size.
\<close>

lemma parse_server_hello_promises:
  assumes "parse_server_hello (Span bs) = Ok i"
  shows "sh_sizes i \<and> sh_selected_version i = 0x0304 \<and> sh_cipher_suite i = tls_aes_128_gcm_sha256
    \<and> (sh_group i = group_x25519 \<or> sh_group i = group_secp256r1)
    \<and> (sh_hello_retry_request i \<longleftrightarrow> sh_random i = hrr_random)
    \<and> (\<not> sh_hello_retry_request i \<longrightarrow>
         sh_key_share_length i = (if sh_group i = group_x25519 then 32 else 65))"
proof -
  obtain random sid cipher exts st where r: "length random = 32" "length sid \<le> 32"
    "run_exts sh_extension exts (server_hello_start random sid cipher) = Ok st"
    "sh_final_checks st = Ok i"
    using parse_server_hello_decode [OF assms] by blast
  define P where "P = (\<lambda>s :: sh_state. sh_sizes (st_info s) \<and> sh_random (st_info s) = random
    \<and> (sh_hello_retry_request (st_info s) \<longleftrightarrow> random = hrr_random))"
  have "P (server_hello_start random sid cipher)"
    using r(1,2) by (simp add: P_def server_hello_start_def server_hello_info_init_def sh_sizes_def)
  moreover have "P s \<Longrightarrow> sh_extension (Span d) t 0 (length d) s = Ok s' \<Longrightarrow> P s'" for t d s s'
    using sh_extension_sizes [of s d t s'] unfolding P_def by metis
  ultimately have "P st" by (rule run_exts_invariant [OF r(3)])
  moreover have "group_x25519 \<noteq> group_secp256r1"
    by (simp add: group_x25519_def group_secp256r1_def)
  ultimately show ?thesis
    using r(4) by (auto simp: sh_final_checks_def Let_def P_def split: if_splits)
qed

end
