(* ===== verification/P256.thy ===== *)
theory P256
  imports Der Bignum Sha256 "HOL-Library.While_Combinator"
begin

text \<open>
  The curve P-256 of \<open>src/crypto/p256_verify.cpp\<close>: Jacobian point arithmetic over the multi-word
  numbers, key pairs and shared secrets, and ECDSA verification. A helper that answers \<open>bool\<close> is
  an option, or has the error its caller turns \<open>false\<close> into. The lemmas are about the
  buffers; what the three entry points compute is the subject of \<open>P256Spec\<close>.
\<close>

section \<open>Model: constants\<close>

abbreviation n256_be :: "bytes \<Rightarrow> limbs" where
  "n256_be \<equiv> limbs_be 9"

abbreviation n256_small :: "u32 \<Rightarrow> limbs" where
  "n256_small \<equiv> limbs_small 9"

definition P_BE :: bytes where
  "P_BE = concat [replicate 4 0xff, [0, 0, 0, 1], replicate 12 0, replicate 12 0xff]"

definition N_BE :: bytes where
  "N_BE = concat [replicate 4 0xff, replicate 4 0, replicate 8 0xff,
    [0xbc, 0xe6, 0xfa, 0xad, 0xa7, 0x17, 0x9e, 0x84],
    [0xf3, 0xb9, 0xca, 0xc2, 0xfc, 0x63, 0x25, 0x51]]"

definition B_BE :: bytes where
  "B_BE = concat [
    [0x5a, 0xc6, 0x35, 0xd8, 0xaa, 0x3a, 0x93, 0xe7],
    [0xb3, 0xeb, 0xbd, 0x55, 0x76, 0x98, 0x86, 0xbc],
    [0x65, 0x1d, 0x06, 0xb0, 0xcc, 0x53, 0xb0, 0xf6],
    [0x3b, 0xce, 0x3c, 0x3e, 0x27, 0xd2, 0x60, 0x4b]]"

definition GX_BE :: bytes where
  "GX_BE = concat [
    [0x6b, 0x17, 0xd1, 0xf2, 0xe1, 0x2c, 0x42, 0x47],
    [0xf8, 0xbc, 0xe6, 0xe5, 0x63, 0xa4, 0x40, 0xf2],
    [0x77, 0x03, 0x7d, 0x81, 0x2d, 0xeb, 0x33, 0xa0],
    [0xf4, 0xa1, 0x39, 0x45, 0xd8, 0x98, 0xc2, 0x96]]"

definition GY_BE :: bytes where
  "GY_BE = concat [
    [0x4f, 0xe3, 0x42, 0xe2, 0xfe, 0x1a, 0x7f, 0x9b],
    [0x8e, 0xe7, 0xeb, 0x4a, 0x7c, 0x0f, 0x9e, 0x16],
    [0x2b, 0xce, 0x33, 0x57, 0x6b, 0x31, 0x5e, 0xce],
    [0xcb, 0xb6, 0x40, 0x68, 0x37, 0xbf, 0x51, 0xf5]]"

section \<open>Model: points\<close>

record jp =
  jx :: limbs
  jy :: limbs
  jz :: limbs
  jinf :: bool

definition jp_inf :: jp where
  "jp_inf = \<lparr>jx = limbs_zero 9, jy = limbs_zero 9, jz = limbs_zero 9, jinf = True\<rparr>"

definition limbs_is_zero :: "limbs \<Rightarrow> bool" where
  "limbs_is_zero a \<longleftrightarrow> ln a = 0"

definition dbl :: "jp \<Rightarrow> limbs \<Rightarrow> jp" where
  "dbl a p =
     (if jinf a \<or> limbs_is_zero (jy a) then jp_inf
      else
        let xx = mulm (jx a) (jx a) p;
            yy = mulm (jy a) (jy a) p;
            yyyy = mulm yy yy p;
            zz = mulm (jz a) (jz a) p;
            xpy = addm (jx a) yy p;
            s = subm (subm (mulm xpy xpy p) xx p) yyyy p;
            s = addm s s p;
            zz2 = mulm zz zz p;
            m = subm xx zz2 p;
            m = addm (addm m m p) m p;
            t = subm (mulm m m p) (addm s s p) p;
            y3 = subm (mulm m (subm s t p) p)
                   (addm (addm (addm yyyy yyyy p) (addm yyyy yyyy p) p)
                         (addm (addm yyyy yyyy p) (addm yyyy yyyy p) p) p) p;
            z3 = subm (subm (mulm (addm (jy a) (jz a) p) (addm (jy a) (jz a) p) p) yy p) zz p
        in \<lparr>jx = t, jy = y3, jz = z3, jinf = False\<rparr>)"

definition add_mixed :: "jp \<Rightarrow> limbs \<Rightarrow> limbs \<Rightarrow> limbs \<Rightarrow> jp" where
  "add_mixed a qx qy p =
     (if jinf a then \<lparr>jx = qx, jy = qy, jz = n256_small 1, jinf = False\<rparr>
      else
        let z1z1 = mulm (jz a) (jz a) p;
            u2 = mulm qx z1z1 p;
            s2 = mulm qy (mulm (jz a) z1z1 p) p
        in if limbs_eq u2 (jx a) then
             if limbs_eq s2 (jy a) then dbl a p else jp_inf
           else
             let h = subm u2 (jx a) p;
                 hh = mulm h h p;
                 i = addm (addm hh hh p) (addm hh hh p) p;
                 j = mulm h i p;
                 rr = addm (subm s2 (jy a) p) (subm s2 (jy a) p) p;
                 v = mulm (jx a) i p;
                 x3 = subm (subm (mulm rr rr p) j p) (addm v v p) p;
                 y3 = subm (mulm rr (subm v x3 p) p) (addm (mulm (jy a) j p) (mulm (jy a) j p) p) p;
                 z3 = subm (subm (mulm (addm (jz a) h p) (addm (jz a) h p) p) z1z1 p) hh p
             in \<lparr>jx = x3, jy = y3, jz = z3, jinf = False\<rparr>)"

definition addj :: "jp \<Rightarrow> jp \<Rightarrow> limbs \<Rightarrow> jp" where
  "addj a b p =
     (if jinf a then b
      else if jinf b then a
      else
        let z1z1 = mulm (jz a) (jz a) p;
            z2z2 = mulm (jz b) (jz b) p;
            u1 = mulm (jx a) z2z2 p;
            u2 = mulm (jx b) z1z1 p;
            s1 = mulm (jy a) (mulm (jz b) z2z2 p) p;
            s2 = mulm (jy b) (mulm (jz a) z1z1 p) p
        in if limbs_eq u1 u2 then
             if limbs_eq s1 s2 then dbl a p else jp_inf
           else
             let h = subm u2 u1 p;
                 twoh = addm h h p;
                 i = mulm twoh twoh p;
                 j = mulm h i p;
                 rr = addm (subm s2 s1 p) (subm s2 s1 p) p;
                 v = mulm u1 i p;
                 x3 = subm (subm (mulm rr rr p) j p) (addm v v p) p;
                 y3 = subm (mulm rr (subm v x3 p) p) (addm (mulm s1 j p) (mulm s1 j p) p) p;
                 zsum = addm (jz a) (jz b) p;
                 z3 = mulm (subm (subm (mulm zsum zsum p) z1z1 p) z2z2 p) h p
             in \<lparr>jx = x3, jy = y3, jz = z3, jinf = False\<rparr>)"

text \<open>Double and add, from the highest bit.\<close>

definition scalar_step :: "limbs \<Rightarrow> limbs \<Rightarrow> limbs \<Rightarrow> limbs \<Rightarrow> nat \<Rightarrow> jp \<Rightarrow> jp" where
  "scalar_step k x y p i r =
     (let r = dbl r p in if limb_bit k (i - 1) then add_mixed r x y p else r)"

definition scalar :: "limbs \<Rightarrow> limbs \<Rightarrow> limbs \<Rightarrow> limbs \<Rightarrow> jp" where
  "scalar k x y p = fold (scalar_step k x y p) (rev [1..<nbits k + 1]) jp_inf"

definition affine_x :: "jp \<Rightarrow> limbs \<Rightarrow> limbs option" where
  "affine_x a p =
     (if jinf a then None
      else
        let pm2 = subraw p (n256_small 2);
            zi = powm (jz a) pm2 p;
            zi2 = mulm zi zi p
        in Some (mulm (jx a) zi2 p))"

definition affine_xy :: "jp \<Rightarrow> limbs \<Rightarrow> (limbs \<times> limbs) option" where
  "affine_xy a p =
     (if jinf a then None
      else
        let pm2 = subraw p (n256_small 2);
            zi = powm (jz a) pm2 p;
            zi2 = mulm zi zi p;
            zi3 = mulm zi2 zi p
        in Some (mulm (jx a) zi2 p, mulm (jy a) zi3 p))"

definition to_be32 :: "limbs \<Rightarrow> bytes" where
  "to_be32 a =
     fold (\<lambda>i out. write_at out (32 - 4 * (i + 1)) (store_be32 (lw a ! i))) [0..<min (ln a) 8]
       (replicate 32 0)"

section \<open>Model: key agreement\<close>

definition valid_private :: "limbs \<Rightarrow> limbs \<Rightarrow> bool" where
  "valid_private d n \<longleftrightarrow> \<not> limbs_is_zero d \<and> cmp d n < 0"

definition p256_public_from_private :: "byte_span \<Rightarrow> bytes res" where
  "p256_public_from_private private_key =
     (if span_null private_key then Err XT_ERR_INVALID_ARGUMENT
      else bind_res (rd_bytes private_key 0 32) (\<lambda>priv.
        let p = n256_be P_BE; n = n256_be N_BE; gx = n256_be GX_BE; gy = n256_be GY_BE;
            d = n256_be priv
        in if \<not> valid_private d n then Err XT_ERR_VERIFY
           else
             (case affine_xy (scalar d gx gy p) p of
                None \<Rightarrow> Err XT_ERR_VERIFY
              | Some (x, y) \<Rightarrow> Ok ([0x04] @ to_be32 x @ to_be32 y))))"

text \<open>The check that both entry points make of a peer's coordinates.\<close>

definition p256_on_curve_check :: "limbs \<Rightarrow> limbs \<Rightarrow> bool" where
  "p256_on_curve_check qx qy =
     (let p = n256_be P_BE; bb = n256_be B_BE;
          lhs = mulm qy qy p;
          x2 = mulm qx qx p;
          x3 = mulm x2 qx p;
          threeX = addm (addm qx qx p) qx p;
          rhs = addm (subm x3 threeX p) bb p
      in limbs_eq lhs rhs)"

definition p256_shared_secret :: "byte_span \<Rightarrow> byte_span \<Rightarrow> bytes res" where
  "p256_shared_secret private_key peer_public_key =
     (if span_null private_key \<or> span_null peer_public_key then Err XT_ERR_INVALID_ARGUMENT
      else bind_res (rd peer_public_key 0) (\<lambda>form.
        if form \<noteq> 0x04 then Err XT_ERR_VERIFY
        else bind_res (rd_bytes private_key 0 32) (\<lambda>priv.
          let p = n256_be P_BE; n = n256_be N_BE; d = n256_be priv in
          if \<not> valid_private d n then Err XT_ERR_VERIFY
          else bind_res (rd_bytes peer_public_key 1 32) (\<lambda>qxb.
            bind_res (rd_bytes peer_public_key 33 32) (\<lambda>qyb.
              let qx = n256_be qxb; qy = n256_be qyb in
              if cmp qx p \<ge> 0 \<or> cmp qy p \<ge> 0 then Err XT_ERR_VERIFY
              else if \<not> p256_on_curve_check qx qy then Err XT_ERR_VERIFY
              else
                (case affine_xy (scalar d qx qy p) p of
                   None \<Rightarrow> Err XT_ERR_VERIFY
                 | Some (x, y) \<Rightarrow> Ok (to_be32 x)))))))"

section \<open>Model: ECDSA\<close>

definition dtlv_len :: "bytes \<Rightarrow> nat" where
  "dtlv_len bs = fold (\<lambda>b len. len * 256 + unat b) bs 0"

definition dtlv_length :: "byte_span \<Rightarrow> nat \<Rightarrow> (nat \<times> nat) res" where
  "dtlv_length s p =
     bind_res (rd s p) (\<lambda>lb.
       let p = p + 1 in
       if lb AND 0x80 = 0 then Ok (unat lb, p)
       else
         let n = unat (lb AND 0x7F) in
         if n = 0 \<or> n > 2 \<or> p + n > span_size s then Err XT_ERR_VERIFY
         else bind_res (rd_bytes s p n) (\<lambda>lbs. Ok (dtlv_len lbs, p + n)))"

text \<open>The reader of signatures does not keep the whole element; the model does, for the contract.\<close>

definition dtlv :: "byte_span \<Rightarrow> nat \<Rightarrow> (der_elem \<times> nat) res" where
  "dtlv s off =
     (if span_null s \<or> off \<ge> span_size s then Err XT_ERR_VERIFY
      else bind_res (rd s off) (\<lambda>tag.
        let p = off + 1 in
        if p \<ge> span_size s then Err XT_ERR_VERIFY
        else bind_res (dtlv_length s p) (\<lambda>(len, p).
          if len > span_size s - p then Err XT_ERR_VERIFY
          else bind_res (subspan s off ((p - off) + len)) (\<lambda>full.
            bind_res (subspan s p len) (\<lambda>value.
              Ok (\<lparr>el_tag = tag, el_full = full, el_value = value\<rparr>, p + len))))))"

lemma dtlv_length_bounds:
  "p < length bs \<Longrightarrow> safe (dtlv_length (Span bs) p) (\<lambda>(len, q). p + 1 \<le> q \<and> q \<le> length bs)"
  by (auto simp: dtlv_length_def Let_def)

text \<open>It accepts lengths that are not minimal, but it has the contract of the other readers.\<close>

interpretation ecdsa: tlv_reader dtlv
proof -
  have "dtlv = read_elem dtlv_length XT_ERR_VERIFY"
    by (intro ext) (simp only: dtlv_def read_elem_def)
  with read_elem_reader [OF dtlv_length_bounds, of XT_ERR_VERIFY] show "tlv_reader dtlv" by simp
qed

text \<open>An INTEGER without its sign byte.\<close>

definition sig_int :: "byte_span \<Rightarrow> byte_span res" where
  "sig_int v =
     (if span_size v > 1 then
        bind_res (rd v 0) (\<lambda>b. if b = 0 then subspan v 1 (span_size v - 1) else Ok v)
      else Ok v)"

definition parse_sig :: "byte_span \<Rightarrow> (limbs \<times> limbs) res" where
  "parse_sig der =
     bind_res (dtlv der 0) (\<lambda>(seq, next).
       if el_tag seq \<noteq> 0x30 \<or> next \<noteq> span_size der then Err XT_ERR_VERIFY
       else bind_res (dtlv (el_value seq) 0) (\<lambda>(a, anext).
         if el_tag a \<noteq> 0x02 then Err XT_ERR_VERIFY
         else bind_res (dtlv (el_value seq) anext) (\<lambda>(b, bnext).
           if el_tag b \<noteq> 0x02 \<or> bnext \<noteq> span_size (el_value seq) then Err XT_ERR_VERIFY
           else bind_res (sig_int (el_value a)) (\<lambda>av. bind_res (sig_int (el_value b)) (\<lambda>bv.
             if span_size av = 0 \<or> span_size av > 32 \<or> span_size bv = 0 \<or> span_size bv > 32
             then Err XT_ERR_VERIFY
             else bind_res (rd_bytes av 0 (span_size av)) (\<lambda>ab.
               bind_res (rd_bytes bv 0 (span_size bv)) (\<lambda>bb.
                 Ok (n256_be ab, n256_be bb))))))))"

text \<open>\<open>while (cmp(x, n) >= 0) subraw(x, n);\<close>\<close>

definition reduce_loop :: "limbs \<Rightarrow> limbs \<Rightarrow> limbs" where
  "reduce_loop n x = while (\<lambda>x. cmp x n \<ge> 0) (\<lambda>x. subraw x n) x"

text \<open>The part of the verification that computes, on a digest.\<close>

definition ecdsa_core :: "limbs \<Rightarrow> limbs \<Rightarrow> limbs \<Rightarrow> limbs \<Rightarrow> bytes \<Rightarrow> unit res" where
  "ecdsa_core qx qy r s digest =
     (let p = n256_be P_BE; n = n256_be N_BE; gx = n256_be GX_BE; gy = n256_be GY_BE;
          z = n256_be digest;
          z = (if cmp z n \<ge> 0 then subraw z n else z);
          nm2 = subraw n (n256_small 2);
          w = powm s nm2 n;
          u1 = mulm z w n;
          u2 = mulm r w n;
          a = scalar u1 gx gy p;
          b = scalar u2 qx qy p;
          sum = addj a b p
      in (case affine_x sum p of
            None \<Rightarrow> Err XT_ERR_VERIFY
          | Some x \<Rightarrow> if limbs_eq (reduce_loop n x) r then Ok () else Err XT_ERR_VERIFY))"

definition native_p256_ecdsa_sha256_verify :: "byte_span \<Rightarrow> byte_span \<Rightarrow> byte_span \<Rightarrow> unit res" where
  "native_p256_ecdsa_sha256_verify public_key message signature =
     (if span_size public_key \<noteq> 65 then Err XT_ERR_VERIFY
      else bind_res (rd public_key 0) (\<lambda>form.
        if form \<noteq> 0x04 then Err XT_ERR_VERIFY
        else bind_res (rd_bytes public_key 1 32) (\<lambda>qxb.
          bind_res (rd_bytes public_key 33 32) (\<lambda>qyb.
            let p = n256_be P_BE; n = n256_be N_BE; qx = n256_be qxb; qy = n256_be qyb in
            if cmp qx p \<ge> 0 \<or> cmp qy p \<ge> 0 then Err XT_ERR_VERIFY
            else if \<not> p256_on_curve_check qx qy then Err XT_ERR_VERIFY
            else bind_res (or_err (parse_sig signature) XT_ERR_VERIFY) (\<lambda>(r, s).
              if limbs_is_zero r \<or> limbs_is_zero s \<or> cmp r n \<ge> 0 \<or> cmp s n \<ge> 0
              then Err XT_ERR_VERIFY
              else bind_res (rd_bytes message 0 (span_size message)) (\<lambda>m.
                ecdsa_core qx qy r s (sha256 m)))))))"

section \<open>Inside the buffers\<close>

lemma sig_int_safe: "safe (sig_int (Span v)) (\<lambda>w. \<exists>bs. w = Span bs)"
  by (auto simp: sig_int_def)

lemma parse_sig_safe: "parse_sig der \<noteq> UB"
  unfolding safe_True_iff [symmetric] parse_sig_def
  by (intro ecdsa.safe_readI safe_guardI, elim ecdsa.reader_value)
    (auto intro!: safe_mono [OF sig_int_safe])

lemma ecdsa_core_safe: "ecdsa_core qx qy r s d \<noteq> UB"
  by (auto simp: ecdsa_core_def Let_def split: option.splits)

lemma native_p256_ecdsa_sha256_verify_safe:
  assumes "span_valid key" and "span_valid msg"
  shows "native_p256_ecdsa_sha256_verify key msg sig \<noteq> UB"
proof -
  have "safe (parse_sig sig) (\<lambda>_. True)" and "safe (ecdsa_core qx qy r s d) (\<lambda>_. True)" for qx qy r s d
    unfolding safe_True_iff by (rule parse_sig_safe ecdsa_core_safe)+
  with assms have "safe (native_p256_ecdsa_sha256_verify key msg sig) (\<lambda>_. True)"
    unfolding native_p256_ecdsa_sha256_verify_def Let_def
    by (intro safe_guardI safe_rdI safe_bindI) (auto simp: span_valid_def elim!: safe_mono)
  then show ?thesis by (rule safe_not_UB)
qed

lemma p256_public_from_private_safe:
  "length k = 32 \<Longrightarrow> safe (p256_public_from_private (Span k)) (\<lambda>_. True)"
  by (auto simp: p256_public_from_private_def Let_def split: option.splits)

lemma p256_shared_secret_safe:
  "length k = 32 \<Longrightarrow> length u = 65 \<Longrightarrow> safe (p256_shared_secret (Span k) (Span u)) (\<lambda>_. True)"
  by (auto simp: p256_shared_secret_def Let_def split: option.splits)

end
