(* ===== verification/X25519.thy ===== *)
theory X25519
  imports Prelude
begin

text \<open>
  The X25519 function of \<open>src/crypto/x25519.cpp\<close>. A field element is sixteen signed limbs of
  weight \<open>2^16\<close>, kept as integers; \<open>X25519Field\<close> relates every operation to the number that the limbs
  stand for and bounds the limbs, so that none of them leaves the range of a signed 64-bit integer.
\<close>

section \<open>Model: field elements\<close>

type_synonym gf = "int list"

definition gf0 :: gf where "gf0 = replicate 16 0"
definition gf1 :: gf where "gf1 = 1 # replicate 15 0"
definition c121665 :: gf where "c121665 = [0xDB41, 1] @ replicate 14 0"

text \<open>One step of the carry: limb \<open>i\<close> is brought below \<open>2^16\<close>, the rest goes to the next one.\<close>

definition car_step :: "nat \<Rightarrow> gf \<Rightarrow> gf" where
  "car_step i o1 =
     (let o2 = o1[i := o1 ! i + 65536];
          c = drop_bit 16 (o2 ! i);
          k = (if i < 15 then i + 1 else 0);
          o3 = o2[k := o2 ! k + (c - 1 + (if i = 15 then 37 * (c - 1) else 0))]
      in o3[i := o3 ! i - push_bit 16 c])"

definition car25519 :: "gf \<Rightarrow> gf" where
  "car25519 a = fold car_step [0..<16] a"

definition sel25519 :: "gf \<Rightarrow> gf \<Rightarrow> int \<Rightarrow> gf \<times> gf" where
  "sel25519 p q b =
     (let c = NOT (b - 1);
          t = map2 (\<lambda>x y. c AND (x XOR y)) p q
      in (map2 (XOR) p t, map2 (XOR) q t))"

text \<open>The middle limbs of \<open>t - (2^255 - 19)\<close>; each masks the one before it.\<close>

definition pack_sub_step :: "gf \<Rightarrow> nat \<Rightarrow> gf \<Rightarrow> gf" where
  "pack_sub_step t i m =
     (let m = m[i := t ! i - 0xffff - (drop_bit 16 (m ! (i - 1)) AND 1)]
      in m[i - 1 := m ! (i - 1) AND 0xffff])"

definition pack_round :: "gf \<Rightarrow> gf" where
  "pack_round t =
     (let m = fold (pack_sub_step t) [1..<15] ((replicate 16 0)[0 := t ! 0 - 0xffed]);
          m = m[15 := t ! 15 - 0x7fff - (drop_bit 16 (m ! 14) AND 1)];
          b = drop_bit 16 (m ! 15) AND 1;
          m = m[14 := m ! 14 AND 0xffff]
      in fst (sel25519 t m (1 - b)))"

definition pack25519 :: "gf \<Rightarrow> bytes" where
  "pack25519 n =
     (let t = car25519 (car25519 (car25519 n));
          t = pack_round (pack_round t)
      in concat (map (\<lambda>x. [word_of_int x, word_of_int (drop_bit 8 x)]) t))"

definition unpack25519 :: "bytes \<Rightarrow> gf" where
  "unpack25519 n =
     (let r = map (\<lambda>i. uint (n ! (2 * i)) + push_bit 8 (uint (n ! (2 * i + 1)))) [0..<16]
      in r[15 := r ! 15 AND 0x7fff])"

definition gf_add :: "gf \<Rightarrow> gf \<Rightarrow> gf" where
  "gf_add a b = map2 (+) a b"

definition gf_sub :: "gf \<Rightarrow> gf \<Rightarrow> gf" where
  "gf_sub a b = map2 (-) a b"

text \<open>The product: 31 columns, folded to 16 with \<open>2^256 = 38\<close>, and two carries.\<close>

definition mul_columns :: "gf \<Rightarrow> gf \<Rightarrow> int list" where
  "mul_columns a b =
     fold (\<lambda>i t. fold (\<lambda>j t. t[i + j := t ! (i + j) + a ! i * b ! j]) [0..<16] t) [0..<16]
       (replicate 31 0)"

definition fold_columns :: "int list \<Rightarrow> int list" where
  "fold_columns t = fold (\<lambda>i t. t[i := t ! i + 38 * t ! (i + 16)]) [0..<15] t"

definition gf_mul :: "gf \<Rightarrow> gf \<Rightarrow> gf" where
  "gf_mul a b = car25519 (car25519 (take 16 (fold_columns (mul_columns a b))))"

definition gf_sqr :: "gf \<Rightarrow> gf" where
  "gf_sqr a = gf_mul a a"

definition inv_step :: "gf \<Rightarrow> nat \<Rightarrow> gf \<Rightarrow> gf" where
  "inv_step i a c =
     (let c = gf_sqr c in if a \<noteq> 2 \<and> a \<noteq> 4 then gf_mul c i else c)"

definition inv25519 :: "gf \<Rightarrow> gf" where
  "inv25519 i = fold (inv_step i) (rev [0..<254]) i"

section \<open>Model: the ladder\<close>

definition clamp :: "bytes \<Rightarrow> bytes" where
  "clamp n =
     (let z = n[31 := ((n ! 31) AND 127) OR 64] in z[0 := z ! 0 AND 248])"

definition ladder_bit :: "bytes \<Rightarrow> nat \<Rightarrow> int" where
  "ladder_bit z i = uint (drop_bit (i mod 8) (z ! (i div 8)) AND 1)"

fun ladder_step :: "bytes \<Rightarrow> gf \<Rightarrow> nat \<Rightarrow> gf \<times> gf \<times> gf \<times> gf \<Rightarrow> gf \<times> gf \<times> gf \<times> gf" where
  "ladder_step z x i (a, b, c, d) =
     (let r = ladder_bit z i;
          (a, b) = sel25519 a b r;
          (c, d) = sel25519 c d r;
          e = gf_add a c;
          a = gf_sub a c;
          c = gf_add b d;
          b = gf_sub b d;
          d = gf_sqr e;
          f = gf_sqr a;
          a = gf_mul c a;
          c = gf_mul b e;
          e = gf_add a c;
          a = gf_sub a c;
          b = gf_sqr a;
          c = gf_sub d f;
          a = gf_mul c c121665;
          a = gf_add a d;
          c = gf_mul c a;
          a = gf_mul d f;
          d = gf_mul b x;
          b = gf_sqr e;
          (a, b) = sel25519 a b r;
          (c, d) = sel25519 c d r
      in (a, b, c, d))"

definition scalarmult :: "bytes \<Rightarrow> bytes \<Rightarrow> bytes" where
  "scalarmult n p =
     (let z = clamp n;
          x = unpack25519 p;
          (a, b, c, d) = fold (ladder_step z x) (rev [0..<255]) (gf1, x, gf0, gf1)
      in pack25519 (gf_mul a (inv25519 c)))"

definition all_zero :: "bytes \<Rightarrow> bool" where
  "all_zero p \<longleftrightarrow> fold (\<lambda>i v. v OR p ! i) [0..<32] (0 :: u8) = 0"

section \<open>Model: key agreement\<close>

definition x25519_public_from_private :: "byte_span \<Rightarrow> bytes res" where
  "x25519_public_from_private private_key =
     (if span_null private_key then Err XT_ERR_INVALID_ARGUMENT
      else bind_res (rd_bytes private_key 0 32) (\<lambda>k. Ok (scalarmult k (9 # replicate 31 0))))"

definition x25519_shared_secret :: "byte_span \<Rightarrow> byte_span \<Rightarrow> bytes res" where
  "x25519_shared_secret private_key peer_public_key =
     (if span_null private_key \<or> span_null peer_public_key then Err XT_ERR_INVALID_ARGUMENT
      else bind_res (rd_bytes private_key 0 32) (\<lambda>k.
        bind_res (rd_bytes peer_public_key 0 32) (\<lambda>u.
          let s = scalarmult k u in if all_zero s then Err XT_ERR_VERIFY else Ok s)))"

section \<open>Sizes\<close>

lemma length_car_step [simp]: "length (car_step i a) = length a"
  by (simp add: car_step_def Let_def)

lemma length_car25519 [simp]: "length (car25519 a) = length a"
  unfolding car25519_def by (rule fold_preserves [where P = "\<lambda>x. length x = length a"]) simp_all

lemma length_sel25519 [simp]:
  "length p = 16 \<Longrightarrow> length q = 16 \<Longrightarrow> length (fst (sel25519 p q b)) = 16"
  "length p = 16 \<Longrightarrow> length q = 16 \<Longrightarrow> length (snd (sel25519 p q b)) = 16"
  by (simp_all add: sel25519_def Let_def)

lemma length_pack_round [simp]: "length t = 16 \<Longrightarrow> length (pack_round t) = 16"
proof -
  have "length (fold (pack_sub_step t) is m) = length m" for "is" m
    by (rule fold_preserves [where P = "\<lambda>x. length x = length m"]) (simp_all add: pack_sub_step_def Let_def)
  then show "length t = 16 \<Longrightarrow> length (pack_round t) = 16"
    by (simp add: pack_round_def Let_def)
qed

lemma length_mul_columns [simp]: "length (mul_columns a b) = 31"
  unfolding mul_columns_def
  by (rule fold_preserves [where P = "\<lambda>x. length x = 31"]) (simp_all add: fold_preserves)

lemma length_fold_columns [simp]: "length (fold_columns t) = length t"
  unfolding fold_columns_def by (rule fold_preserves [where P = "\<lambda>x. length x = length t"]) simp_all

lemma length_gf_mul [simp]: "length (gf_mul a b) = 16"
  by (simp add: gf_mul_def)

lemma length_pack25519 [simp]: "length n = 16 \<Longrightarrow> length (pack25519 n) = 32"
  by (simp add: pack25519_def length_concat Let_def comp_def sum_list_triv)

lemma length_scalarmult [simp]: "length (scalarmult n p) = 32"
  by (simp add: scalarmult_def Let_def split: prod.splits)

lemma x25519_public_from_private_safe:
  "length k = 32 \<Longrightarrow> safe (x25519_public_from_private (Span k)) (\<lambda>pk. length pk = 32)"
  by (simp add: x25519_public_from_private_def)

lemma x25519_shared_secret_safe:
  "length k = 32 \<Longrightarrow> 32 \<le> length u \<Longrightarrow> safe (x25519_shared_secret (Span k) (Span u)) (\<lambda>_. True)"
  by (simp add: x25519_shared_secret_def Let_def)

end
