(* ===== verification/Connection.thy ===== *)
theory Connection
  imports Program Authentication RecordLayer ServerHello P256 X25519
begin

text \<open>
  The client of \<open>src/tls/connection.cpp\<close>: the object \<open>TlsClient\<close> as a record, and each of its
  member functions as a program on the object and the world. The allocator that a protected record
  needs is a parameter. The bytes of \<open>client_hello_\<close> and \<open>certificate_storage_\<close> beyond their
  length are never read and are left out.
\<close>

section \<open>Model: the object\<close>

datatype client_state =
    CLIENT_IDLE
  | CLIENT_HANDSHAKING
  | CLIENT_CONNECTED
  | CLIENT_CLOSED
  | CLIENT_FAILED

record 'w client_config =
  cc_platform :: "'w platform option"
  cc_stream :: "'w stream option"
  cc_verifier :: "'w auth_verifier option"
  cc_hostname :: cstring
  cc_alpn :: cstring
  cc_preferred_group :: u16
  cc_application_record_padding :: nat

definition client_config_init :: "'w client_config" where
  "client_config_init =
     \<lparr>cc_platform = None, cc_stream = None, cc_verifier = None, cc_hostname = None, cc_alpn = None,
      cc_preferred_group = group_x25519, cc_application_record_padding = 0\<rparr>"

record 'w client =
  c_state :: client_state
  c_config :: "'w client_config"
  c_transcript :: transcript
  c_schedule :: key_schedule
  c_client_hs_keys :: traffic_keys
  c_server_hs_keys :: traffic_keys
  c_client_app_keys :: traffic_keys
  c_server_app_keys :: traffic_keys
  c_private_key :: bytes
  c_public_key :: bytes
  c_client_hello :: bytes
  c_deframer :: deframer
  c_certificate_storage :: bytes
  c_negotiated_alpn :: bytes
  c_pending_app :: bytes
  c_pending_app_offset :: nat
  c_pending_app_length :: nat
  c_last_alert_level :: u8
  c_last_alert_description :: u8

definition tls_client_new :: "'w client" where
  "tls_client_new =
     \<lparr>c_state = CLIENT_IDLE, c_config = client_config_init, c_transcript = transcript_reset,
      c_schedule = key_schedule_zero,
      c_client_hs_keys = traffic_keys_zero, c_server_hs_keys = traffic_keys_zero,
      c_client_app_keys = traffic_keys_zero, c_server_app_keys = traffic_keys_zero,
      c_private_key = replicate 32 0, c_public_key = replicate 65 0, c_client_hello = [],
      c_deframer = deframer_new (Span (replicate 32768 0)), c_certificate_storage = [],
      c_negotiated_alpn = replicate 256 0, c_pending_app = replicate 16384 0,
      c_pending_app_offset = 0, c_pending_app_length = 0,
      c_last_alert_level = 0, c_last_alert_description = 0\<rparr>"

definition wipe_secrets :: "'w client \<Rightarrow> 'w client" where
  "wipe_secrets c =
     c\<lparr>c_private_key := replicate 32 0, c_public_key := replicate 65 0,
       c_schedule := key_schedule_zero,
       c_client_hs_keys := traffic_keys_zero, c_server_hs_keys := traffic_keys_zero,
       c_client_app_keys := traffic_keys_zero, c_server_app_keys := traffic_keys_zero\<rparr>"

section \<open>Model: programs on the object\<close>

type_synonym ('w, 'a) cli = "('w client \<times> 'w, 'a) prog"

definition client :: "('w, 'w client) cli" where
  "client s = Some (Ok (fst s), s)"

definition update :: "('w client \<Rightarrow> 'w client) \<Rightarrow> ('w, unit) cli" where
  "update f s = Some (Ok (), (f (fst s), snd s))"

definition outside :: "('w, 'a) action \<Rightarrow> ('w, 'a) cli" where
  "outside m s = (case m (snd s) of (r, w') \<Rightarrow> Some (r, (fst s, w')))"

text \<open>A call through \<open>config_.stream\<close>; a null pointer there is undefined.\<close>

definition with_stream :: "('w stream \<Rightarrow> ('w, 'a) cli) \<Rightarrow> ('w, 'a) cli" where
  "with_stream f =
     bind_prog client (\<lambda>c. case cc_stream (c_config c) of None \<Rightarrow> of_res UB | Some sm \<Rightarrow> f sm)"

definition close_stream :: "('w, unit) cli" where
  "close_stream s =
     (case cc_stream (c_config (fst s)) of
        None \<Rightarrow> Some (Ok (), s)
      | Some sm \<Rightarrow> Some (Ok (), (fst s, sm_close sm (snd s))))"

definition fail :: "('w, unit) cli" where
  "fail = then_prog (update (\<lambda>c. wipe_secrets (c\<lparr>c_state := CLIENT_FAILED\<rparr>))) close_stream"

text \<open>\<open>if (e != XT_OK) { fail(); return e; }\<close>\<close>

definition or_fail :: "('w, 'a) cli \<Rightarrow> ('w, 'a) cli" where
  "or_fail m = on_error m (\<lambda>e. then_prog fail (throw e))"

section \<open>Model: records\<close>

text \<open>
  One of the two reading loops: until \<open>need\<close> bytes are there. A stream that gives more bytes than
  it was asked for has written outside the buffer.
\<close>

function read_exact :: "'w stream \<Rightarrow> nat \<Rightarrow> bytes \<Rightarrow> ('w, bytes) action" where
  "read_exact sm need have_bytes w =
     (if length have_bytes < need then
        (case sm_recv_some sm (need - length have_bytes) w of
           (Err e, w') \<Rightarrow> (Err e, w')
         | (UB, w') \<Rightarrow> (UB, w')
         | (Ok bs, w') \<Rightarrow>
             if bs = [] then (Err XT_ERR_CLOSED, w')
             else if length bs > need - length have_bytes then (UB, w')
             else read_exact sm need (have_bytes @ bs) w')
      else (Ok have_bytes, w))"
  by pat_completeness auto
termination
  by (relation "measure (\<lambda>(sm, need, have_bytes, w). need - length have_bytes)")
    (auto simp: diff_less_mono2)

declare read_exact.simps [simp del]

definition read_record :: "nat \<Rightarrow> ('w, bytes) cli" where
  "read_record capacity =
     bind_prog client (\<lambda>c.
       case cc_stream (c_config c) of
         None \<Rightarrow> throw XT_ERR_INVALID_ARGUMENT
       | Some sm \<Rightarrow>
           if capacity < 5 then throw XT_ERR_INVALID_ARGUMENT
           else
             bind_prog (outside (read_exact sm 5 [])) (\<lambda>hdr.
             bind_prog (of_res (parse_record_header (Span hdr))) (\<lambda>h.
               let total = 5 + unat (rh_length h) in
               if unat (rh_length h) > 16640 \<or> total > capacity then throw XT_ERR_BAD_RECORD
               else outside (read_exact sm total hdr))))"

definition send_plain_record :: "u8 \<Rightarrow> bytes \<Rightarrow> ('w, unit) cli" where
  "send_plain_record type payload =
     bind_prog client (\<lambda>c.
       case cc_stream (c_config c) of
         None \<Rightarrow> throw XT_ERR_INVALID_ARGUMENT
       | Some sm \<Rightarrow>
           if length payload > 16384 then throw XT_ERR_INVALID_ARGUMENT
           else
             let hdr = [type, 3, 3] @ store_be16 (of_nat (length payload)) in
             bind_prog (outside (sm_send_all sm hdr)) (\<lambda>_.
               if length payload \<noteq> 0 then outside (sm_send_all sm payload) else ret ()))"

definition send_protected :: "(nat \<Rightarrow> bool) \<Rightarrow> u8 \<Rightarrow> bytes \<Rightarrow> ('w, unit) cli" where
  "send_protected alloc inner_type payload =
     bind_prog client (\<lambda>c.
       let out = Span (replicate 16645 0) in
       bind_prog
         (if c_state c = CLIENT_CONNECTED then
            (let (r, keys') = protect_record_aes128_gcm alloc (c_client_app_keys c) inner_type
                                (Span payload) 0 out
             in then_prog (update (\<lambda>c. c\<lparr>c_client_app_keys := keys'\<rparr>)) (of_res r))
          else
            (let (r, keys') = protect_record_aes128_gcm alloc (c_client_hs_keys c) inner_type
                                (Span payload) 0 out
             in then_prog (update (\<lambda>c. c\<lparr>c_client_hs_keys := keys'\<rparr>)) (of_res r)))
         (\<lambda>rec. with_stream (\<lambda>sm. outside (sm_send_all sm rec))))"

section \<open>Model: handshake messages\<close>

definition alert_close_notify :: u8 where "alert_close_notify = 0"

text \<open>The value is the error the function returns; it never returns \<open>XT_OK\<close>.\<close>

definition handle_alert :: "byte_span \<Rightarrow> ('w, error) cli" where
  "handle_alert payload =
     (if span_null payload \<or> span_size payload \<noteq> 2 then ret XT_ERR_BAD_RECORD
      else
        let b = span_bytes payload in
        then_prog (update (\<lambda>c. c\<lparr>c_last_alert_level := b ! 0, c_last_alert_description := b ! 1\<rparr>))
          (ret (if b ! 1 = alert_close_notify then XT_ERR_CLOSED else XT_ERR_VERIFY)))"

definition transcript_add :: "byte_span \<Rightarrow> ('w, unit) cli" where
  "transcript_add b = update (\<lambda>c. c\<lparr>c_transcript := transcript_update (c_transcript c) b\<rparr>)"

text \<open>The out-parameters of \<open>handle_handshake_message\<close>.\<close>

record flight =
  fl_got_finished :: bool
  fl_cert_info :: certificate_info
  fl_have_cert :: bool

definition flight_init :: flight where
  "flight_init =
     \<lparr>fl_got_finished = False,
      fl_cert_info = \<lparr>ci_request_context = NullSpan 0, ci_certificate_list = NullSpan 0\<rparr>,
      fl_have_cert = False\<rparr>"

definition handle_encrypted_extensions :: "handshake_message \<Rightarrow> flight \<Rightarrow> ('w, flight) cli" where
  "handle_encrypted_extensions msg fl =
     bind_prog (of_res (parse_encrypted_extensions msg)) (\<lambda>ee.
     bind_prog client (\<lambda>c.
     then_prog
       (if ee_has_alpn ee then
          if span_size (ee_alpn ee) \<ge> length (c_negotiated_alpn c) then throw XT_ERR_BAD_HANDSHAKE
          else bind_prog (of_res (rd_bytes (ee_alpn ee) 0 (span_size (ee_alpn ee)))) (\<lambda>bs.
            update (\<lambda>c. c\<lparr>c_negotiated_alpn := write_at (c_negotiated_alpn c) 0 (bs @ [0])\<rparr>))
        else ret ())
       (then_prog (transcript_add (hm_encoded msg)) (ret fl))))"

definition handle_certificate :: "handshake_message \<Rightarrow> flight \<Rightarrow> ('w, flight) cli" where
  "handle_certificate msg fl =
     (if span_size (hm_encoded msg) > 24576 then throw XT_ERR_BUFFER_TOO_SMALL
      else
        bind_prog (of_res (rd_bytes (hm_encoded msg) 0 (span_size (hm_encoded msg)))) (\<lambda>bs.
        then_prog (update (\<lambda>c. c\<lparr>c_certificate_storage := bs\<rparr>))
        (bind_prog (of_res (parse_handshake_message (Span bs))) (\<lambda>(saved, used).
         bind_prog (of_res (parse_certificate saved)) (\<lambda>info.
         then_prog (transcript_add (hm_encoded msg))
           (ret (fl\<lparr>fl_cert_info := info, fl_have_cert := True\<rparr>)))))))"

definition handle_certificate_verify :: "handshake_message \<Rightarrow> flight \<Rightarrow> ('w, flight) cli" where
  "handle_certificate_verify msg fl =
     (if \<not> fl_have_cert fl then throw XT_ERR_BAD_HANDSHAKE
      else
        bind_prog (of_res (parse_certificate_verify msg)) (\<lambda>cv.
        bind_prog client (\<lambda>c.
        bind_prog (outside (authenticate_server_flight (fl_cert_info fl) cv
                     (Span (transcript_snapshot (c_transcript c)))
                     (cc_hostname (c_config c)) (cc_verifier (c_config c)))) (\<lambda>_.
        then_prog (transcript_add (hm_encoded msg)) (ret fl)))))"

definition handle_finished :: "handshake_message \<Rightarrow> flight \<Rightarrow> ('w, flight) cli" where
  "handle_finished msg fl =
     bind_prog client (\<lambda>c.
     bind_prog (of_res (verify_finished_sha256 (Span (server_handshake_traffic_secret (c_schedule c)))
                  (Span (transcript_snapshot (c_transcript c))) msg)) (\<lambda>_.
     then_prog (transcript_add (hm_encoded msg)) (ret (fl\<lparr>fl_got_finished := True\<rparr>))))"

definition handle_handshake_message :: "handshake_message \<Rightarrow> flight \<Rightarrow> ('w, flight) cli" where
  "handle_handshake_message msg fl =
     (if hm_type msg = hs_encrypted_extensions then handle_encrypted_extensions msg fl
      else if hm_type msg = hs_certificate then handle_certificate msg fl
      else if hm_type msg = hs_certificate_verify then handle_certificate_verify msg fl
      else if hm_type msg = hs_finished then handle_finished msg fl
      else throw XT_ERR_UNSUPPORTED)"

text \<open>\<open>deframer_.append(bytes)\<close> and \<open>deframer_.consume()\<close> on the object.\<close>

definition deframe_append :: "byte_span \<Rightarrow> ('w, unit) cli" where
  "deframe_append bs =
     bind_prog client (\<lambda>c.
       let (e, d) = deframer_append (c_deframer c) bs
       in then_prog (update (\<lambda>c. c\<lparr>c_deframer := d\<rparr>)) (check_error e))"

definition deframe_consume :: "('w, unit) cli" where
  "deframe_consume =
     bind_prog client (\<lambda>c.
       let (r, d) = deframer_consume (c_deframer c)
       in then_prog (update (\<lambda>c. c\<lparr>c_deframer := d\<rparr>)) (of_res r))"

text \<open>
  The inner loop over the messages that are complete. The value of the loop is the flight after
  the last message, which is Finished when \<open>fl_got_finished\<close> is set.
\<close>

definition flight_messages_body :: "flight \<Rightarrow> ('w, flight + flight) cli" where
  "flight_messages_body fl =
     bind_prog client (\<lambda>c.
       case deframer_peek (c_deframer c) of
         UB \<Rightarrow> of_res UB
       | Err e \<Rightarrow> if e = XT_ERR_BUFFER_TOO_SMALL then ret (Inr fl) else throw e
       | Ok msg \<Rightarrow>
           bind_prog (handle_handshake_message msg fl) (\<lambda>fl'.
           then_prog deframe_consume
             (ret (if fl_got_finished fl' then Inr fl' else Inl fl'))))"

definition flight_messages :: "flight \<Rightarrow> ('w, flight) cli" where
  "flight_messages = loop_prog flight_messages_body"

text \<open>Removing the protection of a record under the keys that \<open>sel\<close> names.\<close>

definition open_record ::
    "('w client \<Rightarrow> traffic_keys) \<Rightarrow> (traffic_keys \<Rightarrow> 'w client \<Rightarrow> 'w client) \<Rightarrow> bytes
      \<Rightarrow> ('w, u8 \<times> bytes) cli" where
  "open_record sel upd rec =
     bind_prog client (\<lambda>c.
       let (r, keys') = unprotect_record_aes128_gcm (sel c) (Span rec) (Span (replicate 16640 0))
       in then_prog (update (upd keys')) (of_res r))"

definition flight_record :: "flight \<Rightarrow> bytes \<Rightarrow> ('w, flight + flight) cli" where
  "flight_record fl rec =
     bind_prog (of_res (parse_record_header (Span rec))) (\<lambda>rh.
       if rh_type rh = content_change_cipher_spec then ret (Inl fl)
       else if rh_type rh = content_alert then
         bind_prog (of_res (subspan (Span rec) 5 (unat (rh_length rh)))) (\<lambda>p.
         bind_prog (handle_alert p) throw)
       else if rh_type rh \<noteq> content_application_data then throw XT_ERR_BAD_RECORD
       else
         bind_prog (open_record c_server_hs_keys (\<lambda>k c. c\<lparr>c_server_hs_keys := k\<rparr>) rec) (\<lambda>(inner, plain).
           if inner = content_alert then bind_prog (handle_alert (Span plain)) throw
           else if inner \<noteq> content_handshake then throw XT_ERR_BAD_HANDSHAKE
           else
             then_prog (deframe_append (Span plain))
             (bind_prog (flight_messages fl) (\<lambda>fl'.
                ret (if fl_got_finished fl' then Inr fl' else Inl fl')))))"

definition flight_body :: "flight \<Rightarrow> ('w, flight + flight) cli" where
  "flight_body fl = bind_prog (read_record 16645) (flight_record fl)"

text \<open>\<open>derive_traffic_keys_sha256\<close> into a field of the object.\<close>

definition set_traffic_keys ::
    "('w client \<Rightarrow> bytes) \<Rightarrow> ('w client \<Rightarrow> traffic_keys) \<Rightarrow> (traffic_keys \<Rightarrow> 'w client \<Rightarrow> 'w client)
      \<Rightarrow> ('w, unit) cli" where
  "set_traffic_keys secret sel upd =
     bind_prog client (\<lambda>c.
       let (e, k) = derive_traffic_keys_sha256 (Span (secret c)) (sel c)
       in then_prog (update (upd k)) (check_error e))"

text \<open>Everything after the server's Finished.\<close>

definition finish_handshake :: "(nat \<Rightarrow> bool) \<Rightarrow> ('w, unit) cli" where
  "finish_handshake alloc =
     bind_prog client (\<lambda>c.
     let (e, ks) = derive_master_secret (c_schedule c) (transcript_snapshot (c_transcript c)) in
     then_prog (update (\<lambda>c. c\<lparr>c_schedule := ks\<rparr>))
     (then_prog (check_error e)
     (then_prog (set_traffic_keys (\<lambda>c. client_application_traffic_secret (c_schedule c))
        c_client_app_keys (\<lambda>k c. c\<lparr>c_client_app_keys := k\<rparr>))
     (then_prog (set_traffic_keys (\<lambda>c. server_application_traffic_secret (c_schedule c))
        c_server_app_keys (\<lambda>k c. c\<lparr>c_server_app_keys := k\<rparr>))
     (bind_prog client (\<lambda>c.
      bind_prog (of_res (build_finished_sha256 (Span (client_handshake_traffic_secret (c_schedule c)))
        (Span (transcript_snapshot (c_transcript c))) (Span (replicate 64 0)))) (\<lambda>fin.
      then_prog (send_protected alloc content_handshake fin)
        (transcript_add (Span fin)))))))))"

definition process_server_handshake :: "(nat \<Rightarrow> bool) \<Rightarrow> ('w, unit) cli" where
  "process_server_handshake alloc =
     then_prog (loop_prog flight_body flight_init) (finish_handshake alloc)"

section \<open>Model: connecting\<close>

text \<open>
  The ephemeral key. For P-256 at most sixteen attempts are made; \<open>e\<close> is the error of the last
  one. A failing source of random bytes gives its own error before the first ClientHello, and
  \<open>XT_ERR_CRYPTO\<close> after a HelloRetryRequest.
\<close>

definition random_private_key :: "'w platform \<Rightarrow> bool \<Rightarrow> ('w, unit) cli" where
  "random_private_key pf retry =
     bind_prog
       (if retry then on_error (outside (pf_random_bytes pf 32)) (\<lambda>_. throw XT_ERR_CRYPTO)
        else outside (pf_random_bytes pf 32))
       (\<lambda>k. update (\<lambda>c. c\<lparr>c_private_key := k\<rparr>))"

primrec p256_keygen :: "'w platform \<Rightarrow> bool \<Rightarrow> nat \<Rightarrow> error \<Rightarrow> ('w, unit) cli" where
  "p256_keygen pf retry 0 e = throw e"
| "p256_keygen pf retry (Suc attempts) e =
     then_prog (random_private_key pf retry)
     (bind_prog client (\<lambda>c.
        case p256_public_from_private (Span (c_private_key c)) of
          Ok pk \<Rightarrow> update (\<lambda>c. c\<lparr>c_public_key := pk\<rparr>)
        | Err e' \<Rightarrow> p256_keygen pf retry attempts e'
        | UB \<Rightarrow> of_res UB))"

definition x25519_clamp_key :: "bytes \<Rightarrow> bytes" where
  "x25519_clamp_key k =
     (let k = k[0 := k ! 0 AND 248]; k = k[31 := k ! 31 AND 127] in k[31 := k ! 31 OR 64])"

definition x25519_keygen :: "'w platform \<Rightarrow> bool \<Rightarrow> ('w, unit) cli" where
  "x25519_keygen pf retry =
     then_prog (random_private_key pf retry)
     (then_prog (update (\<lambda>c. c\<lparr>c_private_key := x25519_clamp_key (c_private_key c)\<rparr>))
     (bind_prog client (\<lambda>c.
      bind_prog (of_res (x25519_public_from_private (Span (c_private_key c)))) (\<lambda>pk.
        update (\<lambda>c. c\<lparr>c_public_key := write_at (c_public_key c) 0 pk\<rparr>)))))"

definition generate_key :: "'w platform \<Rightarrow> bool \<Rightarrow> u16 \<Rightarrow> ('w, unit) cli" where
  "generate_key pf retry grp =
     (if grp = group_secp256r1 then p256_keygen pf retry 16 XT_ERR_VERIFY
      else if grp = group_x25519 then x25519_keygen pf retry
      else throw XT_ERR_UNSUPPORTED)"

definition public_length :: "u16 \<Rightarrow> nat" where
  "public_length grp = (if grp = group_secp256r1 then 65 else 32)"

text \<open>\<open>build_client_hello\<close> into the buffer of the object, the transcript, and the record.\<close>

definition send_client_hello :: "client_hello_params \<Rightarrow> ('w, unit) cli" where
  "send_client_hello p =
     bind_prog (of_res (build_client_hello p (Span (replicate 2048 0)))) (\<lambda>ch.
     then_prog (update (\<lambda>c. c\<lparr>c_client_hello := ch\<rparr>))
     (then_prog (transcript_add (Span ch))
        (send_plain_record content_handshake ch)))"

text \<open>RFC 8446, 4.4.1: the first ClientHello is replaced by its hash.\<close>

definition retry_transcript :: "byte_span \<Rightarrow> ('w, unit) cli" where
  "retry_transcript hrr =
     bind_prog client (\<lambda>c.
       let message_hash = [0xfe, 0, 0, 32] @ transcript_snapshot (c_transcript c)
       in then_prog (update (\<lambda>c. c\<lparr>c_transcript :=
                       transcript_update transcript_reset (Span message_hash)\<rparr>))
            (transcript_add hrr))"

text \<open>A message of this flight must be the last thing in the buffer.\<close>

definition consume_last :: "('w, unit) cli" where
  "consume_last =
     then_prog (on_error deframe_consume (\<lambda>_. throw XT_ERR_BAD_HANDSHAKE))
     (bind_prog client (\<lambda>c.
        if deframer_buffered (c_deframer c) \<noteq> 0 then throw XT_ERR_BAD_HANDSHAKE else ret ()))"

record hello_state =
  hl_had_hrr :: bool
  hl_active_group :: u16
  hl_params :: client_hello_params

definition hello_record :: "hello_state \<Rightarrow> bytes \<Rightarrow> ('w, hello_state) cli" where
  "hello_record hl rec =
     bind_prog (of_res (parse_record_header (Span rec))) (\<lambda>rh.
       if rh_type rh = content_change_cipher_spec then
         if unat (rh_length rh) \<noteq> 1 then throw XT_ERR_BAD_RECORD
         else bind_prog (of_res (rd (Span rec) 5)) (\<lambda>b.
           if b \<noteq> 1 then throw XT_ERR_BAD_RECORD else ret hl)
       else bind_prog (of_res (subspan (Span rec) 5 (unat (rh_length rh)))) (\<lambda>payload.
         if rh_type rh = content_alert then bind_prog (handle_alert payload) throw
         else if rh_type rh \<noteq> content_handshake then throw XT_ERR_BAD_HANDSHAKE
         else then_prog (deframe_append payload) (ret hl)))"

definition hello_retry ::
    "'w platform \<Rightarrow> hello_state \<Rightarrow> handshake_message \<Rightarrow> server_hello_info \<Rightarrow> ('w, hello_state) cli" where
  "hello_retry pf hl hm sh =
     (if hl_had_hrr hl \<or> sh_group sh = hl_active_group hl then throw XT_ERR_BAD_HANDSHAKE
      else
        then_prog (retry_transcript (hm_encoded hm))
        (then_prog consume_last
        (then_prog (generate_key pf True (sh_group sh))
        (bind_prog client (\<lambda>c.
           let p = (hl_params hl)\<lparr>chp_group := sh_group sh,
                     chp_key_share := Span (take (public_length (sh_group sh)) (c_public_key c)),
                     chp_cookie := Span (take (sh_cookie_length sh) (sh_cookie sh))\<rparr>
           in then_prog (send_client_hello p)
                (ret \<lparr>hl_had_hrr = True, hl_active_group = sh_group sh, hl_params = p\<rparr>))))))"

text \<open>One round of the loop that waits for ServerHello.\<close>

definition hello_body ::
    "'w platform \<Rightarrow> bytes \<Rightarrow> hello_state \<Rightarrow> ('w, hello_state + server_hello_info \<times> u16) cli" where
  "hello_body pf sid hl =
     bind_prog client (\<lambda>c.
       case deframer_peek (c_deframer c) of
         UB \<Rightarrow> of_res UB
       | Err e \<Rightarrow>
           if e = XT_ERR_BUFFER_TOO_SMALL then
             bind_prog (read_record 16645) (\<lambda>rec.
             bind_prog (hello_record hl rec) (\<lambda>hl'. ret (Inl hl')))
           else throw XT_ERR_BAD_HANDSHAKE
       | Ok hm \<Rightarrow>
           if hm_type hm \<noteq> hs_server_hello then throw XT_ERR_BAD_HANDSHAKE
           else
             bind_prog (of_res (parse_server_hello (hm_encoded hm))) (\<lambda>sh.
               if sh_session_id_length sh \<noteq> 32 \<or> sh_session_id sh \<noteq> sid
               then throw XT_ERR_BAD_HANDSHAKE
               else if sh_hello_retry_request sh then
                 bind_prog (hello_retry pf hl hm sh) (\<lambda>hl'. ret (Inl hl'))
               else
                 then_prog (transcript_add (hm_encoded hm))
                 (then_prog consume_last (ret (Inr (sh, hl_active_group hl))))))"

definition shared_secret :: "bytes \<Rightarrow> server_hello_info \<Rightarrow> bytes res" where
  "shared_secret private_key sh =
     (if sh_group sh = group_x25519 \<and> sh_key_share_length sh = 32
      then x25519_shared_secret (Span private_key) (Span (sh_key_share sh))
      else if sh_group sh = group_secp256r1 \<and> sh_key_share_length sh = 65
      then p256_shared_secret (Span private_key) (Span (sh_key_share sh))
      else Err XT_ERR_UNSUPPORTED)"

text \<open>The secrets and keys of the handshake; the pre-shared key is the empty string.\<close>

definition handshake_keys :: "server_hello_info \<Rightarrow> u16 \<Rightarrow> ('w, unit) cli" where
  "handshake_keys sh active_group =
     then_prog (update (\<lambda>c. c\<lparr>c_deframer := deframer_reset (c_deframer c)\<rparr>))
     (if sh_group sh \<noteq> active_group then throw XT_ERR_BAD_HANDSHAKE
      else
        bind_prog client (\<lambda>c.
        bind_prog (of_res (shared_secret (c_private_key c) sh)) (\<lambda>shared.
          let (e, ks) = derive_early_secret (c_schedule c) [] in
          then_prog (update (\<lambda>c. c\<lparr>c_schedule := ks\<rparr>))
          (then_prog (check_error e)
          (let (e, ks) = derive_handshake_secret ks shared (transcript_snapshot (c_transcript c)) in
           then_prog (update (\<lambda>c. c\<lparr>c_schedule := ks\<rparr>))
           (then_prog (check_error e)
           (then_prog (set_traffic_keys (\<lambda>c. client_handshake_traffic_secret (c_schedule c))
              c_client_hs_keys (\<lambda>k c. c\<lparr>c_client_hs_keys := k\<rparr>))
           (set_traffic_keys (\<lambda>c. server_handshake_traffic_secret (c_schedule c))
              c_server_hs_keys (\<lambda>k c. c\<lparr>c_server_hs_keys := k\<rparr>)))))))))"

definition connect_start :: "'w client_config \<Rightarrow> 'w client \<Rightarrow> 'w client" where
  "connect_start cfg c =
     c\<lparr>c_config := cfg, c_state := CLIENT_HANDSHAKING, c_transcript := transcript_reset,
       c_deframer := deframer_reset (c_deframer c), c_certificate_storage := [],
       c_negotiated_alpn := (c_negotiated_alpn c)[0 := 0],
       c_pending_app_offset := 0, c_pending_app_length := 0,
       c_last_alert_level := 0, c_last_alert_description := 0\<rparr>"

definition first_client_hello ::
    "'w client_config \<Rightarrow> 'w platform \<Rightarrow> ('w, bytes \<times> client_hello_params) cli" where
  "first_client_hello cfg pf =
     bind_prog (outside (pf_random_bytes pf 32)) (\<lambda>random.
     bind_prog (outside (pf_random_bytes pf 32)) (\<lambda>sid.
     then_prog (generate_key pf False (cc_preferred_group cfg))
     (bind_prog client (\<lambda>c.
        let p = client_hello_params_init\<lparr>chp_random32 := Span random, chp_session_id := Span sid,
                  chp_key_share := Span (take (public_length (cc_preferred_group cfg)) (c_public_key c)),
                  chp_group := cc_preferred_group cfg,
                  chp_server_name := cc_hostname cfg, chp_alpn := cc_alpn cfg\<rparr>
        in then_prog (send_client_hello p) (ret (sid, p))))))"

text \<open>
  Everything after the arguments are accepted. Each error below is returned after \<open>fail()\<close>, which
  \<open>connect\<close> does in one place.
\<close>

definition connect_body :: "(nat \<Rightarrow> bool) \<Rightarrow> 'w client_config \<Rightarrow> 'w platform \<Rightarrow> ('w, unit) cli" where
  "connect_body alloc cfg pf =
     bind_prog (first_client_hello cfg pf) (\<lambda>(sid, p).
     then_prog (update (\<lambda>c. c\<lparr>c_deframer := deframer_reset (c_deframer c)\<rparr>))
     (bind_prog (loop_prog (hello_body pf sid)
        \<lparr>hl_had_hrr = False, hl_active_group = cc_preferred_group cfg, hl_params = p\<rparr>) (\<lambda>(sh, grp).
      then_prog (handshake_keys sh grp)
      (then_prog (process_server_handshake alloc)
        (update (\<lambda>c. c\<lparr>c_state := CLIENT_CONNECTED\<rparr>))))))"

definition connect :: "(nat \<Rightarrow> bool) \<Rightarrow> 'w client_config \<Rightarrow> ('w, unit) cli" where
  "connect alloc cfg =
     bind_prog client (\<lambda>c.
       case cc_platform cfg of
         None \<Rightarrow> throw XT_ERR_INVALID_ARGUMENT
       | Some pf \<Rightarrow>
           if c_state c \<noteq> CLIENT_IDLE \<or> cc_stream cfg = None \<or> cc_verifier cfg = None
              \<or> cc_hostname cfg = None \<or> cc_hostname cfg = Some []
           then throw XT_ERR_INVALID_ARGUMENT
           else then_prog (update (connect_start cfg)) (or_fail (connect_body alloc cfg pf)))"

section \<open>Model: after the handshake\<close>

text \<open>\<open>update_traffic_secret_sha256\<close> on a secret of the schedule and its keys.\<close>

definition update_server_traffic :: "('w, unit) cli" where
  "update_server_traffic =
     bind_prog client (\<lambda>c.
       let (e, sec, k) = update_traffic_secret_sha256
             (server_application_traffic_secret (c_schedule c)) (c_server_app_keys c)
       in then_prog (update (\<lambda>c. c\<lparr>c_schedule :=
                 (c_schedule c)\<lparr>server_application_traffic_secret := sec\<rparr>, c_server_app_keys := k\<rparr>))
            (check_error e))"

definition update_client_traffic :: "('w, unit) cli" where
  "update_client_traffic =
     bind_prog client (\<lambda>c.
       let (e, sec, k) = update_traffic_secret_sha256
             (client_application_traffic_secret (c_schedule c)) (c_client_app_keys c)
       in then_prog (update (\<lambda>c. c\<lparr>c_schedule :=
                 (c_schedule c)\<lparr>client_application_traffic_secret := sec\<rparr>, c_client_app_keys := k\<rparr>))
            (check_error e))"

definition post_handshake_message :: "(nat \<Rightarrow> bool) \<Rightarrow> handshake_message \<Rightarrow> ('w, unit) cli" where
  "post_handshake_message alloc msg =
     (if hm_type msg = hs_new_session_ticket then ret ()
      else if hm_type msg = hs_key_update then
        if span_size (hm_body msg) \<noteq> 1 then throw XT_ERR_BAD_HANDSHAKE
        else bind_prog (of_res (rd (hm_body msg) 0)) (\<lambda>b.
          if b > 1 then throw XT_ERR_BAD_HANDSHAKE
          else
            then_prog update_server_traffic
              (if b = 1 then
                 then_prog (send_protected alloc content_handshake [hs_key_update, 0, 0, 1, 0])
                   update_client_traffic
               else ret ()))
      else throw XT_ERR_UNSUPPORTED)"

definition post_handshake_body :: "(nat \<Rightarrow> bool) \<Rightarrow> unit \<Rightarrow> ('w, unit + unit) cli" where
  "post_handshake_body alloc u =
     bind_prog client (\<lambda>c.
       case deframer_peek (c_deframer c) of
         UB \<Rightarrow> of_res UB
       | Err e \<Rightarrow> if e = XT_ERR_BUFFER_TOO_SMALL then ret (Inr ()) else throw e
       | Ok msg \<Rightarrow>
           then_prog (post_handshake_message alloc msg)
           (then_prog deframe_consume (ret (Inl ()))))"

definition process_post_handshake :: "(nat \<Rightarrow> bool) \<Rightarrow> bytes \<Rightarrow> ('w, unit) cli" where
  "process_post_handshake alloc bs =
     then_prog (deframe_append (Span bs)) (loop_prog (post_handshake_body alloc) ())"

definition key_update :: "(nat \<Rightarrow> bool) \<Rightarrow> bool \<Rightarrow> ('w, unit) cli" where
  "key_update alloc request_peer_update =
     bind_prog client (\<lambda>c.
       if c_state c \<noteq> CLIENT_CONNECTED then throw XT_ERR_CLOSED
       else
         then_prog (or_fail (send_protected alloc content_handshake
             [hs_key_update, 0, 0, 1, if request_peer_update then 1 else 0]))
           (or_fail update_client_traffic))"

text \<open>One record of application data.\<close>

definition send_chunk :: "(nat \<Rightarrow> bool) \<Rightarrow> nat \<Rightarrow> byte_span \<Rightarrow> ('w, unit) cli" where
  "send_chunk alloc padding chunk =
     bind_prog client (\<lambda>c.
       let (r, keys') = protect_record_aes128_gcm alloc (c_client_app_keys c) content_application_data
             chunk padding (Span (replicate 16645 0))
       in then_prog (update (\<lambda>c. c\<lparr>c_client_app_keys := keys'\<rparr>))
          (bind_prog (of_res r) (\<lambda>rec. with_stream (\<lambda>sm. outside (sm_send_all sm rec)))))"

text \<open>
  \<open>max_content\<close> is at least 16368, so that the loop advances; the model stops where it would not.
\<close>

function send_loop :: "(nat \<Rightarrow> bool) \<Rightarrow> nat \<Rightarrow> nat \<Rightarrow> byte_span \<Rightarrow> nat \<Rightarrow> ('w, unit) cli" where
  "send_loop alloc padding max_content data off =
     (if off < span_size data \<and> 0 < max_content then
        let n = (if span_size data - off > max_content then max_content else span_size data - off) in
        then_prog
          (bind_prog (of_res (subspan data off n)) (\<lambda>chunk. or_fail (send_chunk alloc padding chunk)))
          (send_loop alloc padding max_content data (off + n))
      else ret ())"
  by pat_completeness auto
termination
  by (relation "measure (\<lambda>(alloc, padding, max_content, data, off). span_size data - off)") auto

declare send_loop.simps [simp del]

definition send :: "(nat \<Rightarrow> bool) \<Rightarrow> byte_span \<Rightarrow> ('w, unit) cli" where
  "send alloc data =
     bind_prog client (\<lambda>c.
       if c_state c \<noteq> CLIENT_CONNECTED then throw XT_ERR_CLOSED
       else if span_size data \<noteq> 0 \<and> span_null data then throw XT_ERR_INVALID_ARGUMENT
       else
         let padding = cc_application_record_padding (c_config c);
             padding = (if padding > 255 then 255 else padding);
             max_content = 16623 - padding
         in send_loop alloc padding max_content data 0)"

text \<open>
  \<open>recv\<close> gives the bytes it writes to the caller's buffer of \<open>cap\<close> bytes. What does not fit goes
  to \<open>pending_app_\<close>, whose size it must not exceed.
\<close>

definition recv_pending :: "nat \<Rightarrow> ('w, bytes) cli" where
  "recv_pending cap =
     bind_prog client (\<lambda>c.
       let n = (if c_pending_app_length c > cap then cap else c_pending_app_length c) in
       bind_prog (of_res (rd_bytes (Span (c_pending_app c)) (c_pending_app_offset c) n)) (\<lambda>bs.
       then_prog (update (\<lambda>c. c\<lparr>
           c_pending_app_offset := (if c_pending_app_length c - n = 0 then 0
                                    else c_pending_app_offset c + n),
           c_pending_app_length := c_pending_app_length c - n\<rparr>))
         (ret bs)))"

definition recv_data :: "nat \<Rightarrow> bytes \<Rightarrow> ('w, bytes) cli" where
  "recv_data cap plain =
     (let n = (if length plain > cap then cap else length plain) in
      if n < length plain then
        bind_prog client (\<lambda>c.
          if length plain - n > length (c_pending_app c) then of_res UB
          else then_prog (update (\<lambda>c. c\<lparr>
                  c_pending_app := write_at (c_pending_app c) 0 (drop n plain),
                  c_pending_app_offset := 0, c_pending_app_length := length plain - n\<rparr>))
                (ret (take n plain)))
      else ret (take n plain))"

definition closed_by_peer :: "('w, unit) cli" where
  "closed_by_peer =
     then_prog (update (\<lambda>c. c\<lparr>c_state := CLIENT_CLOSED\<rparr>))
     (then_prog (with_stream (\<lambda>sm. close_stream)) (update wipe_secrets))"

definition recv_body :: "(nat \<Rightarrow> bool) \<Rightarrow> nat \<Rightarrow> unit \<Rightarrow> ('w, unit + bytes) cli" where
  "recv_body alloc cap u =
     bind_prog (or_fail (read_record 16645)) (\<lambda>rec.
     bind_prog (or_fail (of_res (parse_record_header (Span rec)))) (\<lambda>rh.
       if rh_type rh = content_change_cipher_spec then ret (Inl ())
       else if rh_type rh \<noteq> content_application_data then or_fail (throw XT_ERR_BAD_RECORD)
       else
         bind_prog (or_fail (open_record c_server_app_keys (\<lambda>k c. c\<lparr>c_server_app_keys := k\<rparr>) rec))
           (\<lambda>(inner, plain).
             if inner = content_application_data then
               bind_prog (recv_data cap plain) (\<lambda>bs. ret (Inr bs))
             else if inner = content_alert then
               bind_prog (handle_alert (Span plain)) (\<lambda>ae.
                 if ae = XT_ERR_CLOSED then then_prog closed_by_peer (throw XT_ERR_CLOSED)
                 else or_fail (throw ae))
             else if inner = content_handshake then
               then_prog (or_fail (process_post_handshake alloc plain)) (ret (Inl ()))
             else or_fail (throw XT_ERR_BAD_RECORD))))"

definition recv :: "(nat \<Rightarrow> bool) \<Rightarrow> byte_span \<Rightarrow> ('w, bytes) cli" where
  "recv alloc out =
     (if span_null out \<and> span_size out \<noteq> 0 then throw XT_ERR_INVALID_ARGUMENT
      else
        bind_prog client (\<lambda>c.
          if c_state c \<noteq> CLIENT_CONNECTED then throw XT_ERR_CLOSED
          else if c_pending_app_length c \<noteq> 0 then recv_pending (span_size out)
          else loop_prog (recv_body alloc (span_size out)) ()))"

definition reset :: "('w, unit) cli" where
  "reset =
     bind_prog client (\<lambda>c.
       if c_state c = CLIENT_HANDSHAKING then throw XT_ERR_INVALID_ARGUMENT
       else
         then_prog close_stream
         (update (\<lambda>c. (wipe_secrets c)\<lparr>
            c_config := client_config_init, c_transcript := transcript_reset,
            c_deframer := deframer_reset (c_deframer c), c_certificate_storage := [],
            c_client_hello := [], c_negotiated_alpn := (c_negotiated_alpn c)[0 := 0],
            c_pending_app_offset := 0, c_pending_app_length := 0,
            c_last_alert_level := 0, c_last_alert_description := 0, c_state := CLIENT_IDLE\<rparr>)))"

text \<open>The error of the close_notify is discarded.\<close>

definition close :: "(nat \<Rightarrow> bool) \<Rightarrow> ('w, unit) cli" where
  "close alloc =
     bind_prog client (\<lambda>c.
       if c_state c = CLIENT_CLOSED then ret ()
       else
         then_prog
           (if c_state c = CLIENT_CONNECTED
            then on_error (send_protected alloc content_alert [1, 0]) (\<lambda>_. ret ())
            else ret ())
         (then_prog close_stream
           (update (\<lambda>c. wipe_secrets (c\<lparr>c_state := CLIENT_CLOSED\<rparr>)))))"

end
