(* ===== verification/RsaVerify.thy ===== *)
theory RsaVerify
  imports X509 Bignum Sha256
begin

text \<open>
  The RSA signature checks of \<open>src/crypto/rsa_verify.cpp\<close>: the key reader, the public operation,
  EMSA-PSS and EMSA-PKCS1-v1_5 with SHA-256. The number type \<open>Nat\<close> is the one of the theory
  \<open>Bignum\<close> with 129 words; its operations have the code of their namesakes there.
\<close>

section \<open>Model: numbers\<close>

definition nat_trim :: "limbs \<Rightarrow> limbs" where "nat_trim = trim"
definition nat_cmp :: "limbs \<Rightarrow> limbs \<Rightarrow> int" where "nat_cmp = cmp"
definition sub_inplace :: "limbs \<Rightarrow> limbs \<Rightarrow> limbs" where "sub_inplace = subraw"
definition add_mod :: "limbs \<Rightarrow> limbs \<Rightarrow> limbs \<Rightarrow> limbs" where "add_mod = addm"
definition nat_bit :: "limbs \<Rightarrow> nat \<Rightarrow> bool" where "nat_bit = limb_bit"
definition nat_bits :: "limbs \<Rightarrow> nat" where "nat_bits = nbits"
definition mul_mod :: "limbs \<Rightarrow> limbs \<Rightarrow> limbs \<Rightarrow> limbs" where "mul_mod = mulm"

definition from_be :: "byte_span \<Rightarrow> limbs res" where
  "from_be s = bind_res (rd_bytes s 0 (span_size s)) (\<lambda>bs. Ok (limbs_be 129 bs))"

text \<open>Square and multiply, from the lowest bit, without the last squaring.\<close>

function pow_u32_loop :: "limbs \<Rightarrow> u32 \<Rightarrow> limbs \<Rightarrow> limbs \<Rightarrow> limbs" where
  "pow_u32_loop m e r x =
     (if e \<noteq> 0 then
        let r = (if e AND 1 \<noteq> 0 then mul_mod r x m else r);
            e' = drop_bit 1 e;
            x = (if e' \<noteq> 0 then mul_mod x x m else x)
        in pow_u32_loop m e' r x
      else r)"
  by pat_completeness auto
termination
proof (relation "measure (\<lambda>(m, e, r, x). unat e)", simp_all del: drop_bit_Suc)
  fix e :: u32 assume "e \<noteq> 0"
  then have "0 < unat e" by (simp add: unat_gt_0)
  then show "unat (drop_bit (Suc 0) e) < unat e"
    by (simp add: drop_bit_eq_div unat_div)
qed

declare pow_u32_loop.simps [simp del]

definition pow_u32_mod :: "limbs \<Rightarrow> u32 \<Rightarrow> limbs \<Rightarrow> limbs" where
  "pow_u32_mod a e m = pow_u32_loop m e (limbs_small 129 1) a"

definition to_be_fixed :: "limbs \<Rightarrow> nat \<Rightarrow> bytes" where
  "to_be_fixed a n =
     fold (\<lambda>i out. fold (\<lambda>j out.
         let k = i * 4 + j in
         if k < n then out[n - 1 - k := ucast (drop_bit (8 * j) (lw a ! i))] else out)
       [0..<4] out) [0..<ln a] (replicate n 0)"

section \<open>Model: the key\<close>

definition rsa_len :: "bytes \<Rightarrow> nat" where
  "rsa_len bs = fold (\<lambda>b len. len * 256 + unat b) bs 0"

definition rsa_length :: "byte_span \<Rightarrow> nat \<Rightarrow> (nat \<times> nat) res" where
  "rsa_length s p =
     bind_res (rd s p) (\<lambda>lb.
       let p = p + 1 in
       if lb AND 0x80 = 0 then Ok (unat lb, p)
       else
         let n = unat (lb AND 0x7F) in
         if n = 0 \<or> n > 4 \<or> p + n > span_size s then Err XT_ERR_BAD_HANDSHAKE
         else bind_res (rd s p) (\<lambda>b.
           if b = 0 then Err XT_ERR_BAD_HANDSHAKE
           else bind_res (rd_bytes s p n) (\<lambda>lbs.
             if rsa_len lbs < 128 then Err XT_ERR_BAD_HANDSHAKE
             else Ok (rsa_len lbs, p + n))))"

text \<open>The reader of keys does not keep the whole element; the model does, for the contract.\<close>

definition rsa_tlv :: "byte_span \<Rightarrow> nat \<Rightarrow> (der_elem \<times> nat) res" where
  "rsa_tlv s off =
     (if span_null s \<or> off \<ge> span_size s then Err XT_ERR_BAD_HANDSHAKE
      else bind_res (rd s off) (\<lambda>tag.
        let p = off + 1 in
        if p \<ge> span_size s then Err XT_ERR_BAD_HANDSHAKE
        else bind_res (rsa_length s p) (\<lambda>(len, p).
          if len > span_size s - p then Err XT_ERR_BAD_HANDSHAKE
          else bind_res (subspan s off ((p - off) + len)) (\<lambda>full.
            bind_res (subspan s p len) (\<lambda>value.
              Ok (\<lparr>el_tag = tag, el_full = full, el_value = value\<rparr>, p + len))))))"

text \<open>The same reader as the certificate parser's, so it has the same contract.\<close>

lemma rsa_tlv_eq: "rsa_tlv = der_tlv"
proof -
  have "rsa_len = der_len" by (rule ext) (simp only: rsa_len_def der_len_def)
  then have "rsa_length = der_length" by (intro ext) (simp only: rsa_length_def der_length_def)
  then show ?thesis by (intro ext) (simp only: rsa_tlv_def der_tlv_def)
qed

interpretation rsa: tlv_reader rsa_tlv
  unfolding rsa_tlv_eq by (rule der.tlv_reader_axioms)

definition strip_sign :: "byte_span \<Rightarrow> byte_span res" where
  "strip_sign v =
     (if span_size v > 1 then
        bind_res (rd v 0) (\<lambda>b. if b = 0 then subspan v 1 (span_size v - 1) else Ok v)
      else Ok v)"

definition rsa_exponent :: "bytes \<Rightarrow> u32" where
  "rsa_exponent bs = fold (\<lambda>b ev. push_bit 8 ev OR ucast b) bs 0"

definition parse_rsa :: "byte_span \<Rightarrow> (byte_span \<times> u32) res" where
  "parse_rsa der =
     bind_res (or_err (rsa_tlv der 0) XT_ERR_BAD_HANDSHAKE) (\<lambda>(seq, snext).
       if el_tag seq \<noteq> 0x30 \<or> snext \<noteq> span_size der then Err XT_ERR_BAD_HANDSHAKE
       else bind_res (or_err (rsa_tlv (el_value seq) 0) XT_ERR_BAD_HANDSHAKE) (\<lambda>(n, nnext).
         if el_tag n \<noteq> 0x02 then Err XT_ERR_BAD_HANDSHAKE
         else bind_res (or_err (rsa_tlv (el_value seq) nnext) XT_ERR_BAD_HANDSHAKE) (\<lambda>(x, xnext).
           if el_tag x \<noteq> 0x02 \<or> xnext \<noteq> span_size (el_value seq) then Err XT_ERR_BAD_HANDSHAKE
           else bind_res (strip_sign (el_value n)) (\<lambda>nv.
             if span_size nv = 0 \<or> span_size nv > 512 then Err XT_ERR_UNSUPPORTED
             else if span_size (el_value x) = 0 \<or> span_size (el_value x) > 4
             then Err XT_ERR_UNSUPPORTED
             else bind_res (rd_bytes (el_value x) 0 (span_size (el_value x))) (\<lambda>eb.
               let ev = rsa_exponent eb in
               if ev < 3 \<or> ev AND 1 = 0 then Err XT_ERR_VERIFY
               else Ok (nv, ev))))))"

text \<open>The public operation: the encoded message, and the number of bits of the modulus.\<close>

definition rsa_public :: "byte_span \<Rightarrow> byte_span \<Rightarrow> (bytes \<times> nat) res" where
  "rsa_public key sig =
     bind_res (parse_rsa key) (\<lambda>(md, e).
       if span_size sig \<noteq> span_size md then Err XT_ERR_VERIFY
       else bind_res (from_be md) (\<lambda>m. bind_res (from_be sig) (\<lambda>s.
         if ln m = 0 \<or> nat_cmp s m \<ge> 0 then Err XT_ERR_VERIFY
         else
           let r = pow_u32_mod s e m
           in Ok (to_be_fixed r (span_size md), nat_bits m))))"

section \<open>Model: PSS\<close>

text \<open>Feeding the hash in pieces is hashing the whole.\<close>

lemma updates_sha256:
  "sha_final (sha_update (sha_update sha_reset a) b) = sha256 (a @ b)"
  "sha_final (sha_update (sha_update (sha_update sha_reset a) b) c) = sha256 (a @ b @ c)"
  using sha_final_correct [OF sha_inv_updates [OF sha_inv_reset, of "[a, b]"]]
    sha_final_correct [OF sha_inv_updates [OF sha_inv_reset, of "[a, b, c]"]]
  by (simp_all add: sha256_correct)

function mgf1_loop :: "bytes \<Rightarrow> nat \<Rightarrow> u32 \<Rightarrow> bytes \<Rightarrow> bytes" where
  "mgf1_loop seed n c out =
     (if length out < n then
        let d = sha_final (sha_update (sha_update sha_reset seed) (store_be32 c));
            tk = (if n - length out < 32 then n - length out else 32)
        in mgf1_loop seed n (c + 1) (out @ take tk d)
      else out)"
  by pat_completeness auto
termination
  by (relation "measure (\<lambda>(seed, n, c, out). n - length out)")
    (auto simp: updates_sha256)

declare mgf1_loop.simps [simp del]

definition mgf1 :: "bytes \<Rightarrow> nat \<Rightarrow> bytes" where
  "mgf1 seed n = mgf1_loop seed n 0 []"

definition pss_unmask :: "bytes \<Rightarrow> nat \<Rightarrow> bytes" where
  "pss_unmask em dblen = xor_bytes (take dblen em) (mgf1 (slice em dblen 32) dblen)"

definition pss_hash :: "bytes \<Rightarrow> bytes \<Rightarrow> bytes" where
  "pss_hash mh salt = sha_final (sha_update (sha_update (sha_update sha_reset (replicate 8 0)) mh) salt)"

text \<open>The checks of the encoded message, given the digest of the message.\<close>

definition pss_check :: "bytes \<Rightarrow> nat \<Rightarrow> bytes \<Rightarrow> unit res" where
  "pss_check em modbits mh =
     (let emlen = length em; hlen = 32; slen = 32;
          embits = modbits - 1;
          want = (embits + 7) div 8
      in if emlen \<noteq> want \<or> emlen < hlen + slen + 2 \<or> em ! (emlen - 1) \<noteq> 0xbc then Err XT_ERR_VERIFY
         else
           let dblen = emlen - hlen - 1;
               H = slice em dblen 32;
               db = pss_unmask em dblen;
               unused = 8 * emlen - embits;
               keep = drop_bit unused 0xff :: u8
           in if unused \<noteq> 0 \<and> em ! 0 AND NOT keep \<noteq> 0 then Err XT_ERR_VERIFY
              else
                let db = (if unused \<noteq> 0 then db[0 := db ! 0 AND keep] else db);
                    ps = dblen - slen - 1
                in if \<not> list_all (\<lambda>i. db ! i = 0) [0..<ps] then Err XT_ERR_VERIFY
                   else if db ! ps \<noteq> 1 then Err XT_ERR_VERIFY
                   else
                     let hp = pss_hash mh (slice db (ps + 1) slen)
                     in if or_diff 32 hp H \<noteq> 0 then Err XT_ERR_VERIFY else Ok ())"

definition native_rsa_pss_sha256_verify :: "byte_span \<Rightarrow> byte_span \<Rightarrow> byte_span \<Rightarrow> unit res" where
  "native_rsa_pss_sha256_verify key message signature =
     bind_res (rsa_public key signature) (\<lambda>(em, modbits).
       bind_res (rd_bytes message 0 (span_size message)) (\<lambda>m.
         pss_check em modbits (sha256 m)))"

section \<open>Model: PKCS #1 v1.5\<close>

definition di_prefix :: bytes where
  "di_prefix = concat [[0x30, 0x31, 0x30, 0x0d, 0x06, 0x09, 0x60, 0x86, 0x48, 0x01],
    [0x65, 0x03, 0x04, 0x02, 0x01, 0x05, 0x00, 0x04, 0x20]]"

text \<open>\<open>while (p < n && em[p] == 0xff) ++p;\<close>\<close>

function skip_ff :: "bytes \<Rightarrow> nat \<Rightarrow> nat" where
  "skip_ff em p = (if p < length em \<and> em ! p = 0xff then skip_ff em (p + 1) else p)"
  by pat_completeness auto
termination by (relation "measure (\<lambda>(em, p). length em - p)") auto

declare skip_ff.simps [simp del]

definition pkcs1_check :: "bytes \<Rightarrow> bytes \<Rightarrow> unit res" where
  "pkcs1_check em d =
     (let n = length em; tail = length di_prefix + 32 in
      if n < 3 + 8 + tail \<or> em ! 0 \<noteq> 0 \<or> em ! 1 \<noteq> 1 then Err XT_ERR_VERIFY
      else
        let p = skip_ff em 2 in
        if p < 10 \<or> p \<ge> n \<or> em ! p \<noteq> 0 then Err XT_ERR_VERIFY
        else
          let p = p + 1 in
          if n - p \<noteq> tail \<or> slice em p (length di_prefix) \<noteq> di_prefix
             \<or> slice em (p + length di_prefix) 32 \<noteq> d
          then Err XT_ERR_VERIFY else Ok ())"

definition native_rsa_pkcs1_sha256_verify :: "byte_span \<Rightarrow> byte_span \<Rightarrow> byte_span \<Rightarrow> unit res" where
  "native_rsa_pkcs1_sha256_verify key message signature =
     bind_res (rsa_public key signature) (\<lambda>(em, _).
       bind_res (rd_bytes message 0 (span_size message)) (\<lambda>m.
         pkcs1_check em (sha256 m)))"

section \<open>Inside the buffers\<close>

lemma strip_sign_safe: "safe (strip_sign (Span v)) (\<lambda>w. \<exists>bs. w = Span bs)"
  by (auto simp: strip_sign_def)

lemma parse_rsa_safe: "safe (parse_rsa key) (\<lambda>(md, e). \<exists>bs. md = Span bs)"
  unfolding parse_rsa_def
  by (intro rsa.safe_readI safe_guardI, elim rsa.reader_value)
    (auto simp: Let_def intro!: safe_mono [OF strip_sign_safe])

lemma rsa_public_safe:
  assumes "span_valid sig"
  shows "rsa_public key sig \<noteq> UB"
  unfolding safe_True_iff [symmetric] rsa_public_def from_be_def
  by (rule safe_bindI [OF parse_rsa_safe]) (use assms in \<open>auto simp: span_valid_def Let_def\<close>)

lemma rsa_checks_safe: "pss_check em n d \<noteq> UB" "pkcs1_check em d \<noteq> UB"
  by (auto simp: pss_check_def pkcs1_check_def Let_def)

lemma native_rsa_verify_safe:
  assumes "span_valid sig" and "span_valid msg"
  shows "native_rsa_pss_sha256_verify key msg sig \<noteq> UB"
    and "native_rsa_pkcs1_sha256_verify key msg sig \<noteq> UB"
  using assms rsa_public_safe [of sig key] rsa_checks_safe
  by (cases "rsa_public key sig";
      auto simp: native_rsa_pss_sha256_verify_def native_rsa_pkcs1_sha256_verify_def span_valid_def
        rd_bytes_def)+

end
