(* ===== verification/NativeVerifier.thy ===== *)
theory NativeVerifier
  imports Authentication P256 RsaVerify
begin

text \<open>
  The native verifier of \<open>src/verifier/native/native_verifier.cpp\<close> and the trust store of
  \<open>src/x509/trust_store.cpp\<close>: which certificate signs which, the walk along a chain up to a trust
  anchor, the certificate pin, and the compact store of anchors.
\<close>

section \<open>Model: DER elements\<close>

definition nv_len :: "bytes \<Rightarrow> nat" where
  "nv_len bs = fold (\<lambda>b len. len * 256 + unat b) bs 0"

definition nv_length :: "byte_span \<Rightarrow> nat \<Rightarrow> (nat \<times> nat) res" where
  "nv_length s p =
     bind_res (rd s p) (\<lambda>lb.
       let p = p + 1 in
       if lb AND 0x80 = 0 then Ok (unat lb, p)
       else
         let n = unat (lb AND 0x7F) in
         if n = 0 \<or> n > 4 \<or> p + n > span_size s then Err XT_ERR_BAD_HANDSHAKE
         else bind_res (rd s p) (\<lambda>b.
           if b = 0 then Err XT_ERR_BAD_HANDSHAKE
           else bind_res (rd_bytes s p n) (\<lambda>lbs.
             if nv_len lbs < 128 then Err XT_ERR_BAD_HANDSHAKE
             else Ok (nv_len lbs, p + n))))"

definition nv_tlv :: "byte_span \<Rightarrow> nat \<Rightarrow> (der_elem \<times> nat) res" where
  "nv_tlv s off =
     (if span_null s \<or> off \<ge> span_size s then Err XT_ERR_BAD_HANDSHAKE
      else bind_res (rd s off) (\<lambda>tag.
        let p = off + 1 in
        if p \<ge> span_size s then Err XT_ERR_BAD_HANDSHAKE
        else bind_res (nv_length s p) (\<lambda>(len, p).
          if len > span_size s - p then Err XT_ERR_BAD_HANDSHAKE
          else bind_res (subspan s off ((p - off) + len)) (\<lambda>full.
            bind_res (subspan s p len) (\<lambda>value.
              Ok (\<lparr>el_tag = tag, el_full = full, el_value = value\<rparr>, p + len))))))"

text \<open>The same reader as the certificate parser's, so it has the same contract.\<close>

lemma nv_tlv_eq: "nv_tlv = der_tlv"
proof -
  have "nv_len = der_len" by (rule ext) (simp only: nv_len_def der_len_def)
  then have "nv_length = der_length" by (intro ext) (simp only: nv_length_def der_length_def)
  then show ?thesis by (intro ext) (simp only: nv_tlv_def der_tlv_def)
qed

interpretation nv: tlv_reader nv_tlv
  unfolding nv_tlv_eq by (rule der.tlv_reader_axioms)

section \<open>Model: signature algorithms\<close>

datatype cert_sig_kind =
    CERT_SIG_UNKNOWN
  | CERT_SIG_RSA_SHA256
  | CERT_SIG_ECDSA_SHA256
  | CERT_SIG_RSA_PSS_SHA256

record cert_sig =
  cs_tbs :: byte_span
  cs_sig :: byte_span
  cs_kind :: cert_sig_kind

text \<open>The OID of an AlgorithmIdentifier and its parameters, which are null when absent.\<close>

definition parse_alg_oid :: "byte_span \<Rightarrow> (byte_span \<times> byte_span) res" where
  "parse_alg_oid alg_full =
     bind_res (nv_tlv alg_full 0) (\<lambda>(alg, next).
       if el_tag alg \<noteq> 0x30 \<or> next \<noteq> span_size alg_full then Err XT_ERR_BAD_HANDSHAKE
       else bind_res (nv_tlv (el_value alg) 0) (\<lambda>(oid, onext).
         if el_tag oid \<noteq> 0x06 then Err XT_ERR_BAD_HANDSHAKE
         else if onext = span_size (el_value alg) then Ok (el_value oid, NullSpan 0)
         else bind_res (nv_tlv (el_value alg) onext) (\<lambda>(p, pnext).
           if pnext \<noteq> span_size (el_value alg) then Err XT_ERR_BAD_HANDSHAKE
           else Ok (el_value oid, el_full p))))"

definition OID_SHA256 :: bytes where
  "OID_SHA256 = [0x60, 0x86, 0x48, 0x01, 0x65, 0x03, 0x04, 0x02, 0x01]"

definition is_sha256_alg :: "byte_span \<Rightarrow> unit res" where
  "is_sha256_alg alg_full =
     bind_res (parse_alg_oid alg_full) (\<lambda>(oid, params).
       if \<not> oid_eq oid OID_SHA256 then Err XT_ERR_BAD_HANDSHAKE
       else if span_size params = 0 then Ok ()
       else if span_size params \<noteq> 2 then Err XT_ERR_BAD_HANDSHAKE
       else bind_res (rd params 0) (\<lambda>a. bind_res (rd params 1) (\<lambda>b.
         if a = 0x05 \<and> b = 0x00 then Ok () else Err XT_ERR_BAD_HANDSHAKE)))"

definition OID_MGF1 :: bytes where
  "OID_MGF1 = [0x2A, 0x86, 0x48, 0x86, 0xF7, 0x0D, 0x01, 0x01, 0x08]"

record pss_seen =
  ps_hash :: bool
  ps_mgf :: bool
  ps_salt :: bool

text \<open>A single INTEGER of one byte with the given value.\<close>

definition pss_integer :: "byte_span \<Rightarrow> u8 \<Rightarrow> unit res" where
  "pss_integer v n =
     bind_res (nv_tlv v 0) (\<lambda>(i, next).
       if el_tag i \<noteq> 0x02 \<or> next \<noteq> span_size v \<or> span_size (el_value i) \<noteq> 1
       then Err XT_ERR_BAD_HANDSHAKE
       else bind_res (rd (el_value i) 0) (\<lambda>b. if b = n then Ok () else Err XT_ERR_BAD_HANDSHAKE))"

definition pss_field :: "der_elem \<Rightarrow> pss_seen \<Rightarrow> pss_seen res" where
  "pss_field f st =
     (if el_tag f = 0xA0 then
        bind_res (nv_tlv (el_value f) 0) (\<lambda>(a, next).
          if next \<noteq> span_size (el_value f) then Err XT_ERR_BAD_HANDSHAKE
          else bind_res (is_sha256_alg (el_full a)) (\<lambda>_. Ok (st\<lparr>ps_hash := True\<rparr>)))
      else if el_tag f = 0xA1 then
        bind_res (nv_tlv (el_value f) 0) (\<lambda>(a, next).
          if el_tag a \<noteq> 0x30 \<or> next \<noteq> span_size (el_value f) then Err XT_ERR_BAD_HANDSHAKE
          else bind_res (parse_alg_oid (el_full a)) (\<lambda>(oid, par).
            if \<not> oid_eq oid OID_MGF1 then Err XT_ERR_BAD_HANDSHAKE
            else bind_res (is_sha256_alg par) (\<lambda>_. Ok (st\<lparr>ps_mgf := True\<rparr>))))
      else if el_tag f = 0xA2 then
        bind_res (pss_integer (el_value f) 32) (\<lambda>_. Ok (st\<lparr>ps_salt := True\<rparr>))
      else if el_tag f = 0xA3 then
        bind_res (pss_integer (el_value f) 1) (\<lambda>_. Ok st)
      else Err XT_ERR_BAD_HANDSHAKE)"

function pss_params_loop :: "byte_span \<Rightarrow> nat \<Rightarrow> pss_seen \<Rightarrow> pss_seen res" where
  "pss_params_loop s p st =
     (if p < span_size s then
        bind_res (nv_tlv s p) (\<lambda>(f, next). bind_res (pss_field f st) (pss_params_loop s next))
      else Ok st)"
  by pat_completeness auto
termination
  by (relation "measure (\<lambda>(s, p, st). span_size s - p)") (auto dest: nv.reader_measure)

declare pss_params_loop.simps [simp del]

definition parse_pss_sha256_params :: "byte_span \<Rightarrow> unit res" where
  "parse_pss_sha256_params params_full =
     (if span_null params_full \<or> span_size params_full = 0 then Err XT_ERR_BAD_HANDSHAKE
      else bind_res (nv_tlv params_full 0) (\<lambda>(seq, next).
        if el_tag seq \<noteq> 0x30 \<or> next \<noteq> span_size params_full then Err XT_ERR_BAD_HANDSHAKE
        else bind_res (pss_params_loop (el_value seq) 0
                \<lparr>ps_hash = False, ps_mgf = False, ps_salt = False\<rparr>) (\<lambda>st.
          if ps_hash st \<and> ps_mgf st \<and> ps_salt st then Ok () else Err XT_ERR_BAD_HANDSHAKE)))"

section \<open>Model: the signature of a certificate\<close>

definition OID_SHA256_RSA :: bytes where
  "OID_SHA256_RSA = [0x2A, 0x86, 0x48, 0x86, 0xF7, 0x0D, 0x01, 0x01, 0x0B]"
definition OID_SHA256_ECDSA :: bytes where
  "OID_SHA256_ECDSA = [0x2A, 0x86, 0x48, 0xCE, 0x3D, 0x04, 0x03, 0x02]"
definition OID_RSA_PSS :: bytes where
  "OID_RSA_PSS = [0x2A, 0x86, 0x48, 0x86, 0xF7, 0x0D, 0x01, 0x01, 0x0A]"

text \<open>\<open>parse_pss_sha256_params\<close> as the condition of a branch; it never leaves its span.\<close>

definition cert_sig_kind_of :: "byte_span \<Rightarrow> byte_span \<Rightarrow> cert_sig_kind res" where
  "cert_sig_kind_of oidv params =
     (if oid_eq oidv OID_SHA256_RSA then Ok CERT_SIG_RSA_SHA256
      else if oid_eq oidv OID_SHA256_ECDSA then Ok CERT_SIG_ECDSA_SHA256
      else if oid_eq oidv OID_RSA_PSS then
        (case parse_pss_sha256_params params of
           Ok _ \<Rightarrow> Ok CERT_SIG_RSA_PSS_SHA256
         | Err _ \<Rightarrow> Ok CERT_SIG_UNKNOWN
         | UB \<Rightarrow> UB)
      else Ok CERT_SIG_UNKNOWN)"

text \<open>The algorithm named inside the signed part, which must be the one outside.\<close>

definition tbs_algorithm :: "byte_span \<Rightarrow> der_elem res" where
  "tbs_algorithm tbs =
     bind_res (nv_tlv tbs 0) (\<lambda>(f, fnext).
       let tp = (if el_tag f = 0xA0 then fnext else 0) in
       bind_res (or_err (nv_tlv tbs tp) XT_ERR_BAD_HANDSHAKE) (\<lambda>(serial, snext).
         if el_tag serial \<noteq> 0x02 then Err XT_ERR_BAD_HANDSHAKE
         else bind_res (or_err (nv_tlv tbs snext) XT_ERR_BAD_HANDSHAKE) (\<lambda>(tbs_alg, _).
           if el_tag tbs_alg \<noteq> 0x30 then Err XT_ERR_BAD_HANDSHAKE else Ok tbs_alg)))"

definition cert_signature :: "byte_span \<Rightarrow> cert_sig res" where
  "cert_signature der =
     bind_res (or_err (nv_tlv der 0) XT_ERR_BAD_HANDSHAKE) (\<lambda>(cert, cnext).
       if el_tag cert \<noteq> 0x30 \<or> cnext \<noteq> span_size der then Err XT_ERR_BAD_HANDSHAKE
       else bind_res (or_err (nv_tlv (el_value cert) 0) XT_ERR_BAD_HANDSHAKE) (\<lambda>(tbs, tnext).
         if el_tag tbs \<noteq> 0x30 then Err XT_ERR_BAD_HANDSHAKE
         else bind_res (or_err (nv_tlv (el_value cert) tnext) XT_ERR_BAD_HANDSHAKE) (\<lambda>(alg, anext).
           if el_tag alg \<noteq> 0x30 then Err XT_ERR_BAD_HANDSHAKE
           else bind_res (tbs_algorithm (el_value tbs)) (\<lambda>tbs_alg.
             if span_size (el_full tbs_alg) \<noteq> span_size (el_full alg)
                \<or> span_bytes (el_full tbs_alg) \<noteq> span_bytes (el_full alg)
             then Err XT_ERR_VERIFY
             else bind_res (or_err (parse_alg_oid (el_full alg)) XT_ERR_BAD_HANDSHAKE) (\<lambda>(oidv, params).
               bind_res (or_err (nv_tlv (el_value cert) anext) XT_ERR_BAD_HANDSHAKE) (\<lambda>(sig, gnext).
                 if el_tag sig \<noteq> 0x03 \<or> gnext \<noteq> span_size (el_value cert)
                    \<or> span_size (el_value sig) < 1
                 then Err XT_ERR_BAD_HANDSHAKE
                 else bind_res (rd (el_value sig) 0) (\<lambda>unused.
                   if unused \<noteq> 0 then Err XT_ERR_BAD_HANDSHAKE
                   else bind_res (subspan (el_value sig) 1 (span_size (el_value sig) - 1)) (\<lambda>sv.
                     bind_res (cert_sig_kind_of oidv params) (\<lambda>kind.
                       Ok \<lparr>cs_tbs = el_full tbs, cs_sig = sv, cs_kind = kind\<rparr>)))))))))"

definition verify_cert_signed_by :: "byte_span \<Rightarrow> byte_span \<Rightarrow> unit res" where
  "verify_cert_signed_by child issuer =
     bind_res (x509_parse_certificate issuer) (\<lambda>iv.
       bind_res (cert_signature child) (\<lambda>cs.
         if cs_kind cs = CERT_SIG_RSA_SHA256 \<and> x_public_key_kind iv = PUBLIC_KEY_RSA
         then native_rsa_pkcs1_sha256_verify (x_subject_public_key_bits iv) (cs_tbs cs) (cs_sig cs)
         else if cs_kind cs = CERT_SIG_RSA_PSS_SHA256 \<and> x_public_key_kind iv = PUBLIC_KEY_RSA
         then native_rsa_pss_sha256_verify (x_subject_public_key_bits iv) (cs_tbs cs) (cs_sig cs)
         else if cs_kind cs = CERT_SIG_ECDSA_SHA256 \<and> x_public_key_kind iv = PUBLIC_KEY_EC_P256
         then native_p256_ecdsa_sha256_verify (x_subject_public_key_bits iv) (cs_tbs cs) (cs_sig cs)
         else Err XT_ERR_UNSUPPORTED))"

section \<open>Model: the verifier\<close>

record 'w native_verifier =
  nv_platform :: "'w platform option"
  nv_anchors :: "byte_span list"
  nv_pin :: bytes
  nv_pin_enabled :: bool

definition native_verifier_new :: "'w platform option \<Rightarrow> 'w native_verifier" where
  "native_verifier_new p =
     \<lparr>nv_platform = p, nv_anchors = [], nv_pin = replicate 32 0, nv_pin_enabled = False\<rparr>"

definition set_leaf_certificate_sha256_pin ::
    "'w native_verifier \<Rightarrow> byte_span \<Rightarrow> unit res \<times> 'w native_verifier" where
  "set_leaf_certificate_sha256_pin v pin32 =
     (if span_null pin32 \<or> span_size pin32 \<noteq> 32 then (Err XT_ERR_INVALID_ARGUMENT, v)
      else (Ok (), v\<lparr>nv_pin := span_bytes pin32, nv_pin_enabled := True\<rparr>))"

definition clear_leaf_certificate_sha256_pin :: "'w native_verifier \<Rightarrow> 'w native_verifier" where
  "clear_leaf_certificate_sha256_pin v = v\<lparr>nv_pin := replicate 32 0, nv_pin_enabled := False\<rparr>"

definition add_trust_anchor :: "'w native_verifier \<Rightarrow> byte_span \<Rightarrow> unit res \<times> 'w native_verifier" where
  "add_trust_anchor v der =
     (if span_null der \<or> span_size der = 0 then (Err XT_ERR_INVALID_ARGUMENT, v)
      else if length (nv_anchors v) \<ge> 16 then (Err XT_ERR_BUFFER_TOO_SMALL, v)
      else
        (case x509_parse_certificate der of
           Ok _ \<Rightarrow> (Ok (), v\<lparr>nv_anchors := nv_anchors v @ [der]\<rparr>)
         | Err e \<Rightarrow> (Err e, v)
         | UB \<Rightarrow> (UB, v)))"

definition clear_trust_anchors :: "'w native_verifier \<Rightarrow> unit res \<times> 'w native_verifier" where
  "clear_trust_anchors v = (Ok (), v\<lparr>nv_anchors := []\<rparr>)"

section \<open>Model: the chain\<close>

text \<open>\<open>memcmp\<close> of two names of the same size.\<close>

definition same_name :: "byte_span \<Rightarrow> byte_span \<Rightarrow> bool" where
  "same_name a b \<longleftrightarrow> span_size a = span_size b \<and> span_bytes a = span_bytes b"

definition leaf_pin_check :: "'w native_verifier \<Rightarrow> byte_span \<Rightarrow> unit res" where
  "leaf_pin_check v der =
     (if nv_pin_enabled v then
        bind_res (rd_bytes der 0 (span_size der)) (\<lambda>d.
          if or_diff 32 (sha256 d) (nv_pin v) \<noteq> 0 then Err XT_ERR_VERIFY else Ok ())
      else Ok ())"

definition leaf_usage_check :: "x509_view \<Rightarrow> unit res" where
  "leaf_usage_check leaf =
     (if \<not> x_validity_present leaf \<or> x_basic_constraints_present leaf \<and> x_is_ca leaf
      then Err XT_ERR_VERIFY
      else if x_key_usage_present leaf \<and> \<not> x_key_usage_digital_signature leaf then Err XT_ERR_VERIFY
      else if x_extended_key_usage_present leaf \<and> \<not> x_eku_server_auth leaf then Err XT_ERR_VERIFY
      else Ok ())"

text \<open>The clock is read only when there is a platform.\<close>

definition leaf_time_check :: "'w platform option \<Rightarrow> x509_view \<Rightarrow> ('w, unit) action" where
  "leaf_time_check platform leaf w =
     (case platform of
        None \<Rightarrow> (Ok (), w)
      | Some p \<Rightarrow>
          (let (now, w') = pf_unix_time_seconds p w
           in if now < x_not_before leaf \<or> now > x_not_after leaf then (Err XT_ERR_VERIFY, w')
              else (Ok (), w')))"

definition ca_time_check :: "'w platform option \<Rightarrow> x509_view \<Rightarrow> ('w, unit) action" where
  "ca_time_check platform ca w =
     (case platform of
        None \<Rightarrow> (Ok (), w)
      | Some p \<Rightarrow>
          (let (now, w') = pf_unix_time_seconds p w
           in if \<not> x_validity_present ca \<or> now < x_not_before ca \<or> now > x_not_after ca
              then (Err XT_ERR_VERIFY, w') else (Ok (), w')))"

definition may_sign :: "x509_view \<Rightarrow> bool" where
  "may_sign ca \<longleftrightarrow> \<not> (\<not> x_basic_constraints_present ca \<or> \<not> x_is_ca ca
     \<or> x_key_usage_present ca \<and> \<not> x_key_usage_key_cert_sign ca)"

definition path_len_allows :: "x509_view \<Rightarrow> nat \<Rightarrow> bool" where
  "path_len_allows ca below \<longleftrightarrow> \<not> (x_path_len_present ca \<and> x_path_len_constraint ca < of_nat below)"

text \<open>One link: the certificate at \<open>i\<close> is signed by the one behind it.\<close>

definition chain_link :: "'w native_verifier \<Rightarrow> chain_view \<Rightarrow> nat \<Rightarrow> ('w, unit) action" where
  "chain_link v chain i =
     (let cd = ce_der (chain ! i); isd = ce_der (chain ! (i + 1)) in
      bind_act (pure_act (or_err (x509_parse_certificate cd) XT_ERR_VERIFY)) (\<lambda>child.
      bind_act (pure_act (or_err (x509_parse_certificate isd) XT_ERR_VERIFY)) (\<lambda>issuer.
        if \<not> same_name (x_issuer_name child) (x_subject_name issuer) then pure_act (Err XT_ERR_VERIFY)
        else if \<not> may_sign issuer then pure_act (Err XT_ERR_VERIFY)
        else if \<not> path_len_allows issuer i then pure_act (Err XT_ERR_VERIFY)
        else bind_act (ca_time_check (nv_platform v) issuer) (\<lambda>_.
          pure_act (or_err (verify_cert_signed_by cd isd) XT_ERR_VERIFY)))))"

primrec chain_links :: "'w native_verifier \<Rightarrow> chain_view \<Rightarrow> nat list \<Rightarrow> ('w, unit) action" where
  "chain_links v chain [] = pure_act (Ok ())"
| "chain_links v chain (i # is) = bind_act (chain_link v chain i) (\<lambda>_. chain_links v chain is)"

text \<open>One anchor: whether it accepts the top of the chain. A rejection goes on to the next one.\<close>

definition try_anchor ::
    "'w native_verifier \<Rightarrow> chain_view \<Rightarrow> byte_span \<Rightarrow> x509_view \<Rightarrow> byte_span \<Rightarrow> ('w, bool) action" where
  "try_anchor v chain tp topv anchor w =
     (case x509_parse_certificate anchor of
        UB \<Rightarrow> (UB, w)
      | Err _ \<Rightarrow> (Ok False, w)
      | Ok av \<Rightarrow>
          if \<not> may_sign av then (Ok False, w)
          else
            (case ca_time_check (nv_platform v) av w of
               (Err _, w') \<Rightarrow> (Ok False, w')
             | (UB, w') \<Rightarrow> (UB, w')
             | (Ok _, w') \<Rightarrow>
                 if same_name tp anchor then
                   (Ok (path_len_allows av (if length chain \<ge> 2 then length chain - 2 else 0)), w')
                 else if \<not> same_name (x_issuer_name topv) (x_subject_name av) then (Ok False, w')
                 else if \<not> path_len_allows av (if length chain \<ge> 1 then length chain - 1 else 0)
                 then (Ok False, w')
                 else
                   (case verify_cert_signed_by tp anchor of
                      Ok _ \<Rightarrow> (Ok True, w')
                    | Err _ \<Rightarrow> (Ok False, w')
                    | UB \<Rightarrow> (UB, w'))))"

primrec try_anchors ::
    "'w native_verifier \<Rightarrow> chain_view \<Rightarrow> byte_span \<Rightarrow> x509_view \<Rightarrow> byte_span list \<Rightarrow> ('w, unit) action"
  where
  "try_anchors v chain tp topv [] = pure_act (Err XT_ERR_VERIFY)"
| "try_anchors v chain tp topv (a # as) =
     bind_act (try_anchor v chain tp topv a) (\<lambda>accepted.
       if accepted then pure_act (Ok ()) else try_anchors v chain tp topv as)"

definition verify_chain ::
    "'w native_verifier \<Rightarrow> chain_view \<Rightarrow> cstring \<Rightarrow> ('w, unit) action" where
  "verify_chain v chain hostname =
     (if hostname = None \<or> hostname = Some [] \<or> chain = [] \<or> nv_anchors v = []
      then pure_act (Err XT_ERR_VERIFY)
      else
        bind_act (pure_act (x509_parse_certificate (ce_der (chain ! 0)))) (\<lambda>leaf.
        bind_act (pure_act (leaf_pin_check v (ce_der (chain ! 0)))) (\<lambda>_.
        bind_act (pure_act (leaf_usage_check leaf)) (\<lambda>_.
        bind_act (leaf_time_check (nv_platform v) leaf) (\<lambda>_.
        bind_act (pure_act (or_err (x509_verify_hostname leaf hostname) XT_ERR_VERIFY)) (\<lambda>_.
        bind_act (chain_links v chain [0..<length chain - 1]) (\<lambda>_.
          let tp = ce_der (chain ! (length chain - 1)) in
          bind_act (pure_act (or_err (x509_parse_certificate tp) XT_ERR_VERIFY)) (\<lambda>topv.
            try_anchors v chain tp topv (nv_anchors v)))))))))"

definition verify_signature ::
    "signature_scheme \<Rightarrow> x509_view \<Rightarrow> byte_span \<Rightarrow> byte_span \<Rightarrow> unit res" where
  "verify_signature scheme leaf msg sig =
     (if span_null msg \<or> span_null sig then Err XT_ERR_INVALID_ARGUMENT
      else if (scheme = SIG_RSA_PSS_RSAE_SHA256 \<or> scheme = SIG_RSA_PSS_PSS_SHA256)
              \<and> x_public_key_kind leaf = PUBLIC_KEY_RSA
      then native_rsa_pss_sha256_verify (x_subject_public_key_bits leaf) msg sig
      else if scheme = SIG_ECDSA_SECP256R1_SHA256 \<and> x_public_key_kind leaf = PUBLIC_KEY_EC_P256
      then native_p256_ecdsa_sha256_verify (x_subject_public_key_bits leaf) msg sig
      else Err XT_ERR_VERIFY)"

text \<open>The verifier as the interface that the connection uses.\<close>

definition native_auth_verifier :: "'w native_verifier \<Rightarrow> 'w auth_verifier" where
  "native_auth_verifier v =
     \<lparr>av_verify_chain = verify_chain v,
      av_verify_signature = (\<lambda>scheme leaf msg sig. pure_act (verify_signature scheme leaf msg sig))\<rparr>"

section \<open>Model: the trust store\<close>

definition read_be24_local :: "byte_span \<Rightarrow> nat \<Rightarrow> nat res" where
  "read_be24_local s p =
     bind_res (rd s p) (\<lambda>a. bind_res (rd s (p + 1)) (\<lambda>b. bind_res (rd s (p + 2)) (\<lambda>c.
       Ok (unat a * 65536 + unat b * 256 + unat c))))"

text \<open>Every failure inside the loop clears the anchors; the value is the offset behind the last one.\<close>

primrec trust_store_loop ::
    "byte_span \<Rightarrow> nat \<Rightarrow> nat \<Rightarrow> 'w native_verifier \<Rightarrow> nat res \<times> 'w native_verifier" where
  "trust_store_loop blob 0 off v = (Ok off, v)"
| "trust_store_loop blob (Suc i) off v =
     (if off + 3 > span_size blob then (Err XT_ERR_BAD_HANDSHAKE, snd (clear_trust_anchors v))
      else
        (case bind_res (read_be24_local blob off) (\<lambda>len.
                if len = 0 \<or> len > span_size blob - (off + 3) then Err XT_ERR_BAD_HANDSHAKE
                else bind_res (subspan blob (off + 3) len) (\<lambda>der. Ok (len, der))) of
           UB \<Rightarrow> (UB, v)
         | Err e \<Rightarrow> (Err e, snd (clear_trust_anchors v))
         | Ok (len, der) \<Rightarrow>
             (case add_trust_anchor v der of
                (UB, v') \<Rightarrow> (UB, v')
              | (Err e, v') \<Rightarrow> (Err e, snd (clear_trust_anchors v'))
              | (Ok _, v') \<Rightarrow> trust_store_loop blob i (off + 3 + len) v')))"

text \<open>The value is the number of certificates.\<close>

definition load_compact_trust_store ::
    "byte_span \<Rightarrow> 'w native_verifier \<Rightarrow> nat res \<times> 'w native_verifier" where
  "load_compact_trust_store blob v =
     (if span_null blob \<or> span_size blob < 6 then (Err XT_ERR_INVALID_ARGUMENT, v)
      else
        let b = span_bytes blob in
        if b ! 0 \<noteq> 0x58 \<or> b ! 1 \<noteq> 0x54 \<or> b ! 2 \<noteq> 0x53 \<or> b ! 3 \<noteq> 0x31
        then (Err XT_ERR_BAD_HANDSHAKE, v)
        else
          let count = unat (b ! 4) * 256 + unat (b ! 5);
              v = snd (clear_trust_anchors v)
          in (case trust_store_loop blob count 6 v of
                (Ok off, v') \<Rightarrow>
                  if off \<noteq> span_size blob
                  then (Err XT_ERR_BAD_HANDSHAKE, snd (clear_trust_anchors v'))
                  else (Ok count, v')
              | (Err e, v') \<Rightarrow> (Err e, v')
              | (UB, v') \<Rightarrow> (UB, v')))"

definition load_trust_store ::
    "'w native_verifier \<Rightarrow> byte_span \<Rightarrow> nat res \<times> 'w native_verifier" where
  "load_trust_store v store = load_compact_trust_store store v"

section \<open>The verifier keeps its contract\<close>

lemma parse_alg_oid_safe: "safe (parse_alg_oid a) (\<lambda>(oid, params). span_valid params)"
  unfolding parse_alg_oid_def
  by (intro nv.safe_readI safe_guardI safe_ifI; elim nv.reader_value) (auto intro: nv.safe_readI)

lemma is_sha256_alg_safe: "safe (is_sha256_alg a) (\<lambda>_. True)"
  unfolding is_sha256_alg_def
  by (rule safe_bindI [OF parse_alg_oid_safe]) (auto simp: span_valid_def)

lemma pss_integer_safe: "safe (pss_integer v n) (\<lambda>_. True)"
  unfolding pss_integer_def by (intro nv.safe_readI safe_guardI; elim nv.reader_value) auto

lemma pss_field_safe: "safe (pss_field f st) (\<lambda>_. True)"
  unfolding pss_field_def
  by (intro safe_ifI nv.safe_readI safe_guardI safe_bindI [OF is_sha256_alg_safe]
      safe_bindI [OF parse_alg_oid_safe] safe_bindI [OF pss_integer_safe])
    (auto intro!: safe_mono [OF is_sha256_alg_safe])

lemma pss_params_loop_safe: "safe (pss_params_loop s p st) (\<lambda>_. True)"
proof (induction s p st rule: pss_params_loop.induct)
  case (1 s p st)
  show ?case
    by (subst pss_params_loop.simps)
      (auto simp: nv.reader_safe_iff intro!: safe_mono_Ok [OF pss_field_safe] 1)
qed

lemma parse_pss_sha256_params_safe: "parse_pss_sha256_params s \<noteq> UB"
  unfolding safe_True_iff [symmetric] parse_pss_sha256_params_def
  by (intro safe_guardI nv.safe_readI safe_bindI [OF pss_params_loop_safe]) auto

lemma cert_sig_kind_of_safe: "safe (cert_sig_kind_of oid params) (\<lambda>_. True)"
  using parse_pss_sha256_params_safe [of params]
  by (auto simp: cert_sig_kind_of_def split: res.splits)

lemma tbs_algorithm_safe: "safe (tbs_algorithm tbs) (\<lambda>_. True)"
  unfolding tbs_algorithm_def Let_def by (intro nv.safe_readI safe_guardI) auto

lemma cert_signature_safe:
  "safe (cert_signature der) (\<lambda>cs. span_valid (cs_tbs cs) \<and> span_valid (cs_sig cs))"
  unfolding cert_signature_def
  by (intro nv.safe_readI safe_guardI safe_bindI [OF tbs_algorithm_safe]
      safe_bindI [OF safe_or_err [THEN iffD2, OF parse_alg_oid_safe]]; elim nv.reader_value)
    (auto intro!: nv.safe_readI safe_guardI safe_mono [OF cert_sig_kind_of_safe] elim!: nv.reader_value)

lemma verify_cert_signed_by_safe:
  assumes "\<not> span_null issuer"
  shows "safe (verify_cert_signed_by child issuer) (\<lambda>_. True)"
  unfolding verify_cert_signed_by_def
  by (intro safe_bindI [OF x509_parse_safe [OF assms]] safe_bindI [OF cert_signature_safe] safe_ifI)
    (simp_all add: safe_True_iff key_readable_def native_rsa_verify_safe native_p256_ecdsa_sha256_verify_safe)

lemma verify_signature_safe:
  "key_readable leaf \<Longrightarrow> span_valid msg \<Longrightarrow> span_valid sig \<Longrightarrow>
   safe (verify_signature scheme leaf msg sig) (\<lambda>_. True)"
  unfolding safe_True_iff
  by (simp add: verify_signature_def key_readable_def native_rsa_verify_safe
      native_p256_ecdsa_sha256_verify_safe)

text \<open>
  Any native verifier whose clock, if it has one, is a platform that keeps the contract, and whose
  anchors are readable.
\<close>

definition anchors_readable :: "'w native_verifier \<Rightarrow> bool" where
  "anchors_readable v \<longleftrightarrow> (\<forall>a \<in> set (nv_anchors v). \<not> span_null a)"

locale native_laws = platform_laws pf budget for pf :: "'w platform" and budget :: "'w \<Rightarrow> nat" +
  fixes nv :: "'w native_verifier"
  assumes clock: "nv_platform nv = Some pf \<or> nv_platform nv = None"
    and readable: "anchors_readable nv"
begin

lemma time_checks_obey:
  "obeys budget (\<lambda>_. True) (leaf_time_check (nv_platform nv) v)"
  "obeys budget (\<lambda>_. True) (ca_time_check (nv_platform nv) v)"
  using clock clock_law
  by (auto simp: obeys_def leaf_time_check_def ca_time_check_def Let_def split: option.splits prod.splits)
    (metis snd_conv)+

lemma chain_link_obeys:
  assumes "chain_valid chain" and "i + 1 < length chain"
  shows "obeys budget (\<lambda>_. True) (chain_link nv chain i)"
proof -
  from assms have nonnull: "\<not> span_null (ce_der (chain ! i))" "\<not> span_null (ce_der (chain ! (i + 1)))"
    by (auto simp: chain_valid_def)
  note parse = this [THEN x509_parse_safe, THEN safe_or_err [THEN iffD2]]
  show ?thesis
    unfolding chain_link_def Let_def
    by (intro obeys_if obeys_bind [OF obeys_pure [OF parse(1)]] obeys_bind [OF obeys_pure [OF parse(2)]]
        obeys_bind [OF time_checks_obey(2)] obeys_pure)
      (use verify_cert_signed_by_safe [OF nonnull(2)] in simp_all)
qed

lemma chain_links_obey:
  assumes "chain_valid chain" and "\<forall>i \<in> set is. i + 1 < length chain"
  shows "obeys budget (\<lambda>_. True) (chain_links nv chain is)"
  using assms(2)
  by (induction "is") (auto intro!: obeys_pure obeys_bind [OF chain_link_obeys [OF assms(1)]])

lemma try_anchor_obeys:
  assumes "\<not> span_null anchor"
  shows "obeys budget (\<lambda>_. True) (try_anchor nv chain tp topv anchor)"
proof (rule obeysI)
  fix w r w' assume run: "try_anchor nv chain tp topv anchor w = (r, w')"
  have "x509_parse_certificate anchor \<noteq> UB" "verify_cert_signed_by tp anchor \<noteq> UB"
    using x509_parse_safe [OF assms] verify_cert_signed_by_safe [OF assms] by (auto dest: safe_not_UB)
  moreover have "safe r1 (\<lambda>_. True) \<and> budget w1 \<le> budget w"
    if "ca_time_check (nv_platform nv) v w = (r1, w1)" for v r1 w1
    using obeysD [OF time_checks_obey(2) that] .
  ultimately show "safe r (\<lambda>_. True) \<and> budget w' \<le> budget w"
    using run unfolding try_anchor_def
    by (auto split: res.splits prod.splits if_splits) fastforce+
qed

lemma try_anchors_obey:
  "\<forall>a \<in> set as. \<not> span_null a \<Longrightarrow> obeys budget (\<lambda>_. True) (try_anchors nv chain tp topv as)"
  by (induction as) (auto intro!: obeys_pure obeys_if obeys_bind [OF try_anchor_obeys])

lemma leaf_checks_safe:
  "\<not> span_null d \<Longrightarrow> safe (leaf_pin_check nv d) (\<lambda>_. True)" "safe (leaf_usage_check leaf) (\<lambda>_. True)"
  by (auto simp: leaf_pin_check_def leaf_usage_check_def)

lemma verify_chain_obeys:
  assumes "chain_valid chain"
  shows "obeys budget (\<lambda>_. True) (verify_chain nv chain h)"
proof -
  have nonnull: "\<not> span_null (ce_der (chain ! i))" if "i < length chain" for i
    using that assms by (auto simp: chain_valid_def)
  note parse = x509_parse_safe [THEN safe_or_err [THEN iffD2]]
  show ?thesis
    unfolding verify_chain_def Let_def
    by (intro obeys_if obeys_bind [OF obeys_pure [OF x509_parse_safe]]
        obeys_bind [OF obeys_pure [OF leaf_checks_safe(1)]] obeys_bind [OF obeys_pure [OF leaf_checks_safe(2)]]
        obeys_bind [OF time_checks_obey(1)]
        obeys_bind [OF obeys_pure [OF x509_verify_hostname_safe [THEN safe_or_err [THEN iffD2]]]]
        obeys_bind [OF chain_links_obey] obeys_bind [OF obeys_pure [OF parse]] try_anchors_obey
        obeys_pure assms nonnull)
      (use readable in \<open>auto simp: anchors_readable_def\<close>)
qed

end

sublocale native_laws \<subseteq> verifier_laws "native_auth_verifier nv" budget
  by unfold_locales
    (simp_all add: native_auth_verifier_def verify_chain_obeys obeys_pure verify_signature_safe)

end
