(* ===== verification/XboxPlatform.thy ===== *)
theory XboxPlatform
  imports Program
begin

text \<open>
  The platform of the console, \<open>src/platform/xbox360/platform_xbox360.cpp\<close>: random bytes, time and
  a socket as the interfaces of \<open>Platform\<close>. The calls of the system are a record of functions over
  the state of the system, which is a parameter; what they return is used as the code uses it. The
  laws of the two interfaces are proved from what the documentation of the calls says.
\<close>

section \<open>Model: the calls of the system\<close>

type_synonym socket = int

definition INVALID_SOCKET :: socket where "INVALID_SOCKET = -1"
definition SOCKET_ERROR :: int where "SOCKET_ERROR = -1"
definition WSAEINPROGRESS :: int where "WSAEINPROGRESS = 10036"

text \<open>
  \<open>os_recv\<close> gives the value of \<open>recv\<close> and the contents of the buffer after it; \<open>os_dns_lookup\<close> the
  value and the pointer that \<open>NetDll_XNetDnsLookup\<close> sets; \<open>os_dns_entry\<close> reads \<open>iStatus\<close>, \<open>cina\<close> and
  the first address of what it points to.
\<close>

record 'o system =
  os_crypt_random :: "nat \<Rightarrow> 'o \<Rightarrow> bytes \<times> 'o"
  os_file_time :: "'o \<Rightarrow> u64 \<times> 'o"
  os_net_startup :: "'o \<Rightarrow> int \<times> 'o"
  os_wsa_startup :: "'o \<Rightarrow> int \<times> 'o"
  os_wsa_cleanup :: "'o \<Rightarrow> 'o"
  os_net_cleanup :: "'o \<Rightarrow> 'o"
  os_dns_lookup :: "bytes \<Rightarrow> 'o \<Rightarrow> (int \<times> nat option) \<times> 'o"
  os_dns_entry :: "nat \<Rightarrow> 'o \<Rightarrow> (int \<times> nat \<times> u32) \<times> 'o"
  os_dns_release :: "nat \<Rightarrow> 'o \<Rightarrow> 'o"
  os_sleep :: "nat \<Rightarrow> 'o \<Rightarrow> 'o"
  os_socket :: "'o \<Rightarrow> socket \<times> 'o"
  os_connect :: "socket \<Rightarrow> u32 \<Rightarrow> u16 \<Rightarrow> 'o \<Rightarrow> int \<times> 'o"
  os_set_timeout :: "socket \<Rightarrow> bool \<Rightarrow> u32 \<Rightarrow> 'o \<Rightarrow> int \<times> 'o"
  os_send :: "socket \<Rightarrow> bytes \<Rightarrow> 'o \<Rightarrow> int \<times> 'o"
  os_recv :: "socket \<Rightarrow> nat \<Rightarrow> 'o \<Rightarrow> (int \<times> bytes) \<times> 'o"
  os_close_socket :: "socket \<Rightarrow> 'o \<Rightarrow> 'o"

text \<open>The world of a connection: the stream object, which is a socket, and the system.\<close>

record 'o xworld =
  xw_socket :: socket
  xw_system :: 'o

section \<open>Model: random bytes and time\<close>

definition xbox_random_bytes :: "'o system \<Rightarrow> nat \<Rightarrow> ('o xworld, bytes) action" where
  "xbox_random_bytes os n w =
     (if n > 0xFFFFFFFF then (Err XT_ERR_INVALID_ARGUMENT, w)
      else if n \<noteq> 0 then
        (let (bs, o') = os_crypt_random os n (xw_system w) in (Ok bs, w\<lparr>xw_system := o'\<rparr>))
      else (Ok [], w))"

definition FILETIME_EPOCH :: u64 where "FILETIME_EPOCH = 116444736000000000"

definition unix_seconds :: "u64 \<Rightarrow> u64" where
  "unix_seconds t = (if t < FILETIME_EPOCH then 0 else (t - FILETIME_EPOCH) div 10000000)"

definition xbox_unix_time_seconds :: "'o system \<Rightarrow> 'o xworld \<Rightarrow> u64 \<times> 'o xworld" where
  "xbox_unix_time_seconds os w =
     (let (t, o') = os_file_time os (xw_system w) in (unix_seconds t, w\<lparr>xw_system := o'\<rparr>))"

definition xbox360_platform :: "'o system \<Rightarrow> 'o xworld platform" where
  "xbox360_platform os =
     \<lparr>pf_random_bytes = xbox_random_bytes os, pf_unix_time_seconds = xbox_unix_time_seconds os\<rparr>"

section \<open>Model: the socket stream\<close>

text \<open>
  The loop of \<open>send_all\<close>: the system takes as much as it likes of what is left, at most
  \<open>2^31 - 1\<close> bytes at a time.
\<close>

function xbox_send_loop :: "'o system \<Rightarrow> socket \<Rightarrow> bytes \<Rightarrow> nat \<Rightarrow> 'o \<Rightarrow> unit res \<times> 'o" where
  "xbox_send_loop os s data off st =
     (if off < length data then
        let chunk = (if length data - off > 0x7fffffff then 0x7fffffff else length data - off);
            (n, st') = os_send os s (slice data off chunk) st
        in if n \<le> 0 then (Err XT_ERR_IO, st') else xbox_send_loop os s data (off + nat n) st'
      else (Ok (), st))"
  by pat_completeness auto
termination
  by (relation "measure (\<lambda>(os, s, data, off, st). length data - off)") auto

declare xbox_send_loop.simps [simp del]

definition xbox_send_all :: "'o system \<Rightarrow> bytes \<Rightarrow> ('o xworld, unit) action" where
  "xbox_send_all os data w =
     (if xw_socket w = INVALID_SOCKET then (Err XT_ERR_INVALID_ARGUMENT, w)
      else (let (r, o') = xbox_send_loop os (xw_socket w) data 0 (xw_system w)
            in (r, w\<lparr>xw_system := o'\<rparr>)))"

definition xbox_recv_some :: "'o system \<Rightarrow> nat \<Rightarrow> ('o xworld, bytes) action" where
  "xbox_recv_some os room w =
     (if xw_socket w = INVALID_SOCKET then (Err XT_ERR_INVALID_ARGUMENT, w)
      else if room = 0 then (Ok [], w)
      else
        let cap = (if room > 0x7fffffff then 0x7fffffff else room);
            ((n, buf), o') = os_recv os (xw_socket w) cap (xw_system w);
            w' = w\<lparr>xw_system := o'\<rparr>
        in if n = 0 then (Err XT_ERR_CLOSED, w')
           else if n < 0 then (Err XT_ERR_IO, w')
           else (Ok (take (nat n) buf), w'))"

definition xbox_close :: "'o system \<Rightarrow> 'o xworld \<Rightarrow> 'o xworld" where
  "xbox_close os w =
     (if xw_socket w \<noteq> INVALID_SOCKET
      then \<lparr>xw_socket = INVALID_SOCKET, xw_system = os_close_socket os (xw_socket w) (xw_system w)\<rparr>
      else w)"

definition is_open :: "'o xworld \<Rightarrow> bool" where
  "is_open w \<longleftrightarrow> xw_socket w \<noteq> INVALID_SOCKET"

definition xbox360_stream :: "'o system \<Rightarrow> 'o xworld stream" where
  "xbox360_stream os =
     \<lparr>sm_send_all = xbox_send_all os, sm_recv_some = xbox_recv_some os, sm_close = xbox_close os\<rparr>"

text \<open>
  \<open>while (dns->iStatus == WSAEINPROGRESS) Sleep(1);\<close> returns only if the system finishes the lookup.
\<close>

definition dns_poll :: "'o system \<Rightarrow> nat \<Rightarrow> unit \<Rightarrow> ('o xworld, unit + int \<times> nat \<times> u32) prog" where
  "dns_poll os h u w =
     (let ((status, cina, addr), o') = os_dns_entry os h (xw_system w)
      in if status = WSAEINPROGRESS then Some (Ok (Inl ()), w\<lparr>xw_system := os_sleep os 1 o'\<rparr>)
         else Some (Ok (Inr (status, cina, addr)), w\<lparr>xw_system := o'\<rparr>))"

definition dns_resolve :: "'o system \<Rightarrow> bytes \<Rightarrow> ('o xworld, u32) prog" where
  "dns_resolve os hostname w =
     (let ((result, dns), o') = os_dns_lookup os hostname (xw_system w); w = w\<lparr>xw_system := o'\<rparr>
      in if result \<noteq> 0 \<or> dns = None then throw XT_ERR_IO w
         else
           bind_prog (loop_prog (dns_poll os (the dns)) ()) (\<lambda>(status, cina, addr).
             then_prog (update_state (\<lambda>w. w\<lparr>xw_system := os_dns_release os (the dns) (xw_system w)\<rparr>))
               (if status \<noteq> 0 \<or> cina = 0 then throw XT_ERR_IO else ret addr)) w)"

definition open_socket :: "'o system \<Rightarrow> u32 \<Rightarrow> u16 \<Rightarrow> ('o xworld, unit) prog" where
  "open_socket os addr port w =
     (let (s, o') = os_socket os (xw_system w); w = \<lparr>xw_socket = s, xw_system = o'\<rparr>
      in if s = INVALID_SOCKET then Some (Err XT_ERR_IO, w)
         else
           let (r, o') = os_connect os s addr port (xw_system w); w = w\<lparr>xw_system := o'\<rparr>
           in if r = SOCKET_ERROR then Some (Err XT_ERR_IO, xbox_close os w) else Some (Ok (), w))"

definition connect_tcp :: "'o system \<Rightarrow> cstring \<Rightarrow> u16 \<Rightarrow> ('o xworld, unit) prog" where
  "connect_tcp os hostname port =
     (if hostname = None \<or> hostname = Some [] then throw XT_ERR_INVALID_ARGUMENT
      else
        then_prog (update_state (xbox_close os))
          (bind_prog (dns_resolve os (the hostname)) (\<lambda>addr. open_socket os addr port)))"

definition set_io_timeouts :: "'o system \<Rightarrow> u32 \<Rightarrow> u32 \<Rightarrow> ('o xworld, unit) action" where
  "set_io_timeouts os send_ms receive_ms w =
     (if xw_socket w = INVALID_SOCKET then (Err XT_ERR_CLOSED, w)
      else
        let (r, o') = os_set_timeout os (xw_socket w) True send_ms (xw_system w); w = w\<lparr>xw_system := o'\<rparr>
        in if r = SOCKET_ERROR then (Err XT_ERR_IO, w)
           else
             let (r, o') = os_set_timeout os (xw_socket w) False receive_ms (xw_system w);
                 w = w\<lparr>xw_system := o'\<rparr>
             in if r = SOCKET_ERROR then (Err XT_ERR_IO, w) else (Ok (), w))"

section \<open>Model: the network of the console\<close>

definition xbox360_network_startup :: "'o system \<Rightarrow> ('o, unit) action" where
  "xbox360_network_startup os st =
     (let (r, st) = os_net_startup os st
      in if r \<noteq> 0 then (Err XT_ERR_IO, st)
         else
           let (r, st) = os_wsa_startup os st
           in if r \<noteq> 0 then (Err XT_ERR_IO, os_net_cleanup os st) else (Ok (), st))"

definition xbox360_network_cleanup :: "'o system \<Rightarrow> 'o \<Rightarrow> 'o" where
  "xbox360_network_cleanup os st = os_net_cleanup os (os_wsa_cleanup os st)"

section \<open>The laws of the interfaces\<close>

text \<open>
  What the system promises: the generator fills the buffer, \<open>recv\<close> returns at most the size of the
  buffer, and the bytes that the peer will still send are finitely many, \<open>left\<close>.
\<close>

locale system_laws =
  fixes os :: "'o system" and left :: "'o \<Rightarrow> nat"
  assumes crypt_random: "os_crypt_random os k st = (bs, st') \<Longrightarrow> length bs = k \<and> left st' \<le> left st"
    and file_time: "left (snd (os_file_time os st)) \<le> left st"
    and send: "left (snd (os_send os s bs st)) \<le> left st"
    and recv: "os_recv os s cap st = ((n, buf), st') \<Longrightarrow>
      n \<le> int cap \<and> length buf = cap \<and> left st' + nat n \<le> left st"
    and close_socket: "left (os_close_socket os s st) \<le> left st"
begin

abbreviation budget :: "'o xworld \<Rightarrow> nat" where
  "budget w \<equiv> left (xw_system w)"

lemma xbox_send_loop_laws:
  "xbox_send_loop os s data off st = (r, st') \<Longrightarrow> r \<noteq> UB \<and> left st' \<le> left st"
proof (induction "length data - off" arbitrary: off st rule: less_induct)
  case less
  show ?case
  proof (cases "off < length data")
    case True
    define k where "k = (if length data - off > 0x7fffffff then 0x7fffffff else length data - off)"
    obtain n st1 where n: "os_send os s (slice data off k) st = (n, st1)" by fastforce
    with send [of s "slice data off k" st] have l: "left st1 \<le> left st" by simp
    show ?thesis
    proof (cases "n \<le> 0")
      case False
      with less.prems True n have "xbox_send_loop os s data (off + nat n) st1 = (r, st')"
        by (simp add: xbox_send_loop.simps [of os s data off st] Let_def k_def)
      moreover from False True have "length data - (off + nat n) < length data - off" by simp
      ultimately show ?thesis using less.hyps l by fastforce
    qed (use less.prems True n l in \<open>auto simp: xbox_send_loop.simps [of os s data off st] Let_def k_def\<close>)
  qed (use less.prems in \<open>auto simp: xbox_send_loop.simps [of os s data off st]\<close>)
qed

lemma xbox_platform_laws: "platform_laws (xbox360_platform os) budget"
proof (unfold_locales, goal_cases)
  case (1 n)
  show ?case
    using crypt_random
    by (auto intro!: obeysI simp: xbox360_platform_def xbox_random_bytes_def Let_def
        split: if_splits prod.splits)
next
  case (2 w)
  show ?case
    using file_time [of "xw_system w"]
    by (auto simp: xbox360_platform_def xbox_unix_time_seconds_def Let_def split: prod.splits)
qed

lemma xbox_stream_laws: "stream_laws (xbox360_stream os) budget"
proof (unfold_locales, goal_cases)
  case (1 bs)
  show ?case
    by (auto intro!: obeysI dest!: xbox_send_loop_laws simp: xbox360_stream_def xbox_send_all_def
        safe_True_iff Let_def split: if_splits prod.splits)
next
  case (2 n)
  show ?case
    using recv
    by (auto intro!: obeysI simp: xbox360_stream_def xbox_recv_some_def Let_def split: if_splits prod.splits)
      (fastforce dest: recv)+
next
  case (3 n w bs w')
  then show ?case
    by (auto simp: xbox360_stream_def xbox_recv_some_def Let_def split: if_splits prod.splits)
      (use recv in fastforce)+
next
  case (4 w)
  show ?case using close_socket by (simp add: xbox360_stream_def xbox_close_def)
qed

end

end
