(* ===== verification/XboxClient.thy ===== *)
theory XboxClient
  imports Connection NativeVerifier XboxPlatform
begin

text \<open>
  The facade of \<open>src/platform/xbox360/xbox_client.cpp\<close>: the object \<open>XboxTlsClient\<close>, which owns the
  platform, the socket, the verifier, the buffer of the trust store and the TLS client, and its member
  functions as programs on the object and the world. Files are calls of the system, as a parameter;
  the socket is part of the world. The verifier of a configuration is the one at the time of the
  call: it is used only while \<open>connect\<close> runs, and nothing changes it meanwhile.
\<close>

section \<open>Model: options and statistics\<close>

record options =
  xo_trust_store_path :: cstring
  xo_port :: u16
  xo_alpn :: cstring
  xo_require_alpn :: bool
  xo_preferred_group :: u16
  xo_application_record_padding :: nat
  xo_send_timeout_ms :: u32
  xo_receive_timeout_ms :: u32
  xo_certificate_sha256_pin :: "bytes option"
  xo_auto_reconnect :: bool
  xo_send_close_notify :: bool
  xo_request_peer_key_update :: bool

definition options_init :: options where
  "options_init =
     \<lparr>xo_trust_store_path = Some (ascii ''game:'' @ 0x5c # ascii ''roots.xts''), xo_port = 443,
      xo_alpn = Some (ascii ''http/1.1''), xo_require_alpn = False,
      xo_preferred_group = group_x25519, xo_application_record_padding = 0,
      xo_send_timeout_ms = 0, xo_receive_timeout_ms = 0, xo_certificate_sha256_pin = None,
      xo_auto_reconnect = True, xo_send_close_notify = True, xo_request_peer_key_update = False\<rparr>"

record stats =
  st_bytes_sent :: u64
  st_bytes_received :: u64
  st_connect_attempts :: u32
  st_successful_connections :: u32
  st_failed_connections :: u32
  st_key_updates_sent :: u32
  st_trust_store_reloads :: u32

definition stats_init :: stats where
  "stats_init =
     \<lparr>st_bytes_sent = 0, st_bytes_received = 0, st_connect_attempts = 0,
      st_successful_connections = 0, st_failed_connections = 0, st_key_updates_sent = 0,
      st_trust_store_reloads = 0\<rparr>"

text \<open>The loop over the comma-separated list, from its pointer on.\<close>

function alpn_list_loop :: "bytes \<Rightarrow> bytes \<Rightarrow> bool" where
  "alpn_list_loop p selected =
     (if p = [] then False
      else
        let start = takeWhile (\<lambda>c. c \<noteq> comma) p;
            rest = dropWhile (\<lambda>c. c \<noteq> comma) p
        in if length start = length selected \<and> start = selected then True
           else alpn_list_loop (drop 1 rest) selected)"
  by pat_completeness auto
termination
  by (relation "measure (\<lambda>(p, selected). length p)") (simp_all add: drop_token_less)

declare alpn_list_loop.simps [simp del]

definition alpn_list_contains :: "cstring \<Rightarrow> cstring \<Rightarrow> bool" where
  "alpn_list_contains list selected =
     (case (list, selected) of
        (Some l, Some s) \<Rightarrow> if s = [] then False else alpn_list_loop l s
      | _ \<Rightarrow> False)"

section \<open>Model: the object\<close>

record 'o facade =
  fc_verifier :: "'o xworld native_verifier"
  fc_tls :: "'o xworld client"
  fc_defaults :: options
  fc_active :: options
  fc_stats :: stats
  fc_trust_store_data :: "bytes option"
  fc_trust_store_size :: nat
  fc_last_error :: error
  fc_network_started :: bool
  fc_initialized :: bool

definition facade_new :: "'o system \<Rightarrow> 'o facade" where
  "facade_new os =
     \<lparr>fc_verifier = native_verifier_new (Some (xbox360_platform os)), fc_tls = tls_client_new,
      fc_defaults = options_init, fc_active = options_init, fc_stats = stats_init,
      fc_trust_store_data = None, fc_trust_store_size = 0, fc_last_error = XT_OK,
      fc_network_started = False, fc_initialized = False\<rparr>"

text \<open>
  The files of the system: \<open>fopen\<close>, \<open>fseek\<close> to the end or to the start, \<open>ftell\<close>, \<open>fread\<close> with the
  bytes that it read, \<open>fclose\<close>.
\<close>

record 'o files =
  fs_open :: "bytes \<Rightarrow> 'o \<Rightarrow> nat option \<times> 'o"
  fs_seek_end :: "nat \<Rightarrow> 'o \<Rightarrow> int \<times> 'o"
  fs_seek_start :: "nat \<Rightarrow> 'o \<Rightarrow> int \<times> 'o"
  fs_tell :: "nat \<Rightarrow> 'o \<Rightarrow> int \<times> 'o"
  fs_read :: "nat \<Rightarrow> nat \<Rightarrow> 'o \<Rightarrow> bytes \<times> 'o"
  fs_close :: "nat \<Rightarrow> 'o \<Rightarrow> 'o"

section \<open>Model: programs on the object\<close>

type_synonym ('o, 'a) fcl = "('o facade \<times> 'o xworld, 'a) prog"

definition facade :: "('o, 'o facade) fcl" where
  "facade s = Some (Ok (fst s), s)"

definition set_facade :: "('o facade \<Rightarrow> 'o facade) \<Rightarrow> ('o, unit) fcl" where
  "set_facade f s = Some (Ok (), (f (fst s), snd s))"

definition on_tls :: "('o xworld, 'a) cli \<Rightarrow> ('o, 'a) fcl" where
  "on_tls m s =
     (case m (fc_tls (fst s), snd s) of
        None \<Rightarrow> None
      | Some (r, (c, w)) \<Rightarrow> Some (r, ((fst s)\<lparr>fc_tls := c\<rparr>, w)))"

definition on_verifier ::
    "('o xworld native_verifier \<Rightarrow> 'a res \<times> 'o xworld native_verifier) \<Rightarrow> ('o, 'a) fcl" where
  "on_verifier m s = (case m (fc_verifier (fst s)) of (r, v) \<Rightarrow> Some (r, ((fst s)\<lparr>fc_verifier := v\<rparr>, snd s)))"

definition on_world :: "('o xworld, 'a) prog \<Rightarrow> ('o, 'a) fcl" where
  "on_world m s =
     (case m (snd s) of None \<Rightarrow> None | Some (r, w) \<Rightarrow> Some (r, (fst s, w)))"

text \<open>A call of the system, and one that gives no value.\<close>

definition sys :: "('o \<Rightarrow> 'a \<times> 'o) \<Rightarrow> ('o, 'a) fcl" where
  "sys f s =
     (case f (xw_system (snd s)) of (x, o') \<Rightarrow> Some (Ok x, (fst s, (snd s)\<lparr>xw_system := o'\<rparr>)))"

definition sys_do :: "('o \<Rightarrow> 'o) \<Rightarrow> ('o, unit) fcl" where
  "sys_do f = sys (\<lambda>o'. ((), f o'))"

definition close_socket :: "'o system \<Rightarrow> ('o, unit) fcl" where
  "close_socket os = on_world (update_state (xbox_close os))"

text \<open>The error that a call gives, as a value: \<open>None\<close> is \<open>XT_OK\<close>.\<close>

definition error_of :: "('s, unit) prog \<Rightarrow> ('s, error option) prog" where
  "error_of m = on_error (then_prog m (ret None)) (\<lambda>e. ret (Some e))"

text \<open>\<open>return remember(error);\<close>\<close>

definition remember :: "error option \<Rightarrow> ('o, unit) fcl" where
  "remember r =
     (case r of
        None \<Rightarrow> set_facade (\<lambda>f. f\<lparr>fc_last_error := XT_OK\<rparr>)
      | Some e \<Rightarrow> then_prog (set_facade (\<lambda>f. f\<lparr>fc_last_error := e\<rparr>)) (throw e))"

definition set_stats :: "(stats \<Rightarrow> stats) \<Rightarrow> ('o, unit) fcl" where
  "set_stats u = set_facade (\<lambda>f. f\<lparr>fc_stats := u (fc_stats f)\<rparr>)"

text \<open>\<open>++stats_.failed_connections; return remember(error);\<close>\<close>

definition failed_connection :: "error option \<Rightarrow> ('o, unit) fcl" where
  "failed_connection e =
     then_prog (set_stats (\<lambda>st. st\<lparr>st_failed_connections := st_failed_connections st + 1\<rparr>)) (remember e)"

section \<open>Model: the trust store\<close>

definition free_trust_store :: "('o, unit) fcl" where
  "free_trust_store =
     set_facade (\<lambda>f. f\<lparr>fc_trust_store_data := None, fc_trust_store_size := 0,
       fc_verifier := snd (clear_trust_anchors (fc_verifier f))\<rparr>)"

text \<open>The bytes of an open file, which stays open; an error stands for the code's early returns.\<close>

definition read_file :: "(nat \<Rightarrow> bool) \<Rightarrow> 'o files \<Rightarrow> nat \<Rightarrow> ('o, bytes) fcl" where
  "read_file alloc fs file =
     bind_prog (sys (fs_seek_end fs file)) (\<lambda>r.
       if r \<noteq> 0 then throw XT_ERR_IO
       else bind_prog (sys (fs_tell fs file)) (\<lambda>file_size.
         bind_prog (if file_size \<le> 0 then ret True
                    else bind_prog (sys (fs_seek_start fs file)) (\<lambda>r. ret (r \<noteq> 0))) (\<lambda>bad.
           if bad then throw XT_ERR_IO
           else if \<not> alloc (nat file_size) then throw XT_ERR_BUFFER_TOO_SMALL
           else bind_prog (sys (fs_read fs file (nat file_size))) (\<lambda>data.
             if length data \<noteq> nat file_size then throw XT_ERR_IO else ret data))))"

text \<open>The bytes that were read become the trust store, whatever was there before.\<close>

definition use_trust_store :: "bytes \<Rightarrow> ('o, unit) fcl" where
  "use_trust_store data =
     then_prog free_trust_store
     (bind_prog (on_error (bind_prog (on_verifier (\<lambda>v. load_trust_store v (Span data)))
         (\<lambda>n. ret (None, n))) (\<lambda>e. ret (Some e, 0))) (\<lambda>(e, loaded).
       if e \<noteq> None \<or> loaded = 0 then remember (if e \<noteq> None then e else Some XT_ERR_VERIFY)
       else
         then_prog (set_facade (\<lambda>f. f\<lparr>fc_trust_store_data := Some data, fc_trust_store_size := length data\<rparr>))
         (then_prog (set_stats (\<lambda>st. st\<lparr>st_trust_store_reloads := st_trust_store_reloads st + 1\<rparr>))
           (remember None))))"

definition load_trust_store_file :: "(nat \<Rightarrow> bool) \<Rightarrow> 'o files \<Rightarrow> cstring \<Rightarrow> ('o, unit) fcl" where
  "load_trust_store_file alloc fs path =
     (if path = None \<or> path = Some [] then remember (Some XT_ERR_INVALID_ARGUMENT)
      else bind_prog (sys (fs_open fs (the path))) (\<lambda>file.
        case file of
          None \<Rightarrow> remember (Some XT_ERR_IO)
        | Some h \<Rightarrow>
            bind_prog (on_error (bind_prog (read_file alloc fs h) (\<lambda>data. ret (Inr data))) (\<lambda>e. ret (Inl e)))
              (\<lambda>data. then_prog (sys_do (fs_close fs h))
                (case data of
                   Inl e \<Rightarrow> remember (Some e)
                 | Inr data \<Rightarrow> use_trust_store data))))"

definition reload_trust_store :: "(nat \<Rightarrow> bool) \<Rightarrow> 'o files \<Rightarrow> cstring \<Rightarrow> ('o, unit) fcl" where
  "reload_trust_store alloc fs path =
     bind_prog facade (\<lambda>f.
       if \<not> fc_network_started f then remember (Some XT_ERR_INVALID_ARGUMENT)
       else load_trust_store_file alloc fs path)"

section \<open>Model: closing\<close>

definition facade_close :: "(nat \<Rightarrow> bool) \<Rightarrow> 'o system \<Rightarrow> ('o, unit) fcl" where
  "facade_close alloc os =
     bind_prog facade (\<lambda>f.
     bind_prog
       (if c_state (fc_tls f) = CLIENT_CONNECTED \<and> xo_send_close_notify (fc_active f)
        then error_of (on_tls (close alloc))
        else if c_state (fc_tls f) \<noteq> CLIENT_IDLE then error_of (on_tls reset)
        else ret None)
       (\<lambda>e. then_prog (close_socket os) (remember e)))"

text \<open>The result of \<open>close\<close> is discarded.\<close>

definition shutdown :: "(nat \<Rightarrow> bool) \<Rightarrow> 'o system \<Rightarrow> ('o, unit) fcl" where
  "shutdown alloc os =
     bind_prog (error_of (facade_close alloc os)) (\<lambda>_.
     then_prog free_trust_store
     (bind_prog facade (\<lambda>f.
      then_prog
        (if fc_network_started f then
           then_prog (sys_do (xbox360_network_cleanup os)) (set_facade (\<lambda>f. f\<lparr>fc_network_started := False\<rparr>))
         else ret ())
        (set_facade (\<lambda>f. f\<lparr>fc_initialized := False\<rparr>)))))"

section \<open>Model: starting\<close>

definition start_network :: "'o system \<Rightarrow> ('o, error option) fcl" where
  "start_network os =
     bind_prog facade (\<lambda>f.
       if fc_network_started f then ret None
       else
         bind_prog (sys (xbox360_network_startup os)) (\<lambda>r.
         bind_prog (error_of (of_res r)) (\<lambda>e.
           if e \<noteq> None then ret e
           else then_prog (set_facade (\<lambda>f. f\<lparr>fc_network_started := True\<rparr>)) (ret None))))"

definition initialize :: "(nat \<Rightarrow> bool) \<Rightarrow> 'o system \<Rightarrow> 'o files \<Rightarrow> options \<Rightarrow> ('o, unit) fcl" where
  "initialize alloc os fs opts =
     then_prog (set_facade (\<lambda>f. f\<lparr>fc_defaults := opts\<rparr>))
     (bind_prog (start_network os) (\<lambda>e.
       if e \<noteq> None then remember e
       else
         bind_prog (error_of (load_trust_store_file alloc fs (xo_trust_store_path opts))) (\<lambda>e.
           if e \<noteq> None then then_prog (shutdown alloc os) (remember e)
           else then_prog (set_facade (\<lambda>f. f\<lparr>fc_initialized := True\<rparr>)) (remember None))))"

definition initialize_default :: "(nat \<Rightarrow> bool) \<Rightarrow> 'o system \<Rightarrow> 'o files \<Rightarrow> ('o, unit) fcl" where
  "initialize_default alloc os fs = bind_prog facade (\<lambda>f. initialize alloc os fs (fc_defaults f))"

definition initialize_path :: "(nat \<Rightarrow> bool) \<Rightarrow> 'o system \<Rightarrow> 'o files \<Rightarrow> cstring \<Rightarrow> ('o, unit) fcl" where
  "initialize_path alloc os fs path =
     bind_prog facade (\<lambda>f. initialize alloc os fs ((fc_defaults f)\<lparr>xo_trust_store_path := path\<rparr>))"

section \<open>Model: connecting\<close>

text \<open>A connection that is still open, when the options allow to replace it.\<close>

definition drop_connection :: "(nat \<Rightarrow> bool) \<Rightarrow> 'o system \<Rightarrow> options \<Rightarrow> ('o, unit) fcl" where
  "drop_connection alloc os opts =
     bind_prog (error_of (on_tls (if xo_send_close_notify opts then close alloc else reset))) (\<lambda>_.
       close_socket os)"

definition set_pin :: "options \<Rightarrow> ('o, error option) fcl" where
  "set_pin opts =
     (case xo_certificate_sha256_pin opts of
        None \<Rightarrow>
          then_prog (set_facade (\<lambda>f. f\<lparr>fc_verifier := clear_leaf_certificate_sha256_pin (fc_verifier f)\<rparr>))
            (ret None)
      | Some p \<Rightarrow>
          bind_prog (of_res (subspan (Span p) 0 32)) (\<lambda>pin.
            error_of (on_verifier (\<lambda>v. set_leaf_certificate_sha256_pin v pin))))"

definition facade_config :: "'o system \<Rightarrow> cstring \<Rightarrow> options \<Rightarrow> 'o facade \<Rightarrow> 'o xworld client_config" where
  "facade_config os hostname opts f =
     client_config_init\<lparr>cc_platform := Some (xbox360_platform os), cc_stream := Some (xbox360_stream os),
       cc_verifier := Some (native_auth_verifier (fc_verifier f)), cc_hostname := hostname,
       cc_alpn := xo_alpn opts, cc_preferred_group := xo_preferred_group opts,
       cc_application_record_padding := xo_application_record_padding opts\<rparr>"

text \<open>\<open>negotiated_alpn()\<close> as a string: reading it without a terminator leaves the buffer.\<close>

definition negotiated_alpn :: "'w client \<Rightarrow> bytes res" where
  "negotiated_alpn c =
     (if 0 \<in> set (c_negotiated_alpn c) then Ok (takeWhile (\<lambda>b. b \<noteq> 0) (c_negotiated_alpn c)) else UB)"

definition act_prog :: "('w, 'a) action \<Rightarrow> ('w, 'a) prog" where
  "act_prog m w = Some (m w)"

text \<open>After the handshake: what the caller asked for beyond it.\<close>

definition after_connect :: "(nat \<Rightarrow> bool) \<Rightarrow> 'o system \<Rightarrow> options \<Rightarrow> ('o, unit) fcl" where
  "after_connect alloc os opts =
     bind_prog facade (\<lambda>f.
     bind_prog (if xo_require_alpn opts
                then bind_prog (of_res (negotiated_alpn (fc_tls f))) (\<lambda>negotiated.
                  ret (\<not> alpn_list_contains (xo_alpn opts) (Some negotiated)))
                else ret False) (\<lambda>refused.
     if refused then
       then_prog (then_prog (on_tls (close alloc)) (close_socket os)) (failed_connection (Some XT_ERR_BAD_HANDSHAKE))
     else
       bind_prog (if xo_request_peer_key_update opts then error_of (on_tls (key_update alloc True))
                  else ret None) (\<lambda>e.
       if e \<noteq> None then failed_connection e
       else
         then_prog
           (if xo_request_peer_key_update opts
            then set_stats (\<lambda>st. st\<lparr>st_key_updates_sent := st_key_updates_sent st + 1\<rparr>) else ret ())
         (then_prog
           (set_stats (\<lambda>st. st\<lparr>st_successful_connections := st_successful_connections st + 1\<rparr>))
           (remember None)))))"

definition open_connection ::
    "(nat \<Rightarrow> bool) \<Rightarrow> 'o system \<Rightarrow> cstring \<Rightarrow> options \<Rightarrow> ('o, unit) fcl" where
  "open_connection alloc os hostname opts =
     (if xo_preferred_group opts \<noteq> group_x25519 \<and> xo_preferred_group opts \<noteq> group_secp256r1
      then failed_connection (Some XT_ERR_INVALID_ARGUMENT)
      else bind_prog (set_pin opts) (\<lambda>e.
        if e \<noteq> None then failed_connection e
        else bind_prog (error_of (on_world (connect_tcp os hostname (xo_port opts)))) (\<lambda>e.
          if e \<noteq> None then failed_connection e
          else bind_prog (error_of (on_world (act_prog
                 (set_io_timeouts os (xo_send_timeout_ms opts) (xo_receive_timeout_ms opts))))) (\<lambda>e.
            if e \<noteq> None then then_prog (close_socket os) (failed_connection e)
            else bind_prog facade (\<lambda>f.
              bind_prog (error_of (on_tls (connect alloc (facade_config os hostname opts f)))) (\<lambda>e.
              if e \<noteq> None then then_prog (close_socket os) (failed_connection e)
              else then_prog (set_facade (\<lambda>f. f\<lparr>fc_active := opts\<rparr>)) (after_connect alloc os opts)))))))"

definition facade_connect ::
    "(nat \<Rightarrow> bool) \<Rightarrow> 'o system \<Rightarrow> cstring \<Rightarrow> options \<Rightarrow> ('o, unit) fcl" where
  "facade_connect alloc os hostname opts =
     then_prog (set_stats (\<lambda>st. st\<lparr>st_connect_attempts := st_connect_attempts st + 1\<rparr>))
     (bind_prog facade (\<lambda>f.
      if \<not> fc_initialized f \<or> hostname = None \<or> hostname = Some []
      then failed_connection (Some XT_ERR_INVALID_ARGUMENT)
      else if c_state (fc_tls f) = CLIENT_CONNECTED \<and> \<not> xo_auto_reconnect opts
      then remember (Some XT_ERR_INVALID_ARGUMENT)
      else
        then_prog (if c_state (fc_tls f) = CLIENT_CONNECTED then drop_connection alloc os opts else ret ())
        (bind_prog facade (\<lambda>f.
         bind_prog (if c_state (fc_tls f) \<noteq> CLIENT_IDLE then error_of (on_tls reset) else ret None) (\<lambda>e.
           if e \<noteq> None then remember e else open_connection alloc os hostname opts)))))"

definition facade_connect_to ::
    "(nat \<Rightarrow> bool) \<Rightarrow> 'o system \<Rightarrow> cstring \<Rightarrow> u16 \<Rightarrow> cstring \<Rightarrow> ('o, unit) fcl" where
  "facade_connect_to alloc os hostname port alpn =
     bind_prog facade (\<lambda>f.
       facade_connect alloc os hostname ((fc_defaults f)\<lparr>xo_port := port, xo_alpn := alpn\<rparr>))"

section \<open>Model: data\<close>

definition facade_send :: "(nat \<Rightarrow> bool) \<Rightarrow> byte_span \<Rightarrow> ('o, unit) fcl" where
  "facade_send alloc data =
     bind_prog (error_of (on_tls (send alloc data))) (\<lambda>e.
     then_prog
       (if e = None
        then set_stats (\<lambda>st. st\<lparr>st_bytes_sent := st_bytes_sent st + of_nat (span_size data)\<rparr>)
        else ret ())
       (remember e))"

text \<open>With a pointer and a size, for which null is refused before the client sees it.\<close>

definition facade_send_data :: "(nat \<Rightarrow> bool) \<Rightarrow> byte_span \<Rightarrow> ('o, unit) fcl" where
  "facade_send_data alloc data =
     (if span_null data \<and> span_size data \<noteq> 0 then remember (Some XT_ERR_INVALID_ARGUMENT)
      else facade_send alloc data)"

definition facade_receive :: "(nat \<Rightarrow> bool) \<Rightarrow> byte_span \<Rightarrow> ('o, bytes) fcl" where
  "facade_receive alloc out =
     bind_prog (on_error (bind_prog (on_tls (recv alloc out)) (\<lambda>bs. ret (None, bs))) (\<lambda>e. ret (Some e, [])))
       (\<lambda>(e, bs). then_prog
         (if e = None
          then set_stats (\<lambda>st. st\<lparr>st_bytes_received := st_bytes_received st + of_nat (length bs)\<rparr>)
          else ret ())
         (then_prog (remember e) (ret bs)))"

definition facade_receive_data :: "(nat \<Rightarrow> bool) \<Rightarrow> byte_span \<Rightarrow> ('o, bytes) fcl" where
  "facade_receive_data alloc out =
     (if span_null out \<and> span_size out \<noteq> 0 then then_prog (remember (Some XT_ERR_INVALID_ARGUMENT)) (ret [])
      else facade_receive alloc out)"

definition facade_key_update :: "(nat \<Rightarrow> bool) \<Rightarrow> bool \<Rightarrow> ('o, unit) fcl" where
  "facade_key_update alloc request =
     bind_prog (error_of (on_tls (key_update alloc request))) (\<lambda>e.
     then_prog
       (if e = None then set_stats (\<lambda>st. st\<lparr>st_key_updates_sent := st_key_updates_sent st + 1\<rparr>)
        else ret ())
       (remember e))"

section \<open>Model: settings and queries\<close>

definition set_default_options :: "options \<Rightarrow> 'o facade \<Rightarrow> 'o facade" where
  "set_default_options opts f = f\<lparr>fc_defaults := opts\<rparr>"

definition reset_stats :: "'o facade \<Rightarrow> 'o facade" where
  "reset_stats f = f\<lparr>fc_stats := stats_init\<rparr>"

definition connected :: "'o facade \<Rightarrow> bool" where
  "connected f \<longleftrightarrow> c_state (fc_tls f) = CLIENT_CONNECTED"

end
