(* ===== verification/Session.thy ===== *)
theory Session
  imports Connection
begin

text \<open>
  The states of a client over its whole life: which transitions the member functions make, and that
  a client which is not connected holds no secret. The steps between two calls of the interface are
  shown to keep the state and the configuration once and for all, through the preorder rules of
  \<open>Program\<close>.
\<close>

section \<open>What the inner functions leave alone\<close>

text \<open>\<open>agree f\<close>: two states in which the part \<open>f\<close> of the object is the same.\<close>

definition agree :: "('w client \<Rightarrow> 'x) \<Rightarrow> 'w client \<times> 'w \<Rightarrow> 'w client \<times> 'w \<Rightarrow> bool" where
  "agree f s t \<longleftrightarrow> f (fst t) = f (fst s)"

interpretation agree: state_preorder "agree f" for f
  by unfold_locales (auto simp: agree_def)

lemmas agree_rules [keeps_intros] =
  agree.keeps_ret agree.keeps_throw agree.keeps_of_res agree.keeps_check agree.keeps_bind
  agree.keeps_then agree.keeps_on_error agree.keeps_loop

lemma agree_client [keeps_intros]: "keeps_rel (agree f) client"
  and agree_outside [keeps_intros]: "keeps_rel (agree f) (outside act)"
  and agree_with_stream [keeps_intros]:
    "(\<And>sm. keeps_rel (agree f) (u sm)) \<Longrightarrow> keeps_rel (agree f) (with_stream u)"
  and agree_update [keeps_intros]: "(\<And>c. f (v c) = f c) \<Longrightarrow> keeps_rel (agree f) (update v)"
  and agree_option [keeps_intros]:
    "(x = None \<Longrightarrow> keeps_rel (agree f) m) \<Longrightarrow> (\<And>y. x = Some y \<Longrightarrow> keeps_rel (agree f) (l y)) \<Longrightarrow>
     keeps_rel (agree f) (case x of None \<Rightarrow> m | Some y \<Rightarrow> l y)"
  and agree_res [keeps_intros]:
    "(\<And>z. r = Ok z \<Longrightarrow> keeps_rel (agree f) (p z)) \<Longrightarrow> (\<And>e. r = Err e \<Longrightarrow> keeps_rel (agree f) (h e)) \<Longrightarrow>
     keeps_rel (agree f) n \<Longrightarrow> keeps_rel (agree f) (case r of Ok z \<Rightarrow> p z | Err e \<Rightarrow> h e | UB \<Rightarrow> n)"
  and agree_if [keeps_intros]:
    "(b \<Longrightarrow> keeps_rel (agree f) t1) \<Longrightarrow> (\<not> b \<Longrightarrow> keeps_rel (agree f) t2) \<Longrightarrow>
     keeps_rel (agree f) (if b then t1 else t2)"
  and agree_prod [keeps_intros]:
    "(\<And>v w. pr = (v, w) \<Longrightarrow> keeps_rel (agree f) (g v w)) \<Longrightarrow>
     keeps_rel (agree f) (case pr of (v, w) \<Rightarrow> g v w)"
  by (auto simp: keeps_rel_def agree_def client_def outside_def update_def with_stream_def
      bind_prog_run split: option.splits res.splits prod.splits)

text \<open>A client program that keeps the state and the configuration, whatever its result.\<close>

abbreviation same_session :: "'w client \<times> 'w \<Rightarrow> 'w client \<times> 'w \<Rightarrow> bool" where
  "same_session \<equiv> agree (\<lambda>c. (c_state c, c_config c))"

abbreviation inner :: "('w, 'a) cli \<Rightarrow> bool" where
  "inner \<equiv> keeps_rel same_session"

lemma same_session_iff:
  "same_session s t \<longleftrightarrow> c_state (fst t) = c_state (fst s) \<and> c_config (fst t) = c_config (fst s)"
  by (auto simp: agree_def)

lemma inner_read_record [keeps_intros]: "keeps_rel (agree f) (read_record n)"
  unfolding read_record_def Let_def by (intro keeps_intros)

lemma inner_send_plain_record [keeps_intros]: "keeps_rel (agree f) (send_plain_record t p)"
  unfolding send_plain_record_def Let_def by (intro keeps_intros)

lemma inner_send_protected [keeps_intros]: 
  "(\<And>k c. f (c\<lparr>c_client_app_keys := k\<rparr>) = f c) \<Longrightarrow> (\<And>k c. f (c\<lparr>c_client_hs_keys := k\<rparr>) = f c) \<Longrightarrow>
   keeps_rel (agree f) (send_protected alloc t p)"
  unfolding send_protected_def Let_def by (intro keeps_intros; simp)

lemma inner_handle_alert [keeps_intros]: "inner (handle_alert p)"
  unfolding handle_alert_def Let_def by (intro keeps_intros; simp)

lemma inner_transcript_add [keeps_intros]: 
  "(\<And>t c. f (c\<lparr>c_transcript := t\<rparr>) = f c) \<Longrightarrow> keeps_rel (agree f) (transcript_add b)"
  unfolding transcript_add_def by (intro keeps_intros; simp)

lemma inner_handle_handshake_message [keeps_intros]: "inner (handle_handshake_message msg fl)"
  unfolding handle_handshake_message_def handle_encrypted_extensions_def handle_certificate_def
    handle_certificate_verify_def handle_finished_def
  by (intro keeps_intros; simp)

text \<open>Handling a message does not touch the deframer that holds it.\<close>

lemma handle_handshake_message_deframer: "keeps_rel (agree c_deframer) (handle_handshake_message msg fl)"
  unfolding handle_handshake_message_def handle_encrypted_extensions_def handle_certificate_def
    handle_certificate_verify_def handle_finished_def
  by (intro keeps_intros; simp)

lemma post_handshake_message_deframer: "keeps_rel (agree c_deframer) (post_handshake_message alloc msg)"
  unfolding post_handshake_message_def update_server_traffic_def update_client_traffic_def Let_def
  by (intro keeps_intros; simp)

lemma inner_deframe_append [keeps_intros]: "inner (deframe_append bs)"
  unfolding deframe_append_def Let_def by (intro keeps_intros; simp)

lemma inner_deframe_consume [keeps_intros]: "inner deframe_consume"
  unfolding deframe_consume_def Let_def by (intro keeps_intros; simp)

lemma inner_open_record [keeps_intros]:
  "(\<And>k c. f (upd k c) = f c) \<Longrightarrow> keeps_rel (agree f) (open_record sel upd rec)"
  unfolding open_record_def Let_def by (intro keeps_intros)

lemma inner_set_traffic_keys [keeps_intros]:
  "(\<And>k c. f (upd k c) = f c) \<Longrightarrow> keeps_rel (agree f) (set_traffic_keys secret sel upd)"
  unfolding set_traffic_keys_def Let_def by (intro keeps_intros)

lemma inner_flight_messages [keeps_intros]: "inner (flight_messages fl)"
  unfolding flight_messages_def flight_messages_body_def by (intro keeps_intros)

lemma inner_process_server_handshake [keeps_intros]: "inner (process_server_handshake alloc)"
  unfolding process_server_handshake_def finish_handshake_def flight_body_def flight_record_def Let_def
  by (intro keeps_intros; simp)

lemma inner_random_private_key [keeps_intros]: "inner (random_private_key pf retry)"
  unfolding random_private_key_def by (intro keeps_intros; simp)

lemma inner_p256_keygen [keeps_intros]: "inner (p256_keygen pf retry n e)"
proof (induction n arbitrary: e)
  case 0
  show ?case unfolding p256_keygen.simps by (intro keeps_intros)
next
  case (Suc n)
  show ?case unfolding p256_keygen.simps by (intro keeps_intros Suc.IH; simp)
qed

lemma inner_generate_key [keeps_intros]: "inner (generate_key pf retry g)"
  unfolding generate_key_def x25519_keygen_def by (intro keeps_intros; simp)

lemma inner_send_client_hello [keeps_intros]: "inner (send_client_hello p)"
  unfolding send_client_hello_def by (intro keeps_intros; simp)

lemma inner_consume_last [keeps_intros]: "inner consume_last"
  unfolding consume_last_def by (intro keeps_intros)

lemma inner_hello_body [keeps_intros]: "inner (hello_body pf sid hl)"
  unfolding hello_body_def hello_record_def hello_retry_def retry_transcript_def Let_def
  by (intro keeps_intros; simp)

lemma inner_handshake_keys [keeps_intros]: "inner (handshake_keys sh g)"
  unfolding handshake_keys_def Let_def by (intro keeps_intros; simp)

lemma inner_first_client_hello [keeps_intros]: "inner (first_client_hello cfg pf)"
  unfolding first_client_hello_def Let_def by (intro keeps_intros)

lemma inner_update_traffic [keeps_intros]: "inner update_server_traffic" "inner update_client_traffic"
  unfolding update_server_traffic_def update_client_traffic_def Let_def
  by (intro keeps_intros; simp)+

lemma inner_process_post_handshake [keeps_intros]: "inner (process_post_handshake alloc bs)"
  unfolding process_post_handshake_def post_handshake_body_def post_handshake_message_def
  by (intro keeps_intros; simp)

lemma inner_send_chunk [keeps_intros]: "inner (send_chunk alloc padding chunk)"
  unfolding send_chunk_def Let_def by (intro keeps_intros; simp)

lemma inner_recv_pending [keeps_intros]: "inner (recv_pending n)"
  unfolding recv_pending_def Let_def by (intro keeps_intros; simp)

lemma inner_recv_data [keeps_intros]: "inner (recv_data n plain)"
  unfolding recv_data_def Let_def by (intro keeps_intros; simp)

section \<open>How a function stops\<close>

text \<open>Every byte that \<open>wipe_secrets\<close> clears is zero.\<close>

definition secrets_wiped :: "'w client \<Rightarrow> bool" where
  "secrets_wiped c \<longleftrightarrow>
     c_private_key c = replicate 32 0 \<and> c_public_key c = replicate 65 0
     \<and> c_schedule c = key_schedule_zero
     \<and> c_client_hs_keys c = traffic_keys_zero \<and> c_server_hs_keys c = traffic_keys_zero
     \<and> c_client_app_keys c = traffic_keys_zero \<and> c_server_app_keys c = traffic_keys_zero"

lemma secrets_wiped_wipe [simp]: "secrets_wiped (wipe_secrets c)"
  and wipe_secrets_simps [simp]: "c_state (wipe_secrets c) = c_state c"
    "c_config (wipe_secrets c) = c_config c" "c_deframer (wipe_secrets c) = c_deframer c"
    "c_pending_app_length (wipe_secrets c) = c_pending_app_length c"
  by (simp_all add: secrets_wiped_def wipe_secrets_def)

text \<open>
  \<open>stops S m\<close>: after a result the session goes on as before; after an error the client is in one
  of the states \<open>S\<close> and holds no secret.
\<close>

definition stops :: "client_state set \<Rightarrow> ('w, 'a) cli \<Rightarrow> bool" where
  "stops S m \<longleftrightarrow> (\<forall>s r s'. m s = Some (r, s') \<longrightarrow>
     (case r of
        Ok _ \<Rightarrow> same_session s s'
      | Err _ \<Rightarrow> c_state (fst s') \<in> S \<and> secrets_wiped (fst s') \<and> c_config (fst s') = c_config (fst s)
      | UB \<Rightarrow> True))"

lemma stopsI:
  assumes "\<And>s x s'. m s = Some (Ok x, s') \<Longrightarrow> same_session s s'"
    and "\<And>s e s'. m s = Some (Err e, s') \<Longrightarrow>
      c_state (fst s') \<in> S \<and> secrets_wiped (fst s') \<and> c_config (fst s') = c_config (fst s)"
  shows "stops S m"
  using assms unfolding stops_def by (auto split: res.split)

lemma stops_Ok: "stops S m \<Longrightarrow> m s = Some (Ok x, s') \<Longrightarrow> same_session s s'"
  and stops_Err: "stops S m \<Longrightarrow> m s = Some (Err e, s') \<Longrightarrow>
    c_state (fst s') \<in> S \<and> secrets_wiped (fst s') \<and> c_config (fst s') = c_config (fst s)"
  unfolding stops_def by fastforce+

lemma stops_outcome:
  assumes "stops S m" and "m s = Some (r, s')" and "r \<noteq> UB"
  shows "is_ok r \<and> same_session s s' \<or> \<not> is_ok r \<and> c_state (fst s') \<in> S \<and> secrets_wiped (fst s')"
  using assms stops_Ok [OF assms(1)] stops_Err [OF assms(1)] by (cases r) simp_all

lemma fail_run:
  assumes "fail s = Some (r, s')"
  shows "r = Ok () \<and> c_state (fst s') = CLIENT_FAILED \<and> secrets_wiped (fst s')
    \<and> c_config (fst s') = c_config (fst s)"
  using assms
  by (auto simp: fail_def then_prog_def bind_prog_run update_def close_stream_def split: option.splits)

lemma or_fail_Ok: "or_fail m s = Some (Ok x, s') \<longleftrightarrow> m s = Some (Ok x, s')"
  unfolding or_fail_def by (rule on_error_Ok) (simp add: then_prog_Ok)

lemma or_fail_step: "m s = Some (Ok x, t) \<Longrightarrow> or_fail m s = Some (Ok x, t)"
  by (simp add: or_fail_Ok)

lemma or_fail_Err:
  assumes "or_fail m s = Some (Err e, s')"
  obtains s1 where "m s = Some (Err e, s1)" "fail s1 = Some (Ok (), s')"
  using assms by (auto simp: or_fail_def on_error_Err then_prog_def bind_prog_run dest: fail_run)

lemma stops_or_fail:
  assumes "inner m"
  shows "stops {CLIENT_FAILED} (or_fail m)"
proof (rule stopsI)
  fix s x s' assume "or_fail m s = Some (Ok x, s')"
  then show "same_session s s'" using keeps_relD [OF assms] by (auto simp: or_fail_Ok)
next
  fix s e s' assume "or_fail m s = Some (Err e, s')"
  then obtain s1 where m: "m s = Some (Err e, s1)" and f: "fail s1 = Some (Ok (), s')"
    by (rule or_fail_Err)
  from keeps_relD [OF assms m] fail_run [OF f]
  show "c_state (fst s') \<in> {CLIENT_FAILED} \<and> secrets_wiped (fst s')
    \<and> c_config (fst s') = c_config (fst s)" by (simp add: same_session_iff)
qed

lemma stops_mono: "stops S m \<Longrightarrow> S \<subseteq> T \<Longrightarrow> stops T m"
  unfolding stops_def by (fastforce split: res.splits)

lemma stops_ret: "stops S (ret x)"
  by (rule stopsI) (auto simp: same_session_iff)

lemma stops_bind:
  assumes "stops S m" and "\<And>x. stops S (f x)"
  shows "stops S (bind_prog m f)"
proof (rule stopsI)
  fix s y s' assume "bind_prog m f s = Some (Ok y, s')"
  then obtain x s1 where "m s = Some (Ok x, s1)" "f x s1 = Some (Ok y, s')"
    unfolding bind_prog_Ok by blast
  from agree.R_trans [OF stops_Ok [OF assms(1) this(1)] stops_Ok [OF assms(2) this(2)]]
  show "same_session s s'" .
next
  fix s e s' assume "bind_prog m f s = Some (Err e, s')"
  then consider (first) "m s = Some (Err e, s')"
    | (second) x s1 where "m s = Some (Ok x, s1)" "f x s1 = Some (Err e, s')"
    by (auto simp: bind_prog_run)
  then show "c_state (fst s') \<in> S \<and> secrets_wiped (fst s') \<and> c_config (fst s') = c_config (fst s)"
  proof cases
    case first
    with assms(1) show ?thesis by (rule stops_Err)
  next
    case second
    from stops_Ok [OF assms(1) second(1)] stops_Err [OF assms(2) second(2)]
    show ?thesis by (simp add: same_session_iff)
  qed
qed

lemma stops_then: "stops S m \<Longrightarrow> stops S k \<Longrightarrow> stops S (then_prog m k)"
  unfolding then_prog_def by (rule stops_bind)

lemma stops_if: "stops S m \<Longrightarrow> stops S k \<Longrightarrow> stops S (if b then m else k)"
  by simp

lemma stops_if': "(b \<Longrightarrow> stops S m) \<Longrightarrow> (\<not> b \<Longrightarrow> stops S k) \<Longrightarrow> stops S (if b then m else k)"
  by simp

lemma stops_loop:
  assumes b: "\<And>l. stops S (body l)"
  shows "stops S (loop_prog body l)"
  unfolding stops_def
proof (intro allI impI)
  fix s r s' assume run: "loop_prog body l s = Some (r, s')"
  show "case r of Ok _ \<Rightarrow> same_session s s'
      | Err _ \<Rightarrow> c_state (fst s') \<in> S \<and> secrets_wiped (fst s') \<and> c_config (fst s') = c_config (fst s)
      | UB \<Rightarrow> True"
    by (rule loop_prog_invariant [OF run, where I = "\<lambda>l t. same_session s t"])
      (auto simp: same_session_iff dest: stops_Ok [OF b] stops_Err [OF b])
qed

text \<open>A step that only ends in an error, and one that is followed by such a step.\<close>

lemma stops_bind_inner:
  assumes "inner m" and "\<And>s e s'. m s \<noteq> Some (Err e, s')" and "\<And>x. stops S (f x)"
  shows "stops S (bind_prog m f)"
  using assms by (intro stops_bind) (auto intro!: stopsI dest: keeps_relD)

lemma client_run [simp]: "client s = Some (r, s') \<longleftrightarrow> r = Ok (fst s) \<and> s' = s"
  and update_run [simp]: "update f s = Some (r2, s') \<longleftrightarrow> r2 = Ok () \<and> s' = (f (fst s), snd s)"
  by (auto simp: client_def update_def)

lemma stops_client: "(\<And>c. stops S (f c)) \<Longrightarrow> stops S (bind_prog client f)"
  by (rule stops_bind_inner) (auto intro: keeps_intros)

lemma stops_recv_data: "stops S (recv_data cap plain)"
  by (rule stopsI)
    (auto simp: recv_data_def Let_def bind_prog_run then_prog_def same_session_iff split: if_splits)

lemma handle_alert_no_Err: "handle_alert p s \<noteq> Some (Err e, s')"
  by (auto simp: handle_alert_def then_prog_def bind_prog_run Let_def)

lemma stops_alert: "(\<And>x. stops S (f x)) \<Longrightarrow> stops S (bind_prog (handle_alert p) f)"
  by (rule stops_bind_inner [OF inner_handle_alert handle_alert_no_Err])

lemma stops_closed_by_peer: "stops {CLIENT_FAILED, CLIENT_CLOSED} (then_prog closed_by_peer (throw e))"
  by (rule stopsI)
    (auto simp: closed_by_peer_def with_stream_def close_stream_def then_prog_def bind_prog_run
      split: option.splits)

lemma stops_recv_body: "stops {CLIENT_FAILED, CLIENT_CLOSED} (recv_body alloc cap u)"
proof -
  note fails = stops_mono [OF stops_or_fail, of _ "{CLIENT_FAILED, CLIENT_CLOSED}"]
  show ?thesis
    unfolding recv_body_def
    by (intro stops_bind stops_if stops_then stops_ret stops_recv_data stops_alert fails
        stops_closed_by_peer keeps_intros)
      (auto intro!: stops_bind stops_if stops_then stops_ret stops_recv_data stops_alert fails
        stops_closed_by_peer keeps_intros)
qed


lemma subspan_no_Err: "subspan s p n \<noteq> Err e"
  by (cases s) (auto simp: subspan_def)

lemma stops_send_loop: "stops {CLIENT_FAILED} (send_loop alloc padding m data off)"
proof (induction alloc padding m data off rule: send_loop.induct)
  case (1 alloc padding m data off)
  have chunk: "stops {CLIENT_FAILED} (bind_prog (of_res (subspan data off n))
      (\<lambda>chunk. or_fail (send_chunk alloc padding chunk)))" for n
    by (intro stops_bind_inner stops_or_fail keeps_intros) (simp add: subspan_no_Err eq_commute [of "Err _"])
  show ?case
    by (subst send_loop.simps) (simp only: Let_def, intro impI stops_if' stops_then chunk stops_ret 1; simp)
qed

section \<open>The member functions\<close>

text \<open>
  \<open>finishes m\<close>: the last thing \<open>m\<close> does is to mark the client as connected.
\<close>

definition finishes :: "('w, 'a) cli \<Rightarrow> bool" where
  "finishes m \<longleftrightarrow> (\<forall>s r s'. m s = Some (r, s') \<longrightarrow>
     c_config (fst s') = c_config (fst s) \<and> (is_ok r \<longrightarrow> c_state (fst s') = CLIENT_CONNECTED))"

lemma finishes_bind:
  assumes "inner m" and "\<And>x. finishes (f x)"
  shows "finishes (bind_prog m f)"
  unfolding finishes_def
proof (intro allI impI)
  fix s r s' assume "bind_prog m f s = Some (r, s')"
  then consider x s1 where "m s = Some (Ok x, s1)" "f x s1 = Some (r, s')"
    | r' where "m s = Some (r', s')" "\<not> is_ok r"
    by (auto simp: bind_prog_run simp del: split_paired_All split_paired_all)
  then show "c_config (fst s') = c_config (fst s) \<and> (is_ok r \<longrightarrow> c_state (fst s') = CLIENT_CONNECTED)"
  proof cases
    case (1 x s1)
    from keeps_relD [OF assms(1) 1(1)] assms(2) [unfolded finishes_def, rule_format, OF 1(2)]
    show ?thesis by (simp add: same_session_iff)
  next
    case (2 r')
    from keeps_relD [OF assms(1) 2(1)] 2(2) show ?thesis by (simp add: same_session_iff)
  qed
qed

lemma finishes_then: "inner m \<Longrightarrow> finishes k \<Longrightarrow> finishes (then_prog m k)"
  unfolding then_prog_def by (rule finishes_bind)

lemma finishes_connect_body: "finishes (connect_body alloc cfg pf)"
proof -
  have last: "finishes (update (\<lambda>c. c\<lparr>c_state := CLIENT_CONNECTED\<rparr>))"
    by (simp add: finishes_def)
  show ?thesis
    unfolding connect_body_def
    by (auto intro!: finishes_bind finishes_then keeps_intros last)
qed

lemma connect_outcome:
  assumes "connect alloc cfg s = Some (r, s')"
  shows "case r of
      Ok _ \<Rightarrow> c_state (fst s) = CLIENT_IDLE \<and> c_state (fst s') = CLIENT_CONNECTED \<and> c_config (fst s') = cfg
        \<and> cc_stream cfg \<noteq> None
    | Err e \<Rightarrow> e = XT_ERR_INVALID_ARGUMENT \<and> s' = s
        \<or> c_state (fst s) = CLIENT_IDLE \<and> c_state (fst s') = CLIENT_FAILED \<and> secrets_wiped (fst s')
    | UB \<Rightarrow> True"
proof -
  have body: "c_config (fst s2) = c_config (fst s1) \<and> (is_ok r \<longrightarrow> c_state (fst s2) = CLIENT_CONNECTED)"
    if "connect_body alloc cfg pf s1 = Some (r, s2)" for pf s1 s2 and r :: "unit res"
    using finishes_connect_body that unfolding finishes_def by blast
  have start: "c_config (connect_start cfg c) = cfg" for c by (simp add: connect_start_def)
  from assms show ?thesis
    unfolding connect_def
    by (cases r)
      (auto simp: bind_prog_run then_prog_def or_fail_Ok start split: option.splits if_splits
        elim!: or_fail_Err dest!: body fail_run)
qed

lemma connect_config:
  assumes "connect alloc cfg s = Some (r, s')" and "r \<noteq> UB"
  shows "c_config (fst s') = cfg \<or> s' = s"
proof -
  have body: "c_config (fst s2) = c_config (fst s1)" if "connect_body alloc cfg pf s1 = Some (r, s2)"
    for pf s1 s2 and r :: "unit res"
    using finishes_connect_body that unfolding finishes_def by blast
  have start: "c_config (connect_start cfg c) = cfg" for c by (simp add: connect_start_def)
  from assms show ?thesis
    unfolding connect_def
    by (cases r)
      (auto simp: bind_prog_run then_prog_def or_fail_Ok start split: option.splits if_splits
        elim!: or_fail_Err dest!: body fail_run)
qed

lemma send_run:
  "send alloc data s = Some (r, s') \<longleftrightarrow>
     (if c_state (fst s) \<noteq> CLIENT_CONNECTED then r = Err XT_ERR_CLOSED \<and> s' = s
      else if span_size data \<noteq> 0 \<and> span_null data then r = Err XT_ERR_INVALID_ARGUMENT \<and> s' = s
      else (let padding = min 255 (cc_application_record_padding (c_config (fst s)))
            in send_loop alloc padding (16623 - padding) data 0 s = Some (r, s')))"
  by (auto simp: send_def bind_prog_run Let_def min_def simp del: One_nat_def)

lemma send_outcome:
  assumes "send alloc data s = Some (r, s')" and "r \<noteq> UB"
  shows "same_session s s' \<and> (c_state (fst s) \<noteq> CLIENT_CONNECTED \<longrightarrow> s' = s \<and> r = Err XT_ERR_CLOSED)
      \<and> (\<not> is_ok r \<longrightarrow> s' = s)
    \<or> c_state (fst s) = CLIENT_CONNECTED \<and> \<not> is_ok r \<and> c_state (fst s') = CLIENT_FAILED
      \<and> secrets_wiped (fst s')"
proof (cases "c_state (fst s) \<noteq> CLIENT_CONNECTED \<or> span_size data \<noteq> 0 \<and> span_null data")
  case True
  with assms(1) show ?thesis by (auto simp: send_run agree.R_refl split: if_splits)
next
  case False
  with assms(1) obtain pd n where l: "send_loop alloc pd n data 0 s = Some (r, s')"
    by (auto simp: send_run Let_def split: if_splits)
  from stops_outcome [OF stops_send_loop l assms(2)] False show ?thesis by auto
qed

lemma key_update_connected:
  assumes "key_update alloc b s = Some (r, s')" and "r \<noteq> UB" and "c_state (fst s) = CLIENT_CONNECTED"
  shows "if is_ok r then same_session s s' else c_state (fst s') = CLIENT_FAILED \<and> secrets_wiped (fst s')"
proof -
  have "stops {CLIENT_FAILED} (then_prog (or_fail (send_protected alloc content_handshake
      [hs_key_update, 0, 0, 1, if b then 1 else 0])) (or_fail update_client_traffic))" (is "stops _ ?m")
    by (intro stops_then stops_or_fail keeps_intros; simp)
  moreover from assms(1,3) have "?m s = Some (r, s')" by (simp add: key_update_def bind_prog_run)
  ultimately show ?thesis using assms(2) stops_outcome [of _ ?m s r s'] by auto
qed

lemma key_update_outcome:
  assumes "key_update alloc b s = Some (r, s')" and "r \<noteq> UB"
  shows "same_session s s' \<and> (c_state (fst s) \<noteq> CLIENT_CONNECTED \<longrightarrow> s' = s \<and> r = Err XT_ERR_CLOSED)
      \<and> (\<not> is_ok r \<longrightarrow> s' = s)
    \<or> c_state (fst s) = CLIENT_CONNECTED \<and> \<not> is_ok r \<and> c_state (fst s') = CLIENT_FAILED
      \<and> secrets_wiped (fst s')"
proof (cases "c_state (fst s) = CLIENT_CONNECTED")
  case False
  with assms(1) show ?thesis by (auto simp: key_update_def bind_prog_run agree.R_refl)
next
  case True
  with key_update_connected [OF assms True] show ?thesis by (cases "is_ok r") auto
qed

lemma recv_outcome:
  assumes "recv alloc out s = Some (r, s')" and "r \<noteq> UB"
  shows "same_session s s' \<and> (c_state (fst s) \<noteq> CLIENT_CONNECTED \<longrightarrow> s' = s \<and> \<not> is_ok r)
      \<and> (\<not> is_ok r \<longrightarrow> s' = s)
    \<or> c_state (fst s) = CLIENT_CONNECTED \<and> \<not> is_ok r
      \<and> (c_state (fst s') = CLIENT_FAILED \<or> c_state (fst s') = CLIENT_CLOSED) \<and> secrets_wiped (fst s')"
proof -
  consider (reject) "s' = s" "\<not> is_ok r"
    | (pending) "c_state (fst s) = CLIENT_CONNECTED" "recv_pending (span_size out) s = Some (r, s')"
    | (read) "c_state (fst s) = CLIENT_CONNECTED"
        "loop_prog (recv_body alloc (span_size out)) () s = Some (r, s')"
    using assms(1) by (auto simp: recv_def bind_prog_run split: if_splits)
  then show ?thesis
  proof cases
    case reject
    then show ?thesis by (simp add: agree.R_refl)
  next
    case pending
    have "r \<noteq> Err e" for e
      using pending(2)
      by (auto simp: recv_pending_def Let_def bind_prog_run then_prog_def rd_bytes_def split: if_splits)
    then have "is_ok r" using assms(2) by (cases r) auto
    with pending keeps_relD [OF inner_recv_pending pending(2)] show ?thesis by simp
  next
    case read
    from stops_outcome [OF stops_loop [OF stops_recv_body] read(2) assms(2)] read(1) show ?thesis by auto
  qed
qed

lemma close_stream_run [simp]:
  "close_stream s = Some (r, s') \<longleftrightarrow> r = Ok () \<and> fst s' = fst s
     \<and> snd s' = (case cc_stream (c_config (fst s)) of None \<Rightarrow> snd s | Some sm \<Rightarrow> sm_close sm (snd s))"
  by (cases s'; auto simp: close_stream_def split: option.splits)

lemma reset_outcome:
  assumes "reset s = Some (r, s')"
  shows "if c_state (fst s) = CLIENT_HANDSHAKING then s' = s \<and> r = Err XT_ERR_INVALID_ARGUMENT
    else r = Ok () \<and> c_state (fst s') = CLIENT_IDLE \<and> secrets_wiped (fst s')
      \<and> c_config (fst s') = client_config_init \<and> c_pending_app_length (fst s') = 0"
  using assms
  by (auto simp: reset_def bind_prog_run then_prog_def secrets_wiped_def wipe_secrets_def split: if_splits)

lemma close_outcome:
  assumes "close alloc s = Some (r, s')" and "r \<noteq> UB"
  shows "r = Ok () \<and> c_state (fst s') = CLIENT_CLOSED \<and> c_config (fst s') = c_config (fst s)
    \<and> (if c_state (fst s) = CLIENT_CLOSED then s' = s else secrets_wiped (fst s'))"
proof (cases "c_state (fst s) = CLIENT_CLOSED")
  case True
  with assms show ?thesis by (auto simp: close_def bind_prog_run)
next
  case False
  define m :: "('a, unit) cli" where "m = (if c_state (fst s) = CLIENT_CONNECTED
    then on_error (send_protected alloc content_alert [1, 0]) (\<lambda>_. ret ()) else ret ())"
  have inner: "inner m" unfolding m_def by (intro keeps_intros; simp)
  have no_Err: "m t \<noteq> Some (Err e, t')" for t e t'
    unfolding m_def by (auto simp: on_error_def split: option.splits res.splits)
  from assms False obtain s1 where "m s = Some (Ok (), s1)"
    "then_prog close_stream (update (\<lambda>c. wipe_secrets (c\<lparr>c_state := CLIENT_CLOSED\<rparr>))) s1 = Some (r, s')"
    unfolding close_def m_def [symmetric] then_prog_def
    by (auto simp: bind_prog_run m_def [symmetric] no_Err)
  with False keeps_relD [OF inner this(1)] show ?thesis
    by (auto simp: then_prog_def bind_prog_run same_session_iff)
qed

section \<open>The life of a client\<close>

datatype call =
    Connect_call
  | Send_call
  | Recv_call
  | Key_update_call
  | Reset_call
  | Close_call

text \<open>
  One call of a member function with any arguments, in any world, that ends without undefined
  behaviour.
\<close>

inductive api_call :: "call \<Rightarrow> 'w client \<Rightarrow> 'w client \<Rightarrow> bool" where
  api_connect: "connect alloc cfg (c, w) = Some (r, c', w') \<Longrightarrow> r \<noteq> UB \<Longrightarrow> api_call Connect_call c c'"
| api_send: "send alloc data (c, w) = Some (r, c', w') \<Longrightarrow> r \<noteq> UB \<Longrightarrow> api_call Send_call c c'"
| api_recv: "recv alloc out (c, w) = Some (rb, c', w') \<Longrightarrow> rb \<noteq> UB \<Longrightarrow> api_call Recv_call c c'"
| api_key_update: "key_update alloc b (c, w) = Some (r, c', w') \<Longrightarrow> r \<noteq> UB \<Longrightarrow> api_call Key_update_call c c'"
| api_reset: "reset (c, w) = Some (r, c', w') \<Longrightarrow> r \<noteq> UB \<Longrightarrow> api_call Reset_call c c'"
| api_close: "close alloc (c, w) = Some (r, c', w') \<Longrightarrow> r \<noteq> UB \<Longrightarrow> api_call Close_call c c'"

inductive reachable :: "'w client \<Rightarrow> bool" where
  reachable_new: "reachable tls_client_new"
| reachable_call: "reachable c \<Longrightarrow> api_call k c c' \<Longrightarrow> reachable c'"

text \<open>The transitions of the state that a call may make.\<close>

fun transition :: "call \<Rightarrow> client_state \<Rightarrow> client_state \<Rightarrow> bool" where
  "transition Connect_call s t \<longleftrightarrow> t = s \<or> s = CLIENT_IDLE \<and> (t = CLIENT_CONNECTED \<or> t = CLIENT_FAILED)"
| "transition Send_call s t \<longleftrightarrow> t = s \<or> s = CLIENT_CONNECTED \<and> t = CLIENT_FAILED"
| "transition Recv_call s t \<longleftrightarrow>
     t = s \<or> s = CLIENT_CONNECTED \<and> (t = CLIENT_FAILED \<or> t = CLIENT_CLOSED)"
| "transition Key_update_call s t \<longleftrightarrow> t = s \<or> s = CLIENT_CONNECTED \<and> t = CLIENT_FAILED"
| "transition Reset_call s t \<longleftrightarrow> (if s = CLIENT_HANDSHAKING then t = s else t = CLIENT_IDLE)"
| "transition Close_call s t \<longleftrightarrow> t = CLIENT_CLOSED"

text \<open>
  Between two calls a client is not in the middle of a handshake, it has a stream when it is
  connected, and it holds no secret when it is not.
\<close>

definition settled :: "'w client \<Rightarrow> bool" where
  "settled c \<longleftrightarrow> c_state c \<noteq> CLIENT_HANDSHAKING
     \<and> (if c_state c = CLIENT_CONNECTED then cc_stream (c_config c) \<noteq> None else secrets_wiped c)"

lemma settled_same: "settled c \<Longrightarrow> same_session (c, w) (c', w') \<Longrightarrow> c_state c = CLIENT_CONNECTED \<Longrightarrow> settled c'"
  by (auto simp: settled_def same_session_iff)

lemma api_call_transition:
  assumes "api_call k c c'"
  shows "transition k (c_state c) (c_state c')"
  using assms
proof cases
  case (api_connect alloc cfg w r w')
  with connect_outcome [OF api_connect(2)] show ?thesis by (cases r) auto
next
  case (api_send alloc data w r w')
  with send_outcome [OF api_send(2,3)] show ?thesis by (auto simp: same_session_iff)
next
  case (api_recv alloc out w r w')
  with recv_outcome [OF api_recv(2,3)] show ?thesis by (auto simp: same_session_iff)
next
  case (api_key_update alloc b w r w')
  with key_update_outcome [OF api_key_update(2,3)] show ?thesis by (auto simp: same_session_iff)
next
  case (api_reset w r w')
  with reset_outcome [OF api_reset(2)] show ?thesis by (auto split: if_splits)
next
  case (api_close alloc w r w')
  with close_outcome [OF api_close(2,3)] show ?thesis by auto
qed

lemma api_call_settled:
  assumes "api_call k c c'" and "settled c"
  shows "settled c'"
  using assms(1)
proof cases
  case (api_connect alloc cfg w r w')
  with connect_outcome [OF api_connect(2)] assms(2) show ?thesis
    by (cases r) (auto simp: settled_def)
next
  case (api_send alloc data w r w')
  with send_outcome [OF api_send(2,3)] assms(2) show ?thesis
    by (cases "c_state c = CLIENT_CONNECTED") (auto simp: settled_def same_session_iff)
next
  case (api_recv alloc out w r w')
  with recv_outcome [OF api_recv(2,3)] assms(2) show ?thesis
    by (cases "c_state c = CLIENT_CONNECTED") (auto simp: settled_def same_session_iff)
next
  case (api_key_update alloc b w r w')
  with key_update_outcome [OF api_key_update(2,3)] assms(2) show ?thesis
    by (cases "c_state c = CLIENT_CONNECTED") (auto simp: settled_def same_session_iff)
next
  case (api_reset w r w')
  with reset_outcome [OF api_reset(2)] assms(2) show ?thesis by (auto simp: settled_def split: if_splits)
next
  case (api_close alloc w r w')
  with close_outcome [OF api_close(2,3)] assms(2) show ?thesis by (auto simp: settled_def split: if_splits)
qed

lemma settled_new: "settled tls_client_new"
  by (simp add: settled_def tls_client_new_def secrets_wiped_def)

lemma reachable_settled: "reachable c \<Longrightarrow> settled c"
  by (induction rule: reachable.induct) (auto intro: settled_new api_call_settled)

section \<open>Whole records\<close>

text \<open>A record that was read has a header that parses, and exactly the bytes the header counts.\<close>

definition whole_record :: "nat \<Rightarrow> bytes \<Rightarrow> bool" where
  "whole_record capacity rec \<longleftrightarrow> (\<exists>h. parse_record_header (Span rec) = Ok h
     \<and> length rec = 5 + unat (rh_length h) \<and> unat (rh_length h) \<le> 16640 \<and> length rec \<le> capacity)"

lemma parse_record_header_take:
  "parse_record_header (Span (take 5 rec)) = Ok h \<Longrightarrow> parse_record_header (Span rec) = Ok h"
  by (auto simp: parse_record_header_Span split: if_splits)

end
