(* ===== verification/SocketLife.thy ===== *)
theory SocketLife
  imports Session XboxPlatform NativeVerifier
begin

text \<open>
  What the client does to the socket of the console and to the name that ALPN selected: whatever a
  member function gives, the name stays a terminated string, a closed socket stays closed, and when
  the state changes to an error the socket is closed. One relation is carried through all the steps
  of the client by the preorder rules of \<open>Program\<close>.
\<close>

section \<open>Actions that leave the socket alone\<close>

definition quiet :: "('o xworld, 'a) action \<Rightarrow> bool" where
  "quiet m \<longleftrightarrow> (\<forall>w. xw_socket (snd (m w)) = xw_socket w)"

lemma quietI: "(\<And>w. xw_socket (snd (m w)) = xw_socket w) \<Longrightarrow> quiet m"
  and quietD: "quiet m \<Longrightarrow> m w = (r, w') \<Longrightarrow> xw_socket w' = xw_socket w"
  by (auto simp: quiet_def dest: spec [of _ w])

lemma quiet_pure [simp]: "quiet (pure_act r)"
  by (simp add: quiet_def pure_act_def)

lemma quiet_bind: "quiet m \<Longrightarrow> (\<And>x. quiet (f x)) \<Longrightarrow> quiet (bind_act m f)"
  by (auto simp: quiet_def bind_act_def split: prod.splits res.splits)
    (metis snd_conv)+

lemma quiet_if: "quiet m \<Longrightarrow> quiet k \<Longrightarrow> quiet (if b then m else k)"
  by simp

lemma quiet_send: "quiet (sm_send_all (xbox360_stream os) bs)"
  and quiet_recv: "quiet (sm_recv_some (xbox360_stream os) n)"
  and quiet_random: "quiet (pf_random_bytes (xbox360_platform os) k)"
  by (auto simp: quiet_def xbox360_stream_def xbox360_platform_def xbox_send_all_def xbox_recv_some_def
      xbox_random_bytes_def Let_def split: prod.splits)

lemma quiet_clock: "xw_socket (snd (pf_unix_time_seconds (xbox360_platform os) w)) = xw_socket w"
  by (auto simp: xbox360_platform_def xbox_unix_time_seconds_def split: prod.splits)

lemma quiet_read_exact: "quiet (read_exact (xbox360_stream os) need bs)"
proof (rule quietI)
  fix w
  show "xw_socket (snd (read_exact (xbox360_stream os) need bs w)) = xw_socket w"
  proof (induction "xbox360_stream os" need bs w rule: read_exact.induct)
    case (1 need bs w)
    obtain r w1 where m: "sm_recv_some (xbox360_stream os) (need - length bs) w = (r, w1)"
      by (cases "sm_recv_some (xbox360_stream os) (need - length bs) w")
    from quietD [OF quiet_recv m] m 1 show ?case
      by (subst read_exact.simps) (auto split: res.splits)
  qed
qed

text \<open>The native verifier only asks for the time.\<close>

definition console_verifier :: "'o system \<Rightarrow> 'o xworld auth_verifier \<Rightarrow> bool" where
  "console_verifier os av \<longleftrightarrow>
     (\<forall>chain host. quiet (av_verify_chain av chain host))
     \<and> (\<forall>scheme leaf msg sig. quiet (av_verify_signature av scheme leaf msg sig))"

lemma quiet_time_checks:
  assumes "pl = Some (xbox360_platform os) \<or> pl = None"
  shows "quiet (leaf_time_check pl v)" "quiet (ca_time_check pl v)"
  using assms quiet_clock [of os]
  by (auto simp: quiet_def leaf_time_check_def ca_time_check_def pure_act_def split: prod.splits)
    (metis snd_conv)+

lemma native_console_verifier:
  assumes pl: "nv_platform nv = Some (xbox360_platform os) \<or> nv_platform nv = None"
  shows "console_verifier os (native_auth_verifier nv)"
proof -
  note time = quiet_time_checks [OF pl]
  have link: "quiet (chain_link nv chain i)" for chain i
    unfolding chain_link_def Let_def by (intro quiet_bind quiet_if quiet_pure time)
  have links: "quiet (chain_links nv chain is)" for chain "is"
    by (induction "is") (auto intro: quiet_bind link)
  have anchor: "quiet (try_anchor nv chain tp topv a)" for chain tp topv a
    by (rule quietI) (auto simp: try_anchor_def dest: quietD [OF time(2)] split: res.splits prod.splits)
  have anchors: "quiet (try_anchors nv chain tp topv as)" for chain tp topv as
    by (induction as) (auto intro: quiet_bind anchor quiet_if)
  have "quiet (verify_chain nv chain host)" for chain host
    unfolding verify_chain_def Let_def by (intro quiet_bind quiet_if quiet_pure time links anchors)
  then show ?thesis by (simp add: console_verifier_def native_auth_verifier_def)
qed

lemma quiet_authenticate:
  assumes "\<And>v. av = Some v \<Longrightarrow> console_verifier os v"
  shows "quiet (authenticate_server_flight certs cv th host av)"
  using assms unfolding authenticate_server_flight_def
  by (auto split: option.split intro!: quiet_bind simp: console_verifier_def)

section \<open>The relation\<close>

text \<open>The configurations that the facade makes: nothing yet, or the console's stream and verifier.\<close>

definition console_config :: "'o system \<Rightarrow> 'o xworld client_config \<Rightarrow> bool" where
  "console_config os cfg \<longleftrightarrow>
     (cc_stream cfg = None \<or> cc_stream cfg = Some (xbox360_stream os))
     \<and> (cc_platform cfg = None \<or> cc_platform cfg = Some (xbox360_platform os))
     \<and> (\<forall>av. cc_verifier cfg = Some av \<longrightarrow> console_verifier os av)"

definition terminated :: "'w client \<Rightarrow> bool" where
  "terminated c \<longleftrightarrow> 0 \<in> set (c_negotiated_alpn c) \<and> length (c_negotiated_alpn c) = 256"

text \<open>
  \<open>owned os st s t\<close>: from \<open>s\<close> to \<open>t\<close> the configuration is the same, a terminated name stays terminated,
  a closed socket stays closed, and, with \<open>st\<close> and a stream, either the state is the same
  or the socket is closed.
\<close>

definition owned :: "'o system \<Rightarrow> bool \<Rightarrow> 'o xworld client \<times> 'o xworld \<Rightarrow> 'o xworld client \<times> 'o xworld \<Rightarrow> bool"
  where
  "owned os st s t \<longleftrightarrow> c_config (fst t) = c_config (fst s)
     \<and> (console_config os (c_config (fst s)) \<longrightarrow>
         (terminated (fst s) \<longrightarrow> terminated (fst t))
         \<and> (\<not> is_open (snd s) \<longrightarrow> \<not> is_open (snd t))
         \<and> (st \<and> cc_stream (c_config (fst s)) \<noteq> None \<longrightarrow>
             c_state (fst t) = c_state (fst s) \<or> \<not> is_open (snd t)))"

interpretation owned: state_preorder "owned os st" for os st
  by unfold_locales (auto simp: owned_def)

abbreviation owns :: "'o system \<Rightarrow> bool \<Rightarrow> ('o xworld, 'a) cli \<Rightarrow> bool" where
  "owns os st \<equiv> keeps_rel (owned os st)"

named_theorems owns_intros \<open>what keeps the socket\<close>

lemmas owned_rules [owns_intros] =
  owned.keeps_ret owned.keeps_throw owned.keeps_of_res owned.keeps_check owned.keeps_bind
  owned.keeps_then owned.keeps_on_error owned.keeps_loop

lemma owns_client [owns_intros]: "owns os st client"
  and owns_update [owns_intros]:
    "(\<And>c. c_config (v c) = c_config c \<and> c_state (v c) = c_state c \<and> c_negotiated_alpn (v c) = c_negotiated_alpn c) \<Longrightarrow>
     owns os st (update v)"
  and owns_if [owns_intros]:
    "(b \<Longrightarrow> owns os st t1) \<Longrightarrow> (\<not> b \<Longrightarrow> owns os st t2) \<Longrightarrow> owns os st (if b then t1 else t2)"
  and owns_prod [owns_intros]: "(\<And>v w. pr = (v, w) \<Longrightarrow> owns os st (g v w)) \<Longrightarrow> owns os st (case pr of (v, w) \<Rightarrow> g v w)"
  and owns_option [owns_intros]:
    "(x = None \<Longrightarrow> owns os st m) \<Longrightarrow> (\<And>y. x = Some y \<Longrightarrow> owns os st (l y)) \<Longrightarrow>
     owns os st (case x of None \<Rightarrow> m | Some y \<Rightarrow> l y)"
  and owns_res [owns_intros]:
    "(\<And>z. r = Ok z \<Longrightarrow> owns os st (p z)) \<Longrightarrow> (\<And>e. r = Err e \<Longrightarrow> owns os st (h e)) \<Longrightarrow>
     owns os st n \<Longrightarrow> owns os st (case r of Ok z \<Rightarrow> p z | Err e \<Rightarrow> h e | UB \<Rightarrow> n)"
  by (auto simp: keeps_rel_def owned_def terminated_def split: option.splits res.splits prod.splits)

lemma owns_outside: "quiet m \<Longrightarrow> owns os st (outside m)"
  by (rule keeps_relI)
    (auto simp: outside_def owned_def is_open_def dest: quietD split: prod.splits)

lemmas owns_random [owns_intros] = owns_outside [OF quiet_random]

text \<open>A step that reads the object first, and may use what its configuration is.\<close>

lemma owns_client_bind:
  assumes "\<And>c. console_config os (c_config c) \<Longrightarrow> owns os st (f c)"
    and "\<And>c. keeps_rel (agree c_config) (f c)"
  shows "owns os st (bind_prog client f)"
proof (rule keeps_relI)
  fix s r s' assume "bind_prog client f s = Some (r, s')"
  then have f: "f (fst s) s = Some (r, s')" by (auto simp: bind_prog_run)
  show "owned os st s s'"
  proof (cases "console_config os (c_config (fst s))")
    case True
    from keeps_relD [OF assms(1) [OF this] f] show ?thesis .
  next
    case False
    with keeps_relD [OF assms(2) f] show ?thesis by (simp add: owned_def agree_def)
  qed
qed

section \<open>The steps of the client\<close>

lemma owns_on_stream [owns_intros]:
  assumes "\<And>sm. sm = xbox360_stream os \<Longrightarrow> owns os st (f sm)" and "\<And>sm. keeps_rel (agree c_config) (f sm)"
    and "owns os st m" and "keeps_rel (agree c_config) m"
  shows "owns os st (bind_prog client (\<lambda>c. case cc_stream (c_config c) of None \<Rightarrow> m | Some sm \<Rightarrow> f sm))"
  using assms
  by (intro owns_client_bind) (auto simp: console_config_def intro: keeps_intros split: option.split)

lemma owns_with_stream [owns_intros]:
  assumes "\<And>sm. sm = xbox360_stream os \<Longrightarrow> owns os st (f sm)" and "\<And>sm. keeps_rel (agree c_config) (f sm)"
  shows "owns os st (with_stream f)"
  unfolding with_stream_def by (intro owns_on_stream assms owned_rules keeps_intros)

lemma owns_read_record [owns_intros]: "owns os st (read_record n)"
  unfolding read_record_def Let_def
  by (intro owns_on_stream owns_intros owns_outside keeps_intros) (simp_all add: quiet_read_exact)

lemma owns_send_plain_record [owns_intros]: "owns os st (send_plain_record t p)"
  unfolding send_plain_record_def Let_def
  by (intro owns_on_stream owns_intros owns_outside keeps_intros) (simp_all add: quiet_send)

lemma owns_send_protected [owns_intros]: "owns os st (send_protected alloc t p)"
  unfolding send_protected_def Let_def
  by (intro owns_intros owns_outside keeps_intros) (simp_all add: quiet_send)

lemma owns_handle_alert [owns_intros]: "owns os st (handle_alert p)"
  unfolding handle_alert_def Let_def by (intro owns_intros; simp)

lemma owns_transcript_add [owns_intros]: "owns os st (transcript_add b)"
  unfolding transcript_add_def by (intro owns_intros; simp)

lemma owns_set_alpn:
  assumes "(if span_size v \<ge> length (c_negotiated_alpn (fst s)) then throw e
      else bind_prog (of_res (rd_bytes v 0 (span_size v))) (\<lambda>bs.
        update (\<lambda>c. c\<lparr>c_negotiated_alpn := write_at (c_negotiated_alpn c) 0 (bs @ [0])\<rparr>))) s = Some (r, s')"
  shows "owned os st s s'"
  using assms
  by (auto simp: owned_def terminated_def bind_prog_run rd_bytes_def write_at_def slice_def split: if_splits)

lemma owns_encrypted_extensions: "owns os st (handle_encrypted_extensions msg fl)"
proof -
  have rest: "owns os st (then_prog (transcript_add (hm_encoded msg)) (ret fl))"
    by (intro owns_intros)
  have alpn: "owns os st (bind_prog client (\<lambda>c. then_prog
       (if ee_has_alpn ee then
          if span_size (ee_alpn ee) \<ge> length (c_negotiated_alpn c) then throw XT_ERR_BAD_HANDSHAKE
          else bind_prog (of_res (rd_bytes (ee_alpn ee) 0 (span_size (ee_alpn ee)))) (\<lambda>bs.
            update (\<lambda>c. c\<lparr>c_negotiated_alpn := write_at (c_negotiated_alpn c) 0 (bs @ [0])\<rparr>))
        else ret ())
       (then_prog (transcript_add (hm_encoded msg)) (ret fl))))" (is "owns os st (bind_prog client (\<lambda>c. then_prog (?m c) ?k))")
    for ee
  proof (rule keeps_relI)
    fix s r s' assume "bind_prog client (\<lambda>c. then_prog (?m c) ?k) s = Some (r, s')"
    then have run: "then_prog (?m (fst s)) ?k s = Some (r, s')" by (simp add: bind_prog_run)
    have m: "owned os st s s1" if "?m (fst s) s = Some (r1, s1)" for r1 s1
      using that owns_set_alpn [of s "ee_alpn ee" XT_ERR_BAD_HANDSHAKE r1 s1 os st] owned.R_refl [of os st s]
      by (cases "ee_has_alpn ee") (simp_all only: if_True if_False ret_run)
    from run show "owned os st s s'"
      unfolding then_prog_def [of "?m (fst s)" ?k] by (rule owned.keeps_at [rotated 2]) (fact m rest)+
  qed
  show ?thesis
    unfolding handle_encrypted_extensions_def by (rule owned.keeps_bind [OF owned.keeps_of_res alpn])
qed

lemma owns_handle_handshake_message [owns_intros]: "owns os st (handle_handshake_message msg fl)"
proof -
  have "owns os st (handle_certificate_verify msg fl)"
    unfolding handle_certificate_verify_def
    by (intro owns_if owned_rules owns_client_bind owns_outside owns_transcript_add keeps_intros
        quiet_authenticate) (auto simp: console_config_def)
  moreover have "owns os st (handle_certificate msg fl)" "owns os st (handle_finished msg fl)"
    unfolding handle_certificate_def handle_finished_def by (intro owns_intros; simp)+
  ultimately show ?thesis
    unfolding handle_handshake_message_def by (intro owns_if owned_rules owns_encrypted_extensions)
qed

lemma owns_deframe [owns_intros]: "owns os st (deframe_append bs)" "owns os st deframe_consume"
  unfolding deframe_append_def deframe_consume_def Let_def by (intro owns_intros; simp)+

lemma owns_open_record [owns_intros]:
  "(\<And>k c. c_config (upd k c) = c_config c \<and> c_state (upd k c) = c_state c
      \<and> c_negotiated_alpn (upd k c) = c_negotiated_alpn c) \<Longrightarrow> owns os st (open_record sel upd rec)"
  unfolding open_record_def Let_def by (intro owns_intros)

lemma owns_set_traffic_keys [owns_intros]:
  "(\<And>k c. c_config (upd k c) = c_config c \<and> c_state (upd k c) = c_state c
      \<and> c_negotiated_alpn (upd k c) = c_negotiated_alpn c) \<Longrightarrow> owns os st (set_traffic_keys secret sel upd)"
  unfolding set_traffic_keys_def Let_def by (intro owns_intros)

lemma owns_process_server_handshake: "owns os st (process_server_handshake alloc)"
  unfolding process_server_handshake_def finish_handshake_def flight_body_def flight_record_def
    flight_messages_def flight_messages_body_def Let_def
  by (intro owns_intros; simp)

lemma owns_generate_key [owns_intros]: "owns os st (generate_key (xbox360_platform os) retry g)"
proof -
  have k: "owns os st (random_private_key (xbox360_platform os) retry)"
    unfolding random_private_key_def by (intro owns_intros; simp)
  have "owns os st (p256_keygen (xbox360_platform os) retry n e)" for n e
    by (induction n arbitrary: e) (unfold p256_keygen.simps, (intro owns_intros k; simp)+)
  moreover have "owns os st (x25519_keygen (xbox360_platform os) retry)"
    unfolding x25519_keygen_def by (intro owns_intros k; simp)
  ultimately show ?thesis unfolding generate_key_def by (intro owns_if owned_rules)
qed

lemma owns_send_client_hello [owns_intros]: "owns os st (send_client_hello p)"
  unfolding send_client_hello_def by (intro owns_intros; simp)

lemma owns_hello_body: "owns os st (hello_body (xbox360_platform os) sid hl)"
  unfolding hello_body_def hello_record_def hello_retry_def retry_transcript_def consume_last_def Let_def
  by (intro owns_intros; simp)

lemma owns_handshake_keys: "owns os st (handshake_keys sh g)"
  unfolding handshake_keys_def Let_def by (intro owns_intros; simp)

lemma owns_process_post_handshake [owns_intros]: "owns os st (process_post_handshake alloc bs)"
  unfolding process_post_handshake_def post_handshake_body_def post_handshake_message_def
    update_server_traffic_def update_client_traffic_def Let_def
  by (intro owns_intros; simp)

section \<open>The member functions\<close>

text \<open>\<open>fail()\<close> closes the socket.\<close>

lemma fail_closes:
  assumes "fail s = Some (r, s')"
  shows "owned os st s s'"
  using assms
  by (auto simp: fail_def then_prog_def bind_prog_run owned_def terminated_def wipe_secrets_def
      console_config_def is_open_def xbox360_stream_def xbox_close_def split: option.splits)

lemma owns_or_fail [owns_intros]: "owns os st m \<Longrightarrow> owns os st (or_fail m)"
  unfolding or_fail_def
  by (intro owned.keeps_on_error owned.keeps_then owned.keeps_throw) (auto intro: keeps_relI fail_closes)

lemma owns_close_stream [owns_intros]: "owns os st close_stream"
  by (rule keeps_relI)
    (auto simp: owned_def console_config_def is_open_def xbox360_stream_def xbox_close_def split: option.splits)

lemma owns_key_update [owns_intros]: "owns os st (key_update alloc b)"
  unfolding key_update_def update_client_traffic_def Let_def by (intro owns_intros; simp)

lemma owns_send_loop: "owns os st (send_loop alloc padding m data off)"
proof (induction alloc padding m data off rule: send_loop.induct)
  case (1 alloc padding m data off)
  have chunk: "owns os st (send_chunk alloc padding chunk)" for chunk
    unfolding send_chunk_def Let_def
    by (intro owns_intros owns_outside keeps_intros) (simp_all add: quiet_send)
  show ?case
    by (subst send_loop.simps) (simp only: Let_def, intro owns_if owned_rules owns_or_fail chunk 1; simp)
qed

lemma owns_send [owns_intros]: "owns os st (send alloc data)"
  unfolding send_def Let_def by (intro owns_intros owns_send_loop)

lemma owns_closed_by_peer: "owns os st closed_by_peer"
  by (rule keeps_relI)
    (auto simp: closed_by_peer_def with_stream_def then_prog_def bind_prog_run owned_def terminated_def
      wipe_secrets_def console_config_def is_open_def xbox360_stream_def xbox_close_def split: option.splits)

lemma owns_recv [owns_intros]: "owns os st (recv alloc out)"
  unfolding recv_def recv_pending_def recv_body_def recv_data_def Let_def
  by (intro owns_intros owns_closed_by_peer; simp)

lemma owns_close: "owns os st (close alloc)"
proof (rule keeps_relI)
  fix s s' :: "'a xworld client \<times> 'a xworld" and r assume run: "close alloc s = Some (r, s')"
  have last: "owned os st t t'" if "then_prog close_stream
      (update (\<lambda>c. wipe_secrets (c\<lparr>c_state := CLIENT_CLOSED\<rparr>))) t = Some (r', t')" for t t' r'
    using that
    by (auto simp: then_prog_def bind_prog_run owned_def terminated_def wipe_secrets_def console_config_def
        is_open_def xbox360_stream_def xbox_close_def split: option.splits)
  have "owns os st (then_prog
      (if c then on_error (send_protected alloc content_alert [1, 0]) (\<lambda>_. ret ()) else ret ())
      (then_prog close_stream (update (\<lambda>c. wipe_secrets (c\<lparr>c_state := CLIENT_CLOSED\<rparr>)))))" for c
    by (rule owned.keeps_then [OF _ keeps_relI [OF last]]) (intro owns_intros)+
  from keeps_relD [OF this, of _ s r s'] run owned.R_refl [of os st s] show "owned os st s s'"
    by (auto simp: close_def bind_prog_run split: if_splits)
qed

text \<open>The two functions that change the configuration.\<close>

lemma reset_closes:
  assumes "reset s = Some (Ok x, s')" and "console_config os (c_config (fst s))"
  shows "(terminated (fst s) \<longrightarrow> terminated (fst s'))
    \<and> snd s' = (if cc_stream (c_config (fst s)) = None then snd s else xbox_close os (snd s))"
proof -
  have "0 \<in> set (xs[0 := 0 :: u8])" if "length xs = 256" for xs using that by (cases xs) auto
  with assms show ?thesis
    by (auto simp: reset_def bind_prog_run then_prog_def terminated_def wipe_secrets_def console_config_def
        xbox360_stream_def split: if_splits option.splits)
qed

lemma connect_owned:
  assumes run: "connect alloc cfg s = Some (r, s')" and cfg: "console_config os cfg"
    and t: "terminated (fst s)"
  shows "terminated (fst s') \<and> (s' = s \<or> is_ok r \<or> r = UB \<or> \<not> is_open (snd s'))"
proof -
  have last: "owns os False (update (\<lambda>c. c\<lparr>c_state := CLIENT_CONNECTED\<rparr>))"
    by (rule keeps_relI) (auto simp: owned_def terminated_def)
  have body: "owns os False (connect_body alloc cfg (xbox360_platform os))"
    unfolding connect_body_def first_client_hello_def Let_def
    by (intro owns_intros owns_process_server_handshake owns_hello_body owns_handshake_keys last; simp)
  have "0 \<in> set (xs[0 := 0 :: u8])" if "length xs = 256" for xs using that by (cases xs) auto
  then have start: "terminated (connect_start cfg (fst s))" "c_config (connect_start cfg c) = cfg" for c
    using t by (auto simp: connect_start_def terminated_def)
  from run consider "s' = s"
    | "cc_platform cfg \<noteq> None" "cc_stream cfg \<noteq> None"
      "or_fail (connect_body alloc cfg (the (cc_platform cfg))) (connect_start cfg (fst s), snd s) = Some (r, s')"
    by (auto simp: connect_def bind_prog_run then_prog_def split: option.splits if_splits)
  then show ?thesis
  proof cases
    case 2
    with cfg have pf: "the (cc_platform cfg) = xbox360_platform os"
      and sm: "cc_stream cfg = Some (xbox360_stream os)" by (auto simp: console_config_def)
    note run = 2(3) [unfolded pf]
    from keeps_relD [OF owns_or_fail [OF body] run] start cfg
    have "terminated (fst s')" by (simp add: owned_def)
    moreover have "\<not> is_open (snd s')" if "r = Err e" for e
    proof -
      from run that obtain s1 where "connect_body alloc cfg (xbox360_platform os)
          (connect_start cfg (fst s), snd s) = Some (Err e, s1)" "fail s1 = Some (Ok (), s')"
        by (auto elim: or_fail_Err)
      from keeps_relD [OF body this(1)] this(2) start(2) sm show ?thesis
        by (auto simp: fail_def then_prog_def bind_prog_run owned_def is_open_def xbox360_stream_def
            xbox_close_def wipe_secrets_def)
    qed
    ultimately show ?thesis by (cases r) auto
  qed (use t in auto)
qed

end
