(* ===== verification/Contract.thy ===== *)
theory Contract
  imports Session NativeVerifier
begin

text \<open>
  The client in an environment that keeps the contracts of \<open>Platform\<close> and \<open>Authentication\<close>: every
  member function returns, and none of them leaves a buffer, but for one place in \<open>recv\<close>. The
  shape of the object, that is the sizes of its arrays and the state of its hash and its deframer,
  is the invariant.
\<close>

section \<open>The shape of the object\<close>

definition schedule_ok :: "key_schedule \<Rightarrow> bool" where
  "schedule_ok ks \<longleftrightarrow>
     length (client_handshake_traffic_secret ks) = 32 \<and> length (server_handshake_traffic_secret ks) = 32
     \<and> length (client_application_traffic_secret ks) = 32
     \<and> length (server_application_traffic_secret ks) = 32"

definition shape :: "'w client \<Rightarrow> bool" where
  "shape c \<longleftrightarrow>
     deframer_inv (c_deframer c) \<and> (\<exists>m. sha_inv m (c_transcript c)) \<and> schedule_ok (c_schedule c)
     \<and> length (c_private_key c) = 32 \<and> length (c_public_key c) = 65
     \<and> length (c_negotiated_alpn c) = 256 \<and> length (c_pending_app c) = 16384
     \<and> c_pending_app_offset c + c_pending_app_length c \<le> 16384"

lemma shape_updates [simp]:
  "shape (c\<lparr>c_state := st\<rparr>) = shape c" "shape (c\<lparr>c_config := cf\<rparr>) = shape c"
  "shape (c\<lparr>c_client_hs_keys := k\<rparr>) = shape c" "shape (c\<lparr>c_server_hs_keys := k\<rparr>) = shape c"
  "shape (c\<lparr>c_client_app_keys := k\<rparr>) = shape c" "shape (c\<lparr>c_server_app_keys := k\<rparr>) = shape c"
  "shape (c\<lparr>c_client_hello := bs\<rparr>) = shape c" "shape (c\<lparr>c_certificate_storage := bs\<rparr>) = shape c"
  "shape (c\<lparr>c_last_alert_level := lv\<rparr>) = shape c"
  "shape (c\<lparr>c_last_alert_description := ds\<rparr>) = shape c"
  by (simp_all add: shape_def)

lemma shape_changes [simp]:
  "shape c \<Longrightarrow> deframer_inv d \<Longrightarrow> shape (c\<lparr>c_deframer := d\<rparr>)"
  "shape c \<Longrightarrow> schedule_ok ks \<Longrightarrow> shape (c\<lparr>c_schedule := ks\<rparr>)"
  "shape c \<Longrightarrow> length bs = 32 \<Longrightarrow> shape (c\<lparr>c_private_key := bs\<rparr>)"
  "shape c \<Longrightarrow> length bs = 65 \<Longrightarrow> shape (c\<lparr>c_public_key := bs\<rparr>)"
  "shape c \<Longrightarrow> length bs = 256 \<Longrightarrow> shape (c\<lparr>c_negotiated_alpn := bs\<rparr>)"
  "shape c \<Longrightarrow> shape (c\<lparr>c_transcript := transcript_update (c_transcript c) b\<rparr>)"
  by (auto simp: shape_def dest: transcript_inv_update)

lemma shapeD:
  assumes "shape c"
  shows "deframer_inv (c_deframer c)" "schedule_ok (c_schedule c)" "length (c_private_key c) = 32"
    "length (c_public_key c) = 65" "length (c_negotiated_alpn c) = 256"
    "length (c_pending_app c) = 16384" "c_pending_app_offset c + c_pending_app_length c \<le> 16384"
  using assms by (simp_all add: shape_def)

lemma schedule_ok_zero [simp]: "schedule_ok key_schedule_zero"
  by (simp add: schedule_ok_def key_schedule_zero_def)

lemma shape_new: "shape tls_client_new"
  using transcript_inv_reset
  by (auto simp: shape_def tls_client_new_def deframer_new_inv)

lemma shape_wipe: "shape c \<Longrightarrow> shape (wipe_secrets c)"
  by (simp add: shape_def wipe_secrets_def)

lemma snapshot_length: "shape c \<Longrightarrow> length (transcript_snapshot (c_transcript c)) = 32"
  by (auto simp: shape_def transcript_snapshot_eq)

lemma length_to_be32 [simp]: "length (to_be32 a) = 32"
proof -
  have "length (fold (\<lambda>i out. write_at out (32 - 4 * (i + 1)) (store_be32 (lw a ! i))) [0..<n] out) = 32"
    if "length out = 32" and "n \<le> 8" for n out
    using that(2)
  proof (induction n)
    case (Suc n)
    then show ?case by (simp add: store_be32_def)
  qed (use that(1) in simp)
  then show ?thesis by (simp add: to_be32_def)
qed

text \<open>What a message of the deframer and an accepted message are made of.\<close>

definition message_valid :: "handshake_message \<Rightarrow> bool" where
  "message_valid m \<longleftrightarrow> \<not> span_null (hm_body m) \<and> \<not> span_null (hm_encoded m)"

lemma parse_handshake_valid: "parse_handshake_message (Span bs) = Ok (m, n) \<Longrightarrow> message_valid m"
  using parse_handshake_Ok [of bs m n] by (simp add: message_valid_def)

lemma deframer_peek_eq:
  "deframer_inv d \<Longrightarrow>
   deframer_peek d = bind_res (parse_handshake_message (Span (deframer_content d))) (\<lambda>(m, n). Ok m)"
  by (rule df.front_eq)

lemma deframer_peek_safe: "deframer_inv d \<Longrightarrow> safe (deframer_peek d) message_valid"
  using parse_handshake_message_safe [of "Span (deframer_content d)"] parse_handshake_valid [of "deframer_content d"]
  by (cases "parse_handshake_message (Span (deframer_content d))") (auto simp: deframer_peek_eq)

lemma ee_apply_valid:
  "span_valid (ee_alpn info) \<Longrightarrow> ee_apply exts info = Some r \<Longrightarrow> span_valid (ee_alpn r)"
  by (induction exts info rule: ee_apply.induct) (auto split: if_splits)

lemma parse_encrypted_extensions_valid:
  assumes "parse_encrypted_extensions msg = Ok ee"
  shows "span_valid (ee_alpn ee)"
proof -
  from assms obtain exts where "ee_apply exts encrypted_extensions_info_init = Some ee"
    unfolding parse_encrypted_extensions_iff by blast
  from ee_apply_valid [OF _ this] show ?thesis by (simp add: encrypted_extensions_info_init_def)
qed

text \<open>The list of certificates a flight has seen is readable once it has seen one.\<close>

definition flight_ok :: "flight \<Rightarrow> bool" where
  "flight_ok fl \<longleftrightarrow> (fl_have_cert fl \<longrightarrow> (\<exists>l. ci_certificate_list (fl_cert_info fl) = Span l))"

lemma flight_ok_init: "flight_ok flight_init"
  by (simp add: flight_ok_def flight_init_def)

section \<open>The environment\<close>

definition good :: "'w stream \<Rightarrow> 'w auth_verifier \<Rightarrow> 'w client \<times> 'w \<Rightarrow> bool" where
  "good sm av s \<longleftrightarrow> shape (fst s) \<and> cc_stream (c_config (fst s)) = Some sm
     \<and> cc_verifier (c_config (fst s)) = Some av"

locale environment =
  platform_laws pf budget + stream_laws sm budget + verifier_laws av budget
  for pf :: "'w platform" and sm :: "'w stream" and av :: "'w auth_verifier" and budget :: "'w \<Rightarrow> nat"
begin

abbreviation contract :: "('a \<Rightarrow> nat \<Rightarrow> bool) \<Rightarrow> ('w, 'a) cli \<Rightarrow> bool" where
  "contract \<equiv> fulfils (good sm av) (\<lambda>s. budget (snd s))"

abbreviation sound :: "('w, 'a) cli \<Rightarrow> bool" where
  "sound \<equiv> contract (\<lambda>_ _. True)"

lemma contract_client [fulfils_intros]:
  "contract (\<lambda>c d. d = 0 \<and> shape c \<and> cc_stream (c_config c) = Some sm \<and> cc_verifier (c_config c) = Some av) client"
  by (auto intro!: fulfilsI simp: runs_iff good_def)

lemma contract_update [fulfils_intros]:
  "P () 0 \<Longrightarrow> (\<And>c. shape c \<Longrightarrow> shape (f c) \<and> c_config (f c) = c_config c) \<Longrightarrow> contract P (update f)"
  by (auto intro!: fulfilsI simp: runs_iff good_def)

lemma contract_outside:
  assumes "obeys budget Q m"
  shows "contract (\<lambda>x _. Q x) (outside m)"
proof (rule fulfilsI)
  fix s assume s: "good sm av s"
  obtain r w' where "m (snd s) = (r, w')" by (cases "m (snd s)")
  with s obeysD [OF assms this] show "runs (outside m) s
      (\<lambda>x t. good sm av t \<and> budget (snd t) \<le> budget (snd s) \<and> Q x) (\<lambda>_ t. good sm av t \<and> budget (snd t) \<le> budget (snd s))"
    by (cases r) (auto simp: runs_iff outside_def good_def)
qed

lemma contract_with_stream [fulfils_intros]: "contract P (f sm) \<Longrightarrow> contract P (with_stream f)"
  unfolding with_stream_def
  by (rule fulfils_bind [OF contract_client]) (auto elim: fulfils_mono)

section \<open>Records\<close>

lemma read_exact_obeys:
  "length got \<le> need \<Longrightarrow> obeys budget (\<lambda>bs. length bs = need \<and> take (length got) bs = got)
     (read_exact sm need got)"
proof (induction "need - length got" arbitrary: got rule: less_induct)
  case less
  show ?case
  proof (rule obeysI)
    fix w r w' assume run: "read_exact sm need got w = (r, w')"
    show "safe r (\<lambda>bs. length bs = need \<and> take (length got) bs = got) \<and> budget w' \<le> budget w"
    proof (cases "length got < need")
      case True
      obtain q w1 where q: "sm_recv_some sm (need - length got) w = (q, w1)" by fastforce
      from obeysD [OF recv_law q] have q1: "safe q (\<lambda>bs. length bs \<le> need - length got)" "budget w1 \<le> budget w"
        by simp_all
      show ?thesis
      proof (cases q)
        case (Ok bs)
        show ?thesis
        proof (cases "bs = []")
          case False
          with Ok q1 True have len: "length (got @ bs) \<le> need" "need - length (got @ bs) < need - length got"
            by (cases bs; simp)+
          from run q Ok False q1 True have "read_exact sm need (got @ bs) w1 = (r, w')"
            by (simp add: read_exact.simps)
          from obeysD [OF less.hyps [OF len(2,1)] this] q1(2) show ?thesis
            by (auto elim!: safe_mono dest: arg_cong [where f = "take (length got)"] simp: min_def)
        qed (use run q Ok q1 True in \<open>auto simp: read_exact.simps\<close>)
      qed (use run q q1 True in \<open>auto simp: read_exact.simps\<close>)
    qed (use run less.prems in \<open>auto simp: read_exact.simps\<close>)
  qed
qed

lemma read_exact_uses:
  "read_exact sm need got w = (Ok bs, w') \<Longrightarrow> length got < need \<Longrightarrow> budget w' < budget w"
proof (induction "need - length got" arbitrary: got w rule: less_induct)
  case less
  obtain q w1 where q: "sm_recv_some sm (need - length got) w = (q, w1)" by fastforce
  from less.prems q obtain cs where cs: "q = Ok cs" "cs \<noteq> []" "length cs \<le> need - length got"
    and run: "read_exact sm need (got @ cs) w1 = (Ok bs, w')"
    by (auto simp: read_exact.simps [of sm need got] split: res.splits if_splits)
  have "0 < length cs" using cs(2) by simp
  with recv_uses [OF q [unfolded cs(1)]] have w1: "budget w1 < budget w" by linarith
  show ?case
  proof (cases "length (got @ cs) < need")
    case True
    with cs(2) less.prems(2) have "need - length (got @ cs) < need - length got" by (cases cs) simp_all
    from less.hyps [OF this run True] w1 show ?thesis by simp
  qed (use run w1 in \<open>simp add: read_exact.simps\<close>)
qed

lemma contract_read_exact:
  assumes "length got \<le> need"
  shows "contract (\<lambda>bs d. length bs = need \<and> take (length got) bs = got \<and> (length got < need \<longrightarrow> 0 < d))
    (outside (read_exact sm need got))"
proof (rule fulfilsI)
  fix s assume s: "good sm av s"
  obtain r w' where run: "read_exact sm need got (snd s) = (r, w')" by fastforce
  from obeysD [OF read_exact_obeys [OF assms] run] s
  show "runs (outside (read_exact sm need got)) s
      (\<lambda>bs t. good sm av t \<and> budget (snd t) \<le> budget (snd s) \<and> length bs = need
        \<and> take (length got) bs = got \<and> (length got < need \<longrightarrow> 0 < budget (snd s) - budget (snd t)))
      (\<lambda>_ t. good sm av t \<and> budget (snd t) \<le> budget (snd s))"
    using read_exact_uses [of need got "snd s" _ w'] run
    by (cases r) (auto simp: runs_iff outside_def good_def)
qed

lemma read_record_contract [fulfils_intros]:
  "contract (\<lambda>rec d. 0 < d \<and> whole_record capacity rec) (read_record capacity)"
  unfolding read_record_def
proof (rule fulfils_bind [OF contract_client], elim conjE)
  fix c :: "'w client" and d :: nat assume c: "d = 0" "cc_stream (c_config c) = Some sm"
  have total: "contract (\<lambda>rec d. 0 < d0 + d \<and> whole_record capacity rec)
      (outside (read_exact sm (5 + unat (rh_length h)) hdr))"
    if "length hdr = 5" "0 < d0" "parse_record_header (Span hdr) = Ok h"
      "unat (rh_length h) \<le> 16640" "5 + unat (rh_length h) \<le> capacity" for hdr h d0
  proof (rule fulfils_mono [OF contract_read_exact])
    fix rec and d1 :: nat
    assume "length rec = 5 + unat (rh_length h) \<and> take (length hdr) rec = hdr
      \<and> (length hdr < 5 + unat (rh_length h) \<longrightarrow> 0 < d1)"
    then have rec: "length rec = 5 + unat (rh_length h)" "take 5 rec = hdr" using that(1) by simp_all
    have "parse_record_header (Span rec) = Ok h"
      by (rule parse_record_header_take) (simp add: rec(2) that(3))
    with that rec(1) show "0 < d0 + d1 \<and> whole_record capacity rec" by (auto simp: whole_record_def)
  qed (use that in simp)
  show "contract (\<lambda>rec d'. 0 < d + d' \<and> whole_record capacity rec)
      (case cc_stream (c_config c) of None \<Rightarrow> throw XT_ERR_INVALID_ARGUMENT
       | Some sm \<Rightarrow> if capacity < 5 then throw XT_ERR_INVALID_ARGUMENT
         else bind_prog (outside (read_exact sm 5 [])) (\<lambda>hdr.
           bind_prog (of_res (parse_record_header (Span hdr))) (\<lambda>h.
             let total = 5 + unat (rh_length h) in
             if unat (rh_length h) > 16640 \<or> total > capacity then throw XT_ERR_BAD_RECORD
             else outside (read_exact sm total hdr))))"
    unfolding c option.case Let_def
  proof (intro fulfils_if fulfils_throw, rule fulfils_bind [OF contract_read_exact])
    fix hdr :: bytes and d1 :: nat assume "length hdr = 5 \<and> take (length []) hdr = [] \<and> (length ([] :: bytes) < 5 \<longrightarrow> 0 < d1)"
    then have hdr: "length hdr = 5" "0 < d1" by simp_all
    show "contract (\<lambda>rec d'. 0 < 0 + (d1 + d') \<and> whole_record capacity rec)
        (bind_prog (of_res (parse_record_header (Span hdr))) (\<lambda>h.
          if unat (rh_length h) > 16640 \<or> 5 + unat (rh_length h) > capacity then throw XT_ERR_BAD_RECORD
          else outside (read_exact sm (5 + unat (rh_length h)) hdr)))"
    proof (rule fulfils_bind [OF fulfils_of_res_eq [OF parse_record_header_safe]], intro fulfils_if fulfils_throw)
      fix h and d2 :: nat assume h: "d2 = 0 \<and> parse_record_header (Span hdr) = Ok h"
        "\<not> (unat (rh_length h) > 16640 \<or> 5 + unat (rh_length h) > capacity)"
      show "contract (\<lambda>y d'. 0 < 0 + (d1 + (d2 + d')) \<and> whole_record capacity y)
          (outside (read_exact sm (5 + unat (rh_length h)) hdr))"
        using h hdr by (intro fulfils_mono [OF total [of hdr d1 h]]) auto
    qed
  qed simp
qed

lemma contract_send: "sound (outside (sm_send_all sm bs))"
  by (rule contract_outside [OF send_law])

lemma contract_keys: "contract (\<lambda>_ _. True) (then_prog (update f) (of_res r))"
  if "r \<noteq> UB" "\<And>c. shape c \<Longrightarrow> shape (f c) \<and> c_config (f c) = c_config c"
  by (rule fulfils_then [OF contract_update]) (use that in \<open>auto intro: fulfils_of_res simp: safe_True_iff\<close>)

lemma send_plain_record_sound: "sound (send_plain_record t p)"
  unfolding send_plain_record_def
  by (rule fulfils_bind [OF contract_client])
    (auto simp: Let_def intro!: fulfils_intros fulfils_bind [OF contract_send] contract_send)

lemma sound_bind: "sound m \<Longrightarrow> (\<And>x. sound (f x)) \<Longrightarrow> sound (bind_prog m f)"
  and sound_then: "sound m \<Longrightarrow> sound k \<Longrightarrow> sound (then_prog m k)"
  and sound_res: "r \<noteq> UB \<Longrightarrow> sound (of_res r)"
  by (auto intro: fulfils_bind fulfils_then fulfils_of_res simp: safe_True_iff)

lemma sound_client:
  assumes "\<And>c. shape c \<Longrightarrow> cc_stream (c_config c) = Some sm \<Longrightarrow> cc_verifier (c_config c) = Some av \<Longrightarrow> sound (f c)"
  shows "sound (bind_prog client f)"
  by (rule fulfils_bind [OF contract_client]) (use assms in auto)

lemma sound_bind_res:
  assumes "r \<noteq> UB" and "\<And>x. r = Ok x \<Longrightarrow> sound (f x)"
  shows "sound (bind_prog (of_res r) f)"
  by (rule fulfils_bind [OF fulfils_of_res_eq [OF assms(1)]]) (use assms(2) in auto)

lemmas sound_intros = sound_client sound_bind_res sound_bind sound_then sound_res fulfils_ret
  fulfils_throw fulfils_check fulfils_if fulfils_prod contract_with_stream contract_update contract_send

lemma send_protected_sound: "sound (send_protected alloc t p)"
  unfolding send_protected_def Let_def
  by (intro sound_intros) (auto dest: arg_cong [where f = fst] simp: protect_record_safe)

lemma handle_alert_sound: "sound (handle_alert p)"
  unfolding handle_alert_def Let_def by (intro sound_intros) auto

lemma transcript_add_sound: "sound (transcript_add b)"
  unfolding transcript_add_def by (intro sound_intros) auto

section \<open>Handshake messages\<close>

lemma handle_encrypted_extensions_contract:
  assumes "message_valid msg" and "flight_ok fl"
  shows "contract (\<lambda>fl' _. flight_ok fl') (handle_encrypted_extensions msg fl)"
  unfolding handle_encrypted_extensions_def
proof (rule fulfils_bind [OF fulfils_of_res_eq [OF parse_encrypted_extensions_safe]],
    rule fulfils_bind [OF contract_client], rule fulfils_then)
  fix ee c and d d1 :: nat
  assume ee: "d = 0 \<and> parse_encrypted_extensions msg = Ok ee"
    and c: "d1 = 0 \<and> shape c \<and> cc_stream (c_config c) = Some sm \<and> cc_verifier (c_config c) = Some av"
  then have valid: "span_valid (ee_alpn ee)" using parse_encrypted_extensions_valid by blast
  have fits: "shape (c'\<lparr>c_negotiated_alpn := write_at (c_negotiated_alpn c') 0 (bs @ [0])\<rparr>)"
    if "shape c'" "length bs < 256" for c' and bs :: bytes
    using that shapeD(5) [OF that(1)] by simp
  show "sound (if ee_has_alpn ee then
      if span_size (ee_alpn ee) \<ge> length (c_negotiated_alpn c) then throw XT_ERR_BAD_HANDSHAKE
      else bind_prog (of_res (rd_bytes (ee_alpn ee) 0 (span_size (ee_alpn ee)))) (\<lambda>bs.
        update (\<lambda>c. c\<lparr>c_negotiated_alpn := write_at (c_negotiated_alpn c) 0 (bs @ [0])\<rparr>))
    else ret ())"
    using valid c shapeD(5) [of c]
    by (intro sound_intros fits conjI) (auto simp: span_valid_def rd_bytes_def)
next
  show "contract (\<lambda>y d'. flight_ok y) (then_prog (transcript_add (hm_encoded msg)) (ret fl))"
    using assms(2) by (intro fulfils_then [OF transcript_add_sound] fulfils_ret)
qed

lemma handle_certificate_contract:
  assumes "message_valid msg"
  shows "contract (\<lambda>fl' _. flight_ok fl') (handle_certificate msg fl)"
proof -
  have info: "flight_ok (fl\<lparr>fl_cert_info := info, fl_have_cert := True\<rparr>)" if "parse_certificate saved = Ok info"
    for saved info
    using that by (auto simp: parse_certificate_iff flight_ok_def)
  have bytes: "rd_bytes (hm_encoded msg) 0 (span_size (hm_encoded msg)) \<noteq> UB"
    using assms by (simp add: message_valid_def rd_bytes_def)
  show ?thesis
    unfolding handle_certificate_def
    by (intro fulfils_if fulfils_throw fulfils_bind [OF fulfils_of_res_eq [OF bytes]]
        fulfils_then [OF contract_update [where P = "\<lambda>_ _. True"]]
        fulfils_bind [OF fulfils_of_res_eq [OF parse_handshake_message_safe]] fulfils_prod
        fulfils_bind [OF fulfils_of_res_eq [OF parse_certificate_safe]]
        fulfils_then [OF transcript_add_sound] fulfils_ret) (auto intro: info)
qed

lemma handle_certificate_verify_contract:
  assumes "message_valid msg" and "flight_ok fl"
  shows "contract (\<lambda>fl' _. flight_ok fl') (handle_certificate_verify msg fl)"
proof (cases "fl_have_cert fl")
  case True
  with assms(2) obtain l where l: "ci_certificate_list (fl_cert_info fl) = Span l"
    by (auto simp: flight_ok_def)
  have sig: "span_valid (cv_signature cv)" if "parse_certificate_verify msg = Ok cv" for cv
    using that by (auto simp: parse_certificate_verify_iff)
  show ?thesis
    unfolding handle_certificate_verify_def
  proof (intro fulfils_if fulfils_throw, rule fulfils_bind [OF fulfils_of_res_eq [OF parse_certificate_verify_safe]],
      rule fulfils_bind [OF contract_client], rule fulfils_bind [OF contract_outside])
    fix cv c and d d1 :: nat
    assume "d = 0 \<and> parse_certificate_verify msg = Ok cv"
      and c: "d1 = 0 \<and> shape c \<and> cc_stream (c_config c) = Some sm \<and> cc_verifier (c_config c) = Some av"
    then show "obeys budget (\<lambda>_. True) (authenticate_server_flight (fl_cert_info fl) cv
        (Span (transcript_snapshot (c_transcript c))) (cc_hostname (c_config c)) (cc_verifier (c_config c)))"
      using authenticate_server_flight_obeys [OF l] sig snapshot_length by auto
  next
    show "contract (\<lambda>y d'. flight_ok y) (then_prog (transcript_add (hm_encoded msg)) (ret fl))"
      using assms(2) by (intro fulfils_then [OF transcript_add_sound] fulfils_ret)
  qed
qed (simp add: handle_certificate_verify_def fulfils_throw)

lemma handle_finished_contract:
  assumes "flight_ok fl"
  shows "contract (\<lambda>fl' _. flight_ok fl') (handle_finished msg fl)"
  unfolding handle_finished_def
  by (intro fulfils_bind [OF contract_client] fulfils_bind [OF fulfils_of_res_eq [OF verify_finished_safe]]
      fulfils_then [OF transcript_add_sound] fulfils_ret) (use assms in \<open>simp add: flight_ok_def\<close>)

lemma handle_handshake_message_contract:
  assumes "message_valid msg" and "flight_ok fl"
  shows "contract (\<lambda>fl' _. flight_ok fl') (handle_handshake_message msg fl)"
  unfolding handle_handshake_message_def
  using assms
  by (intro fulfils_if fulfils_throw handle_encrypted_extensions_contract handle_certificate_contract
      handle_certificate_verify_contract handle_finished_contract)

section \<open>The deframer\<close>

lemma deframe_append_sound: "sound (deframe_append (Span bs))"
proof -
  have inv: "deframer_inv (snd (deframer_append d (Span bs)))" if "deframer_inv d" for d
    using that df.app_fits [OF that, of bs] df.app_full [OF that, of bs]
    by (cases "length bs \<le> deframer_room d") auto
  show ?thesis
    unfolding deframe_append_def Let_def
    by (intro sound_intros) (use inv in \<open>auto dest: shapeD(1) simp: prod_eq_iff\<close>)
qed

lemma deframe_consume_runs:
  assumes "good sm av s" and "deframer_peek (c_deframer (fst s)) = Ok msg"
  shows "runs deframe_consume s (\<lambda>_ t. good sm av t \<and> snd t = snd s
      \<and> length (deframer_content (c_deframer (fst t))) < length (deframer_content (c_deframer (fst s)))) E"
proof -
  from assms(1) have inv: "deframer_inv (c_deframer (fst s))" by (simp add: good_def shapeD)
  from assms(2) obtain n where n: "parse_handshake_message (Span (deframer_content (c_deframer (fst s)))) = Ok (msg, n)"
    by (auto simp: deframer_peek_eq [OF inv] bind_res_Ok_iff)
  from df.pop_Ok [OF inv n] obtain d where "deframer_consume (c_deframer (fst s)) = (Ok (), d)" "deframer_inv d"
    by auto
  with df.pop_shrinks [OF inv this(1)] assms(1) show ?thesis
    by (simp add: deframe_consume_def runs_def client_def update_def good_def bind_prog_def of_res_def then_prog_def)
qed

text \<open>
  The two loops over the messages of a buffer have one shape: look at the first message, handle it,
  take it out. Each round makes the buffer shorter.
\<close>

lemma drain_round:
  assumes s: "good sm av s"
    and k: "\<And>msg. message_valid msg \<Longrightarrow> contract (\<lambda>x _. P x) (k msg)"
    and keep: "\<And>msg. keeps_rel (agree c_deframer) (k msg)"
    and more: "\<And>x. P x \<Longrightarrow> case g x of Inl l \<Rightarrow> J l | Inr y \<Rightarrow> Q y" and last: "Q a"
  shows "runs (bind_prog client (\<lambda>c. case deframer_peek (c_deframer c) of
       Ok msg \<Rightarrow> bind_prog (k msg) (\<lambda>x. then_prog deframe_consume (ret (g x)))
     | Err e \<Rightarrow> if e = XT_ERR_BUFFER_TOO_SMALL then ret (Inr a) else throw e
     | UB \<Rightarrow> of_res UB)) s
    (\<lambda>z t. good sm av t \<and> budget (snd t) \<le> budget (snd s) \<and> (case z of
       Inl l \<Rightarrow> J l \<and> length (deframer_content (c_deframer (fst t)))
           < length (deframer_content (c_deframer (fst s)))
     | Inr y \<Rightarrow> Q y))
    (\<lambda>_ t. good sm av t \<and> budget (snd t) \<le> budget (snd s))"
proof -
  have client: "runs client s R E = R (fst s) s" for R E by (simp add: runs_def client_def)
  from s have inv: "deframer_inv (c_deframer (fst s))" by (simp add: good_def shapeD)
  show ?thesis
  proof (cases "deframer_peek (c_deframer (fst s))")
    case (Ok msg)
    with deframer_peek_safe [OF inv] have "message_valid msg" by simp
    note run = runs_conj [OF fulfilsD [OF k [OF this] s] keep]
    have consume: "runs (then_prog deframe_consume (ret (g x))) t
        (\<lambda>z u. good sm av u \<and> budget (snd u) \<le> budget (snd s) \<and> (case z of
           Inl l \<Rightarrow> J l \<and> length (deframer_content (c_deframer (fst u)))
               < length (deframer_content (c_deframer (fst s)))
         | Inr y \<Rightarrow> Q y))
        (\<lambda>_ u. good sm av u \<and> budget (snd u) \<le> budget (snd s))"
      if t: "good sm av t" "budget (snd t) \<le> budget (snd s)" "P x" "agree c_deframer s t" for x t
    proof -
      from t(4) Ok have "deframer_peek (c_deframer (fst t)) = Ok msg" by (simp add: agree_def)
      from deframe_consume_runs [OF t(1) this] show ?thesis
        unfolding runs_then
        by (rule runs_mono) (use t more [OF t(3)] in \<open>auto simp: agree_def split: sum.splits\<close>)
    qed
    show ?thesis
      unfolding runs_simps client Ok res.case
      by (rule runs_mono [OF run], elim conjE, rule consume; simp)
  next
    case (Err e)
    then show ?thesis using s last by (simp add: client)
  next
    case UB
    with deframer_peek_safe [OF inv] show ?thesis by simp
  qed
qed

lemma drain_loop:
  assumes round: "\<And>l s. J l \<Longrightarrow> good sm av s \<Longrightarrow> runs (body l) s
    (\<lambda>z t. good sm av t \<and> budget (snd t) \<le> budget (snd s) \<and> (case z of
       Inl l \<Rightarrow> J l \<and> length (deframer_content (c_deframer (fst t)))
           < length (deframer_content (c_deframer (fst s)))
     | Inr y \<Rightarrow> Q y))
    (\<lambda>_ t. good sm av t \<and> budget (snd t) \<le> budget (snd s))"
    and start: "J l"
  shows "contract (\<lambda>x _. Q x) (loop_prog body l)"
proof (rule fulfilsI)
  fix s assume s: "good sm av s"
  show "runs (loop_prog body l) s (\<lambda>x t. good sm av t \<and> budget (snd t) \<le> budget (snd s) \<and> Q x)
      (\<lambda>_ t. good sm av t \<and> budget (snd t) \<le> budget (snd s))"
  proof (rule runs_loop [where I = "\<lambda>l t. J l \<and> good sm av t \<and> budget (snd t) \<le> budget (snd s)"
        and \<mu> = "\<lambda>_ t. length (deframer_content (c_deframer (fst t)))"])
    fix l t assume "J l \<and> good sm av t \<and> budget (snd t) \<le> budget (snd s)"
    then have l: "J l" "good sm av t" "budget (snd t) \<le> budget (snd s)" by simp_all
    show "runs (body l) t (\<lambda>z u. case z of
          Inl l' \<Rightarrow> (J l' \<and> good sm av u \<and> budget (snd u) \<le> budget (snd s))
            \<and> length (deframer_content (c_deframer (fst u))) < length (deframer_content (c_deframer (fst t)))
        | Inr x \<Rightarrow> good sm av u \<and> budget (snd u) \<le> budget (snd s) \<and> Q x)
        (\<lambda>_ u. good sm av u \<and> budget (snd u) \<le> budget (snd s))"
      by (rule runs_mono [OF round [OF l(1,2)]]) (use l(3) in \<open>auto split: sum.splits\<close>)
  qed (use s start in simp)
qed

lemma flight_messages_contract:
  "flight_ok fl \<Longrightarrow> contract (\<lambda>fl' _. flight_ok fl') (flight_messages fl)"
  unfolding flight_messages_def
proof (rule drain_loop)
  fix fl s assume "flight_ok fl" and s: "good sm av s"
  then show "runs (flight_messages_body fl) s
    (\<lambda>z t. good sm av t \<and> budget (snd t) \<le> budget (snd s) \<and> (case z of
       Inl l \<Rightarrow> flight_ok l \<and> length (deframer_content (c_deframer (fst t)))
           < length (deframer_content (c_deframer (fst s)))
     | Inr y \<Rightarrow> flight_ok y))
    (\<lambda>_ t. good sm av t \<and> budget (snd t) \<le> budget (snd s))"
    unfolding flight_messages_body_def
    by (intro drain_round [OF s, where P = flight_ok] handle_handshake_message_contract
        handle_handshake_message_deframer) simp_all
qed

section \<open>The server's flight\<close>

lemma open_record_contract:
  assumes "\<And>k c. shape c \<Longrightarrow> shape (upd k c) \<and> c_config (upd k c) = c_config c"
  shows "contract (\<lambda>x _. length (snd x) \<le> 16623) (open_record sel upd rec)"
  unfolding open_record_def Let_def
proof (rule fulfils_bind [OF contract_client], rule fulfils_prod)
  fix c r k
  assume u: "unprotect_record_aes128_gcm (sel c) (Span rec) (Span (replicate 16640 0)) = (r, k)"
  have "fst (unprotect_record_aes128_gcm (sel c) (Span rec) (Span (replicate 16640 0))) \<noteq> UB"
    by (rule unprotect_record_safe)
  then have safe: "r \<noteq> UB" by (simp add: u)
  have "length (snd x) \<le> 16623" if "r = Ok x" for x
    using u that opened_record_bounds [of "sel c" rec 16640 "fst x" "snd x"]
    by (simp add: unprotect_record_eq Let_def split: prod.splits)
  with safe have "safe r (\<lambda>x. length (snd x) \<le> 16623)" by (cases r) auto
  then show "contract (\<lambda>x _. length (snd x) \<le> 16623) (then_prog (update (upd k)) (of_res r))"
    by (intro fulfils_then [OF contract_update [where P = "\<lambda>_ _. True"]] fulfils_of_res) (use assms in auto)
qed

lemma record_payload:
  assumes "whole_record cap rec" and "parse_record_header (Span rec) = Ok h"
  shows "subspan (Span rec) 5 (unat (rh_length h)) = Ok (Span (drop 5 rec))"
  using assms by (auto simp: whole_record_def subspan_def slice_def)

lemma throw_after: "contract P m \<Longrightarrow> contract Q (bind_prog m throw)"
  by (erule fulfils_bind) (rule fulfils_throw)

lemma flight_record_contract:
  assumes rec: "whole_record cap rec" and fl: "flight_ok fl"
  shows "contract (\<lambda>z _. case z of Inl l \<Rightarrow> flight_ok l | Inr y \<Rightarrow> flight_ok y) (flight_record fl rec)"
proof -
  note open_rec = open_record_contract [of "\<lambda>k c. c\<lparr>c_server_hs_keys := k\<rparr>" c_server_hs_keys rec]
  show ?thesis
    unfolding flight_record_def
  proof (rule fulfils_bind [OF fulfils_of_res_eq [OF parse_record_header_safe]], elim conjE)
    fix h and d :: nat assume h: "parse_record_header (Span rec) = Ok h"
    have pay: "of_res (subspan (Span rec) 5 (unat (rh_length h))) = ret (Span (drop 5 rec))"
      unfolding record_payload [OF rec h] by (simp add: of_res_def ret_def fun_eq_iff)
    have ret_bind: "bind_prog (ret x) f = f x" for x and f :: "byte_span \<Rightarrow> ('w, flight + flight) cli"
      by (simp add: bind_prog_def ret_def fun_eq_iff)
    show "contract (\<lambda>z _. case z of Inl l \<Rightarrow> flight_ok l | Inr y \<Rightarrow> flight_ok y)
      (if rh_type h = content_change_cipher_spec then ret (Inl fl)
       else if rh_type h = content_alert then
         bind_prog (of_res (subspan (Span rec) 5 (unat (rh_length h)))) (\<lambda>p. bind_prog (handle_alert p) throw)
       else if rh_type h \<noteq> content_application_data then throw XT_ERR_BAD_RECORD
       else
         bind_prog (open_record c_server_hs_keys (\<lambda>k c. c\<lparr>c_server_hs_keys := k\<rparr>) rec) (\<lambda>(inner, plain).
           if inner = content_alert then bind_prog (handle_alert (Span plain)) throw
           else if inner \<noteq> content_handshake then throw XT_ERR_BAD_HANDSHAKE
           else
             then_prog (deframe_append (Span plain))
             (bind_prog (flight_messages fl) (\<lambda>fl'.
                ret (if fl_got_finished fl' then Inr fl' else Inl fl')))))"
      unfolding pay ret_bind
      by (intro fulfils_if fulfils_throw fulfils_ret fulfils_bind [OF open_rec] fulfils_prod
          throw_after [OF handle_alert_sound] fulfils_then [OF deframe_append_sound]
          fulfils_bind [OF flight_messages_contract [OF fl]])
        (use fl in auto)
  qed
qed

lemma flight_loop_contract: "sound (loop_prog flight_body flight_init)"
proof -
  have "contract (\<lambda>z d. case z of Inl l \<Rightarrow> flight_ok l \<and> 0 \<le> (0::nat) \<and> (0 < d \<or> 0 < (0::nat)) | Inr _ \<Rightarrow> True)
      (flight_body fl)" if "flight_ok fl" for fl
    unfolding flight_body_def
  proof (rule fulfils_bind [OF read_record_contract], elim conjE)
    fix rec and d :: nat assume "0 < d" "whole_record 16645 rec"
    then show "contract (\<lambda>z d'. case z of Inl l \<Rightarrow> flight_ok l \<and> 0 \<le> (0::nat) \<and> (0 < d + d' \<or> 0 < (0::nat)) | Inr _ \<Rightarrow> True)
        (flight_record fl rec)"
      by (intro fulfils_mono [OF flight_record_contract [OF _ that]]) (auto split: sum.splits)
  qed
  from fulfils_loop [where \<nu> = "\<lambda>_. 0" and P = "\<lambda>_. True", OF this flight_ok_init]
  show ?thesis .
qed

lemma set_traffic_keys_sound:
  assumes "\<And>k c. shape c \<Longrightarrow> shape (upd k c) \<and> c_config (upd k c) = c_config c"
  shows "sound (set_traffic_keys secret sel upd)"
  unfolding set_traffic_keys_def Let_def by (intro sound_intros) (use assms in auto)

lemma derive_schedule_ok:
  "length th = 32 \<Longrightarrow> schedule_ok ks \<Longrightarrow> schedule_ok (snd (derive_master_secret ks th))"
  "length th = 32 \<Longrightarrow> schedule_ok ks \<Longrightarrow> schedule_ok (snd (derive_handshake_secret ks sh th))"
  "schedule_ok ks \<Longrightarrow> schedule_ok (snd (derive_early_secret ks psk))"
  by (simp_all add: derive_master_secret_eq derive_handshake_secret_eq derive_early_secret_eq
      schedule_ok_def Let_def)

lemma finish_handshake_sound: "sound (finish_handshake alloc)"
proof -
  have ks: "shape (c'\<lparr>c_schedule := ks\<rparr>)"
    if "shape c'" "shape c" "derive_master_secret (c_schedule c) (transcript_snapshot (c_transcript c)) = (e, ks)"
    for c c' :: "'w client" and e ks
    using that derive_schedule_ok(1) [OF snapshot_length shapeD(2), of c c] by simp
  have fin: "build_finished_sha256 (Span (client_handshake_traffic_secret (c_schedule c)))
      (Span (transcript_snapshot (c_transcript c))) (Span (replicate 64 0)) \<noteq> UB" if "shape c" for c :: "'w client"
    using that shapeD(2) [OF that] snapshot_length [OF that] by (simp add: build_finished_eq schedule_ok_def)
  show ?thesis
    unfolding finish_handshake_def Let_def
    by (intro sound_intros set_traffic_keys_sound send_protected_sound transcript_add_sound)
      (auto intro: ks simp: fin)
qed

lemma process_server_handshake_sound: "sound (process_server_handshake alloc)"
  unfolding process_server_handshake_def
  by (intro sound_then flight_loop_contract finish_handshake_sound)

section \<open>Connecting\<close>

lemma random_private_key_sound: "sound (random_private_key pf retry)"
proof -
  have random: "contract (\<lambda>k _. length k = 32) (outside (pf_random_bytes pf 32))"
    by (rule contract_outside [OF random_law]) simp
  then have "contract (\<lambda>k _. length k = 32) (if retry
      then on_error (outside (pf_random_bytes pf 32)) (\<lambda>_. throw XT_ERR_CRYPTO)
      else outside (pf_random_bytes pf 32))"
    by (intro fulfils_if fulfils_on_error fulfils_throw)
  then show ?thesis
    unfolding random_private_key_def by (rule fulfils_bind) (auto intro!: contract_update)
qed

lemma p256_keygen_sound: "sound (p256_keygen pf retry n e)"
proof (induction n arbitrary: e)
  case (Suc n)
  have pk: "safe (p256_public_from_private (Span (c_private_key c))) (\<lambda>pk. length pk = 65)"
    if "shape c" for c :: "'w client"
    using shapeD(3) [OF that]
    by (auto simp: p256_public_from_private_def Let_def split: option.splits)
  show ?case
    unfolding p256_keygen.simps
  proof (intro sound_then random_private_key_sound sound_client)
    fix c :: "'w client" assume "shape c"
    from pk [OF this] show "sound (case p256_public_from_private (Span (c_private_key c)) of
        Ok pk \<Rightarrow> update (\<lambda>c. c\<lparr>c_public_key := pk\<rparr>)
      | Err e' \<Rightarrow> p256_keygen pf retry n e' | UB \<Rightarrow> of_res UB)"
      by (cases "p256_public_from_private (Span (c_private_key c))") (auto intro: contract_update Suc.IH)
  qed
qed (simp add: fulfils_throw)

lemma x25519_keygen_sound: "sound (x25519_keygen pf retry)"
proof -
  have clamp: "shape (c\<lparr>c_private_key := x25519_clamp_key (c_private_key c)\<rparr>)" if "shape c" for c :: "'w client"
    using that shapeD(3) [OF that] by (simp add: x25519_clamp_key_def Let_def)
  have pk: "safe (x25519_public_from_private (Span (c_private_key c))) (\<lambda>pk. length pk = 32)"
    if "shape c" for c :: "'w client"
    by (rule x25519_public_from_private_safe [OF shapeD(3) [OF that]])
  have public: "shape (c\<lparr>c_public_key := write_at (c_public_key c) 0 pk\<rparr>)"
    if "shape c" "length pk = 32" for c :: "'w client" and pk
    using that shapeD(4) [OF that(1)] by simp
  show ?thesis
    unfolding x25519_keygen_def
  proof (intro sound_then random_private_key_sound sound_client contract_update conjI sound_bind_res)
    fix c c' :: "'w client" and pk'
    assume "shape c" "x25519_public_from_private (Span (c_private_key c)) = Ok pk'" "shape c'"
    with pk [of c] public [of c'] show "shape (c'\<lparr>c_public_key := write_at (c_public_key c') 0 pk'\<rparr>)" by simp
  qed (auto intro: clamp dest: pk [THEN safe_not_UB])
qed

lemma generate_key_sound: "sound (generate_key pf retry g)"
  unfolding generate_key_def
  by (intro fulfils_if p256_keygen_sound x25519_keygen_sound fulfils_throw)

lemma build_client_hello_safe:
  assumes "ch_spans_valid p"
  shows "build_client_hello p (Span out) \<noteq> UB"
  unfolding build_client_hello_eq [OF assms] by auto

lemma send_client_hello_sound: "ch_spans_valid p \<Longrightarrow> sound (send_client_hello p)"
  unfolding send_client_hello_def
  by (intro sound_intros transcript_add_sound send_plain_record_sound) (auto simp: build_client_hello_safe)

lemma consume_last_sound: "sound consume_last"
proof -
  have "deframer_consume d = (r, d') \<Longrightarrow> deframer_inv d \<Longrightarrow> r \<noteq> UB \<and> deframer_inv d'" for d r d'
    using df.pop_Ok [of d] df.pop_Err [of d] parse_handshake_message_safe [of "Span (deframer_content d)"]
    by (cases "parse_handshake_message (Span (deframer_content d))") fastforce+
  then have "sound deframe_consume"
    unfolding deframe_consume_def Let_def
    by (intro sound_intros) (auto dest: shapeD(1))
  then show ?thesis
    unfolding consume_last_def
    by (intro sound_then fulfils_on_error sound_client fulfils_if fulfils_throw fulfils_ret) simp_all
qed

lemma retry_transcript_sound: "sound (retry_transcript hrr)"
proof -
  have "shape (c\<lparr>c_transcript := transcript_update transcript_reset b\<rparr>)" if "shape c" for c :: "'w client" and b
    using that transcript_inv_update [OF transcript_inv_reset, of b] by (auto simp: shape_def)
  then show ?thesis
    unfolding retry_transcript_def Let_def
    by (intro sound_intros transcript_add_sound) auto
qed

definition hello_ok :: "hello_state \<Rightarrow> bool" where
  "hello_ok hl \<longleftrightarrow> ch_spans_valid (hl_params hl)"

text \<open>A second HelloRetryRequest is refused: the loop goes round at most once without reading.\<close>

definition hello_left :: "hello_state \<Rightarrow> nat" where
  "hello_left hl = (if hl_had_hrr hl then 0 else 1)"

lemma hello_record_contract:
  assumes rec: "whole_record cap rec"
  shows "contract (\<lambda>hl' _. hl' = hl) (hello_record hl rec)"
  unfolding hello_record_def
proof (rule fulfils_bind [OF fulfils_of_res_eq [OF parse_record_header_safe]], elim conjE)
  fix h and d :: nat assume h: "parse_record_header (Span rec) = Ok h"
  then have "whole_record cap rec \<and> length rec = 5 + unat (rh_length h)"
    using rec by (auto simp: whole_record_def)
  then have five: "rd (Span rec) 5 \<noteq> UB" if "unat (rh_length h) = 1" using that by (simp add: rd_def)
  show "contract (\<lambda>hl' _. hl' = hl)
    (if rh_type h = content_change_cipher_spec then
       if unat (rh_length h) \<noteq> 1 then throw XT_ERR_BAD_RECORD
       else bind_prog (of_res (rd (Span rec) 5)) (\<lambda>b. if b \<noteq> 1 then throw XT_ERR_BAD_RECORD else ret hl)
     else bind_prog (of_res (subspan (Span rec) 5 (unat (rh_length h)))) (\<lambda>payload.
       if rh_type h = content_alert then bind_prog (handle_alert payload) throw
       else if rh_type h \<noteq> content_handshake then throw XT_ERR_BAD_HANDSHAKE
       else then_prog (deframe_append payload) (ret hl)))"
    unfolding record_payload [OF rec h]
    by (intro fulfils_if fulfils_throw fulfils_ret fulfils_bind [OF fulfils_of_res_eq]
        throw_after [OF handle_alert_sound])
      (auto simp: five intro!: fulfils_then [OF deframe_append_sound] fulfils_ret)
qed

lemma hello_retry_contract:
  assumes "hello_ok hl"
  shows "contract (\<lambda>hl' _. hello_ok hl' \<and> hello_left hl' < hello_left hl) (hello_retry pf hl hm sh)"
proof -
  have params: "ch_spans_valid (p\<lparr>chp_group := g, chp_key_share := Span k, chp_cookie := ck\<rparr>)"
    if "ch_spans_valid p" for p g k ck
    using that by (simp add: ch_spans_valid_def)
  show ?thesis
  proof (cases "hl_had_hrr hl")
    case False
    show ?thesis
      unfolding hello_retry_def Let_def
      by (intro fulfils_if fulfils_throw fulfils_then [OF retry_transcript_sound]
          fulfils_then [OF consume_last_sound] fulfils_then [OF generate_key_sound]
          fulfils_bind [OF contract_client] fulfils_then [OF send_client_hello_sound] fulfils_ret)
        (use assms False in \<open>auto simp: hello_ok_def hello_left_def intro!: params\<close>)
  qed (simp add: hello_retry_def fulfils_throw)
qed

lemma hello_body_contract:
  assumes hl: "hello_ok hl"
  shows "contract (\<lambda>z d. case z of
      Inl hl' \<Rightarrow> hello_ok hl' \<and> hello_left hl' \<le> hello_left hl \<and> (0 < d \<or> hello_left hl' < hello_left hl)
    | Inr x \<Rightarrow> sh_sizes (fst x)) (hello_body pf sid hl)" (is "contract ?P _")
  unfolding hello_body_def
proof (rule fulfils_bind [OF contract_client], elim conjE)
  fix c :: "'w client" and d0 :: nat assume d0: "d0 = 0" and c: "shape c"
  from deframer_peek_safe [OF shapeD(1) [OF c]]
  show "contract (\<lambda>y d'. ?P y (d0 + d')) (case deframer_peek (c_deframer c) of
      Ok hm \<Rightarrow> if hm_type hm \<noteq> hs_server_hello then throw XT_ERR_BAD_HANDSHAKE
        else bind_prog (of_res (parse_server_hello (hm_encoded hm))) (\<lambda>sh.
          if sh_session_id_length sh \<noteq> 32 \<or> sh_session_id sh \<noteq> sid then throw XT_ERR_BAD_HANDSHAKE
          else if sh_hello_retry_request sh then
            bind_prog (hello_retry pf hl hm sh) (\<lambda>hl'. ret (Inl hl'))
          else then_prog (transcript_add (hm_encoded hm))
            (then_prog consume_last (ret (Inr (sh, hl_active_group hl)))))
    | Err e \<Rightarrow> if e = XT_ERR_BUFFER_TOO_SMALL then
          bind_prog (read_record 16645) (\<lambda>rec. bind_prog (hello_record hl rec) (\<lambda>hl'. ret (Inl hl')))
        else throw XT_ERR_BAD_HANDSHAKE
    | UB \<Rightarrow> of_res UB)"
  proof (cases "deframer_peek (c_deframer c)")
    case (Ok hm)
    with deframer_peek_safe [OF shapeD(1) [OF c]] obtain bs where bs: "hm_encoded hm = Span bs"
      by (cases "hm_encoded hm") (auto simp: message_valid_def)
    have "sh_sizes sh" if "parse_server_hello (Span bs) = Ok sh" for sh
      using parse_server_hello_promises [OF that] by simp
    then show ?thesis
      unfolding Ok res.case bs
      by (intro fulfils_if fulfils_throw fulfils_bind [OF fulfils_of_res_eq [OF parse_server_hello_safe]]
          fulfils_bind [OF hello_retry_contract [OF hl]] fulfils_then [OF transcript_add_sound]
          fulfils_then [OF consume_last_sound] fulfils_ret) auto
  next
    case (Err e)
    show ?thesis
      unfolding Err res.case
    proof (intro fulfils_if fulfils_throw, rule fulfils_bind [OF read_record_contract], elim conjE)
      fix rec and d :: nat assume "0 < d" and rec: "whole_record 16645 rec"
      then show "contract (\<lambda>y d'. ?P y (d0 + (d + d'))) (bind_prog (hello_record hl rec) (\<lambda>hl'. ret (Inl hl')))"
        by (intro fulfils_bind [OF hello_record_contract [OF rec]] fulfils_ret) (use hl in auto)
    qed
  qed simp
qed

lemma handshake_keys_sound:
  assumes "sh_sizes sh"
  shows "sound (handshake_keys sh g)"
proof -
  have secret: "shared_secret k sh \<noteq> UB" if "length k = 32" for k
    using assms that x25519_shared_secret_safe [of k "sh_key_share sh"]
      p256_shared_secret_safe [of k "sh_key_share sh"]
    by (auto simp: shared_secret_def sh_sizes_def dest: safe_not_UB)
  have early: "schedule_ok ks" if "shape c" "derive_early_secret (c_schedule c) [] = (e, ks)"
    for c :: "'w client" and e ks
    using that derive_schedule_ok(3) [OF shapeD(2) [OF that(1)], of "[]"] by simp
  have hs: "schedule_ok ks'" if "schedule_ok ks" "shape c"
      "derive_handshake_secret ks sec (transcript_snapshot (c_transcript c)) = (e, ks')"
    for c :: "'w client" and e ks ks' sec
    using that derive_schedule_ok(2) [OF snapshot_length [OF that(2)] that(1), of sec] by simp
  show ?thesis
    unfolding handshake_keys_def Let_def
    by (intro sound_intros set_traffic_keys_sound)
      (auto intro!: secret shape_changes deframer_reset_inv intro: hs early shapeD)
qed

lemma first_client_hello_contract:
  "contract (\<lambda>x _. ch_spans_valid (snd x)) (first_client_hello cfg pf)"
  unfolding first_client_hello_def Let_def
  by (intro fulfils_bind [OF contract_outside [OF random_law [of 32]]] fulfils_then [OF generate_key_sound]
      fulfils_bind [OF contract_client] fulfils_then [OF send_client_hello_sound] fulfils_ret)
    (auto simp: ch_spans_valid_def)

lemma reset_deframer_sound: "sound (update (\<lambda>c. c\<lparr>c_deframer := deframer_reset (c_deframer c)\<rparr>))"
  by (rule contract_update) (auto intro!: shape_changes deframer_reset_inv dest: shapeD(1))

lemma connect_body_sound: "sound (connect_body alloc cfg pf)"
proof -
  have loop: "contract (\<lambda>x _. sh_sizes (fst x)) (loop_prog (hello_body pf sid) hl)" if "hello_ok hl" for sid hl
    using fulfils_loop [where J = hello_ok and \<nu> = hello_left and P = "\<lambda>x. sh_sizes (fst x)",
        OF hello_body_contract that] .
  show ?thesis
    unfolding connect_body_def
    by (intro fulfils_bind [OF first_client_hello_contract] fulfils_prod
        fulfils_then [OF reset_deframer_sound] fulfils_bind [OF loop]
        fulfils_then [OF handshake_keys_sound] fulfils_then [OF process_server_handshake_sound]
        contract_update) (auto simp: hello_ok_def)
qed

section \<open>The member functions\<close>

lemma fail_sound: "sound fail"
proof -
  have "sound close_stream"
    using close_law by (auto intro!: fulfilsI simp: runs_def close_stream_def good_def)
  then show ?thesis
    unfolding fail_def by (intro sound_then contract_update) (auto simp: shape_wipe)
qed

lemma contract_or_fail: "contract P m \<Longrightarrow> contract P (or_fail m)"
  unfolding or_fail_def
  by (intro fulfils_on_error fulfils_then [OF fail_sound] fulfils_throw)

text \<open>
  \<open>connect\<close> stores its configuration before anything else: it may start from any object of the
  right shape, whatever configuration the object had.
\<close>

lemma connect_runs:
  assumes "shape (fst s)"
    and cfg: "cc_platform cfg = Some pf" "cc_stream cfg = Some sm" "cc_verifier cfg = Some av"
  shows "runs (connect alloc cfg) s (\<lambda>_ t. good sm av t \<and> budget (snd t) \<le> budget (snd s))
    (\<lambda>_ t. shape (fst t) \<and> budget (snd t) \<le> budget (snd s))"
proof -
  have client: "runs client s R E = R (fst s) s" for R E by (simp add: runs_def client_def)
  have update: "runs (update f) s R E = R () (f (fst s), snd s)" for f R E
    by (simp add: runs_def update_def)
  have "shape (connect_start cfg (fst s))"
    using assms(1) transcript_inv_reset
    by (auto simp: connect_start_def shape_def deframer_reset_inv)
  then have good: "good sm av (connect_start cfg (fst s), snd s)"
    using cfg(2,3) by (simp add: good_def connect_start_def)
  have body: "runs (or_fail (connect_body alloc cfg pf)) (connect_start cfg (fst s), snd s)
      (\<lambda>_ t. good sm av t \<and> budget (snd t) \<le> budget (snd s))
      (\<lambda>_ t. shape (fst t) \<and> budget (snd t) \<le> budget (snd s))"
    using fulfilsD [OF contract_or_fail [OF connect_body_sound] good]
    by (rule runs_mono) (auto simp: good_def)
  show ?thesis
    unfolding connect_def runs_simps client
    using assms(1) body by (auto simp: update cfg(1) split: option.splits)
qed

lemma update_traffic_sound: "sound update_server_traffic" "sound update_client_traffic"
  unfolding update_server_traffic_def update_client_traffic_def Let_def
  by (intro sound_intros; auto simp: update_traffic_secret_eq Let_def shape_def schedule_ok_def)+

lemma post_handshake_message_sound: "message_valid msg \<Longrightarrow> sound (post_handshake_message alloc msg)"
  unfolding post_handshake_message_def
  by (intro sound_intros update_traffic_sound send_protected_sound) (auto simp: message_valid_def rd_def)

lemma process_post_handshake_sound: "sound (process_post_handshake alloc bs)"
proof -
  have "sound (loop_prog (post_handshake_body alloc) ())"
  proof (rule drain_loop [where J = "\<lambda>_. True"])
    fix u s assume s: "good sm av s"
    show "runs (post_handshake_body alloc u) s
      (\<lambda>z t. good sm av t \<and> budget (snd t) \<le> budget (snd s) \<and> (case z of
         Inl _ \<Rightarrow> True \<and> length (deframer_content (c_deframer (fst t)))
             < length (deframer_content (c_deframer (fst s)))
       | Inr _ \<Rightarrow> True))
      (\<lambda>_ t. good sm av t \<and> budget (snd t) \<le> budget (snd s))"
      unfolding post_handshake_body_def then_prog_def [of "post_handshake_message _ _"]
      by (intro drain_round [OF s, where P = "\<lambda>_. True"] post_handshake_message_sound
          post_handshake_message_deframer) simp_all
  qed simp
  then show ?thesis
    unfolding process_post_handshake_def by (intro sound_then deframe_append_sound)
qed

lemma key_update_sound: "sound (key_update alloc b)"
  unfolding key_update_def
  by (intro sound_client fulfils_if fulfils_throw sound_then contract_or_fail send_protected_sound
      update_traffic_sound)

lemma send_loop_sound: "span_valid data \<Longrightarrow> sound (send_loop alloc padding n data off)"
proof (induction alloc padding n data off rule: send_loop.induct)
  case (1 alloc padding n data off)
  have sub: "subspan data off k \<noteq> UB" if "off + k \<le> span_size data" "0 < k" for k
    using that 1(2) by (cases data) (auto simp: subspan_def)
  have chunk: "sound (send_chunk alloc padding c)" for c
    unfolding send_chunk_def Let_def
    by (intro sound_intros) (auto dest: arg_cong [where f = fst] simp: protect_record_safe)
  show ?case
    by (subst send_loop.simps)
      (use 1 in \<open>auto simp: Let_def sub intro!: sound_then sound_bind_res contract_or_fail chunk fulfils_ret\<close>)
qed

lemma send_sound: "span_valid data \<Longrightarrow> sound (send alloc data)"
  unfolding send_def Let_def
  by (intro sound_client fulfils_if fulfils_throw send_loop_sound)

lemma recv_pending_sound: "sound (recv_pending cap)"
  unfolding recv_pending_def Let_def
  by (intro sound_intros) (auto simp: rd_bytes_def shape_def)

lemma recv_data_sound: "length plain \<le> 16384 + cap \<Longrightarrow> sound (recv_data cap plain)"
  unfolding recv_data_def Let_def
  by (intro sound_intros; cases "cap < length plain") (auto simp: shape_def)

lemma closed_by_peer_sound: "sound closed_by_peer"
proof -
  have "sound close_stream"
    using close_law by (auto intro!: fulfilsI simp: runs_def close_stream_def good_def)
  then show ?thesis
    unfolding closed_by_peer_def by (intro sound_intros) (auto simp: shape_wipe)
qed

lemma recv_body_contract:
  assumes "239 \<le> cap"
  shows "contract (\<lambda>z d. case z of Inl _ \<Rightarrow> 0 < d | Inr _ \<Rightarrow> True) (recv_body alloc cap u)"
proof -
  note open_rec = contract_or_fail [OF open_record_contract [of "\<lambda>k c. c\<lparr>c_server_app_keys := k\<rparr>" c_server_app_keys]]
  show ?thesis
    unfolding recv_body_def
    by (rule fulfils_bind [OF contract_or_fail [OF read_record_contract]], elim conjE,
        intro fulfils_bind [OF contract_or_fail [OF fulfils_of_res_eq [OF parse_record_header_safe]]]
        fulfils_if fulfils_ret fulfils_throw contract_or_fail fulfils_bind [OF open_rec] fulfils_prod
        fulfils_bind [OF recv_data_sound] fulfils_bind [OF handle_alert_sound]
        fulfils_then [OF closed_by_peer_sound] fulfils_then [OF contract_or_fail [OF process_post_handshake_sound]])
      (use assms in auto)
qed

text \<open>
  With room for 239 bytes in the caller's buffer, what is left of a record fits \<open>pending_app_\<close>.
\<close>

lemma recv_sound:
  assumes "span_valid out" and "239 \<le> span_size out"
  shows "sound (recv alloc out)"
proof -
  have "contract (\<lambda>z d. case z of Inl l \<Rightarrow> True \<and> 0 \<le> (0::nat) \<and> (0 < d \<or> 0 < (0::nat)) | Inr _ \<Rightarrow> True)
      (recv_body alloc (span_size out) u)" for u
    by (rule fulfils_mono [OF recv_body_contract [OF assms(2)]]) (auto split: sum.splits)
  from fulfils_loop [where J = "\<lambda>_. True" and \<nu> = "\<lambda>_. 0" and P = "\<lambda>_. True", OF this TrueI]
  show ?thesis
    unfolding recv_def by (intro fulfils_if fulfils_throw sound_client recv_pending_sound)
qed

lemma close_sound: "sound (close alloc)"
proof -
  have "sound close_stream"
    using close_law by (auto intro!: fulfilsI simp: runs_def close_stream_def good_def)
  then show ?thesis
    unfolding close_def
    by (intro sound_client fulfils_if fulfils_ret sound_then fulfils_on_error send_protected_sound contract_update)
      (auto simp: shape_wipe)
qed

end

end
