(* ===== verification/Traffic.thy ===== *)
theory Traffic
  imports Session
begin

text \<open>
  Application data: what \<open>send\<close> puts on the wire and \<open>recv\<close> takes from it. The records that \<open>send\<close>
  writes, opened in order under the same keys, give back the data; \<open>recv\<close> hands out every byte of a
  record once and in order; a key update changes the keys after the message that announces it.
\<close>

section \<open>Reference\<close>

text \<open>The data cut into pieces of \<open>n\<close> bytes, the last one shorter.\<close>

function chunks :: "nat \<Rightarrow> 'a list \<Rightarrow> 'a list list" where
  "chunks n xs = (if xs = [] \<or> n = 0 then [] else take n xs # chunks n (drop n xs))"
  by pat_completeness auto
termination by (relation "measure (\<lambda>(n, xs). length xs)") auto

declare chunks.simps [simp del]

lemma chunks_simps [simp]: "chunks n [] = []" "chunks 0 xs = []"
  by (simp_all add: chunks.simps)

lemma concat_chunks: "0 < n \<Longrightarrow> concat (chunks n xs) = xs"
  by (induction n xs rule: chunks.induct) (subst chunks.simps, auto)

lemma chunks_length: "c \<in> set (chunks n xs) \<Longrightarrow> length c \<le> n \<and> length c \<le> length xs"
proof (induction n xs rule: chunks.induct)
  case (1 n xs)
  show ?case
  proof (cases "xs = [] \<or> n = 0")
    case False
    with 1(2) have "c = take n xs \<or> c \<in> set (chunks n (drop n xs))" by (subst (asm) chunks.simps) auto
    with 1(1) [OF False] show ?thesis by auto
  qed (use 1(2) in auto)
qed

definition advance :: "traffic_keys \<Rightarrow> nat \<Rightarrow> traffic_keys" where
  "advance keys n = keys\<lparr>tk_seq := tk_seq keys + of_nat n\<rparr>"

lemma advance_simps [simp]:
  "advance keys 0 = keys" "advance (keys\<lparr>tk_seq := tk_seq keys + 1\<rparr>) n = advance keys (Suc n)"
  by (simp_all add: advance_def)

text \<open>The pieces as records of application data, under successive sequence numbers.\<close>

primrec sealed_records :: "traffic_keys \<Rightarrow> nat \<Rightarrow> bytes list \<Rightarrow> bytes list" where
  "sealed_records keys padding [] = []"
| "sealed_records keys padding (c # cs) =
     sealed_record keys content_application_data c padding
       # sealed_records (keys\<lparr>tk_seq := tk_seq keys + 1\<rparr>) padding cs"

lemma sealed_record_nonempty [simp]: "sealed_record keys t p padding \<noteq> []"
  by (simp add: sealed_record_def record_hdr_def Let_def)

text \<open>A receiver that opens records in order, into the buffer that \<open>recv\<close> uses.\<close>

primrec open_records :: "traffic_keys \<Rightarrow> bytes list \<Rightarrow> (u8 \<times> bytes) list res" where
  "open_records keys [] = Ok []"
| "open_records keys (r # rs) =
     (case unprotect_record_aes128_gcm keys (Span r) (Span (replicate 16640 0)) of
        (Ok p, keys') \<Rightarrow> bind_res (open_records keys' rs) (\<lambda>ps. Ok (p # ps))
      | (Err e, _) \<Rightarrow> Err e | (UB, _) \<Rightarrow> UB)"

lemma open_sealed_records:
  "\<forall>c \<in> set cs. length c + padding \<le> 16623 \<Longrightarrow>
   open_records keys (sealed_records keys padding cs) = Ok (map (Pair content_application_data) cs)"
proof (induction cs arbitrary: keys)
  case (Cons c cs)
  then have "opened_record keys (sealed_record keys content_application_data c padding) 16640
      = Ok (content_application_data, c)"
    by (intro opened_sealed) (simp_all add: content_application_data_def)
  with Cons show ?case by (simp add: unprotect_record_eq)
qed simp

section \<open>Sending\<close>

text \<open>A stream that takes everything: \<open>app w bs\<close> is the world after the bytes were sent.\<close>

definition accepts_all :: "'w stream \<Rightarrow> ('w \<Rightarrow> bytes \<Rightarrow> 'w) \<Rightarrow> bool" where
  "accepts_all sm app \<longleftrightarrow> (\<forall>bs w. sm_send_all sm bs w = (Ok (), app w bs))"

lemma send_chunk_ok:
  assumes sm: "cc_stream (c_config c) = Some sm" "accepts_all sm app"
    and fits: "length p \<le> 16384" "padding \<le> 255" "length p + padding \<le> 16623"
    and alloc: "alloc (length p + 1 + padding)"
  shows "send_chunk alloc padding (Span p) (c, w) =
    Some (Ok (), (c\<lparr>c_client_app_keys := advance (c_client_app_keys c) 1\<rparr>,
      app w (sealed_record (c_client_app_keys c) content_application_data p padding)))"
  using assms
  by (simp add: send_chunk_def protect_record_eq content_application_data_def bind_prog_def client_def
      then_prog_def update_def of_res_def with_stream_def outside_def accepts_all_def advance_def)

lemma send_loop_ok:
  assumes "cc_stream (c_config c) = Some sm" and "accepts_all sm app" and "\<And>n. alloc n"
    and "padding \<le> 255" and "0 < m" and "m + padding \<le> 16623"
    and "m \<le> 16384 \<or> length data - off \<le> 16384"
  shows "send_loop alloc padding m (Span data) off (c, w) =
    Some (Ok (), (c\<lparr>c_client_app_keys :=
        advance (c_client_app_keys c) (length (chunks m (drop off data)))\<rparr>,
      foldl app w (sealed_records (c_client_app_keys c) padding (chunks m (drop off data)))))"
  using assms
proof (induction "length data - off" arbitrary: off c w rule: less_induct)
  case less
  show ?case
  proof (cases "off < length data")
    case True
    define n where "n = min m (length data - off)"
    have n: "0 < n" "off + n \<le> length data" "n \<le> 16384" "n + padding \<le> 16623"
      using True less.prems by (auto simp: n_def)
    have piece: "slice data off n = take m (drop off data)"
      by (auto simp: slice_def n_def min_def)
    have rest: "drop (off + n) data = drop m (drop off data)"
      by (auto simp: n_def min_def add.commute)
    have split: "chunks m (drop off data) = take m (drop off data) # chunks m (drop (off + n) data)"
      unfolding rest using True less.prems(5) by (subst chunks.simps) simp
    let ?c = "c\<lparr>c_client_app_keys := advance (c_client_app_keys c) 1\<rparr>"
    let ?w = "app w (sealed_record (c_client_app_keys c) content_application_data
      (take m (drop off data)) padding)"
    have "send_chunk alloc padding (Span (slice data off n)) (c, w) = Some (Ok (), (?c, ?w))"
      unfolding piece using n less.prems
      by (intro send_chunk_ok) (auto simp: piece [symmetric])
    note run = this
    have cut: "(if span_size (Span data) - off > m then m else span_size (Span data) - off) = n"
      by (auto simp: n_def)
    have sub: "of_res (subspan (Span data) off n) (c, w) = Some (Ok (Span (slice data off n)), (c, w))"
      using n(2) by (simp add: of_res_def subspan_def)
    have "bind_prog (of_res (subspan (Span data) off n)) (\<lambda>chunk. or_fail (send_chunk alloc padding chunk))
        (c, w) = Some (Ok (), (?c, ?w))"
      by (simp add: bind_prog_def [of "of_res _"] sub or_fail_def on_error_def run)
    then have step: "then_prog (bind_prog (of_res (subspan (Span data) off n))
          (\<lambda>chunk. or_fail (send_chunk alloc padding chunk))) k (c, w) = k (?c, ?w)" for k :: "('a, unit) cli"
      by (rule prog_step(2))
    have first: "send_loop alloc padding m (Span data) off (c, w)
        = send_loop alloc padding m (Span data) (off + n) (?c, ?w)"
    proof -
      have cond: "(off < span_size (Span data) \<and> 0 < m) = True" using True less.prems(5) by simp
      show ?thesis
        by (subst send_loop.simps) (simp only: cond if_True Let_def cut step)
    qed
    have "send_loop alloc padding m (Span data) (off + n) (?c, ?w) =
        Some (Ok (), (?c\<lparr>c_client_app_keys :=
          advance (c_client_app_keys ?c) (length (chunks m (drop (off + n) data)))\<rparr>,
        foldl app ?w (sealed_records (c_client_app_keys ?c) padding (chunks m (drop (off + n) data)))))"
      using less.prems n True by (intro less.hyps) auto
    then show ?thesis
      unfolding first split by (simp add: advance_def)
  qed (use less.prems in \<open>simp add: send_loop.simps [of _ _ _ "Span data"] ret_def\<close>)
qed

lemma send_ok:
  assumes "c_state c = CLIENT_CONNECTED" and "cc_stream (c_config c) = Some sm" and "accepts_all sm app"
    and "\<And>n. alloc n" and pad: "padding = min 255 (cc_application_record_padding (c_config c))"
    and "239 \<le> padding \<or> length data \<le> 16384"
  shows "send alloc (Span data) (c, w) =
    Some (Ok (), (c\<lparr>c_client_app_keys :=
        advance (c_client_app_keys c) (length (chunks (16623 - padding) data))\<rparr>,
      foldl app w (sealed_records (c_client_app_keys c) padding (chunks (16623 - padding) data))))"
proof -
  have "send alloc (Span data) (c, w) = send_loop alloc padding (16623 - padding) (Span data) 0 (c, w)"
    using assms(1) unfolding pad
    by (simp add: send_def bind_prog_def client_def Let_def min_def)
  moreover have "padding \<le> 255" "0 < 16623 - padding" "16623 - padding + padding \<le> 16623"
      "16623 - padding \<le> 16384 \<or> length data - 0 \<le> 16384"
    using assms(6) by (auto simp: pad)
  note send_loop_ok [OF assms(2-4) this, where w = w]
  ultimately show ?thesis by simp
qed

text \<open>What a peer reads from those records is the data.\<close>

lemma sent_records_open:
  assumes "padding \<le> 255"
  shows "open_records keys (sealed_records keys padding (chunks (16623 - padding) data))
      = Ok (map (Pair content_application_data) (chunks (16623 - padding) data))"
    and "concat (chunks (16623 - padding) data) = data"
proof -
  have "length c + padding \<le> 16623" if "c \<in> set (chunks (16623 - padding) data)" for c
    using chunks_length [OF that] assms by linarith
  then show "open_records keys (sealed_records keys padding (chunks (16623 - padding) data))
      = Ok (map (Pair content_application_data) (chunks (16623 - padding) data))"
    by (intro open_sealed_records) blast
  show "concat (chunks (16623 - padding) data) = data" using assms by (intro concat_chunks) simp
qed

text \<open>
  With less padding the first piece of a long message is longer than a record may be: nothing is
  sent, and the connection is lost.
\<close>

lemma send_too_long:
  assumes "c_state c = CLIENT_CONNECTED" and sm: "cc_stream (c_config c) = Some sm"
    and pad: "cc_application_record_padding (c_config c) < 239" and long: "16384 < length data"
  shows "send alloc (Span data) (c, w) =
    Some (Err XT_ERR_BAD_RECORD, (wipe_secrets (c\<lparr>c_state := CLIENT_FAILED\<rparr>), sm_close sm w))"
proof -
  define padding where "padding = cc_application_record_padding (c_config c)"
  define m where "m = 16623 - padding"
  define n where "n = min m (length data)"
  have n: "16384 < n" "n \<le> length data" "0 < m" using pad long by (auto simp: n_def m_def padding_def)
  have start: "send alloc (Span data) (c, w) = send_loop alloc padding m (Span data) 0 (c, w)"
    using assms(1) pad
    by (simp add: send_def bind_prog_def client_def Let_def padding_def m_def)
  have "send_chunk alloc padding (Span (take n data)) (c, w) = Some (Err XT_ERR_BAD_RECORD, (c, w))"
    using n by (simp add: send_chunk_def protect_record_eq content_application_data_def bind_prog_def
        client_def then_prog_def update_def of_res_def)
  then have "or_fail (send_chunk alloc padding (Span (take n data))) (c, w)
      = Some (Err XT_ERR_BAD_RECORD, (wipe_secrets (c\<lparr>c_state := CLIENT_FAILED\<rparr>), sm_close sm w))"
    using sm by (simp add: or_fail_def on_error_def then_prog_def bind_prog_def fail_def update_def
        close_stream_def throw_def)
  with n(2) have step: "then_prog (bind_prog (of_res (subspan (Span data) 0 n))
      (\<lambda>chunk. or_fail (send_chunk alloc padding chunk))) k (c, w)
    = Some (Err XT_ERR_BAD_RECORD, (wipe_secrets (c\<lparr>c_state := CLIENT_FAILED\<rparr>), sm_close sm w))"
    for k :: "('a, unit) cli"
    by (simp add: then_prog_def bind_prog_def of_res_def subspan_def)
  have cond: "(0 < span_size (Span data) \<and> 0 < m) = True" using long n(3) by auto
  have cut: "(if span_size (Span data) - 0 > m then m else span_size (Span data) - 0) = n"
    by (auto simp: n_def)
  show ?thesis
    unfolding start by (subst send_loop.simps) (simp only: cond if_True Let_def cut step)
qed

section \<open>Receiving\<close>

text \<open>The bytes of a record that did not fit the caller's buffer.\<close>

definition pending :: "'w client \<Rightarrow> bytes" where
  "pending c = slice (c_pending_app c) (c_pending_app_offset c) (c_pending_app_length c)"

definition pending_ok :: "'w client \<Rightarrow> bool" where
  "pending_ok c \<longleftrightarrow> length (c_pending_app c) = 16384
     \<and> c_pending_app_offset c + c_pending_app_length c \<le> 16384"

lemma length_pending [simp]: "pending_ok c \<Longrightarrow> length (pending c) = c_pending_app_length c"
  by (auto simp: pending_def pending_ok_def min_def)

lemma recv_pending_ok:
  assumes "pending_ok c"
  shows "\<exists>c'. recv_pending cap (c, w) = Some (Ok (take cap (pending c)), (c', w))
    \<and> pending c' = drop cap (pending c) \<and> pending_ok c'
    \<and> c_state c' = c_state c \<and> c_config c' = c_config c \<and> c_server_app_keys c' = c_server_app_keys c"
  using assms
  by (auto simp: recv_pending_def bind_prog_def client_def of_res_def rd_bytes_def pending_ok_def
      then_prog_def update_def ret_def pending_def slice_def Let_def add.commute take_drop)

text \<open>A protected record on the stream, as \<open>recv\<close> sees it after reading and opening it.\<close>

lemma sealed_record_header:
  assumes "length p + padding \<le> 16623"
  shows "\<exists>h. parse_record_header (Span (sealed_record keys t p padding)) = Ok h
    \<and> rh_type h = content_application_data
    \<and> unat (rh_length h) = length p + padding + 17"
proof -
  have "sealed_record keys t p padding ! 0 = content_application_data"
    "be16 (sealed_record keys t p padding ! 3) (sealed_record keys t p padding ! 4)
      = of_nat (length p + padding + 17)"
    using assms be16_of_nat [of "length p + padding + 17"]
    by (auto simp: sealed_record_def record_hdr_def nth_append content_application_data_def Let_def ac_simps)
  moreover have "unat (of_nat (length p + padding + 17) :: u16) = length p + padding + 17"
    using assms by (simp add: unsigned_of_nat take_bit_nat_eq_self del: of_nat_add)
  ultimately show ?thesis
    using assms by (simp add: parse_record_header_Span)
qed

lemma recv_data_ok:
  assumes "pending_ok c" and "c_pending_app_length c = 0" and "length p \<le> 16384 + cap"
  shows "\<exists>c'. recv_data cap p (c, w) = Some (Ok (take cap p), (c', w))
    \<and> pending c' = drop cap p \<and> pending_ok c'
    \<and> c_state c' = c_state c \<and> c_config c' = c_config c \<and> c_server_app_keys c' = c_server_app_keys c"
proof (cases "cap < length p")
  case True
  with assms show ?thesis
    by (auto simp: recv_data_def Let_def bind_prog_def client_def then_prog_def update_def ret_def
        pending_ok_def pending_def slice_def write_at_def)
next
  case False
  with assms show ?thesis by (auto simp: recv_data_def Let_def ret_def pending_def)
qed

lemma recv_body_record:
  assumes read: "read_record 16645 (c, w) = Some (Ok (sealed_record (c_server_app_keys c) t p padding), (c, w'))"
    and p: "length p + padding \<le> 16623" and t: "t = content_application_data"
  shows "recv_body alloc cap u (c, w) = bind_prog (recv_data cap p) (\<lambda>bs. ret (Inr bs))
    (c\<lparr>c_server_app_keys := advance (c_server_app_keys c) 1\<rparr>, w')"
proof -
  let ?rec = "sealed_record (c_server_app_keys c) t p padding"
  let ?c = "c\<lparr>c_server_app_keys := advance (c_server_app_keys c) 1\<rparr>"
  obtain h where h: "parse_record_header (Span ?rec) = Ok h" "rh_type h = content_application_data"
    using sealed_record_header [OF p] by blast
  have "opened_record (c_server_app_keys c) ?rec 16640 = Ok (t, p)"
    using p by (intro opened_sealed) (simp_all add: t content_application_data_def)
  then have "open_record c_server_app_keys (\<lambda>k c. c\<lparr>c_server_app_keys := k\<rparr>) ?rec (c, w')
      = Some (Ok (t, p), (?c, w'))"
    by (simp add: open_record_def bind_prog_def client_def unprotect_record_eq then_prog_def update_def
        of_res_def advance_def)
  then have opened:
    "or_fail (open_record c_server_app_keys (\<lambda>k c. c\<lparr>c_server_app_keys := k\<rparr>) ?rec) (c, w') = Some (Ok (t, p), (?c, w'))"
    by (rule or_fail_step)
  have "of_res (parse_record_header (Span ?rec)) (c, w') = Some (Ok h, (c, w'))"
    by (simp add: h(1))
  then have header: "or_fail (of_res (parse_record_header (Span ?rec))) (c, w') = Some (Ok h, (c, w'))"
    by (rule or_fail_step)
  have reads: "or_fail (read_record 16645) (c, w) = Some (Ok ?rec, (c, w'))"
    using read by (rule or_fail_step)
  have types: "content_application_data \<noteq> content_change_cipher_spec"
    by (simp add: content_application_data_def content_change_cipher_spec_def)
  show ?thesis
    unfolding recv_body_def using reads header opened h(2) types t
    by (simp add: bind_prog_def [where m = "or_fail _"])
qed

lemma recv_record_ok:
  assumes c: "c_state c = CLIENT_CONNECTED" "pending_ok c" "c_pending_app_length c = 0"
    and read: "read_record 16645 (c, w)
      = Some (Ok (sealed_record (c_server_app_keys c) content_application_data p padding), (c, w'))"
    and p: "length p + padding \<le> 16623" and fits: "length p \<le> 16384 + length out"
  shows "\<exists>c'. recv alloc (Span out) (c, w) = Some (Ok (take (length out) p), (c', w'))
    \<and> pending c' = drop (length out) p \<and> pending_ok c' \<and> c_state c' = CLIENT_CONNECTED
    \<and> c_config c' = c_config c \<and> c_server_app_keys c' = advance (c_server_app_keys c) 1"
proof -
  let ?c = "c\<lparr>c_server_app_keys := advance (c_server_app_keys c) 1\<rparr>"
  have "pending_ok ?c" "c_pending_app_length ?c = 0" using c(2,3) by (simp_all add: pending_ok_def)
  from recv_data_ok [OF this fits, of w'] obtain c' where c':
    "recv_data (length out) p (?c, w') = Some (Ok (take (length out) p), (c', w'))"
    "pending c' = drop (length out) p" "pending_ok c'" "c_state c' = c_state ?c"
    "c_config c' = c_config ?c" "c_server_app_keys c' = c_server_app_keys ?c"
    by blast
  then have "recv_body alloc (length out) () (c, w) = Some (Ok (Inr (take (length out) p)), (c', w'))"
    by (simp add: recv_body_record [OF read p refl] bind_prog_def ret_def)
  then have "loop_prog (recv_body alloc (length out)) () (c, w) = Some (Ok (take (length out) p), (c', w'))"
    by (simp add: loop_prog.simps)
  with c' c show ?thesis
    by (simp add: recv_def bind_prog_def client_def)
qed

text \<open>
  A record that is longer than the caller's buffer by more than 16384 bytes is copied beyond the end
  of \<open>pending_app_\<close>.
\<close>

lemma recv_record_overflow:
  assumes c: "c_state c = CLIENT_CONNECTED" "pending_ok c" "c_pending_app_length c = 0"
    and read: "read_record 16645 (c, w)
      = Some (Ok (sealed_record (c_server_app_keys c) content_application_data p padding), (c, w'))"
    and p: "length p + padding \<le> 16623" and long: "16384 + length out < length p"
  shows "\<exists>s'. recv alloc (Span out) (c, w) = Some (UB, s')"
proof -
  let ?c = "c\<lparr>c_server_app_keys := advance (c_server_app_keys c) 1\<rparr>"
  have "recv_data (length out) p (?c, w') = Some (UB, (?c, w'))"
  proof -
    have n: "\<not> length p \<le> length out" "16384 < length p - length out" using long by linarith+
    with c(2) show ?thesis
      by (simp add: recv_data_def Let_def bind_prog_def client_def of_res_def pending_ok_def)
  qed
  then have "recv_body alloc (length out) () (c, w) = Some (UB, (?c, w'))"
    by (simp add: recv_body_record [OF read p refl] bind_prog_def)
  then have "loop_prog (recv_body alloc (length out)) () (c, w) = Some (UB, (?c, w'))"
    by (simp add: loop_prog.simps)
  with c show ?thesis by (simp add: recv_def bind_prog_def client_def)
qed

section \<open>A stream that delivers bytes in pieces\<close>

text \<open>
  \<open>queue w\<close> is what the peer has sent. The stream hands out some non-empty beginning of it, as long
  or as short as it likes, up to the size that was asked for.
\<close>

locale byte_source =
  fixes sm :: "'w stream" and queue :: "'w \<Rightarrow> bytes"
  assumes recv_queue: "0 < n \<Longrightarrow> queue w \<noteq> [] \<Longrightarrow>
    \<exists>bs w'. sm_recv_some sm n w = (Ok bs, w') \<and> bs \<noteq> [] \<and> length bs \<le> n \<and> queue w = bs @ queue w'"
begin

lemma read_exact_queue:
  assumes "length got \<le> need" and "need - length got \<le> length (queue w)"
  shows "\<exists>w'. read_exact sm need got w = (Ok (got @ take (need - length got) (queue w)), w')
    \<and> queue w' = drop (need - length got) (queue w)"
  using assms
proof (induction "need - length got" arbitrary: got w rule: less_induct)
  case less
  show ?case
  proof (cases "length got < need")
    case True
    with less.prems have "queue w \<noteq> []" by auto
    from recv_queue [OF _ this, of "need - length got"] True obtain bs w1 where
      bs: "sm_recv_some sm (need - length got) w = (Ok bs, w1)" "bs \<noteq> []"
        "length bs \<le> need - length got" "queue w = bs @ queue w1" by auto
    then have step: "read_exact sm need got w = read_exact sm need (got @ bs) w1"
      using True by (simp add: read_exact.simps [of sm need got])
    have "0 < length bs" using bs(2) by (rule length_greater_0_conv [THEN iffD2])
    then have "need - length (got @ bs) < need - length got" using True unfolding length_append by linarith
    from less.hyps [OF this] less.prems bs show ?thesis unfolding step by auto
  next
    case False
    with less.prems show ?thesis by (simp add: read_exact.simps [of sm need got])
  qed
qed

text \<open>However the bytes of a record are cut up, the record is read, and nothing after it.\<close>

lemma read_record_queue:
  assumes sm: "cc_stream (c_config c) = Some sm" and rec: "whole_record cap rec"
    and q: "queue w = rec @ rest"
  shows "\<exists>w'. read_record cap (c, w) = Some (Ok rec, (c, w')) \<and> queue w' = rest"
proof -
  from rec obtain h where h: "parse_record_header (Span rec) = Ok h" "length rec = 5 + unat (rh_length h)"
    "unat (rh_length h) \<le> 16640" "length rec \<le> cap" by (auto simp: whole_record_def)
  from read_exact_queue [of "[]" 5 w] h(2) q obtain w1 where
    w1: "read_exact sm 5 [] w = (Ok (take 5 rec), w1)" "queue w1 = drop 5 rec @ rest" by auto
  have "length (take 5 rec) \<le> length rec" "length rec - length (take 5 rec) \<le> length (queue w1)"
    using h(2) w1(2) by simp_all
  from read_exact_queue [OF this] h(2) w1(2) obtain w2 where
    w2: "read_exact sm (length rec) (take 5 rec) w1 = (Ok rec, w2)" "queue w2 = rest" by auto
  have "parse_record_header (Span (take 5 rec)) = Ok h"
    using h(1,2) by (auto simp: parse_record_header_Span split: if_splits)
  with w1 w2 h sm show ?thesis
    by (simp add: read_record_def bind_prog_def client_def outside_def of_res_def Let_def)
qed

end

section \<open>The order of what is received\<close>

text \<open>
  \<open>incoming queue padding c w data\<close>: the bytes \<open>data\<close> are still to be handed out: first what is
  pending, then the contents of the records that the peer has sent under successive numbers.
\<close>

definition incoming :: "('w \<Rightarrow> bytes) \<Rightarrow> nat \<Rightarrow> 'w client \<Rightarrow> 'w \<Rightarrow> bytes list \<Rightarrow> bool" where
  "incoming queue padding c w cs \<longleftrightarrow>
     c_state c = CLIENT_CONNECTED \<and> pending_ok c \<and> (\<forall>p \<in> set cs. length p + padding \<le> 16623)
     \<and> queue w = concat (sealed_records (c_server_app_keys c) padding cs)"

text \<open>What several calls of \<open>recv\<close> return, one after the other.\<close>

primrec recv_calls :: "(nat \<Rightarrow> bool) \<Rightarrow> byte_span \<Rightarrow> nat \<Rightarrow> ('w, bytes) cli" where
  "recv_calls alloc out 0 = ret []"
| "recv_calls alloc out (Suc n) =
     bind_prog (recv alloc out) (\<lambda>bs. bind_prog (recv_calls alloc out n) (\<lambda>rest. ret (bs @ rest)))"

lemma sealed_record_whole:
  assumes "length p + padding \<le> 16623"
  shows "whole_record 16645 (sealed_record keys t p padding)"
  using sealed_record_header [OF assms, of keys t] assms
  by (auto simp: whole_record_def)

context byte_source
begin

lemma recv_in_order:
  assumes sm: "cc_stream (c_config c) = Some sm" and inc: "incoming queue padding c w cs"
    and more: "pending c \<noteq> [] \<or> cs \<noteq> []" and room: "239 \<le> length out"
  shows "\<exists>bs c' w' cs'. recv alloc (Span out) (c, w) = Some (Ok bs, (c', w'))
    \<and> incoming queue padding c' w' cs' \<and> c_config c' = c_config c
    \<and> pending c @ concat cs = bs @ pending c' @ concat cs'
    \<and> (length cs' < length cs \<or> cs' = cs \<and> length (pending c') < length (pending c))"
proof (cases "c_pending_app_length c = 0")
  case False
  from inc have c: "c_state c = CLIENT_CONNECTED" "pending_ok c" by (simp_all add: incoming_def)
  from recv_pending_ok [OF c(2), of "length out" w] obtain c' where c':
    "recv_pending (length out) (c, w) = Some (Ok (take (length out) (pending c)), (c', w))"
    "pending c' = drop (length out) (pending c)" "pending_ok c'" "c_state c' = c_state c"
    "c_config c' = c_config c" "c_server_app_keys c' = c_server_app_keys c" by blast
  have "recv alloc (Span out) (c, w) = Some (Ok (take (length out) (pending c)), (c', w))"
    using False c c'(1) by (simp add: recv_def bind_prog_def client_def)
  moreover have "incoming queue padding c' w cs" using inc c' by (simp add: incoming_def)
  moreover have "pending c @ concat cs = take (length out) (pending c) @ pending c' @ concat cs"
    by (simp add: c'(2) flip: append_assoc)
  moreover have "length (pending c') < length (pending c)"
    using False room c(2) by (simp add: c'(2))
  ultimately show ?thesis using c'(5) by blast
next
  case True
  with inc have none: "pending c = []" by (simp add: incoming_def flip: length_0_conv)
  with more obtain p ps where cs: "cs = p # ps" by (cases cs) auto
  let ?rec = "sealed_record (c_server_app_keys c) content_application_data p padding"
  from inc have c: "c_state c = CLIENT_CONNECTED" "pending_ok c" "length p + padding \<le> 16623"
    by (simp_all add: incoming_def cs)
  let ?rest = "concat (sealed_records ((c_server_app_keys c)\<lparr>tk_seq := tk_seq (c_server_app_keys c) + 1\<rparr>) padding ps)"
  have "queue w = ?rec @ ?rest" using inc by (simp add: incoming_def cs)
  from read_record_queue [OF sm sealed_record_whole [OF c(3)] this] obtain w' where
    w': "read_record 16645 (c, w) = Some (Ok ?rec, (c, w'))" "queue w' = ?rest" by blast
  have "length p \<le> 16384 + length out" using c(3) room by linarith
  from recv_record_ok [OF c(1,2) True w'(1) c(3) this] obtain c' where c':
    "recv alloc (Span out) (c, w) = Some (Ok (take (length out) p), (c', w'))"
    "pending c' = drop (length out) p" "pending_ok c'" "c_state c' = CLIENT_CONNECTED"
    "c_config c' = c_config c" "c_server_app_keys c' = advance (c_server_app_keys c) 1" by blast
  have "incoming queue padding c' w' ps"
    using inc c' w'(2) by (simp add: incoming_def cs advance_def)
  moreover have "pending c @ concat cs = take (length out) p @ pending c' @ concat ps"
    by (simp add: none cs c'(2) flip: append_assoc)
  moreover have "length ps < length cs" by (simp add: cs)
  ultimately show ?thesis using c'(1,5) by blast
qed

text \<open>Whoever goes on calling gets everything.\<close>

lemma recv_all:
  assumes "cc_stream (c_config c) = Some sm" and "incoming queue padding c w cs" and "239 \<le> length out"
  shows "\<exists>n c' w'. recv_calls alloc (Span out) n (c, w) = Some (Ok (pending c @ concat cs), (c', w'))
    \<and> pending c' = [] \<and> incoming queue padding c' w' []"
  using assms
proof (induction "(length cs, length (pending c))" arbitrary: c w cs rule: wf_induct_rule [OF wf_lex_prod [OF wf_less wf_less]])
  case (1 c cs w)
  show ?case
  proof (cases "pending c \<noteq> [] \<or> cs \<noteq> []")
    case True
    from recv_in_order [OF "1.prems"(1,2) True "1.prems"(3), of alloc] obtain bs c1 w1 cs1 where
      r: "recv alloc (Span out) (c, w) = Some (Ok bs, (c1, w1))" "incoming queue padding c1 w1 cs1"
        "c_config c1 = c_config c" "pending c @ concat cs = bs @ pending c1 @ concat cs1"
        "length cs1 < length cs \<or> cs1 = cs \<and> length (pending c1) < length (pending c)" by blast
    from r(5) have "((length cs1, length (pending c1)), (length cs, length (pending c))) \<in> {(x, y). x < y} <*lex*> {(x, y). x < y}"
      by auto
    from "1.hyps" [OF this _ r(2) "1.prems"(3)] r(3) "1.prems"(1) obtain n c' w' where
      n: "recv_calls alloc (Span out) n (c1, w1) = Some (Ok (pending c1 @ concat cs1), (c', w'))"
        "pending c' = []" "incoming queue padding c' w' []" by auto
    have "recv_calls alloc (Span out) (Suc n) (c, w) = Some (Ok (pending c @ concat cs), (c', w'))"
      using r(1,4) n(1) by (simp add: bind_prog_def ret_def)
    with n(2,3) show ?thesis by blast
  next
    case False
    then have "recv_calls alloc (Span out) 0 (c, w) = Some (Ok (pending c @ concat cs), (c, w))" by (simp add: ret_def)
    with False "1.prems"(2) show ?thesis by blast
  qed
qed

end

section \<open>Key updates\<close>

text \<open>The next generation of a traffic secret (RFC 8446, section 7.2).\<close>

definition next_secret :: "bytes \<Rightarrow> bytes" where
  "next_secret s = rfc_expand_label s ''traffic upd'' 32"

definition client_rekeyed :: "'w client \<Rightarrow> 'w client" where
  "client_rekeyed c =
     (let s = next_secret (client_application_traffic_secret (c_schedule c)) in
      c\<lparr>c_schedule := (c_schedule c)\<lparr>client_application_traffic_secret := s\<rparr>,
        c_client_app_keys := rfc_traffic_keys s\<rparr>)"

definition server_rekeyed :: "'w client \<Rightarrow> 'w client" where
  "server_rekeyed c =
     (let s = next_secret (server_application_traffic_secret (c_schedule c)) in
      c\<lparr>c_schedule := (c_schedule c)\<lparr>server_application_traffic_secret := s\<rparr>,
        c_server_app_keys := rfc_traffic_keys s\<rparr>)"

definition key_update_message :: "bool \<Rightarrow> bytes" where
  "key_update_message request = encode_handshake hs_key_update [if request then 1 else 0]"

lemma key_update_message_eq: "key_update_message b = [hs_key_update, 0, 0, 1, if b then 1 else 0]"
  by (simp add: key_update_message_def encode_handshake_def store_be24_def)

lemma update_client_traffic_run:
  "update_client_traffic (c, w) = Some (Ok (), (client_rekeyed c, w))"
  by (simp add: update_client_traffic_def bind_prog_def client_def then_prog_def update_def check_error_def
      ret_def update_traffic_secret_eq client_rekeyed_def next_secret_def Let_def)

lemma update_server_traffic_run:
  "update_server_traffic (c, w) = Some (Ok (), (server_rekeyed c, w))"
  by (simp add: update_server_traffic_def bind_prog_def client_def then_prog_def update_def check_error_def
      ret_def update_traffic_secret_eq server_rekeyed_def next_secret_def Let_def)

lemma send_protected_run:
  assumes "c_state c = CLIENT_CONNECTED" and "cc_stream (c_config c) = Some sm" and "accepts_all sm app"
    and "\<And>n. alloc n" and "20 \<le> t" and "t \<le> 23" and "length p \<le> 16384"
  shows "send_protected alloc t p (c, w) =
    Some (Ok (), (c\<lparr>c_client_app_keys := advance (c_client_app_keys c) 1\<rparr>,
      app w (sealed_record (c_client_app_keys c) t p 0)))"
proof -
  have "\<not> t < 20" "\<not> 23 < t" using assms(5,6) by (simp_all add: not_less)
  with assms show ?thesis
    by (simp add: send_protected_def protect_record_eq bind_prog_def client_def then_prog_def update_def
        of_res_def with_stream_def outside_def accepts_all_def advance_def Let_def)
qed

lemma key_update_run:
  assumes "c_state c = CLIENT_CONNECTED" and "cc_stream (c_config c) = Some sm" and "accepts_all sm app"
    and "\<And>n. alloc n"
  shows "key_update alloc request (c, w) = Some (Ok (), (client_rekeyed c,
    app w (sealed_record (c_client_app_keys c) content_handshake (key_update_message request) 0)))"
proof -
  have "client_rekeyed (c\<lparr>c_client_app_keys := k\<rparr>) = client_rekeyed c" for k
    by (simp add: client_rekeyed_def Let_def)
  moreover have "send_protected alloc content_handshake (key_update_message request) (c, w) =
    Some (Ok (), (c\<lparr>c_client_app_keys := advance (c_client_app_keys c) 1\<rparr>,
      app w (sealed_record (c_client_app_keys c) content_handshake (key_update_message request) 0)))"
    using assms by (intro send_protected_run) (simp_all add: content_handshake_def key_update_message_eq)
  ultimately show ?thesis
    using assms(1) unfolding key_update_message_eq
    by (simp add: key_update_def bind_prog_def client_def then_prog_def or_fail_def on_error_def
        update_client_traffic_run)
qed

text \<open>
  The peer's update: its keys change at once; when it asks for ours, the answer goes out under the
  old keys and then they change too.
\<close>

lemma peer_key_update_run:
  assumes "c_state c = CLIENT_CONNECTED" and "cc_stream (c_config c) = Some sm" and "accepts_all sm app"
    and "\<And>n. alloc n"
  shows "post_handshake_message alloc (handshake_of hs_key_update [if request then 1 else 0]) (c, w) =
    (if request
     then Some (Ok (), (client_rekeyed (server_rekeyed c),
       app w (sealed_record (c_client_app_keys c) content_handshake (key_update_message False) 0)))
     else Some (Ok (), (server_rekeyed c, w)))"
proof -
  let ?c = "server_rekeyed c"
  have keep: "c_state ?c = CLIENT_CONNECTED" "c_config ?c = c_config c"
    "c_client_app_keys ?c = c_client_app_keys c"
    using assms(1) by (simp_all add: server_rekeyed_def Let_def)
  have "client_rekeyed (?c\<lparr>c_client_app_keys := k\<rparr>) = client_rekeyed ?c" for k
    by (simp add: client_rekeyed_def Let_def)
  moreover have "send_protected alloc content_handshake (key_update_message False) (?c, w) =
    Some (Ok (), (?c\<lparr>c_client_app_keys := advance (c_client_app_keys ?c) 1\<rparr>,
      app w (sealed_record (c_client_app_keys ?c) content_handshake (key_update_message False) 0)))"
    using assms keep
    by (intro send_protected_run) (simp_all add: content_handshake_def key_update_message_eq)
  ultimately show ?thesis
    unfolding key_update_message_eq
    by (simp add: post_handshake_message_def handshake_of_def hs_type_defs bind_prog_def of_res_def rd_def
        then_prog_def update_server_traffic_run update_client_traffic_run keep ret_def)
qed

end
