(* ===== verification/Environment.thy ===== *)
theory Environment
  imports Contract Traffic XboxPlatform
begin

text \<open>
  The environment of the client on the console: the socket stream, the platform and the native
  verifier keep the contract that the client's totality rests on, whenever the system keeps its own.
  A scripted system shows that this can be met, and is used for concrete runs.
\<close>

section \<open>The console\<close>

locale console = system_laws os left
  for os :: "'o system" and left :: "'o \<Rightarrow> nat" +
  fixes nv :: "'o xworld native_verifier"
  assumes console_clock: "nv_platform nv = Some (xbox360_platform os) \<or> nv_platform nv = None"
    and console_readable: "anchors_readable nv"

sublocale console \<subseteq> native_laws "xbox360_platform os" budget nv
  by (intro native_laws.intro native_laws_axioms.intro xbox_platform_laws console_clock console_readable)

sublocale console \<subseteq> environment "xbox360_platform os" "xbox360_stream os" "native_auth_verifier nv" budget
  by (intro environment.intro xbox_platform_laws xbox_stream_laws verifier_laws_axioms)

context console
begin

lemmas console_environment = environment_axioms

end

section \<open>A scripted system\<close>

text \<open>
  The bytes that the peer sends, in the pieces in which they arrive, and the bytes that were sent to
  it. Random bytes are constant, the time is the epoch, and every call succeeds.
\<close>

record script =
  sc_incoming :: "bytes list"
  sc_sent :: bytes

definition script_recv :: "socket \<Rightarrow> nat \<Rightarrow> script \<Rightarrow> (int \<times> bytes) \<times> script" where
  "script_recv s cap st =
     (case dropWhile ((=) []) (sc_incoming st) of
        [] \<Rightarrow> ((0, replicate cap 0), st)
      | c # cs \<Rightarrow>
          (let k = min cap (length c)
           in ((int k, take k c @ replicate (cap - k) 0),
               st\<lparr>sc_incoming := drop k c # cs\<rparr>)))"

definition script_send :: "socket \<Rightarrow> bytes \<Rightarrow> script \<Rightarrow> int \<times> script" where
  "script_send s bs st = (int (length bs), st\<lparr>sc_sent := sc_sent st @ bs\<rparr>)"

definition script_system :: "script system" where
  "script_system =
     \<lparr>os_crypt_random = (\<lambda>n st. (replicate n 1, st)),
      os_file_time = (\<lambda>st. (FILETIME_EPOCH, st)),
      os_net_startup = (\<lambda>st. (0, st)), os_wsa_startup = (\<lambda>st. (0, st)),
      os_wsa_cleanup = (\<lambda>st. st), os_net_cleanup = (\<lambda>st. st),
      os_dns_lookup = (\<lambda>h st. ((0, Some 0), st)),
      os_dns_entry = (\<lambda>h st. ((0, 1, 0x7F000001), st)),
      os_dns_release = (\<lambda>h st. st), os_sleep = (\<lambda>n st. st),
      os_socket = (\<lambda>st. (1, st)), os_connect = (\<lambda>s a p st. (0, st)),
      os_set_timeout = (\<lambda>s b t st. (0, st)),
      os_send = script_send, os_recv = script_recv, os_close_socket = (\<lambda>s st. st)\<rparr>"

definition script_left :: "script \<Rightarrow> nat" where
  "script_left st = length (concat (sc_incoming st))"

lemma concat_dropWhile_Nil: "concat (dropWhile ((=) []) xss) = concat xss"
  by (induction xss) auto

lemma dropWhile_Nil_Cons: "dropWhile ((=) []) xss = c # cs \<Longrightarrow> c \<noteq> [] \<and> concat xss = c @ concat cs"
  by (metis concat.simps(2) concat_dropWhile_Nil hd_dropWhile list.distinct(1) list.sel(1))

interpretation script: system_laws script_system script_left
proof (unfold_locales, goal_cases)
  case (4 s cap st n buf st')
  then show ?case
    by (auto simp: script_system_def script_recv_def script_left_def Let_def dest!: dropWhile_Nil_Cons
        split: list.splits if_splits)
qed (auto simp: script_system_def script_send_def script_left_def)

text \<open>A stream that keeps what is sent and has nothing to receive.\<close>

definition sink_stream :: "bytes stream" where
  "sink_stream = \<lparr>sm_send_all = (\<lambda>bs w. (Ok (), w @ bs)), sm_recv_some = (\<lambda>n w. (Err XT_ERR_CLOSED, w)),
     sm_close = (\<lambda>w. w)\<rparr>"

lemma sink_stream_accepts: "accepts_all sink_stream (@)"
  by (simp add: accepts_all_def sink_stream_def)

definition script_verifier :: "script xworld native_verifier" where
  "script_verifier = native_verifier_new (Some (xbox360_platform script_system))"

interpretation script: console script_system script_left script_verifier
  by unfold_locales (simp_all add: script_verifier_def native_verifier_new_def anchors_readable_def)

definition script_queue :: "script xworld \<Rightarrow> bytes" where
  "script_queue w = (if is_open w then concat (sc_incoming (xw_system w)) else [])"

interpretation script: byte_source "xbox360_stream script_system" script_queue
proof
  fix n :: nat and w :: "script xworld"
  assume n: "0 < n" and q: "script_queue w \<noteq> []"
  then have w: "is_open w" "concat (sc_incoming (xw_system w)) \<noteq> []" by (simp_all add: script_queue_def split: if_splits)
  then obtain c cs where c: "dropWhile ((=) []) (sc_incoming (xw_system w)) = c # cs"
    by (metis concat.simps(1) concat_dropWhile_Nil neq_Nil_conv)
  from dropWhile_Nil_Cons [OF c] n w c
  show "\<exists>bs w'. sm_recv_some (xbox360_stream script_system) n w = (Ok bs, w') \<and> bs \<noteq> []
      \<and> length bs \<le> n \<and> script_queue w = bs @ script_queue w'"
    by (auto simp: xbox360_stream_def xbox_recv_some_def script_system_def script_recv_def is_open_def
        script_queue_def Let_def min_def)
qed

end
