(* ===== verification/Trust.thy ===== *)
theory Trust
  imports NativeVerifier
begin

text \<open>
  What an accepted server flight promises. The entries of an accepted Certificate message are exactly
  its bytes; a flight is accepted when the leaf names the host, the verifier accepts the chain and
  the leaf's key signed the transcript; and the native verifier accepts a chain only when its leaf is
  trusted: there is a path of signatures from the leaf to an anchor, in which every issuer may sign,
  allows the length of the path below it and is within its time. A trust store is loaded completely
  or not at all.
\<close>

section \<open>Certificate chains\<close>

definition encode_entry :: "bytes \<times> bytes \<Rightarrow> bytes" where
  "encode_entry e = (case e of (cert, ext) \<Rightarrow>
     store_be24 (of_nat (length cert)) @ cert @ store_be16 (of_nat (length ext)) @ ext)"

definition entry_ok :: "bytes \<times> bytes \<Rightarrow> bool" where
  "entry_ok e \<longleftrightarrow> fst e \<noteq> [] \<and> length (fst e) < 16777216 \<and> length (snd e) < 65536"

definition entry_view :: "bytes \<times> bytes \<Rightarrow> chain_entry" where
  "entry_view e = \<lparr>ce_der = Span (fst e), ce_extensions = Span (snd e)\<rparr>"

lemma length_encode_entry [simp]:
  "length (encode_entry e) = 5 + length (fst e) + length (snd e)"
  by (simp add: encode_entry_def store_be24_def store_be16_def split: prod.splits)

lemma chain_entry_at_encode:
  assumes "drop p xs = encode_entry e @ rest" and "entry_ok e" and "p \<le> length xs"
  shows "chain_entry_at (Span xs) p = Ok (entry_view e, p + length (encode_entry e))"
proof -
  obtain cert ext where e: "e = (cert, ext)" by (cases e)
  from assms(2) have ok: "cert \<noteq> []" "length cert < 16777216" "length ext < 65536"
    by (simp_all add: e entry_ok_def)
  have d: "drop p xs = store_be24 (of_nat (length cert)) @ cert @ store_be16 (of_nat (length ext)) @ ext @ rest"
    using assms(1) by (simp add: e encode_entry_def)
  have u: "unat (of_nat (length cert) :: u32) = length cert" "unat (of_nat (length ext) :: u16) = length ext"
    using ok by (simp_all add: unat_of_nat_u32 unat_of_nat_u16 del: of_nat_numeral)
  note l = load_be24_at [OF d, unfolded u, OF ok(2)]
  note c = subspan_at [OF l(3) l(2)]
  note x = load_be16_at [OF c(3)]
  note y = subspan_at [OF x(3) x(2)]
  have room: "\<not> length xs - p < 3" "\<not> length xs - (p + 3) < length cert"
    "\<not> length xs - (p + 3 + length cert) < 2" "\<not> length xs - (p + 3 + length cert + 2) < length ext"
    using l(2) c(2) x(2) y(2) by linarith+
  show ?thesis
    unfolding chain_entry_at_def read_u24_eq span_size.simps Let_def
    using l(1) c(1) x(1) y(1) room ok(1) by (simp add: u e entry_view_def)
qed

lemma chain_entry_at_decode:
  assumes "chain_entry_at (Span xs) p = Ok (en, q)"
  shows "\<exists>e. entry_ok e \<and> en = entry_view e \<and> q = p + length (encode_entry e)
    \<and> drop p xs = encode_entry e @ drop q xs"
proof -
  from assms obtain cl der el ext where
    cl: "load_be24 (Span xs) p = Ok cl" "unat cl \<noteq> 0" and
    der: "subspan (Span xs) (p + 3) (unat cl) = Ok der" and
    el: "load_be16 (Span xs) (p + 3 + unat cl) = Ok el" and
    ext: "subspan (Span xs) (p + 3 + unat cl + 2) (unat el) = Ok ext" and
    en: "en = \<lparr>ce_der = der, ce_extensions = ext\<rparr>" "q = p + 3 + unat cl + 2 + unat el"
    unfolding chain_entry_at_def read_u24_eq Let_def
    by (auto simp: bind_res_Ok_iff split: if_splits)
  from subspan_drop [OF der] obtain cert where
    c: "der = Span cert" "length cert = unat cl" "drop (p + 3) xs = cert @ drop (p + 3 + unat cl) xs" by blast
  from subspan_drop [OF ext] obtain x where
    x: "ext = Span x" "length x = unat el"
      "drop (p + 3 + unat cl + 2) xs = x @ drop (p + 3 + unat cl + 2 + unat el) xs" by blast
  have w: "of_nat (length cert) = cl" "of_nat (length x) = el" by (simp_all add: c(2) x(2))
  have "drop p xs = encode_entry (cert, x) @ drop q xs"
    unfolding encode_entry_def prod.case w append_assoc en(2) x(3) [symmetric]
    using load_be24_drop [OF cl(1)] c(3) load_be16_drop [OF el] by simp
  moreover have "length x < 65536" using unsigned_less [of el] by (simp add: x(2))
  moreover have "length cert < 16777216" using load_be24_less [OF cl(1)] c(2) by simp
  ultimately show ?thesis
    using cl(2) c x en by (intro exI [of _ "(cert, x)"]) (auto simp: entry_ok_def entry_view_def)
qed

definition encode_chain :: "(bytes \<times> bytes) list \<Rightarrow> bytes" where
  "encode_chain es = concat (map encode_entry es)"

lemma encode_chain_simps [simp]:
  "encode_chain [] = []" "encode_chain (e # es) = encode_entry e @ encode_chain es"
  by (simp_all add: encode_chain_def)

lemma chain_loop_iff:
  assumes "p \<le> length xs"
  shows "chain_loop (Span xs) p out = Ok chain \<longleftrightarrow>
    (\<exists>es. drop p xs = encode_chain es \<and> list_all entry_ok es \<and> chain = out @ map entry_view es
       \<and> chain \<noteq> [] \<and> length chain \<le> max 8 (length out))"
  using assms
proof (induction "length xs - p" arbitrary: p out rule: less_induct)
  case less
  show ?case
  proof (cases "p < length xs")
    case False
    with less.prems have "p = length xs" by simp
    moreover have "encode_chain es = [] \<Longrightarrow> es = []" for es
      by (cases es) (auto simp: encode_entry_def store_be24_def split: prod.splits)
    ultimately show ?thesis by (subst chain_loop.simps) auto
  next
    case True
    show ?thesis (is "?L = ?R")
    proof
      assume ?L
      with True obtain en q where en: "length out < 8" "chain_entry_at (Span xs) p = Ok (en, q)"
        "chain_loop (Span xs) q (out @ [en]) = Ok chain"
        by (subst (asm) chain_loop.simps) (auto simp: bind_res_Ok_iff split: if_splits)
      from chain_entry_at_decode [OF en(2)] obtain e where
        e: "entry_ok e" "en = entry_view e" "q = p + length (encode_entry e)"
          "drop p xs = encode_entry e @ drop q xs" by blast
      from subspan_at(2) [OF e(4)] True e(3) have q: "q \<le> length xs" by simp
      have "length xs - q < length xs - p" using True e(3) by simp
      from less.hyps [OF this q] en(3) obtain es where
        "drop q xs = encode_chain es" "list_all entry_ok es" "chain = (out @ [en]) @ map entry_view es"
        "chain \<noteq> []" "length chain \<le> max 8 (length (out @ [en]))" by blast
      with e en(1) show ?R by (intro exI [of _ "e # es"]) auto
    next
      assume ?R
      then obtain es where es: "drop p xs = encode_chain es" "list_all entry_ok es"
        "chain = out @ map entry_view es" "length chain \<le> max 8 (length out)" by blast
      from es(1) True obtain e es' where split: "es = e # es'" by (cases es) auto
      with es have d: "drop p xs = encode_entry e @ encode_chain es'" and ok: "entry_ok e" by simp_all
      let ?q = "p + length (encode_entry e)"
      note sub = subspan_at [OF d less_imp_le [OF True]]
      have "length out < 8" using es(3,4) split by auto
      moreover have "length xs - ?q < length xs - p" using True by simp
      from less.hyps [OF this sub(2), of "out @ [entry_view e]"]
      have "chain_loop (Span xs) ?q (out @ [entry_view e]) = Ok chain"
        using sub(3) es split by (simp add: exI [of _ es'])
      ultimately show ?L
        using chain_entry_at_encode [OF d ok less_imp_le [OF True]] True
        by (subst chain_loop.simps) simp
    qed
  qed
qed

text \<open>The parser accepts one to eight entries and nothing else.\<close>

lemma parse_certificate_chain_iff:
  assumes "ci_certificate_list info = Span xs"
  shows "parse_certificate_chain info = Ok chain \<longleftrightarrow>
    (\<exists>es. xs = encode_chain es \<and> list_all entry_ok es \<and> es \<noteq> [] \<and> length es \<le> 8
       \<and> chain = map entry_view es)"
  using chain_loop_iff [of 0 xs "[]" chain] assms
  by (auto simp: parse_certificate_chain_def)

lemma bind_act_step: "m w = (Ok x, w') \<Longrightarrow> bind_act m f w = f x w'"
  by (simp add: bind_act_def)

section \<open>The flight\<close>

text \<open>A flight is accepted exactly when all of these hold, for any verifier.\<close>

lemma authenticate_server_flight_iff:
  assumes "length th = 32"
  shows "authenticate_server_flight info cv (Span th) h (Some v) w = (Ok (), w'') \<longleftrightarrow>
    (\<exists>host chain leaf scheme w'. h = Some host \<and> parse_certificate_chain info = Ok chain
      \<and> x509_parse_certificate (ce_der (hd chain)) = Ok leaf
      \<and> x509_verify_hostname leaf h = Ok ()
      \<and> av_verify_chain v chain h w = (Ok (), w')
      \<and> scheme_of (cv_algorithm cv) = Ok scheme \<and> scheme_fits_key scheme (x_public_key_kind leaf)
      \<and> av_verify_signature v scheme leaf
          (Span (replicate 64 0x20 @ cert_verify_context @ [0] @ th)) (cv_signature cv) w' = (Ok (), w''))"
  using assms
  by (auto simp: authenticate_server_flight_def bind_act_Ok_iff cert_verify_message_eq split: if_splits)

section \<open>Trusted certificates\<close>

text \<open>Within its time: at a time that the verifier's clock has shown; without a clock, always.\<close>

definition in_time :: "'w native_verifier \<Rightarrow> x509_view \<Rightarrow> bool" where
  "in_time v c \<longleftrightarrow> (\<forall>p. nv_platform v = Some p \<longrightarrow>
     (\<exists>w. x_not_before c \<le> fst (pf_unix_time_seconds p w) \<and> fst (pf_unix_time_seconds p w) \<le> x_not_after c))"

text \<open>An issuer with \<open>below\<close> certificate authorities on the path below it.\<close>

definition issuer_ok :: "'w native_verifier \<Rightarrow> nat \<Rightarrow> x509_view \<Rightarrow> bool" where
  "issuer_ok v below c \<longleftrightarrow> may_sign c \<and> path_len_allows c below \<and> in_time v c"

definition certifies :: "'w native_verifier \<Rightarrow> nat \<Rightarrow> byte_span \<Rightarrow> byte_span \<Rightarrow> bool" where
  "certifies v below issuer subject \<longleftrightarrow>
     (\<exists>iv sv. x509_parse_certificate issuer = Ok iv \<and> x509_parse_certificate subject = Ok sv
        \<and> same_name (x_issuer_name sv) (x_subject_name iv) \<and> issuer_ok v below iv
        \<and> verify_cert_signed_by subject issuer = Ok ())"

text \<open>\<open>trusted v k d\<close>: the certificate \<open>d\<close> is trusted with \<open>k\<close> certificates below it on the path.\<close>

inductive trusted :: "'w native_verifier \<Rightarrow> nat \<Rightarrow> byte_span \<Rightarrow> bool" for v where
  anchor: "d \<in> set (nv_anchors v) \<Longrightarrow> x509_parse_certificate d = Ok c \<Longrightarrow> issuer_ok v (k - 1) c \<Longrightarrow>
    trusted v k d"
| issued: "certifies v k issuer d \<Longrightarrow> trusted v (Suc k) issuer \<Longrightarrow> trusted v k d"

inductive_cases trustedE: "trusted v k d"

lemma leaf_time_check_Ok: "leaf_time_check (nv_platform v) c w = (Ok (), w') \<Longrightarrow> in_time v c"
  by (auto simp: leaf_time_check_def in_time_def split: option.splits prod.splits if_splits)
    (metis fst_conv not_less)

lemma ca_time_check_Ok: "ca_time_check (nv_platform v) c w = (Ok (), w') \<Longrightarrow> in_time v c"
  by (auto simp: ca_time_check_def in_time_def split: option.splits prod.splits if_splits)
    (metis fst_conv not_less)

lemma chain_link_Ok:
  assumes "chain_link v chain i w = (Ok (), w')"
  shows "certifies v i (ce_der (chain ! Suc i)) (ce_der (chain ! i))"
  using assms
  by (auto simp: chain_link_def Let_def bind_act_Ok_iff certifies_def issuer_ok_def split: if_splits
      dest: ca_time_check_Ok)

lemma chain_links_Ok:
  "chain_links v chain is w = (Ok (), w') \<Longrightarrow>
   \<forall>i \<in> set is. certifies v i (ce_der (chain ! Suc i)) (ce_der (chain ! i))"
  by (induction "is" arbitrary: w) (auto simp: bind_act_Ok_iff dest: chain_link_Ok)

lemma parse_nonnull: "x509_parse_certificate d = Ok c \<Longrightarrow> \<not> span_null d"
  by (cases d) (auto simp: x509_parse_certificate_def der_tlv_def)

lemma try_anchor_Ok:
  assumes run: "try_anchor v chain tp topv a w = (Ok True, w')" and a: "a \<in> set (nv_anchors v)"
    and top: "x509_parse_certificate tp = Ok topv" and chain: "length chain = Suc k"
  shows "trusted v k tp"
proof -
  from run obtain c w1 where c: "x509_parse_certificate a = Ok c" "may_sign c"
    "ca_time_check (nv_platform v) c w = (Ok (), w1)"
    by (auto simp: try_anchor_def split: res.splits if_splits prod.splits)
  note time = ca_time_check_Ok [OF c(3)]
  show ?thesis
  proof (cases "same_name tp a")
    case True
    have "\<not> span_null a" "\<not> span_null tp" using parse_nonnull c(1) top by blast+
    with True have "tp = a" by (cases tp; cases a) (auto simp: same_name_def)
    moreover from True run c chain have "path_len_allows c (k - 1)"
      by (auto simp: try_anchor_def split: if_splits)
    with c(2) time have "issuer_ok v (k - 1) c" by (simp add: issuer_ok_def)
    ultimately show ?thesis using trusted.anchor [OF a c(1)] by simp
  next
    case False
    with run c chain have "path_len_allows c k" "same_name (x_issuer_name topv) (x_subject_name c)"
      "verify_cert_signed_by tp a = Ok ()"
      by (auto simp: try_anchor_def split: if_splits res.splits)
    moreover from this c(2) time have ok: "issuer_ok v k c" by (simp add: issuer_ok_def)
    ultimately have "certifies v k a tp" using c(1) top by (auto simp: certifies_def)
    moreover have "trusted v (Suc k) a" using a c(1) by (rule trusted.anchor) (simp add: ok)
    ultimately show ?thesis by (rule trusted.issued)
  qed
qed

lemma try_anchors_Ok:
  assumes "try_anchors v chain tp topv as w = (Ok (), w')" and "set as \<subseteq> set (nv_anchors v)"
    and "x509_parse_certificate tp = Ok topv" and "length chain = Suc k"
  shows "trusted v k tp"
  using assms(1,2)
proof (induction as arbitrary: w)
  case (Cons a as)
  from Cons.prems(1) obtain b w1 where b: "try_anchor v chain tp topv a w = (Ok b, w1)"
    "b \<or> try_anchors v chain tp topv as w1 = (Ok (), w')"
    by (auto simp: bind_act_Ok_iff split: if_splits)
  show ?case
  proof (cases b)
    case True
    with b(1) Cons.prems(2) show ?thesis by (auto intro: try_anchor_Ok assms(3,4))
  next
    case False
    with b(2) Cons.IH Cons.prems(2) show ?thesis by auto
  qed
qed simp

text \<open>From the top of the chain down to the leaf.\<close>

lemma trusted_down:
  assumes "\<forall>i < k. certifies v i (d (Suc i)) (d i)" and "trusted v k (d k)"
  shows "trusted v 0 (d 0)"
  using assms
proof (induction k)
  case (Suc k)
  then have "trusted v k (d k)" by (intro trusted.issued [of v k "d (Suc k)"]) auto
  with Suc show ?case by simp
qed simp

lemma leaf_pin_check_Ok:
  assumes "leaf_pin_check v (Span der) = Ok ()" and "length (nv_pin v) = 32"
  shows "nv_pin_enabled v \<longrightarrow> sha256_spec der = nv_pin v"
proof -
  have "length (sha256 der) = 32" by simp
  with assms show ?thesis
    by (auto simp: leaf_pin_check_def rd_bytes_def or_diff_zero_lists sha256_correct split: if_splits)
qed

lemma verify_chain_OkE:
  assumes "verify_chain v chain h w = (Ok (), w')"
  obtains host leaf topv w1 w2 where "h = Some host" "chain \<noteq> []" "nv_anchors v \<noteq> []"
    "x509_parse_certificate (ce_der (chain ! 0)) = Ok leaf"
    "leaf_pin_check v (ce_der (chain ! 0)) = Ok ()" "leaf_usage_check leaf = Ok ()"
    "leaf_time_check (nv_platform v) leaf w = (Ok (), w1)" "x509_verify_hostname leaf h = Ok ()"
    "chain_links v chain [0..<length chain - 1] w1 = (Ok (), w2)"
    "x509_parse_certificate (ce_der (chain ! (length chain - 1))) = Ok topv"
    "try_anchors v chain (ce_der (chain ! (length chain - 1))) topv (nv_anchors v) w2 = (Ok (), w')"
  using assms by (auto simp: verify_chain_def Let_def bind_act_Ok_iff split: if_splits) metis

definition pin_matches :: "'w native_verifier \<Rightarrow> bytes \<Rightarrow> bool" where
  "pin_matches v der \<longleftrightarrow> (nv_pin_enabled v \<longrightarrow> sha256_spec der = nv_pin v)"

theorem verify_chain_sound:
  assumes "verify_chain v chain h w = (Ok (), w')" and pin: "length (nv_pin v) = 32"
  shows "\<exists>host der leaf els name. h = Some host \<and> chain \<noteq> [] \<and> ce_der (hd chain) = Span der
    \<and> x509_parse_certificate (Span der) = Ok leaf
    \<and> san_dns_names (x_subject_alt_name leaf) els name \<and> dns_matches name host
    \<and> leaf_usage_check leaf = Ok () \<and> in_time v leaf
    \<and> pin_matches v der \<and> trusted v 0 (Span der)"
proof -
  let ?n = "length chain - 1"
  from assms(1) obtain host leaf topv w1 w2 where h: "h = Some host" and g: "chain \<noteq> []" and
    leaf: "x509_parse_certificate (ce_der (chain ! 0)) = Ok leaf" and
    p: "leaf_pin_check v (ce_der (chain ! 0)) = Ok ()" and u: "leaf_usage_check leaf = Ok ()" and
    t: "leaf_time_check (nv_platform v) leaf w = (Ok (), w1)" and
    hn: "x509_verify_hostname leaf h = Ok ()" and
    l: "chain_links v chain [0..<?n] w1 = (Ok (), w2)" and
    top: "x509_parse_certificate (ce_der (chain ! ?n)) = Ok topv" and
    a: "try_anchors v chain (ce_der (chain ! ?n)) topv (nv_anchors v) w2 = (Ok (), w')"
    by (rule verify_chain_OkE)
  from parse_nonnull [OF leaf] obtain der where der: "ce_der (chain ! 0) = Span der"
    using span_nonnull by blast
  have "length chain = Suc ?n" using g by (cases chain) simp_all
  from try_anchors_Ok [OF a subset_refl top this] have "trusted v ?n (ce_der (chain ! ?n))" .
  moreover from chain_links_Ok [OF l]
  have "\<forall>i < ?n. certifies v i (ce_der (chain ! Suc i)) (ce_der (chain ! i))" by simp
  ultimately have "trusted v 0 (ce_der (chain ! 0))"
    using trusted_down [of ?n v "\<lambda>i. ce_der (chain ! i)"] by blast
  moreover from hn obtain els name where
    "san_dns_names (x_subject_alt_name leaf) els name" "dns_matches name host"
    unfolding h x509_verify_hostname_iff by blast
  ultimately show ?thesis
    using leaf_pin_check_Ok [OF _ pin] p u leaf_time_check_Ok [OF t] leaf g
    unfolding h by (auto simp: hd_conv_nth der pin_matches_def)
qed

section \<open>What the verifier accepts\<close>

text \<open>
  With a clock that stands still, the answer of the verifier is a property of the chain: the leaf's
  checks, one certificate certifying the other along the chain, and an anchor for the last one.
\<close>

definition steady :: "'w native_verifier \<Rightarrow> u64 \<Rightarrow> bool" where
  "steady v now \<longleftrightarrow> (\<forall>p w. nv_platform v = Some p \<longrightarrow> fst (pf_unix_time_seconds p w) = now)"

definition anchored :: "'w native_verifier \<Rightarrow> nat \<Rightarrow> byte_span \<Rightarrow> byte_span \<Rightarrow> bool" where
  "anchored v k tp a \<longleftrightarrow>
     (if tp = a then \<exists>c. x509_parse_certificate a = Ok c \<and> issuer_ok v (k - 1) c else certifies v k a tp)"

lemma steady_clock:
  assumes "steady v now" and "nv_platform v = Some p"
  shows "in_time v c \<longleftrightarrow> x_not_before c \<le> now \<and> now \<le> x_not_after c"
    and "\<exists>w'. pf_unix_time_seconds p w = (now, w')"
  using assms by (simp_all add: in_time_def steady_def) (metis prod.collapse)

lemma leaf_time_check_iff:
  assumes "steady v now"
  shows "(\<exists>w'. leaf_time_check (nv_platform v) c w = (Ok (), w')) \<longleftrightarrow> in_time v c"
proof (cases "nv_platform v")
  case (Some p)
  from steady_clock(2) [OF assms this, of w] obtain w' where "pf_unix_time_seconds p w = (now, w')" ..
  with steady_clock(1) [OF assms Some, of c] Some show ?thesis
    by (auto simp: leaf_time_check_def not_less)
qed (simp add: leaf_time_check_def in_time_def)

lemma ca_time_check_iff:
  assumes "steady v now" and "x509_parse_certificate d = Ok c"
  shows "(\<exists>w'. ca_time_check (nv_platform v) c w = (Ok (), w')) \<longleftrightarrow> in_time v c"
proof (cases "nv_platform v")
  case (Some p)
  from steady_clock(2) [OF assms(1) this, of w] obtain w' where "pf_unix_time_seconds p w = (now, w')" ..
  with steady_clock(1) [OF assms(1) Some, of c] Some x509_parse_certificate_complete [OF assms(2)]
  show ?thesis by (auto simp: ca_time_check_def x509_complete_def not_less)
qed (simp add: ca_time_check_def in_time_def)

lemma ca_time_check_cases:
  obtains w' where "ca_time_check p c w = (Ok (), w')" | w' where "ca_time_check p c w = (Err XT_ERR_VERIFY, w')"
proof -
  have "fst (ca_time_check p c w) = Ok () \<or> fst (ca_time_check p c w) = Err XT_ERR_VERIFY"
    by (auto simp: ca_time_check_def split: option.splits prod.splits)
  with that show thesis by (cases "ca_time_check p c w") auto
qed

lemma chain_link_iff:
  assumes "steady v now"
  shows "(\<exists>w'. chain_link v chain i w = (Ok (), w')) \<longleftrightarrow>
    certifies v i (ce_der (chain ! Suc i)) (ce_der (chain ! i))"
proof
  assume "certifies v i (ce_der (chain ! Suc i)) (ce_der (chain ! i))"
  then obtain iv sv where c: "x509_parse_certificate (ce_der (chain ! Suc i)) = Ok iv"
    "x509_parse_certificate (ce_der (chain ! i)) = Ok sv"
    "same_name (x_issuer_name sv) (x_subject_name iv)" "issuer_ok v i iv"
    "verify_cert_signed_by (ce_der (chain ! i)) (ce_der (chain ! Suc i)) = Ok ()"
    by (auto simp: certifies_def)
  with ca_time_check_iff [OF assms c(1), of w] obtain w' where
    "ca_time_check (nv_platform v) iv w = (Ok (), w')" by (auto simp: issuer_ok_def)
  with c show "\<exists>w'. chain_link v chain i w = (Ok (), w')"
    by (simp add: chain_link_def bind_act_def issuer_ok_def)
qed (auto dest: chain_link_Ok)

lemma chain_links_iff:
  assumes "steady v now"
  shows "(\<exists>w'. chain_links v chain is w = (Ok (), w')) \<longleftrightarrow>
    (\<forall>i \<in> set is. certifies v i (ce_der (chain ! Suc i)) (ce_der (chain ! i)))"
proof (induction "is" arbitrary: w)
  case (Cons i "is")
  show ?case
    using chain_link_iff [OF assms, of chain i w] Cons.IH
    by (auto simp: bind_act_Ok_iff dest: chain_link_Ok)
qed simp

lemma try_anchor_iff:
  assumes st: "steady v now" and a: "\<not> span_null a" and top: "x509_parse_certificate tp = Ok topv"
    and chain: "length chain = Suc k"
  shows "\<exists>w'. try_anchor v chain tp topv a w = (Ok (anchored v k tp a), w')"
proof (cases "x509_parse_certificate a")
  case (Ok c)
  have nn: "\<not> span_null tp" using parse_nonnull top by blast
  then have same: "same_name tp a \<longleftrightarrow> tp = a" using a by (cases tp; cases a) (auto simp: same_name_def)
  have time: "in_time v c \<longleftrightarrow> (\<exists>w'. ca_time_check (nv_platform v) c w = (Ok (), w'))"
    using ca_time_check_iff [OF st Ok] by blast
  have sig: "verify_cert_signed_by tp a \<noteq> UB"
    using verify_cert_signed_by_safe [OF a] by (auto dest: safe_not_UB)
  have k: "(if length chain \<ge> 2 then length chain - 2 else 0) = k - 1" using chain by simp
  show ?thesis
  proof (cases rule: ca_time_check_cases [of "nv_platform v" c w])
    case (1 w')
    then show ?thesis
      using Ok top sig time same k chain
      by (auto simp: try_anchor_def anchored_def certifies_def issuer_ok_def split: res.splits)
  next
    case (2 w')
    then show ?thesis
      using Ok top time by (auto simp: try_anchor_def anchored_def certifies_def issuer_ok_def)
  qed
next
  case UB
  then show ?thesis using x509_parse_safe [OF a] by simp
qed (use top in \<open>auto simp: try_anchor_def anchored_def certifies_def\<close>)

lemma try_anchors_iff:
  assumes "steady v now" and "\<forall>a \<in> set as. \<not> span_null a" and "x509_parse_certificate tp = Ok topv"
    and "length chain = Suc k"
  shows "(\<exists>w'. try_anchors v chain tp topv as w = (Ok (), w')) \<longleftrightarrow> (\<exists>a \<in> set as. anchored v k tp a)"
  using assms(2)
proof (induction as arbitrary: w)
  case (Cons a as)
  then obtain w1 where "try_anchor v chain tp topv a w = (Ok (anchored v k tp a), w1)"
    using try_anchor_iff [OF assms(1) _ assms(3,4), of a w] by auto
  with Cons show ?case by (auto simp: bind_act_def)
qed simp

theorem verify_chain_iff:
  assumes st: "steady v now" and anchors: "anchors_readable v"
  shows "(\<exists>w'. verify_chain v chain h w = (Ok (), w')) \<longleftrightarrow>
    chain \<noteq> [] \<and> nv_anchors v \<noteq> [] \<and>
    (\<exists>leaf. x509_parse_certificate (ce_der (hd chain)) = Ok leaf
       \<and> leaf_pin_check v (ce_der (hd chain)) = Ok () \<and> leaf_usage_check leaf = Ok ()
       \<and> in_time v leaf \<and> x509_verify_hostname leaf h = Ok ()) \<and>
    (\<forall>i < length chain - 1. certifies v i (ce_der (chain ! Suc i)) (ce_der (chain ! i))) \<and>
    is_ok (x509_parse_certificate (ce_der (last chain))) \<and>
    (\<exists>a \<in> set (nv_anchors v). anchored v (length chain - 1) (ce_der (last chain)) a)"
    (is "?L \<longleftrightarrow> ?R")
proof (cases "chain = []")
  case False
  then have n: "length chain = Suc (length chain - 1)" "last chain = chain ! (length chain - 1)"
    "hd chain = chain ! 0" by (simp_all add: last_conv_nth hd_conv_nth)
  have readable: "\<forall>a \<in> set (nv_anchors v). \<not> span_null a" using anchors by (simp add: anchors_readable_def)
  note top = try_anchors_iff [OF st readable _ n(1)]
  show ?thesis
  proof
    assume ?L
    then obtain w3 where "verify_chain v chain h w = (Ok (), w3)" by blast
    then obtain host leaf topv w1 w2 where
      r: "nv_anchors v \<noteq> []" "x509_parse_certificate (ce_der (chain ! 0)) = Ok leaf"
      "leaf_pin_check v (ce_der (chain ! 0)) = Ok ()" "leaf_usage_check leaf = Ok ()"
      "leaf_time_check (nv_platform v) leaf w = (Ok (), w1)" "x509_verify_hostname leaf h = Ok ()"
      "chain_links v chain [0..<length chain - 1] w1 = (Ok (), w2)"
      "x509_parse_certificate (ce_der (chain ! (length chain - 1))) = Ok topv"
      "try_anchors v chain (ce_der (chain ! (length chain - 1))) topv (nv_anchors v) w2 = (Ok (), w3)"
      by (rule verify_chain_OkE)
    then show ?R
      using False chain_links_Ok [OF r(7)] leaf_time_check_Ok [OF r(5)] top [OF r(8), of w2]
      unfolding n(2,3) by (auto simp: is_ok_iff)
  next
    assume R: ?R
    then obtain leaf topv a where
      r: "nv_anchors v \<noteq> []" "x509_parse_certificate (ce_der (chain ! 0)) = Ok leaf"
      "leaf_pin_check v (ce_der (chain ! 0)) = Ok ()" "leaf_usage_check leaf = Ok ()"
      "in_time v leaf" "x509_verify_hostname leaf h = Ok ()"
      "x509_parse_certificate (ce_der (chain ! (length chain - 1))) = Ok topv"
      "a \<in> set (nv_anchors v)" "anchored v (length chain - 1) (ce_der (chain ! (length chain - 1))) a"
      unfolding n(2,3) is_ok_iff by blast
    from leaf_time_check_iff [OF st, of leaf w] r(5) obtain w1 where
      t: "leaf_time_check (nv_platform v) leaf w = (Ok (), w1)" by blast
    from R chain_links_iff [OF st, of chain "[0..<length chain - 1]" w1] obtain w2 where
      l: "chain_links v chain [0..<length chain - 1] w1 = (Ok (), w2)" by auto
    from top [OF r(7), of w2] r(8,9) obtain w3 where
      "try_anchors v chain (ce_der (chain ! (length chain - 1))) topv (nv_anchors v) w2 = (Ok (), w3)" by blast
    moreover have "h \<noteq> None" "h \<noteq> Some []" using r(6) by (cases h; auto simp: x509_verify_hostname_def)+
    ultimately show ?L
      using False r t l by (simp add: verify_chain_def Let_def bind_act_step)
  qed
qed (simp add: verify_chain_def)

section \<open>The trust store\<close>

text \<open>
  The bytes \<open>XTS1\<close>, a count, and that many certificates with their lengths. The store is loaded
  completely, or there are no anchors left.
\<close>

definition encode_cert :: "bytes \<Rightarrow> bytes" where
  "encode_cert c = store_be24 (of_nat (length c)) @ c"

definition encode_trust_store :: "bytes list \<Rightarrow> bytes" where
  "encode_trust_store certs =
     [0x58, 0x54, 0x53, 0x31] @ store_be16 (of_nat (length certs)) @ concat (map encode_cert certs)"

definition cert_ok :: "bytes \<Rightarrow> bool" where
  "cert_ok c \<longleftrightarrow> length c < 16777216 \<and> is_ok (x509_parse_certificate (Span c))"

lemma add_trust_anchor_Ok_iff:
  "add_trust_anchor v (Span c) = (Ok (), v') \<longleftrightarrow>
     c \<noteq> [] \<and> length (nv_anchors v) < 16 \<and> is_ok (x509_parse_certificate (Span c))
     \<and> v' = v\<lparr>nv_anchors := nv_anchors v @ [Span c]\<rparr>"
  by (auto simp: add_trust_anchor_def is_ok_iff split: res.splits)

lemma add_trust_anchor_failed: "add_trust_anchor v d = (r, v') \<Longrightarrow> r \<noteq> Ok () \<Longrightarrow> v' = v"
  by (auto simp: add_trust_anchor_def split: res.splits if_splits)

text \<open>One certificate of the store, read at \<open>off\<close>.\<close>

definition store_entry :: "byte_span \<Rightarrow> nat \<Rightarrow> (nat \<times> byte_span) res" where
  "store_entry blob off =
     bind_res (read_be24_local blob off) (\<lambda>len.
       if len = 0 \<or> len > span_size blob - (off + 3) then Err XT_ERR_BAD_HANDSHAKE
       else bind_res (subspan blob (off + 3) len) (\<lambda>der. Ok (len, der)))"

lemma read_be24_local_eq: "read_be24_local s p = bind_res (load_be24 s p) (\<lambda>v. Ok (unat v))"
  by (simp add: read_be24_local_def load_be24_def bind_res_assoc unat_be24 mult.commute)

lemma store_entry_Ok_iff:
  assumes "off + 3 \<le> length xs"
  shows "store_entry (Span xs) off = Ok (len, der) \<longleftrightarrow>
    (\<exists>c rest. drop off xs = encode_cert c @ rest \<and> c \<noteq> [] \<and> length c < 16777216
       \<and> len = length c \<and> der = Span c)" (is "?L \<longleftrightarrow> ?R")
proof
  assume ?L
  then obtain v where v: "load_be24 (Span xs) off = Ok v" "unat v = len" "len \<noteq> 0"
    "subspan (Span xs) (off + 3) len = Ok der"
    by (auto simp: store_entry_def read_be24_local_eq bind_res_Ok_iff split: if_splits)
  from subspan_drop [OF v(4)] obtain c where
    c: "der = Span c" "length c = len" "drop (off + 3) xs = c @ drop (off + 3 + len) xs" by blast
  have "of_nat (length c) = v" by (simp add: c(2) flip: v(2))
  then have "drop off xs = store_be24 (of_nat (length c)) @ c @ drop (off + 3 + len) xs"
    using load_be24_drop [OF v(1)] c(3) by simp
  then show ?R
    using c v(2,3) load_be24_less [OF v(1)] by (auto simp: encode_cert_def)
next
  assume ?R
  then obtain c rest where c: "drop off xs = store_be24 (of_nat (length c)) @ c @ rest" "c \<noteq> []"
    "length c < 16777216" "len = length c" "der = Span c" by (auto simp: encode_cert_def)
  have u: "unat (of_nat (length c) :: u32) = length c" using c(3) by (simp add: unat_of_nat_u32 del: of_nat_numeral)
  note l = load_be24_at [OF c(1), unfolded u, OF c(3)]
  note s = subspan_at [OF l(3) l(2)]
  have "\<not> length xs - (off + 3) < length c" using s(2) by linarith
  then show ?L
    using c(2) s(1) by (simp add: store_entry_def read_be24_local_eq l(1) u c(4,5))
qed

lemma clear_eq: "snd (clear_trust_anchors v) = v\<lparr>nv_anchors := []\<rparr>"
  by (simp add: clear_trust_anchors_def)

lemma trust_store_loop_Suc:
  "trust_store_loop blob (Suc i) off v =
     (if off + 3 > span_size blob then (Err XT_ERR_BAD_HANDSHAKE, v\<lparr>nv_anchors := []\<rparr>)
      else
        (case store_entry blob off of
           UB \<Rightarrow> (UB, v)
         | Err e \<Rightarrow> (Err e, v\<lparr>nv_anchors := []\<rparr>)
         | Ok (len, der) \<Rightarrow>
             (case add_trust_anchor v der of
                (UB, v') \<Rightarrow> (UB, v')
              | (Err e, v') \<Rightarrow> (Err e, v'\<lparr>nv_anchors := []\<rparr>)
              | (Ok _, v') \<Rightarrow> trust_store_loop blob i (off + 3 + len) v')))"
  unfolding trust_store_loop.simps store_entry_def clear_eq ..

lemma add_trust_anchor_safe: "fst (add_trust_anchor v d) \<noteq> UB"
  using x509_parse_safe [of d] by (auto simp: add_trust_anchor_def split: res.splits dest: safe_not_UB)

lemma store_entry_safe: "off + 3 \<le> length xs \<Longrightarrow> store_entry (Span xs) off \<noteq> UB"
  by (auto simp: store_entry_def read_be24_local_eq bind_res_assoc subspan_def)

text \<open>A failure leaves no anchors, and there is no way to leave the buffer.\<close>

lemma trust_store_loop_failed:
  assumes "trust_store_loop (Span xs) n off v = (r, v')"
  shows "r \<noteq> UB \<and> v'\<lparr>nv_anchors := []\<rparr> = v\<lparr>nv_anchors := []\<rparr>
    \<and> (\<forall>e. r = Err e \<longrightarrow> v' = v\<lparr>nv_anchors := []\<rparr>)"
  using assms
proof (induction n arbitrary: off v)
  case (Suc n)
  show ?case
  proof (cases "off + 3 > length xs")
    case False
    then have ns: "store_entry (Span xs) off \<noteq> UB" by (intro store_entry_safe) simp
    show ?thesis
    proof (cases "store_entry (Span xs) off")
      case (Ok p)
      obtain len der where p: "p = (len, der)" by (cases p)
      obtain r1 v1 where add: "add_trust_anchor v der = (r1, v1)" by (cases "add_trust_anchor v der")
      have v1: "r1 \<noteq> UB" "v1\<lparr>nv_anchors := []\<rparr> = v\<lparr>nv_anchors := []\<rparr>"
        using add_trust_anchor_safe [of v der] add
        by (auto simp: add_trust_anchor_def split: res.splits if_splits)
      show ?thesis
      proof (cases r1)
        case (Ok u)
        with Suc.prems False p \<open>store_entry (Span xs) off = Ok p\<close> add
        have "trust_store_loop (Span xs) n (off + 3 + len) v1 = (r, v')"
          by (simp add: trust_store_loop_Suc del: trust_store_loop.simps)
        from Suc.IH [OF this] v1(2) show ?thesis by simp
      qed (use Suc.prems False p Ok add v1 in
          \<open>auto simp: trust_store_loop_Suc simp del: trust_store_loop.simps\<close>)
    qed (use Suc.prems False ns in \<open>auto simp: trust_store_loop_Suc simp del: trust_store_loop.simps\<close>)
  qed (use Suc.prems in \<open>auto simp: trust_store_loop_Suc simp del: trust_store_loop.simps\<close>)
qed auto

lemma trust_store_loop_Ok_iff:
  assumes "off \<le> length xs"
  shows "trust_store_loop (Span xs) n off v = (Ok off', v') \<longleftrightarrow>
    (\<exists>certs. length certs = n \<and> drop off xs = concat (map encode_cert certs) @ drop off' xs
       \<and> off' = off + length (concat (map encode_cert certs)) \<and> list_all cert_ok certs
       \<and> (n = 0 \<or> length (nv_anchors v) + n \<le> 16)
       \<and> v' = v\<lparr>nv_anchors := nv_anchors v @ map Span certs\<rparr>)"
  using assms
proof (induction n arbitrary: off v)
  case (Suc n)
  show ?case (is "?L \<longleftrightarrow> ?R")
  proof
    assume ?L
    then obtain len der v1 where o: "off + 3 \<le> length xs" and
      e: "store_entry (Span xs) off = Ok (len, der)" and add: "add_trust_anchor v der = (Ok (), v1)" and
      l: "trust_store_loop (Span xs) n (off + 3 + len) v1 = (Ok off', v')"
      by (auto simp: trust_store_loop_Suc simp del: trust_store_loop.simps
          split: if_splits res.splits prod.splits)
    from e [unfolded store_entry_Ok_iff [OF o]] obtain c rest where
      c: "drop off xs = encode_cert c @ rest" "c \<noteq> []" "length c < 16777216" "len = length c" "der = Span c"
      by blast
    have len: "off + 3 + len = off + length (encode_cert c)" by (simp add: encode_cert_def c(4))
    note at = subspan_at [OF c(1) Suc.prems]
    from Suc.IH [OF at(2)] l obtain certs where
      s: "length certs = n" "drop (off + length (encode_cert c)) xs = concat (map encode_cert certs) @ drop off' xs"
      "off' = off + length (encode_cert c) + length (concat (map encode_cert certs))"
      "list_all cert_ok certs" "n = 0 \<or> length (nv_anchors v1) + n \<le> 16"
      "v' = v1\<lparr>nv_anchors := nv_anchors v1 @ map Span certs\<rparr>"
      unfolding len by blast
    from add c(5) have v1: "length (nv_anchors v) < 16" "cert_ok c" "v1 = v\<lparr>nv_anchors := nv_anchors v @ [Span c]\<rparr>"
      using c(3) by (auto simp: add_trust_anchor_Ok_iff cert_ok_def)
    have "drop off xs = concat (map encode_cert (c # certs)) @ drop off' xs"
      using c(1) at(3) s(2) by simp
    moreover have "list_all cert_ok (c # certs)" "length (nv_anchors v) + Suc n \<le> 16"
      using s(4,5) v1 by auto
    ultimately show ?R
      using s(1,3,6) v1(3) by (intro exI [of _ "c # certs"]) simp
  next
    assume ?R
    then obtain cs where
      cs: "length cs = Suc n" "drop off xs = concat (map encode_cert cs) @ drop off' xs"
      "off' = off + length (concat (map encode_cert cs))"
      "list_all cert_ok cs" "length (nv_anchors v) + Suc n \<le> 16"
      "v' = v\<lparr>nv_anchors := nv_anchors v @ map Span cs\<rparr>"
      by auto
    then obtain c certs where csc: "cs = c # certs" by (cases cs) auto
    from cs have s: "length certs = n"
      "drop off xs = encode_cert c @ concat (map encode_cert certs) @ drop off' xs"
      "off' = off + length (encode_cert c) + length (concat (map encode_cert certs))"
      "list_all cert_ok certs" "cert_ok c" "length (nv_anchors v) + Suc n \<le> 16"
      "v' = v\<lparr>nv_anchors := nv_anchors v @ map Span (c # certs)\<rparr>"
      unfolding csc by simp_all
    note at = subspan_at [OF s(2) Suc.prems]
    have o: "off + 3 \<le> length xs" using at(2) by (simp add: encode_cert_def)
    have ne: "c \<noteq> []" using s(5) by (auto simp: cert_ok_def is_ok_iff x509_parse_certificate_def der_tlv_def)
    have e: "store_entry (Span xs) off = Ok (length c, Span c)"
      unfolding store_entry_Ok_iff [OF o] using s(2,5) ne by (auto simp: cert_ok_def)
    let ?v = "v\<lparr>nv_anchors := nv_anchors v @ [Span c]\<rparr>"
    have add: "add_trust_anchor v (Span c) = (Ok (), ?v)"
      using s(5,6) ne by (simp add: add_trust_anchor_Ok_iff cert_ok_def)
    have len: "off + 3 + length c = off + length (encode_cert c)" by (simp add: encode_cert_def)
    have "trust_store_loop (Span xs) n (off + length (encode_cert c)) ?v = (Ok off', v')"
      unfolding Suc.IH [OF at(2)] using s at(3) by auto
    then show ?L
      using o by (simp add: trust_store_loop_Suc e add len del: trust_store_loop.simps)
  qed
qed auto

lemma load_trust_store_Ok_iff:
  "load_compact_trust_store (Span xs) v = (Ok n, v') \<longleftrightarrow>
    (\<exists>certs. xs = encode_trust_store certs \<and> length certs = n \<and> n \<le> 16 \<and> list_all cert_ok certs
       \<and> v' = v\<lparr>nv_anchors := map Span certs\<rparr>)" (is "?L \<longleftrightarrow> ?R")
proof -
  let ?v = "v\<lparr>nv_anchors := []\<rparr>"
  define magic :: bytes where "magic = [0x58, 0x54, 0x53, 0x31]"
  have loop: "trust_store_loop (Span xs) n 6 ?v = (Ok (length xs), v') \<longleftrightarrow>
      (\<exists>certs. length certs = n \<and> drop 6 xs = concat (map encode_cert certs) \<and> list_all cert_ok certs
       \<and> n \<le> 16 \<and> v' = v\<lparr>nv_anchors := map Span certs\<rparr>)" if "6 \<le> length xs"
  proof -
    have "length xs = 6 + length ys" if "drop 6 xs = ys" for ys :: bytes
      using \<open>6 \<le> length xs\<close> by (simp flip: that)
    note len = this [of "concat (map encode_cert certs)" for certs]
    show ?thesis
      unfolding trust_store_loop_Ok_iff [OF that] using len by (intro iff_exI) (auto simp del: length_concat)
  qed
  show ?thesis
  proof (cases "6 \<le> length xs \<and> take 4 xs = magic")
    case False
    have "take 4 xs = magic" "6 \<le> length xs" if "xs = encode_trust_store certs" for certs
      using that by (simp_all add: encode_trust_store_def magic_def)
    moreover have "xs ! 0 \<noteq> 0x58 \<or> xs ! 1 \<noteq> 0x54 \<or> xs ! 2 \<noteq> 0x53 \<or> xs ! 3 \<noteq> 0x31" if "6 \<le> length xs"
      using False that
      by (auto simp: magic_def nth_Cons' list_eq_iff_nth_eq less_Suc_eq numeral_eq_Suc)
    ultimately show ?thesis
      using False by (auto simp: load_compact_trust_store_def Let_def)
  next
    case True
    have "xs = take 4 xs @ drop 4 xs" by simp
    also have "drop 4 xs = store_be16 (be16 (xs ! 4) (xs ! 5)) @ drop 6 xs"
      using True drop_two [of 4 xs] by (simp add: store_be16_be16)
    finally have xs: "xs = magic @ store_be16 (be16 (xs ! 4) (xs ! 5)) @ drop 6 xs" using True by simp
    define count where "count = unat (be16 (xs ! 4) (xs ! 5))"
    have c: "unat (xs ! 4) * 256 + unat (xs ! 5) = count" by (simp add: count_def unat_be16)
    have nth: "xs ! 0 = 0x58" "xs ! 1 = 0x54" "xs ! 2 = 0x53" "xs ! 3 = 0x31"
      by (subst xs, simp add: magic_def)+
    have run: "load_compact_trust_store (Span xs) v =
        (case trust_store_loop (Span xs) count 6 ?v of
           (Ok off, v') \<Rightarrow> if off \<noteq> length xs then (Err XT_ERR_BAD_HANDSHAKE, v'\<lparr>nv_anchors := []\<rparr>)
             else (Ok count, v')
         | (Err e, v') \<Rightarrow> (Err e, v') | (UB, v') \<Rightarrow> (UB, v'))"
      using True nth unfolding load_compact_trust_store_def Let_def clear_eq span_size.simps span_bytes.simps c by simp
    have "?L \<longleftrightarrow> n = count \<and> trust_store_loop (Span xs) n 6 ?v = (Ok (length xs), v')"
      unfolding run by (auto split: res.splits prod.splits if_splits)
    also have "\<dots> \<longleftrightarrow> ?R"
    proof -
      have "xs = encode_trust_store certs \<longleftrightarrow>
          length certs = count \<and> drop 6 xs = concat (map encode_cert certs)" if "length certs \<le> 16" for certs
      proof -
        have u: "unat (of_nat (length certs) :: u16) = length certs" using that by (simp add: unat_of_nat_u16)
        show ?thesis
          using xs u
          by (auto simp: encode_trust_store_def magic_def count_def store_be16_def be16_store)
      qed
      then show ?thesis unfolding loop [OF conjunct1 [OF True]] by metis
    qed
    finally show ?thesis .
  qed
qed

text \<open>
  A store that is refused: the verifier is as it was when the header is wrong, and has no anchors
  otherwise.
\<close>

lemma load_trust_store_failed:
  assumes "load_compact_trust_store (Span xs) v = (r, v')"
  shows "r \<noteq> UB \<and> (\<forall>e. r = Err e \<longrightarrow> v' = v \<or> v' = v\<lparr>nv_anchors := []\<rparr>)"
proof -
  define count where "count = unat (xs ! 4) * 256 + unat (xs ! 5)"
  obtain r1 v1 where l: "trust_store_loop (Span xs) count 6 (v\<lparr>nv_anchors := []\<rparr>) = (r1, v1)" by fastforce
  from trust_store_loop_failed [OF l] show ?thesis
    using assms unfolding load_compact_trust_store_def Let_def clear_eq span_size.simps span_bytes.simps
      count_def [symmetric] l
    by (auto split: if_splits res.splits)
qed

text \<open>Every way to change the anchors keeps them few and readable.\<close>

definition anchors_ok :: "'w native_verifier \<Rightarrow> bool" where
  "anchors_ok v \<longleftrightarrow> length (nv_anchors v) \<le> 16 \<and> length (nv_pin v) = 32
     \<and> (\<forall>a \<in> set (nv_anchors v). is_ok (x509_parse_certificate a))"

lemma anchors_ok_readable: "anchors_ok v \<Longrightarrow> anchors_readable v"
  by (auto simp: anchors_ok_def anchors_readable_def is_ok_iff dest: parse_nonnull)

lemma anchors_ok_new: "anchors_ok (native_verifier_new p)"
  by (simp add: anchors_ok_def native_verifier_new_def)

lemma anchors_ok_pin:
  "anchors_ok v \<Longrightarrow> anchors_ok (snd (set_leaf_certificate_sha256_pin v d))"
  "anchors_ok v \<Longrightarrow> anchors_ok (clear_leaf_certificate_sha256_pin v)"
  by (auto simp: anchors_ok_def set_leaf_certificate_sha256_pin_def clear_leaf_certificate_sha256_pin_def)

lemma anchors_ok_add: "anchors_ok v \<Longrightarrow> anchors_ok (snd (add_trust_anchor v d))"
  by (auto simp: anchors_ok_def add_trust_anchor_def is_ok_iff split: res.splits)

lemma anchors_ok_clear: "anchors_ok v \<Longrightarrow> anchors_ok (snd (clear_trust_anchors v))"
  by (simp add: anchors_ok_def clear_eq)

lemma anchors_ok_load: "anchors_ok v \<Longrightarrow> anchors_ok (snd (load_trust_store v d))"
proof (cases d)
  case (Span xs)
  assume v: "anchors_ok v"
  obtain r v' where run: "load_compact_trust_store (Span xs) v = (r, v')" by fastforce
  from load_trust_store_failed [OF run] v have "anchors_ok v'" if "\<nexists>n. r = Ok n"
    using that by (cases r) (auto simp: anchors_ok_def)
  moreover have "anchors_ok v'" if "r = Ok n" for n
    using run v unfolding that load_trust_store_Ok_iff
    by (auto simp: anchors_ok_def cert_ok_def list_all_iff)
  ultimately show ?thesis using run Span by (cases "\<exists>n. r = Ok n") (auto simp: load_trust_store_def)
qed (simp add: load_trust_store_def load_compact_trust_store_def)

end
