(* ===== verification/Facade.thy ===== *)
theory Facade
  imports XboxClient SocketLife Environment Trust
begin

text \<open>
  What the facade keeps over its whole life, in a system that keeps its contract: the TLS client in
  its own invariants, a socket that is open only while the client is connected, and a verifier whose
  anchors are exactly the certificates of the trust store whose buffer the object holds. Every member
  function returns, stays inside its buffers and keeps this. What a call of \<open>connect\<close> gives is told
  from the options and the state before it.
\<close>

section \<open>The list of protocols\<close>

lemma alpn_list_loop_iff: "alpn_list_loop p s \<longleftrightarrow> s \<in> set (alpn_names p)"
proof (induction p s rule: alpn_list_loop.induct)
  case (1 p s)
  show ?case
    by (subst alpn_list_loop.simps, subst alpn_names.simps) (use 1 in \<open>auto simp: Let_def\<close>)
qed

lemma alpn_list_contains_iff:
  "alpn_list_contains l s \<longleftrightarrow> (\<exists>lb sb. l = Some lb \<and> s = Some sb \<and> sb \<noteq> [] \<and> sb \<in> set (alpn_names lb))"
  by (auto simp: alpn_list_contains_def alpn_list_loop_iff split: option.splits)

section \<open>Runs of the facade's programs\<close>

lemma facade_runs [simp]:
  "runs facade s Q1 E \<longleftrightarrow> Q1 (fst s) s"
  "runs (set_facade g) s Q2 E \<longleftrightarrow> Q2 () (g (fst s), snd s)"
  "runs (set_stats u) s Q2 E \<longleftrightarrow> Q2 () ((fst s)\<lparr>fc_stats := u (fc_stats (fst s))\<rparr>, snd s)"
  by (simp_all add: runs_def facade_def set_facade_def set_stats_def)

lemma runs_on_tls [simp]:
  "runs (on_tls m) s Q E \<longleftrightarrow> runs m (fc_tls (fst s), snd s)
     (\<lambda>x t. Q x ((fst s)\<lparr>fc_tls := fst t\<rparr>, snd t)) (\<lambda>e t. E e ((fst s)\<lparr>fc_tls := fst t\<rparr>, snd t))"
  by (auto simp: runs_def on_tls_def split: option.splits res.splits)

lemma runs_on_verifier [simp]:
  "runs (on_verifier m) s Q E \<longleftrightarrow> (case m (fc_verifier (fst s)) of (r, v) \<Rightarrow>
     (case r of Ok x \<Rightarrow> Q x ((fst s)\<lparr>fc_verifier := v\<rparr>, snd s)
      | Err e \<Rightarrow> E e ((fst s)\<lparr>fc_verifier := v\<rparr>, snd s) | UB \<Rightarrow> False))"
  by (auto simp: runs_def on_verifier_def split: prod.splits)

lemma runs_on_world [simp]:
  "runs (on_world m) s Q E \<longleftrightarrow> runs m (snd s) (\<lambda>x w. Q x (fst s, w)) (\<lambda>e w. E e (fst s, w))"
  by (auto simp: runs_def on_world_def split: option.splits res.splits)

lemma runs_sys [simp]:
  "runs (sys f) s Q E \<longleftrightarrow>
     (case f (xw_system (snd s)) of (x, st) \<Rightarrow> Q x (fst s, (snd s)\<lparr>xw_system := st\<rparr>))"
  by (auto simp: runs_def sys_def split: prod.splits)

lemma runs_small [simp]:
  "runs (sys_do g) s Q E \<longleftrightarrow> Q () (fst s, (snd s)\<lparr>xw_system := g (xw_system (snd s))\<rparr>)"
  "runs (close_socket os) s Q E \<longleftrightarrow> Q () (fst s, xbox_close os (snd s))"
  "runs (remember r) s Q E \<longleftrightarrow> (case r of None \<Rightarrow> Q () ((fst s)\<lparr>fc_last_error := XT_OK\<rparr>, snd s)
     | Some e \<Rightarrow> E e ((fst s)\<lparr>fc_last_error := e\<rparr>, snd s))"
  by (auto simp: sys_do_def close_socket_def remember_def split: option.split)

lemma runs_error_of [simp]: "runs (error_of m) s Q E \<longleftrightarrow> runs m s (\<lambda>_ t. Q None t) (\<lambda>e t. Q (Some e) t)"
  by (simp add: error_of_def)

lemma runs_act [simp]:
  "runs (act_prog m) w Q E \<longleftrightarrow>
     (case m w of (r, w') \<Rightarrow> (case r of Ok x \<Rightarrow> Q x w' | Err e \<Rightarrow> E e w' | UB \<Rightarrow> False))"
  by (auto simp: runs_def act_prog_def split: prod.splits)

section \<open>What the functions of the facade leave alone\<close>

definition frame :: "('o facade \<Rightarrow> 'x) \<Rightarrow> 'o facade \<times> 'o xworld \<Rightarrow> 'o facade \<times> 'o xworld \<Rightarrow> bool" where
  "frame g s t \<longleftrightarrow> g (fst t) = g (fst s)"

interpretation frame: state_preorder "frame g" for g
  by unfold_locales (auto simp: frame_def)

named_theorems frame_intros \<open>what leaves a part of the facade alone\<close>

lemmas frame_rules [frame_intros] =
  frame.keeps_ret frame.keeps_throw frame.keeps_of_res frame.keeps_check frame.keeps_bind
  frame.keeps_then frame.keeps_on_error frame.keeps_loop

lemma frame_steps [frame_intros]:
  "keeps_rel (frame g) facade" "keeps_rel (frame g) (on_world m)" "keeps_rel (frame g) (sys h)"
  "keeps_rel (frame g) (sys_do k)" "keeps_rel (frame g) (close_socket os)"
  "(\<And>f. g (u f) = g f) \<Longrightarrow> keeps_rel (frame g) (set_facade u)"
  "(\<And>f st. g (f\<lparr>fc_stats := st\<rparr>) = g f) \<Longrightarrow> keeps_rel (frame g) (set_stats v)"
  "(\<And>f c. g (f\<lparr>fc_tls := c\<rparr>) = g f) \<Longrightarrow> keeps_rel (frame g) (on_tls n)"
  "(\<And>f nv. g (f\<lparr>fc_verifier := nv\<rparr>) = g f) \<Longrightarrow> keeps_rel (frame g) (on_verifier l)"
  "(\<And>f e. g (f\<lparr>fc_last_error := e\<rparr>) = g f) \<Longrightarrow> keeps_rel (frame g) (remember e')"
  by (auto simp: keeps_rel_def frame_def facade_def on_world_def sys_def sys_do_def close_socket_def
      set_facade_def set_stats_def on_tls_def on_verifier_def remember_def then_prog_def bind_prog_run
      split: option.splits prod.splits)

lemma frame_cases [frame_intros]:
  "(b \<Longrightarrow> keeps_rel (frame g) m) \<Longrightarrow> (\<not> b \<Longrightarrow> keeps_rel (frame g) k) \<Longrightarrow> keeps_rel (frame g) (if b then m else k)"
  "(x = None \<Longrightarrow> keeps_rel (frame g) m) \<Longrightarrow> (\<And>y. x = Some y \<Longrightarrow> keeps_rel (frame g) (f y)) \<Longrightarrow>
   keeps_rel (frame g) (case x of None \<Rightarrow> m | Some y \<Rightarrow> f y)"
  "(\<And>a. z = Inl a \<Longrightarrow> keeps_rel (frame g) (h a)) \<Longrightarrow> (\<And>b. z = Inr b \<Longrightarrow> keeps_rel (frame g) (h' b)) \<Longrightarrow>
   keeps_rel (frame g) (case z of Inl a \<Rightarrow> h a | Inr b \<Rightarrow> h' b)"
  "(\<And>a b. q = (a, b) \<Longrightarrow> keeps_rel (frame g) (l a b)) \<Longrightarrow> keeps_rel (frame g) (case q of (a, b) \<Rightarrow> l a b)"
  by (auto split: option.split sum.split prod.split)

lemma frame_error_of [frame_intros]: "keeps_rel (frame g) m \<Longrightarrow> keeps_rel (frame g) (error_of m)"
  unfolding error_of_def by (intro frame_intros)

lemma frame_load:
  assumes "\<And>f nv d n st e. g (f\<lparr>fc_verifier := nv\<rparr>) = g f \<and> g (f\<lparr>fc_trust_store_data := d, fc_trust_store_size := n\<rparr>) = g f
    \<and> g (f\<lparr>fc_trust_store_data := d, fc_trust_store_size := n, fc_verifier := nv\<rparr>) = g f
    \<and> g (f\<lparr>fc_stats := st\<rparr>) = g f \<and> g (f\<lparr>fc_last_error := e\<rparr>) = g f"
  shows "keeps_rel (frame g) (load_trust_store_file alloc fs path)"
  unfolding load_trust_store_file_def read_file_def use_trust_store_def free_trust_store_def
  by (intro frame_intros; simp add: assms)

section \<open>The TLS client inside the facade\<close>

text \<open>The configurations that the facade gives to the client.\<close>

definition made_config :: "'o system \<Rightarrow> 'o xworld client_config \<Rightarrow> bool" where
  "made_config os cfg \<longleftrightarrow> cfg = client_config_init
     \<or> cc_stream cfg = Some (xbox360_stream os) \<and> cc_platform cfg = Some (xbox360_platform os)
       \<and> (\<exists>nv. cc_verifier cfg = Some (native_auth_verifier nv) \<and> anchors_readable nv
            \<and> nv_platform nv = Some (xbox360_platform os))"

lemma made_console_config: "made_config os cfg \<Longrightarrow> console_config os cfg"
  by (auto simp: made_config_def console_config_def client_config_init_def intro: native_console_verifier)

definition tls_core :: "'o system \<Rightarrow> 'o xworld client \<Rightarrow> bool" where
  "tls_core os c \<longleftrightarrow> settled c \<and> shape c \<and> terminated c \<and> made_config os (c_config c)"

definition tls_ok :: "'o system \<Rightarrow> 'o xworld client \<times> 'o xworld \<Rightarrow> bool" where
  "tls_ok os s \<longleftrightarrow> tls_core os (fst s) \<and> (is_open (snd s) \<longrightarrow> c_state (fst s) = CLIENT_CONNECTED)"

lemma tls_ok_step:
  assumes "tls_ok os s" and "owned os True s t" and "settled (fst t)" and "shape (fst t)"
  shows "tls_ok os t"
proof -
  have "\<not> is_open (snd s)" if "cc_stream (c_config (fst s)) = None"
    using assms(1) that by (auto simp: tls_ok_def tls_core_def settled_def split: if_splits)
  then show ?thesis
    using assms made_console_config [of os "c_config (fst s)"] by (auto simp: tls_ok_def tls_core_def owned_def)
qed

lemma tls_call:
  assumes ok: "tls_ok os s" and runs: "runs m s (\<lambda>_ t. shape (fst t)) (\<lambda>_ t. shape (fst t))"
    and owns: "owns os True m"
    and call: "\<And>r t. m s = Some (r, t) \<Longrightarrow> r \<noteq> UB \<Longrightarrow> settled (fst t)"
  shows "runs m s (\<lambda>_ t. tls_ok os t) (\<lambda>_ t. tls_ok os t)"
proof -
  from runs obtain r t where m: "m s = Some (r, t)" "r \<noteq> UB" "shape (fst t)"
    unfolding runs_iff by (metis res.exhaust)
  from tls_ok_step [OF ok keeps_relD [OF owns m(1)] call [OF m(1,2)] m(3)] m(1,2) show ?thesis
    by (simp add: runs_iff)
qed

section \<open>The invariant of the facade\<close>

text \<open>
  The trust store: no buffer and no anchor, or the buffer of a well-formed store and exactly its
  certificates as anchors. So no anchor points into a buffer that was freed.
\<close>

definition store_ok :: "'o facade \<Rightarrow> bool" where
  "store_ok f \<longleftrightarrow>
     (case fc_trust_store_data f of
        None \<Rightarrow> nv_anchors (fc_verifier f) = [] \<and> fc_trust_store_size f = 0
      | Some d \<Rightarrow> fc_trust_store_size f = length d
          \<and> (\<exists>certs. d = encode_trust_store certs \<and> certs \<noteq> [] \<and> length certs \<le> 16
               \<and> list_all cert_ok certs \<and> nv_anchors (fc_verifier f) = map Span certs))"

text \<open>A pin is a pointer to 32 bytes.\<close>

definition pin_readable :: "options \<Rightarrow> bool" where
  "pin_readable opts \<longleftrightarrow> (\<forall>p. xo_certificate_sha256_pin opts = Some p \<longrightarrow> 32 \<le> length p)"

definition own_ok :: "'o system \<Rightarrow> 'o facade \<Rightarrow> bool" where
  "own_ok os f \<longleftrightarrow> store_ok f \<and> nv_platform (fc_verifier f) = Some (xbox360_platform os)
     \<and> (fc_initialized f \<longrightarrow> fc_network_started f) \<and> pin_readable (fc_defaults f)"

definition facade_ok :: "'o system \<Rightarrow> 'o facade \<times> 'o xworld \<Rightarrow> bool" where
  "facade_ok os s \<longleftrightarrow> tls_ok os (fc_tls (fst s), snd s) \<and> own_ok os (fst s)"

lemma own_ok_updates [simp]:
  "own_ok os (f\<lparr>fc_tls := c\<rparr>) = own_ok os f"
  "own_ok os f \<Longrightarrow> pin_readable p \<Longrightarrow> own_ok os (f\<lparr>fc_defaults := p\<rparr>)"
  "own_ok os (f\<lparr>fc_active := p\<rparr>) = own_ok os f" "own_ok os (f\<lparr>fc_stats := st\<rparr>) = own_ok os f"
  "own_ok os (f\<lparr>fc_last_error := e\<rparr>) = own_ok os f"
  by (simp_all add: own_ok_def store_ok_def cong: option.case_cong)

lemma own_ok_pin [simp]:
  "own_ok os (f\<lparr>fc_verifier := clear_leaf_certificate_sha256_pin (fc_verifier f)\<rparr>) = own_ok os f"
  "own_ok os (f\<lparr>fc_verifier := (fc_verifier f)\<lparr>nv_pin := p, nv_pin_enabled := b\<rparr>\<rparr>) = own_ok os f"
  by (simp_all add: own_ok_def store_ok_def clear_leaf_certificate_sha256_pin_def cong: option.case_cong)

lemma clear_anchors [simp]: "snd (clear_trust_anchors v) = v\<lparr>nv_anchors := []\<rparr>"
  by (simp add: clear_trust_anchors_def)

lemma own_ok_free [simp]:
  "own_ok os f \<Longrightarrow> own_ok os (f\<lparr>fc_trust_store_data := None, fc_trust_store_size := 0,
     fc_verifier := (fc_verifier f)\<lparr>nv_anchors := []\<rparr>\<rparr>)"
  by (simp add: own_ok_def store_ok_def)

lemma own_ok_readable: "own_ok os f \<Longrightarrow> anchors_readable (fc_verifier f)"
  by (auto simp: own_ok_def store_ok_def anchors_readable_def split: option.splits)

lemma tls_ok_system [simp]: "tls_ok os (c, w\<lparr>xw_system := st\<rparr>) = tls_ok os (c, w)"
  by (simp add: tls_ok_def is_open_def)

lemma not_open_closed [simp]: "\<not> is_open (xbox_close os w)"
  by (simp add: is_open_def xbox_close_def)

lemma tls_ok_closed: "tls_ok os (c, w) \<Longrightarrow> tls_ok os (c, xbox_close os w)"
  and tls_core_closed: "tls_core os c \<Longrightarrow> tls_ok os (c, xbox_close os w)"
  by (simp_all add: tls_ok_def is_open_def xbox_close_def)

lemma facade_ok_updates [simp]:
  "facade_ok os (f, w) \<Longrightarrow> pin_readable p \<Longrightarrow> facade_ok os (f\<lparr>fc_defaults := p\<rparr>, w)"
  "facade_ok os (f\<lparr>fc_active := p\<rparr>, w) = facade_ok os (f, w)"
  "facade_ok os (f\<lparr>fc_stats := st\<rparr>, w) = facade_ok os (f, w)"
  "facade_ok os (f\<lparr>fc_last_error := e\<rparr>, w) = facade_ok os (f, w)"
  by (simp_all add: facade_ok_def)

lemma facade_ok_defaults: "facade_ok os s \<Longrightarrow> pin_readable (fc_defaults (fst s))"
  by (simp add: facade_ok_def own_ok_def)

lemma pin_readable_updates [simp]:
  "pin_readable (p\<lparr>xo_trust_store_path := path\<rparr>) = pin_readable p"
  "pin_readable (p\<lparr>xo_port := port, xo_alpn := alpn\<rparr>) = pin_readable p"
  by (simp_all add: pin_readable_def)

lemma facade_ok_new:
  fixes os :: "'o system"
  shows "facade_ok os (facade_new os, \<lparr>xw_socket = INVALID_SOCKET, xw_system = st\<rparr>)"
proof -
  have "terminated (tls_client_new :: 'o xworld client)"
    "c_config (tls_client_new :: 'o xworld client) = client_config_init"
    by (simp_all add: terminated_def tls_client_new_def)
  then show ?thesis
    by (simp add: facade_ok_def facade_new_def tls_ok_def tls_core_def settled_new shape_new own_ok_def
        store_ok_def native_verifier_new_def is_open_def made_config_def pin_readable_def options_init_def)
qed

section \<open>A system that keeps its contract\<close>

text \<open>
  What the facade needs of the system beyond the contract of the platform: a lookup of a name ends,
  because \<open>dns_left\<close> goes down while it is in progress.
\<close>

locale console_system = system_laws os left for os :: "'o system" and left :: "'o \<Rightarrow> nat" +
  fixes dns_left :: "'o \<Rightarrow> nat"
  assumes dns_ends: "os_dns_entry os h st = ((WSAEINPROGRESS, n, a), st') \<Longrightarrow>
    dns_left (os_sleep os 1 st') < dns_left st"
begin

lemma console_of:
  assumes "anchors_readable nv" and "nv_platform nv = Some (xbox360_platform os)"
  shows "environment (xbox360_platform os) (xbox360_stream os) (native_auth_verifier nv) budget"
  by (rule console.console_environment)
    (intro console.intro console_axioms.intro system_laws_axioms, simp_all add: assms)

text \<open>A connected client is good for the environment it was connected in.\<close>

lemma connected_good:
  assumes "tls_ok os s" and "c_state (fst s) = CLIENT_CONNECTED"
  obtains nv where "good (xbox360_stream os) (native_auth_verifier nv) s"
    and "environment (xbox360_platform os) (xbox360_stream os) (native_auth_verifier nv) budget"
proof -
  from assms obtain nv where "cc_verifier (c_config (fst s)) = Some (native_auth_verifier nv)"
    "cc_stream (c_config (fst s)) = Some (xbox360_stream os)"
    "anchors_readable nv" "nv_platform nv = Some (xbox360_platform os)"
    by (auto simp: tls_ok_def tls_core_def settled_def made_config_def client_config_init_def)
  with that [of nv] console_of [of nv] assms(1) show ?thesis by (simp add: good_def tls_ok_def tls_core_def)
qed

lemma tls_connected_call:
  assumes ok: "tls_ok os s" and idle: "c_state (fst s) \<noteq> CLIENT_CONNECTED \<Longrightarrow> \<exists>e. m s = Some (Err e, s)"
    and sound: "\<And>nv. environment (xbox360_platform os) (xbox360_stream os) (native_auth_verifier nv) budget \<Longrightarrow>
      good (xbox360_stream os) (native_auth_verifier nv) s \<Longrightarrow>
      runs m s (\<lambda>_ t. shape (fst t)) (\<lambda>_ t. shape (fst t))"
  shows "runs m s (\<lambda>_ t. shape (fst t)) (\<lambda>_ t. shape (fst t))"
proof (cases "c_state (fst s) = CLIENT_CONNECTED")
  case True
  from connected_good [OF ok this] sound show ?thesis by metis
next
  case False
  with idle ok show ?thesis by (auto simp: runs_def tls_ok_def tls_core_def)
qed

lemma fulfils_shape:
  "fulfils (good sm av) \<mu> P m \<Longrightarrow> good sm av s \<Longrightarrow> runs m s (\<lambda>_ t. shape (fst t)) (\<lambda>_ t. shape (fst t))"
  by (rule runs_mono [OF fulfilsD [of "good sm av"]]) (simp, simp, simp_all add: good_def)

lemma not_connected_error:
  assumes "c_state (fst s) \<noteq> CLIENT_CONNECTED"
  shows "\<exists>e. send alloc data s = Some (Err e, s)" "\<exists>e. recv alloc out s = Some (Err e, s)"
    "\<exists>e. key_update alloc b s = Some (Err e, s)"
  using assms by (simp_all add: send_def recv_def key_update_def bind_prog_def client_def throw_def)

lemma settled_call:
  assumes "tls_ok os s" and "api_call k (fst s) (fst t)"
  shows "settled (fst t)"
  using api_call_settled [OF assms(2)] assms(1) by (simp add: tls_ok_def tls_core_def)

lemma tls_send:
  assumes "tls_ok os s" and "span_valid data"
  shows "runs (send alloc data) s (\<lambda>_ t. tls_ok os t) (\<lambda>_ t. tls_ok os t)"
proof (rule tls_call [OF assms(1)])
  show "runs (send alloc data) s (\<lambda>_ t. shape (fst t)) (\<lambda>_ t. shape (fst t))"
    by (rule tls_connected_call [OF assms(1)])
      (auto intro: not_connected_error fulfils_shape environment.send_sound [OF _ assms(2)])
  show "settled (fst t)" if "send alloc data s = Some (r, t)" "r \<noteq> UB" for r t
    using settled_call [OF assms(1) api_send] that by (metis prod.collapse)
qed (rule owns_intros)

lemma tls_recv:
  assumes "tls_ok os s" and "span_valid out" and "239 \<le> span_size out"
  shows "runs (recv alloc out) s (\<lambda>_ t. tls_ok os t) (\<lambda>_ t. tls_ok os t)"
proof (rule tls_call [OF assms(1)])
  show "runs (recv alloc out) s (\<lambda>_ t. shape (fst t)) (\<lambda>_ t. shape (fst t))"
    by (rule tls_connected_call [OF assms(1)])
      (auto intro: not_connected_error fulfils_shape environment.recv_sound [OF _ assms(2,3)])
  show "settled (fst t)" if "recv alloc out s = Some (r, t)" "r \<noteq> UB" for r t
    using settled_call [OF assms(1) api_recv] that by (metis prod.collapse)
qed (rule owns_intros)

lemma tls_key_update:
  assumes "tls_ok os s"
  shows "runs (key_update alloc b) s (\<lambda>_ t. tls_ok os t) (\<lambda>_ t. tls_ok os t)"
proof (rule tls_call [OF assms(1)])
  show "runs (key_update alloc b) s (\<lambda>_ t. shape (fst t)) (\<lambda>_ t. shape (fst t))"
    by (rule tls_connected_call [OF assms(1)])
      (auto intro: not_connected_error fulfils_shape environment.key_update_sound)
  show "settled (fst t)" if "key_update alloc b s = Some (r, t)" "r \<noteq> UB" for r t
    using settled_call [OF assms(1) api_key_update] that by (metis prod.collapse)
qed (rule owns_intros)

lemma tls_close:
  assumes "tls_ok os s" and "c_state (fst s) = CLIENT_CONNECTED"
  shows "runs (close alloc) s (\<lambda>_ t. tls_ok os t \<and> c_state (fst t) = CLIENT_CLOSED) (\<lambda>_ t. False)"
proof -
  have "runs (close alloc) s (\<lambda>_ t. tls_ok os t) (\<lambda>_ t. tls_ok os t)"
  proof (rule tls_call [OF assms(1)])
    show "runs (close alloc) s (\<lambda>_ t. shape (fst t)) (\<lambda>_ t. shape (fst t))"
      by (rule tls_connected_call [OF assms(1)])
        (auto simp: assms(2) intro: fulfils_shape environment.close_sound)
    show "settled (fst t)" if "close alloc s = Some (r, t)" "r \<noteq> UB" for r t
      using settled_call [OF assms(1) api_close] that by (metis prod.collapse)
  qed (rule owns_close)
  then show ?thesis
    unfolding runs_iff by (metis close_outcome res.distinct(1))
qed

lemma tls_reset:
  assumes "tls_core os (fst s)" and "is_open (snd s) \<Longrightarrow> c_state (fst s) = CLIENT_CONNECTED"
  shows "runs reset s (\<lambda>_ t. tls_ok os t \<and> c_state (fst t) = CLIENT_IDLE) (\<lambda>_ t. False)"
proof -
  have st: "c_state (fst s) \<noteq> CLIENT_HANDSHAKING" "settled (fst s)" "shape (fst s)"
    using assms(1) by (auto simp: tls_core_def settled_def)
  then have "runs reset s (\<lambda>_ t. shape (fst t)) (\<lambda>_ t. False)"
    using transcript_inv_reset
    by (auto simp: runs_def reset_def bind_prog_def client_def then_prog_def close_stream_def update_def
        shape_def wipe_secrets_def deframer_reset_inv split: option.split)
  then obtain t where t: "reset s = Some (Ok (), t)" "shape (fst t)"
    unfolding runs_iff by (metis (full_types) old.unit.exhaust res.exhaust)
  from reset_outcome [OF t(1)] st have out: "c_state (fst t) = CLIENT_IDLE" "secrets_wiped (fst t)"
    "c_config (fst t) = client_config_init" by auto
  from reset_closes [OF t(1), of os] assms(1) have r: "terminated (fst t)"
    "snd t = (if cc_stream (c_config (fst s)) = None then snd s else xbox_close os (snd s))"
    by (auto simp: tls_core_def dest: made_console_config)
  have "\<not> is_open (snd t)"
    using r(2) assms(2) st by (auto simp: is_open_def xbox_close_def settled_def split: if_splits)
  with t out r show ?thesis by (simp add: runs_def tls_ok_def tls_core_def settled_def made_config_def)
qed

lemma tls_connect:
  assumes core: "tls_core os (fst s)" and idle: "c_state (fst s) = CLIENT_IDLE"
    and nv: "anchors_readable nv" "nv_platform nv = Some (xbox360_platform os)"
    and cfg: "cc_stream cfg = Some (xbox360_stream os)" "cc_platform cfg = Some (xbox360_platform os)"
      "cc_verifier cfg = Some (native_auth_verifier nv)"
  shows "runs (connect alloc cfg) s
    (\<lambda>_ t. tls_ok os t \<and> c_state (fst t) = CLIENT_CONNECTED \<and> c_config (fst t) = cfg)
    (\<lambda>_ t. tls_core os (fst t) \<and> c_state (fst t) \<noteq> CLIENT_CONNECTED)"
proof -
  have made: "made_config os cfg" using cfg nv by (auto simp: made_config_def)
  have "shape (fst s)" using core by (simp add: tls_core_def)
  from environment.connect_runs [OF console_of [OF nv] this cfg(2,1,3), of alloc]
  have "runs (connect alloc cfg) s (\<lambda>_ t. shape (fst t)) (\<lambda>_ t. shape (fst t))"
    by (rule runs_mono) (simp_all add: good_def)
  from runs_returns [OF this, of "\<lambda>t. shape (fst t)"] obtain r t
    where t: "connect alloc cfg s = Some (r, t)" "r \<noteq> UB" and sh: "shape (fst t)" by blast
  have set: "settled (fst t)"
    using api_call_settled [OF api_connect [of alloc cfg "fst s" "snd s" r "fst t" "snd t"]] t core
    by (simp add: tls_core_def)
  from connect_owned [OF t(1) made_console_config [OF made]] core
  have own: "terminated (fst t)" by (simp add: tls_core_def)
  have cfg': "c_config (fst t) = cfg \<or> t = s" using t connect_config by metis
  with core made have m: "made_config os (c_config (fst t))" by (auto simp: tls_core_def)
  from connect_outcome [OF t(1)] t sh set own m idle show ?thesis
    by (cases r) (auto simp: runs_def tls_ok_def tls_core_def)
qed

text \<open>The socket: a connection that succeeds opens it, any failure leaves it closed.\<close>

lemma dns_resolve_runs:
  "runs (dns_resolve os h) w (\<lambda>_ w'. xw_socket w' = xw_socket w) (\<lambda>_ w'. xw_socket w' = xw_socket w)"
proof -
  have poll: "runs (loop_prog (dns_poll os d) ()) v (\<lambda>_ w'. xw_socket w' = xw_socket v) (\<lambda>_ w'. False)" for d v
  proof (rule runs_loop [where I = "\<lambda>_ t. xw_socket t = xw_socket v" and \<mu> = "\<lambda>_ t. dns_left (xw_system t)"])
    fix u and s :: "'o xworld" assume s: "xw_socket s = xw_socket v"
    obtain n a st' status where e: "os_dns_entry os d (xw_system s) = ((status, n, a), st')"
      by (metis prod_cases3 surj_pair)
    show "runs (dns_poll os d u) s (\<lambda>z t. case z of
        Inl l' \<Rightarrow> xw_socket t = xw_socket v \<and> dns_left (xw_system t) < dns_left (xw_system s)
      | Inr x \<Rightarrow> xw_socket t = xw_socket v) (\<lambda>_ _. False)"
      using s dns_ends [of d "xw_system s" n a st'] by (simp add: dns_poll_def runs_def e Let_def)
  qed simp
  obtain r d st where l: "os_dns_lookup os h (xw_system w) = ((r, d), st)" by (metis surj_pair)
  define k :: "('o xworld, u32) prog" where "k = (if r \<noteq> 0 \<or> d = None then throw XT_ERR_IO
      else bind_prog (loop_prog (dns_poll os (the d)) ()) (\<lambda>(status, cina, addr).
             then_prog (update_state (\<lambda>w. w\<lparr>xw_system := os_dns_release os (the d) (xw_system w)\<rparr>))
               (if status \<noteq> 0 \<or> cina = 0 then throw XT_ERR_IO else ret addr)))"
  have "dns_resolve os h w = k (w\<lparr>xw_system := st\<rparr>)"
    by (simp add: dns_resolve_def l k_def Let_def)
  moreover have "runs k (w\<lparr>xw_system := st\<rparr>) (\<lambda>_ w'. xw_socket w' = xw_socket w) (\<lambda>_ w'. xw_socket w' = xw_socket w)"
    unfolding k_def by (auto split: prod.split intro!: runs_mono [OF poll])
  ultimately show ?thesis by (simp add: runs_def)
qed

lemma connect_tcp_runs:
  "runs (connect_tcp os host port) w (\<lambda>_ w'. is_open w')
     (\<lambda>e w'. if host = None \<or> host = Some [] then w' = w else \<not> is_open w')"
proof -
  have open_runs: "runs (open_socket os a port) v (\<lambda>_ w'. is_open w') (\<lambda>e w'. \<not> is_open w')" for a v
    by (auto simp: open_socket_def runs_def Let_def is_open_def xbox_close_def split: prod.split)
  have closed: "\<not> is_open (xbox_close os w)" by (simp add: is_open_def xbox_close_def)
  show ?thesis
  proof (cases "host = None \<or> host = Some []")
    case False
    then show ?thesis
      using closed by (auto simp: connect_tcp_def is_open_def intro!: runs_mono [OF dns_resolve_runs]
          runs_mono [OF open_runs, unfolded is_open_def])
  qed (simp add: connect_tcp_def)
qed

end

lemma set_io_timeouts_result:
  "set_io_timeouts os a b w = (r, w') \<Longrightarrow> r \<noteq> UB \<and> xw_socket w' = xw_socket w"
  by (auto simp: set_io_timeouts_def Let_def split: if_splits prod.splits)

section \<open>Every member function keeps the invariant\<close>

text \<open>\<open>keeps_ok m\<close>: from a state in which the invariant holds, \<open>m\<close> returns, stays in its buffers and keeps it.\<close>

definition keeps_ok :: "'o system \<Rightarrow> ('o, 'a) fcl \<Rightarrow> bool" where
  "keeps_ok os m \<longleftrightarrow> (\<forall>s. facade_ok os s \<longrightarrow> runs m s (\<lambda>_ t. facade_ok os t) (\<lambda>_ t. facade_ok os t))"

lemma keeps_okI: "(\<And>s. facade_ok os s \<Longrightarrow> runs m s (\<lambda>_ t. facade_ok os t) (\<lambda>_ t. facade_ok os t)) \<Longrightarrow> keeps_ok os m"
  and keeps_okD: "keeps_ok os m \<Longrightarrow> facade_ok os s \<Longrightarrow> runs m s (\<lambda>_ t. facade_ok os t) (\<lambda>_ t. facade_ok os t)"
  unfolding keeps_ok_def by blast+

named_theorems ok_intros \<open>what keeps the invariant of the facade\<close>

lemma keeps_ok_simple [ok_intros]:
  "keeps_ok os (ret x)" "keeps_ok os facade" "keeps_ok os (remember e)" "keeps_ok os (sys g)" "keeps_ok os (sys_do h)"
  "keeps_ok os (throw e0)" "keeps_ok os (set_stats u)" "keeps_ok os (close_socket os)" "keeps_ok os free_trust_store"
  by (auto simp: keeps_ok_def facade_ok_def tls_ok_closed free_trust_store_def split: prod.split option.split)

lemma keeps_ok_bind [ok_intros]:
  assumes "keeps_ok os m" and "\<And>x. keeps_ok os (f x)"
  shows "keeps_ok os (bind_prog m f)"
  by (rule keeps_okI, simp only: runs_simps, rule runs_mono [OF keeps_okD [OF assms(1)]])
    (assumption, rule keeps_okD [OF assms(2)], assumption+)

lemma keeps_ok_then [ok_intros]: "keeps_ok os m \<Longrightarrow> keeps_ok os k \<Longrightarrow> keeps_ok os (then_prog m k)"
  unfolding then_prog_def by (rule keeps_ok_bind)

lemma keeps_ok_on_error [ok_intros]:
  assumes "keeps_ok os m" and "\<And>e. keeps_ok os (h e)"
  shows "keeps_ok os (on_error m h)"
  by (rule keeps_okI, simp only: runs_simps, rule runs_mono [OF keeps_okD [OF assms(1)]])
    (assumption+, rule keeps_okD [OF assms(2)], assumption)

lemma keeps_ok_error_of [ok_intros]: "keeps_ok os m \<Longrightarrow> keeps_ok os (error_of m)"
  unfolding error_of_def by (intro keeps_ok_on_error keeps_ok_then keeps_ok_simple)

lemma keeps_ok_if [ok_intros]:
  "(b \<Longrightarrow> keeps_ok os m) \<Longrightarrow> (\<not> b \<Longrightarrow> keeps_ok os k) \<Longrightarrow> keeps_ok os (if b then m else k)"
  by simp

lemma keeps_ok_case [ok_intros]:
  "(x = None \<Longrightarrow> keeps_ok os m) \<Longrightarrow> (\<And>y. x = Some y \<Longrightarrow> keeps_ok os (f y)) \<Longrightarrow>
   keeps_ok os (case x of None \<Rightarrow> m | Some y \<Rightarrow> f y)"
  "(\<And>a. z = Inl a \<Longrightarrow> keeps_ok os (g a)) \<Longrightarrow> (\<And>b. z = Inr b \<Longrightarrow> keeps_ok os (h b)) \<Longrightarrow>
   keeps_ok os (case z of Inl a \<Rightarrow> g a | Inr b \<Rightarrow> h b)"
  "(\<And>a b. q = (a, b) \<Longrightarrow> keeps_ok os (k a b)) \<Longrightarrow> keeps_ok os (case q of (a, b) \<Rightarrow> k a b)"
  by (auto split: option.split sum.split prod.split)

lemma keeps_ok_set [ok_intros]:
  "(\<And>f. fc_tls (g f) = fc_tls f) \<Longrightarrow> (\<And>f. own_ok os f \<Longrightarrow> own_ok os (g f)) \<Longrightarrow> keeps_ok os (set_facade g)"
  by (simp add: keeps_ok_def facade_ok_def)

lemma keeps_ok_tls:
  "(\<And>s. tls_ok os s \<Longrightarrow> runs m s (\<lambda>_ t. tls_ok os t) (\<lambda>_ t. tls_ok os t)) \<Longrightarrow> keeps_ok os (on_tls m)"
  by (auto simp: keeps_ok_def facade_ok_def intro: runs_mono)

lemma use_trust_store_ok: "keeps_ok os (use_trust_store data)"
proof (rule keeps_okI)
  fix s assume ok: "facade_ok os s"
  let ?v = "(fc_verifier (fst s))\<lparr>nv_anchors := []\<rparr>"
  obtain r v' where l: "load_compact_trust_store (Span data) ?v = (r, v')" by fastforce
  from load_trust_store_failed [OF l] have ub: "r \<noteq> UB" "\<And>e. r = Err e \<Longrightarrow> v' = ?v" by auto
  show "runs (use_trust_store data) s (\<lambda>_ t. facade_ok os t) (\<lambda>_ t. facade_ok os t)"
  proof (cases r)
    case (Ok n)
    from l [unfolded Ok load_trust_store_Ok_iff] obtain certs where c: "data = encode_trust_store certs"
      "length certs = n" "n \<le> 16" "list_all cert_ok certs" "v' = ?v\<lparr>nv_anchors := map Span certs\<rparr>"
      by blast
    then have "certs = []" if "n = 0" using that by simp
    with ok c Ok l show ?thesis
      by (auto simp: use_trust_store_def free_trust_store_def load_trust_store_def facade_ok_def own_ok_def
          store_ok_def)
  qed (use ok ub l in \<open>auto simp: use_trust_store_def free_trust_store_def load_trust_store_def facade_ok_def
      own_ok_def store_ok_def\<close>)
qed

lemma load_trust_store_file_ok: "keeps_ok os (load_trust_store_file alloc fs path)"
  unfolding load_trust_store_file_def read_file_def by (intro ok_intros use_trust_store_ok)

lemma reload_trust_store_ok: "keeps_ok os (reload_trust_store alloc fs path)"
  unfolding reload_trust_store_def by (intro ok_intros load_trust_store_file_ok)

context console_system
begin

lemma connected_close_ok:
  assumes "facade_ok os s" and "c_state (fc_tls (fst s)) = CLIENT_CONNECTED"
  shows "runs (on_tls (close alloc)) s
    (\<lambda>_ t. facade_ok os t \<and> c_state (fc_tls (fst t)) = CLIENT_CLOSED) (\<lambda>_ t. False)"
  using assms by (auto simp: facade_ok_def intro!: runs_mono [OF tls_close])

lemma reset_ok:
  assumes "facade_ok os s"
  shows "runs (on_tls reset) s
    (\<lambda>_ t. facade_ok os t \<and> c_state (fc_tls (fst t)) = CLIENT_IDLE) (\<lambda>_ t. False)"
  using assms by (auto simp: facade_ok_def tls_ok_def intro!: runs_mono [OF tls_reset])

lemma runs_ifI:
  "(b \<Longrightarrow> runs m s Q E) \<Longrightarrow> (\<not> b \<Longrightarrow> runs k s Q E) \<Longrightarrow> runs (if b then m else k) s Q E"
  by simp

lemma runs_tls_frame:
  assumes "runs (on_tls m) s Q E"
  shows "runs (on_tls m) s (\<lambda>x t. Q x t \<and> (\<exists>c. fst t = (fst s)\<lparr>fc_tls := c\<rparr>)) (\<lambda>e t. E e t \<and> (\<exists>c. fst t = (fst s)\<lparr>fc_tls := c\<rparr>))"
  using assms unfolding runs_on_tls by (rule runs_mono) auto

lemma runs_errorI: "runs m s (\<lambda>_ t. P t) (\<lambda>_ t. P t) \<Longrightarrow> runs (error_of m) s (\<lambda>_ t. P t) (\<lambda>_ t. P t)"
  by simp

lemma facade_close_ok: "keeps_ok os (facade_close alloc os)"
proof (rule keeps_okI)
  fix s assume ok: "facade_ok os s"
  have rest: "keeps_ok os (then_prog (close_socket os) (remember e))" for e by (intro ok_intros)
  show "runs (facade_close alloc os) s (\<lambda>_ t. facade_ok os t) (\<lambda>_ t. facade_ok os t)"
    unfolding facade_close_def runs_simps facade_runs
  proof (rule runs_mono [where Q = "\<lambda>_ t. facade_ok os t" and E = "\<lambda>_ t. facade_ok os t"])
    let ?c = "fc_tls (fst s)"
    show "runs (if c_state ?c = CLIENT_CONNECTED \<and> xo_send_close_notify (fc_active (fst s))
        then error_of (on_tls (close alloc))
        else if c_state ?c \<noteq> CLIENT_IDLE then error_of (on_tls reset) else ret None) s
      (\<lambda>_ t. facade_ok os t) (\<lambda>_ t. facade_ok os t)"
      by (intro runs_ifI runs_errorI runs_mono [OF connected_close_ok [OF ok]] runs_mono [OF reset_ok [OF ok]])
        (simp_all add: ok)
  qed (assumption | rule keeps_okD [OF rest])+
qed

lemma shutdown_ok: "keeps_ok os (shutdown alloc os)"
proof -
  have "keeps_ok os (then_prog (if fc_network_started f then
      then_prog (sys_do (xbox360_network_cleanup os)) (set_facade (\<lambda>f. f\<lparr>fc_network_started := False\<rparr>))
      else ret ()) (set_facade (\<lambda>f. f\<lparr>fc_initialized := False\<rparr>)))" for f
    by (auto simp: keeps_ok_def facade_ok_def own_ok_def store_ok_def cong: option.case_cong)
  note last = keeps_ok_bind [OF keeps_ok_simple(2) this]
  show ?thesis
    unfolding shutdown_def
    by (rule keeps_ok_bind [OF keeps_ok_error_of [OF facade_close_ok] keeps_ok_then [OF keeps_ok_simple(9) last]])
qed

lemma initialize_ok:
  assumes pin: "pin_readable opts"
  shows "keeps_ok os (initialize alloc os fs opts)"
proof -
  have start: "runs (start_network os) s (\<lambda>e t. facade_ok os t \<and> (e = None \<longrightarrow> fc_network_started (fst t)))
      (\<lambda>_ _. False)" if "facade_ok os s" for s
    using that
    by (auto simp: start_network_def facade_ok_def own_ok_def store_ok_def xbox360_network_startup_def Let_def
        split: prod.split cong: option.case_cong)
  have load: "runs (load_trust_store_file alloc fs path) s
      (\<lambda>_ t. facade_ok os t \<and> frame fc_network_started s t) (\<lambda>_ t. facade_ok os t \<and> frame fc_network_started s t)"
    if "facade_ok os s" for s path
    by (rule runs_conj [OF keeps_okD [OF load_trust_store_file_ok that] frame_load]) simp
  have failed: "keeps_ok os (then_prog (shutdown alloc os) (remember e))" for e
    by (intro ok_intros shutdown_ok)
  have init: "runs (then_prog (set_facade (\<lambda>f. f\<lparr>fc_initialized := True\<rparr>)) (remember None)) s
      (\<lambda>_ t. facade_ok os t) (\<lambda>_ t. facade_ok os t)" if "facade_ok os s" "fc_network_started (fst s)" for s
    using that by (simp add: facade_ok_def own_ok_def store_ok_def cong: option.case_cong)
  show ?thesis
  proof (rule keeps_okI)
    fix s assume ok: "facade_ok os s"
    then have ok: "facade_ok os ((fst s)\<lparr>fc_defaults := opts\<rparr>, snd s)" using pin by (simp add: facade_ok_def)
    show "runs (initialize alloc os fs opts) s (\<lambda>_ t. facade_ok os t) (\<lambda>_ t. facade_ok os t)"
      unfolding initialize_def runs_then runs_simps facade_runs
    proof (rule runs_mono [OF start [OF ok]], goal_cases)
      case (1 e t)
      show ?case
      proof (cases e)
        case None
        show ?thesis
          unfolding None by (simp del: runs_then, rule runs_mono [OF load])
            (use 1 None init keeps_okD [OF failed] in \<open>auto simp: frame_def simp del: runs_then\<close>)
      qed (use 1 in simp)
    qed simp
  qed
qed

lemma drop_connection_ok:
  assumes ok: "facade_ok os s" and "c_state (fc_tls (fst s)) = CLIENT_CONNECTED"
  shows "runs (drop_connection alloc os opts) s (\<lambda>_ t. facade_ok os t \<and> frame fc_stats s t
      \<and> frame fc_initialized s t \<and> frame fc_verifier s t) (\<lambda>_ t. False)"
proof -
  let ?m = "on_tls (if xo_send_close_notify opts then close alloc else reset) :: ('o, unit) fcl"
  have frames: "keeps_rel (frame fc_stats) ?m" "keeps_rel (frame fc_initialized) ?m" "keeps_rel (frame fc_verifier) ?m"
    by (intro frame_intros; simp)+
  have "runs ?m s (\<lambda>_ t. facade_ok os t) (\<lambda>_ t. False)"
  proof (cases "xo_send_close_notify opts")
    case True
    show ?thesis unfolding if_P [OF True] by (rule runs_mono [OF connected_close_ok [OF assms]]) simp_all
  next
    case False
    show ?thesis unfolding if_not_P [OF False] by (rule runs_mono [OF reset_ok [OF ok]]) simp_all
  qed
  from runs_conj [OF runs_conj [OF runs_conj [OF this frames(1)] frames(2)] frames(3)] show ?thesis
    unfolding drop_connection_def runs_simps runs_error_of
    by (rule runs_mono) (auto simp: facade_ok_def tls_ok_closed frame_def)
qed

end

section \<open>What connecting gives\<close>

text \<open>The client uses one of the protocols of the list.\<close>

definition alpn_chosen :: "options \<Rightarrow> 'w client \<Rightarrow> bool" where
  "alpn_chosen opts c \<longleftrightarrow> (\<exists>l name. xo_alpn opts = Some l \<and> negotiated_alpn c = Ok name
     \<and> name \<noteq> [] \<and> name \<in> set (alpn_names l))"

definition success_stats :: "options \<Rightarrow> stats \<Rightarrow> stats" where
  "success_stats opts st =
     st\<lparr>st_key_updates_sent := st_key_updates_sent st + of_bool (xo_request_peer_key_update opts),
        st_successful_connections := st_successful_connections st + 1\<rparr>"

definition failure_stats :: "stats \<Rightarrow> stats" where
  "failure_stats st = st\<lparr>st_failed_connections := st_failed_connections st + 1\<rparr>"

lemma failed_connection_runs [simp]:
  "runs (failed_connection (Some e)) s Q E \<longleftrightarrow>
     E e ((fst s)\<lparr>fc_stats := failure_stats (fc_stats (fst s)), fc_last_error := e\<rparr>, snd s)"
  by (simp add: failed_connection_def failure_stats_def)

lemma negotiated_alpn_ok: "terminated c \<Longrightarrow> \<exists>name. negotiated_alpn c = Ok name"
  by (simp add: terminated_def negotiated_alpn_def)

context console_system
begin

lemma key_update_ok:
  assumes ok: "facade_ok os s" and conn: "c_state (fc_tls (fst s)) = CLIENT_CONNECTED"
  shows "runs (on_tls (key_update alloc b)) s
    (\<lambda>_ t. facade_ok os t \<and> c_state (fc_tls (fst t)) = CLIENT_CONNECTED
       \<and> c_config (fc_tls (fst t)) = c_config (fc_tls (fst s))
       \<and> c_negotiated_alpn (fc_tls (fst t)) = c_negotiated_alpn (fc_tls (fst s)) \<and> (\<exists>c. fst t = (fst s)\<lparr>fc_tls := c\<rparr>))
    (\<lambda>_ t. facade_ok os t \<and> c_state (fc_tls (fst t)) = CLIENT_FAILED \<and> (\<exists>c. fst t = (fst s)\<lparr>fc_tls := c\<rparr>))"
proof -
  let ?s = "(fc_tls (fst s), snd s)"
  from ok have "tls_ok os ?s" by (simp add: facade_ok_def)
  from tls_key_update [OF this, of alloc b] obtain r t where t: "key_update alloc b ?s = Some (r, t)" "r \<noteq> UB"
    and tls: "tls_ok os t"
    unfolding runs_iff by (metis res.exhaust)
  have "keeps_rel (agree c_negotiated_alpn) close_stream" by (auto simp: keeps_rel_def agree_def)
  then have "keeps_rel (agree c_negotiated_alpn) (key_update alloc b)"
    unfolding key_update_def update_client_traffic_def or_fail_def fail_def Let_def
    by (intro keeps_intros; simp add: wipe_secrets_def)
  from keeps_relD [OF this t(1)] key_update_connected [OF t] conn tls ok t show ?thesis
    unfolding runs_on_tls by (cases r) (auto simp: runs_def facade_ok_def agree_def same_session_iff)
qed

lemma after_connect_runs:
  assumes ok: "facade_ok os s" and conn: "c_state (fc_tls (fst s)) = CLIENT_CONNECTED"
  shows "runs (after_connect alloc os opts) s
    (\<lambda>_ t. facade_ok os t \<and> c_state (fc_tls (fst t)) = CLIENT_CONNECTED \<and> fc_last_error (fst t) = XT_OK
       \<and> c_config (fc_tls (fst t)) = c_config (fc_tls (fst s)) \<and> fc_active (fst t) = fc_active (fst s)
       \<and> (xo_require_alpn opts \<longrightarrow> alpn_chosen opts (fc_tls (fst t)))
       \<and> fc_stats (fst t) = success_stats opts (fc_stats (fst s)))
    (\<lambda>e t. facade_ok os t \<and> c_state (fc_tls (fst t)) \<noteq> CLIENT_CONNECTED \<and> fc_last_error (fst t) = e
       \<and> fc_stats (fst t) = failure_stats (fc_stats (fst s)))"
proof -
  from ok have "terminated (fc_tls (fst s))" by (simp add: facade_ok_def tls_ok_def tls_core_def)
  then obtain name where name: "negotiated_alpn (fc_tls (fst s)) = Ok name" using negotiated_alpn_ok by blast
  define refused where "refused \<longleftrightarrow> xo_require_alpn opts \<and> \<not> alpn_list_contains (xo_alpn opts) (Some name)"
  have chosen: "alpn_chosen opts c" if "xo_require_alpn opts" "\<not> refused"
      "c_negotiated_alpn c = c_negotiated_alpn (fc_tls (fst s))" for c :: "'o xworld client"
    using that name by (auto simp: refused_def alpn_list_contains_iff alpn_chosen_def negotiated_alpn_def split: if_splits)
  have start: "runs (after_connect alloc os opts) s Q E \<longleftrightarrow>
      (if refused then runs (then_prog (then_prog (on_tls (close alloc)) (close_socket os))
          (failed_connection (Some XT_ERR_BAD_HANDSHAKE))) s Q E
       else if xo_request_peer_key_update opts then
         runs (on_tls (key_update alloc True)) s
           (\<lambda>_ t. Q () ((fst t)\<lparr>fc_stats := success_stats opts (fc_stats (fst t)), fc_last_error := XT_OK\<rparr>, snd t))
           (\<lambda>e t. runs (failed_connection (Some e)) t Q E)
       else Q () ((fst s)\<lparr>fc_stats := success_stats opts (fc_stats (fst s)), fc_last_error := XT_OK\<rparr>, snd s))" for Q E
    unfolding after_connect_def
    by (cases "xo_require_alpn opts"; cases "xo_request_peer_key_update opts")
      (simp_all add: name refused_def success_stats_def del: runs_on_tls)
  show ?thesis
  proof (cases refused)
    case True
    show ?thesis
      unfolding start if_P [OF True] runs_then
      by (rule runs_mono [OF runs_tls_frame [OF connected_close_ok [OF ok conn]]])
        (auto simp: facade_ok_def tls_ok_closed)
  next
    case False
    have chosen: "xo_require_alpn opts \<longrightarrow> alpn_chosen opts c"
      if "c_negotiated_alpn c = c_negotiated_alpn (fc_tls (fst s))" for c :: "'o xworld client"
      using chosen [OF _ False that] by blast
    show ?thesis
    proof (cases "xo_request_peer_key_update opts")
      case True
      show ?thesis
        unfolding start if_not_P [OF False] if_P [OF True]
        by (rule runs_mono [OF key_update_ok [OF ok conn]]) (use chosen in auto)
    next
      case not: False
      show ?thesis
        unfolding start if_not_P [OF False] if_not_P [OF not] using ok conn chosen [OF refl] by simp
    qed
  qed
qed

end

text \<open>The verifier that a connection with these options uses.\<close>

definition pinned :: "options \<Rightarrow> 'w native_verifier \<Rightarrow> 'w native_verifier" where
  "pinned opts nv =
     (case xo_certificate_sha256_pin opts of
        None \<Rightarrow> nv\<lparr>nv_pin := replicate 32 0, nv_pin_enabled := False\<rparr>
      | Some p \<Rightarrow> nv\<lparr>nv_pin := take 32 p, nv_pin_enabled := True\<rparr>)"

lemma set_pin_runs:
  assumes "pin_readable opts"
  shows "runs (set_pin opts) s Q E \<longleftrightarrow> Q None ((fst s)\<lparr>fc_verifier := pinned opts (fc_verifier (fst s))\<rparr>, snd s)"
  using assms
  by (auto simp: set_pin_def pinned_def pin_readable_def clear_leaf_certificate_sha256_pin_def subspan_def slice_def
      set_leaf_certificate_sha256_pin_def split: option.split)

lemma own_ok_pinned [simp]: "own_ok os (f\<lparr>fc_verifier := pinned opts (fc_verifier f)\<rparr>) = own_ok os f"
  by (auto simp: pinned_def own_ok_def store_ok_def split: option.splits)

context console_system
begin

abbreviation connection_good :: "cstring \<Rightarrow> options \<Rightarrow> 'o facade \<times> 'o xworld \<Rightarrow> 'o facade \<times> 'o xworld \<Rightarrow> bool" where
  "connection_good host opts s t \<equiv> facade_ok os t \<and> c_state (fc_tls (fst t)) = CLIENT_CONNECTED
     \<and> c_config (fc_tls (fst t)) = facade_config os host opts
         ((fst s)\<lparr>fc_verifier := pinned opts (fc_verifier (fst s))\<rparr>)
     \<and> fc_active (fst t) = opts \<and> fc_last_error (fst t) = XT_OK
     \<and> (xo_require_alpn opts \<longrightarrow> alpn_chosen opts (fc_tls (fst t)))
     \<and> fc_stats (fst t) = success_stats opts (fc_stats (fst s))"

abbreviation connection_bad :: "'o facade \<times> 'o xworld \<Rightarrow> error \<Rightarrow> 'o facade \<times> 'o xworld \<Rightarrow> bool" where
  "connection_bad s e t \<equiv> facade_ok os t \<and> c_state (fc_tls (fst t)) \<noteq> CLIENT_CONNECTED
     \<and> fc_last_error (fst t) = e \<and> fc_stats (fst t) = failure_stats (fc_stats (fst s))"

lemma connect_step_runs:
  fixes f :: "'o facade"
  assumes own: "own_ok os f" and core: "tls_core os (fc_tls f)" and idle: "c_state (fc_tls f) = CLIENT_IDLE"
  shows "runs (on_tls (connect alloc (facade_config os host opts f))) (f, w)
    (\<lambda>_ t. facade_ok os t \<and> c_state (fc_tls (fst t)) = CLIENT_CONNECTED
       \<and> c_config (fc_tls (fst t)) = facade_config os host opts f \<and> (\<exists>c. fst t = f\<lparr>fc_tls := c\<rparr>))
    (\<lambda>_ t. facade_ok os (fst t, xbox_close os (snd t)) \<and> c_state (fc_tls (fst t)) \<noteq> CLIENT_CONNECTED
       \<and> (\<exists>c. fst t = f\<lparr>fc_tls := c\<rparr>))"
proof -
  have nv: "anchors_readable (fc_verifier f)" "nv_platform (fc_verifier f) = Some (xbox360_platform os)"
    using own own_ok_readable by (auto simp: own_ok_def)
  show ?thesis
    unfolding runs_on_tls
    by (rule runs_mono [OF tls_connect [OF _ _ nv]])
      (use own core idle in \<open>auto simp: facade_config_def facade_ok_def tls_core_closed\<close>)
qed

lemma open_connection_runs:
  assumes ok: "facade_ok os s" and idle: "c_state (fc_tls (fst s)) = CLIENT_IDLE"
    and pin: "pin_readable opts" and host: "host \<noteq> None" "host \<noteq> Some []"
  shows "runs (open_connection alloc os host opts) s (\<lambda>_ t. connection_good host opts s t) (\<lambda>e t. connection_bad s e t)"
proof -
  let ?f = "(fst s)\<lparr>fc_verifier := pinned opts (fc_verifier (fst s))\<rparr>"
  have core: "tls_core os (fc_tls ?f)" and own: "own_ok os ?f"
    using ok by (simp_all add: facade_ok_def tls_ok_def)
  let ?P = "\<lambda>_ t. connection_good host opts s t"
  let ?E = "\<lambda>e t. connection_bad s e t"
  have failed: "runs (failed_connection (Some e)) (?f, w) ?P ?E" if "\<not> is_open w" for e w
    using core own idle that by (simp add: facade_ok_def tls_ok_def)
  have rest: "runs (bind_prog facade (\<lambda>f.
      bind_prog (error_of (on_tls (connect alloc (facade_config os host opts f)))) (\<lambda>e.
        if e \<noteq> None then then_prog (close_socket os) (failed_connection e)
        else then_prog (set_facade (\<lambda>f. f\<lparr>fc_active := opts\<rparr>)) (after_connect alloc os opts)))) (?f, w) ?P ?E" for w
    unfolding runs_simps facade_runs runs_error_of fst_conv
  proof (rule runs_mono [OF connect_step_runs [OF own]], goal_cases)
    case (3 u t)
    then have "runs (after_connect alloc os opts) ((fst t)\<lparr>fc_active := opts\<rparr>, snd t) ?P ?E"
      by (cases t) (auto intro!: runs_mono [OF after_connect_runs])
    then show ?case by simp
  next
    case (4 e t)
    then show ?case by auto
  qed (use core idle in auto)
  have timeouts: "runs (bind_prog (error_of (on_world (act_prog (set_io_timeouts os a b)))) (\<lambda>e.
        if e \<noteq> None then then_prog (close_socket os) (failed_connection e) else m)) (?f, w) ?P ?E"
    if "\<And>w. runs m (?f, w) ?P ?E" for a b w m
  proof -
    obtain r w' where r: "set_io_timeouts os a b w = (r, w')" by fastforce
    from set_io_timeouts_result [OF r] have "r \<noteq> UB" by blast
    then show ?thesis
      using that failed [of "xbox_close os w'"] by (cases r) (simp_all add: r)
  qed
  have tcp: "runs (bind_prog (error_of (on_world (connect_tcp os host port))) (\<lambda>e.
        if e \<noteq> None then failed_connection e else m)) (?f, w) ?P ?E"
    if "\<And>w. runs m (?f, w) ?P ?E" for port w m
    unfolding runs_simps runs_error_of runs_on_world
    by (rule runs_mono [OF connect_tcp_runs]) (use that failed host in \<open>auto simp del: failed_connection_runs\<close>)
  have pin: "runs (bind_prog (set_pin opts) (\<lambda>e. if e \<noteq> None then failed_connection e else m)) s ?P ?E"
    if "runs m (?f, snd s) ?P ?E" for m
    using that by (simp add: set_pin_runs [OF pin])
  have group: "runs (failed_connection (Some XT_ERR_INVALID_ARGUMENT)) s ?P ?E"
    using ok idle by (cases s) simp
  show ?thesis
    unfolding open_connection_def by (rule runs_ifI [OF group]) (intro pin tcp timeouts rest)
qed

end

text \<open>
  The whole call: what it gives, whom it counts, and what it leaves. A call that is refused leaves the
  client as it was; one that fails later leaves it not connected and the socket closed.
\<close>

definition connect_refused :: "cstring \<Rightarrow> options \<Rightarrow> 'o facade \<Rightarrow> bool" where
  "connect_refused host opts f \<longleftrightarrow> \<not> fc_initialized f \<or> host = None \<or> host = Some []
     \<or> c_state (fc_tls f) = CLIENT_CONNECTED \<and> \<not> xo_auto_reconnect opts"

definition attempt_stats :: "stats \<Rightarrow> stats" where
  "attempt_stats st = st\<lparr>st_connect_attempts := st_connect_attempts st + 1\<rparr>"

text \<open>A refusal because a connection is open is not counted as a failure.\<close>

definition refused_stats :: "cstring \<Rightarrow> 'o facade \<Rightarrow> stats" where
  "refused_stats host f =
     (if \<not> fc_initialized f \<or> host = None \<or> host = Some [] then failure_stats (attempt_stats (fc_stats f))
      else attempt_stats (fc_stats f))"

context console_system
begin

lemma facade_connect_runs:
  assumes ok: "facade_ok os s" and pin: "pin_readable opts"
  shows "runs (facade_connect alloc os host opts) s
    (\<lambda>_ t. facade_ok os t \<and> \<not> connect_refused host opts (fst s) \<and> c_state (fc_tls (fst t)) = CLIENT_CONNECTED
       \<and> c_config (fc_tls (fst t)) = facade_config os host opts
           ((fst s)\<lparr>fc_verifier := pinned opts (fc_verifier (fst s))\<rparr>)
       \<and> fc_active (fst t) = opts \<and> fc_last_error (fst t) = XT_OK
       \<and> (xo_require_alpn opts \<longrightarrow> alpn_chosen opts (fc_tls (fst t)))
       \<and> fc_stats (fst t) = success_stats opts (attempt_stats (fc_stats (fst s))))
    (\<lambda>e t. facade_ok os t \<and> fc_last_error (fst t) = e
       \<and> (if connect_refused host opts (fst s)
          then e = XT_ERR_INVALID_ARGUMENT \<and> fc_tls (fst t) = fc_tls (fst s) \<and> snd t = snd s
            \<and> fc_stats (fst t) = refused_stats host (fst s)
          else c_state (fc_tls (fst t)) \<noteq> CLIENT_CONNECTED
            \<and> fc_stats (fst t) = failure_stats (attempt_stats (fc_stats (fst s)))))"
proof -
  let ?a = "((fst s)\<lparr>fc_stats := attempt_stats (fc_stats (fst s))\<rparr>, snd s)"
  have a: "facade_ok os ?a" using ok by (cases s) simp
  define P where "P = (\<lambda>t. facade_ok os t \<and> frame fc_stats ?a t \<and> frame fc_verifier ?a t)"
  let ?go = "then_prog (if c_state (fc_tls (fst s)) = CLIENT_CONNECTED then drop_connection alloc os opts else ret ())
      (bind_prog facade (\<lambda>f.
       bind_prog (if c_state (fc_tls f) \<noteq> CLIENT_IDLE then error_of (on_tls reset) else ret None) (\<lambda>e.
         if e \<noteq> None then remember e else open_connection alloc os host opts)))"
  have sel: "fc_initialized (f\<lparr>fc_stats := st\<rparr>) = fc_initialized f" "fc_tls (f\<lparr>fc_stats := st\<rparr>) = fc_tls f"
    for f :: "'o facade" and st by simp_all
  have start: "runs (facade_connect alloc os host opts) s Q E \<longleftrightarrow>
      runs (if \<not> fc_initialized (fst s) \<or> host = None \<or> host = Some []
            then failed_connection (Some XT_ERR_INVALID_ARGUMENT)
            else if c_state (fc_tls (fst s)) = CLIENT_CONNECTED \<and> \<not> xo_auto_reconnect opts
            then remember (Some XT_ERR_INVALID_ARGUMENT) else ?go) ?a Q E" for Q E
    by (simp only: facade_connect_def attempt_stats_def runs_then runs_simps(5) facade_runs fst_conv sel)
  show ?thesis
  proof (cases "connect_refused host opts (fst s)")
    case True
    with a show ?thesis
      unfolding start by (cases s) (auto simp: connect_refused_def refused_stats_def)
  next
    case False
    then have host: "host \<noteq> None" "host \<noteq> Some []" by (auto simp: connect_refused_def)
    have drop: "runs (if c_state (fc_tls (fst s)) = CLIENT_CONNECTED then drop_connection alloc os opts else ret ()) ?a
        (\<lambda>_ t. P t) (\<lambda>_ _. False)"
      by (intro runs_ifI runs_mono [OF drop_connection_ok [OF a]]) (use a in \<open>auto simp: P_def frame_def\<close>)
    have reset: "runs (if c_state (fc_tls (fst t)) \<noteq> CLIENT_IDLE then error_of (on_tls reset) else ret None) t
        (\<lambda>e u. P u \<and> e = None \<and> c_state (fc_tls (fst u)) = CLIENT_IDLE) (\<lambda>_ _. False)" if "P t" for t
    proof (rule runs_ifI)
      from that have "facade_ok os t" by (simp add: P_def)
      from runs_tls_frame [OF reset_ok [OF this]]
      show "runs (error_of (on_tls reset)) t
          (\<lambda>e u. P u \<and> e = None \<and> c_state (fc_tls (fst u)) = CLIENT_IDLE) (\<lambda>_ _. False)"
        unfolding runs_error_of by (rule runs_mono) (use that in \<open>auto simp: P_def frame_def\<close>)
    qed (use that in simp)
    have connect: "runs (open_connection alloc os host opts) u
        (\<lambda>_ t. connection_good host opts ?a t) (\<lambda>e t. connection_bad ?a e t)"
      if "P u" "c_state (fc_tls (fst u)) = CLIENT_IDLE" for u
      by (rule runs_mono [OF open_connection_runs [OF _ that(2) pin host]])
        (use that in \<open>auto simp: P_def frame_def facade_config_def\<close>)
    have "runs (facade_connect alloc os host opts) s
        (\<lambda>_ t. connection_good host opts ?a t) (\<lambda>e t. connection_bad ?a e t)"
    proof -
      from False have no: "\<not> (\<not> fc_initialized (fst s) \<or> host = None \<or> host = Some [])"
        "\<not> (c_state (fc_tls (fst s)) = CLIENT_CONNECTED \<and> \<not> xo_auto_reconnect opts)"
        by (auto simp: connect_refused_def)
      show ?thesis
        unfolding start if_not_P [OF no(1)] if_not_P [OF no(2)] runs_then runs_simps(5) facade_runs
        by (rule runs_mono [OF drop], rule runs_mono [OF reset]) (use connect in auto)
    qed
    then show ?thesis by (rule runs_mono) (use False in \<open>auto simp: facade_config_def\<close>)
  qed
qed

lemma facade_connect_ok:
  assumes "pin_readable opts"
  shows "keeps_ok os (facade_connect alloc os host opts)"
  by (rule keeps_okI, rule runs_mono [OF facade_connect_runs [OF _ assms]]) simp_all

lemma facade_send_ok: "span_valid data \<Longrightarrow> keeps_ok os (facade_send alloc data)"
  unfolding facade_send_def by (intro ok_intros keeps_ok_tls tls_send)

lemma facade_receive_ok:
  "span_valid out \<Longrightarrow> 239 \<le> span_size out \<Longrightarrow> keeps_ok os (facade_receive alloc out)"
  unfolding facade_receive_def by (intro ok_intros keeps_ok_tls tls_recv)

lemma facade_key_update_ok: "keeps_ok os (facade_key_update alloc b)"
  unfolding facade_key_update_def by (intro ok_intros keeps_ok_tls tls_key_update)

end

section \<open>The life of a facade\<close>

text \<open>
  The calls of the interface with the arguments that a caller may give: readable spans, pins of 32
  bytes, and room for 239 bytes to receive.
\<close>

inductive facade_api :: "(nat \<Rightarrow> bool) \<Rightarrow> 'o system \<Rightarrow> 'o files \<Rightarrow> ('o, unit) fcl \<Rightarrow> bool"
  for alloc os fs where
  fa_initialize: "pin_readable opts \<Longrightarrow> facade_api alloc os fs (initialize alloc os fs opts)"
| fa_initialize_default: "facade_api alloc os fs (initialize_default alloc os fs)"
| fa_initialize_path: "facade_api alloc os fs (initialize_path alloc os fs path)"
| fa_reload: "facade_api alloc os fs (reload_trust_store alloc fs path)"
| fa_connect: "pin_readable opts \<Longrightarrow> facade_api alloc os fs (facade_connect alloc os host opts)"
| fa_connect_to: "facade_api alloc os fs (facade_connect_to alloc os host port alpn)"
| fa_send: "span_valid data \<Longrightarrow> facade_api alloc os fs (facade_send alloc data)"
| fa_send_data: "span_valid data \<or> span_null data \<Longrightarrow> facade_api alloc os fs (facade_send_data alloc data)"
| fa_receive: "span_valid out \<Longrightarrow> 239 \<le> span_size out \<Longrightarrow>
    facade_api alloc os fs (then_prog (facade_receive alloc out) (ret ()))"
| fa_receive_data: "span_null out \<and> span_size out \<noteq> 0 \<or> span_valid out \<and> 239 \<le> span_size out \<Longrightarrow>
    facade_api alloc os fs (then_prog (facade_receive_data alloc out) (ret ()))"
| fa_key_update: "facade_api alloc os fs (facade_key_update alloc b)"
| fa_close: "facade_api alloc os fs (facade_close alloc os)"
| fa_shutdown: "facade_api alloc os fs (shutdown alloc os)"
| fa_set_default_options: "pin_readable opts \<Longrightarrow> facade_api alloc os fs (set_facade (set_default_options opts))"
| fa_reset_stats: "facade_api alloc os fs (set_facade reset_stats)"

text \<open>Between two calls the system may change in any way; the socket belongs to the object.\<close>

inductive facade_reachable :: "'o system \<Rightarrow> 'o facade \<times> 'o xworld \<Rightarrow> bool" for os where
  fr_new: "facade_reachable os (facade_new os, \<lparr>xw_socket = INVALID_SOCKET, xw_system = st\<rparr>)"
| fr_call: "facade_reachable os s \<Longrightarrow> facade_api alloc os fs m \<Longrightarrow> m s = Some (r, t) \<Longrightarrow> facade_reachable os t"
| fr_system: "facade_reachable os (f, w) \<Longrightarrow> facade_reachable os (f, w\<lparr>xw_system := st\<rparr>)"

context console_system
begin

lemma facade_api_ok: "facade_api alloc os fs m \<Longrightarrow> keeps_ok os m"
proof (induction rule: facade_api.induct)
  case fa_initialize_default
  show ?case
    unfolding initialize_default_def runs_simps
    by (rule keeps_okI) (simp add: keeps_okD [OF initialize_ok] facade_ok_defaults)
next
  case (fa_initialize_path path)
  show ?case
    unfolding initialize_path_def
    by (rule keeps_okI) (simp add: keeps_okD [OF initialize_ok] facade_ok_defaults)
next
  case (fa_connect_to host port alpn)
  show ?case
    unfolding facade_connect_to_def
    by (rule keeps_okI) (simp add: keeps_okD [OF facade_connect_ok] facade_ok_defaults)
next
  case (fa_send_data data)
  then show ?case
    unfolding facade_send_data_def
    by (cases data) (auto intro!: ok_intros facade_send_ok simp: span_valid_def)
next
  case (fa_receive_data out)
  then show ?case
    unfolding facade_receive_data_def by (auto intro!: ok_intros facade_receive_ok simp: span_valid_def)
next
  case (fa_receive out)
  then show ?case by (intro ok_intros facade_receive_ok)
qed (auto intro!: initialize_ok reload_trust_store_ok facade_connect_ok facade_send_ok facade_key_update_ok
    facade_close_ok shutdown_ok keeps_ok_set simp: set_default_options_def reset_stats_def)

lemma facade_reachable_ok: "facade_reachable os s \<Longrightarrow> facade_ok os s"
proof (induction rule: facade_reachable.induct)
  case (fr_call s alloc fs m r t)
  from keeps_okD [OF facade_api_ok [OF fr_call(2)] fr_call(4)] fr_call(3) show ?case
    unfolding runs_iff by (cases r) auto
next
  case (fr_system f w st)
  then show ?case by (simp add: facade_ok_def)
qed (rule facade_ok_new)

end

interpretation script: console_system script_system script_left "\<lambda>_. 0"
  by unfold_locales (simp add: script_system_def WSAEINPROGRESS_def)

end
