(* ===== verification/Flight.thy ===== *)
theory Flight
  imports Session
begin

text \<open>
  The handshake of the client: the secrets and keys it installs, the transcript it keeps, and what
  the server's flight must contain. The keys are those of RFC 8446, but for the early secret, whose
  input is empty where the RFC has zeros. The flight is accepted with the server's Finished alone:
  no certificate is asked for.
\<close>

section \<open>Running the small steps\<close>

lemmas step_defs = bind_prog_def then_prog_def client_def update_def of_res_def ret_def throw_def
  check_error_def

lemma set_traffic_keys_run:
  "length (secret c) = 32 \<Longrightarrow>
   set_traffic_keys secret sel upd (c, w) = Some (Ok (), (upd (rfc_traffic_keys (secret c)) c, w))"
  by (simp add: set_traffic_keys_def step_defs derive_traffic_keys_eq)

lemma outside_Ok: "outside m s = Some (Ok x, s') \<longleftrightarrow> fst s' = fst s \<and> m (snd s) = (Ok x, snd s')"
  by (cases s') (auto simp: outside_def split: prod.splits)

lemma transcript_add_run:
  "transcript_add b (c, w) = Some (Ok (), (c\<lparr>c_transcript := transcript_update (c_transcript c) b\<rparr>, w))"
  by (simp add: transcript_add_def step_defs)

section \<open>The keys of the handshake\<close>

text \<open>The secrets of RFC 8446, section 7.1, for a given early secret.\<close>

definition handshake_schedule :: "bytes \<Rightarrow> bytes \<Rightarrow> bytes \<Rightarrow> key_schedule \<Rightarrow> key_schedule" where
  "handshake_schedule early shared th ks =
     (let hs = rfc_handshake_secret early shared in
      ks\<lparr>early_secret := early, handshake_secret := hs,
         client_handshake_traffic_secret := rfc_derive_secret hs ''c hs traffic'' th,
         server_handshake_traffic_secret := rfc_derive_secret hs ''s hs traffic'' th\<rparr>)"

lemma handshake_keys_run:
  assumes "sha_inv m (c_transcript c)" and "sh_group sh = g"
    and "shared_secret (c_private_key c) sh = Ok shared"
  shows "handshake_keys sh g (c, w) =
    (let ks = handshake_schedule (hmac_spec (replicate 32 0) []) shared (sha256_spec m) (c_schedule c)
     in Some (Ok (), (c\<lparr>c_deframer := deframer_reset (c_deframer c), c_schedule := ks,
         c_client_hs_keys := rfc_traffic_keys (client_handshake_traffic_secret ks),
         c_server_hs_keys := rfc_traffic_keys (server_handshake_traffic_secret ks)\<rparr>, w)))"
proof -
  have th: "transcript_snapshot (c_transcript c) = sha256_spec m"
    using assms(1) by (simp add: transcript_snapshot_eq sha256_correct)
  have "length (sha256_spec m) = 32" by (simp flip: sha256_correct)
  with assms(2,3) th show ?thesis
    by (simp add: handshake_keys_def step_defs set_traffic_keys_run derive_early_secret_eq
        derive_handshake_secret_eq handshake_schedule_def Let_def)
qed

definition application_schedule :: "bytes \<Rightarrow> key_schedule \<Rightarrow> key_schedule" where
  "application_schedule th ks =
     (let ms = rfc_master_secret (handshake_secret ks) in
      ks\<lparr>master_secret := ms,
         client_application_traffic_secret := rfc_derive_secret ms ''c ap traffic'' th,
         server_application_traffic_secret := rfc_derive_secret ms ''s ap traffic'' th\<rparr>)"

section \<open>The end of the handshake\<close>

text \<open>
  \<open>c\<close> has received the server's Finished, \<open>m\<close> is the transcript through it. The client's Finished
  is the RFC's, over \<open>m\<close>; it goes out under the handshake keys, and the application keys come from
  the master secret and \<open>m\<close>.
\<close>

definition finished_client :: "'w client \<Rightarrow> bytes \<Rightarrow> 'w client" where
  "finished_client c m =
     (let ks = application_schedule (sha256_spec m) (c_schedule c) in
      c\<lparr>c_schedule := ks,
        c_client_app_keys := rfc_traffic_keys (client_application_traffic_secret ks),
        c_server_app_keys := rfc_traffic_keys (server_application_traffic_secret ks)\<rparr>)"

lemma finish_handshake_run:
  fixes m :: bytes
  defines "th \<equiv> sha256_spec m"
  assumes inv: "sha_inv m (c_transcript c)" and st: "c_state c = CLIENT_HANDSHAKING"
    and sm: "cc_stream (c_config c) = Some sm"
    and out: "\<And>bs w. sm_send_all sm bs w = (Ok (), app w bs)" and alloc: "\<And>n. alloc n"
    and secret: "length (client_handshake_traffic_secret (c_schedule c)) = 32"
  defines "fin \<equiv> encode_handshake hs_finished (rfc_verify_data (client_handshake_traffic_secret (c_schedule c)) th)"
  shows "finish_handshake alloc (c, w) =
    Some (Ok (), ((finished_client c m)\<lparr>
        c_client_hs_keys := (c_client_hs_keys c)\<lparr>tk_seq := tk_seq (c_client_hs_keys c) + 1\<rparr>,
        c_transcript := transcript_update (c_transcript c) (Span fin)\<rparr>,
      app w (sealed_record (c_client_hs_keys c) content_handshake fin 0)))"
proof -
  have snap: "transcript_snapshot (c_transcript c) = th"
    using inv by (simp add: transcript_snapshot_eq sha256_correct th_def)
  have th: "length th = 32" by (simp add: th_def flip: sha256_correct)
  have fin: "length fin = 36" by (simp add: fin_def)
  have protect: "protect_record_aes128_gcm alloc (c_client_hs_keys c) content_handshake (Span fin) 0
      (Span (replicate 16645 0)) = (Ok (sealed_record (c_client_hs_keys c) content_handshake fin 0),
        (c_client_hs_keys c)\<lparr>tk_seq := tk_seq (c_client_hs_keys c) + 1\<rparr>)"
    by (simp add: protect_record_eq fin alloc content_handshake_def)
  have build: "build_finished_sha256 (Span (client_handshake_traffic_secret (c_schedule c))) (Span th)
      (Span (replicate 64 0)) = Ok fin"
    by (simp add: build_finished_eq secret th fin_def)
  show ?thesis
    by (simp add: finish_handshake_def step_defs set_traffic_keys_run derive_master_secret_eq th snap build
        send_protected_def st protect with_stream_def sm outside_def out transcript_add_def Let_def
        finished_client_def application_schedule_def th_def [symmetric])
qed

section \<open>What a flight needs\<close>

lemma handle_finished_run:
  assumes inv: "sha_inv m (c_transcript c)" and body: "hm_body msg = Span b"
    and secret: "length (server_handshake_traffic_secret (c_schedule c)) = 32"
  shows "handle_finished msg fl (c, w) =
    (if hm_type msg \<noteq> hs_finished \<or> length b \<noteq> 32 then Some (Err XT_ERR_BAD_HANDSHAKE, (c, w))
     else if b = rfc_verify_data (server_handshake_traffic_secret (c_schedule c)) (sha256_spec m)
     then Some (Ok (fl\<lparr>fl_got_finished := True\<rparr>),
            (c\<lparr>c_transcript := transcript_update (c_transcript c) (hm_encoded msg)\<rparr>, w))
     else Some (Err XT_ERR_VERIFY, (c, w)))"
proof -
  have th: "length (sha256_spec m) = 32" by (simp flip: sha256_correct)
  show ?thesis
    by (simp add: handle_finished_def step_defs transcript_snapshot_eq [OF inv] sha256_correct
        verify_finished_eq secret th body transcript_add_def)
qed

text \<open>
  A flight that is nothing but a Finished message: it ends the flight, although no certificate was
  seen and no verifier was asked.
\<close>

lemma finished_alone:
  assumes inv: "sha_inv m (c_transcript c)"
    and secret: "length (server_handshake_traffic_secret (c_schedule c)) = 32"
    and d: "deframer_inv (c_deframer c)"
    and buffered: "deframer_content (c_deframer c) = encode_handshake hs_finished
      (rfc_verify_data (server_handshake_traffic_secret (c_schedule c)) (sha256_spec m))"
  shows "\<exists>fl c'. flight_messages flight_init (c, w) = Some (Ok fl, (c', w))
    \<and> fl_got_finished fl \<and> \<not> fl_have_cert fl \<and> c_certificate_storage c' = c_certificate_storage c"
proof -
  let ?b = "rfc_verify_data (server_handshake_traffic_secret (c_schedule c)) (sha256_spec m)"
  let ?fl = "flight_init\<lparr>fl_got_finished := True\<rparr>"
  let ?c = "c\<lparr>c_transcript := transcript_update (c_transcript c) (Span (encode_handshake hs_finished ?b))\<rparr>"
  have parse: "parse_handshake_message (Span (deframer_content (c_deframer c)))
      = Ok (handshake_of hs_finished ?b, 36)"
    using parse_encode_handshake [of ?b hs_finished "[]"] by (simp add: buffered)
  have peek: "deframer_peek (c_deframer c) = Ok (handshake_of hs_finished ?b)"
    using df.front_eq [OF d] by (simp add: parse)
  from df.pop_Ok [OF d parse] obtain q where q: "deframer_consume (c_deframer c) = (Ok (), q)" by blast
  have "handle_handshake_message (handshake_of hs_finished ?b) flight_init (c, w) = Some (Ok ?fl, (?c, w))"
    using handle_finished_run [OF inv _ secret, of "handshake_of hs_finished ?b" ?b flight_init w]
    by (simp add: handle_handshake_message_def handshake_of_def hs_type_defs)
  then have "flight_messages_body flight_init (c, w) = Some (Ok (Inr ?fl), (?c\<lparr>c_deframer := q\<rparr>, w))"
    by (simp add: flight_messages_body_def step_defs peek deframe_consume_def q)
  then have "flight_messages flight_init (c, w) = Some (Ok ?fl, (?c\<lparr>c_deframer := q\<rparr>, w))"
    by (simp add: flight_messages_def loop_prog.simps)
  then show ?thesis by (auto simp: flight_init_def)
qed

text \<open>A CertificateVerify is accepted only after a certificate, and only by the verifier.\<close>

lemma certificate_verify_needs:
  assumes "handle_certificate_verify msg fl (c, w) = Some (Ok fl', (c', w'))"
  shows "fl_have_cert fl \<and> fl' = fl \<and> (\<exists>cv. parse_certificate_verify msg = Ok cv
    \<and> authenticate_server_flight (fl_cert_info fl) cv (Span (transcript_snapshot (c_transcript c)))
        (cc_hostname (c_config c)) (cc_verifier (c_config c)) w = (Ok (), w'))"
  using assms
  by (auto simp: handle_certificate_verify_def bind_prog_Ok then_prog_Ok outside_Ok transcript_add_def
      split: if_splits)

lemma handle_certificate_verify_iff:
  "handle_certificate_verify msg fl (c, w) = Some (Ok fl', (c', w')) \<longleftrightarrow>
    fl_have_cert fl \<and> fl' = fl
    \<and> c' = c\<lparr>c_transcript := transcript_update (c_transcript c) (hm_encoded msg)\<rparr>
    \<and> (\<exists>cv. parse_certificate_verify msg = Ok cv
      \<and> authenticate_server_flight (fl_cert_info fl) cv (Span (transcript_snapshot (c_transcript c)))
          (cc_hostname (c_config c)) (cc_verifier (c_config c)) w = (Ok (), w'))"
  by (auto simp: handle_certificate_verify_def bind_prog_Ok then_prog_Ok outside_Ok transcript_add_run
      split: if_splits)

section \<open>HelloRetryRequest\<close>

text \<open>The transcript restarts with the hash of the first ClientHello (RFC 8446, section 4.4.1).\<close>

lemma retry_transcript_run:
  assumes "sha_inv m (c_transcript c)"
  shows "\<exists>t. retry_transcript (Span hrr) (c, w) = Some (Ok (), (c\<lparr>c_transcript := t\<rparr>, w))
    \<and> sha_inv (encode_handshake 0xfe (sha256_spec m) @ hrr) t"
proof -
  have "length (sha256_spec m) = 32" by (simp flip: sha256_correct)
  then have e: "[0xfe, 0, 0, 32] @ sha256_spec m = encode_handshake 0xfe (sha256_spec m)"
    by (simp add: encode_handshake_def store_be24_def)
  have "sha_inv ((([] @ ([0xfe, 0, 0, 32] @ sha256_spec m)) @ hrr))
      (transcript_update (transcript_update transcript_reset (Span ([0xfe, 0, 0, 32] @ sha256_spec m))) (Span hrr))"
    using transcript_inv_update [OF transcript_inv_update [OF transcript_inv_reset], of
        "Span ([0xfe, 0, 0, 32] @ sha256_spec m)" "Span hrr"] by simp
  then show ?thesis
    unfolding e using transcript_snapshot_eq [OF assms] e
    by (auto simp: retry_transcript_def step_defs transcript_add_def sha256_correct intro!: exI)
qed

end
