(* ===== verification/Completion.thy ===== *)
theory Completion
  imports Flight Traffic
begin

text \<open>
  The handshake as a whole: against a server that answers a ClientHello with a ServerHello and a flight
  of EncryptedExtensions, Certificate, CertificateVerify and Finished, in whatever records and pieces,
  \<open>connect\<close> returns, connected. First the flight in general: a sequence of messages that the client
  accepts one after the other (locale \<open>flight_run\<close>), read from records of any size; then the four
  messages; then the hello.
\<close>

section \<open>The records of a flight\<close>

primrec flight_records :: "traffic_keys \<Rightarrow> nat \<Rightarrow> bytes list \<Rightarrow> bytes list" where
  "flight_records keys padding [] = []"
| "flight_records keys padding (p # ps) =
     sealed_record keys content_handshake p padding
       # flight_records (keys\<lparr>tk_seq := tk_seq keys + 1\<rparr>) padding ps"

definition encode_messages :: "(u8 \<times> bytes) list \<Rightarrow> bytes" where
  "encode_messages ms = concat (map (\<lambda>(t, b). encode_handshake t b) ms)"

lemma encode_messages_Cons: "encode_messages ((t, b) # ms) = encode_handshake t b @ encode_messages ms"
  by (simp add: encode_messages_def)

lemma parse_incomplete:
  assumes "bs @ rest = encode_handshake t body @ tail" and "length bs < 4 + length body" and "length body < 16777216"
  shows "parse_handshake_message (Span bs) = Err XT_ERR_BUFFER_TOO_SMALL"
proof (cases "length bs < 4")
  case True
  then show ?thesis by (simp add: parse_handshake_Span)
next
  case False
  let ?e = "encode_handshake t body"
  have "bs ! k = ?e ! k" if "k < 4" for k
    using arg_cong [OF assms(1), of "\<lambda>xs. xs ! k"] that False by (simp add: nth_append)
  then have "unat (be24 (bs ! 1) (bs ! 2) (bs ! 3)) = unat (be24 (?e ! 1) (?e ! 2) (?e ! 3))" by simp
  also have "\<dots> = length body"
    using be24_length [OF assms(3)] by (simp add: encode_handshake_def store_be24_def)
  finally show ?thesis using False assms(2) by (simp add: parse_handshake_Span Let_def)
qed

section \<open>A flight of acceptable messages\<close>

text \<open>
  \<open>fls i\<close> are the out-parameters after \<open>i\<close> messages, \<open>J i\<close> what holds of the client then, apart from its
  buffers and the keys with which it reads.
\<close>

locale flight_run = byte_source sm queue
  for sm :: "'w stream" and queue :: "'w \<Rightarrow> bytes" +
  fixes cfg :: "'w client_config" and msgs :: "(u8 \<times> bytes) list"
    and fls :: "nat \<Rightarrow> flight" and J :: "nat \<Rightarrow> 'w client \<Rightarrow> bool"
  assumes stream: "cc_stream cfg = Some sm"
    and config: "J i c \<Longrightarrow> c_config c = cfg"
    and short: "(t, b) \<in> set msgs \<Longrightarrow> length b < 16777216"
    and frame_deframer: "J i c \<Longrightarrow> J i (c\<lparr>c_deframer := d\<rparr>)"
    and frame_keys: "J i c \<Longrightarrow> J i (c\<lparr>c_server_hs_keys := k\<rparr>)"
    and accepts: "i < length msgs \<Longrightarrow> msgs ! i = (t, b) \<Longrightarrow> J i c \<Longrightarrow>
      \<exists>c'. handle_handshake_message (handshake_of t b) (fls i) (c, w) = Some (Ok (fls (Suc i)), (c', w))
        \<and> J (Suc i) c' \<and> c_deframer c' = c_deframer c \<and> c_server_hs_keys c' = c_server_hs_keys c"
    and finished: "i \<le> length msgs \<Longrightarrow> fl_got_finished (fls i) \<longleftrightarrow> i = length msgs"
begin

lemma messages_run:
  assumes "i < length msgs" and "J i c" and "deframer_inv (c_deframer c)"
    and "deframer_content (c_deframer c) @ rest = encode_messages (drop i msgs)"
  shows "\<exists>j c'. flight_messages (fls i) (c, w) = Some (Ok (fls j), (c', w)) \<and> j \<le> length msgs \<and> J j c'
    \<and> deframer_inv (c_deframer c') \<and> deframer_content (c_deframer c') @ rest = encode_messages (drop j msgs)
    \<and> deframer_room (c_deframer c) \<le> deframer_room (c_deframer c')
    \<and> c_server_hs_keys c' = c_server_hs_keys c \<and> (rest = [] \<longrightarrow> j = length msgs)"
  using assms
proof (induction "length msgs - i" arbitrary: i c rule: less_induct)
  case less
  let ?d = "c_deframer c"
  obtain t b where tb: "msgs ! i = (t, b)" by fastforce
  have drop: "drop i msgs = (t, b) # drop (Suc i) msgs" using less.prems(1) tb by (simp add: Cons_nth_drop_Suc [symmetric])
  have b: "length b < 16777216" using short [of t b] nth_mem [OF less.prems(1)] tb by simp
  have cont: "deframer_content ?d @ rest = encode_handshake t b @ encode_messages (drop (Suc i) msgs)"
    using less.prems(4) by (simp add: drop encode_messages_Cons)
  show ?case
  proof (cases "length (deframer_content ?d) < 4 + length b")
    case True
    then have "deframer_peek ?d = Err XT_ERR_BUFFER_TOO_SMALL"
      using parse_incomplete [OF cont True b] df.front_eq [OF less.prems(3)] by simp
    then have "flight_messages (fls i) (c, w) = Some (Ok (fls i), (c, w))"
      by (simp add: flight_messages_def loop_prog.simps flight_messages_body_def step_defs)
    moreover have "rest \<noteq> []" using cont True by auto
    ultimately show ?thesis using less.prems by (intro exI [of _ i] exI [of _ c]) simp
  next
    case False
    define tail where "tail = drop (4 + length b) (deframer_content ?d)"
    have "take (4 + length b) (deframer_content ?d) = encode_handshake t b" "tail @ rest = encode_messages (drop (Suc i) msgs)"
      using arg_cong [OF cont, of "take (4 + length b)"] arg_cong [OF cont, of "drop (4 + length b)"] False
      by (simp_all add: tail_def)
    then have tail: "deframer_content ?d = encode_handshake t b @ tail" "tail @ rest = encode_messages (drop (Suc i) msgs)"
      using append_take_drop_id [of "4 + length b" "deframer_content ?d"] by (simp_all add: tail_def)
    have parse: "parse_handshake_message (Span (deframer_content ?d)) = Ok (handshake_of t b, 4 + length b)"
      unfolding tail(1) by (rule parse_encode_handshake [OF b])
    then have peek: "deframer_peek ?d = Ok (handshake_of t b)" using df.front_eq [OF less.prems(3)] by simp
    obtain q where q: "deframer_consume ?d = (Ok (), q)" "deframer_inv q" "deframer_content q = tail"
      "deframer_room q = deframer_room ?d + (4 + length b)"
      using df.pop_Ok [OF less.prems(3) parse] tail(1) by auto
    obtain c1 where c1: "handle_handshake_message (handshake_of t b) (fls i) (c, w) = Some (Ok (fls (Suc i)), (c1, w))"
      "J (Suc i) c1" "c_deframer c1 = ?d" "c_server_hs_keys c1 = c_server_hs_keys c"
      using accepts [OF less.prems(1) tb less.prems(2)] by blast
    let ?c2 = "c1\<lparr>c_deframer := q\<rparr>"
    have body: "flight_messages_body (fls i) (c, w)
        = Some (Ok (if Suc i = length msgs then Inr (fls (Suc i)) else Inl (fls (Suc i))), (?c2, w))"
      using finished [of "Suc i"] less.prems(1)
      by (simp add: flight_messages_body_def step_defs peek c1(1) deframe_consume_def c1(3) q(1))
    have room: "deframer_room ?d \<le> deframer_room q" by (simp add: q)
    show ?thesis
    proof (cases "Suc i = length msgs")
      case True
      then have "flight_messages (fls i) (c, w) = Some (Ok (fls (Suc i)), (?c2, w))"
        by (simp add: flight_messages_def loop_prog.simps body)
      with True tail(2) q c1 room frame_deframer [OF c1(2), of q] show ?thesis
        by (intro exI [of _ "Suc i"] exI [of _ ?c2]) simp
    next
      case False
      then have i: "Suc i < length msgs" using less.prems(1) by simp
      have "length msgs - Suc i < length msgs - i" using less.prems(1) by simp
      from less.hyps [OF this i, of ?c2] frame_deframer [OF c1(2), of q] q(2,3) tail(2) obtain j c' where
        j: "flight_messages (fls (Suc i)) (?c2, w) = Some (Ok (fls j), (c', w))" "j \<le> length msgs" "J j c'"
          "deframer_inv (c_deframer c')" "deframer_content (c_deframer c') @ rest = encode_messages (drop j msgs)"
          "deframer_room q \<le> deframer_room (c_deframer c')"
          "c_server_hs_keys c' = c_server_hs_keys c1" "rest = [] \<longrightarrow> j = length msgs" by auto
      have "flight_messages (fls i) (c, w) = Some (Ok (fls j), (c', w))"
        using j(1) False by (simp add: flight_messages_def loop_prog.simps [of _ "fls i"] body)
      with j room q(3) c1(4) show ?thesis by (intro exI [of _ j] exI [of _ c']) simp
    qed
  qed
qed

lemma record_run:
  assumes i: "i < length msgs" "J i c" and d: "deframer_inv (c_deframer c)" "length p \<le> deframer_room (c_deframer c)"
    and cont: "deframer_content (c_deframer c) @ p @ rest = encode_messages (drop i msgs)" and p: "length p + padding \<le> 16623"
  shows "\<exists>j c'. flight_record (fls i) (sealed_record (c_server_hs_keys c) content_handshake p padding) (c, w)
      = Some (Ok (if j = length msgs then Inr (fls j) else Inl (fls j)), (c', w))
    \<and> j \<le> length msgs \<and> J j c' \<and> deframer_inv (c_deframer c')
    \<and> deframer_content (c_deframer c') @ rest = encode_messages (drop j msgs)
    \<and> deframer_room (c_deframer c) \<le> deframer_room (c_deframer c') + length p
    \<and> c_server_hs_keys c' = advance (c_server_hs_keys c) 1 \<and> (rest = [] \<longrightarrow> j = length msgs)"
proof -
  let ?rec = "sealed_record (c_server_hs_keys c) content_handshake p padding"
  let ?c1 = "c\<lparr>c_server_hs_keys := advance (c_server_hs_keys c) 1\<rparr>"
  obtain h where h: "parse_record_header (Span ?rec) = Ok h" "rh_type h = content_application_data"
    using sealed_record_header [OF p] by blast
  have "opened_record (c_server_hs_keys c) ?rec 16640 = Ok (content_handshake, p)"
    using p by (intro opened_sealed) (simp_all add: content_handshake_def)
  then have opened: "open_record c_server_hs_keys (\<lambda>k c. c\<lparr>c_server_hs_keys := k\<rparr>) ?rec (c, w)
      = Some (Ok (content_handshake, p), (?c1, w))"
    by (simp add: open_record_def unprotect_record_eq step_defs advance_def)
  obtain q where q: "deframer_append (c_deframer c) (Span p) = (XT_OK, q)" "deframer_inv q"
    "deframer_content q = deframer_content (c_deframer c) @ p" "deframer_room q = deframer_room (c_deframer c) - length p"
    using df.app_fits [OF d] by auto
  let ?c2 = "?c1\<lparr>c_deframer := q\<rparr>"
  have "J i ?c2" using i(2) by (intro frame_deframer frame_keys)
  from messages_run [OF i(1) this, of rest w] q cont obtain j c' where
    j: "flight_messages (fls i) (?c2, w) = Some (Ok (fls j), (c', w))" "j \<le> length msgs" "J j c'"
      "deframer_inv (c_deframer c')" "deframer_content (c_deframer c') @ rest = encode_messages (drop j msgs)"
      "deframer_room q \<le> deframer_room (c_deframer c')"
      "c_server_hs_keys c' = advance (c_server_hs_keys c) 1" "rest = [] \<longrightarrow> j = length msgs" by auto
  have types: "content_application_data \<noteq> content_change_cipher_spec" "content_application_data \<noteq> content_alert"
    "content_handshake \<noteq> content_alert"
    by (simp_all add: content_application_data_def content_change_cipher_spec_def content_alert_def content_handshake_def)
  have "flight_record (fls i) ?rec (c, w) = Some (Ok (if j = length msgs then Inr (fls j) else Inl (fls j)), (c', w))"
    using opened h(2) types j(1) finished [OF j(2)]
    by (simp add: flight_record_def h(1) step_defs deframe_append_def q(1))
  moreover have "deframer_room (c_deframer c) \<le> deframer_room q + length p" using d(2) by (simp add: q)
  ultimately show ?thesis using j by (intro exI [of _ j] exI [of _ c']) simp
qed

lemma flight_loop:
  assumes "i < length msgs" and "J i c" and "deframer_inv (c_deframer c)"
    and "deframer_content (c_deframer c) @ concat ps = encode_messages (drop i msgs)"
    and "length (concat ps) \<le> deframer_room (c_deframer c)"
    and "\<forall>p \<in> set ps. length p + padding \<le> 16623"
    and "queue w = concat (flight_records (c_server_hs_keys c) padding ps) @ rest"
    and "ps \<noteq> []" and "last ps \<noteq> []"
  shows "\<exists>c' w'. loop_prog flight_body (fls i) (c, w) = Some (Ok (fls (length msgs)), (c', w'))
    \<and> J (length msgs) c' \<and> deframer_inv (c_deframer c') \<and> queue w' = rest"
  using assms
proof (induction ps arbitrary: i c w)
  case Nil
  then show ?case by simp
next
  case (Cons p ps)
  let ?rec = "sealed_record (c_server_hs_keys c) content_handshake p padding"
  let ?queue = "concat (flight_records ((c_server_hs_keys c)\<lparr>tk_seq := tk_seq (c_server_hs_keys c) + 1\<rparr>) padding ps) @ rest"
  have p: "length p + padding \<le> 16623" "length p \<le> deframer_room (c_deframer c)" using Cons.prems(5,6) by simp_all
  have "cc_stream (c_config c) = Some sm" using config [OF Cons.prems(2)] stream by simp
  from read_record_queue [OF this sealed_record_whole [OF p(1)], of w "c_server_hs_keys c" content_handshake ?queue] Cons.prems(7)
  obtain w1 where w1: "read_record 16645 (c, w) = Some (Ok ?rec, (c, w1))" "queue w1 = ?queue" by auto
  have "deframer_content (c_deframer c) @ p @ concat ps = encode_messages (drop i msgs)" using Cons.prems(4) by simp
  from record_run [OF Cons.prems(1,2,3) p(2) this p(1), of w1] obtain j c1 where
    j: "flight_record (fls i) ?rec (c, w1) = Some (Ok (if j = length msgs then Inr (fls j) else Inl (fls j)), (c1, w1))"
      "j \<le> length msgs" "J j c1" "deframer_inv (c_deframer c1)"
      "deframer_content (c_deframer c1) @ concat ps = encode_messages (drop j msgs)"
      "deframer_room (c_deframer c) \<le> deframer_room (c_deframer c1) + length p"
      "c_server_hs_keys c1 = advance (c_server_hs_keys c) 1" "concat ps = [] \<longrightarrow> j = length msgs" by blast
  have body: "flight_body (fls i) (c, w) = Some (Ok (if j = length msgs then Inr (fls j) else Inl (fls j)), (c1, w1))"
    by (simp add: flight_body_def bind_prog_def w1(1) j(1))
  show ?case
  proof (cases "j = length msgs")
    case True
    then have "concat ps = []" using j(5) by (simp add: encode_messages_def)
    then have "ps = []" using Cons.prems(9) by (cases ps rule: rev_cases) auto
    with True w1(2) j(3,4) body show ?thesis by (auto simp: loop_prog.simps [of _ "fls i"])
  next
    case False
    then have j': "j < length msgs" "ps \<noteq> []" using j(2,8) by auto
    have "\<exists>c' w'. loop_prog flight_body (fls j) (c1, w1) = Some (Ok (fls (length msgs)), (c', w'))
        \<and> J (length msgs) c' \<and> deframer_inv (c_deframer c') \<and> queue w' = rest"
      using Cons.prems(5,6,9) j(6) j'(2) w1(2)
      by (intro Cons.IH [OF j'(1) j(3,4,5)]) (simp_all add: j(7) advance_def)
    with body False show ?thesis by (simp add: loop_prog.simps [of _ "fls i"])
  qed
qed

end

section \<open>The flight of a server\<close>

text \<open>
  The four messages after the transcript \<open>m\<close>; the Finished message is made with the server's secret over
  the transcript before it.
\<close>

definition server_messages :: "bytes \<Rightarrow> bytes \<Rightarrow> bytes \<Rightarrow> bytes \<Rightarrow> bytes \<Rightarrow> (u8 \<times> bytes) list" where
  "server_messages secret m ee cert cv =
     (let ms = [(hs_encrypted_extensions, ee), (hs_certificate, cert), (hs_certificate_verify, cv)]
      in ms @ [(hs_finished, rfc_verify_data secret (sha256_spec (m @ encode_messages ms)))])"

text \<open>
  What the client asks of the first three: extensions that parse, with a protocol name that fits; a
  certificate message that fits its buffer; a signature over the transcript so far that the verifier
  accepts, whatever the world.
\<close>

definition extensions_ok :: "bytes \<Rightarrow> bool" where
  "extensions_ok ee \<longleftrightarrow> length ee < 16777216
     \<and> (\<exists>i. parse_encrypted_extensions (handshake_of hs_encrypted_extensions ee) = Ok i
          \<and> (ee_has_alpn i \<longrightarrow> (\<exists>a. ee_alpn i = Span a \<and> length a < 256)))"

definition signature_accepted :: "'w client_config \<Rightarrow> certificate_info \<Rightarrow> bytes \<Rightarrow> bytes \<Rightarrow> bool" where
  "signature_accepted cfg info th cv \<longleftrightarrow> length cv < 16777216
     \<and> (\<exists>i. parse_certificate_verify (handshake_of hs_certificate_verify cv) = Ok i
          \<and> (\<forall>w. authenticate_server_flight info i (Span th) (cc_hostname cfg) (cc_verifier cfg) w = (Ok (), w)))"

locale server_flight = byte_source sm queue
  for sm :: "'w stream" and queue :: "'w \<Rightarrow> bytes" +
  fixes cfg :: "'w client_config" and ks :: key_schedule and ck :: traffic_keys
    and m ee cert cv :: bytes and info :: certificate_info
  assumes server_stream: "cc_stream cfg = Some sm"
    and server_secret: "length (server_handshake_traffic_secret ks) = 32"
    and extensions: "extensions_ok ee"
    and certificate: "length cert \<le> 24572" "parse_certificate (handshake_of hs_certificate cert) = Ok info"
    and signature: "signature_accepted cfg info
      (sha256_spec (m @ encode_messages [(hs_encrypted_extensions, ee), (hs_certificate, cert)])) cv"
begin

abbreviation msgs :: "(u8 \<times> bytes) list" where
  "msgs \<equiv> server_messages (server_handshake_traffic_secret ks) m ee cert cv"

definition after :: "nat \<Rightarrow> flight" where
  "after i = (if i < 2 then flight_init
     else flight_init\<lparr>fl_cert_info := info, fl_have_cert := True, fl_got_finished := (i = 4)\<rparr>)"

definition during :: "nat \<Rightarrow> 'w client \<Rightarrow> bool" where
  "during i c \<longleftrightarrow> c_config c = cfg \<and> c_state c = CLIENT_HANDSHAKING \<and> c_schedule c = ks
     \<and> c_client_hs_keys c = ck \<and> length (c_negotiated_alpn c) = 256
     \<and> sha_inv (m @ encode_messages (take i msgs)) (c_transcript c)"

lemma transcript_step:
  assumes "during i c" and "i < length msgs" and "msgs ! i = (t, b)"
  shows "sha_inv (m @ encode_messages (take (Suc i) msgs)) (transcript_update (c_transcript c) (Span (encode_handshake t b)))"
proof -
  have e: "m @ encode_messages (take (Suc i) msgs) = (m @ encode_messages (take i msgs)) @ encode_handshake t b"
    using assms(2,3) by (simp add: take_Suc_conv_app_nth encode_messages_def)
  have "sha_inv (m @ encode_messages (take i msgs)) (c_transcript c)" using assms(1) by (simp add: during_def)
  from transcript_inv_update [OF this, of "Span (encode_handshake t b)"] show ?thesis unfolding e by simp
qed

lemma transcript_hash: "during i c \<Longrightarrow> transcript_snapshot (c_transcript c) = sha256_spec (m @ encode_messages (take i msgs))"
  by (auto simp: during_def transcript_snapshot_eq sha256_correct)

lemma msgs_simps:
  "length msgs = 4" "msgs ! 0 = (hs_encrypted_extensions, ee)" "msgs ! 1 = (hs_certificate, cert)"
  "msgs ! 2 = (hs_certificate_verify, cv)" "fst (msgs ! 3) = hs_finished"
  "take 2 msgs = [(hs_encrypted_extensions, ee), (hs_certificate, cert)]"
  "snd (msgs ! 3) = rfc_verify_data (server_handshake_traffic_secret ks) (sha256_spec (m @ encode_messages (take 3 msgs)))"
  by (simp_all add: server_messages_def numeral_2_eq_2 numeral_3_eq_3)

lemma accepts_extensions:
  assumes "during 0 c"
  shows "\<exists>c'. handle_handshake_message (handshake_of hs_encrypted_extensions ee) (after 0) (c, w) = Some (Ok (after 1), (c', w))
    \<and> during 1 c' \<and> c_deframer c' = c_deframer c \<and> c_server_hs_keys c' = c_server_hs_keys c"
proof -
  obtain i where i: "parse_encrypted_extensions (handshake_of hs_encrypted_extensions ee) = Ok i"
    "ee_has_alpn i \<longrightarrow> (\<exists>a. ee_alpn i = Span a \<and> length a < 256)"
    using extensions by (auto simp: extensions_ok_def)
  let ?t = "transcript_update (c_transcript c) (Span (encode_handshake hs_encrypted_extensions ee))"
  have t: "sha_inv (m @ encode_messages (take 1 msgs)) ?t"
    using transcript_step [OF assms, of hs_encrypted_extensions ee] msgs_simps by simp
  have len: "length (c_negotiated_alpn c) = 256" using assms by (simp add: during_def)
  show ?thesis
  proof (cases "ee_has_alpn i")
    case False
    with i(1) have "handle_handshake_message (handshake_of hs_encrypted_extensions ee) (after 0) (c, w)
        = Some (Ok (after 1), (c\<lparr>c_transcript := ?t\<rparr>, w))"
      by (simp add: handle_handshake_message_def handle_encrypted_extensions_def step_defs transcript_add_run handshake_of_def after_def)
    with t assms show ?thesis by (auto simp: during_def)
  next
    case True
    with i(2) obtain a where a: "ee_alpn i = Span a" "length a < 256" by blast
    let ?c = "c\<lparr>c_negotiated_alpn := write_at (c_negotiated_alpn c) 0 (a @ [0]), c_transcript := ?t\<rparr>"
    have "handle_handshake_message (handshake_of hs_encrypted_extensions ee) (after 0) (c, w) = Some (Ok (after 1), (?c, w))"
      using i(1) True a len
      by (simp add: handle_handshake_message_def handle_encrypted_extensions_def step_defs transcript_add_run handshake_of_def after_def
          rd_bytes_def)
    moreover have "during 1 ?c" using t assms a by (simp add: during_def write_at_def)
    ultimately show ?thesis by (intro exI [of _ ?c]) simp
  qed
qed

lemma accepts_certificate:
  assumes "during 1 c"
  shows "\<exists>c'. handle_handshake_message (handshake_of hs_certificate cert) (after 1) (c, w) = Some (Ok (after 2), (c', w))
    \<and> during 2 c' \<and> c_deframer c' = c_deframer c \<and> c_server_hs_keys c' = c_server_hs_keys c"
proof -
  let ?e = "encode_handshake hs_certificate cert"
  let ?c = "c\<lparr>c_certificate_storage := ?e, c_transcript := transcript_update (c_transcript c) (Span ?e)\<rparr>"
  have parse: "parse_handshake_message (Span ?e) = Ok (handshake_of hs_certificate cert, 4 + length cert)"
    using parse_encode_handshake [of cert hs_certificate "[]"] certificate(1) by simp
  have "handle_handshake_message (handshake_of hs_certificate cert) (after 1) (c, w) = Some (Ok (after 2), (?c, w))"
    using certificate parse
    by (simp add: handle_handshake_message_def handle_certificate_def step_defs transcript_add_run handshake_of_def after_def
        rd_bytes_def hs_type_defs flight_init_def)
  moreover have "during 2 ?c"
    using transcript_step [OF assms, of hs_certificate cert] msgs_simps assms by (simp add: during_def numeral_2_eq_2)
  ultimately show ?thesis by (intro exI [of _ ?c]) simp
qed

lemma accepts_signature:
  assumes "during 2 c"
  shows "\<exists>c'. handle_handshake_message (handshake_of hs_certificate_verify cv) (after 2) (c, w) = Some (Ok (after 3), (c', w))
    \<and> during 3 c' \<and> c_deframer c' = c_deframer c \<and> c_server_hs_keys c' = c_server_hs_keys c"
proof -
  let ?e = "encode_handshake hs_certificate_verify cv"
  let ?c = "c\<lparr>c_transcript := transcript_update (c_transcript c) (Span ?e)\<rparr>"
  obtain i where i: "parse_certificate_verify (handshake_of hs_certificate_verify cv) = Ok i"
    "authenticate_server_flight info i (Span (transcript_snapshot (c_transcript c))) (cc_hostname cfg) (cc_verifier cfg) w = (Ok (), w)"
    using signature by (auto simp: signature_accepted_def transcript_hash [OF assms] msgs_simps)
  have "handle_certificate_verify (handshake_of hs_certificate_verify cv) (after 2) (c, w) = Some (Ok (after 3), (?c, w))"
    unfolding handle_certificate_verify_iff using i assms
    by (simp add: after_def during_def handshake_of_def)
  then have "handle_handshake_message (handshake_of hs_certificate_verify cv) (after 2) (c, w) = Some (Ok (after 3), (?c, w))"
    by (simp add: handle_handshake_message_def handshake_of_def hs_type_defs)
  moreover have "during 3 ?c"
    using transcript_step [OF assms, of hs_certificate_verify cv] msgs_simps assms by (simp add: during_def numeral_3_eq_3 numeral_2_eq_2)
  ultimately show ?thesis by (intro exI [of _ ?c]) simp
qed

lemma accepts_finished:
  assumes "during 3 c" and "snd (msgs ! 3) = b"
  shows "\<exists>c'. handle_handshake_message (handshake_of hs_finished b) (after 3) (c, w) = Some (Ok (after 4), (c', w))
    \<and> during 4 c' \<and> c_deframer c' = c_deframer c \<and> c_server_hs_keys c' = c_server_hs_keys c"
proof -
  let ?e = "encode_handshake hs_finished b"
  let ?c = "c\<lparr>c_transcript := transcript_update (c_transcript c) (Span ?e)\<rparr>"
  have b: "b = rfc_verify_data (server_handshake_traffic_secret ks) (sha256_spec (m @ encode_messages (take 3 msgs)))"
    using assms(2) msgs_simps by simp
  have c: "c_schedule c = ks" "sha_inv (m @ encode_messages (take 3 msgs)) (c_transcript c)"
    using assms(1) by (simp_all add: during_def)
  have "handle_finished (handshake_of hs_finished b) (after 3) (c, w)
      = Some (Ok ((after 3)\<lparr>fl_got_finished := True\<rparr>), (?c, w))"
    using handle_finished_run [OF c(2), of "handshake_of hs_finished b" b "after 3" w] server_secret c(1) b
    by (simp add: handshake_of_def)
  moreover have "(after 3)\<lparr>fl_got_finished := True\<rparr> = after 4" by (simp add: after_def)
  ultimately have "handle_handshake_message (handshake_of hs_finished b) (after 3) (c, w) = Some (Ok (after 4), (?c, w))"
    by (simp add: handle_handshake_message_def handshake_of_def hs_type_defs)
  moreover have "msgs ! 3 = (hs_finished, b)" using msgs_simps(5) assms(2) by (cases "msgs ! 3") simp
  then have "during 4 ?c"
    using transcript_step [OF assms(1), of hs_finished b] msgs_simps(1) assms(1) by (simp add: during_def numeral_eq_Suc)
  ultimately show ?thesis by (intro exI [of _ ?c]) simp
qed

end

sublocale server_flight \<subseteq> flight_run sm queue cfg msgs after during
proof unfold_locales
  show "cc_stream cfg = Some sm" by (rule server_stream)
  show "during i c \<Longrightarrow> c_config c = cfg" "during i c \<Longrightarrow> during i (c\<lparr>c_deframer := d\<rparr>)"
    "during i c \<Longrightarrow> during i (c\<lparr>c_server_hs_keys := k\<rparr>)" for i c d k
    by (simp_all add: during_def)
  show "length b < 16777216" if "(t, b) \<in> set msgs" for t b
    using that extensions certificate(1) signature
    by (auto simp: server_messages_def Let_def extensions_ok_def signature_accepted_def)
  show "i \<le> length msgs \<Longrightarrow> fl_got_finished (after i) \<longleftrightarrow> i = length msgs" for i
    by (simp add: after_def msgs_simps flight_init_def)
  fix i c t b w
  assume i: "i < length msgs" "msgs ! i = (t, b)" "during i c"
  then consider "i = 0" | "i = 1" | "i = 2" | "i = 3" using msgs_simps(1) by linarith
  then show "\<exists>c'. handle_handshake_message (handshake_of t b) (after i) (c, w) = Some (Ok (after (Suc i)), (c', w))
      \<and> during (Suc i) c' \<and> c_deframer c' = c_deframer c \<and> c_server_hs_keys c' = c_server_hs_keys c"
  proof cases
    case 1
    with i msgs_simps accepts_extensions [of c w] show ?thesis by simp
  next
    case 2
    with i msgs_simps accepts_certificate [of c w] show ?thesis by (simp add: numeral_2_eq_2)
  next
    case 3
    with i msgs_simps accepts_signature [of c w] show ?thesis by (simp add: numeral_3_eq_3)
  next
    case 4
    moreover from this i msgs_simps(5) have "t = hs_finished" by simp
    ultimately show ?thesis using i accepts_finished [of c b w] by simp
  qed
qed

context server_flight
begin

text \<open>
  From the first record of the flight to the client's Finished. \<open>through\<close> is the transcript up to the
  server's Finished.
\<close>

abbreviation through :: bytes where
  "through \<equiv> m @ encode_messages msgs"

lemma process_run:
  assumes "during 0 c" and "deframer_inv (c_deframer c)" and "deframer_content (c_deframer c) = []"
    and "concat ps = encode_messages msgs" and "length (concat ps) \<le> deframer_room (c_deframer c)"
    and "\<forall>p \<in> set ps. length p + padding \<le> 16623" and "last ps \<noteq> []"
    and "queue w = concat (flight_records (c_server_hs_keys c) padding ps) @ rest"
    and "accepts_all sm app" and "\<And>n. alloc n" and "length (client_handshake_traffic_secret ks) = 32"
  shows "\<exists>c' w'. process_server_handshake alloc (c, w) = Some (Ok (), (c', app w' (sealed_record ck content_handshake
        (encode_handshake hs_finished (rfc_verify_data (client_handshake_traffic_secret ks) (sha256_spec through))) 0)))
    \<and> queue w' = rest \<and> c_config c' = cfg \<and> c_schedule c' = application_schedule (sha256_spec through) ks
    \<and> c_client_app_keys c' = rfc_traffic_keys (client_application_traffic_secret (c_schedule c'))
    \<and> c_server_app_keys c' = rfc_traffic_keys (server_application_traffic_secret (c_schedule c'))"
proof -
  have "ps \<noteq> []" using assms(4) by (auto simp: server_messages_def Let_def encode_messages_def encode_handshake_def)
  from flight_loop [OF _ assms(1,2) _ assms(5,6,8) this assms(7)] assms(3,4) msgs_simps(1) obtain c1 w1 where
    1: "loop_prog flight_body (after 0) (c, w) = Some (Ok (after 4), (c1, w1))" "during 4 c1" "queue w1 = rest"
    by auto
  have m: "sha_inv through (c_transcript c1)" and c1: "c_state c1 = CLIENT_HANDSHAKING" "c_config c1 = cfg" "c_schedule c1 = ks" "c_client_hs_keys c1 = ck"
    using 1(2) msgs_simps(1) by (simp_all add: during_def)
  have "flight_init = after 0" by (simp add: after_def)
  then have "process_server_handshake alloc (c, w) = finish_handshake alloc (c1, w1)"
    using 1(1) by (simp add: process_server_handshake_def then_prog_def bind_prog_def)
  also have "\<dots> = Some (Ok (), ((finished_client c1 through)\<lparr>
        c_client_hs_keys := ck\<lparr>tk_seq := tk_seq ck + 1\<rparr>,
        c_transcript := transcript_update (c_transcript c1) (Span (encode_handshake hs_finished
          (rfc_verify_data (client_handshake_traffic_secret ks) (sha256_spec through))))\<rparr>,
      app w1 (sealed_record ck content_handshake (encode_handshake hs_finished
        (rfc_verify_data (client_handshake_traffic_secret ks) (sha256_spec through))) 0)))"
    using finish_handshake_run [OF m c1(1), of sm app alloc w1] c1 server_stream assms(9,10,11)
    by (simp add: accepts_all_def)
  finally show ?thesis using 1(3) c1 by (simp add: finished_client_def Let_def) blast
qed

end

section \<open>The hello\<close>

definition plain_record :: "u8 \<Rightarrow> bytes \<Rightarrow> bytes" where
  "plain_record t payload = [t, 3, 3] @ store_be16 (of_nat (length payload)) @ payload"

lemma plain_record_header:
  assumes "length payload \<le> 16384"
  shows "\<exists>h. parse_record_header (Span (plain_record t payload)) = Ok h \<and> rh_type h = t
    \<and> unat (rh_length h) = length payload"
proof -
  have "be16 (plain_record t payload ! 3) (plain_record t payload ! 4) = of_nat (length payload)"
    by (simp add: plain_record_def store_be16_def be16_store)
  moreover have "unat (of_nat (length payload) :: u16) = length payload" using assms by (simp add: unat_of_nat)
  ultimately show ?thesis using assms by (simp add: parse_record_header_Span) (simp add: plain_record_def)
qed

lemma plain_record_whole: "length payload \<le> 16384 \<Longrightarrow> whole_record 16645 (plain_record t payload)"
  using plain_record_header [of payload t] by (auto simp: whole_record_def plain_record_def)

text \<open>What the first ClientHello changes.\<close>

definition hello_part :: "'w client \<Rightarrow> client_state \<times> 'w client_config \<times> transcript \<times> deframer \<times> bytes \<times> key_schedule" where
  "hello_part c = (c_state c, c_config c, c_transcript c, c_deframer c, c_negotiated_alpn c, c_schedule c)"

lemma generate_key_part: "keeps_rel (agree hello_part) (generate_key pf retry g)"
proof -
  have random: "keeps_rel (agree hello_part) (random_private_key pf retry)"
    unfolding random_private_key_def by (intro keeps_intros; simp add: hello_part_def)
  have "keeps_rel (agree hello_part) (p256_keygen pf retry n e)" for n e
  proof (induction n arbitrary: e)
    case 0
    show ?case unfolding p256_keygen.simps by (intro keeps_intros)
  next
    case (Suc n)
    show ?case unfolding p256_keygen.simps by (intro keeps_intros random Suc.IH; simp add: hello_part_def)
  qed
  then show ?thesis
    unfolding generate_key_def x25519_keygen_def by (intro keeps_intros random; simp add: hello_part_def)
qed

lemma send_client_hello_part:
  assumes "send_client_hello p (c, w) = Some (Ok (), (c', w'))"
  shows "hello_part c' = (c_state c, c_config c, transcript_update (c_transcript c) (Span (c_client_hello c')),
      c_deframer c, c_negotiated_alpn c, c_schedule c) \<and> c_private_key c' = c_private_key c
    \<and> build_client_hello p (Span (replicate 2048 0)) = Ok (c_client_hello c')"
proof -
  from assms obtain ch where ch: "build_client_hello p (Span (replicate 2048 0)) = Ok ch" and "send_plain_record content_handshake ch
      (c\<lparr>c_client_hello := ch, c_transcript := transcript_update (c_transcript c) (Span ch)\<rparr>, w) = Some (Ok (), (c', w'))"
    by (auto simp: send_client_hello_def bind_prog_Ok then_prog_Ok update_def transcript_add_run of_res_def)
  from keeps_relD [OF inner_send_plain_record this(2), of "\<lambda>c. c"] ch show ?thesis by (simp add: agree_def hello_part_def)
qed

lemma first_client_hello_part:
  assumes "first_client_hello cfg pf (c, w) = Some (Ok (sid, p), (c', w'))"
  shows "hello_part c' = (c_state c, c_config c, transcript_update (c_transcript c) (Span (c_client_hello c')),
      c_deframer c, c_negotiated_alpn c, c_schedule c)"
proof -
  from assms obtain r s c0 w0 where "generate_key pf False (cc_preferred_group cfg) (c, r) = Some (Ok (), (c0, w0))"
    "send_client_hello s (c0, w0) = Some (Ok (), (c', w'))"
    by (auto simp: first_client_hello_def bind_prog_Ok then_prog_Ok outside_Ok client_def Let_def)
  with keeps_relD [OF generate_key_part this(1)] send_client_hello_part [of s c0 w0 c' w'] show ?thesis
    by (auto simp: agree_def hello_part_def)
qed

context byte_source
begin

text \<open>The loop that waits for ServerHello, when it comes in one record.\<close>

lemma hello_loop:
  assumes sm: "cc_stream (c_config c) = Some sm" and d: "deframer_inv (c_deframer c)" "deframer_content (c_deframer c) = []"
    and msg: "msg = encode_handshake hs_server_hello body" "length msg \<le> 16384" "length msg \<le> deframer_room (c_deframer c)"
    and sh: "parse_server_hello (Span msg) = Ok sh" "sh_session_id_length sh = 32" "sh_session_id sh = sid"
      "\<not> sh_hello_retry_request sh"
    and q: "queue w = plain_record content_handshake msg @ rest"
  shows "\<exists>d' w'. loop_prog (hello_body pf sid) hl (c, w) = Some (Ok (sh, hl_active_group hl),
      (c\<lparr>c_transcript := transcript_update (c_transcript c) (Span msg), c_deframer := d'\<rparr>, w'))
    \<and> deframer_inv d' \<and> deframer_content d' = [] \<and> deframer_room d' = deframer_room (c_deframer c) \<and> queue w' = rest"
proof -
  let ?rec = "plain_record content_handshake msg"
  obtain w1 where w1: "read_record 16645 (c, w) = Some (Ok ?rec, (c, w1))" "queue w1 = rest"
    using read_record_queue [OF sm plain_record_whole [OF msg(2)] q] by blast
  obtain h where h: "parse_record_header (Span ?rec) = Ok h" "rh_type h = content_handshake" "unat (rh_length h) = length msg"
    using plain_record_header [OF msg(2)] by blast
  have payload: "subspan (Span ?rec) 5 (unat (rh_length h)) = Ok (Span msg)"
    using h(3) by (simp add: subspan_def plain_record_def slice_def store_be16_def)
  obtain q1 where q1: "deframer_append (c_deframer c) (Span msg) = (XT_OK, q1)" "deframer_inv q1" "deframer_content q1 = msg"
    "deframer_room q1 = deframer_room (c_deframer c) - length msg"
    using df.app_fits [OF d(1) msg(3)] d(2) by auto
  have types: "content_handshake \<noteq> content_change_cipher_spec" "content_handshake \<noteq> content_alert"
    by (simp_all add: content_handshake_def content_change_cipher_spec_def content_alert_def)
  have "deframer_peek (c_deframer c) = Err XT_ERR_BUFFER_TOO_SMALL"
    using df.front_eq [OF d(1)] d(2) by (simp add: parse_handshake_Span)
  then have 1: "hello_body pf sid hl (c, w) = Some (Ok (Inl hl), (c\<lparr>c_deframer := q1\<rparr>, w1))"
    using h(2) types by (simp add: hello_body_def hello_record_def step_defs w1(1) h(1) payload deframe_append_def q1(1))
  have parse: "parse_handshake_message (Span (deframer_content q1)) = Ok (handshake_of hs_server_hello body, 4 + length body)"
    using parse_encode_handshake [of body hs_server_hello "[]"] msg(1,2) q1(3) by simp
  obtain q2 where q2: "deframer_consume q1 = (Ok (), q2)" "deframer_inv q2" "deframer_content q2 = []"
    "deframer_room q2 = deframer_room (c_deframer c)"
    using df.pop_Ok [OF q1(2) parse] q1(3,4) msg(1,3) by auto
  then have "deframer_buffered q2 = 0"
    by (auto simp: deframer_buffered_def deframer_defs elim!: deframer_invE)
  moreover have "deframer_peek q1 = Ok (handshake_of hs_server_hello body)" using df.front_eq [OF q1(2)] parse by simp
  ultimately have 2: "hello_body pf sid hl (c\<lparr>c_deframer := q1\<rparr>, w1) = Some (Ok (Inr (sh, hl_active_group hl)),
      (c\<lparr>c_transcript := transcript_update (c_transcript c) (Span msg), c_deframer := q2\<rparr>, w1))"
    using sh msg(1) by (simp add: hello_body_def step_defs handshake_of_def transcript_add_def consume_last_def on_error_def
        deframe_consume_def q2(1))
  show ?thesis using 1 2 w1(2) q2(2-4) by (auto simp: loop_prog.simps [of _ hl])
qed

end

section \<open>The whole handshake\<close>

text \<open>
  What a server sends: the body of its ServerHello, those of the next three messages, the pieces into
  which it cuts the flight, one to a record, and the padding of the records.
\<close>

record answer =
  an_hello :: bytes
  an_extensions :: bytes
  an_certificate :: bytes
  an_verify :: bytes
  an_pieces :: "bytes list"
  an_padding :: nat

definition answer_hello :: "answer \<Rightarrow> bytes" where
  "answer_hello a = encode_handshake hs_server_hello (an_hello a)"

text \<open>
  The secrets on both sides, after the ClientHello \<open>hello\<close>, with the shared secret of the key exchange. A server derives them as this client does, from an early secret with the empty input.
\<close>

definition answer_schedule :: "bytes \<Rightarrow> answer \<Rightarrow> bytes \<Rightarrow> key_schedule" where
  "answer_schedule hello a shared =
     handshake_schedule (hmac_spec (replicate 32 0) []) shared (sha256_spec (hello @ answer_hello a)) key_schedule_zero"

definition answer_messages :: "bytes \<Rightarrow> answer \<Rightarrow> bytes \<Rightarrow> (u8 \<times> bytes) list" where
  "answer_messages hello a shared =
     server_messages (server_handshake_traffic_secret (answer_schedule hello a shared)) (hello @ answer_hello a)
       (an_extensions a) (an_certificate a) (an_verify a)"

definition answer_bytes :: "bytes \<Rightarrow> answer \<Rightarrow> bytes \<Rightarrow> bytes" where
  "answer_bytes hello a shared =
     plain_record content_handshake (answer_hello a)
     @ concat (flight_records (rfc_traffic_keys (server_handshake_traffic_secret (answer_schedule hello a shared)))
         (an_padding a) (an_pieces a))"

text \<open>
  The ServerHello is for this client, and chooses the group for which it has a key; the certificate and the
  signature are accepted; the pieces make up the flight, each fits its record, and all fit the buffer.
\<close>

definition answer_ok :: "'w client_config \<Rightarrow> bytes \<Rightarrow> bytes \<Rightarrow> bytes \<Rightarrow> answer \<Rightarrow> bytes \<Rightarrow> bool" where
  "answer_ok cfg sid hello key a shared \<longleftrightarrow>
     length (answer_hello a) \<le> 16384
     \<and> (\<exists>sh. parse_server_hello (Span (answer_hello a)) = Ok sh \<and> sh_session_id_length sh = 32 \<and> sh_session_id sh = sid
          \<and> \<not> sh_hello_retry_request sh \<and> sh_group sh = cc_preferred_group cfg
          \<and> shared_secret key sh = Ok shared)
     \<and> extensions_ok (an_extensions a) \<and> length (an_certificate a) \<le> 24572
     \<and> (\<exists>info. parse_certificate (handshake_of hs_certificate (an_certificate a)) = Ok info
          \<and> signature_accepted cfg info (sha256_spec ((hello @ answer_hello a)
              @ encode_messages [(hs_encrypted_extensions, an_extensions a), (hs_certificate, an_certificate a)])) (an_verify a))
     \<and> concat (an_pieces a) = encode_messages (answer_messages hello a shared)
     \<and> length (concat (an_pieces a)) \<le> 32768 \<and> last (an_pieces a) \<noteq> []
     \<and> (\<forall>p \<in> set (an_pieces a). length p + an_padding a \<le> 16623)"

lemma deframer_start: "deframer_inv (deframer_reset (deframer_new (Span (replicate 32768 0))))"
    "deframer_content (deframer_reset (deframer_new (Span (replicate 32768 0)))) = []"
    "deframer_room (deframer_reset (deframer_new (Span (replicate 32768 0)))) = 32768"
  by (simp_all add: deframer_new_def deframer_reset_def deframer_defs)

lemma deframer_reset_room: "deframer_inv d \<Longrightarrow> deframer_content (deframer_reset d) = []
    \<and> deframer_room (deframer_reset d) = deframer_room d + length (deframer_content d)"
  by (auto simp: deframer_reset_def deframer_defs elim!: deframer_invE)

lemma deframer_reset_reset [simp]: "deframer_reset (deframer_reset d) = deframer_reset d"
  by (simp add: deframer_reset_def)

context byte_source
begin

lemma connect_completes_run:
  assumes cfg: "cc_platform cfg = Some pf" "cc_stream cfg = Some sm" "cc_verifier cfg \<noteq> None"
      "cc_hostname cfg \<noteq> None" "cc_hostname cfg \<noteq> Some []"
    and out: "accepts_all sm app" "\<And>n. alloc n"
    and hello: "first_client_hello cfg pf (connect_start cfg tls_client_new, w) = Some (Ok (sid, p), (c1, w1))"
    and ok: "answer_ok cfg sid (c_client_hello c1) (c_private_key c1) a shared" and q: "queue w1 = answer_bytes (c_client_hello c1) a shared @ rest"
  defines "ks \<equiv> answer_schedule (c_client_hello c1) a shared"
  defines "th \<equiv> sha256_spec ((c_client_hello c1 @ answer_hello a) @ encode_messages (answer_messages (c_client_hello c1) a shared))"
  shows "\<exists>c' w'. connect alloc cfg (tls_client_new, w) = Some (Ok (), (c', app w' (sealed_record
        (rfc_traffic_keys (client_handshake_traffic_secret ks)) content_handshake
        (encode_handshake hs_finished (rfc_verify_data (client_handshake_traffic_secret ks) th)) 0)))
    \<and> queue w' = rest \<and> c_state c' = CLIENT_CONNECTED \<and> c_schedule c' = application_schedule th ks
    \<and> c_client_app_keys c' = rfc_traffic_keys (client_application_traffic_secret (c_schedule c'))
    \<and> c_server_app_keys c' = rfc_traffic_keys (server_application_traffic_secret (c_schedule c'))"
proof -
  let ?m = "c_client_hello c1 @ answer_hello a"
  let ?d = "deframer_new (Span (replicate 32768 0))"
  let ?hl = "\<lparr>hl_had_hrr = False, hl_active_group = cc_preferred_group cfg, hl_params = p\<rparr>"
  from ok obtain sh info where sh: "parse_server_hello (Span (answer_hello a)) = Ok sh" "sh_session_id_length sh = 32"
      "sh_session_id sh = sid" "\<not> sh_hello_retry_request sh" "sh_group sh = cc_preferred_group cfg"
      "shared_secret (c_private_key c1) sh = Ok shared"
    and info: "parse_certificate (handshake_of hs_certificate (an_certificate a)) = Ok info"
      "signature_accepted cfg info (sha256_spec (?m
         @ encode_messages [(hs_encrypted_extensions, an_extensions a), (hs_certificate, an_certificate a)])) (an_verify a)"
    and rest_ok: "length (answer_hello a) \<le> 16384" "extensions_ok (an_extensions a)" "length (an_certificate a) \<le> 24572"
      "concat (an_pieces a) = encode_messages (answer_messages (c_client_hello c1) a shared)"
      "length (concat (an_pieces a)) \<le> 32768" "last (an_pieces a) \<noteq> []"
      "\<forall>p \<in> set (an_pieces a). length p + an_padding a \<le> 16623"
    unfolding answer_ok_def by blast
  have c1: "c_state c1 = CLIENT_HANDSHAKING" "c_config c1 = cfg" "c_deframer c1 = deframer_reset ?d"
    "length (c_negotiated_alpn c1) = 256" "c_schedule c1 = key_schedule_zero"
    "c_transcript c1 = transcript_update transcript_reset (Span (c_client_hello c1))"
    using first_client_hello_part [OF hello] by (simp_all add: hello_part_def connect_start_def tls_client_new_def)
  let ?c2 = "c1\<lparr>c_deframer := deframer_reset (c_deframer c1)\<rparr>"
  obtain d3 w3 where 3: "loop_prog (hello_body pf sid) ?hl (?c2, w1) = Some (Ok (sh, cc_preferred_group cfg),
      (c1\<lparr>c_transcript := transcript_update (c_transcript c1) (Span (answer_hello a)), c_deframer := d3\<rparr>, w3))"
    "deframer_inv d3" "deframer_content d3 = []" "deframer_room d3 = 32768"
    "queue w3 = concat (flight_records (rfc_traffic_keys (server_handshake_traffic_secret ks)) (an_padding a) (an_pieces a)) @ rest"
    using hello_loop [of ?c2 "answer_hello a" "an_hello a" sh sid w1 _ pf ?hl] c1 cfg(2) rest_ok(1) sh q
    by (auto simp: deframer_start answer_hello_def answer_bytes_def ks_def)
  let ?t = "transcript_update (c_transcript c1) (Span (answer_hello a))"
  let ?c3 = "c1\<lparr>c_transcript := ?t, c_deframer := d3\<rparr>"
  have inv: "sha_inv ?m (c_transcript ?c3)"
    using transcript_inv_update [OF transcript_inv_update [OF transcript_inv_reset], of "Span (c_client_hello c1)" "Span (answer_hello a)"]
    by (simp add: c1(6))
  let ?sk = "rfc_traffic_keys (server_handshake_traffic_secret ks)" and ?ck = "rfc_traffic_keys (client_handshake_traffic_secret ks)"
  let ?c4 = "c1\<lparr>c_transcript := ?t, c_deframer := deframer_reset d3, c_schedule := ks, c_client_hs_keys := ?ck, c_server_hs_keys := ?sk\<rparr>"
  have 4: "handshake_keys sh (cc_preferred_group cfg) (?c3, w3) = Some (Ok (), (?c4, w3))"
    using handshake_keys_run [OF inv sh(5), of shared w3] sh(6) c1(5) by (simp add: ks_def answer_schedule_def Let_def)
  have secrets: "length (client_handshake_traffic_secret ks) = 32" "length (server_handshake_traffic_secret ks) = 32"
    by (simp_all add: ks_def answer_schedule_def handshake_schedule_def Let_def)
  have flight: "server_flight sm queue cfg ks ?m (an_extensions a) (an_certificate a) (an_verify a) info"
    using byte_source_axioms cfg(2) secrets(2) rest_ok(2,3) info
    by (intro server_flight.intro server_flight_axioms.intro)
  have msgs: "answer_messages (c_client_hello c1) a shared = server_messages (server_handshake_traffic_secret ks) ?m
      (an_extensions a) (an_certificate a) (an_verify a)"
    by (simp add: answer_messages_def ks_def)
  have during: "server_flight.during cfg ks ?ck ?m (an_extensions a) (an_certificate a) (an_verify a) 0 ?c4"
    using c1 inv by (simp add: server_flight.during_def [OF flight] encode_messages_def)
  have room: "deframer_inv (c_deframer ?c4)" "deframer_content (c_deframer ?c4) = []" "deframer_room (c_deframer ?c4) = 32768"
    using deframer_reset_room [OF 3(2)] 3(3,4) deframer_reset_inv [OF 3(2)] by simp_all
  obtain c5 w5 where 5: "process_server_handshake alloc (?c4, w3) = Some (Ok (), (c5, app w5 (sealed_record ?ck content_handshake
        (encode_handshake hs_finished (rfc_verify_data (client_handshake_traffic_secret ks) th)) 0)))"
      "queue w5 = rest" "c_schedule c5 = application_schedule th ks"
      "c_client_app_keys c5 = rfc_traffic_keys (client_application_traffic_secret (c_schedule c5))"
      "c_server_app_keys c5 = rfc_traffic_keys (server_application_traffic_secret (c_schedule c5))"
    using server_flight.process_run [OF flight during room(1,2), of "an_pieces a" "an_padding a" w3 rest app alloc]
      rest_ok(4-7) room(3) 3(5) out secrets(1)
    by (auto simp: msgs th_def)
  have "connect_body alloc cfg pf (connect_start cfg tls_client_new, w)
      = Some (Ok (), (c5\<lparr>c_state := CLIENT_CONNECTED\<rparr>, app w5 (sealed_record ?ck content_handshake
        (encode_handshake hs_finished (rfc_verify_data (client_handshake_traffic_secret ks) th)) 0)))"
    by (simp add: connect_body_def step_defs hello 3(1) 4 5(1))
  then have "connect alloc cfg (tls_client_new, w)
      = Some (Ok (), (c5\<lparr>c_state := CLIENT_CONNECTED\<rparr>, app w5 (sealed_record ?ck content_handshake
        (encode_handshake hs_finished (rfc_verify_data (client_handshake_traffic_secret ks) th)) 0)))"
    using cfg by (simp add: connect_def step_defs or_fail_def on_error_def tls_client_new_def)
  then show ?thesis using 5(2-5) by (intro exI [of _ "c5\<lparr>c_state := CLIENT_CONNECTED\<rparr>"] exI [of _ w5]) simp
qed

end

end
