(* ===== verification/Retry.thy ===== *)
theory Retry
  imports Completion Contract
begin

text \<open>
  The answer to a HelloRetryRequest: what must hold of the request, and what the second ClientHello, the
  new key and the transcript are.
\<close>

text \<open>The public key that goes into the key share of a group.\<close>

definition public_share :: "u16 \<Rightarrow> bytes \<Rightarrow> bytes res" where
  "public_share grp k =
     (if grp = group_secp256r1 then p256_public_from_private (Span k)
      else if grp = group_x25519 then x25519_public_from_private (Span k)
      else Err XT_ERR_UNSUPPORTED)"

lemma p256_keygen_share:
  assumes "p256_keygen pf retry n e (c, w) = Some (Ok (), (c', w'))"
  shows "p256_public_from_private (Span (c_private_key c')) = Ok (c_public_key c')"
  using assms
proof (induction n arbitrary: e c w)
  case (Suc n)
  then obtain c1 w1 where "(case p256_public_from_private (Span (c_private_key c1)) of
      Ok pk \<Rightarrow> update (\<lambda>c. c\<lparr>c_public_key := pk\<rparr>) | Err e' \<Rightarrow> p256_keygen pf retry n e' | UB \<Rightarrow> of_res UB) (c1, w1)
    = Some (Ok (), (c', w'))"
    by (auto simp: then_prog_Ok bind_prog_Ok client_def)
  then show ?case
    using Suc.IH by (cases "p256_public_from_private (Span (c_private_key c1))") (auto simp: update_def of_res_def)
qed (simp add: throw_def)

lemma generate_key_share:
  assumes "generate_key pf retry grp (c, w) = Some (Ok (), (c', w'))"
  shows "public_share grp (c_private_key c') = Ok (take (public_length grp) (c_public_key c'))"
proof (cases "grp = group_secp256r1")
  case True
  with assms have "p256_public_from_private (Span (c_private_key c')) = Ok (c_public_key c')"
    by (auto simp: generate_key_def dest: p256_keygen_share)
  moreover from this have "length (c_public_key c') = 65"
    by (auto simp: p256_public_from_private_def rd_bytes_def Let_def split: if_splits option.splits dest!: sym [of "_ # _"])
  ultimately show ?thesis using True by (simp add: public_share_def public_length_def)
next
  case False
  with assms have grp: "grp = group_x25519" and "x25519_keygen pf retry (c, w) = Some (Ok (), (c', w'))"
    by (auto simp: generate_key_def throw_def split: if_splits)
  then obtain pk pub where "x25519_public_from_private (Span (c_private_key c')) = Ok pk" "c_public_key c' = write_at pub 0 pk"
    by (auto simp: x25519_keygen_def then_prog_Ok bind_prog_Ok client_def update_def of_res_def split: res.splits)
  moreover from this have "length pk = 32"
    by (auto simp: x25519_public_from_private_def rd_bytes_def split: if_splits)
  ultimately show ?thesis using False grp by (simp add: public_share_def public_length_def write_at_def)
qed

lemma consume_last_Ok:
  assumes "consume_last (c, w) = Some (Ok (), (c', w'))"
  shows "\<exists>d. c' = c\<lparr>c_deframer := d\<rparr> \<and> w' = w \<and> deframer_content d = []"
proof -
  obtain r d where d: "deframer_consume (c_deframer c) = (r, d)" by fastforce
  with assms show ?thesis
    by (cases r) (auto simp: consume_last_def deframe_consume_def step_defs on_error_def deframer_buffered_def
        deframer_content_def split: if_splits)
qed

lemma hello_retry_answers:
  assumes m: "sha_inv m (c_transcript c)" and hm: "hm_encoded hm = Span hrr"
    and run: "hello_retry pf hl hm sh (c, w) = Some (Ok hl', (c', w'))"
  shows "\<not> hl_had_hrr hl \<and> sh_group sh \<noteq> hl_active_group hl \<and> hl_had_hrr hl' \<and> hl_active_group hl' = sh_group sh
    \<and> (\<exists>share. public_share (sh_group sh) (c_private_key c') = Ok share
        \<and> hl_params hl' = (hl_params hl)\<lparr>chp_group := sh_group sh, chp_key_share := Span share,
            chp_cookie := Span (take (sh_cookie_length sh) (sh_cookie sh))\<rparr>)
    \<and> build_client_hello (hl_params hl') (Span (replicate 2048 0)) = Ok (c_client_hello c')
    \<and> sha_inv (encode_handshake 0xfe (sha256_spec m) @ hrr @ c_client_hello c') (c_transcript c')
    \<and> deframer_content (c_deframer c') = [] \<and> c_state c' = c_state c"
proof -
  obtain t where t: "retry_transcript (Span hrr) (c, w) = Some (Ok (), (c\<lparr>c_transcript := t\<rparr>, w))"
    "sha_inv (encode_handshake 0xfe (sha256_spec m) @ hrr) t" using retry_transcript_run [OF m] by blast
  from run have first: "\<not> hl_had_hrr hl" "sh_group sh \<noteq> hl_active_group hl"
    by (auto simp: hello_retry_def throw_def split: if_splits)
  let ?p = "\<lambda>c. (hl_params hl)\<lparr>chp_group := sh_group sh,
      chp_key_share := Span (take (public_length (sh_group sh)) (c_public_key c)),
      chp_cookie := Span (take (sh_cookie_length sh) (sh_cookie sh))\<rparr>"
  from run first obtain c1 w1 c2 w2 where
    1: "consume_last (c\<lparr>c_transcript := t\<rparr>, w) = Some (Ok (), (c1, w1))"
    and 2: "generate_key pf True (sh_group sh) (c1, w1) = Some (Ok (), (c2, w2))"
    and 3: "send_client_hello (?p c2) (c2, w2) = Some (Ok (), (c', w'))"
    and hl': "hl' = \<lparr>hl_had_hrr = True, hl_active_group = sh_group sh, hl_params = ?p c2\<rparr>"
    by (auto simp: hello_retry_def hm t(1) then_prog_Ok bind_prog_Ok client_def ret_def Let_def)
  obtain d where d: "c1 = c\<lparr>c_transcript := t, c_deframer := d\<rparr>" "deframer_content d = []"
    using consume_last_Ok [OF 1] by auto
  have parts: "hello_part c2 = hello_part c1" using keeps_relD [OF generate_key_part 2] by (simp add: agree_def)
  note sent = send_client_hello_part [OF 3]
  have "sha_inv ((encode_handshake 0xfe (sha256_spec m) @ hrr) @ c_client_hello c') (c_transcript c')"
    using transcript_inv_update [OF t(2), of "Span (c_client_hello c')"] parts sent d(1) by (simp add: hello_part_def)
  moreover have "build_client_hello (?p c2) (Span (replicate 2048 0)) = Ok (c_client_hello c')"
    using sent by simp
  moreover have "public_share (sh_group sh) (c_private_key c') = Ok (take (public_length (sh_group sh)) (c_public_key c2))"
    using generate_key_share [OF 2] sent by simp
  ultimately show ?thesis using first hl' parts sent d by (auto simp: hello_part_def)
qed

end
