(* ===== verification/Primality.thy ===== *)
theory Primality
  imports Main
begin

text \<open>
  Prime numbers as far as the curve P-256 needs them: Fermat's little theorem, and Pocklington's
  criterion with a way to check powers that rewriting can follow.
\<close>

section \<open>Prime numbers\<close>

definition is_prime :: "nat \<Rightarrow> bool" where
  "is_prime p \<longleftrightarrow> 1 < p \<and> (\<forall>d. d dvd p \<longrightarrow> d = 1 \<or> d = p)"

lemma prime_gt_1: "is_prime p \<Longrightarrow> 1 < p"
  by (simp add: is_prime_def)

lemma prime_coprime:
  assumes "is_prime p" and "\<not> p dvd a"
  shows "coprime p a"
proof -
  have "gcd p a = 1 \<or> gcd p a = p" using assms(1) unfolding is_prime_def by blast
  moreover have "gcd p a \<noteq> p" using assms(2) by (metis gcd_dvd2)
  ultimately show ?thesis by (simp add: coprime_iff_gcd_eq_1)
qed

lemma prime_dvd_mult: "is_prime p \<Longrightarrow> p dvd a * b \<Longrightarrow> p dvd a \<or> p dvd b"
  using prime_coprime coprime_dvd_mult_right_iff by blast

lemma prime_divisor:
  assumes "1 < n"
  shows "\<exists>p. is_prime p \<and> p dvd n \<and> (\<not> is_prime n \<longrightarrow> p * p \<le> n)"
proof -
  define p where "p = (LEAST d. 1 < d \<and> d dvd n)"
  have p: "1 < p \<and> p dvd n" unfolding p_def by (rule LeastI [of _ n]) (use assms in simp)
  have least: "p \<le> d" if "1 < d" "d dvd n" for d
    unfolding p_def by (rule Least_le) (use that in simp)
  have prime: "is_prime p"
    unfolding is_prime_def
  proof (intro conjI allI impI)
    fix d assume d: "d dvd p"
    then have "d dvd n" using p dvd_trans by blast
    moreover from p have "0 < p" by simp
    then have "d \<le> p" "0 < d" using d by (simp_all add: dvd_imp_le dvd_pos_nat)
    ultimately show "d = 1 \<or> d = p" using least [of d] by (cases "1 < d") simp_all
  qed (use p in simp)
  from p obtain k where k: "n = p * k" by (auto elim: dvdE)
  have "p * p \<le> n" if "\<not> is_prime n"
  proof -
    have "k \<noteq> 1" using that prime k by auto
    moreover have "k \<noteq> 0" using k assms by (cases k) auto
    ultimately have "p \<le> k" using least [of k] k by auto
    then show ?thesis by (simp add: k)
  qed
  with prime p show ?thesis by blast
qed

lemma small_prime:
  assumes "1 < n" and "list_all (\<lambda>d. n mod d \<noteq> 0) [2..<k]" and "n < k * k"
  shows "is_prime n"
proof (rule ccontr)
  assume np: "\<not> is_prime n"
  with prime_divisor [OF assms(1)] obtain p where p: "is_prime p" "p dvd n" "p * p \<le> n" by blast
  have "\<not> k \<le> p"
  proof
    assume "k \<le> p"
    then have "k * k \<le> p * p" by (intro mult_le_mono)
    with p(3) assms(3) show False by simp
  qed
  then have "n mod p \<noteq> 0" using assms(2) prime_gt_1 [OF p(1)] by (auto simp: list_all_iff)
  with p(2) show False by (simp add: dvd_eq_mod_eq_0)
qed

text \<open>Fermat's little theorem: multiplication by a unit permutes the residues.\<close>

lemma fermat:
  assumes p: "is_prime p" and a: "\<not> p dvd a"
  shows "a ^ (p - 1) mod p = 1"
proof -
  let ?R = "{1..<p}"
  define f where "f = (\<lambda>x. a * x mod p)"
  have p1: "1 < p" using p by (rule prime_gt_1)
  have cop: "coprime p x" if "x \<in> ?R" for x
    using that by (intro prime_coprime [OF p]) (auto dest: dvd_imp_le)
  have cancel: "x = y" if "x < p" "y < p" "a * x mod p = a * y mod p" for x y
  proof -
    have "int p dvd int (a * x) - int (a * y)"
      using that(3) by (metis mod_eq_dvd_iff of_nat_mod)
    then have "int p dvd int a * (int x - int y)" by (simp add: algebra_simps)
    moreover have "coprime (int p) (int a)" using prime_coprime [OF p a] by simp
    ultimately have "int p dvd int x - int y" by (simp add: coprime_dvd_mult_right_iff)
    then have "int x mod int p = int y mod int p" by (simp add: mod_eq_dvd_iff)
    with that(1,2) show ?thesis by simp
  qed
  have into: "f ` ?R \<subseteq> ?R"
  proof
    fix y assume "y \<in> f ` ?R"
    then obtain x where x: "x \<in> ?R" "y = a * x mod p" by (auto simp: f_def)
    have "y \<noteq> 0"
    proof
      assume "y = 0"
      then have "p dvd a * x" using x by (simp add: mod_eq_0_iff_dvd)
      then show False using prime_dvd_mult [OF p] a x(1) nat_dvd_not_less [of x p] by auto
    qed
    with x p1 show "y \<in> ?R" by simp
  qed
  have inj: "inj_on f ?R" by (rule inj_onI) (auto simp: f_def intro: cancel)
  have "f ` ?R = ?R" using into inj by (intro endo_inj_surj) auto
  then have "\<Prod>?R = prod f ?R" using prod.reindex [OF inj, of "\<lambda>x. x"] by simp
  then have "\<Prod>?R mod p = prod (\<lambda>x. a * x) ?R mod p"
    by (simp add: f_def mod_prod_eq)
  also have "prod (\<lambda>x. a * x) ?R = a ^ (p - 1) * \<Prod>?R"
    by (simp add: prod.distrib)
  finally have "\<Prod>?R * 1 mod p = \<Prod>?R * a ^ (p - 1) mod p" by (simp add: mult.commute)
  then have "int p dvd int (\<Prod>?R * a ^ (p - 1)) - int (\<Prod>?R * 1)"
    by (metis mod_eq_dvd_iff of_nat_mod)
  then have "int p dvd int (\<Prod>?R) * (int (a ^ (p - 1)) - 1)" by (simp only: of_nat_mult right_diff_distrib mult_1_right of_nat_1)
  moreover have "coprime (int p) (int (\<Prod>?R))"
    unfolding coprime_int_iff by (rule prod_coprime_right) (rule cop)
  ultimately have "int p dvd int (a ^ (p - 1)) - 1" by (simp only: coprime_dvd_mult_right_iff)
  then have "int (a ^ (p - 1)) mod int p = 1 mod int p" by (simp only: mod_eq_dvd_iff)
  then have "int (a ^ (p - 1) mod p) = int (1 mod p)" by (simp only: of_nat_mod of_nat_1)
  then show ?thesis using p1 by simp
qed

text \<open>If \<open>b\<close> has order \<open>q\<close> modulo the prime \<open>r\<close>, then \<open>q\<close> divides \<open>r - 1\<close>.\<close>

lemma order_dvd:
  assumes r: "is_prime r" and q: "is_prime q"
    and b: "b ^ q mod r = 1" "b mod r \<noteq> 1"
  shows "q dvd r - 1"
proof (rule ccontr)
  assume "\<not> q dvd r - 1"
  then have cop: "coprime q (r - 1)" by (rule prime_coprime [OF q])
  have "\<not> r dvd b"
  proof
    assume "r dvd b"
    then have "r dvd b ^ q" using prime_gt_1 [OF q] by (simp add: dvd_power_iff dvd_trans [OF _ dvd_power])
    then show False using b(1) by simp
  qed
  with r have f: "b ^ (r - 1) mod r = 1" by (rule fermat)
  have pow: "b ^ (k * m) mod r = 1" if "b ^ k mod r = 1" for k m
    using that prime_gt_1 [OF r] by (metis mod_less power_mod power_mult power_one)
  have "q \<noteq> 0" using prime_gt_1 [OF q] by simp
  from bezout_nat [OF this, of "r - 1"] cop obtain x y where "q * x = (r - 1) * y + 1" by auto
  then have "b ^ (q * x) = b ^ ((r - 1) * y) * b" by simp
  then have "b mod r = 1" using pow [OF b(1), of x] pow [OF f, of y] by (metis mod_mult_left_eq mult_1)
  with b(2) show False by simp
qed

lemma prod_primes_dvd:
  "distinct qs \<Longrightarrow> \<forall>q \<in> set qs. is_prime q \<and> q dvd m \<Longrightarrow> prod_list qs dvd m"
proof (induction qs)
  case (Cons q qs)
  have "coprime q (prod_list rs)" if "set rs \<subseteq> set qs" for rs
    using that
  proof (induction rs)
    case (Cons s rs)
    then have "is_prime s" "s \<noteq> q" "is_prime q" using Cons.prems \<open>distinct (q # qs)\<close>
      \<open>\<forall>r \<in> set (q # qs). is_prime r \<and> r dvd m\<close> by auto
    then have "coprime q s" by (intro prime_coprime) (auto simp: is_prime_def)
    with Cons show ?case by simp
  qed simp
  with Cons show ?case by (simp add: divides_mult)
qed simp

text \<open>
  Pocklington's criterion: \<open>n\<close> is prime if there are elements of prime orders modulo every divisor of
  \<open>n\<close>, and the product of these orders is at least the square root of \<open>n\<close>.
\<close>

definition order_witness :: "nat \<Rightarrow> nat \<Rightarrow> bool" where
  "order_witness n q \<longleftrightarrow> is_prime q \<and> (\<exists>b u. b ^ q mod n = 1 \<and> b * u mod n = (u + 1) mod n)"

lemma pocklington:
  assumes n: "1 < n" and "distinct qs" and w: "\<forall>q \<in> set qs. order_witness n q"
    and large: "n \<le> prod_list qs * prod_list qs"
  shows "is_prime n"
proof (rule ccontr)
  assume "\<not> is_prime n"
  with prime_divisor [OF n] obtain r where r: "is_prime r" "r dvd n" "r * r \<le> n" by blast
  have "q dvd r - 1" if "q \<in> set qs" for q
  proof -
    from w that obtain b u where q: "is_prime q" and b: "b ^ q mod n = 1" "b * u mod n = (u + 1) mod n"
      unfolding order_witness_def by blast
    have "b ^ q mod r = 1" using b(1) r(1,2) by (metis mod_mod_cancel mod_less prime_gt_1)
    moreover have "b mod r \<noteq> 1"
    proof
      assume "b mod r = 1"
      then have "b * u mod r = u mod r" by (metis mod_mult_left_eq mult_1)
      moreover have "b * u mod r = (u + 1) mod r"  using b(2) r(2) by (metis mod_mod_cancel)
      ultimately have "int (u + 1) mod int r = int u mod int r" by (metis of_nat_mod)
      then have "int r dvd 1" by (simp add: mod_eq_dvd_iff)
      then show False using prime_gt_1 [OF r(1)] by simp
    qed
    ultimately show ?thesis using order_dvd [OF r(1) q] by blast
  qed
  then have "prod_list qs dvd r - 1" using assms(2) w by (intro prod_primes_dvd) (auto simp: order_witness_def)
  then have "prod_list qs \<le> r - 1" using prime_gt_1 [OF r(1)] by (intro dvd_imp_le) auto
  then have "prod_list qs < r" using prime_gt_1 [OF r(1)] by simp
  then have "prod_list qs * prod_list qs < r * r" by (intro mult_strict_mono) auto
  with large r(3) show False by simp
qed

section \<open>Checking powers\<close>

text \<open>
  Powers are computed on binary numerals, with Montgomery's reduction: \<open>redc m R t\<close>, for the odd number
  \<open>2 m + 1\<close> and a power \<open>R\<close> of two, adds multiples of that number to \<open>t\<close> until it has been halved as
  often as \<open>R\<close> has zeros. Nothing is divided, so that rewriting computes quickly.
\<close>

definition val :: "num \<Rightarrow> int" where
  "val x = numeral x"

lemma val_One [simp]: "val Num.One = 1"
  unfolding val_def by (rule numeral_One)

lemma val_Bit0 [simp]: "val (Num.Bit0 x) = 2 * val x"
  unfolding val_def by (rule numeral_Bit0_eq_double)

lemma val_Bit1 [simp]: "val (Num.Bit1 x) = 2 * val x + 1"
  unfolding val_def by (rule numeral_Bit1_eq_inc_double)

lemma val_inc [simp]: "val (Num.inc x) = val x + 1"
  unfolding val_def by (rule numeral_inc)

lemma val_add [simp]: "val (x + y) = val x + val y"
  unfolding val_def by (rule numeral_add)

lemma val_mult [simp]: "val (x * y) = val x * val y"
  unfolding val_def by (rule numeral_mult)

lemma val_sqr [simp]: "val (Num.sqr x) = val x * val x"
  by (simp only: Num.sqr_conv_mult val_mult)

definition add1 :: "num \<Rightarrow> num \<Rightarrow> num" where
  "add1 x y = Num.inc (x + y)"

fun redc :: "num \<Rightarrow> num \<Rightarrow> num \<Rightarrow> num" where
  "redc m (Num.Bit0 R) (Num.Bit0 t) = redc m R t"
| "redc m (Num.Bit0 R) (Num.Bit1 t) = redc m R (add1 t m)"
| "redc m (Num.Bit0 R) Num.One = redc m R (Num.inc m)"
| "redc m R t = t"

fun halvings :: "num \<Rightarrow> nat" where
  "halvings (Num.Bit0 R) = Suc (halvings R)"
| "halvings R = 0"

fun mont_pow :: "num \<Rightarrow> num \<Rightarrow> num \<Rightarrow> num \<Rightarrow> num" where
  "mont_pow m R b Num.One = b"
| "mont_pow m R b (Num.Bit0 e) = redc m R (Num.sqr (mont_pow m R b e))"
| "mont_pow m R b (Num.Bit1 e) = redc m R (redc m R (Num.sqr (mont_pow m R b e)) * b)"

lemma val_add1 [simp]: "val (add1 x y) = val x + val y + 1"
  by (simp add: add1_def)

lemma redc_val: "2 * val m + 1 dvd 2 ^ halvings R * val (redc m R t) - val t"
proof (induction m R t rule: redc.induct)
  case (1 m R t)
  from dvd_mult [OF this, of 2] show ?case by (simp add: algebra_simps)
next
  case (2 m R t)
  from dvd_add [OF dvd_mult [OF this, of 2] dvd_refl] show ?case by (simp add: algebra_simps)
next
  case (3 m R)
  from dvd_add [OF dvd_mult [OF this, of 2] dvd_refl] show ?case by (simp add: algebra_simps)
qed simp_all

text \<open>\<open>x\<close> stands for the residue \<open>a\<close>.\<close>

definition mont :: "num \<Rightarrow> num \<Rightarrow> num \<Rightarrow> int \<Rightarrow> bool" where
  "mont m R x a \<longleftrightarrow> 2 * val m + 1 dvd val x - a * 2 ^ halvings R"

lemma mont_cancel: "2 * val m + 1 dvd 2 ^ halvings R * x \<Longrightarrow> 2 * val m + 1 dvd x"
  by (simp add: coprime_dvd_mult_right_iff)

lemma mont_redc:
  assumes "mont m R x a" and "mont m R y c" and "val t = val x * val y"
  shows "mont m R (redc m R t) (a * c)"
proof -
  let ?K = "2 ^ halvings R :: int"
  have eq: "val t - a * c * ?K * ?K = val x * (val y - c * ?K) + c * ?K * (val x - a * ?K)"
    by (simp add: assms(3) algebra_simps)
  have "2 * val m + 1 dvd val t - a * c * ?K * ?K"
    unfolding eq using assms(1,2) unfolding mont_def by (intro dvd_add dvd_mult)
  then have "2 * val m + 1 dvd (?K * val (redc m R t) - val t) + (val t - a * c * ?K * ?K)"
    using redc_val by (rule dvd_add [rotated])
  then have "2 * val m + 1 dvd ?K * (val (redc m R t) - a * c * ?K)" by (simp add: algebra_simps)
  then show ?thesis unfolding mont_def by (rule mont_cancel)
qed

lemma mont_pow_val: "mont m R b a \<Longrightarrow> mont m R (mont_pow m R b e) (a ^ nat_of_num e)"
proof (induction e)
  case One then show ?case by simp
next
  case (Bit0 e)
  then have "mont m R (mont_pow m R b (Num.Bit0 e)) (a ^ nat_of_num e * a ^ nat_of_num e)"
    by (simp add: mont_redc)
  then show ?case by (simp add: power_add)
next
  case (Bit1 e)
  then have "mont m R (mont_pow m R b (Num.Bit1 e)) (a ^ nat_of_num e * a ^ nat_of_num e * a)"
    by (auto intro!: mont_redc)
  then show ?case by (simp add: power_add ac_simps)
qed

text \<open>The same on natural numbers, so that numbers can be written in decimal.\<close>

definition mont_power :: "nat \<Rightarrow> nat \<Rightarrow> nat \<Rightarrow> nat \<Rightarrow> nat" where
  "mont_power m R b e = nat_of_num (mont_pow (num_of_nat m) (num_of_nat R) (num_of_nat b) (num_of_nat e))"

lemma val_nat: "val x = int (nat_of_num x)"
  by (induction x) simp_all

lemma val_num_of_nat: "0 < n \<Longrightarrow> val (num_of_nat n) = int n"
  by (simp add: val_nat num_of_nat_inverse)

lemma halvings_power: "halvings (num_of_nat (2 ^ k)) = k"
proof (induction k)
  case (Suc k)
  have "num_of_nat (2 ^ Suc k) = Num.Bit0 (num_of_nat (2 ^ k))"
    using num_of_nat_double [of "2 ^ k"] by (simp add: mult_2)
  with Suc show ?case by simp
qed (simp add: num_of_nat.simps)

lemma order_check:
  assumes q: "is_prime q" and pos: "0 < m" "0 < b" and n: "n = 2 * m + 1"
    and R: "R = 2 ^ k" and pow': "mont_power m R b q = c" and c': "c + i * n = R + j * n"
    and unit': "u * R + 1 = b * u + v * n"
  shows "order_witness n q"
proof -
  note pow = pow' [unfolded R] and unit = unit' [unfolded R]
  have c: "c mod n = 2 ^ k mod n" using c' unfolding R by (metis mod_mult_self1)
  define K where "K = (2 ^ k :: int)"
  define h where "h = int m + 1"
  define a where "a = int b * h ^ k"
  have h: "int n dvd (2 * h) ^ k - 1"
  proof (induction k)
    case (Suc k)
    have eq: "(2 * h) ^ Suc k - 1 = (2 * h) ^ k * int n + ((2 * h) ^ k - 1)"
      by (simp add: h_def n algebra_simps)
    show ?case unfolding eq using Suc by (intro dvd_add dvd_triv_right)
  qed simp
  have cop: "coprime (int n) K" by (simp add: K_def n)
  have aK: "int n dvd int b - a * K"
  proof -
    have "int b - a * K = int b * - ((2 * h) ^ k - 1)"
      by (simp add: a_def K_def power_mult_distrib algebra_simps)
    then show ?thesis using h by (metis dvd_minus_iff dvd_mult)
  qed
  have q0: "0 < q" using prime_gt_1 [OF q] by simp
  have N: "2 * val (num_of_nat m) + 1 = int n" using pos(1) by (simp add: val_num_of_nat n)
  have "mont (num_of_nat m) (num_of_nat (2 ^ k)) (num_of_nat b) a"
    using aK pos(2) by (simp add: mont_def N halvings_power val_num_of_nat K_def)
  from mont_pow_val [OF this, of "num_of_nat q"]
  have "int n dvd int c - a ^ q * K"
    using pow q0 by (simp add: mont_def N halvings_power mont_power_def num_of_nat_inverse K_def
        val_nat [of "mont_pow _ _ _ _"])
  moreover have "int n dvd int c - K"
    using c unfolding K_def by (metis mod_eq_dvd_iff of_nat_mod of_nat_numeral of_nat_power)
  ultimately have "int n dvd (int c - K) - (int c - a ^ q * K)" by (rule dvd_diff [rotated])
  then have "int n dvd K * (a ^ q - 1)" by (simp add: algebra_simps)
  then have aq: "int n dvd a ^ q - 1" using cop by (simp add: coprime_dvd_mult_right_iff)
  define b' where "b' = nat (a mod int n)"
  have b': "int b' = a mod int n" by (simp add: b'_def n)
  have n1: "1 < n" using n pos(1) by simp
  have "int (b' ^ q mod n) = 1"
    using aq n1 by (simp add: b' power_mod of_nat_mod) (simp add: mod_eq_dvd_iff [symmetric])
  then have 1: "b' ^ q mod n = 1" by simp
  have "int n dvd int b - int b' * K"
    using aK unfolding b' mod_eq_dvd_iff [symmetric] by (simp add: mod_mult_left_eq)
  then obtain w where w: "int b - int b' * K = int n * w" by (auto elim: dvdE)
  have "int u * K + 1 = int b * int u + int v * int n"
    using arg_cong [OF unit, of int] by (simp add: K_def)
  then have "int b' * (K * int u) - (K * int u + 1) = int n * - (int v + w * int u)"
    using w by (simp add: algebra_simps)
  then have "int n dvd int b' * (K * int u) - (K * int u + 1)" by (metis dvd_triv_left)
  then have "(int b' * (K * int u)) mod int n = (K * int u + 1) mod int n" by (simp only: mod_eq_dvd_iff)
  then have "int (b' * (2 ^ k * u) mod n) = int ((2 ^ k * u + 1) mod n)"
    by (simp only: K_def of_nat_mod of_nat_mult of_nat_add of_nat_power of_nat_1 of_nat_numeral)
  then have "b' * (2 ^ k * u) mod n = (2 ^ k * u + 1) mod n" by simp
  with q 1 show ?thesis unfolding order_witness_def by blast
qed

lemma mont_power_numeral:
  "mont_power (numeral m) (numeral R) (numeral b) (numeral e) = numeral (mont_pow m R b e)"
proof -
  have "num_of_nat (numeral k) = k" for k
    using nat_of_num_inverse [of k] by (simp only: nat_of_num_numeral)
  then show ?thesis by (simp only: mont_power_def nat_of_num_numeral)
qed

lemma add_bits:
  "Num.One + Num.One = Num.Bit0 Num.One"
  "Num.One + Num.Bit0 n = Num.Bit1 n"
  "Num.One + Num.Bit1 n = Num.Bit0 (Num.inc n)"
  "Num.Bit0 m + Num.One = Num.Bit1 m"
  "Num.Bit0 m + Num.Bit0 n = Num.Bit0 (m + n)"
  "Num.Bit0 m + Num.Bit1 n = Num.Bit1 (m + n)"
  "Num.Bit1 m + Num.One = Num.Bit0 (Num.inc m)"
  "Num.Bit1 m + Num.Bit0 n = Num.Bit1 (m + n)"
  "Num.Bit1 m + Num.Bit1 n = Num.Bit0 (add1 m n)"
  by (simp_all add: add1_def add_One)

lemma add1_bits:
  "add1 Num.One Num.One = Num.Bit1 Num.One"
  "add1 Num.One (Num.Bit0 n) = Num.Bit0 (Num.inc n)"
  "add1 Num.One (Num.Bit1 n) = Num.Bit1 (Num.inc n)"
  "add1 (Num.Bit0 m) Num.One = Num.Bit0 (Num.inc m)"
  "add1 (Num.Bit0 m) (Num.Bit0 n) = Num.Bit1 (m + n)"
  "add1 (Num.Bit0 m) (Num.Bit1 n) = Num.Bit0 (add1 m n)"
  "add1 (Num.Bit1 m) Num.One = Num.Bit1 (Num.inc m)"
  "add1 (Num.Bit1 m) (Num.Bit0 n) = Num.Bit0 (add1 m n)"
  "add1 (Num.Bit1 m) (Num.Bit1 n) = Num.Bit1 (add1 m n)"
  by (simp_all add: add1_def add_One)

lemmas compute_powers = mont_power_numeral mont_pow.simps redc.simps Num.sqr.simps Num.inc.simps
  add_bits add1_bits mult_num_simps

end
