(* ===== verification/P256Prime.thy ===== *)
theory P256Prime
  imports Primality
begin

text \<open>
  The order of the field of P-256 and the order of its base point are prime. Each step of the
  certificates names a number, primes whose product is at least its square root, and an element of each
  of these orders; the elements are in Montgomery form.
\<close>

lemma prime_3: "is_prime 3"
  by (rule small_prime [of _ 2]) simp_all

lemma prime_5: "is_prime 5"
  by (rule small_prime [of _ 3]) simp_all

lemma prime_7: "is_prime 7"
  by (rule small_prime [of _ 3]) simp_all

lemma prime_43: "is_prime 43"
  by (rule small_prime [of _ 7]) simp_all

lemma prime_197: "is_prime 197"
  by (rule small_prime [of _ 15]) simp_all

lemma prime_313: "is_prime 313"
  by (rule small_prime [of _ 18]) simp_all

lemma prime_337: "is_prime 337"
  by (rule small_prime [of _ 19]) simp_all

lemma prime_919: "is_prime 919"
  by (rule small_prime [of _ 31]) simp_all

lemma prime_1087: "is_prime 1087"
  by (rule small_prime [of _ 33]) simp_all

lemma prime_1511: "is_prime 1511"
  by (rule small_prime [of _ 39]) simp_all

lemma prime_704251_order_1:
  "order_witness 704251
     313"
  by (rule order_check [where k = 22 and i = 5 and j = 0
        and R = 4194304
        and c = 673049
        and m = 352125
        and b = 211410
        and u = 407949
        and v = 2307157])
    (simp add: prime_313 | simp only: compute_powers)+

lemma prime_704251_order_2:
  "order_witness 704251
     5"
  by (rule order_check [where k = 22 and i = 5 and j = 0
        and R = 4194304
        and c = 673049
        and m = 352125
        and b = 32203
        and u = 607774
        and v = 3591925])
    (simp add: prime_5 | simp only: compute_powers)+

lemma prime_704251:
  "is_prime 704251"
  by (rule pocklington [of _ "[313, 5]"])
    (simp_all add: prime_704251_order_1 prime_704251_order_2)

lemma prime_4349_order:
  "order_witness 4349
     1087"
  by (rule order_check [where k = 15 and i = 7 and j = 0
        and R = 32768
        and c = 2325
        and m = 2174
        and b = 2408
        and u = 262
        and v = 1829])
    (simp add: prime_1087 | simp only: compute_powers)+

lemma prime_4349:
  "is_prime 4349"
  by (rule pocklington [of _ "[1087]"])
    (simp_all add: prime_4349_order)

lemma prime_78283_order:
  "order_witness 78283
     4349"
  by (rule order_check [where k = 19 and i = 6 and j = 0
        and R = 524288
        and c = 54590
        and m = 39141
        and b = 73711
        and u = 56134
        and v = 323093])
    (simp add: prime_4349 | simp only: compute_powers)+

lemma prime_78283:
  "is_prime 78283"
  by (rule pocklington [of _ "[4349]"])
    (simp_all add: prime_78283_order)

lemma prime_46076956964474543_order_1:
  "order_witness 46076956964474543
     704251"
  by (rule order_check [where k = 58 and i = 6 and j = 0
        and R = 288230376151711744
        and c = 11768634364864486
        and m = 23038478482237271
        and b = 13743837971802361
        and u = 39470610530337203
        and v = 235131657081280250])
    (simp add: prime_704251 | simp only: compute_powers)+

lemma prime_46076956964474543_order_2:
  "order_witness 46076956964474543
     78283"
  by (rule order_check [where k = 58 and i = 6 and j = 0
        and R = 288230376151711744
        and c = 11768634364864486
        and m = 23038478482237271
        and b = 34011496578585813
        and u = 34218088343712288
        and v = 188790333671115503])
    (simp add: prime_78283 | simp only: compute_powers)+

lemma prime_46076956964474543:
  "is_prime 46076956964474543"
  by (rule pocklington [of _ "[704251, 78283]"])
    (simp_all add: prime_46076956964474543_order_1 prime_46076956964474543_order_2)

lemma prime_3677_order:
  "order_witness 3677
     919"
  by (rule order_check [where k = 14 and i = 4 and j = 0
        and R = 16384
        and c = 1676
        and m = 1838
        and b = 1077
        and u = 1019
        and v = 4242])
    (simp add: prime_919 | simp only: compute_powers)+

lemma prime_3677:
  "is_prime 3677"
  by (rule pocklington [of _ "[919]"])
    (simp_all add: prime_3677_order)

lemma prime_66417393611_order_1:
  "order_witness 66417393611
     3677"
  by (rule order_check [where k = 38 and i = 4 and j = 0
        and R = 274877906944
        and c = 9208332500
        and m = 33208696805
        and b = 16604231210
        and u = 18712787933
        and v = 72767392093])
    (simp add: prime_3677 | simp only: compute_powers)+

lemma prime_66417393611_order_2:
  "order_witness 66417393611
     197"
  by (rule order_check [where k = 38 and i = 4 and j = 0
        and R = 274877906944
        and c = 9208332500
        and m = 33208696805
        and b = 37369283943
        and u = 2029429928
        and v = 7257242139])
    (simp add: prime_197 | simp only: compute_powers)+

lemma prime_66417393611:
  "is_prime 66417393611"
  by (rule pocklington [of _ "[3677, 197]"])
    (simp_all add: prime_66417393611_order_1 prime_66417393611_order_2)

lemma prime_11290956913871_order:
  "order_witness 11290956913871
     66417393611"
  by (rule order_check [where k = 46 and i = 6 and j = 0
        and R = 70368744177664
        and c = 2623002694438
        and m = 5645478456935
        and b = 1157436844234
        and u = 10341572324094
        and v = 63391769705051])
    (simp add: prime_66417393611 | simp only: compute_powers)+

lemma prime_11290956913871:
  "is_prime 11290956913871"
  by (rule pocklington [of _ "[66417393611]"])
    (simp_all add: prime_11290956913871_order)

lemma prime_774023187263532362759620327192479577272145303_order_1:
  "order_witness 774023187263532362759620327192479577272145303
     46076956964474543"
  by (rule order_check [where k = 152 and i = 7 and j = 0
        and R = 5708990770823839524233143877797980545530986496
        and c = 290828459979112984915801587450623504625969375
        and m = 387011593631766181379810163596239788636072651
        and b = 324935626624383238736570968386671800205496883
        and u = 76942043718679071995978924823464959718094886
        and v = 535203871286261583201867429111226978911204073])
    (simp add: prime_46076956964474543 | simp only: compute_powers)+

lemma prime_774023187263532362759620327192479577272145303_order_2:
  "order_witness 774023187263532362759620327192479577272145303
     11290956913871"
  by (rule order_check [where k = 152 and i = 7 and j = 0
        and R = 5708990770823839524233143877797980545530986496
        and c = 290828459979112984915801587450623504625969375
        and m = 387011593631766181379810163596239788636072651
        and b = 219354944528880005829976460703424041800830842
        and u = 148291421618609152874314689861364926835756923
        and v = 1051733222266585586353490691991690452378837781])
    (simp add: prime_11290956913871 | simp only: compute_powers)+

lemma prime_774023187263532362759620327192479577272145303:
  "is_prime 774023187263532362759620327192479577272145303"
  by (rule pocklington [of _ "[46076956964474543, 11290956913871]"])
    (simp_all add: prime_774023187263532362759620327192479577272145303_order_1 prime_774023187263532362759620327192479577272145303_order_2)

lemma prime_835945042244614951780389953367877943453916927241_order:
  "order_witness 835945042244614951780389953367877943453916927241
     774023187263532362759620327192479577272145303"
  by (rule order_check [where k = 162 and i = 6 and j = 0
        and R = 5846006549323611672814739330865132078623730171904
        and c = 830336295855921962132399610657864417900228608458
        and m = 417972521122307475890194976683938971726958463620
        and b = 401862478766681271827553790236659737797136304368
        and u = 394210868413469133252091880092265792374941256981
        and v = 2567322794402410924741143550779219434717272284937])
    (simp add: prime_774023187263532362759620327192479577272145303 | simp only: compute_powers)+

lemma prime_835945042244614951780389953367877943453916927241:
  "is_prime 835945042244614951780389953367877943453916927241"
  by (rule pocklington [of _ "[774023187263532362759620327192479577272145303]"])
    (simp_all add: prime_835945042244614951780389953367877943453916927241_order)

lemma prime_p_order:
  "order_witness 115792089210356248762697446949407573530086143415290314195533631308867097853951
     835945042244614951780389953367877943453916927241"
  by (rule order_check [where k = 258 and i = 3 and j = 0
        and R = 463168356949264781694283940034751631413079938662562256157830336031652518559744
        and c = 115792089318196035406191599186528910822821508416691313571229442105051224997891
        and m = 57896044605178124381348723474703786765043071707645157097766815654433548926975
        and b = 69571346598188220819160668616052524645899002602153222194293178199570998475023
        and u = 70448359139699353855031211753863746810502042647452134452487524491896625534502
        and v = 239465957740441534358081680987715825868259637045084890863033807232830627201593])
    (simp add: prime_835945042244614951780389953367877943453916927241 | simp only: compute_powers)+

lemma prime_p:
  "is_prime 115792089210356248762697446949407573530086143415290314195533631308867097853951"
  by (rule pocklington [of _ "[835945042244614951780389953367877943453916927241]"])
    (simp_all add: prime_p_order)

lemma prime_155317_order_1:
  "order_witness 155317
     43"
  by (rule order_check [where k = 20 and i = 6 and j = 0
        and R = 1048576
        and c = 116674
        and m = 77658
        and b = 52584
        and u = 101282
        and v = 649485])
    (simp add: prime_43 | simp only: compute_powers)+

lemma prime_155317_order_2:
  "order_witness 155317
     7"
  by (rule order_check [where k = 20 and i = 6 and j = 0
        and R = 1048576
        and c = 116674
        and m = 77658
        and b = 109340
        and u = 4172
        and v = 25229])
    (simp add: prime_7 | simp only: compute_powers)+

lemma prime_155317_order_3:
  "order_witness 155317
     3"
  by (rule order_check [where k = 20 and i = 6 and j = 0
        and R = 1048576
        and c = 116674
        and m = 77658
        and b = 52106
        and u = 878
        and v = 5633])
    (simp add: prime_3 | simp only: compute_powers)+

lemma prime_155317:
  "is_prime 155317"
  by (rule pocklington [of _ "[43, 7, 3]"])
    (simp_all add: prime_155317_order_1 prime_155317_order_2 prime_155317_order_3)

lemma prime_191039911_order:
  "order_witness 191039911
     155317"
  by (rule order_check [where k = 30 and i = 5 and j = 0
        and R = 1073741824
        and c = 118542269
        and m = 95519955
        and b = 128469351
        and u = 120694524
        and v = 597200923])
    (simp add: prime_155317 | simp only: compute_powers)+

lemma prime_191039911:
  "is_prime 191039911"
  by (rule pocklington [of _ "[155317]"])
    (simp_all add: prime_191039911_order)

lemma prime_3023_order:
  "order_witness 3023
     1511"
  by (rule order_check [where k = 14 and i = 5 and j = 0
        and R = 16384
        and c = 1269
        and m = 1511
        and b = 2053
        and u = 2595
        and v = 12302])
    (simp add: prime_1511 | simp only: compute_powers)+

lemma prime_3023:
  "is_prime 3023"
  by (rule pocklington [of _ "[1511]"])
    (simp_all add: prime_3023_order)

lemma prime_208150935158385979_order_1:
  "order_witness 208150935158385979
     191039911"
  by (rule order_check [where k = 60 and i = 5 and j = 0
        and R = 1152921504606846976
        and c = 112166828814917081
        and m = 104075467579192989
        and b = 83620904830583155
        and u = 129915525873252265
        and v = 667394309954992354])
    (simp add: prime_191039911 | simp only: compute_powers)+

lemma prime_208150935158385979_order_2:
  "order_witness 208150935158385979
     3023"
  by (rule order_check [where k = 60 and i = 5 and j = 0
        and R = 1152921504606846976
        and c = 112166828814917081
        and m = 104075467579192989
        and b = 123402282631767439
        and u = 85047494323534299
        and v = 420646825921154116])
    (simp add: prime_3023 | simp only: compute_powers)+

lemma prime_208150935158385979:
  "is_prime 208150935158385979"
  by (rule pocklington [of _ "[191039911, 3023]"])
    (simp_all add: prime_208150935158385979_order_1 prime_208150935158385979_order_2)

lemma prime_2624747550333869278416773953_order:
  "order_witness 2624747550333869278416773953
     208150935158385979"
  by (rule order_check [where k = 94 and i = 7 and j = 0
        and R = 19807040628566084398385987584
        and c = 1433807776228999449468569913
        and m = 1312373775166934639208386976
        and b = 2198045764368291579639566897
        and u = 420879220908030073159933741
        and v = 2823608707997214307416217956])
    (simp add: prime_208150935158385979 | simp only: compute_powers)+

lemma prime_2624747550333869278416773953:
  "is_prime 2624747550333869278416773953"
  by (rule pocklington [of _ "[208150935158385979]"])
    (simp_all add: prime_2624747550333869278416773953_order)

lemma prime_104471_order:
  "order_witness 104471
     337"
  by (rule order_check [where k = 19 and i = 4 and j = 0
        and R = 524288
        and c = 106404
        and m = 52235
        and b = 29875
        and u = 74706
        and v = 353549])
    (simp add: prime_337 | simp only: compute_powers)+

lemma prime_104471:
  "is_prime 104471"
  by (rule pocklington [of _ "[337]"])
    (simp_all add: prime_104471_order)

lemma prime_3969899_order:
  "order_witness 3969899
     104471"
  by (rule order_check [where k = 24 and i = 4 and j = 0
        and R = 16777216
        and c = 897620
        and m = 1984949
        and b = 1073445
        and u = 3504236
        and v = 13861743])
    (simp add: prime_104471 | simp only: compute_powers)+

lemma prime_3969899:
  "is_prime 3969899"
  by (rule pocklington [of _ "[104471]"])
    (simp_all add: prime_3969899_order)

lemma prime_1002328039319_order:
  "order_witness 1002328039319
     3969899"
  by (rule order_check [where k = 42 and i = 4 and j = 0
        and R = 4398046511104
        and c = 388734353828
        and m = 501164019659
        and b = 130538310228
        and u = 246289538199
        and v = 1048601438675])
    (simp add: prime_3969899 | simp only: compute_powers)+

lemma prime_1002328039319:
  "is_prime 1002328039319"
  by (rule pocklington [of _ "[3969899]"])
    (simp_all add: prime_1002328039319_order)

lemma prime_n_order_1:
  "order_witness 115792089210356248762697446949407573529996955224135760342422259061068512044369
     2624747550333869278416773953"
  by (rule order_check [where k = 258 and i = 3 and j = 0
        and R = 463168356949264781694283940034751631413079938662562256157830336031652518559744
        and c = 115792089318196035406191599186528910823089072990154975130563558848446982426637
        and m = 57896044605178124381348723474703786764998477612067880171211129530534256022184
        and b = 80481244486794066478450998670549450605303600670891241005564879544228796483806
        and u = 37945315304327909595045003849693201643992705443586772843187710859938698785945
        and v = 125407385291330384364903744137231863784064436899829401185156766227571011083619])
    (simp add: prime_2624747550333869278416773953 | simp only: compute_powers)+

lemma prime_n_order_2:
  "order_witness 115792089210356248762697446949407573529996955224135760342422259061068512044369
     1002328039319"
  by (rule order_check [where k = 258 and i = 3 and j = 0
        and R = 463168356949264781694283940034751631413079938662562256157830336031652518559744
        and c = 115792089318196035406191599186528910823089072990154975130563558848446982426637
        and m = 57896044605178124381348723474703786764998477612067880171211129530534256022184
        and b = 23150554083453978378380775618231661366076130106851365229559934396585289293178
        and u = 67485739009384133447575408548982864857840742174965679573712124065487925664018
        and v = 256450391440289183661367967807012013093338115147550893413079099329456458130781])
    (simp add: prime_1002328039319 | simp only: compute_powers)+

lemma prime_n:
  "is_prime 115792089210356248762697446949407573529996955224135760342422259061068512044369"
  by (rule pocklington [of _ "[2624747550333869278416773953, 1002328039319]"])
    (simp_all add: prime_n_order_1 prime_n_order_2)

definition p256_p :: nat where
  "p256_p = 115792089210356248762697446949407573530086143415290314195533631308867097853951"

definition p256_n :: nat where
  "p256_n = 115792089210356248762697446949407573529996955224135760342422259061068512044369"

lemma p256_prime: "is_prime p256_p"
  unfolding p256_p_def by (rule prime_p)

lemma p256_order_prime: "is_prime p256_n"
  unfolding p256_n_def by (rule prime_n)

end
