(* ===== verification/Weierstrass.thy ===== *)
theory Weierstrass
  imports Main
begin

text \<open>
  The group of a curve in short Weierstrass form over a field in which two is not zero: addition by
  chords and tangents (SEC 1, section 2.2), and that it is associative. A chord and a tangent are both
  lines with a \<open>slope\<close> in the sense below, so that the proofs need no distinction between them.
\<close>

datatype 'a point = Infinity | Point 'a 'a

definition on_curve :: "'a::field \<Rightarrow> 'a \<Rightarrow> 'a point \<Rightarrow> bool" where
  "on_curve a b P = (case P of Infinity \<Rightarrow> True | Point x y \<Rightarrow> y ^ 2 = x ^ 3 + a * x + b)"

definition point_neg :: "'a::field point \<Rightarrow> 'a point" where
  "point_neg P = (case P of Infinity \<Rightarrow> Infinity | Point x y \<Rightarrow> Point x (- y))"

definition point_add :: "'a::field \<Rightarrow> 'a point \<Rightarrow> 'a point \<Rightarrow> 'a point" where
  "point_add a P Q =
     (case P of
        Infinity \<Rightarrow> Q
      | Point x1 y1 \<Rightarrow>
          (case Q of
             Infinity \<Rightarrow> P
           | Point x2 y2 \<Rightarrow>
               if x1 = x2 \<and> y1 = - y2 then Infinity
               else
                 let l = (if x1 = x2 then (3 * x1 ^ 2 + a) / (2 * y1) else (y2 - y1) / (x2 - x1));
                     x3 = l ^ 2 - x1 - x2
                 in Point x3 (l * (x1 - x3) - y1)))"

primrec point_mul :: "'a::field \<Rightarrow> nat \<Rightarrow> 'a point \<Rightarrow> 'a point" where
  "point_mul a 0 P = Infinity"
| "point_mul a (Suc n) P = point_add a P (point_mul a n P)"

definition slope :: "'a::field \<Rightarrow> 'a \<Rightarrow> 'a \<Rightarrow> 'a \<Rightarrow> 'a \<Rightarrow> 'a \<Rightarrow> bool" where
  "slope a x1 y1 x2 y2 l \<longleftrightarrow>
     y1 - y2 = l * (x1 - x2) \<and> l * (y1 + y2) = x1 ^ 2 + x1 * x2 + x2 ^ 2 + a"

locale elliptic_curve =
  fixes a b :: "'a::field"
  assumes two: "(2 :: 'a) \<noteq> 0"
    and smooth: "4 * a ^ 3 + 27 * b ^ 2 \<noteq> 0"
begin

lemma neg_self: "y = - y \<longleftrightarrow> y = 0" for y :: 'a
  using two by (metis add.inverse_neutral add_eq_0_iff mult_2 mult_eq_0_iff)

lemma slope_exists:
  assumes "on_curve a b (Point x1 y1)" and "on_curve a b (Point x2 y2)" and "\<not> (x1 = x2 \<and> y1 = - y2)"
  shows "\<exists>l. slope a x1 y1 x2 y2 l"
proof (cases "x1 = x2")
  case True
  have "(y1 - y2) * (y1 + y2) = 0"
    using assms(1,2) True by (simp add: on_curve_def algebra_simps power2_eq_square)
  then have "y1 = y2" using assms(3) True by (auto simp: add_eq_0_iff)
  with True show ?thesis
    using two assms(3) by (intro exI [of _ "(3 * x1 ^ 2 + a) / (2 * y1)"])
      (auto simp: slope_def neg_self field_simps power2_eq_square)
next
  case False
  then have "x1 - x2 \<noteq> 0" by simp
  moreover have "(y1 - y2) * (y1 + y2) = (x1 - x2) * (x1 ^ 2 + x1 * x2 + x2 ^ 2 + a)"
    using assms(1,2) by (simp add: on_curve_def) algebra
  ultimately show ?thesis
    by (intro exI [of _ "(y1 - y2) / (x1 - x2)"]) (simp add: slope_def nonzero_divide_eq_eq nonzero_eq_divide_eq)
qed

lemma slope_add:
  assumes "slope a x1 y1 x2 y2 l" and "\<not> (x1 = x2 \<and> y1 = - y2)"
  shows "point_add a (Point x1 y1) (Point x2 y2) = Point (l ^ 2 - x1 - x2) (l * (2 * x1 + x2 - l ^ 2) - y1)"
proof -
  have "l = (if x1 = x2 then (3 * x1 ^ 2 + a) / (2 * y1) else (y2 - y1) / (x2 - x1))"
  proof (cases "x1 = x2")
    case True
    with assms have "y1 = y2" "y1 \<noteq> 0" by (auto simp: slope_def)
    with assms True two show ?thesis by (simp add: slope_def nonzero_eq_divide_eq algebra_simps power2_eq_square)
  next
    case False
    with assms show ?thesis by (simp add: slope_def nonzero_eq_divide_eq algebra_simps)
  qed
  with assms(2) show ?thesis by (auto simp: point_add_def Let_def algebra_simps)
qed

text \<open>The line through two points meets the curve in a third one, of which the sum is the negative.\<close>

lemma slope_third:
  assumes "on_curve a b (Point x1 y1)" and "slope a x1 y1 x2 y2 l"
  shows "on_curve a b (Point (l ^ 2 - x1 - x2) (l * (2 * x1 + x2 - l ^ 2) - y1))"
  using assms unfolding on_curve_def slope_def by simp algebra

lemma slope_sym: "slope a x1 y1 x2 y2 l \<Longrightarrow> slope a x2 y2 x1 y1 l"
  unfolding slope_def by algebra

lemma slope_neg: "slope a x1 y1 x2 y2 l \<Longrightarrow> slope a x1 (- y1) x2 (- y2) (- l)"
  unfolding slope_def by algebra

lemma slope_rotate:
  assumes "slope a x1 y1 x2 y2 l"
  shows "slope a (l ^ 2 - x1 - x2) (- (l * (2 * x1 + x2 - l ^ 2) - y1)) x2 y2 l"
  using assms unfolding slope_def by algebra

lemma add_Inf [simp]:
  "point_add a Infinity P = P" "point_add a P Infinity = P" "point_neg Infinity = Infinity"
  by (auto simp: point_add_def point_neg_def split: point.splits)

lemma neg_Point [simp]: "point_neg (Point x y) = Point x (- y)"
  by (simp add: point_neg_def)

lemma neg_neg [simp]: "point_neg (point_neg P) = P"
  by (cases P) simp_all

lemma neg_closed: "on_curve a b P \<Longrightarrow> on_curve a b (point_neg P)"
  by (cases P) (simp_all add: on_curve_def)

lemma add_neg [simp]: "point_add a P (point_neg P) = Infinity"
  by (cases P) (simp_all add: point_add_def)

lemma add_neg_left [simp]: "point_add a (point_neg P) P = Infinity"
  using add_neg [of "point_neg P"] by simp

text \<open>Two points are at infinity, opposite, or on a line with a slope.\<close>

lemma add_cases:
  assumes "on_curve a b P" and "on_curve a b Q"
  obtains (left) "P = Infinity" | (right) "Q = Infinity" | (opposite) "Q = point_neg P"
    | (line) x1 y1 x2 y2 l where "P = Point x1 y1" "Q = Point x2 y2" "\<not> (x1 = x2 \<and> y1 = - y2)"
        "slope a x1 y1 x2 y2 l"
proof (cases P)
  case (Point x1 y1)
  note P = this
  show ?thesis
  proof (cases Q)
    case (Point x2 y2)
    show ?thesis
    proof (cases "x1 = x2 \<and> y1 = - y2")
      case True
      with P Point show ?thesis by (intro opposite) simp
    next
      case False
      with slope_exists [of x1 y1 x2 y2] assms P Point show ?thesis using line by blast
    qed
  qed (rule right)
qed (rule left)

lemma add_comm:
  assumes "on_curve a b P" and "on_curve a b Q"
  shows "point_add a P Q = point_add a Q P"
  using assms
proof (cases rule: add_cases)
  case (line x1 y1 x2 y2 l)
  have "y1 - y2 = l * (x1 - x2)" using line(4) by (simp add: slope_def)
  then have "l * (2 * x1 + x2 - l ^ 2) - y1 = l * (2 * x2 + x1 - l ^ 2) - y2" by algebra
  moreover have "\<not> (x2 = x1 \<and> y2 = - y1)" using line(3) by auto
  ultimately show ?thesis
    using line(1,2) slope_add [OF line(4,3)] slope_add [OF slope_sym [OF line(4)]] by (simp add: algebra_simps)
qed simp_all

lemma add_closed:
  assumes "on_curve a b P" and "on_curve a b Q"
  shows "on_curve a b (point_add a P Q)"
  using assms
proof (cases rule: add_cases)
  case (line x1 y1 x2 y2 l)
  with slope_third [of x1 y1 x2 y2 l] slope_add [OF line(4,3)] assms(1) show ?thesis by simp
qed (use assms in \<open>simp_all add: on_curve_def\<close>)

lemma neg_add:
  assumes "on_curve a b P" and "on_curve a b Q"
  shows "point_neg (point_add a P Q) = point_add a (point_neg P) (point_neg Q)"
  using assms
proof (cases rule: add_cases)
  case (line x1 y1 x2 y2 l)
  have "\<not> (x1 = x2 \<and> - y1 = - (- y2))" using line(3) by auto
  from slope_add [OF slope_neg [OF line(4)] this] slope_add [OF line(4,3)] line(1,2)
  show ?thesis by (simp add: algebra_simps)
qed simp_all

text \<open>No point is singular, so that what was added can be taken away.\<close>

lemma nonsingular:
  assumes "on_curve a b (Point x 0)"
  shows "3 * x ^ 2 + a \<noteq> 0"
proof
  assume "3 * x ^ 2 + a = 0"
  with assms have "4 * a ^ 3 + 27 * b ^ 2 = 0" unfolding on_curve_def by simp algebra
  with smooth show False by simp
qed

lemma add_cancel:
  assumes "on_curve a b P" and "on_curve a b Q"
  shows "point_add a (point_add a P Q) (point_neg Q) = P"
  using assms
proof (cases rule: add_cases)
  case (line x1 y1 x2 y2 l)
  define x3 where "x3 = l ^ 2 - x1 - x2"
  define y3 where "y3 = l * (2 * x1 + x2 - l ^ 2) - y1"
  have s: "slope a x3 (- y3) x2 y2 l" unfolding x3_def y3_def by (rule slope_rotate [OF line(4)])
  have s': "slope a x3 y3 x2 (- y2) (- l)" using slope_neg [OF s] by simp
  have "\<not> (x3 = x2 \<and> y3 = - (- y2))"
  proof
    assume eq: "x3 = x2 \<and> y3 = - (- y2)"
    then have "- y3 - y2 = 0" using s unfolding slope_def by simp
    with eq have "y2 = - y2" by (simp add: eq_neg_iff_add_eq_0 add_eq_0_iff)
    then have "y2 = 0" using neg_self by blast
    with s eq have "3 * x2 ^ 2 + a = 0" unfolding slope_def by simp algebra
    with nonsingular [of x2] assms(2) line(2) \<open>y2 = 0\<close> show False by simp
  qed
  from slope_add [OF s' this] have "point_add a (Point x3 y3) (Point x2 (- y2)) = Point x1 y1"
    using line(4) by (simp add: x3_def y3_def slope_def algebra_simps)
  with line(1,2) slope_add [OF line(4,3)] show ?thesis by (simp add: x3_def y3_def)
qed simp_all

text \<open>
  Associativity, when no partial sum is at infinity: with the slopes \<open>l\<close> and \<open>m\<close> of the first two and the
  last two points, the lines of the two outer additions have the slopes \<open>- l - t\<close> and \<open>- m - t\<close>, where
  \<open>t = (x3 - x1) / (l - m)\<close>.
\<close>

lemma outer_slope:
  assumes l: "slope a x1 y1 x2 y2 l" and m: "slope a x2 y2 x3 y3 m" and "l \<noteq> m"
    and t: "t * (l - m) = x3 - x1"
  shows "slope a (l ^ 2 - x1 - x2) (l * (2 * x1 + x2 - l ^ 2) - y1) x3 y3 (- l - t)"
    and "2 * y2 = t * (l ^ 2 - x1 - x2 - x3) - (l + m) * (x3 - x2)"
proof -
  have "(l - m) * (2 * y2 - t * (l ^ 2 - x1 - x2 - x3) + (l + m) * (x3 - x2)) = 0"
    using assms unfolding slope_def by algebra
  then have "2 * y2 - t * (l ^ 2 - x1 - x2 - x3) + (l + m) * (x3 - x2) = 0"
    using \<open>l \<noteq> m\<close> by simp
  then show y2: "2 * y2 = t * (l ^ 2 - x1 - x2 - x3) - (l + m) * (x3 - x2)" by algebra
  then show "slope a (l ^ 2 - x1 - x2) (l * (2 * x1 + x2 - l ^ 2) - y1) x3 y3 (- l - t)"
    using l m t unfolding slope_def by algebra
qed

lemma add_assoc_lines:
  assumes l: "slope a x1 y1 x2 y2 l" and m: "slope a x2 y2 x3 y3 m"
    and n12: "\<not> (x1 = x2 \<and> y1 = - y2)" and n23: "\<not> (x2 = x3 \<and> y2 = - y3)"
    and P12: "point_add a (Point x1 y1) (Point x2 y2) = Point xa ya" and na: "\<not> (xa = x3 \<and> ya = - y3)"
    and P23: "point_add a (Point x2 y2) (Point x3 y3) = Point xc yc" and nc: "\<not> (x1 = xc \<and> y1 = - yc)"
    and on: "on_curve a b (Point x1 y1)" "on_curve a b (Point x2 y2)"
  shows "point_add a (Point xa ya) (Point x3 y3) = point_add a (Point x1 y1) (Point xc yc)"
proof (cases "l = m")
  case True
  have A: "xa = l ^ 2 - x1 - x2" "ya = l * (2 * x1 + x2 - l ^ 2) - y1"
    using slope_add [OF l n12] P12 by simp_all
  have ys: "y1 = y2 + l * (x1 - x2)" "y3 = y2 - l * (x2 - x3)"
    using l m True by (simp_all add: slope_def algebra_simps)
  have "(xa - x3) * (x1 - x3) = 0" using l m True unfolding A slope_def by algebra
  moreover have "xa \<noteq> x3"
  proof
    assume "xa = x3"
    moreover from this have "ya = - y3" using ys unfolding A by (simp add: algebra_simps) algebra
    ultimately show False using na by simp
  qed
  ultimately have "x1 = x3" by simp
  moreover from this have "y1 = y3" by (simp add: ys algebra_simps)
  ultimately show ?thesis using P12 P23 on
    by (metis add_comm add_closed)
next
  case False
  define t where "t = (x3 - x1) / (l - m)"
  have t: "t * (l - m) = x3 - x1" using False by (simp add: t_def)
  have t': "t * (m - l) = x1 - x3" using t by algebra
  note A = slope_add [OF l n12, unfolded P12 point.inject]
  have C: "xc = m ^ 2 - x3 - x2" "yc = m * (2 * x3 + x2 - m ^ 2) - y3"
  proof -
    have "y2 = y3 + m * (x2 - x3)" using m by (simp add: slope_def algebra_simps)
    then have "m * (2 * x2 + x3 - m ^ 2) - y2 = m * (2 * x3 + x2 - m ^ 2) - y3"
      by (simp only:) (simp add: algebra_simps)
    then show "xc = m ^ 2 - x3 - x2" "yc = m * (2 * x3 + x2 - m ^ 2) - y3"
      using slope_add [OF m n23, unfolded P23 point.inject] by simp_all
  qed
  note o1 = outer_slope [OF l m False t]
  note o2 = outer_slope [OF slope_sym [OF m] slope_sym [OF l] False [symmetric] t']
  have "slope a xa ya x3 y3 (- l - t)" using o1(1) A by simp
  from slope_add [OF this na]
  have 1: "point_add a (Point xa ya) (Point x3 y3)
      = Point ((- l - t) ^ 2 - xa - x3) ((- l - t) * (2 * xa + x3 - (- l - t) ^ 2) - ya)" .
  have "slope a x1 y1 xc yc (- m - t)" using slope_sym [OF o2(1)] C by simp
  from slope_add [OF this nc]
  have 2: "point_add a (Point x1 y1) (Point xc yc)
      = Point ((- m - t) ^ 2 - x1 - xc) ((- m - t) * (2 * x1 + xc - (- m - t) ^ 2) - y1)" .
  have "(- l - t) ^ 2 - xa - x3 = (- m - t) ^ 2 - x1 - xc" using t A C by algebra
  moreover have "(- l - t) * (2 * xa + x3 - (- l - t) ^ 2) - ya = (- m - t) * (2 * x1 + xc - (- m - t) ^ 2) - y1"
    using t A C o1(2) l unfolding slope_def by algebra
  ultimately show ?thesis by (simp only: 1 2)
qed

lemma add_assoc:
  assumes P: "on_curve a b P" and Q: "on_curve a b Q" and R: "on_curve a b R"
  shows "point_add a (point_add a P Q) R = point_add a P (point_add a Q R)"
proof -
  consider "P = Infinity \<or> Q = Infinity \<or> R = Infinity" | "Q = point_neg P" | "R = point_neg Q"
    | "R = point_neg (point_add a P Q)" | "point_add a Q R = point_neg P"
    | (lines) "P \<noteq> Infinity" "Q \<noteq> Infinity" "R \<noteq> Infinity" "Q \<noteq> point_neg P" "R \<noteq> point_neg Q"
        "R \<noteq> point_neg (point_add a P Q)" "point_add a Q R \<noteq> point_neg P"
    by blast
  then show ?thesis
  proof cases
    case 1
    then show ?thesis by auto
  next
    case 2
    have "point_add a P (point_add a (point_neg P) R) = point_add a (point_add a R (point_neg P)) (point_neg (point_neg P))"
      using P R by (simp add: add_comm add_closed neg_closed)
    with 2 add_cancel [OF R neg_closed [OF P]] show ?thesis by simp
  next
    case 3
    with add_cancel [OF P Q] show ?thesis by simp
  next
    case 4
    have "point_add a Q R = point_add a (point_add a (point_neg P) (point_neg Q)) (point_neg (point_neg Q))"
      using 4 P Q by (simp add: neg_add add_comm add_closed neg_closed)
    with 4 add_cancel [OF neg_closed [OF P] neg_closed [OF Q]] show ?thesis by simp
  next
    case 5
    have "P = point_add a (point_neg R) (point_neg Q)"
      using arg_cong [OF 5, of point_neg] Q R by (simp add: neg_add add_comm neg_closed)
    then have "point_add a P Q = point_neg R"
      using add_cancel [OF neg_closed [OF R] neg_closed [OF Q]] by simp
    with 5 show ?thesis by simp
  next
    case lines
    then obtain x1 y1 x2 y2 x3 y3 where pts: "P = Point x1 y1" "Q = Point x2 y2" "R = Point x3 y3"
      by (metis point.exhaust)
    have n: "\<not> (x1 = x2 \<and> y1 = - y2)" "\<not> (x2 = x3 \<and> y2 = - y3)" using lines(4,5) pts by auto
    obtain l m where l: "slope a x1 y1 x2 y2 l" and m: "slope a x2 y2 x3 y3 m"
      using slope_exists n P Q R pts by metis
    obtain xa ya where A: "point_add a P Q = Point xa ya" using slope_add [OF l n(1)] pts by simp
    obtain xc yc where C: "point_add a Q R = Point xc yc" using slope_add [OF m n(2)] pts by simp
    have "\<not> (xa = x3 \<and> ya = - y3)" "\<not> (x1 = xc \<and> y1 = - yc)" using lines(6,7) pts A C by auto
    from add_assoc_lines [OF l m n A [unfolded pts] this(1) C [unfolded pts] this(2)] P Q pts A C
    show ?thesis by simp
  qed
qed

section \<open>Multiples\<close>

lemma mul_closed: "on_curve a b P \<Longrightarrow> on_curve a b (point_mul a n P)"
  by (induction n) (simp_all add: add_closed, simp add: on_curve_def)

lemma mul_add:
  assumes "on_curve a b P"
  shows "point_mul a (m + n) P = point_add a (point_mul a m P) (point_mul a n P)"
  by (induction m) (simp_all add: add_assoc assms mul_closed)

lemma mul_mult:
  assumes "on_curve a b P"
  shows "point_mul a (m * n) P = point_mul a m (point_mul a n P)"
  by (induction m) (simp_all add: mul_add assms)

lemma mul_Infinity [simp]: "point_mul a n Infinity = Infinity"
  by (induction n) simp_all

lemma mul_mul_comm:
  assumes "on_curve a b P"
  shows "point_mul a m (point_mul a n P) = point_mul a n (point_mul a m P)"
  using mul_mult [OF assms, of m n] mul_mult [OF assms, of n m] by (simp add: mult.commute)

end

end
