(* ===== verification/P256Field.thy ===== *)
theory P256Field
  imports P256Prime Weierstrass
begin

text \<open>
  The field of P-256, numbers modulo the prime \<open>p256_p\<close>, as a type with the arithmetic of the
  library's fields; and the curve over it, whose addition is that of the theory \<open>Weierstrass\<close>.
\<close>

lemma p256_p_gt: "108 < p256_p"
  by (simp add: p256_p_def)

lemma p256_pos [simp]: "0 < p256_p" "1 < p256_p" "Suc 0 < p256_p" "p256_p \<noteq> Suc 0"
  using p256_p_gt by simp_all

section \<open>The field\<close>

typedef fp = "{x :: int. 0 \<le> x \<and> x < int p256_p}"
  by (rule exI [of _ 0]) simp

setup_lifting type_definition_fp

instantiation fp :: comm_ring_1
begin

lift_definition zero_fp :: fp is 0 by simp

lift_definition one_fp :: fp is 1 by simp

lift_definition plus_fp :: "fp \<Rightarrow> fp \<Rightarrow> fp" is "\<lambda>x y. (x + y) mod int p256_p" by simp

lift_definition minus_fp :: "fp \<Rightarrow> fp \<Rightarrow> fp" is "\<lambda>x y. (x - y) mod int p256_p" by simp

lift_definition uminus_fp :: "fp \<Rightarrow> fp" is "\<lambda>x. (- x) mod int p256_p" by simp

lift_definition times_fp :: "fp \<Rightarrow> fp \<Rightarrow> fp" is "\<lambda>x y. (x * y) mod int p256_p" by simp

instance
proof
  fix a b c :: fp
  show "a * b * c = a * (b * c)" by transfer (simp add: mod_simps mult.assoc)
  show "a * b = b * a" by transfer (simp add: mult.commute)
  show "1 * a = a" by transfer simp
  show "a + b + c = a + (b + c)" by transfer (simp add: mod_simps add.assoc)
  show "a + b = b + a" by transfer (simp add: add.commute)
  show "0 + a = a" by transfer simp
  show "- a + a = 0" by transfer (simp add: mod_simps)
  show "a - b = a + - b" by transfer (simp add: mod_simps)
  show "(a + b) * c = a * c + b * c" by transfer (simp add: mod_simps algebra_simps)
  show "(0 :: fp) \<noteq> 1" by transfer simp
qed

end

lemma Rep_power: "Rep_fp (x ^ k) = Rep_fp x ^ k mod int p256_p"
proof (induction k)
  case 0
  then show ?case by (simp add: one_fp.rep_eq)
next
  case (Suc k)
  then show ?case by (simp add: times_fp.rep_eq mod_mult_right_eq)
qed

lemma Rep_of_nat: "Rep_fp (of_nat n) = int (n mod p256_p)"
proof (induction n)
  case 0
  then show ?case by (simp add: zero_fp.rep_eq)
next
  case (Suc n)
  then show ?case by (simp add: plus_fp.rep_eq one_fp.rep_eq of_nat_mod mod_simps)
qed

lemma of_nat_eq_iff_fp: "of_nat m = (of_nat n :: fp) \<longleftrightarrow> m mod p256_p = n mod p256_p"
  by (simp add: Rep_fp_inject [symmetric] Rep_of_nat)

lemma of_nat_mod_fp [simp]: "of_nat (n mod p256_p) = (of_nat n :: fp)"
  by (simp add: of_nat_eq_iff_fp)

lemma fp_of_nat: "\<exists>n < p256_p. (x :: fp) = of_nat n"
proof -
  have "0 \<le> Rep_fp x" "Rep_fp x < int p256_p" using Rep_fp [of x] by simp_all
  then have "x = of_nat (nat (Rep_fp x)) \<and> nat (Rep_fp x) < p256_p"
    by (simp only: Rep_fp_inject [symmetric] Rep_of_nat nat_less_iff) simp
  then show ?thesis by blast
qed

text \<open>Fermat's theorem gives the inverse as a power.\<close>

lemma fp_fermat:
  fixes x :: fp
  assumes "x \<noteq> 0"
  shows "x ^ (p256_p - 2) * x = 1"
proof -
  obtain n where n: "n < p256_p" "x = of_nat n" using fp_of_nat by blast
  with assms have "\<not> p256_p dvd n" by (metis dvd_imp_le linorder_not_le of_nat_0 gr0I)
  then have "n ^ (p256_p - 1) mod p256_p = 1" by (rule fermat [OF p256_prime])
  then have "of_nat (n ^ (p256_p - 1)) = (of_nat 1 :: fp)" unfolding of_nat_eq_iff_fp using p256_pos(2) by simp
  then have "x ^ (p256_p - 1) = 1" by (simp add: n)
  moreover have "p256_p - 1 = Suc (p256_p - 2)" using p256_p_gt by simp
  ultimately show ?thesis by (simp add: mult.commute)
qed

instantiation fp :: field
begin

definition inverse_fp :: "fp \<Rightarrow> fp" where
  "inverse_fp x = x ^ (p256_p - 2)"

definition divide_fp :: "fp \<Rightarrow> fp \<Rightarrow> fp" where
  "divide_fp x y = x * inverse y"

instance
proof
  fix a b :: fp
  show "a \<noteq> 0 \<Longrightarrow> inverse a * a = 1" unfolding inverse_fp_def by (rule fp_fermat)
  show "a div b = a * inverse b" by (rule divide_fp_def)
  show "inverse (0 :: fp) = 0" unfolding inverse_fp_def using p256_p_gt by (simp add: power_0_left)
qed

end

lemma numeral_fp_nonzero: "numeral k < p256_p \<Longrightarrow> (numeral k :: fp) \<noteq> 0"
  using of_nat_eq_iff_fp [of "numeral k" 0] by simp

instantiation fp :: equal
begin

definition equal_fp :: "fp \<Rightarrow> fp \<Rightarrow> bool" where
  "equal_fp x y \<longleftrightarrow> Rep_fp x = Rep_fp y"

instance by standard (simp add: equal_fp_def Rep_fp_inject)

end

lemma fp_numeral_0_iff: "(numeral k = (0 :: fp)) \<longleftrightarrow> numeral k mod p256_p = 0"
  using of_nat_eq_iff_fp [of "numeral k" 0] by simp

section \<open>The curve\<close>

definition p256_a :: fp where "p256_a = - 3"

definition p256_b_nat :: nat where
  "p256_b_nat = 41058363725152142129326129780047268409114441015993725554835256314039467401291"

definition p256_b :: fp where
  "p256_b = of_nat p256_b_nat"

interpretation p256: elliptic_curve p256_a p256_b
proof
  show "(2 :: fp) \<noteq> 0" using p256_p_gt by (intro numeral_fp_nonzero) simp
  have "(of_nat 108 :: fp) \<noteq> of_nat (27 * p256_b_nat ^ 2)"
    by (simp only: of_nat_eq_iff_fp p256_b_nat_def p256_p_def) simp
  then show "4 * p256_a ^ 3 + 27 * p256_b ^ 2 \<noteq> 0"
    by (simp add: p256_a_def p256_b_def eq_neg_iff_add_eq_0)
qed

end
