(* ===== verification/RsaSpec.thy ===== *)
theory RsaSpec
  imports RsaVerify
begin

text \<open>
  What the RSA checks accept, over natural numbers and bytes: the public operation is the power
  \<open>s^e mod m\<close> of RFC 8017, its value written in big-endian bytes; the PKCS #1 v1.5 check accepts one
  encoded message for each digest; the PSS check accepts exactly the encodings with a 32-byte salt.
\<close>

section \<open>Bytes of a number\<close>

definition be_bytes :: "nat \<Rightarrow> nat \<Rightarrow> bytes" where
  "be_bytes n v = map (\<lambda>i. of_nat (v div 2 ^ (8 * (n - 1 - i)))) [0..<n]"

lemma length_be_bytes [simp]: "length (be_bytes n v) = n"
  by (simp add: be_bytes_def)

lemma be_bytes_zero [simp]: "be_bytes n 0 = replicate n 0"
  by (simp add: be_bytes_def map_replicate_trivial)

lemma be_bytes_Suc: "be_bytes (Suc n) v = be_bytes n (v div 2 ^ 8) @ [of_nat v]"
proof -
  have "v div 2 ^ (8 * (n - i)) = v div 2 ^ 8 div 2 ^ (8 * (n - 1 - i))" if "i < n" for i
  proof -
    have "8 * (n - i) = 8 + 8 * (n - 1 - i)" using that by simp
    then have "(2 :: nat) ^ (8 * (n - i)) = 2 ^ 8 * 2 ^ (8 * (n - 1 - i))"
      by (simp only: power_add)
    then show ?thesis by (simp only: div_mult2_eq)
  qed
  then show ?thesis by (simp add: be_bytes_def)
qed

lemma be_val_be_bytes: "be_val (be_bytes n v) = v mod 2 ^ (8 * n)"
proof (induction n arbitrary: v)
  case (Suc n)
  have "unat (of_nat v :: u8) = v mod 256" by (simp add: unat_of_nat)
  with Suc mod_mult2_eq [of v 256 "2 ^ (8 * n)"] show ?case
    by (simp add: be_bytes_Suc power_add)
qed (simp add: be_bytes_def)

lemma be_bytes_be_val [simp]: "be_bytes (length bs) (be_val bs) = bs"
proof (induction bs rule: rev_induct)
  case (snoc b bs)
  have "(unat b + be_val bs * 2 ^ 8) div 2 ^ 8 = be_val bs" using unat_u8_less [of b] by simp
  moreover have "of_nat (unat b + be_val bs * 2 ^ 8) = b" 
  proof -
    have "(of_nat (2 ^ 8) :: u8) = 0" by (simp flip: word_of_nat_eq_0_iff)
    then show ?thesis by (simp only: of_nat_add of_nat_mult mult_zero_right) simp
  qed
  ultimately show ?case using snoc by (simp add: be_bytes_Suc)
qed (simp add: be_bytes_def)

text \<open>\<open>to_be_fixed\<close> writes the low bytes of the number.\<close>

lemma to_be_inner:
  fixes f :: "nat \<Rightarrow> u8" and i n :: nat
  assumes "length out = n"
  defines "F \<equiv> \<lambda>m. fold (\<lambda>j out. let k = i * 4 + j in if k < n then out[n - 1 - k := f j] else out) [0..<m] out"
  shows "length (F m) = n \<and> (\<forall>q < n. F m ! q =
    (if i * 4 \<le> n - 1 - q \<and> n - 1 - q < i * 4 + m then f (n - 1 - q - i * 4) else out ! q))"
proof (induction m)
  case (Suc m)
  have step: "F (Suc m) = (if i * 4 + m < n then (F m)[n - 1 - (i * 4 + m) := f m] else F m)"
    by (simp add: F_def Let_def)
  have "n - 1 - (i * 4 + m) = q \<longleftrightarrow> n - 1 - q = i * 4 + m" if "q < n" "i * 4 + m < n" for q
    using that by linarith
  moreover have "n - Suc (q + i * 4) = m" if "n - Suc q = i * 4 + m" for q
    using that by linarith
  ultimately show ?case using Suc unfolding step by (auto simp: nth_list_update less_Suc_eq)
qed (auto simp: F_def assms(1))

lemma to_be_outer:
  fixes w :: "u32 list" and n :: nat
  defines "F \<equiv> \<lambda>m. fold (\<lambda>i out. fold (\<lambda>j out. let k = i * 4 + j in
       if k < n then out[n - 1 - k := ucast (drop_bit (8 * j) (w ! i))] else out) [0..<4] out)
     [0..<m] (replicate n (0 :: u8))"
  shows "length (F m) = n \<and> (\<forall>q < n. F m ! q = (if n - 1 - q < 4 * m
       then ucast (drop_bit (8 * ((n - 1 - q) mod 4)) (w ! ((n - 1 - q) div 4))) else 0))"
proof (induction m)
  case (Suc m)
  have pick: "r div 4 = m \<and> r - m * 4 = r mod 4" if "m * 4 \<le> r" "r < m * 4 + 4" for r
    using that by presburger
  have step: "F (Suc m) = fold (\<lambda>j out. let k = m * 4 + j in
       if k < n then out[n - 1 - k := ucast (drop_bit (8 * j) (w ! m))] else out) [0..<4] (F m)"
    unfolding F_def by (subst fold_upt_Suc) simp_all
  from Suc have "length (F m) = n" by simp
  note inner = to_be_inner [OF this, where i = m and m = 4 and f = "\<lambda>j. ucast (drop_bit (8 * j) (w ! m))"]
  show ?case
  proof (intro conjI allI impI)
    show "length (F (Suc m)) = n" unfolding step using inner by blast
    fix q assume q: "q < n"
    show "F (Suc m) ! q = (if n - 1 - q < 4 * Suc m
       then ucast (drop_bit (8 * ((n - 1 - q) mod 4)) (w ! ((n - 1 - q) div 4))) else 0)"
    proof (cases "m * 4 \<le> n - 1 - q \<and> n - 1 - q < m * 4 + 4")
      case True
      with inner q pick [of "n - 1 - q"] show ?thesis unfolding step by simp
    next
      case False
      then have "n - 1 - q < 4 * Suc m \<longleftrightarrow> n - 1 - q < 4 * m" by auto
      with inner q False Suc show ?thesis unfolding step by auto
    qed
  qed
qed (simp add: F_def)

lemma to_be_fixed_eq: "to_be_fixed a n = be_bytes n (limbs_val a)"
proof (rule nth_equalityI)
  fix q assume "q < length (to_be_fixed a n)"
  then have q: "q < n" by (simp add: to_be_fixed_def to_be_outer)
  define r where "r = n - 1 - q"
  have "to_be_fixed a n ! q = (if r < 4 * ln a then ucast (drop_bit (8 * (r mod 4)) (lw a ! (r div 4))) else 0)"
    using q by (simp add: to_be_fixed_def to_be_outer r_def)
  also have "\<dots> = of_nat (limbs_val a div 2 ^ (8 * r))"
  proof (cases "r < 4 * ln a")
    case True
    then have "r div 4 < ln a" "r mod 4 < 4" by simp_all
    from words_byte [OF this] show ?thesis using True by (simp add: limbs_val_def)
  next
    case False
    then have "32 * ln a \<le> 8 * r" by simp
    then have "(2 :: nat) ^ (32 * ln a) \<le> 2 ^ (8 * r)" by (intro power_increasing) simp_all
    with words_val_less [of "lw a" "ln a"] have "limbs_val a < 2 ^ (8 * r)"
      unfolding limbs_val_def by (rule order.strict_trans2)
    with False show ?thesis by simp
  qed
  finally show "to_be_fixed a n ! q = be_bytes n (limbs_val a) ! q"
    using q by (simp add: be_bytes_def r_def)
qed (simp add: to_be_fixed_def to_be_outer)

section \<open>The public operation\<close>

lemma mul_mod_val:
  "modulus_ok m \<Longrightarrow> residue m a \<Longrightarrow>
   residue m (mul_mod a b m) \<and> limbs_val (mul_mod a b m) = limbs_val a * limbs_val b mod limbs_val m"
  unfolding mul_mod_def by (rule mulm_val)

lemma u32_halve:
  fixes e :: u32
  shows "unat e = (if e AND 1 \<noteq> 0 then 1 else 0) + 2 * unat (drop_bit 1 e)"
proof -
  have "e AND 1 \<noteq> 0 \<longleftrightarrow> odd (unat e)"
    using and_one_eq_bit [of 0 e] bit_0 [of "unat e"] by (simp add: bit_unsigned_iff)
  moreover have "unat (drop_bit 1 e) = unat e div 2" by (simp add: drop_bit_eq_div unat_div)
  ultimately show ?thesis by simp
qed

lemma pow_u32_loop_val:
  assumes "modulus_ok m" and "residue m r" and "residue m x"
    and "limbs_val r = u mod limbs_val m"
  shows "residue m (pow_u32_loop m e r x) \<and>
    limbs_val (pow_u32_loop m e r x) = u * limbs_val x ^ unat e mod limbs_val m"
  using assms
proof (induction m e r x arbitrary: u rule: pow_u32_loop.induct)
  case (1 m e r x)
  let ?M = "limbs_val m" and ?e = "drop_bit 1 e"
  define r' where "r' = (if e AND 1 \<noteq> 0 then mul_mod r x m else r)"
  define x' where "x' = (if ?e \<noteq> 0 then mul_mod x x m else x)"
  define v where "v = (if e AND 1 \<noteq> 0 then u * limbs_val x else u)"
  show ?case
  proof (cases "e = 0")
    case False
    have r': "residue m r'" "limbs_val r' = v mod ?M"
      using mul_mod_val [OF 1(2,3)] 1(3,5) by (simp_all add: r'_def v_def mod_mult_left_eq)
    have x': "residue m x'" "limbs_val x' ^ unat ?e mod ?M = (limbs_val x ^ 2) ^ unat ?e mod ?M"
      using mul_mod_val [OF 1(2,4)] 1(4) by (simp_all add: x'_def power_mod power2_eq_square)
    have step: "pow_u32_loop m e r x = pow_u32_loop m ?e r' x'"
      using False by (subst pow_u32_loop.simps) (simp add: r'_def x'_def Let_def)
    note IH = 1(1) [OF False r'_def refl x'_def 1(2) r'(1) x'(1) r'(2)]
    have "v * limbs_val x' ^ unat ?e mod ?M = v * (limbs_val x ^ 2) ^ unat ?e mod ?M"
      using x'(2) by (metis mod_mult_right_eq)
    also have "v * (limbs_val x ^ 2) ^ unat ?e = u * limbs_val x ^ unat e"
      by (subst u32_halve) (simp add: v_def power_add power_mult)
    finally show ?thesis using IH unfolding step by simp
  qed (use 1 in \<open>simp add: pow_u32_loop.simps\<close>)
qed

text \<open>A base of zero gives zero, also for the modulus one.\<close>

lemma mul_mod_zero: "ln x = 0 \<Longrightarrow> mul_mod r x m = limbs_zero (length (lw m))"
  by (simp add: mul_mod_def mulm_def limb_bits_def nbits_def binary_loop_def)

lemma pow_u32_loop_zero:
  "ln x = 0 \<Longrightarrow> ln r = 0 \<or> e AND 1 \<noteq> 0 \<Longrightarrow> ln (pow_u32_loop m e r x) = 0"
proof (induction m e r x rule: pow_u32_loop.induct)
  case (1 m e r x)
  show ?case
  proof (cases "e = 0")
    case False
    note IH = 1(1) [OF False refl refl refl]
    show ?thesis
      by (subst pow_u32_loop.simps) (use False 1 IH in \<open>auto simp: Let_def mul_mod_zero limbs_zero_def\<close>)
  qed (use 1 in \<open>simp add: pow_u32_loop.simps\<close>)
qed

lemma ln_zero_iff:
  assumes "limbs_ok a"
  shows "ln a = 0 \<longleftrightarrow> limbs_val a = 0"
proof (cases "ln a = 0")
  case False
  with assms have "2 ^ (32 * (ln a - 1)) \<le> limbs_val a"
    unfolding limbs_val_def by (intro words_val_lower) (simp_all add: limbs_ok_def)
  moreover have "(0 :: nat) < 2 ^ (32 * (ln a - 1))" by simp
  ultimately show ?thesis using False by linarith
qed (simp add: limbs_val_def)

lemma ln_le:
  assumes "limbs_ok a" and "limbs_val a < 2 ^ (32 * n)"
  shows "ln a \<le> n"
proof (rule ccontr)
  assume n: "\<not> ln a \<le> n"
  then have "(2 :: nat) ^ (32 * n) \<le> 2 ^ (32 * (ln a - 1))" by (intro power_increasing) simp_all
  also have "\<dots> \<le> limbs_val a"
    using assms(1) n unfolding limbs_val_def by (intro words_val_lower) (simp_all add: limbs_ok_def)
  finally show False using assms(2) by simp
qed

lemma pow_u32_mod_val:
  assumes m: "limbs_ok m" "ln m < length (lw m)" and a: "residue m a" and e: "e AND 1 \<noteq> 0"
    and cap: "length (lw m) = 129"
  shows "limbs_val (pow_u32_mod a e m) = limbs_val a ^ unat e mod limbs_val m"
proof (cases "limbs_val a = 0")
  case True
  then have "ln a = 0" using a by (simp add: residue_def ln_zero_iff)
  then have "ln (pow_u32_mod a e m) = 0" unfolding pow_u32_mod_def using e by (intro pow_u32_loop_zero) simp_all
  moreover have "unat e \<noteq> 0" using e by (auto simp: unat_eq_zero)
  ultimately show ?thesis using True by (simp add: limbs_val_def [of "pow_u32_mod a e m"] zero_power)
next
  case False
  with a have m1: "modulus_ok m" using m by (simp add: modulus_ok_def residue_def)
  have one: "residue m (limbs_small 129 1)" "limbs_val (limbs_small 129 1) = 1 mod limbs_val m"
    using limbs_small_val [of 129 1] m1 cap by (simp_all add: residue_def modulus_ok_def)
  show ?thesis
    using pow_u32_loop_val [OF m1 one(1) a one(2), of e] by (simp add: pow_u32_mod_def)
qed

text \<open>The number of bits of a number.\<close>

fun bit_length :: "nat \<Rightarrow> nat" where
  "bit_length v = (if v = 0 then 0 else Suc (bit_length (v div 2)))"

declare bit_length.simps [simp del]

lemma bit_length_unique: "v < 2 ^ n \<Longrightarrow> n \<noteq> 0 \<Longrightarrow> 2 ^ (n - 1) \<le> v \<Longrightarrow> bit_length v = n"
proof (induction n arbitrary: v)
  case (Suc n)
  have v: "v \<noteq> 0"
  proof
    assume "v = 0"
    with Suc.prems(3) show False by simp
  qed
  show ?case
  proof (cases n)
    case 0
    with Suc.prems v have "v = 1" by simp
    with 0 show ?thesis by (simp add: bit_length.simps)
  next
    case (Suc k)
    with Suc.prems have "v div 2 < 2 ^ n" "2 ^ (n - 1) \<le> v div 2"
      by (auto simp: less_eq_div_iff_mult_less_eq less_mult_imp_div_less)
    with Suc.IH Suc v show ?thesis by (subst bit_length.simps) simp
  qed
qed simp

lemma word_bits_lower: "unat v < 2 ^ b \<Longrightarrow> v \<noteq> 0 \<Longrightarrow> word_bits v b \<noteq> 0 \<and> 2 ^ (word_bits v b - 1) \<le> unat v"
proof (induction b)
  case (Suc b)
  show ?case
  proof (cases "drop_bit b v AND 1 = 0")
    case True
    then have nb: "\<not> bit (unat v) b" using and_one_eq_bit [of b v] by (simp add: bit_unsigned_iff)
    have "unat v < 2 ^ b"
    proof (rule ccontr)
      assume "\<not> unat v < 2 ^ b"
      with Suc.prems(1) have "unat v div 2 ^ b = 1" by (intro div_nat_eqI) auto
      with nb show False by (simp add: bit_iff_odd)
    qed
    with Suc True show ?thesis by simp
  next
    case False
    then have "bit (unat v) b" using and_one_eq_bit [of b v] by (simp add: bit_unsigned_iff)
    then have "2 ^ b \<le> unat v" by (metis bit_take_bit_iff take_bit_nat_eq_self linorder_not_le less_irrefl)
    with False show ?thesis by simp
  qed
qed (simp add: unat_eq_zero)

lemma nbits_val:
  assumes "limbs_ok a"
  shows "nbits a = bit_length (limbs_val a)"
proof (cases "ln a")
  case 0
  then show ?thesis by (simp add: nbits_def limbs_val_def bit_length.simps)
next
  case (Suc k)
  let ?b = "word_bits (lw a ! k) 32"
  have top: "lw a ! k \<noteq> 0" using assms Suc by (simp add: limbs_ok_def)
  from word_bits_lower [OF unat_u32_less top] have b: "?b \<noteq> 0" "2 ^ (?b - 1) \<le> unat (lw a ! k)" by simp_all
  have n: "nbits a = 32 * k + ?b" using Suc by (simp add: nbits_def)
  have "2 ^ (?b - 1) * 2 ^ (32 * k) \<le> unat (lw a ! k) * 2 ^ (32 * k)" using b(2) by (rule mult_le_mono1)
  also have "\<dots> \<le> limbs_val a" using Suc by (simp add: limbs_val_def words_val_Suc)
  finally have "2 ^ (nbits a - 1) \<le> limbs_val a" using b(1) by (simp add: n add.commute flip: power_add)
  then show ?thesis
    using bit_length_unique [OF limbs_val_nbits, of a] b(1) n by simp
qed

lemma parse_rsa_Ok:
  assumes "parse_rsa key = Ok (md, e)"
  shows "span_size md \<noteq> 0 \<and> span_size md \<le> 512 \<and> e AND 1 \<noteq> 0 \<and> 3 \<le> e"
  using assms unfolding parse_rsa_def
  by (auto simp: bind_res_Ok_iff bind_res_pair_Ok Let_def not_less split: if_splits)

text \<open>The public operation (RFC 8017, section 5.2.2): a signature below the modulus, raised to \<open>e\<close>.\<close>

lemma rsa_public_iff:
  "rsa_public key (Span sg) = Ok (em, bits) \<longleftrightarrow>
    (\<exists>md e. parse_rsa key = Ok (Span md, e) \<and> length sg = length md \<and> be_val sg < be_val md
       \<and> em = be_bytes (length md) (be_val sg ^ unat e mod be_val md) \<and> bits = bit_length (be_val md))"
proof -
  have body: "(if ln (limbs_be 129 md) = 0 \<or> nat_cmp (limbs_be 129 sg) (limbs_be 129 md) \<ge> 0 then Err XT_ERR_VERIFY
      else Ok (to_be_fixed (pow_u32_mod (limbs_be 129 sg) e (limbs_be 129 md)) (length md), nat_bits (limbs_be 129 md)))
    = (if be_val sg < be_val md
       then Ok (be_bytes (length md) (be_val sg ^ unat e mod be_val md), bit_length (be_val md))
       else Err XT_ERR_VERIFY)"
    if "parse_rsa key = Ok (Span md, e)" "length sg = length md" for md e
  proof -
    from parse_rsa_Ok [OF that(1)] have p: "length md \<le> 512" "e AND 1 \<noteq> 0" by simp_all
    have m: "limbs_val (limbs_be 129 md) = be_val md" "limbs_ok (limbs_be 129 md)" "length (lw (limbs_be 129 md)) = 129"
      and s: "limbs_val (limbs_be 129 sg) = be_val sg" "limbs_ok (limbs_be 129 sg)" "length (lw (limbs_be 129 sg)) = 129"
      using limbs_be_val [of md 129] limbs_be_val [of sg 129] p(1) that(2) by simp_all
    have cmp: "nat_cmp (limbs_be 129 sg) (limbs_be 129 md) \<ge> 0 \<longleftrightarrow> \<not> be_val sg < be_val md"
      using cmp_less_iff [OF s(2) m(2)] s(1) m(1) unfolding nat_cmp_def by linarith
    have lnm: "ln (limbs_be 129 md) < 129"
    proof -
      have "8 * length md \<le> 32 * 128" using p(1) by simp
      then have "(2 :: nat) ^ (8 * length md) \<le> 2 ^ (32 * 128)" by (rule power_increasing) simp
      with be_val_less [of md] have "limbs_val (limbs_be 129 md) < 2 ^ (32 * 128)"
        unfolding m(1) by (rule order.strict_trans2)
      from ln_le [OF m(2) this] show ?thesis by simp
    qed
    show ?thesis
    proof (cases "be_val sg < be_val md")
      case True
      then have "residue (limbs_be 129 md) (limbs_be 129 sg)" using m s by (simp add: residue_def)
      from pow_u32_mod_val [OF m(2) _ this p(2) m(3)] lnm m(1,3) s(1) True show ?thesis
        by (simp add: cmp ln_zero_iff [OF m(2)] to_be_fixed_eq nat_bits_def nbits_val [OF m(2)])
    qed (simp add: cmp)
  qed
  obtain r where r: "parse_rsa key = r" by blast
  show ?thesis
  proof (cases r)
    case (Ok p)
    obtain md e where p: "p = (md, e)" by (cases p)
    from safe_OkD [OF parse_rsa_safe] r Ok p obtain bs where "md = Span bs" by fastforce
    with r Ok p have key: "parse_rsa key = Ok (Span bs, e)" by simp
    have run: "rsa_public key (Span sg) = (if length sg \<noteq> length bs then Err XT_ERR_VERIFY else
        if ln (limbs_be 129 bs) = 0 \<or> nat_cmp (limbs_be 129 sg) (limbs_be 129 bs) \<ge> 0 then Err XT_ERR_VERIFY
        else Ok (to_be_fixed (pow_u32_mod (limbs_be 129 sg) e (limbs_be 129 bs)) (length bs), nat_bits (limbs_be 129 bs)))"
      by (simp add: rsa_public_def key from_be_def rd_bytes_def Let_def)
    show ?thesis
    proof (cases "length sg = length bs")
      case True
      then show ?thesis unfolding run body [OF key True] by (auto simp: key)
    qed (simp add: run key)
  qed (use r in \<open>simp_all add: rsa_public_def\<close>)
qed

section \<open>PKCS #1 v1.5\<close>

text \<open>The encoded message of RFC 8017, section 9.2, with \<open>k\<close> bytes of padding.\<close>

definition emsa_pkcs1 :: "nat \<Rightarrow> bytes \<Rightarrow> bytes" where
  "emsa_pkcs1 k digest = [0, 1] @ replicate k 0xff @ [0] @ di_prefix @ digest"

lemma skip_ff_eq: "skip_ff (pre @ replicate k 0xff @ b # rest) (length pre) = length pre + k" if "b \<noteq> 0xff"
proof (induction k arbitrary: pre)
  case 0
  then show ?case using that by (subst skip_ff.simps) (simp add: nth_append)
next
  case (Suc k)
  from Suc [of "pre @ [0xff]"] show ?case
    by (subst skip_ff.simps) (simp add: nth_append)
qed

lemma skip_ff_run:
  "p \<le> length em \<Longrightarrow> p \<le> skip_ff em p \<and> skip_ff em p \<le> length em
     \<and> slice em p (skip_ff em p - p) = replicate (skip_ff em p - p) 0xff"
proof (induction em p rule: skip_ff.induct)
  case (1 em p)
  show ?case
  proof (cases "p < length em \<and> em ! p = 0xff")
    case True
    then have step: "skip_ff em p = skip_ff em (p + 1)" by (subst skip_ff.simps) simp
    from 1 True have IH: "p + 1 \<le> skip_ff em (p + 1)" "skip_ff em (p + 1) \<le> length em"
      "slice em (p + 1) (skip_ff em (p + 1) - (p + 1)) = replicate (skip_ff em (p + 1) - (p + 1)) 0xff" by auto
    define k where "k = skip_ff em (p + 1) - (p + 1)"
    have k: "skip_ff em (p + 1) - p = Suc k" using IH(1) by (simp add: k_def)
    have "slice em p (Suc k) = 0xff # slice em (p + 1) k"
      using True by (simp add: slice_def flip: Cons_nth_drop_Suc)
    with IH show ?thesis unfolding step k k_def [symmetric] by simp
  next
    case False
    with 1(2) show ?thesis by (subst (1 2 3 4) skip_ff.simps) auto
  qed
qed

lemma pkcs1_check_iff:
  assumes "length d = 32"
  shows "pkcs1_check em d = Ok () \<longleftrightarrow> (\<exists>k \<ge> 8. em = emsa_pkcs1 k d)"
proof
  assume ok: "pkcs1_check em d = Ok ()"
  define q where "q = skip_ff em 2"
  have pre: "length di_prefix = 19" by (simp add: di_prefix_def)
  from ok have c: "62 \<le> length em" "em ! 0 = 0" "em ! 1 = 1" "10 \<le> q" "q < length em" "em ! q = 0"
    "length em - (q + 1) = 51" "slice em (q + 1) 19 = di_prefix" "slice em (q + 1 + 19) 32 = d"
    by (auto simp: pkcs1_check_def Let_def q_def pre split: if_splits)
  have "2 \<le> length em" using c(1) by simp
  from skip_ff_run [OF this] have ff: "slice em 2 (q - 2) = replicate (q - 2) 0xff" by (simp add: q_def)
  have two: "2 + (q - 2) = q" using c(4) by simp
  have "em = [em ! 0, em ! (0 + 1)] @ drop (0 + 2) em" using drop_two [of 0 em] c(1) by simp
  also have "drop (0 + 2) em = slice em 2 (q - 2) @ drop q em"
    using drop_slice [of 2 "q - 2" em, unfolded two] c(5) by (simp add: numeral_2_eq_2)
  also have "drop q em = em ! q # drop (q + 1) em" using c(5) by (simp add: Cons_nth_drop_Suc)
  also have "drop (q + 1) em = slice em (q + 1) 19 @ drop (q + 1 + 19) em"
    using c(7) by (intro drop_slice) simp
  also have "drop (q + 1 + 19) em = slice em (q + 1 + 19) 32" using c(7) by (simp add: slice_def)
  finally have "em = emsa_pkcs1 (q - 2) d" using c ff by (simp add: emsa_pkcs1_def)
  with c(4) show "\<exists>k \<ge> 8. em = emsa_pkcs1 k d" by (intro exI [of _ "q - 2"]) simp
next
  assume "\<exists>k \<ge> 8. em = emsa_pkcs1 k d"
  then obtain k where k: "8 \<le> k" "em = [0, 1] @ replicate k 0xff @ 0 # di_prefix @ d"
    by (auto simp: emsa_pkcs1_def)
  have "skip_ff em (length [0, 1 :: u8]) = length [0, 1 :: u8] + k"
    unfolding k(2) by (rule skip_ff_eq) simp
  then have q: "skip_ff em 2 = 2 + k" by (simp add: numeral_2_eq_2)
  have pre: "length di_prefix = 19" by (simp add: di_prefix_def)
  have len: "length em = k + 54" using assms by (simp add: k(2) pre)
  have e: "em = ([0, 1] @ replicate k 0xff @ [0]) @ di_prefix @ d" by (simp add: k(2))
  have "slice em (2 + k + 1) 19 = di_prefix"
    unfolding e by (intro slice_append_mid) (simp_all add: pre)
  moreover have "slice em (2 + k + 1 + 19) 32 = d"
    using slice_append_mid [of "[0, 1] @ replicate k 0xff @ [0] @ di_prefix" "2 + k + 1 + 19" d 32 "[]"]
    unfolding e by (simp add: pre assms)
  moreover have "em ! (2 + k) = 0" by (simp add: k(2) nth_append)
  ultimately show "pkcs1_check em d = Ok ()"
    using k(1) by (simp add: pkcs1_check_def Let_def q len pre) (simp add: k(2))
qed

lemma native_rsa_pkcs1_iff:
  "native_rsa_pkcs1_sha256_verify key (Span msg) (Span sg) = Ok () \<longleftrightarrow>
    (\<exists>md e k. parse_rsa key = Ok (Span md, e) \<and> length sg = length md \<and> be_val sg < be_val md
       \<and> 8 \<le> k \<and> be_bytes (length md) (be_val sg ^ unat e mod be_val md) = emsa_pkcs1 k (sha256_spec msg))"
proof -
  have "length (sha256 msg) = 32" by simp
  from pkcs1_check_iff [OF this] show ?thesis
    by (auto simp: native_rsa_pkcs1_sha256_verify_def bind_res_Ok_iff rd_bytes_def rsa_public_iff sha256_correct)
      metis
qed

section \<open>PSS\<close>

text \<open>The mask of RFC 8017, appendix B.2.1: the hashes of seed and counter, one after the other.\<close>

definition mgf1_spec :: "bytes \<Rightarrow> nat \<Rightarrow> bytes" where
  "mgf1_spec seed n =
     take n (concat (map (\<lambda>i. sha256_spec (seed @ store_be32 (of_nat i))) [0..<(n + 31) div 32]))"

lemma mgf1_loop_eq:
  "mgf1_loop seed n c out = (if length out < n
     then out @ take (n - length out) (concat (map (\<lambda>i. sha256_spec (seed @ store_be32 (c + of_nat i)))
       [0..<(n - length out + 31) div 32])) else out)"
proof (induction seed n c out rule: mgf1_loop.induct)
  case (1 seed n c out)
  show ?case
  proof (cases "length out < n")
    case True
    define left where "left = n - length out"
    define d where "d = sha256_spec (seed @ store_be32 c)"
    have d: "length d = 32" by (simp add: d_def flip: sha256_correct)
    have left: "0 < left" using True by (simp add: left_def)
    have step: "mgf1_loop seed n c out = mgf1_loop seed n (c + 1) (out @ take (min left 32) d)"
      using True by (subst mgf1_loop.simps)
        (simp add: Let_def updates_sha256 sha256_correct d_def left_def min_def)
    note IH = 1 [OF True refl refl, unfolded updates_sha256 sha256_correct d_def [symmetric] left_def [symmetric]]
    have idx: "[0..<(left + 31) div 32] = 0 # map Suc [0..<(left - 1) div 32]"
    proof -
      have "(left + 31) div 32 = Suc ((left - 1) div 32)" using left by (cases left) simp_all
      then show ?thesis by (simp only: upt_conv_Cons zero_less_Suc map_Suc_upt)
    qed
    have cat: "concat (map (\<lambda>i. sha256_spec (seed @ store_be32 (c + of_nat i))) [0..<(left + 31) div 32])
        = d @ concat (map (\<lambda>i. sha256_spec (seed @ store_be32 (c + 1 + of_nat i))) [0..<(left - 1) div 32])"
      unfolding idx by (simp add: d_def comp_def add.assoc)
    show ?thesis
    proof (cases "left > 32")
      case gt: True
      then have "n - (length out + 32) = left - 32" "length out + 32 < n" "left - 32 + 31 = left - 1"
        unfolding left_def by linarith+
      with IH gt d have "mgf1_loop seed n (c + 1) (out @ d) = (out @ d) @ take (left - 32)
         (concat (map (\<lambda>i. sha256_spec (seed @ store_be32 (c + 1 + of_nat i))) [0..<(left - 1) div 32]))"
        by simp
      with gt True d show ?thesis
        unfolding step left_def [symmetric] cat by simp
    next
      case False
      have "mgf1_loop seed n (c + 1) (out @ take left d) = out @ take left d"
        using False d True by (subst mgf1_loop.simps) (simp add: left_def)
      with False True d show ?thesis
        unfolding step left_def [symmetric] cat by (simp add: min_def)
    qed
  qed (simp add: mgf1_loop.simps)
qed

lemma mgf1_eq: "mgf1 seed n = mgf1_spec seed n"
  by (simp add: mgf1_def mgf1_loop_eq mgf1_spec_def)

lemma length_mgf1_loop: "length (mgf1_loop seed n c out) = max n (length out)"
proof (induction seed n c out rule: mgf1_loop.induct)
  case (1 seed n c out)
  show ?case
  proof (cases "length out < n")
    case True
    with 1 [OF True refl refl] show ?thesis
      by (subst mgf1_loop.simps) (simp add: Let_def updates_sha256)
  qed (simp add: mgf1_loop.simps)
qed

lemma length_mgf1 [simp]: "length (mgf1_spec seed n) = n"
  by (simp add: mgf1_def length_mgf1_loop flip: mgf1_eq)

text \<open>The encoding of RFC 8017, section 9.1.1, with SHA-256 and a salt of 32 bytes.\<close>

definition clear_top :: "nat \<Rightarrow> bytes \<Rightarrow> bytes" where
  "clear_top u bs = bs[0 := bs ! 0 AND drop_bit u 0xff]"

definition emsa_pss :: "nat \<Rightarrow> nat \<Rightarrow> bytes \<Rightarrow> bytes \<Rightarrow> bytes" where
  "emsa_pss emlen embits mh salt =
     (let h = sha256_spec (replicate 8 0 @ mh @ salt);
          db = replicate (emlen - 66) 0 @ [1] @ salt
      in clear_top (8 * emlen - embits) (xor_bytes db (mgf1_spec h (emlen - 33))) @ h @ [0xbc])"

lemma mask_unmask: "((e XOR m) AND k XOR m) AND k = e AND (k :: u8)"
  by (rule bit_word_eqI) (auto simp: bit_simps)

lemma length_clear_top [simp]: "length (clear_top u bs) = length bs"
  by (simp add: clear_top_def)

lemma clear_unmask:
  assumes "length e = length m" and "e \<noteq> []"
  shows "clear_top u (xor_bytes (clear_top u (xor_bytes e m)) m) = clear_top u e"
proof (rule nth_equalityI)
  fix i assume i: "i < length (clear_top u (xor_bytes (clear_top u (xor_bytes e m)) m))"
  have z: "0 < length m" "0 < length e" using assms by auto
  have c: "(x XOR y) XOR y = x" for x y :: u8 by (simp add: xor.assoc)
  show "clear_top u (xor_bytes (clear_top u (xor_bytes e m)) m) ! i = clear_top u e ! i"
    using i assms z by (cases "i = 0") (simp_all add: clear_top_def nth_xor_bytes mask_unmask c nth_list_update)
qed (use assms in simp)

text \<open>The two forms of the code, with and without unused bits, are one.\<close>

lemma pss_check_unfold:
  assumes u: "u = 8 * length em - (modbits - 1)" and n: "length em = dblen + 33" "33 \<le> dblen"
    and w: "length em = (modbits - 1 + 7) div 8" and bc: "em ! (length em - 1) = 0xbc"
  shows "pss_check em modbits mh = Ok () \<longleftrightarrow>
    em ! 0 AND NOT (drop_bit u 0xff) = 0 \<and>
    (let db = clear_top u (pss_unmask em dblen) in
      take (dblen - 33) db = replicate (dblen - 33) 0 \<and> db ! (dblen - 33) = 1
      \<and> sha256_spec (replicate 8 0 @ mh @ slice db (dblen - 32) 32) = slice em dblen 32)"
proof -
  have "(0xff :: u8) = -1" by simp
  then have ff: "x AND 0xff = x" "x AND NOT 0xff = 0" for x :: u8 by (simp_all only: bit.conj_one_right) simp_all
  have len: "length (pss_unmask em dblen) = dblen" using n by (simp add: pss_unmask_def mgf1_eq)
  define db where "db = clear_top u (pss_unmask em dblen)"
  have db: "(if u \<noteq> 0 then (pss_unmask em dblen)[0 := pss_unmask em dblen ! 0 AND drop_bit u 0xff]
      else pss_unmask em dblen) = db"
    using ff by (simp add: db_def clear_top_def)
  have guard: "u \<noteq> 0 \<and> em ! 0 AND NOT (drop_bit u 0xff) \<noteq> 0 \<longleftrightarrow> em ! 0 AND NOT (drop_bit u 0xff) \<noteq> 0"
    using ff(2) [of "em ! 0"] by (cases "u = 0") simp_all
  have ldb: "length db = dblen" using len by (simp add: db_def)
  have zeros: "list_all (\<lambda>i. db ! i = 0) [0..<dblen - 33] \<longleftrightarrow> take (dblen - 33) db = replicate (dblen - 33) 0"
    using ldb by (auto simp: list_all_iff list_eq_iff_nth_eq)
  have hash: "pss_hash mh s = sha256_spec (replicate 8 0 @ mh @ s)" for s
    by (simp add: pss_hash_def updates_sha256 sha256_correct)
  have h32: "length (sha256_spec x) = 32" for x by (simp flip: sha256_correct)
  have diff: "or_diff 32 (sha256_spec x) (slice em dblen 32) = 0 \<longleftrightarrow> sha256_spec x = slice em dblen 32" for x
    using n by (intro or_diff_zero_lists) (simp_all add: h32)
  have n': "length em - 32 - 1 = dblen" "dblen - 32 - 1 = dblen - 33" "dblen - 33 + 1 = dblen - 32"
    "\<not> length em < 32 + 32 + 2" using n by simp_all
  have big: "\<not> length em < 66" using n by simp
  have want: "(length em \<noteq> (modbits - 1 + 7) div 8) = False" using w by simp
  show ?thesis
    unfolding pss_check_def Let_def want n' u [symmetric] guard db zeros hash db_def [symmetric]
    using bc diff big by (auto split: if_splits)
qed

lemma pss_check_iff:
  "pss_check em modbits mh = Ok () \<longleftrightarrow>
    length em = (modbits - 1 + 7) div 8 \<and> 66 \<le> length em
    \<and> (\<exists>salt. length salt = 32 \<and> em = emsa_pss (length em) (modbits - 1) mh salt)"
    (is "?L \<longleftrightarrow> ?R")
proof (cases "length em = (modbits - 1 + 7) div 8 \<and> 66 \<le> length em")
  case True
  define u where "u = 8 * length em - (modbits - 1)"
  define dblen where "dblen = length em - 33"
  define k :: u8 where "k = drop_bit u 0xff"
  have n: "length em = dblen + 33" "33 \<le> dblen" using True unfolding dblen_def by linarith+
  have u: "u \<le> 7" using True by (simp add: u_def)
  have h32: "length (sha256_spec x) = 32" for x by (simp flip: sha256_correct)
  show ?thesis
  proof
    assume ?L
    then have bc: "em ! (length em - 1) = 0xbc" by (auto simp: pss_check_def Let_def split: if_splits)
    define e m where "e = take dblen em" and "m = mgf1_spec (slice em dblen 32) dblen"
    define db where "db = clear_top u (xor_bytes e m)"
    define salt where "salt = slice db (dblen - 32) 32"
    have len: "length e = dblen" "length m = dblen" "length db = dblen" using n by (simp_all add: e_def m_def db_def)
    have "pss_unmask em dblen = xor_bytes e m" by (simp add: pss_unmask_def e_def m_def mgf1_eq)
    with \<open>?L\<close> pss_check_unfold [OF u_def n _ bc, of mh] True have
      c: "em ! 0 AND NOT k = 0" "take (dblen - 33) db = replicate (dblen - 33) 0" "db ! (dblen - 33) = 1"
      "sha256_spec (replicate 8 0 @ mh @ salt) = slice em dblen 32"
      by (simp_all add: k_def db_def salt_def Let_def)
    have "db = take (dblen - 33) db @ db ! (dblen - 33) # drop (Suc (dblen - 33)) db"
      using n(2) len(3) by (intro id_take_nth_drop) simp
    moreover have "Suc (dblen - 33) = dblen - 32" using n(2) by simp
    moreover have "salt = drop (dblen - 32) db" using len(3) n(2) by (simp add: salt_def slice_def)
    ultimately have db: "db = replicate (dblen - 33) 0 @ [1] @ salt" using c(2,3) by simp
    have "em ! 0 AND k = em ! 0"
    proof -
      have "em ! 0 = (em ! 0 AND k) OR (em ! 0 AND NOT k)" by (simp flip: bit.conj_disj_distrib)
      with c(1) show ?thesis by simp
    qed
    then have "clear_top u e = e" using n len(1) by (simp add: clear_top_def k_def e_def list_update_same_conv)
    moreover have "e \<noteq> []" using len(1) n(2) by auto
    ultimately have e: "e = clear_top u (xor_bytes db m)"
      using clear_unmask [of e m u] len by (simp add: db_def)
    have "drop dblen em = slice em dblen 32 @ drop (dblen + 32) em" using n(1) by (intro drop_slice) simp
    then have "em = take dblen em @ slice em dblen 32 @ drop (dblen + 32) em"
      by (metis append_take_drop_id)
    moreover have "drop (dblen + 32) em = [0xbc]"
      using bc n(1) by (intro nth_equalityI) (auto simp: add.commute)
    ultimately have em: "em = e @ slice em dblen 32 @ [0xbc]" by (simp add: e_def)
    have idx: "length em - 66 = dblen - 33" "length em - 33 = dblen" using n(1) by simp_all
    have "em = emsa_pss (length em) (modbits - 1) mh salt"
      unfolding emsa_pss_def Let_def idx c(4) u_def [symmetric] db [symmetric] m_def [symmetric] e [symmetric]
      by (rule em)
    moreover have "length salt = 32" using len(3) n(2) by (simp add: salt_def)
    ultimately show ?R using True by blast
  next
    assume ?R
    then obtain salt where salt: "length salt = 32" and em: "em = emsa_pss (length em) (modbits - 1) mh salt" by blast
    define h where "h = sha256_spec (replicate 8 0 @ mh @ salt)"
    define db where "db = replicate (dblen - 33) 0 @ [1] @ salt"
    define m where "m = mgf1_spec h dblen"
    have len: "length db = dblen" "length m = dblen" "length h = 32"
      using salt n(2) by (simp_all add: db_def m_def h_def h32)
    have idx: "length em - 66 = dblen - 33" "length em - 33 = dblen" using n(1) by simp_all
    have em: "em = clear_top u (xor_bytes db m) @ h @ [0xbc]"
      using em unfolding emsa_pss_def Let_def idx u_def [symmetric] h_def [symmetric] db_def [symmetric]
        m_def [symmetric] .
    then have parts: "take dblen em = clear_top u (xor_bytes db m)" "slice em dblen 32 = h"
      "em ! (length em - 1) = 0xbc" "em ! 0 = clear_top u (xor_bytes db m) ! 0"
      using len n by (simp_all add: slice_def nth_append)
    have un: "pss_unmask em dblen = xor_bytes (clear_top u (xor_bytes db m)) m"
      by (simp add: pss_unmask_def mgf1_eq parts m_def)
    have "db \<noteq> []" by (simp add: db_def)
    with clear_unmask [of db m u] len have cu: "clear_top u (pss_unmask em dblen) = clear_top u db" by (simp add: un)
    have ff: "(0xff :: u8) = mask 8" by (simp add: mask_eq_exp_minus_1)
    have "1 AND k = 1" using u unfolding k_def ff
      by (intro bit_word_eqI) (auto simp: bit_simps bit_1_iff)
    then have same: "clear_top u db = db"
      by (auto simp: clear_top_def db_def k_def nth_append nth_Cons' list_update_append list_update_same_conv)
    have top: "em ! 0 AND NOT k = 0"
      unfolding parts(4) using len n by (simp add: clear_top_def k_def and.assoc)
    have db: "take (dblen - 33) db = replicate (dblen - 33) 0" "db ! (dblen - 33) = 1"
      by (simp_all add: db_def nth_append)
    have tail: "slice db (dblen - 32) 32 = salt"
      using n(2) salt by (simp add: db_def slice_def Suc_diff_le)
    show ?L
      unfolding pss_check_unfold [OF u_def n conjunct1 [OF True] parts(3)] cu Let_def same tail parts(2)
      by (intro conjI top [unfolded k_def] db h_def [symmetric])
  qed
next
  case False
  have "pss_check em modbits mh = Err XT_ERR_VERIFY"
    unfolding pss_check_def Let_def by (rule if_P) (use False in auto)
  moreover from False have "\<not> ?R" by blast
  ultimately show ?thesis by simp
qed

lemma native_rsa_pss_iff:
  "native_rsa_pss_sha256_verify key (Span msg) (Span sg) = Ok () \<longleftrightarrow>
    (\<exists>md e em embits salt. parse_rsa key = Ok (Span md, e) \<and> length sg = length md \<and> be_val sg < be_val md
       \<and> em = be_bytes (length md) (be_val sg ^ unat e mod be_val md)
       \<and> embits = bit_length (be_val md) - 1 \<and> length em = (embits + 7) div 8 \<and> 66 \<le> length em
       \<and> length salt = 32 \<and> em = emsa_pss (length em) embits (sha256_spec msg) salt)"
proof -
  have "native_rsa_pss_sha256_verify key (Span msg) (Span sg) = Ok () \<longleftrightarrow>
      (\<exists>em bits. rsa_public key (Span sg) = Ok (em, bits) \<and> pss_check em bits (sha256_spec msg) = Ok ())"
    by (simp add: native_rsa_pss_sha256_verify_def bind_res_pair_Ok rd_bytes_def sha256_correct)
  then show ?thesis unfolding rsa_public_iff pss_check_iff by blast
qed

end
