(* ===== verification/P256Points.thy ===== *)
theory P256Points
  imports P256Field P256 RsaSpec
begin

text \<open>
  The point arithmetic of \<open>src/crypto/p256_verify.cpp\<close> is that of the curve: the numbers below \<open>p\<close> are
  field elements, a Jacobian triple stands for an affine point, and \<open>dbl\<close>, \<open>add_mixed\<close>, \<open>addj\<close>,
  \<open>scalar\<close> and the two conversions compute the sums, multiples and coordinates of the points.
\<close>

section \<open>Jacobian coordinates\<close>

text \<open>\<open>(X, Y, Z)\<close> stands for the affine point \<open>(X / Z\<^sup>2, Y / Z\<^sup>3)\<close>.\<close>

definition jacobian :: "fp \<Rightarrow> fp \<Rightarrow> fp \<Rightarrow> fp point \<Rightarrow> bool" where
  "jacobian X Y Z P \<longleftrightarrow> Z \<noteq> 0 \<and> (\<exists>x y. P = Point x y \<and> X = x * Z ^ 2 \<and> Y = y * Z ^ 3)"

abbreviation padd :: "fp point \<Rightarrow> fp point \<Rightarrow> fp point" where
  "padd \<equiv> point_add p256_a"

lemma two_fp [simp]: "(2 :: fp) \<noteq> 0"
  by (rule p256.two)

lemma jacobian_eq: "jacobian X Y Z P \<Longrightarrow> X' = X \<Longrightarrow> Y' = Y \<Longrightarrow> Z' = Z \<Longrightarrow> jacobian X' Y' Z' P"
  by simp

lemma slope_sum:
  assumes "slope p256_a x1 y1 x2 y2 l" and "\<not> (x1 = x2 \<and> y1 = - y2)"
    and "Z \<noteq> 0" and "X = (l ^ 2 - x1 - x2) * Z ^ 2" and "Y = (l * (2 * x1 + x2 - l ^ 2) - y1) * Z ^ 3"
  shows "jacobian X Y Z (padd (Point x1 y1) (Point x2 y2))"
  using assms p256.slope_add [OF assms(1,2)] by (simp add: jacobian_def)

lemma jacobian_double:
  assumes "jacobian X Y Z P" and "Y \<noteq> 0"
    and "on_curve p256_a p256_b P"
    and "M = 3 * (X ^ 2 - Z ^ 4)" and "S = 4 * X * Y ^ 2" and "X3 = M ^ 2 - 2 * S"
  shows "jacobian X3 (M * (S - X3) - 8 * Y ^ 4) (2 * Y * Z) (padd P P)"
proof -
  from assms(1) obtain x y where P: "P = Point x y" "X = x * Z ^ 2" "Y = y * Z ^ 3" and Z: "Z \<noteq> 0"
    unfolding jacobian_def by blast
  have y: "y \<noteq> 0" using assms(2) P by auto
  have n: "\<not> (x = x \<and> y = - y)" using y p256.neg_self [of y] by simp
  obtain l where l: "slope p256_a x y x y l" using p256.slope_exists [OF _ _ n] assms(3) P(1) by blast
  then have "l * (2 * y) = 3 * x ^ 2 - 3" by (simp add: slope_def p256_a_def power2_eq_square algebra_simps)
  then have M: "M = l * (2 * Y * Z)" unfolding assms(4) P by algebra
  show ?thesis unfolding P(1)
  proof (rule slope_sum [OF l n])
    show "2 * Y * Z \<noteq> 0" using Z assms(2) by simp
    show "X3 = (l\<^sup>2 - x - x) * (2 * Y * Z)\<^sup>2" unfolding assms(6,5) M P by algebra
    then show "M * (S - X3) - 8 * Y ^ 4 = (l * (2 * x + x - l\<^sup>2) - y) * (2 * Y * Z) ^ 3"
      unfolding assms(5) M P by algebra
  qed
qed

lemma jacobian_add:
  assumes "jacobian X1 Y1 Z1 P" and "jacobian X2 Y2 Z2 Q"
    and on: "on_curve p256_a p256_b P" "on_curve p256_a p256_b Q"
    and U: "U1 = X1 * Z2 ^ 2" "U2 = X2 * Z1 ^ 2" and S: "S1 = Y1 * Z2 ^ 3" "S2 = Y2 * Z1 ^ 3"
  shows "U1 = U2 \<Longrightarrow> S1 \<noteq> S2 \<Longrightarrow> padd P Q = Infinity"
    and "U1 = U2 \<Longrightarrow> S1 = S2 \<Longrightarrow> P = Q"
    and "U1 \<noteq> U2 \<Longrightarrow> H = U2 - U1 \<Longrightarrow> J = 4 * H ^ 3 \<Longrightarrow> R = 2 * (S2 - S1) \<Longrightarrow> V = 4 * U1 * H ^ 2 \<Longrightarrow>
      X3 = R ^ 2 - J - 2 * V \<Longrightarrow>
      jacobian X3 (R * (V - X3) - 2 * S1 * J) (2 * Z1 * Z2 * H) (padd P Q)"
proof -
  from assms(1) obtain x1 y1 where P: "P = Point x1 y1" "X1 = x1 * Z1 ^ 2" "Y1 = y1 * Z1 ^ 3" and Z1: "Z1 \<noteq> 0"
    unfolding jacobian_def by blast
  from assms(2) obtain x2 y2 where Q: "Q = Point x2 y2" "X2 = x2 * Z2 ^ 2" "Y2 = y2 * Z2 ^ 3" and Z2: "Z2 \<noteq> 0"
    unfolding jacobian_def by blast
  have u: "U1 = x1 * (Z1 * Z2) ^ 2" "U2 = x2 * (Z1 * Z2) ^ 2"
    and s: "S1 = y1 * (Z1 * Z2) ^ 3" "S2 = y2 * (Z1 * Z2) ^ 3"
    unfolding U S P Q by algebra+
  have eq: "U1 = U2 \<longleftrightarrow> x1 = x2" "S1 = S2 \<longleftrightarrow> y1 = y2" unfolding u s using Z1 Z2 by simp_all
  {
    assume "U1 = U2"
    then have "y1 ^ 2 = y2 ^ 2" using on P(1) Q(1) eq by (simp add: on_curve_def)
    then have "y1 = y2 \<or> y1 = - y2" by (simp add: power2_eq_iff)
    with \<open>U1 = U2\<close> eq show "S1 \<noteq> S2 \<Longrightarrow> padd P Q = Infinity" and "S1 = S2 \<Longrightarrow> P = Q"
      by (auto simp: P Q point_add_def)
  }
  {
    assume "U1 \<noteq> U2" and d: "H = U2 - U1" "J = 4 * H ^ 3" "R = 2 * (S2 - S1)" "V = 4 * U1 * H ^ 2"
      "X3 = R ^ 2 - J - 2 * V"
    with eq have ne: "x1 \<noteq> x2" by simp
    then have n: "\<not> (x1 = x2 \<and> y1 = - y2)" by simp
    obtain l where l: "slope p256_a x1 y1 x2 y2 l" using p256.slope_exists [OF _ _ n] on P(1) Q(1) by blast
    then have y1: "y1 = y2 + l * (x1 - x2)" by (simp add: slope_def algebra_simps)
    show "jacobian X3 (R * (V - X3) - 2 * S1 * J) (2 * Z1 * Z2 * H) (padd P Q)"
      unfolding P(1) Q(1)
    proof (rule slope_sum [OF l n])
      show "2 * Z1 * Z2 * H \<noteq> 0" using Z1 Z2 \<open>U1 \<noteq> U2\<close> d(1) by simp
      show "X3 = (l\<^sup>2 - x1 - x2) * (2 * Z1 * Z2 * H)\<^sup>2" unfolding d u s y1 by algebra
      then show "R * (V - X3) - 2 * S1 * J = (l * (2 * x1 + x2 - l\<^sup>2) - y1) * (2 * Z1 * Z2 * H) ^ 3"
        unfolding d(1-4) u s y1 by algebra
    qed
  }
qed

section \<open>The numbers of the program as field elements\<close>

abbreviation P_limbs :: limbs where "P_limbs \<equiv> n256_be P_BE"

definition fe :: "limbs \<Rightarrow> fp" where
  "fe a = of_nat (limbs_val a)"

lemma replicate_unroll: "replicate (numeral k) x = x # replicate (pred_numeral k) x"
  by (simp add: numeral_eq_Suc)

lemma P_val: "be_val P_BE = p256_p"
  by (simp add: P_BE_def p256_p_def be_val_def replicate_unroll)

lemma n256_be_val:
  assumes "length p \<le> 32"
  shows "limbs_val (n256_be p) = be_val p" "limbs_ok (n256_be p)" "length (lw (n256_be p)) = 9"
    and "ln (n256_be p) \<le> 8" and "1 < be_val p \<Longrightarrow> modulus_ok (n256_be p)"
proof -
  have "length p \<le> 4 * (9 - 1)" using assms by simp
  from limbs_be_val [OF this]
  show v: "limbs_val (n256_be p) = be_val p" "limbs_ok (n256_be p)" "length (lw (n256_be p)) = 9" by simp_all
  have "(2 :: nat) ^ (8 * length p) \<le> 2 ^ (32 * 8)" using assms by (intro power_increasing) simp_all
  with be_val_less [of p] have "limbs_val (n256_be p) < 2 ^ (32 * 8)" unfolding v by linarith
  from ln_le [OF v(2) this] show "ln (n256_be p) \<le> 8" .
  then show "modulus_ok (n256_be p)" if "1 < be_val p" using that by (simp add: modulus_ok_def v)
qed

lemma P_limbs: "modulus_ok P_limbs" "limbs_val P_limbs = p256_p" "limbs_ok P_limbs" "length (lw P_limbs) = 9"
proof -
  have len: "length P_BE \<le> 32" by (simp add: P_BE_def)
  show "modulus_ok P_limbs" "limbs_val P_limbs = p256_p" "limbs_ok P_limbs" "length (lw P_limbs) = 9"
    using n256_be_val [OF len] by (simp_all add: P_val)
qed

definition felem :: "limbs \<Rightarrow> bool" where
  "felem a \<longleftrightarrow> residue P_limbs a"

lemma felem_less: "felem a \<Longrightarrow> limbs_val a < p256_p"
  by (simp add: felem_def residue_def P_limbs)

lemma of_int_mod_fp: "of_int (k mod int p256_p) = (of_int k :: fp)"
proof -
  have "(of_nat p256_p :: fp) = 0" using of_nat_eq_iff_fp [of p256_p 0] by simp
  moreover have "of_int k = (of_int (int p256_p) * of_int (k div int p256_p) + of_int (k mod int p256_p) :: fp)"
    by (simp only: of_int_add [symmetric] of_int_mult [symmetric] mult_div_mod_eq)
  ultimately show ?thesis by (simp only: of_int_of_nat_eq) simp
qed

lemma felem_ops:
  assumes "felem a" and "felem b"
  shows "felem (addm a b P_limbs)" "fe (addm a b P_limbs) = fe a + fe b"
    and "felem (subm a b P_limbs)" "fe (subm a b P_limbs) = fe a - fe b"
    and "felem (mulm a b P_limbs)" "fe (mulm a b P_limbs) = fe a * fe b"
proof -
  note a = assms [unfolded felem_def]
  show "felem (addm a b P_limbs)" "fe (addm a b P_limbs) = fe a + fe b"
    using addm_val [OF P_limbs(1) a] by (simp_all add: felem_def fe_def P_limbs)
  show "felem (mulm a b P_limbs)" "fe (mulm a b P_limbs) = fe a * fe b"
    using mulm_val [OF P_limbs(1) a(1)] by (simp_all add: felem_def fe_def P_limbs)
  show "felem (subm a b P_limbs)" using subm_val [OF P_limbs(1) a] by (simp add: felem_def)
  have "(of_int (int (limbs_val (subm a b P_limbs))) :: fp) = of_int ((int (limbs_val a) - int (limbs_val b)) mod int p256_p)"
    using subm_val [OF P_limbs(1) a] by (simp only: P_limbs)
  then show "fe (subm a b P_limbs) = fe a - fe b" by (simp add: fe_def of_int_mod_fp)
qed

lemma felem_pow: "felem a \<Longrightarrow> felem (powm a e P_limbs) \<and> fe (powm a e P_limbs) = fe a ^ limbs_val e"
  using powm_val [OF P_limbs(1)] by (simp add: felem_def fe_def P_limbs)

lemma felem_eq: "felem a \<Longrightarrow> felem b \<Longrightarrow> limbs_eq a b \<longleftrightarrow> fe a = fe b"
  using felem_less [of a] felem_less [of b]
  by (simp add: limbs_eq_iff felem_def residue_def fe_def of_nat_eq_iff_fp)

lemma felem_zero: "felem a \<Longrightarrow> limbs_is_zero a \<longleftrightarrow> fe a = 0"
  using felem_less [of a] of_nat_eq_iff_fp [of "limbs_val a" 0]
  by (simp add: limbs_is_zero_def felem_def residue_def ln_zero_iff fe_def)

lemma felem_small: "felem (n256_small 1)" "fe (n256_small 1) = 1"
  using limbs_small_val [of 9 1] by (simp_all add: felem_def residue_def P_limbs fe_def)

lemmas felem_simps = felem_ops felem_pow felem_eq felem_zero felem_small

section \<open>Points of the program\<close>

definition stands_for :: "jp \<Rightarrow> fp point \<Rightarrow> bool" where
  "stands_for j P \<longleftrightarrow>
     (if jinf j then P = Infinity
      else felem (jx j) \<and> felem (jy j) \<and> felem (jz j) \<and> jacobian (fe (jx j)) (fe (jy j)) (fe (jz j)) P)"

abbreviation on_p256 :: "fp point \<Rightarrow> bool" where
  "on_p256 \<equiv> on_curve p256_a p256_b"

lemma sq: "x * x = x ^ 2" "x * x ^ 2 = x ^ 3" for x :: fp
  by (simp_all add: power2_eq_square power3_eq_cube)

lemma dbl_stands:
  assumes "stands_for j P" and "on_p256 P"
  shows "stands_for (dbl j P_limbs) (padd P P)"
proof -
  consider "jinf j" | "\<not> jinf j" "fe (jy j) = 0" | "\<not> jinf j" "fe (jy j) \<noteq> 0" by blast
  then show ?thesis
  proof cases
    case 1
    then show ?thesis using assms(1) by (simp add: stands_for_def dbl_def jp_inf_def)
  next
    case 2
    then obtain x y where "P = Point x y" "y = 0"
      using assms(1) by (auto simp: stands_for_def jacobian_def)
    then have "padd P P = Infinity" by (simp add: point_add_def)
    then show ?thesis using assms(1) 2 by (simp add: stands_for_def dbl_def jp_inf_def felem_zero)
  next
    case 3
    with assms(1) have e: "felem (jx j)" "felem (jy j)" "felem (jz j)"
      and J: "jacobian (fe (jx j)) (fe (jy j)) (fe (jz j)) P" by (simp_all add: stands_for_def)
    have "\<not> limbs_is_zero (jy j)" using 3 e by (simp add: felem_zero)
    with 3 e have "stands_for (dbl j P_limbs) (padd P P) \<longleftrightarrow>
        jacobian (fe (jx (dbl j P_limbs))) (fe (jy (dbl j P_limbs))) (fe (jz (dbl j P_limbs))) (padd P P)"
      by (simp add: stands_for_def dbl_def Let_def felem_simps)
    also have "\<dots>"
      using \<open>\<not> limbs_is_zero (jy j)\<close> 3(1) e
      by (intro jacobian_eq [OF jacobian_double [OF J 3(2) assms(2) refl refl refl]];
          simp add: dbl_def Let_def felem_simps; algebra)
    finally show ?thesis .
  qed
qed

lemma addj_stands:
  assumes "stands_for i P" and "stands_for j Q" and "on_p256 P" and "on_p256 Q"
  shows "stands_for (addj i j P_limbs) (padd P Q)"
proof (cases "jinf i \<or> jinf j")
  case True
  with assms(1,2) show ?thesis by (auto simp: addj_def stands_for_def)
next
  case False
  with assms(1,2) have e: "felem (jx i)" "felem (jy i)" "felem (jz i)" "felem (jx j)" "felem (jy j)" "felem (jz j)"
    and J: "jacobian (fe (jx i)) (fe (jy i)) (fe (jz i)) P" "jacobian (fe (jx j)) (fe (jy j)) (fe (jz j)) Q"
    by (simp_all add: stands_for_def)
  let ?U1 = "fe (jx i) * fe (jz j) ^ 2" and ?U2 = "fe (jx j) * fe (jz i) ^ 2"
  let ?S1 = "fe (jy i) * fe (jz j) ^ 3" and ?S2 = "fe (jy j) * fe (jz i) ^ 3"
  note add = jacobian_add [OF J assms(3,4) refl refl refl refl]
  consider "?U1 = ?U2" "?S1 \<noteq> ?S2" | "?U1 = ?U2" "?S1 = ?S2" | "?U1 \<noteq> ?U2" by blast
  then show ?thesis
  proof cases
    case 1
    with False e show ?thesis using add(1) by (simp add: addj_def Let_def felem_simps sq stands_for_def jp_inf_def)
  next
    case 2
    with False e show ?thesis using add(2) dbl_stands [OF assms(1,3)] by (simp add: addj_def Let_def felem_simps sq)
  next
    case 3
    with False e have "stands_for (addj i j P_limbs) (padd P Q) \<longleftrightarrow> jacobian (fe (jx (addj i j P_limbs)))
        (fe (jy (addj i j P_limbs))) (fe (jz (addj i j P_limbs))) (padd P Q)"
      by (simp add: stands_for_def addj_def Let_def felem_simps sq)
    also have "\<dots>"
      using 3 False e
      by (intro jacobian_eq [OF add(3) [OF 3 refl refl refl refl refl]];
          simp add: addj_def Let_def felem_simps sq; algebra)
    finally show ?thesis .
  qed
qed

lemma add_mixed_stands:
  assumes "stands_for i P" and "felem qx" and "felem qy" and "on_p256 P" and "on_p256 (Point (fe qx) (fe qy))"
  shows "stands_for (add_mixed i qx qy P_limbs) (padd P (Point (fe qx) (fe qy)))"
proof (cases "jinf i")
  case True
  with assms(1,2,3) show ?thesis by (simp add: add_mixed_def stands_for_def felem_simps jacobian_def)
next
  case False
  with assms(1) have e: "felem (jx i)" "felem (jy i)" "felem (jz i)"
    and J: "jacobian (fe (jx i)) (fe (jy i)) (fe (jz i)) P"
    by (simp_all add: stands_for_def)
  note e = e assms(2,3)
  have J2: "jacobian (fe qx) (fe qy) 1 (Point (fe qx) (fe qy))" by (simp add: jacobian_def)
  let ?U1 = "fe (jx i) * 1 ^ 2" and ?U2 = "fe qx * fe (jz i) ^ 2"
  let ?S1 = "fe (jy i) * 1 ^ 3" and ?S2 = "fe qy * fe (jz i) ^ 3"
  note add = jacobian_add [OF J J2 assms(4,5) refl refl refl refl]
  consider "?U1 = ?U2" "?S1 \<noteq> ?S2" | "?U1 = ?U2" "?S1 = ?S2" | "?U1 \<noteq> ?U2" by blast
  then show ?thesis
  proof cases
    case 1
    with False e show ?thesis using add(1)
      by (simp add: add_mixed_def Let_def felem_simps sq stands_for_def jp_inf_def eq_commute)
  next
    case 2
    with False e show ?thesis using add(2) dbl_stands [OF assms(1,4)]
      by (simp add: add_mixed_def Let_def felem_simps sq eq_commute)
  next
    case 3
    with False e have "stands_for (add_mixed i qx qy P_limbs) (padd P (Point (fe qx) (fe qy))) \<longleftrightarrow>
        jacobian (fe (jx (add_mixed i qx qy P_limbs))) (fe (jy (add_mixed i qx qy P_limbs)))
          (fe (jz (add_mixed i qx qy P_limbs))) (padd P (Point (fe qx) (fe qy)))"
      by (simp add: stands_for_def add_mixed_def Let_def felem_simps sq eq_commute)
    also have "\<dots>"
      using not_sym [OF 3] False e
      by (intro jacobian_eq [OF add(3) [OF 3 refl refl refl refl refl]];
          simp add: add_mixed_def Let_def felem_simps sq; (algebra | simp add: power2_eq_square algebra_simps))
    finally show ?thesis .
  qed
qed

section \<open>Scalar multiplication\<close>

abbreviation pmul :: "nat \<Rightarrow> fp point \<Rightarrow> fp point" where
  "pmul \<equiv> point_mul p256_a"

lemma scalar_stands:
  assumes k: "limbs_ok k" and q: "felem qx" "felem qy" and on: "on_p256 (Point (fe qx) (fe qy))"
  shows "stands_for (scalar k qx qy P_limbs) (pmul (limbs_val k) (Point (fe qx) (fe qy)))"
proof -
  let ?Q = "Point (fe qx) (fe qy)" and ?v = "limbs_val k"
  have "stands_for (fold (scalar_step k qx qy P_limbs) (rev [i + 1..<nbits k + 1]) jp_inf) (pmul (?v div 2 ^ i) ?Q)"
    if "i \<le> nbits k" for i
    using that
  proof (induction "nbits k - i" arbitrary: i)
    case 0
    then have "?v div 2 ^ i = 0" using limbs_val_nbits [of k] by simp
    with 0 show ?case by (simp add: stands_for_def jp_inf_def)
  next
    case (Suc d)
    define r where "r = fold (scalar_step k qx qy P_limbs) (rev [Suc i + 1..<nbits k + 1]) jp_inf"
    have r: "stands_for r (pmul (?v div 2 ^ Suc i) ?Q)" unfolding r_def using Suc by (intro Suc(1)) simp_all
    have lt: "i < nbits k" using Suc(2) by linarith
    then have upt: "[i + 1..<nbits k + 1] = (i + 1) # [Suc i + 1..<nbits k + 1]"
      by (simp add: upt_conv_Cons)
    then have step: "fold (scalar_step k qx qy P_limbs) (rev [i + 1..<nbits k + 1]) jp_inf
        = scalar_step k qx qy P_limbs (i + 1) r"
      unfolding r_def upt by simp
    have "bit ?v i \<longleftrightarrow> odd (?v div 2 ^ i)" by (simp add: bit_iff_odd)
    moreover have "?v div 2 ^ Suc i = ?v div 2 ^ i div 2" by (simp only: power_Suc2 div_mult2_eq)
    ultimately have v: "?v div 2 ^ i = (if bit ?v i then 1 else 0) + 2 * (?v div 2 ^ Suc i)" by (simp add: odd_two_times_div_two_nat)
    have d: "stands_for (dbl r P_limbs) (pmul (2 * (?v div 2 ^ Suc i)) ?Q)"
      using dbl_stands [OF r] p256.mul_closed [OF on] by (simp add: mult_2 p256.mul_add [OF on])
    show ?case
    proof (cases "bit ?v i")
      case True
      with add_mixed_stands [OF d q p256.mul_closed [OF on] on] v
      show ?thesis unfolding step
        by (simp add: scalar_step_def Let_def limb_bit_val p256.add_comm [OF p256.mul_closed [OF on] on])
    next
      case False
      with d v show ?thesis unfolding step by (simp add: scalar_step_def Let_def limb_bit_val)
    qed
  qed
  from this [of 0] show ?thesis by (simp add: scalar_def)
qed

text \<open>\<open>Z\<^sup>p\<^sup>-\<^sup>2\<close> is the inverse.\<close>

lemma pm2_val: "limbs_val (subraw P_limbs (n256_small 2)) = p256_p - 2"
proof -
  have s: "limbs_val (n256_small 2) = 2 \<and> limbs_ok (n256_small 2) \<and> length (lw (n256_small 2)) = 9"
    using limbs_small_val [of 9 2] by simp
  have "limbs_val (n256_small 2) \<le> limbs_val P_limbs" using s p256_p_gt by (simp add: P_limbs)
  from subraw_val [OF P_limbs(3) _ this] s show ?thesis by (simp add: P_limbs)
qed

lemma jacobian_affine:
  assumes "jacobian X Y Z P" and "z = Z ^ (p256_p - 2)"
  shows "P = Point (X * z ^ 2) (Y * z ^ 3)"
proof -
  from assms(1) obtain x y where P: "P = Point x y" "X = x * Z ^ 2" "Y = y * Z ^ 3" and Z: "Z \<noteq> 0"
    unfolding jacobian_def by blast
  have "Z * z = 1" using fp_fermat [OF Z] by (simp add: assms(2) mult.commute)
  then have "(Z * z) ^ 2 = 1" "(Z * z) ^ 3 = 1" by simp_all
  then show ?thesis unfolding P by (simp add: power_mult_distrib mult.assoc)
qed

lemma affine_stands:
  assumes "stands_for j P"
  shows "case P of
      Infinity \<Rightarrow> affine_xy j P_limbs = None \<and> affine_x j P_limbs = None
    | Point x y \<Rightarrow> \<exists>a b. affine_xy j P_limbs = Some (a, b) \<and> affine_x j P_limbs = Some a
        \<and> felem a \<and> felem b \<and> fe a = x \<and> fe b = y"
proof (cases "jinf j")
  case True
  with assms show ?thesis by (simp add: stands_for_def affine_xy_def affine_x_def)
next
  case False
  with assms have e: "felem (jx j)" "felem (jy j)" "felem (jz j)"
    and J: "jacobian (fe (jx j)) (fe (jy j)) (fe (jz j)) P" by (simp_all add: stands_for_def)
  from False e jacobian_affine [OF J refl] show ?thesis
    by (simp add: affine_xy_def affine_x_def Let_def felem_simps pm2_val sq mult.assoc) (simp add: sq mult.commute)
qed

end
