(* ===== verification/P256Spec.thy ===== *)
theory P256Spec
  imports P256Points
begin

text \<open>
  The three entry points of \<open>src/crypto/p256_verify.cpp\<close>: the public key is the multiple of the base
  point, the shared secret is the abscissa of the multiple of the peer's point, so that both sides agree,
  and the verification of a signature is that of FIPS 186-4.
\<close>

section \<open>Bytes\<close>

lemma be_bytes_append: "be_bytes (m + n) v = be_bytes m (v div 2 ^ (8 * n)) @ be_bytes n v"
proof (induction n arbitrary: v)
  case 0
  then show ?case by (simp add: be_bytes_def [of 0])
next
  case (Suc n)
  have "v div 2 ^ 8 div 2 ^ (8 * n) = v div 2 ^ (8 * Suc n)" by (simp add: div_mult2_eq power_add)
  with Suc show ?case by (simp add: be_bytes_Suc)
qed

lemma be_bytes_mod: "be_bytes n (v mod 2 ^ (8 * n)) = be_bytes n v"
  using be_bytes_be_val [of "be_bytes n v"] by (simp add: be_val_be_bytes)

lemma be_bytes_word: "be_bytes 4 (unat (w :: u32)) = store_be32 w"
proof -
  have byte: "of_nat (unat w div 2 ^ (8 * j)) = (ucast (drop_bit (8 * j) w) :: u8)" if "j < 4" for j
    using words_byte [of 0 1 j "[w]"] that by (simp add: words_val_Suc)
  have "[0..<4] = [0, 1, 2, 3 :: nat]" by (simp add: upt_rec)
  then show ?thesis using byte [of 0] byte [of 1] byte [of 2] byte [of 3]
    by (simp add: be_bytes_def store_be32_def)
qed

lemma be_bytes_words: "be_bytes (4 * m) (words_val w m) = concat (map (\<lambda>i. store_be32 (w ! i)) (rev [0..<m]))"
proof (induction m)
  case 0
  then show ?case by (simp add: be_bytes_def)
next
  case (Suc m)
  let ?v = "words_val w m + unat (w ! m) * 2 ^ (32 * m)"
  have less: "words_val w m < 2 ^ (32 * m)" by (rule words_val_less)
  then have "?v div 2 ^ (8 * (4 * m)) = unat (w ! m)" "?v mod 2 ^ (8 * (4 * m)) = words_val w m"
    by simp_all
  with be_bytes_append [of 4 "4 * m" ?v] be_bytes_mod [of "4 * m" ?v] Suc show ?case
    by (simp add: words_val_Suc be_bytes_word)
qed

lemma to_be32_eq:
  assumes "ln a \<le> 8"
  shows "to_be32 a = be_bytes 32 (limbs_val a)"
proof -
  have fold: "fold (\<lambda>i out. write_at out (32 - 4 * (i + 1)) (store_be32 (w ! i))) [0..<m] (replicate 32 0)
      = replicate (32 - 4 * m) 0 @ concat (map (\<lambda>i. store_be32 (w ! i)) (rev [0..<m]))" if "m \<le> 8" for m w
    using that
  proof (induction m)
    case (Suc m)
    define c where "c = concat (map (\<lambda>i. store_be32 (w ! i)) (rev [0..<m]))"
    have "32 - 4 * m = (32 - 4 * Suc m) + 4" using Suc by simp
    then have "replicate (32 - 4 * m) (0::u8) @ c = replicate (32 - 4 * Suc m) 0 @ replicate 4 0 @ c"
      by (simp only: replicate_add append_assoc)
    with Suc show ?case by (simp add: c_def write_at_def)
  qed simp
  have "words_val (lw a) (ln a) < 2 ^ (8 * (4 * ln a))" using words_val_less [of "lw a" "ln a"] by simp
  moreover have "(32 :: nat) = (32 - 4 * ln a) + 4 * ln a" using assms by simp
  ultimately have "be_bytes 32 (limbs_val a) = replicate (32 - 4 * ln a) 0 @ be_bytes (4 * ln a) (limbs_val a)"
    unfolding limbs_val_def by (metis be_bytes_append be_bytes_zero div_less)
  also have "\<dots> = to_be32 a" using fold [OF assms, of "lw a"] assms
    by (simp add: to_be32_def be_bytes_words limbs_val_def min_def)
  finally show ?thesis by simp
qed

section \<open>Key agreement\<close>

definition fp_nat :: "fp \<Rightarrow> nat" where
  "fp_nat x = nat (Rep_fp x)"

lemma fp_nat_less: "fp_nat x < p256_p"
  using Rep_fp [of x] by (simp add: fp_nat_def nat_less_iff)

lemma of_nat_fp_nat [simp]: "of_nat (fp_nat x) = x"
  using Rep_fp [of x] fp_nat_less [of x] by (simp add: Rep_fp_inject [symmetric] Rep_of_nat) (simp add: fp_nat_def)

lemma fp_nat_of_nat: "n < p256_p \<Longrightarrow> fp_nat (of_nat n) = n"
  by (simp add: fp_nat_def Rep_of_nat)

lemma fp_nat_fe: "felem a \<Longrightarrow> fp_nat (fe a) = limbs_val a"
  using felem_less [of a] by (simp add: fe_def fp_nat_of_nat)

definition p256_G :: "fp point" where
  "p256_G = Point (of_nat (be_val GX_BE)) (of_nat (be_val GY_BE))"

text \<open>The uncompressed encoding of a point (SEC 1, section 2.3.3).\<close>

definition encode_point :: "fp point \<Rightarrow> bytes" where
  "encode_point P = (case P of Infinity \<Rightarrow> [0]
     | Point x y \<Rightarrow> [4] @ be_bytes 32 (fp_nat x) @ be_bytes 32 (fp_nat y))"

definition decode_point :: "bytes \<Rightarrow> fp point option" where
  "decode_point u =
     (let x = be_val (take 32 (drop 1 u)); y = be_val (drop 33 u); P = Point (of_nat x) (of_nat y)
      in if length u = 65 \<and> u ! 0 = 4 \<and> x < p256_p \<and> y < p256_p \<and> on_p256 P then Some P else None)"

lemma p256_p_less: "p256_p < 2 ^ (8 * 32)" "p256_n < 2 ^ (8 * 32)" "p256_n < p256_p" "p256_p < 2 * p256_n"
  by (simp_all add: p256_p_def p256_n_def)

lemma length_encode_point: "P \<noteq> Infinity \<Longrightarrow> length (encode_point P) = 65"
  by (cases P) (simp_all add: encode_point_def)

lemma decode_encode:
  assumes "on_p256 P" and "P \<noteq> Infinity"
  shows "decode_point (encode_point P) = Some P"
proof (cases P)
  case (Point x y)
  have less: "fp_nat z < 2 ^ (8 * 32)" for z using fp_nat_less [of z] p256_p_less by linarith
  show ?thesis
    using assms Point less fp_nat_less [of x] fp_nat_less [of y]
    by (simp add: decode_point_def encode_point_def Let_def be_val_be_bytes nth_append)
qed (use assms in simp)

lemma G_val:
  "be_val GX_BE = 48439561293906451759052585252797914202762949526041747995844080717082404635286"
  "be_val GY_BE = 36134250956749795798585127919587881956611106672985015071877198253568414405109"
  "be_val B_BE = p256_b_nat"
  by (simp_all add: GX_BE_def GY_BE_def B_BE_def be_val_def p256_b_nat_def)

lemma G_on: "on_p256 p256_G"
proof -
  define x y where "x = be_val GX_BE" and "y = be_val GY_BE"
  have "x * x * x + p256_b_nat = y * y + 3 * x +
      981570988164258562257936101525215858910690391106138407341175333813841188485201771743408849884010754226965632845910189239885256093057339116530079505515608 * p256_p"
    by (simp add: x_def y_def G_val p256_b_nat_def p256_p_def)
  then have "(of_nat (x * x * x + p256_b_nat) :: fp) = of_nat (y * y + 3 * x)"
    by (simp only: of_nat_eq_iff_fp mod_mult_self1)
  then show ?thesis
    by (simp add: p256_G_def x_def y_def on_curve_def p256_a_def p256_b_def power2_eq_square power3_eq_cube algebra_simps)
qed

lemma N_val: "be_val N_BE = p256_n"
  by (simp add: N_BE_def p256_n_def be_val_def replicate_unroll)

lemma N_limbs:
  "modulus_ok (n256_be N_BE)" "limbs_val (n256_be N_BE) = p256_n" "limbs_ok (n256_be N_BE)" "length (lw (n256_be N_BE)) = 9"
proof -
  have "length N_BE \<le> 32" by (simp add: N_BE_def)
  moreover have "1 < p256_n" by (simp add: p256_n_def)
  ultimately show "modulus_ok (n256_be N_BE)" "limbs_val (n256_be N_BE) = p256_n"
    "limbs_ok (n256_be N_BE)" "length (lw (n256_be N_BE)) = 9"
    using n256_be_val by (simp_all add: N_val)
qed

lemma n256_be_felem:
  assumes "length p \<le> 32"
  shows "be_val p < p256_p \<Longrightarrow> felem (n256_be p)" "fe (n256_be p) = of_nat (be_val p)"
  using n256_be_val [OF assms] by (simp_all add: felem_def residue_def P_limbs fe_def)

lemma valid_private_iff:
  "length k = 32 \<Longrightarrow> valid_private (n256_be k) (n256_be N_BE) \<longleftrightarrow> 0 < be_val k \<and> be_val k < p256_n"
  using n256_be_val [of k] by (auto simp: valid_private_def limbs_is_zero_def ln_zero_iff cmp_less_iff N_limbs)

lemma cmp_P_iff: "length q \<le> 32 \<Longrightarrow> cmp (n256_be q) P_limbs \<ge> 0 \<longleftrightarrow> p256_p \<le> be_val q"
  using n256_be_val [of q] by (simp add: cmp_ge_iff P_limbs)

lemma on_curve_check_iff:
  assumes "felem qx" and "felem qy"
  shows "p256_on_curve_check qx qy \<longleftrightarrow> on_p256 (Point (fe qx) (fe qy))"
proof -
  have "length B_BE \<le> 32" by (simp add: B_BE_def)
  moreover have "be_val B_BE < p256_p" by (simp add: G_val p256_b_nat_def p256_p_def)
  ultimately have "felem (n256_be B_BE)" "fe (n256_be B_BE) = p256_b"
    using n256_be_felem [of B_BE] by (simp_all add: G_val p256_b_def)
  with assms show ?thesis
    by (simp add: p256_on_curve_check_def Let_def felem_simps on_curve_def p256_a_def sq algebra_simps)
qed

text \<open>What both entry points compute from a valid key and a point on the curve.\<close>

lemma scalar_affine:
  assumes k: "length k = 32" and q: "felem qx" "felem qy" "on_p256 (Point (fe qx) (fe qy))"
  shows "case pmul (be_val k) (Point (fe qx) (fe qy)) of
      Infinity \<Rightarrow> affine_xy (scalar (n256_be k) qx qy P_limbs) P_limbs = None
    | Point x y \<Rightarrow> \<exists>a b. affine_xy (scalar (n256_be k) qx qy P_limbs) P_limbs = Some (a, b)
        \<and> to_be32 a = be_bytes 32 (fp_nat x) \<and> to_be32 b = be_bytes 32 (fp_nat y)"
proof -
  note nv = n256_be_val [of k, unfolded k, OF order_refl]
  have bytes: "to_be32 a = be_bytes 32 (fp_nat (fe a))" if "felem a" for a
  proof -
    have "limbs_val a < 2 ^ (32 * 8)" using felem_less [OF that] p256_p_less(1) by simp
    then have "ln a \<le> 8" using that by (intro ln_le) (simp_all add: felem_def residue_def)
    then show ?thesis by (simp add: to_be32_eq fp_nat_fe [OF that])
  qed
  show ?thesis
    using affine_stands [OF scalar_stands [OF nv(2) q]] bytes
    by (auto simp: nv(1) split: point.splits)
qed

lemma G_limbs:
  "felem (n256_be GX_BE)" "felem (n256_be GY_BE)" "p256_G = Point (fe (n256_be GX_BE)) (fe (n256_be GY_BE))"
  "on_p256 (Point (fe (n256_be GX_BE)) (fe (n256_be GY_BE)))"
proof -
  have "length GX_BE \<le> 32" "length GY_BE \<le> 32" by (simp_all add: GX_BE_def GY_BE_def)
  moreover have "be_val GX_BE < p256_p" "be_val GY_BE < p256_p" by (simp_all add: G_val p256_p_def)
  ultimately show g: "felem (n256_be GX_BE)" "felem (n256_be GY_BE)"
      "p256_G = Point (fe (n256_be GX_BE)) (fe (n256_be GY_BE))"
    using n256_be_felem by (simp_all add: p256_G_def)
  show "on_p256 (Point (fe (n256_be GX_BE)) (fe (n256_be GY_BE)))" using G_on unfolding g(3) .
qed

lemma p256_public_from_private_eq:
  assumes "length k = 32"
  shows "p256_public_from_private (Span k) =
    (if 0 < be_val k \<and> be_val k < p256_n \<and> pmul (be_val k) p256_G \<noteq> Infinity
     then Ok (encode_point (pmul (be_val k) p256_G)) else Err XT_ERR_VERIFY)"
  using scalar_affine [OF assms G_limbs(1,2,4)] assms
  by (auto simp: p256_public_from_private_def Let_def valid_private_iff G_limbs(3) encode_point_def rd_bytes_def
      split: point.splits)

lemma p256_shared_secret_eq:
  assumes "length k = 32" and "length u = 65"
  shows "p256_shared_secret (Span k) (Span u) =
    (case decode_point u of
       None \<Rightarrow> Err XT_ERR_VERIFY
     | Some Q \<Rightarrow>
         if 0 < be_val k \<and> be_val k < p256_n then
           (case pmul (be_val k) Q of
              Infinity \<Rightarrow> Err XT_ERR_VERIFY
            | Point x y \<Rightarrow> Ok (be_bytes 32 (fp_nat x)))
         else Err XT_ERR_VERIFY)"
proof -
  define xb yb where "xb = slice u 1 32" and "yb = slice u 33 32"
  have len: "length xb = 32" "length yb = 32" using assms(2) by (simp_all add: xb_def yb_def)
  have cut: "take 32 (drop 1 u) = xb" "take 32 (drop (Suc 0) u) = xb" "drop 33 u = yb"
    using assms(2) by (simp_all add: xb_def yb_def slice_def)
  have rd: "rd_bytes (Span u) 1 32 = Ok xb" "rd_bytes (Span u) (Suc 0) 32 = Ok xb" "rd_bytes (Span u) 33 32 = Ok yb" "rd_bytes (Span k) 0 32 = Ok k"
    "rd (Span u) 0 = Ok (u ! 0)"
    using assms by (simp_all add: rd_bytes_def xb_def yb_def slice_def)
  show ?thesis
  proof (cases "be_val xb < p256_p \<and> be_val yb < p256_p")
    case False
    then have "decode_point u = None" by (auto simp: decode_point_def Let_def cut)
    with False show ?thesis
      by (auto simp: p256_shared_secret_def Let_def rd cmp_P_iff len)
  next
    case True
    then have e: "felem (n256_be xb)" "felem (n256_be yb)"
      and v: "fe (n256_be xb) = of_nat (be_val xb)" "fe (n256_be yb) = of_nat (be_val yb)"
      using n256_be_felem len by simp_all
    note check = on_curve_check_iff [OF e, unfolded v]
    show ?thesis
    proof (cases "on_p256 (Point (of_nat (be_val xb)) (of_nat (be_val yb)))")
      case False
      with True check show ?thesis
        by (auto simp: p256_shared_secret_def Let_def rd cmp_P_iff len decode_point_def cut valid_private_iff assms)
    next
      case on: True
      with True check scalar_affine [OF assms(1) e, unfolded v, OF on] show ?thesis
        by (auto simp: p256_shared_secret_def Let_def rd cmp_P_iff len decode_point_def cut valid_private_iff assms
            split: point.splits)
    qed
  qed
qed

text \<open>The two sides of an agreement compute the same secret, the abscissa of the product of all three.\<close>

lemma p256_agreement:
  assumes "length a = 32" and "length b = 32"
    and "p256_public_from_private (Span a) = Ok pa" and "p256_public_from_private (Span b) = Ok pb"
  shows "p256_shared_secret (Span a) (Span pb) = p256_shared_secret (Span b) (Span pa)"
    and "p256_shared_secret (Span a) (Span pb) = (case pmul (be_val a * be_val b) p256_G of
      Infinity \<Rightarrow> Err XT_ERR_VERIFY | Point x y \<Rightarrow> Ok (be_bytes 32 (fp_nat x)))"
proof -
  have pub: "0 < be_val k \<and> be_val k < p256_n \<and> decode_point p = Some (pmul (be_val k) p256_G) \<and> length p = 65"
    if "length k = 32" "p256_public_from_private (Span k) = Ok p" for k p
  proof -
    from that(2) have "0 < be_val k \<and> be_val k < p256_n \<and> pmul (be_val k) p256_G \<noteq> Infinity
        \<and> p = encode_point (pmul (be_val k) p256_G)"
      by (simp add: p256_public_from_private_eq [OF that(1)] split: if_splits)
    then show ?thesis using decode_encode [OF p256.mul_closed [OF G_on]] length_encode_point by simp
  qed
  note A = pub [OF assms(1,3)] and B = pub [OF assms(2,4)]
  show "p256_shared_secret (Span a) (Span pb) = p256_shared_secret (Span b) (Span pa)"
    using A B by (simp add: p256_shared_secret_eq assms p256.mul_mul_comm [OF G_on])
  show "p256_shared_secret (Span a) (Span pb) = (case pmul (be_val a * be_val b) p256_G of
      Infinity \<Rightarrow> Err XT_ERR_VERIFY | Point x y \<Rightarrow> Ok (be_bytes 32 (fp_nat x)))"
    using A B by (simp add: p256_shared_secret_eq assms p256.mul_mult [OF G_on])
qed

lemma be_val_zeros [simp]: "be_val (replicate k 0) = 0"
proof (induction k)
  case (Suc k)
  then show ?case by (simp only: replicate_append_same [symmetric] replicate_Suc be_val_snoc) simp
qed simp

section \<open>ECDSA\<close>

lemma reduce_loop_val:
  assumes "felem x"
  shows "limbs_val (reduce_loop (n256_be N_BE) x) = limbs_val x mod p256_n \<and> limbs_ok (reduce_loop (n256_be N_BE) x)"
proof -
  have ok: "limbs_ok x" using assms by (simp add: felem_def residue_def)
  have less: "limbs_val x < 2 * p256_n" using felem_less [OF assms] p256_p_less(4) by simp
  show ?thesis
  proof (cases "limbs_val x < p256_n")
    case True
    then have "reduce_loop (n256_be N_BE) x = x"
      using ok by (simp add: reduce_loop_def while_unfold cmp_ge_iff N_limbs)
    with True ok show ?thesis by simp
  next
    case False
    then have sub: "limbs_val (subraw x (n256_be N_BE)) = limbs_val x - p256_n" "limbs_ok (subraw x (n256_be N_BE))"
      using subraw_val [OF ok N_limbs(3)] by (simp_all add: N_limbs)
    have "reduce_loop (n256_be N_BE) x = subraw x (n256_be N_BE)"
      using False less ok sub unfolding reduce_loop_def
      by (subst while_unfold, subst while_unfold) (simp add: cmp_ge_iff N_limbs)
    moreover have "limbs_val x mod p256_n = limbs_val x - p256_n"
      using False less by (simp add: le_mod_geq not_less)
    ultimately show ?thesis using sub by simp
  qed
qed

text \<open>The verification of FIPS 186-4, section 6.4, for the hash \<open>e\<close> of the message; \<open>w\<close> is the inverse of \<open>s\<close>.\<close>

definition ecdsa_accepts :: "fp point \<Rightarrow> nat \<Rightarrow> nat \<Rightarrow> nat \<Rightarrow> bool" where
  "ecdsa_accepts Q e r s \<longleftrightarrow> 0 < r \<and> r < p256_n \<and> 0 < s \<and> s < p256_n \<and>
     (\<exists>w. s * w mod p256_n = 1 \<and>
       (case padd (pmul (e * w mod p256_n) p256_G) (pmul (r * w mod p256_n) Q) of
          Infinity \<Rightarrow> False
        | Point x y \<Rightarrow> fp_nat x mod p256_n = r))"

lemma inverse_unique:
  fixes n :: nat
  assumes "s * v mod n = 1" and "s * w mod n = 1"
  shows "e * v mod n = e * w mod n"
proof -
  have "e * v mod n = e * v * (s * w) mod n" using assms(2) by (metis mod_mult_right_eq mult.right_neutral)
  also have "\<dots> = e * w * (s * v) mod n" by (simp add: ac_simps)
  also have "\<dots> = e * w mod n" using assms(1) by (metis mod_mult_right_eq mult.right_neutral)
  finally show ?thesis .
qed

lemma order_inverse:
  assumes "0 < s" and "s < p256_n"
  shows "s * (s ^ (p256_n - 2) mod p256_n) mod p256_n = 1"
proof -
  have "\<not> p256_n dvd s" using assms by (auto dest: dvd_imp_le)
  then have "s ^ (p256_n - 1) mod p256_n = 1" by (rule fermat [OF p256_order_prime])
  moreover have "p256_n - 1 = Suc (p256_n - 2)" by (simp add: p256_n_def)
  ultimately show ?thesis by (simp add: mod_mult_right_eq)
qed

lemma nm2_val: "limbs_val (subraw (n256_be N_BE) (n256_small 2)) = p256_n - 2"
proof -
  have s: "limbs_val (n256_small 2) = 2 \<and> limbs_ok (n256_small 2) \<and> length (lw (n256_small 2)) = 9"
    using limbs_small_val [of 9 2] by simp
  have "limbs_val (n256_small 2) \<le> limbs_val (n256_be N_BE)" using s by (simp add: N_limbs p256_n_def)
  from subraw_val [OF N_limbs(3) _ this] s show ?thesis by (simp add: N_limbs)
qed

lemma digest_reduced:
  assumes "length d = 32"
  defines "z \<equiv> (if cmp (n256_be d) (n256_be N_BE) \<ge> 0 then subraw (n256_be d) (n256_be N_BE) else n256_be d)"
  shows "residue (n256_be N_BE) z" and "limbs_val z = be_val d mod p256_n"
proof -
  have d: "length d \<le> 32" using assms(1) by simp
  have "be_val d < 2 ^ (8 * 32)" using be_val_less [of d] assms(1) by simp
  also have "(2 :: nat) ^ (8 * 32) < 2 * p256_n" by (simp add: p256_n_def)
  finally have less: "be_val d < 2 * p256_n" .
  have "residue (n256_be N_BE) z \<and> limbs_val z = be_val d mod p256_n"
  proof (cases "p256_n \<le> be_val d")
    case True
    with n256_be_val [OF d] subraw_val [of "n256_be d" "n256_be N_BE"] less show ?thesis
      by (simp add: z_def residue_def N_limbs cmp_ge_iff le_mod_geq)
  next
    case False
    with n256_be_val [OF d] show ?thesis by (simp add: z_def residue_def N_limbs cmp_ge_iff)
  qed
  then show "residue (n256_be N_BE) z" and "limbs_val z = be_val d mod p256_n" by simp_all
qed

lemma ecdsa_core_iff:
  assumes q: "felem qx" "felem qy" "on_p256 (Point (fe qx) (fe qy))"
    and r: "limbs_ok r" "limbs_val r < p256_n" "length (lw r) = 9" "0 < limbs_val r"
    and s: "limbs_ok s" "limbs_val s < p256_n" "length (lw s) = 9" "0 < limbs_val s"
    and d: "length d = 32"
  shows "ecdsa_core qx qy r s d = Ok () \<longleftrightarrow>
    ecdsa_accepts (Point (fe qx) (fe qy)) (be_val d) (limbs_val r) (limbs_val s)"
proof -
  let ?N = "n256_be N_BE"
  define z where "z = (if cmp (n256_be d) ?N \<ge> 0 then subraw (n256_be d) ?N else n256_be d)"
  define w where "w = powm s (subraw ?N (n256_small 2)) ?N"
  define u1 u2 where "u1 = mulm z w ?N" and "u2 = mulm r w ?N"
  define sum where "sum = addj (scalar u1 (n256_be GX_BE) (n256_be GY_BE) P_limbs) (scalar u2 qx qy P_limbs) P_limbs"
  have rs: "residue ?N r" "residue ?N s" using r s by (simp_all add: residue_def N_limbs)
  have z: "residue ?N z" "limbs_val z = be_val d mod p256_n" unfolding z_def by (rule digest_reduced [OF d])+
  have w: "residue ?N w" "limbs_val w = limbs_val s ^ (p256_n - 2) mod p256_n"
    using powm_val [OF N_limbs(1) rs(2)] by (simp_all add: w_def nm2_val N_limbs)
  have inv: "limbs_val s * limbs_val w mod p256_n = 1" unfolding w(2) by (rule order_inverse [OF s(4,2)])
  have u: "limbs_ok u1" "limbs_val u1 = be_val d * limbs_val w mod p256_n"
      "limbs_ok u2" "limbs_val u2 = limbs_val r * limbs_val w mod p256_n"
    using mulm_val [OF N_limbs(1) z(1)] mulm_val [OF N_limbs(1) rs(1)]
    by (simp_all add: u1_def u2_def residue_def N_limbs z(2) mod_mult_left_eq)
  let ?S = "padd (pmul (limbs_val u1) p256_G) (pmul (limbs_val u2) (Point (fe qx) (fe qy)))"
  have sum: "stands_for sum ?S"
    unfolding sum_def G_limbs(3)
    using scalar_stands [OF u(1) G_limbs(1,2) G_limbs(4)] scalar_stands [OF u(3) q]
      p256.mul_closed [OF G_limbs(4)] p256.mul_closed [OF q(3)]
    by (rule addj_stands)
  have core: "ecdsa_core qx qy r s d = (case affine_x sum P_limbs of
      None \<Rightarrow> Err XT_ERR_VERIFY
    | Some x \<Rightarrow> if limbs_eq (reduce_loop ?N x) r then Ok () else Err XT_ERR_VERIFY)"
    by (simp only: ecdsa_core_def Let_def z_def w_def u1_def u2_def sum_def)
  have "ecdsa_core qx qy r s d = Ok () \<longleftrightarrow>
      (case ?S of Infinity \<Rightarrow> False | Point x y \<Rightarrow> fp_nat x mod p256_n = limbs_val r)"
    using affine_stands [OF sum] reduce_loop_val r(1)
    by (auto simp: core limbs_eq_iff fp_nat_fe split: point.splits if_splits)
  also have "\<dots> \<longleftrightarrow> ecdsa_accepts (Point (fe qx) (fe qy)) (be_val d) (limbs_val r) (limbs_val s)"
    using inv r(2,4) s(2,4) inverse_unique [OF inv] unfolding ecdsa_accepts_def u by (metis (no_types, lifting))
  finally show ?thesis .
qed

lemma parse_sig_numbers:
  assumes "parse_sig der = Ok (r, s)"
  shows "\<exists>a b. length a \<le> 32 \<and> length b \<le> 32 \<and> r = n256_be a \<and> s = n256_be b"
proof -
  have "safe (parse_sig der) (\<lambda>(r, s). \<exists>a b. length a \<le> 32 \<and> length b \<le> 32 \<and> r = n256_be a \<and> s = n256_be b)"
    unfolding parse_sig_def
    by (intro ecdsa.safe_readI safe_guardI, elim ecdsa.reader_value)
      (auto intro!: safe_mono [OF sig_int_safe]; blast intro: leI)
  with assms show ?thesis by simp
qed

lemma native_p256_ecdsa_iff:
  "native_p256_ecdsa_sha256_verify (Span key) (Span msg) (Span sg) = Ok () \<longleftrightarrow>
    (\<exists>Q r s. decode_point key = Some Q \<and> parse_sig (Span sg) = Ok (r, s)
       \<and> ecdsa_accepts Q (be_val (sha256_spec msg)) (limbs_val r) (limbs_val s))"
proof (cases "length key = 65")
  case False
  then show ?thesis by (simp add: native_p256_ecdsa_sha256_verify_def decode_point_def Let_def)
next
  case len: True
  define xb yb where "xb = slice key 1 32" and "yb = slice key 33 32"
  have l: "length xb = 32" "length yb = 32" using len by (simp_all add: xb_def yb_def)
  have cut: "take 32 (drop 1 key) = xb" "take 32 (drop (Suc 0) key) = xb" "drop 33 key = yb"
    using len by (simp_all add: xb_def yb_def slice_def)
  have rd: "rd_bytes (Span key) 1 32 = Ok xb" "rd_bytes (Span key) (Suc 0) 32 = Ok xb"
    "rd_bytes (Span key) 33 32 = Ok yb" "rd (Span key) 0 = Ok (key ! 0)" "rd_bytes (Span msg) 0 (length msg) = Ok msg"
    using len by (simp_all add: rd_bytes_def xb_def yb_def slice_def)
  have d: "length (sha256 msg) = 32" by simp
  let ?Q = "Point (of_nat (be_val xb)) (of_nat (be_val yb)) :: fp point"
  let ?ok = "key ! 0 = 4 \<and> be_val xb < p256_p \<and> be_val yb < p256_p \<and> on_p256 ?Q"
  have dec: "decode_point key = (if ?ok then Some ?Q else None)"
    by (simp add: decode_point_def Let_def cut len)
  show ?thesis
  proof (cases ?ok)
    case False
    have check: "p256_on_curve_check (n256_be xb) (n256_be yb) \<longleftrightarrow> on_p256 ?Q"
      if "be_val xb < p256_p" "be_val yb < p256_p"
      using on_curve_check_iff [of "n256_be xb" "n256_be yb"] n256_be_felem [of xb] n256_be_felem [of yb] l that by simp
    with False show ?thesis
      by (auto simp: native_p256_ecdsa_sha256_verify_def Let_def rd cmp_P_iff l dec len)
  next
    case True
    then have e: "felem (n256_be xb)" "felem (n256_be yb)"
      and v: "fe (n256_be xb) = of_nat (be_val xb)" "fe (n256_be yb) = of_nat (be_val yb)"
      using n256_be_felem l by simp_all
    note check = on_curve_check_iff [OF e, unfolded v]
    have m: "bind_res (rd_bytes (Span msg) 0 (span_size (Span msg))) f = f msg" for f :: "bytes \<Rightarrow> unit res"
      by (simp add: rd)
    have run: "native_p256_ecdsa_sha256_verify (Span key) (Span msg) (Span sg) =
        bind_res (or_err (parse_sig (Span sg)) XT_ERR_VERIFY) (\<lambda>(r, s).
          if limbs_is_zero r \<or> limbs_is_zero s \<or> cmp r (n256_be N_BE) \<ge> 0 \<or> cmp s (n256_be N_BE) \<ge> 0
          then Err XT_ERR_VERIFY else ecdsa_core (n256_be xb) (n256_be yb) r s (sha256 msg))"
      unfolding native_p256_ecdsa_sha256_verify_def Let_def m
      using True check by (simp add: rd cmp_P_iff l len)
    show ?thesis
    proof (cases "parse_sig (Span sg)")
      case (Ok rs)
      obtain r s where rs: "rs = (r, s)" by (cases rs)
      then obtain a b where ab: "length a \<le> 32" "length b \<le> 32" "r = n256_be a" "s = n256_be b"
        using parse_sig_numbers Ok by blast
      note ra = n256_be_val [OF ab(1)] and sb = n256_be_val [OF ab(2)]
      have guard: "limbs_is_zero r \<or> limbs_is_zero s \<or> cmp r (n256_be N_BE) \<ge> 0 \<or> cmp s (n256_be N_BE) \<ge> 0
          \<longleftrightarrow> \<not> (0 < limbs_val r \<and> limbs_val r < p256_n \<and> 0 < limbs_val s \<and> limbs_val s < p256_n)"
        using ra sb ab(3,4) by (auto simp: limbs_is_zero_def ln_zero_iff cmp_ge_iff N_limbs)
      show ?thesis
      proof (cases "0 < limbs_val r \<and> limbs_val r < p256_n \<and> 0 < limbs_val s \<and> limbs_val s < p256_n")
        case inside: True
        then have "ecdsa_core (n256_be xb) (n256_be yb) r s (sha256 msg) = Ok () \<longleftrightarrow>
            ecdsa_accepts ?Q (be_val (sha256_spec msg)) (limbs_val r) (limbs_val s)"
          using ecdsa_core_iff [OF e, unfolded v, of r s "sha256 msg"] True ra sb ab(3,4) d
          by (simp add: sha256_correct)
        with Ok rs guard True inside show ?thesis by (simp add: run dec)
      next
        case out: False
        with Ok rs guard True show ?thesis by (auto simp: run dec ecdsa_accepts_def)
      qed
    qed (simp_all add: run)
  qed
qed

end
