(* ===== verification/Sample.thy ===== *)
theory Sample
  imports Completion Retry P256Spec
begin

text \<open>
  A handshake to the end, on concrete data: a client with the private key 1 over P-256, a server with the
  same key, a verifier that accepts, and the smallest certificate that the parser takes.
\<close>

section \<open>The client's side\<close>

text \<open>The world is what the peer still sends and what it has been sent.\<close>

definition pipe_stream :: "(bytes \<times> bytes) stream" where
  "pipe_stream =
     \<lparr>sm_send_all = (\<lambda>bs (i, sent). (Ok (), (i, sent @ bs))),
      sm_recv_some = (\<lambda>n (i, sent). if i = [] then (Err XT_ERR_CLOSED, (i, sent)) else (Ok (take n i), (drop n i, sent))),
      sm_close = (\<lambda>w. w)\<rparr>"

definition pipe_send :: "bytes \<times> bytes \<Rightarrow> bytes \<Rightarrow> bytes \<times> bytes" where
  "pipe_send w bs = (fst w, snd w @ bs)"

lemma pipe_accepts: "accepts_all pipe_stream pipe_send"
  by (simp add: accepts_all_def pipe_stream_def pipe_send_def split_beta)

interpretation pipe: byte_source pipe_stream fst
  by unfold_locales (auto simp: pipe_stream_def)

definition one_key :: bytes where
  "one_key = replicate 31 0 @ [1]"

definition one_platform :: "'w platform" where
  "one_platform = \<lparr>pf_random_bytes = (\<lambda>n w. (Ok (replicate (n - 1) 0 @ [1]), w)), pf_unix_time_seconds = (\<lambda>w. (0, w))\<rparr>"

definition lenient_verifier :: "'w auth_verifier" where
  "lenient_verifier =
     \<lparr>av_verify_chain = (\<lambda>chain h w. (Ok (), w)), av_verify_signature = (\<lambda>scheme leaf msg sg w. (Ok (), w))\<rparr>"

definition sample_config :: "(bytes \<times> bytes) client_config" where
  "sample_config = client_config_init\<lparr>cc_platform := Some one_platform, cc_stream := Some pipe_stream,
     cc_verifier := Some lenient_verifier, cc_hostname := Some [97], cc_preferred_group := group_secp256r1\<rparr>"

definition sample_key :: bytes where
  "sample_key = 4 # GX_BE @ GY_BE"

lemma base_point_encoded: "encode_point p256_G = sample_key"
proof -
  have "fp_nat (of_nat (be_val GX_BE)) = be_val GX_BE" "fp_nat (of_nat (be_val GY_BE)) = be_val GY_BE"
    by (rule fp_nat_of_nat, simp add: G_val p256_p_def)+
  moreover have "length GX_BE = 32" "length GY_BE = 32" by (simp_all add: GX_BE_def GY_BE_def)
  ultimately show ?thesis
    using be_bytes_be_val [of GX_BE] be_bytes_be_val [of GY_BE] by (simp add: encode_point_def p256_G_def sample_key_def)
qed

lemma one_key_public: "p256_public_from_private (Span one_key) = Ok sample_key"
  unfolding base_point_encoded [symmetric] one_key_def
  by (simp add: p256_public_from_private_eq p256_n_def) (simp add: p256_G_def)

lemma one_key_shared: "p256_shared_secret (Span one_key) (Span sample_key) = Ok GX_BE"
proof -
  have "fp_nat (of_nat (be_val GX_BE)) = be_val GX_BE" by (rule fp_nat_of_nat) (simp add: G_val p256_p_def)
  moreover have "length GX_BE = 32" by (simp add: GX_BE_def)
  ultimately have "be_bytes 32 (fp_nat (of_nat (be_val GX_BE))) = GX_BE" using be_bytes_be_val [of GX_BE] by simp
  moreover have "length one_key = 32" "be_val one_key = 1" by (simp_all add: one_key_def)
  ultimately show ?thesis
    using p256_agreement [of one_key one_key sample_key sample_key] one_key_public by (simp add: p256_G_def)
qed

definition sample_params :: client_hello_params where
  "sample_params = client_hello_params_init\<lparr>chp_random32 := Span one_key, chp_session_id := Span one_key,
     chp_key_share := Span sample_key, chp_group := group_secp256r1, chp_server_name := Some [97]\<rparr>"

lemma sample_hello_written:
  assumes "p = sample_params \<or> p = sample_params\<lparr>chp_cookie := Span []\<rparr>"
  shows "build_client_hello p (Span (replicate 2048 0)) = Ok (client_hello_bytes p)"
    and "length (client_hello_bytes p) \<le> 16384"
proof -
  have p: "ch_spans_valid p" "ch_names_ok p"
    using assms by (auto simp: sample_params_def client_hello_params_init_def ch_spans_valid_def ch_names_ok_def)
  have k: "length one_key = 32" "length sample_key = 65" by (simp_all add: one_key_def sample_key_def GX_BE_def GY_BE_def)
  have l: "length (exts_bytes (ch_extensions p)) \<le> 500" "length (client_hello_bytes p) \<le> 1000"
    using assms by (auto simp: k sample_params_def client_hello_params_init_def ch_extensions_def ch_sni_def ch_cookie_def
        ch_alpn_def client_hello_bytes_def)
  show "build_client_hello p (Span (replicate 2048 0)) = Ok (client_hello_bytes p)"
    unfolding build_client_hello_eq [OF p(1)]
    using p(2) l assms by (auto simp: k sample_params_def client_hello_params_init_def)
  show "length (client_hello_bytes p) \<le> 16384" using l(2) by simp
qed

lemma sample_keygen: "generate_key one_platform retry group_secp256r1 (c, w)
    = Some (Ok (), (c\<lparr>c_private_key := one_key, c_public_key := sample_key\<rparr>, w))"
proof -
  have r: "pf_random_bytes one_platform 32 w = (Ok one_key, w)" for w :: 'w by (simp add: one_platform_def one_key_def)
  show ?thesis
    using fun_cong [OF p256_keygen.simps(2) [of one_platform retry 15 XT_ERR_VERIFY], of "(c, w)"]
    by (simp add: generate_key_def random_private_key_def outside_def step_defs on_error_def r one_key_public)
qed

lemma sample_hello_sent:
  assumes "cc_stream (c_config c) = Some pipe_stream" and "p = sample_params \<or> p = sample_params\<lparr>chp_cookie := Span []\<rparr>"
  shows "send_client_hello p (c, w) = Some (Ok (), (c\<lparr>c_client_hello := client_hello_bytes p,
        c_transcript := transcript_update (c_transcript c) (Span (client_hello_bytes p))\<rparr>,
        pipe_send w (plain_record content_handshake (client_hello_bytes p))))"
  using assms(1) sample_hello_written [OF assms(2)]
  by (simp add: send_client_hello_def send_plain_record_def step_defs transcript_add_def outside_def pipe_stream_def
      pipe_send_def split_beta plain_record_def Let_def)

lemma length_sample_key: "length sample_key = 65"
  by (simp add: sample_key_def GX_BE_def GY_BE_def)

lemma sample_first_hello:
  "\<exists>c sent. first_client_hello sample_config one_platform (connect_start sample_config tls_client_new, (i, []))
     = Some (Ok (one_key, sample_params), (c, (i, sent)))
     \<and> c_client_hello c = client_hello_bytes sample_params \<and> c_private_key c = one_key"
proof -
  have r: "pf_random_bytes one_platform 32 w = (Ok one_key, w)" for w :: "bytes \<times> bytes"
    by (simp add: one_platform_def one_key_def)
  have cfg: "cc_preferred_group sample_config = group_secp256r1" "cc_hostname sample_config = Some [97]" "cc_alpn sample_config = None"
    by (simp_all add: sample_config_def client_config_init_def)
  have p: "client_hello_params_init\<lparr>chp_random32 := Span one_key, chp_session_id := Span one_key,
      chp_key_share := Span sample_key, chp_group := group_secp256r1, chp_server_name := Some [97], chp_alpn := None\<rparr> = sample_params"
    by (simp add: sample_params_def client_hello_params_init_def)
  let ?c = "(connect_start sample_config tls_client_new)\<lparr>c_private_key := one_key, c_public_key := sample_key\<rparr>"
  have "cc_stream (c_config ?c) = Some pipe_stream" by (simp add: connect_start_def sample_config_def)
  note run = sample_hello_sent [OF this, of sample_params "(i, [])"]
  show ?thesis
    by (simp add: first_client_hello_def bind_prog_def then_prog_def client_def outside_def r sample_keygen length_sample_key cfg public_length_def Let_def p
        run ret_def pipe_send_def)
qed

text \<open>The second ClientHello, after a request for P-256.\<close>

lemma sample_retry:
  fixes c :: "(bytes \<times> bytes) client"
  assumes "cc_stream (c_config c) = Some pipe_stream" and "c_deframer c = \<lparr>df_storage = Span [2, 0, 0, 0], df_used = 4\<rparr>"
    and "sha_inv m (c_transcript c)"
  shows "\<exists>hl c'. hello_retry one_platform \<lparr>hl_had_hrr = False, hl_active_group = group_x25519, hl_params = sample_params\<rparr>
      (handshake_of hs_server_hello []) (server_hello_info_init\<lparr>sh_group := group_secp256r1\<rparr>) (c, w)
    = Some (Ok hl, (c', pipe_send w (plain_record content_handshake (client_hello_bytes (sample_params\<lparr>chp_cookie := Span []\<rparr>)))))"
proof -
  obtain t where t: "retry_transcript (Span [2, 0, 0, 0]) (c, w) = Some (Ok (), (c\<lparr>c_transcript := t\<rparr>, w))"
    using retry_transcript_run [OF assms(3)] by blast
  have enc: "hm_encoded (handshake_of hs_server_hello []) = Span [2, 0, 0, 0]"
    by (simp add: handshake_of_def encode_handshake_def hs_server_hello_def store_be24_def)
  have parse: "parse_handshake_message (Span (deframer_content (c_deframer c))) = Ok (handshake_of hs_server_hello [], 4)"
    using parse_encode_handshake [of "[]" hs_server_hello "[]"] enc assms(2) by (simp add: handshake_of_def deframer_content_def)
  have inv: "deframer_inv (c_deframer c)" by (simp add: assms(2) deframer_defs)
  obtain q where q: "deframer_consume (c_deframer c) = (Ok (), q)" "deframer_inv q" "deframer_content q = []"
    using df.pop_Ok [OF inv parse] assms(2) by (auto simp: deframer_content_def)
  then have "deframer_buffered q = 0" by (auto simp: deframer_buffered_def deframer_defs elim!: deframer_invE)
  with q have consume: "consume_last (c\<lparr>c_transcript := t\<rparr>, w) = Some (Ok (), (c\<lparr>c_transcript := t, c_deframer := q\<rparr>, w))"
    by (simp add: consume_last_def deframe_consume_def step_defs on_error_def)
  have p: "sample_params\<lparr>chp_group := group_secp256r1, chp_key_share := Span sample_key, chp_cookie := Span []\<rparr>
      = sample_params\<lparr>chp_cookie := Span []\<rparr>" by (simp add: sample_params_def)
  let ?c = "c\<lparr>c_transcript := t, c_deframer := q,
      c_private_key := one_key, c_public_key := sample_key\<rparr>"
  have "cc_stream (c_config ?c) = Some pipe_stream" using assms(1) by simp
  note run = sample_hello_sent [OF this, of "sample_params\<lparr>chp_cookie := Span []\<rparr>" w]
  have ne: "group_secp256r1 \<noteq> group_x25519" "public_length group_secp256r1 = 65" "sh_cookie_length server_hello_info_init = 0"
    by (simp_all add: group_secp256r1_def group_x25519_def public_length_def server_hello_info_init_def)
  show ?thesis
    by (simp add: hello_retry_def enc bind_prog_def then_prog_def client_def ret_def Let_def ne t consume sample_keygen
        length_sample_key p run)
qed

section \<open>The server's side\<close>

text \<open>The certificate names the host \<open>a\<close>; its key is an RSA key, as the scheme of the signature asks for.\<close>

definition sample_certificate :: bytes where
  "sample_certificate =
     [48, 79, 48, 77, 2, 1, 1, 48, 0, 48, 0, 48, 30, 23, 13, 50, 48, 48, 49, 48, 49, 48, 48, 48, 48, 48, 48,
      90, 23, 13, 52, 57, 48, 49, 48, 49, 48, 48, 48, 48, 48, 48, 90, 48, 0, 48, 16, 48, 11, 6, 9, 42, 134, 72,
      134, 247, 13, 1, 1, 1, 3, 1, 0, 163, 16, 48, 14, 48, 12, 6, 3, 85, 29, 17, 4, 5, 48, 3, 130, 1, 97]"

definition sample_answer :: answer where
  "sample_answer = \<lparr>an_hello = [3, 3] @ replicate 32 5 @ 32 # one_key @ [0x13, 1, 0] @ [0, 79]
       @ [0, 43, 0, 2, 3, 4] @ [0, 51, 0, 69, 0, 0x17, 0, 65] @ sample_key,
     an_extensions = [0, 0], an_certificate = [0, 0, 0, 86, 0, 0, 81] @ sample_certificate @ [0, 0],
     an_verify = [8, 4, 0, 1, 9], an_pieces = [], an_padding = 3\<rparr>"

lemma sample_server_hello:
  "\<exists>sh. parse_server_hello (Span (answer_hello sample_answer)) = Ok sh \<and> sh_session_id_length sh = 32
     \<and> sh_session_id sh = one_key \<and> \<not> sh_hello_retry_request sh \<and> sh_group sh = group_secp256r1
     \<and> sh_key_share_length sh = 65 \<and> sh_key_share sh = sample_key"
proof -
  have "(case parse_server_hello (Span (answer_hello sample_answer)) of Ok sh \<Rightarrow> sh_session_id_length sh = 32
     \<and> sh_session_id sh = one_key \<and> \<not> sh_hello_retry_request sh \<and> sh_group sh = group_secp256r1
     \<and> sh_key_share_length sh = 65 \<and> sh_key_share sh = sample_key | _ \<Rightarrow> False)" by code_simp
  then show ?thesis by (auto split: res.splits)
qed

lemma sample_leaf:
  "\<exists>v. x509_parse_certificate (Span sample_certificate) = Ok v \<and> x_public_key_kind v = PUBLIC_KEY_RSA
     \<and> x509_verify_hostname v (Some [97]) = Ok ()"
proof -
  have "(case x509_parse_certificate (Span sample_certificate) of Ok v \<Rightarrow> x_public_key_kind v = PUBLIC_KEY_RSA
     \<and> x509_verify_hostname v (Some [97]) = Ok () | _ \<Rightarrow> False)" by code_simp
  then show ?thesis by (auto split: res.splits)
qed

section \<open>The handshake\<close>

text \<open>The flight in two records, cut inside the Certificate message.\<close>

definition sample_server :: answer where
  "sample_server =
     (let flight = encode_messages (answer_messages (client_hello_bytes sample_params) sample_answer GX_BE)
      in sample_answer\<lparr>an_pieces := [take 20 flight, drop 20 flight]\<rparr>)"

definition sample_info :: certificate_info where
  "sample_info = \<lparr>ci_request_context = Span [], ci_certificate_list = Span ([0, 0, 81] @ sample_certificate @ [0, 0])\<rparr>"

lemma sample_server_simps:
  "answer_hello sample_server = answer_hello sample_answer"
  "answer_messages hello sample_server shared = answer_messages hello sample_answer shared"
  "an_extensions sample_server = an_extensions sample_answer"
  "an_certificate sample_server = an_certificate sample_answer"
  "an_verify sample_server = an_verify sample_answer" "an_padding sample_server = an_padding sample_answer"
  by (simp_all add: sample_server_def answer_hello_def answer_messages_def answer_schedule_def Let_def)

lemma sample_extensions_ok: "extensions_ok (an_extensions sample_answer)"
proof -
  have "(case parse_encrypted_extensions (handshake_of hs_encrypted_extensions (an_extensions sample_answer)) of
     Ok i \<Rightarrow> \<not> ee_has_alpn i | _ \<Rightarrow> False)" by code_simp
  then show ?thesis by (auto simp: extensions_ok_def sample_answer_def split: res.splits)
qed

lemma sample_certificate_message:
  "parse_certificate (handshake_of hs_certificate (an_certificate sample_answer)) = Ok sample_info"
  "parse_certificate_chain sample_info = Ok [\<lparr>ce_der = Span sample_certificate, ce_extensions = Span []\<rparr>]"
  "length (an_certificate sample_answer) = 90"
  by code_simp+

lemma sample_verify:
  "parse_certificate_verify (handshake_of hs_certificate_verify (an_verify sample_answer))
     = Ok \<lparr>cv_algorithm = 0x0804, cv_signature = Span [9]\<rparr>"
  by code_simp

lemma sample_signature_accepted:
  assumes "length th = 32"
  shows "signature_accepted sample_config sample_info th (an_verify sample_answer)"
proof -
  obtain v where v: "x509_parse_certificate (Span sample_certificate) = Ok v" "x_public_key_kind v = PUBLIC_KEY_RSA"
    "x509_verify_hostname v (Some [97]) = Ok ()" using sample_leaf by blast
  have "authenticate_server_flight sample_info \<lparr>cv_algorithm = 0x0804, cv_signature = Span [9]\<rparr> (Span th)
      (cc_hostname sample_config) (cc_verifier sample_config) w = (Ok (), w)" for w
    using v assms
    by (simp add: authenticate_server_flight_def sample_config_def sample_certificate_message(2) bind_act_def pure_act_def
        lenient_verifier_def scheme_of_def signature_scheme_code_def scheme_fits_key_def cert_verify_message_eq)
  then show ?thesis
    using sample_verify by (simp add: signature_accepted_def) (simp add: sample_answer_def)
qed

lemma sample_flight_length: "length (encode_messages (answer_messages hello sample_answer shared)) = 145"
  by (simp add: answer_messages_def server_messages_def encode_messages_def Let_def sample_certificate_message(3))
    (simp add: sample_answer_def)

lemma sample_ok:
  "answer_ok sample_config one_key (client_hello_bytes sample_params) one_key sample_server GX_BE"
proof -
  let ?flight = "encode_messages (answer_messages (client_hello_bytes sample_params) sample_answer GX_BE)"
  have pieces: "an_pieces sample_server = [take 20 ?flight, drop 20 ?flight]" by (simp add: sample_server_def Let_def)
  obtain sh where sh: "parse_server_hello (Span (answer_hello sample_answer)) = Ok sh" "sh_session_id_length sh = 32"
    "sh_session_id sh = one_key" "\<not> sh_hello_retry_request sh" "sh_group sh = group_secp256r1"
    "sh_key_share_length sh = 65" "sh_key_share sh = sample_key" using sample_server_hello by blast
  have share: "shared_secret one_key sh = Ok GX_BE"
    using sh one_key_shared by (simp add: shared_secret_def group_x25519_def group_secp256r1_def)
  have hello: "length (answer_hello sample_answer) \<le> 16384"
    by (simp add: answer_hello_def sample_answer_def sample_key_def one_key_def GX_BE_def GY_BE_def)
  have th: "length (sha256_spec m) = 32" for m by (simp flip: sha256_correct)
  have group: "cc_preferred_group sample_config = group_secp256r1" and padding: "an_padding sample_answer = 3"
    by (simp_all add: sample_config_def sample_answer_def)
  show ?thesis
    unfolding answer_ok_def sample_server_simps pieces
    using sh share hello sample_extensions_ok sample_certificate_message sample_signature_accepted [OF th]
      sample_flight_length [of "client_hello_bytes sample_params" GX_BE]
    by (auto simp: group padding)
qed

interpretation sample: server_flight pipe_stream fst sample_config "answer_schedule (client_hello_bytes sample_params) sample_answer GX_BE"
    "rfc_traffic_keys (client_handshake_traffic_secret (answer_schedule (client_hello_bytes sample_params) sample_answer GX_BE))"
    "client_hello_bytes sample_params @ answer_hello sample_answer" "an_extensions sample_answer"
    "an_certificate sample_answer" "an_verify sample_answer" sample_info
proof unfold_locales
  show "cc_stream sample_config = Some pipe_stream" by (simp add: sample_config_def)
qed (simp_all add: sample_extensions_ok sample_certificate_message answer_schedule_def handshake_schedule_def Let_def
  sample_signature_accepted flip: sha256_correct)

end
