(* ===== verification/X25519Field.thy ===== *)
theory X25519Field
  imports X25519
begin

text \<open>
  The arithmetic of \<open>X25519\<close> modulo \<open>2^255 - 19\<close>: a carry and a product keep the number that the limbs stand
  for, up to a multiple of the prime; two carries leave digits of sixteen bits, but for the first limb;
  packing gives the smallest representative. Limbs stay so small that no sum of the code leaves the
  range of a signed 64-bit integer: operands of a product are below \<open>2^18\<close>, columns below \<open>2^46\<close>.
\<close>

section \<open>Values\<close>

definition cval :: "nat \<Rightarrow> int list \<Rightarrow> int" where
  "cval n t = (\<Sum>i < n. t ! i * 2 ^ (16 * i))"

abbreviation gval :: "gf \<Rightarrow> int" where
  "gval \<equiv> cval 16"

definition p25519 :: int where
  "p25519 = 2 ^ 255 - 19"

lemma cval_update:
  assumes "i < n" and "n \<le> length t"
  shows "cval n (t[i := x]) = cval n t + (x - t ! i) * 2 ^ (16 * i)"
proof -
  have "cval n (t[i := x]) = (\<Sum>j < n. t ! j * 2 ^ (16 * j) + (if j = i then (x - t ! i) * 2 ^ (16 * i) else 0))"
    unfolding cval_def using assms by (intro sum.cong) (auto simp: nth_list_update algebra_simps)
  then show ?thesis using assms(1) by (simp add: sum.distrib cval_def)
qed

definition within :: "int \<Rightarrow> int list \<Rightarrow> bool" where
  "within B t \<longleftrightarrow> (\<forall>x \<in> set t. \<bar>x\<bar> \<le> B)"

lemma within_nth: "within B t \<Longrightarrow> i < length t \<Longrightarrow> \<bar>t ! i\<bar> \<le> B"
  by (simp add: within_def)

lemma within_mono: "within B t \<Longrightarrow> B \<le> C \<Longrightarrow> within C t"
  by (auto simp: within_def)

section \<open>The carry\<close>

lemma car_step_eq:
  assumes "i < 16" and "length a = 16"
  shows "car_step i a = (let k = (if i < 15 then i + 1 else 0) in
    a[k := a ! k + (if i = 15 then 38 else 1) * (a ! i div 65536), i := a ! i mod 65536])"
proof -
  define x where "x = a ! i"
  have c: "drop_bit 16 (x + 65536) = x div 65536 + 1" by (simp add: drop_bit_eq_div)
  have m: "x + 65536 - push_bit 16 (x div 65536 + 1) = x mod 65536"
    by (simp add: push_bit_eq_mult minus_div_mult_eq_mod [symmetric])
  show ?thesis
    using assms c m by (cases "i = 15")
      (simp_all add: car_step_def Let_def x_def list_update_swap)
qed

lemma car_step_val:
  assumes "i < 16" and "length a = 16"
  shows "p25519 dvd gval (car_step i a) - gval a"
proof -
  define d r where "d = a ! i div 65536" and "r = a ! i mod 65536"
  have x: "a ! i = 65536 * d + r" by (simp add: d_def r_def)
  show ?thesis
  proof (cases "i = 15")
    case True
    have "car_step i a = a[0 := a ! 0 + 38 * d, 15 := r]"
      using assms True by (simp add: car_step_eq Let_def d_def r_def)
    moreover have "gval (a[0 := a ! 0 + 38 * d, 15 := r]) - gval a = 38 * d + (r - a ! 15) * 2 ^ 240"
      using assms(2) by (simp add: cval_update)
    ultimately have "gval (car_step i a) - gval a = p25519 * (- 2 * d)"
      using x True by (simp add: p25519_def)
    then show ?thesis by simp
  next
    case False
    have "car_step i a = a[i + 1 := a ! (i + 1) + d, i := r]"
      using assms False by (simp add: car_step_eq Let_def d_def r_def)
    moreover have "gval (a[i + 1 := a ! (i + 1) + d, i := r]) - gval a
        = d * 2 ^ (16 * (i + 1)) + (r - a ! i) * 2 ^ (16 * i)"
      using assms False by (simp add: cval_update)
    ultimately have "gval (car_step i a) - gval a = 0"
      unfolding x by (simp add: power_add algebra_simps)
    then show ?thesis by simp
  qed
qed

lemma car25519_val:
  assumes "length a = 16"
  shows "p25519 dvd gval (car25519 a) - gval a"
proof -
  have "length (fold car_step xs a) = 16 \<and> p25519 dvd gval (fold car_step xs a) - gval a"
    if "set xs \<subseteq> {..<16}" for xs
    using that
  proof (induction xs rule: rev_induct)
    case (snoc i xs)
    define b where "b = fold car_step xs a"
    have b: "length b = 16" "p25519 dvd gval b - gval a" using snoc by (simp_all add: b_def)
    have "p25519 dvd (gval (car_step i b) - gval b) + (gval b - gval a)"
      using snoc.prems b by (intro dvd_add car_step_val) auto
    with b show ?case by (simp add: b_def [symmetric])
  qed (simp add: assms)
  from this [of "[0..<16]"] show ?thesis by (simp add: car25519_def atLeast0LessThan)
qed

text \<open>
  What the carry leaves: sixteen digits, but for the first, to which the carry out of the last comes
  back. Its limbs come from the left; \<open>carry a n\<close> is what goes into limb \<open>n\<close>.
\<close>

primrec carry :: "gf \<Rightarrow> nat \<Rightarrow> int" where
  "carry a 0 = 0"
| "carry a (Suc n) = (a ! n + carry a n) div 65536"

lemma car_fold:
  assumes "length a = 16" and "n \<le> 15"
  shows "fold car_step [0..<n] a =
    map (\<lambda>i. if i < n then (a ! i + carry a i) mod 65536 else if i = n then a ! n + carry a n else a ! i) [0..<16]"
  using assms(2)
proof (induction n)
  case 0
  then show ?case using assms(1) by (intro nth_equalityI) auto
next
  case (Suc n)
  let ?m = "\<lambda>n. map (\<lambda>i. if i < n then (a ! i + carry a i) mod 65536 else if i = n then a ! n + carry a n else a ! i) [0..<16]"
  have "fold car_step [0..<Suc n] a = car_step n (?m n)" using Suc by simp
  also have "\<dots> = ?m (Suc n)"
    using Suc.prems by (intro nth_equalityI) (auto simp: car_step_eq Let_def nth_list_update less_Suc_eq)
  finally show ?case .
qed

lemma car25519_eq:
  assumes "length a = 16"
  shows "car25519 a = map (\<lambda>i. if i = 0 then a ! 0 mod 65536 + 38 * carry a 16 else (a ! i + carry a i) mod 65536) [0..<16]"
proof (rule nth_equalityI)
  have c16: "carry a 16 = (a ! 15 + carry a 15) div 65536" using carry.simps(2) [of a 15] by simp
  define b where "b = fold car_step [0..<15] a"
  have b: "length b = 16" "i < 15 \<Longrightarrow> b ! i = (a ! i + carry a i) mod 65536" "b ! 15 = a ! 15 + carry a 15" for i
    using assms by (simp_all add: b_def car_fold)
  have "[0..<16] = [0..<15] @ [15 :: nat]" using upt_Suc_append [of 0 15] by simp
  then have car: "car25519 a = b[0 := b ! 0 + 38 * (b ! 15 div 65536), 15 := b ! 15 mod 65536]"
    using b(1) by (simp add: car25519_def b_def [symmetric] car_step_eq Let_def)
  fix i assume "i < length (car25519 a)"
  then have i: "i < 16" using assms by simp
  then consider "i = 0" | "0 < i" "i < 15" | "i = 15" by linarith
  then show "car25519 a ! i =
      map (\<lambda>i. if i = 0 then a ! 0 mod 65536 + 38 * carry a 16 else (a ! i + carry a i) mod 65536) [0..<16] ! i"
    by cases (simp_all add: car b c16)
qed (simp add: assms)

text \<open>After two carries the limbs are digits, but for the first, which is one up to a carry.\<close>

definition reduced :: "gf \<Rightarrow> bool" where
  "reduced a \<longleftrightarrow> length a = 16 \<and> - 38 \<le> a ! 0 \<and> a ! 0 < 65536 + 38 \<and> (\<forall>i. 0 < i \<and> i < 16 \<longrightarrow> 0 \<le> a ! i \<and> a ! i < 65536)"

lemma div_digit:
  fixes x c :: int
  shows "\<bar>x\<bar> \<le> 65536 * c \<Longrightarrow> \<bar>x div 65536\<bar> \<le> c"
    and "- 65536 \<le> x \<Longrightarrow> x < 131072 \<Longrightarrow> \<bar>x div 65536\<bar> \<le> 1"
    and "\<bar>c\<bar> \<le> 1 \<Longrightarrow> 0 \<le> x \<Longrightarrow> x < 65536 \<Longrightarrow> (x + c) div 65536 = 0 \<or> (x + c) div 65536 = c"
proof -
  show "\<bar>x\<bar> \<le> 65536 * c \<Longrightarrow> \<bar>x div 65536\<bar> \<le> c"
    using zdiv_mono1 [of "65536 * - c" x 65536] zdiv_mono1 [of x "65536 * c" 65536]
    by (simp only: nonzero_mult_div_cancel_left)
  show "- 65536 \<le> x \<Longrightarrow> x < 131072 \<Longrightarrow> \<bar>x div 65536\<bar> \<le> 1"
    using zdiv_mono1 [of "- 65536" x 65536] zdiv_mono1 [of x 131071 65536] by simp
  assume c: "\<bar>c\<bar> \<le> 1" "0 \<le> x" "x < 65536"
  then consider "0 \<le> x + c" "x + c < 65536" | "c = - 1" "x = 0" | "c = 1" "x = 65535" by linarith
  then show "(x + c) div 65536 = 0 \<or> (x + c) div 65536 = c" by cases simp_all
qed

lemma carry_bound:
  assumes "length a = 16" and "within B a" and "n \<le> 16" and "B + C \<le> 65536 * C" and "0 \<le> C"
  shows "\<bar>carry a n\<bar> \<le> C"
  using assms(3)
proof (induction n)
  case (Suc n)
  have "\<bar>a ! n\<bar> \<le> B" using assms Suc by (intro within_nth) simp_all
  moreover have "\<bar>carry a n\<bar> \<le> C" using Suc by simp
  ultimately have "- (65536 * C) \<le> a ! n + carry a n" "a ! n + carry a n \<le> 65536 * C"
    using assms(4) by linarith+
  then show ?case by simp
qed (use assms(5) in simp)

text \<open>After the first limb, the carry of digits is small.\<close>

lemma carry_digits:
  assumes "\<forall>i. 0 < i \<and> i < 16 \<longrightarrow> 0 \<le> a ! i \<and> a ! i < 65536" and "\<bar>a ! 0\<bar> \<le> 2 ^ 40"
    and "3 \<le> n" and "n \<le> 16"
  shows "\<bar>carry a n\<bar> \<le> 1"
  using assms(3,4)
proof (induction n rule: nat_induct_at_least)
  case base
  have c1: "carry a 1 = a ! 0 div 65536" and c2: "carry a 2 = (a ! 1 + carry a 1) div 65536"
    and c3: "carry a 3 = (a ! 2 + carry a 2) div 65536"
    using carry.simps(2) [of a 0] carry.simps(2) [of a 1] carry.simps(2) [of a 2]
    by (simp_all add: numeral_2_eq_2 numeral_3_eq_3)
  have d: "0 \<le> a ! 1" "a ! 1 < 65536" "0 \<le> a ! 2" "a ! 2 < 65536" using assms(1) by simp_all
  have "\<bar>carry a 1\<bar> \<le> 2 ^ 24" unfolding c1 using assms(2) by (intro div_digit(1)) simp
  then have "\<bar>carry a 2\<bar> \<le> 257" unfolding c2 using d by (intro div_digit(1)) simp
  then show ?case unfolding c3 using d by (intro div_digit(2)) linarith+
next
  case (Suc n)
  then have "\<bar>carry a n\<bar> \<le> 1" "0 \<le> a ! n" "a ! n < 65536" using assms(1) by simp_all
  then show ?case unfolding carry.simps by (intro div_digit(2)) linarith+
qed

lemma car_reduced:
  assumes "length a = 16" and "within (2 ^ 46) a"
  shows "reduced (car25519 (car25519 a))"
proof -
  define b where "b = car25519 a"
  have b: "length b = 16" "\<forall>i. 0 < i \<and> i < 16 \<longrightarrow> 0 \<le> b ! i \<and> b ! i < 65536"
    using assms(1) by (auto simp: b_def car25519_eq)
  have "\<bar>carry a 16\<bar> \<le> 2 ^ 31" using assms by (intro carry_bound [where B = "2 ^ 46"]) simp_all
  moreover have "b ! 0 = a ! 0 mod 65536 + 38 * carry a 16" using assms(1) by (simp add: b_def car25519_eq)
  moreover have "0 \<le> a ! 0 mod 65536" "a ! 0 mod 65536 < 65536" by simp_all
  ultimately have "\<bar>b ! 0\<bar> \<le> 2 ^ 40" by (simp add: abs_le_iff) linarith
  with b(2) have "\<bar>carry b 16\<bar> \<le> 1" by (intro carry_digits) simp_all
  moreover have "0 \<le> b ! 0 mod 65536" "b ! 0 mod 65536 < 65536" by simp_all
  ultimately show ?thesis using b(1) unfolding b_def [symmetric] reduced_def by (auto simp: car25519_eq)
qed

definition digits :: "gf \<Rightarrow> bool" where
  "digits a \<longleftrightarrow> length a = 16 \<and> (\<forall>i < 16. 0 \<le> a ! i \<and> a ! i < 65536)"

lemma car_digits:
  assumes "reduced a"
  shows "digits (car25519 a)"
proof -
  have a: "length a = 16" "- 38 \<le> a ! 0" "a ! 0 < 65536 + 38"
    "0 \<le> a ! i \<and> a ! i < 65536" if "0 < i" "i < 16" for i
    using assms that by (auto simp: reduced_def)
  have l: "length a = 16" "- 38 \<le> a ! 0" "a ! 0 < 65536 + 38" using assms by (simp_all add: reduced_def)
  have "\<bar>carry a n\<bar> \<le> 1 \<and> (carry a n \<noteq> 0 \<longrightarrow> carry a n = a ! 0 div 65536)" if "1 \<le> n" "n \<le> 16" for n
    using that
  proof (induction n rule: nat_induct_at_least)
    case base
    have "carry a 1 = a ! 0 div 65536" using carry.simps(2) [of a 0] by simp
    moreover have "\<bar>a ! 0 div 65536\<bar> \<le> 1" using l(2,3) by (intro div_digit(2)) linarith+
    ultimately show ?case by simp
  next
    case (Suc n)
    then have "\<bar>carry a n\<bar> \<le> 1" "carry a n \<noteq> 0 \<longrightarrow> carry a n = a ! 0 div 65536" by simp_all
    moreover have "0 \<le> a ! n" "a ! n < 65536" using a(4) [of n] Suc by simp_all
    ultimately show ?case unfolding carry.simps using div_digit(3) [of "carry a n" "a ! n"] by auto
  qed
  from this [of 16] have "\<bar>carry a 16\<bar> \<le> 1" "carry a 16 \<noteq> 0 \<longrightarrow> carry a 16 = a ! 0 div 65536" by simp_all
  moreover have "a ! 0 mod 65536 = a ! 0 - 65536 * (a ! 0 div 65536)" by (simp add: minus_mult_div_eq_mod)
  moreover have "0 \<le> a ! 0 mod 65536" "a ! 0 mod 65536 < 65536" by simp_all
  ultimately have "0 \<le> a ! 0 mod 65536 + 38 * carry a 16 \<and> a ! 0 mod 65536 + 38 * carry a 16 < 65536"
    using l(2,3) by (cases "carry a 16 = 0") (simp, linarith)
  then show ?thesis using l(1) by (auto simp: digits_def car25519_eq)
qed

lemma car_id:
  assumes "digits a"
  shows "car25519 a = a"
proof -
  have "carry a n = 0" if "n \<le> 16" for n
    using that by (induction n) (use assms in \<open>auto simp: digits_def\<close>)
  with assms show ?thesis by (intro nth_equalityI) (auto simp: car25519_eq digits_def)
qed

section \<open>Products\<close>

lemma sum_lessThan_product: "cval m a * cval n b = (\<Sum>i < m. \<Sum>j < n. a ! i * b ! j * 2 ^ (16 * (i + j)))"
  by (simp add: cval_def sum_product power_add algebra_simps)

lemma mul_row:
  assumes "length t = 31" and "i < 16" and "n \<le> 16" and "within A a" and "within B b"
    and "length a = 16" and "length b = 16"
  defines "t' \<equiv> fold (\<lambda>j t. t[i + j := t ! (i + j) + a ! i * b ! j]) [0..<n] t"
  shows "length t' = 31 \<and> cval 31 t' = cval 31 t + (\<Sum>j < n. a ! i * b ! j * 2 ^ (16 * (i + j)))
    \<and> (\<forall>k < 31. \<bar>t' ! k - t ! k\<bar> \<le> (if i \<le> k \<and> k < i + n then A * B else 0))"
  unfolding t'_def using assms(3)
proof (induction n)
  case (Suc n)
  define u where "u = fold (\<lambda>j t. t[i + j := t ! (i + j) + a ! i * b ! j]) [0..<n] t"
  have u: "length u = 31" "cval 31 u = cval 31 t + (\<Sum>j < n. a ! i * b ! j * 2 ^ (16 * (i + j)))"
    "\<forall>k < 31. \<bar>u ! k - t ! k\<bar> \<le> (if i \<le> k \<and> k < i + n then A * B else 0)"
    using Suc by (simp_all add: u_def)
  have 1: "\<bar>a ! i * b ! n\<bar> \<le> A * B"
    unfolding abs_mult using within_nth [OF assms(4), of i] within_nth [OF assms(5), of n] assms(2,6,7) Suc.prems
    by (intro mult_mono) auto
  have 2: "u ! (i + n) = t ! (i + n)" using u(3) [rule_format, of "i + n"] assms(2) Suc.prems by auto
  have "\<forall>k < 31. \<bar>u[i + n := u ! (i + n) + a ! i * b ! n] ! k - t ! k\<bar> \<le> (if i \<le> k \<and> k < i + Suc n then A * B else 0)"
  proof (intro allI impI)
    fix k :: nat assume k: "k < 31"
    show "\<bar>u[i + n := u ! (i + n) + a ! i * b ! n] ! k - t ! k\<bar> \<le> (if i \<le> k \<and> k < i + Suc n then A * B else 0)"
    proof (cases "k = i + n")
      case True
      with 1 2 u(1) k show ?thesis by simp
    next
      case False
      then have "i \<le> k \<and> k < i + Suc n \<longleftrightarrow> i \<le> k \<and> k < i + n" by linarith
      with u(3) k False show ?thesis by simp
    qed
  qed
  with u(1,2) assms(2) Suc.prems show ?case
    by (simp add: u_def [symmetric] cval_update)
qed (use assms(1) in simp)

lemma mul_columns_val:
  assumes "length a = 16" and "length b = 16" and "within A a" and "within B b"
  shows "length (mul_columns a b) = 31 \<and> cval 31 (mul_columns a b) = gval a * gval b
    \<and> within (16 * (A * B)) (mul_columns a b)"
proof -
  define row where "row = (\<lambda>i t. fold (\<lambda>j t. t[i + j := t ! (i + j) + a ! i * b ! j]) [0..<16] t)"
  have "length (fold row [0..<m] (replicate 31 0)) = 31
      \<and> cval 31 (fold row [0..<m] (replicate 31 0)) = (\<Sum>i < m. \<Sum>j < 16. a ! i * b ! j * 2 ^ (16 * (i + j)))
      \<and> (\<forall>k < 31. \<bar>fold row [0..<m] (replicate 31 0) ! k\<bar> \<le> int m * (A * B))" if "m \<le> 16" for m
    using that
  proof (induction m)
    case 0
    then show ?case by (simp add: cval_def)
  next
    case (Suc m)
    define t where "t = fold row [0..<m] (replicate 31 0)"
    have t: "length t = 31" "cval 31 t = (\<Sum>i < m. \<Sum>j < 16. a ! i * b ! j * 2 ^ (16 * (i + j)))"
      "\<forall>k < 31. \<bar>t ! k\<bar> \<le> int m * (A * B)" using Suc by (simp_all add: t_def)
    have AB: "0 \<le> A * B"
      using within_nth [OF assms(3), of 0] within_nth [OF assms(4), of 0] assms(1,2) by (intro mult_nonneg_nonneg) linarith+
    have row: "row m t = fold (\<lambda>j t. t[m + j := t ! (m + j) + a ! m * b ! j]) [0..<16] t"
      by (simp add: row_def)
    note r = mul_row [OF t(1) _ order_refl assms(3,4,1,2), of m, folded row]
    have "\<forall>k < 31. \<bar>row m t ! k\<bar> \<le> int (Suc m) * (A * B)"
    proof (intro allI impI)
      fix k :: nat assume k: "k < 31"
      have "\<bar>row m t ! k - t ! k\<bar> \<le> A * B" using r k Suc.prems AB by (auto split: if_splits)
      moreover have "\<bar>t ! k\<bar> \<le> int m * (A * B)" using t(3) k by blast
      ultimately show "\<bar>row m t ! k\<bar> \<le> int (Suc m) * (A * B)" by (simp add: algebra_simps)
    qed
    with r t Suc.prems show ?case by (simp add: t_def [symmetric])
  qed
  from this [of 16] show ?thesis
    by (auto simp: mul_columns_def row_def sum_lessThan_product within_def in_set_conv_nth)
qed

lemma fold_columns_nth:
  assumes "length t = 31"
  shows "take 16 (fold_columns t) = map (\<lambda>i. if i < 15 then t ! i + 38 * t ! (i + 16) else t ! i) [0..<16]"
proof -
  have "length (fold (\<lambda>i t. t[i := t ! i + 38 * t ! (i + 16)]) [0..<n] t) = 31
      \<and> (\<forall>k < 31. fold (\<lambda>i t. t[i := t ! i + 38 * t ! (i + 16)]) [0..<n] t ! k =
          (if k < n then t ! k + 38 * t ! (k + 16) else t ! k))" if "n \<le> 15" for n
    using that
  proof (induction n)
    case (Suc n)
    then show ?case by (simp add: nth_list_update)
  qed (simp add: assms)
  from this [of 15] show ?thesis by (intro nth_equalityI) (simp_all add: fold_columns_def)
qed

lemma cval_31:
  assumes "length t = 31"
  shows "p25519 dvd gval (take 16 (fold_columns t)) - cval 31 t"
proof -
  have c: "cval 31 t = (\<Sum>i < 15. (t ! i + t ! (i + 16) * 2 ^ 256) * 2 ^ (16 * i)) + t ! 15 * 2 ^ 240"
  proof -
    have "cval 31 t = (\<Sum>i \<in> {..<15} \<union> {15} \<union> {16..<31}. t ! i * 2 ^ (16 * i))"
      unfolding cval_def by (intro sum.cong) auto
    also have "\<dots> = (\<Sum>i < 15. t ! i * 2 ^ (16 * i)) + t ! 15 * 2 ^ 240 + (\<Sum>i \<in> {16..<31}. t ! i * 2 ^ (16 * i))"
      by (subst sum.union_disjoint, simp, simp, force) (simp add: sum.union_disjoint)
    also have "(\<Sum>i \<in> {16..<31}. t ! i * 2 ^ (16 * i)) = (\<Sum>i < 15. t ! (i + 16) * 2 ^ (16 * (i + 16)))"
      using sum.shift_bounds_nat_ivl [of "\<lambda>i. t ! i * 2 ^ (16 * i)" 0 16 15] by (simp add: atLeast0LessThan)
    finally show ?thesis by (simp add: sum.distrib power_add algebra_simps)
  qed
  have f: "gval (take 16 (fold_columns t)) = (\<Sum>i < 15. (t ! i + 38 * t ! (i + 16)) * 2 ^ (16 * i)) + t ! 15 * 2 ^ 240"
  proof -
    have "{..<16} = insert 15 {..<15 :: nat}" by auto
    then show ?thesis by (simp add: cval_def fold_columns_nth assms)
  qed
  have "gval (take 16 (fold_columns t)) - cval 31 t = (\<Sum>i < 15. p25519 * (- 2 * t ! (i + 16) * 2 ^ (16 * i)))"
    unfolding c f by (simp add: sum_subtractf [symmetric] p25519_def algebra_simps)
  also have "\<dots> = p25519 * (\<Sum>i < 15. - 2 * t ! (i + 16) * 2 ^ (16 * i))" by (simp only: sum_distrib_left)
  finally show ?thesis by simp
qed

text \<open>
  A multiplication of sums of two reduced elements gives a reduced element; no column exceeds
  \<open>2^46\<close> on the way.
\<close>

lemma gf_mul_val:
  assumes "length a = 16" and "length b = 16" and "within (2 ^ 18) a" and "within (2 ^ 18) b"
  shows "reduced (gf_mul a b) \<and> p25519 dvd gval (gf_mul a b) - gval a * gval b"
proof -
  define t where "t = mul_columns a b"
  have t: "length t = 31" "cval 31 t = gval a * gval b" "within (16 * (2 ^ 18 * 2 ^ 18)) t"
    using mul_columns_val [OF assms] by (simp_all add: t_def)
  define u where "u = take 16 (fold_columns t)"
  have u: "length u = 16" using t(1) by (simp add: u_def)
  have "within (2 ^ 46) u"
    unfolding within_def
  proof
    fix x assume "x \<in> set u"
    then obtain i where "i < 16" "x = u ! i" using u by (auto simp: in_set_conv_nth)
    then have i: "i < 16" "x = (if i < 15 then t ! i + 38 * t ! (i + 16) else t ! i)"
      by (simp_all add: u_def fold_columns_nth [OF t(1)])
    have "\<bar>t ! k\<bar> \<le> 2 ^ 40" if "k < 31" for k using within_nth [OF t(3), of k] t(1) that by simp
    from this [of i] this [of "i + 16"] show "\<bar>x\<bar> \<le> 2 ^ 46" using i by (auto split: if_splits)
  qed
  with u have "reduced (gf_mul a b)"
    unfolding gf_mul_def t_def [symmetric] u_def [symmetric] by (intro car_reduced)
  moreover have "p25519 dvd (gval (car25519 (car25519 u)) - gval (car25519 u)) + (gval (car25519 u) - gval u) + (gval u - cval 31 t)"
    using u cval_31 [OF t(1)] by (intro dvd_add car25519_val) (simp_all add: u_def)
  ultimately show ?thesis by (simp add: gf_mul_def t_def [symmetric] u_def [symmetric] t(2))
qed

section \<open>Residues\<close>

text \<open>\<open>stands a x\<close>: the limbs are small enough to multiply, and their value is \<open>x\<close> modulo the prime.\<close>

definition stands :: "gf \<Rightarrow> int \<Rightarrow> bool" where
  "stands a x \<longleftrightarrow> reduced a \<and> gval a mod p25519 = x mod p25519"

definition wide :: "gf \<Rightarrow> int \<Rightarrow> bool" where
  "wide a x \<longleftrightarrow> length a = 16 \<and> within (2 ^ 18) a \<and> gval a mod p25519 = x mod p25519"

lemma reduced_within:
  assumes "reduced a"
  shows "length a = 16" "within 65574 a"
  using assms by (auto simp: reduced_def within_def in_set_conv_nth) (case_tac i; force)+

lemma stands_wide: "stands a x \<Longrightarrow> wide a x"
  using reduced_within [of a] within_mono [of 65574 a "2 ^ 18"] by (simp add: stands_def wide_def)

lemma wide_mul: "wide a x \<Longrightarrow> wide b y \<Longrightarrow> stands (gf_mul a b) (x * y mod p25519)"
  using gf_mul_val [of a b] mod_eq_dvd_iff [of "gval (gf_mul a b)" p25519 "gval a * gval b"]
  by (auto simp: wide_def stands_def) (metis mod_mult_eq)

lemma cval_map2:
  "length a = 16 \<Longrightarrow> length b = 16 \<Longrightarrow> gval (map2 (+) a b) = gval a + gval b"
  "length a = 16 \<Longrightarrow> length b = 16 \<Longrightarrow> gval (map2 (-) a b) = gval a - gval b"
  by (simp_all add: cval_def sum.distrib [symmetric] sum_subtractf [symmetric] algebra_simps)

lemma stands_add: "stands a x \<Longrightarrow> stands b y \<Longrightarrow> wide (gf_add a b) ((x + y) mod p25519)"
  and stands_sub: "stands a x \<Longrightarrow> stands b y \<Longrightarrow> wide (gf_sub a b) ((x - y) mod p25519)"
proof -
  have w: "within (2 ^ 18) (map2 f a b)" if "\<And>u v. \<bar>f u v\<bar> \<le> \<bar>u\<bar> + \<bar>v\<bar>" "stands a x" "stands b y" for f a b x y
    unfolding within_def
  proof
    fix z assume "z \<in> set (map2 f a b)"
    then obtain u v where "u \<in> set a" "v \<in> set b" "z = f u v" by (auto dest: set_zip_leftD set_zip_rightD)
    moreover have "within 65574 a" "within 65574 b" using that(2,3) reduced_within by (simp_all add: stands_def)
    ultimately have "\<bar>u\<bar> \<le> 65574" "\<bar>v\<bar> \<le> 65574" "z = f u v" by (simp_all add: within_def)
    then show "\<bar>z\<bar> \<le> 2 ^ 18" using that(1) [of u v] by simp
  qed
  show "stands a x \<Longrightarrow> stands b y \<Longrightarrow> wide (gf_add a b) ((x + y) mod p25519)"
    using w [of "(+)" a x b y] reduced_within(1) [of a] reduced_within(1) [of b]
    by (auto simp: wide_def gf_add_def stands_def cval_map2) (metis mod_add_eq)
  show "stands a x \<Longrightarrow> stands b y \<Longrightarrow> wide (gf_sub a b) ((x - y) mod p25519)"
    using w [of "(-)" a x b y] reduced_within(1) [of a] reduced_within(1) [of b]
    by (auto simp: wide_def gf_sub_def stands_def cval_map2) (metis mod_diff_eq)
qed

section \<open>Bytes\<close>

definition le_val :: "bytes \<Rightarrow> int" where
  "le_val n = (\<Sum>i < length n. uint (n ! i) * 2 ^ (8 * i))"

definition le_bytes :: "nat \<Rightarrow> int \<Rightarrow> bytes" where
  "le_bytes n v = map (\<lambda>i. word_of_int (v div 2 ^ (8 * i))) [0..<n]"

lemma and_mask: "x AND 0xffff = x mod 65536" "x AND 0x7fff = x mod 32768" for x :: int
  using take_bit_eq_mask [of 16 x] take_bit_eq_mask [of 15 x] by (simp_all add: take_bit_eq_mod mask_eq_exp_minus_1)

lemma sum_pairs: "(\<Sum>i < 2 * m. f i) = (\<Sum>i < m. f (2 * i) + f (Suc (2 * i)))" for f :: "nat \<Rightarrow> int"
proof (induction m)
  case (Suc m)
  have "2 * Suc m = Suc (Suc (2 * m))" by simp
  with Suc show ?case by (simp only: sum.lessThan_Suc add.assoc)
qed simp

lemma cval_Suc: "cval (Suc n) t = cval n t + t ! n * 2 ^ (16 * n)"
  by (simp add: cval_def)

lemma digits_bound:
  assumes "\<forall>i < n. 0 \<le> t ! i \<and> t ! i < 65536"
  shows "0 \<le> cval n t \<and> cval n t < 2 ^ (16 * n)"
  using assms
proof (induction n)
  case (Suc n)
  then have "0 \<le> cval n t" "cval n t < 2 ^ (16 * n)" "0 \<le> t ! n" "t ! n + 1 \<le> 65536" by auto
  moreover from this have "(t ! n + 1) * 2 ^ (16 * n) \<le> 65536 * 2 ^ (16 * n)" by (intro mult_right_mono) simp_all
  then have "t ! n * 2 ^ (16 * n) + 2 ^ (16 * n) \<le> 65536 * 2 ^ (16 * n)" by (simp only: distrib_right mult_1)
  moreover have "0 \<le> t ! n * 2 ^ (16 * n)" using \<open>0 \<le> t ! n\<close> by simp
  moreover have "(2 :: int) ^ (16 * Suc n) = 65536 * 2 ^ (16 * n)" by (simp add: power_add)
  ultimately show ?case unfolding cval_Suc by linarith
qed (simp add: cval_def)

lemma uint_u8: "0 \<le> uint (b :: u8)" "uint (b :: u8) < 256"
  using uint_bounded [of b] by simp_all

lemma unpack_val:
  assumes "length n = 32"
  shows "digits (unpack25519 n) \<and> gval (unpack25519 n) = le_val n mod 2 ^ 255"
proof -
  define r where "r = map (\<lambda>i. uint (n ! (2 * i)) + push_bit 8 (uint (n ! Suc (2 * i)))) [0..<16]"
  have r: "length r = 16" "r ! i = uint (n ! (2 * i)) + 256 * uint (n ! (2 * i + 1))" if "i < 16" for i
    using that by (simp_all add: r_def push_bit_eq_mult)
  have len: "length r = 16" by (simp add: r_def)
  have d: "0 \<le> r ! i" "r ! i < 65536" if "i < 16" for i
    using r(2) [OF that] uint_u8 [of "n ! (2 * i)"] uint_u8 [of "n ! (2 * i + 1)"] by linarith+
  have le: "gval r = le_val n"
    using assms sum_pairs [of "\<lambda>i. uint (n ! i) * 2 ^ (8 * i)" 16] r(2)
    by (simp add: le_val_def cval_def power_add power_mult [symmetric] algebra_simps)
  have un: "unpack25519 n = r[15 := r ! 15 mod 32768]"
    unfolding unpack25519_def Suc_eq_plus1 [symmetric] r_def [symmetric] by (simp only: Let_def and_mask)
  define q where "q = r ! 15 div 32768"
  have m: "r ! 15 mod 32768 = r ! 15 - 32768 * q" by (simp add: q_def minus_mult_div_eq_mod)
  have g: "gval (unpack25519 n) = le_val n - q * 2 ^ 255"
    unfolding un using len by (simp add: cval_update le m)
  have dig: "digits (unpack25519 n)"
    using d len by (auto simp: un digits_def nth_list_update)
  have "cval 15 (unpack25519 n) < 2 ^ 240" "0 \<le> cval 15 (unpack25519 n)"
    using digits_bound [of 15 "unpack25519 n"] dig by (simp_all add: digits_def)
  moreover have "gval (unpack25519 n) = cval 15 (unpack25519 n) + (r ! 15 mod 32768) * 2 ^ 240"
  proof -
    have "{..<16} = insert 15 {..<15 :: nat}" by auto
    then show ?thesis using len by (simp add: cval_def un)
  qed
  moreover have "0 \<le> (r ! 15 mod 32768) * 2 ^ 240" by simp
  moreover have "(r ! 15 mod 32768) * 2 ^ 240 \<le> 32767 * 2 ^ 240" by (intro mult_right_mono) simp_all
  moreover have "(2 :: int) ^ 255 = 32767 * 2 ^ 240 + 2 ^ 240" by simp
  ultimately have "0 \<le> gval (unpack25519 n) \<and> gval (unpack25519 n) < 2 ^ 255" by linarith
  then have "gval (unpack25519 n) = gval (unpack25519 n) mod 2 ^ 255" by simp
  also have "\<dots> = le_val n mod 2 ^ 255" unfolding g by (simp add: mod_diff_right_eq [symmetric])
  finally show ?thesis using dig by blast
qed

section \<open>Selection\<close>

lemma sel25519_eq:
  assumes "length p = length q"
  shows "sel25519 p q 0 = (p, q)" and "sel25519 p q 1 = (q, p)"
proof -
  have "x XOR (x XOR y) = y" "x XOR (y XOR x) = y" for x y :: int by (rule bit_eqI; simp add: bit_simps; blast)+
  then show "sel25519 p q 0 = (p, q)" and "sel25519 p q 1 = (q, p)"
    using assms by (auto simp: sel25519_def Let_def intro!: nth_equalityI)
qed

section \<open>The canonical form\<close>

lemma borrow_bit:
  fixes x :: int
  assumes "- 65536 \<le> x" and "x < 65536"
  shows "drop_bit 16 x AND 1 = (if x < 0 then 1 else 0)"
proof -
  have "x div 65536 = (if x < 0 then - 1 else 0)"
    using assms zdiv_mono1 [of "- 65536" x 65536] zdiv_mono1 [of x "- 1" 65536] by (cases "x < 0") simp_all
  then show ?thesis by (simp add: drop_bit_eq_div)
qed

text \<open>
  One round subtracts the prime when the number is at least the prime. \<open>borrow t n\<close> is what the limbs
  below \<open>n\<close> borrow.
\<close>

definition p_limb :: "nat \<Rightarrow> int" where
  "p_limb i = (if i = 0 then 0xffed else if i < 15 then 0xffff else 0x7fff)"

primrec borrow :: "gf \<Rightarrow> nat \<Rightarrow> int" where
  "borrow t 0 = 0"
| "borrow t (Suc n) = (if t ! n - p_limb n - borrow t n < 0 then 1 else 0)"

lemma borrow_range: "0 \<le> borrow t n \<and> borrow t n \<le> 1"
  by (cases n) simp_all

lemma p_limbs_val: "(\<Sum>i < 16. p_limb i * 2 ^ (16 * i)) = p25519"
proof -
  have "{..<16} = insert 0 (insert 1 (insert 2 (insert 3 (insert 4 (insert 5 (insert 6 (insert 7
    (insert 8 (insert 9 (insert 10 (insert 11 (insert 12 (insert 13 (insert 14 {15 :: nat}))))))))))))))"
    by (simp add: lessThan_nat_numeral lessThan_Suc) auto
  then show ?thesis by (simp add: p_limb_def p25519_def)
qed

lemma borrow_val:
  assumes "\<forall>i < n. 0 \<le> t ! i \<and> t ! i < 65536"
  shows "(\<Sum>i < n. ((t ! i - p_limb i - borrow t i) mod 65536) * 2 ^ (16 * i))
    = cval n t - (\<Sum>i < n. p_limb i * 2 ^ (16 * i)) + borrow t n * 2 ^ (16 * n)"
  using assms
proof (induction n)
  case (Suc n)
  define x where "x = t ! n - p_limb n - borrow t n"
  have "- 65536 \<le> x" "x < 65536"
    using Suc.prems [rule_format, of n] borrow_range [of t n] by (auto simp: x_def p_limb_def)
  then have "x mod 65536 = x + (if x < 0 then 65536 else 0)"
    using mod_pos_pos_trivial [of "x + 65536" 65536] by auto
  then have "x mod 65536 = x + borrow t (Suc n) * 65536" by (simp add: x_def)
  then have "(x mod 65536) * 2 ^ (16 * n) = x * 2 ^ (16 * n) + borrow t (Suc n) * 2 ^ (16 * Suc n)"
    by (simp add: power_add algebra_simps del: borrow.simps)
  with Suc show ?case
    by (simp add: cval_Suc x_def [symmetric] del: borrow.simps) (simp add: x_def algebra_simps)
qed (simp add: cval_def)

definition diff_limb :: "gf \<Rightarrow> nat \<Rightarrow> int" where
  "diff_limb t i = t ! i - p_limb i - borrow t i"

lemma diff_limb_range:
  assumes "digits t" and "i < 16"
  shows "- 65536 \<le> diff_limb t i" "diff_limb t i < 65536"
  using assms borrow_range [of t i] by (auto simp: digits_def diff_limb_def p_limb_def)

lemma diff_limb_borrow:
  assumes "digits t" and "i < 16"
  shows "drop_bit 16 (diff_limb t i) AND 1 = borrow t (Suc i)"
  using borrow_bit [OF diff_limb_range [OF assms]] by (simp add: diff_limb_def)

lemma pack_sub_fold:
  assumes t: "digits t" and "n \<le> 14"
  shows "fold (pack_sub_step t) [1..<Suc n] ((replicate 16 0)[0 := t ! 0 - 0xffed]) =
    map (\<lambda>i. if i < n then diff_limb t i mod 65536 else if i = n then diff_limb t i else 0) [0..<16]"
  using assms(2)
proof (induction n)
  case 0
  show ?case by (rule nth_equalityI) (auto simp: diff_limb_def p_limb_def nth_list_update)
next
  case (Suc n)
  define m where "m = map (\<lambda>i. if i < n then diff_limb t i mod 65536 else if i = n then diff_limb t i else 0) [0..<16]"
  have m: "length m = 16" "m ! n = diff_limb t n" using Suc.prems by (simp_all add: m_def)
  have "t ! Suc n - 0xffff - (drop_bit 16 (m ! n) AND 1) = diff_limb t (Suc n)"
    unfolding m(2) using Suc.prems by (simp only: diff_limb_borrow [OF t]) (simp add: diff_limb_def p_limb_def)
  then have "pack_sub_step t (Suc n) m = m[Suc n := diff_limb t (Suc n), n := diff_limb t n mod 65536]"
    using m Suc.prems by (simp add: pack_sub_step_def Let_def and_mask)
  also have "\<dots> = map (\<lambda>i. if i < Suc n then diff_limb t i mod 65536 else if i = Suc n then diff_limb t i else 0) [0..<16]"
    using Suc.prems by (intro nth_equalityI) (auto simp: m_def nth_list_update less_Suc_eq)
  finally show ?case using Suc by (simp add: m_def)
qed

lemma pack_round_eq:
  assumes t: "digits t"
  shows "pack_round t = (if borrow t 16 = 1 then t else map (\<lambda>i. diff_limb t i mod 65536) [0..<16])"
proof -
  define m where "m = map (\<lambda>i. if i < 14 then diff_limb t i mod 65536 else if i = 14 then diff_limb t i else 0) [0..<16]"
  have m: "length m = 16" "m ! 14 = diff_limb t 14" by (simp_all add: m_def)
  have fold: "fold (pack_sub_step t) [1..<15] ((replicate 16 0)[0 := t ! 0 - 0xffed]) = m"
    using pack_sub_fold [OF t, of 14] by (simp add: m_def)
  have b15: "borrow t 15 = (drop_bit 16 (diff_limb t 14) AND 1)" and b16: "borrow t 16 = (drop_bit 16 (diff_limb t 15) AND 1)"
    using diff_limb_borrow [OF t, of 14] diff_limb_borrow [OF t, of 15] by simp_all
  have d15: "t ! 15 - 0x7fff - (drop_bit 16 (m ! 14) AND 1) = diff_limb t 15"
    unfolding m(2) b15 [symmetric] by (simp add: diff_limb_def p_limb_def)
  define m' where "m' = m[15 := diff_limb t 15, 14 := diff_limb t 14 mod 65536]"
  have round: "pack_round t = fst (sel25519 t m' (1 - borrow t 16))"
    unfolding pack_round_def fold Let_def d15 using m by (simp add: m'_def b16 and_mask)
  have len: "length t = length m'" using t m(1) by (simp add: digits_def m'_def)
  have bin: "borrow t 16 = 0 \<or> borrow t 16 = 1" using borrow_range [of t 16] by linarith
  show ?thesis
  proof (cases "borrow t 16 = 1")
    case True
    then show ?thesis using sel25519_eq(1) [OF len] by (simp add: round)
  next
    case False
    then have 0: "borrow t 16 = 0" using bin by blast
    then have "0 \<le> diff_limb t 15" using borrow.simps(2) [of t 15] by (simp add: diff_limb_def split: if_splits)
    then have "diff_limb t 15 mod 65536 = diff_limb t 15" using diff_limb_range [OF t, of 15] by simp
    moreover have "i < 16 \<Longrightarrow> i \<noteq> 15 \<Longrightarrow> i \<noteq> 14 \<Longrightarrow> i < 14" for i :: nat by linarith
    ultimately have "m' = map (\<lambda>i. diff_limb t i mod 65536) [0..<16]"
      by (intro nth_equalityI) (auto simp: m'_def m_def nth_list_update)
    with 0 show ?thesis using sel25519_eq(2) [OF len] by (simp add: round)
  qed
qed

lemma pack_round_val:
  assumes t: "digits t"
  shows "digits (pack_round t) \<and> gval (pack_round t) = (if gval t < p25519 then gval t else gval t - p25519)"
proof -
  have dig: "\<forall>i < 16. 0 \<le> t ! i \<and> t ! i < 65536" using t by (simp add: digits_def)
  define u where "u = map (\<lambda>i. diff_limb t i mod 65536) [0..<16]"
  have u: "digits u" by (simp add: u_def digits_def)
  have "gval u = gval t - p25519 + borrow t 16 * 2 ^ 256"
    using borrow_val [OF dig] by (simp add: u_def cval_def diff_limb_def p_limbs_val)
  moreover have "0 \<le> gval u" "gval u < 2 ^ 256" using digits_bound [of 16 u] u by (simp_all add: digits_def)
  moreover have "0 \<le> gval t" "gval t < 2 ^ 256" using digits_bound [OF dig] by simp_all
  moreover have "borrow t 16 = 0 \<or> borrow t 16 = 1" using borrow_range [of t 16] by linarith
  ultimately show ?thesis using t u by (auto simp: pack_round_eq u_def [symmetric] p25519_def)
qed

lemma cval_split:
  assumes "k \<le> n"
  shows "\<exists>h. cval n t = cval k t + h * 2 ^ (16 * k)"
  using assms
proof (induction n rule: dec_induct)
  case base
  show ?case by (intro exI [of _ 0]) simp
next
  case (step n)
  then obtain h where "cval n t = cval k t + h * 2 ^ (16 * k)" by blast
  moreover have "(2 :: int) ^ (16 * n) = 2 ^ (16 * (n - k)) * 2 ^ (16 * k)"
    using step.hyps by (simp flip: power_add add: algebra_simps)
  ultimately have "cval (Suc n) t = cval k t + (h + t ! n * 2 ^ (16 * (n - k))) * 2 ^ (16 * k)"
    by (simp add: cval_Suc algebra_simps)
  then show ?case by blast
qed

lemma digit_at:
  assumes "digits t" and "i < 16"
  shows "\<exists>h. gval t div 2 ^ (16 * i) = t ! i + 65536 * h"
proof -
  obtain h where h: "gval t = cval (Suc i) t + h * 2 ^ (16 * Suc i)" using cval_split [of "Suc i" 16] assms(2) by auto
  have "0 \<le> cval i t" "cval i t < 2 ^ (16 * i)"
    using digits_bound [of i t] assms by (auto simp: digits_def)
  moreover have "gval t = cval i t + (t ! i + 65536 * h) * 2 ^ (16 * i)"
    unfolding h cval_Suc by (simp add: power_add algebra_simps)
  ultimately show ?thesis by (intro exI [of _ h]) simp
qed

lemma word8_cong: "x mod 256 = y mod 256 \<Longrightarrow> word_of_int x = (word_of_int y :: u8)"
  by (simp add: word_of_int_eq_iff take_bit_eq_mod)

lemma digits_bytes:
  assumes "digits t"
  shows "concat (map (\<lambda>x. [word_of_int x, word_of_int (drop_bit 8 x)]) t) = le_bytes 32 (gval t)"
proof -
  have pairs: "le_bytes (2 * n) v = concat (map (\<lambda>i. [word_of_int (v div 2 ^ (16 * i)), word_of_int (v div 2 ^ (16 * i) div 256)]) [0..<n])"
    for n v
  proof (induction n)
    case (Suc n)
    have "v div 2 ^ (8 * Suc (2 * n)) = v div 2 ^ (16 * n) div 256"
      by (simp add: zdiv_zmult2_eq [symmetric] power_add mult.commute)
    moreover have "2 * Suc n = Suc (Suc (2 * n))" by simp
    ultimately show ?case using Suc unfolding le_bytes_def by (simp only: upt_Suc) simp
  qed (simp add: le_bytes_def)
  have "concat (map (\<lambda>x. [word_of_int x, word_of_int (drop_bit 8 x) :: u8]) t)
      = concat (map (\<lambda>i. [word_of_int (t ! i), word_of_int (t ! i div 256)]) [0..<16])"
    using assms map_nth [of t] by (simp add: digits_def drop_bit_eq_div comp_def) (metis (no_types, lifting) map_map comp_apply map_cong)
  also have "\<dots> = concat (map (\<lambda>i. [word_of_int (gval t div 2 ^ (16 * i)), word_of_int (gval t div 2 ^ (16 * i) div 256)]) [0..<16])"
  proof -
    have "[word_of_int (t ! i), word_of_int (t ! i div 256)]
        = [word_of_int (gval t div 2 ^ (16 * i)), word_of_int (gval t div 2 ^ (16 * i) div 256) :: u8]" if i: "i < 16" for i
    proof -
      obtain h where h: "gval t div 2 ^ (16 * i) = t ! i + 65536 * h" using digit_at [OF assms i] by blast
      have "(t ! i + 65536 * h) mod 256 = t ! i mod 256"
        using mod_mult_self2 [of "t ! i" 256 "256 * h"] by simp
      moreover have "(t ! i + 65536 * h) div 256 = t ! i div 256 + 256 * h"
        using div_mult_self2 [of 256 "t ! i" "256 * h"] by simp
      moreover have "(t ! i div 256 + 256 * h) mod 256 = t ! i div 256 mod 256" by simp
      ultimately have "word_of_int (t ! i + 65536 * h) = (word_of_int (t ! i) :: u8)"
        and "word_of_int ((t ! i + 65536 * h) div 256) = (word_of_int (t ! i div 256) :: u8)"
        by (auto simp del: of_int_add intro!: word8_cong)
      then show ?thesis
        unfolding h by (simp only:)
    qed
    then show ?thesis by (intro arg_cong [of _ _ concat] list.map_cong0) simp
  qed
  also have "\<dots> = le_bytes 32 (gval t)" using pairs [of 16 "gval t"] by simp
  finally show ?thesis .
qed

lemma pack25519_val:
  assumes "reduced n"
  shows "pack25519 n = le_bytes 32 (gval n mod p25519)"
proof -
  define t where "t = car25519 n"
  have t: "digits t" unfolding t_def by (rule car_digits [OF assms])
  define u where "u = pack_round (pack_round t)"
  note r1 = pack_round_val [OF t]
  then have r2: "digits u \<and> gval u = (if gval (pack_round t) < p25519 then gval (pack_round t) else gval (pack_round t) - p25519)"
    unfolding u_def by (intro pack_round_val) simp
  have T: "0 \<le> gval t" "gval t < 2 ^ 256" using digits_bound [of 16 t] t by (simp_all add: digits_def)
  have "gval u = gval t mod p25519"
  proof -
    consider "gval t < p25519" | "p25519 \<le> gval t" "gval t < 2 * p25519" | "2 * p25519 \<le> gval t" by linarith
    then show ?thesis
    proof cases
      case 1
      then show ?thesis using r1 r2 T by simp
    next
      case 2
      then have "gval t mod p25519 = gval t - p25519"
        using minus_mod_self2 [of "gval t" p25519] mod_pos_pos_trivial [of "gval t - p25519" p25519] by linarith
      with 2 show ?thesis using r1 r2 T by simp
    next
      case 3
      have "gval t mod p25519 = (gval t - 2 * p25519) mod p25519"
        using mod_diff_right_eq [of "gval t" "2 * p25519" p25519] by simp
      moreover have "gval t - 2 * p25519 < p25519" using T by (simp add: p25519_def)
      ultimately show ?thesis using 3 r1 r2 T by (simp add: p25519_def)
    qed
  qed
  moreover have "gval t mod p25519 = gval n mod p25519"
    using car25519_val [of n] assms by (simp add: t_def mod_eq_dvd_iff reduced_def)
  moreover have "pack25519 n = concat (map (\<lambda>x. [word_of_int x, word_of_int (drop_bit 8 x)]) u)"
    using t by (simp add: pack25519_def Let_def t_def [symmetric] car_id u_def)
  moreover have "\<dots> = le_bytes 32 (gval u)"
    using r2 by (intro digits_bytes) simp
  ultimately show ?thesis by simp
qed

end
