(* ===== verification/X25519Spec.thy ===== *)
theory X25519Spec
  imports X25519Field
begin

text \<open>
  The X25519 function as RFC 7748, section 5, writes it, over the integers modulo the prime, and the
  proof that the code computes it. The RFC postpones the swap that undoes a round's swap to the next
  round and undoes the last one at the end; the code swaps back in every round.
\<close>

section \<open>The function of RFC 7748\<close>

definition fe_add :: "int \<Rightarrow> int \<Rightarrow> int" where
  "fe_add x y = (x + y) mod p25519"

definition fe_sub :: "int \<Rightarrow> int \<Rightarrow> int" where
  "fe_sub x y = (x - y) mod p25519"

definition fe_mul :: "int \<Rightarrow> int \<Rightarrow> int" where
  "fe_mul x y = x * y mod p25519"

definition cswap :: "bool \<Rightarrow> 'a \<Rightarrow> 'a \<Rightarrow> 'a \<times> 'a" where
  "cswap s x y = (if s then (y, x) else (x, y))"

type_synonym ladder_state = "bool \<times> int \<times> int \<times> int \<times> int"

fun rfc7748_step :: "int \<Rightarrow> int \<Rightarrow> nat \<Rightarrow> ladder_state \<Rightarrow> ladder_state" where
  "rfc7748_step k x1 t (swap, x2, z2, x3, z3) =
     (let k_t = odd (k div 2 ^ t);
          swap = (swap \<noteq> k_t);
          (x2, x3) = cswap swap x2 x3;
          (z2, z3) = cswap swap z2 z3;
          A = fe_add x2 z2;
          AA = fe_mul A A;
          B = fe_sub x2 z2;
          BB = fe_mul B B;
          E = fe_sub AA BB;
          C = fe_add x3 z3;
          D = fe_sub x3 z3;
          DA = fe_mul D A;
          CB = fe_mul C B
      in (k_t,
          fe_mul AA BB,
          fe_mul E (fe_add AA (fe_mul 121665 E)),
          fe_mul (fe_add DA CB) (fe_add DA CB),
          fe_mul x1 (fe_mul (fe_sub DA CB) (fe_sub DA CB))))"

definition rfc7748_ladder :: "int \<Rightarrow> int \<Rightarrow> int" where
  "rfc7748_ladder k u =
     (let (swap, x2, z2, x3, z3) = fold (rfc7748_step k u) (rev [0..<255]) (False, 1, 0, u, 1);
          (x2, x3) = cswap swap x2 x3;
          (z2, z3) = cswap swap z2 z3
      in fe_mul x2 (z2 ^ nat (p25519 - 2)))"

definition decode_scalar :: "bytes \<Rightarrow> int" where
  "decode_scalar k = le_val (k[0 := k ! 0 AND 248, 31 := ((k ! 31) AND 127) OR 64])"

definition decode_u :: "bytes \<Rightarrow> int" where
  "decode_u u = le_val u mod 2 ^ 255"

definition rfc7748_x25519 :: "bytes \<Rightarrow> bytes \<Rightarrow> bytes" where
  "rfc7748_x25519 k u = le_bytes 32 (rfc7748_ladder (decode_scalar k) (decode_u u))"

section \<open>Inversion\<close>

lemma stands_mod [simp]: "stands a (x mod p25519) = stands a x"
  by (simp add: stands_def)

lemma stands_mul: "stands a x \<Longrightarrow> stands b y \<Longrightarrow> stands (gf_mul a b) (x * y)"
  using wide_mul [OF stands_wide stands_wide] by fastforce

fun inv_exp :: "nat \<Rightarrow> nat \<Rightarrow> nat" where
  "inv_exp a e = 2 * e + (if a \<noteq> 2 \<and> a \<noteq> 4 then 1 else 0)"

lemma inv_fold:
  assumes "stands i x" and "stands c (x ^ e)"
  shows "stands (fold (inv_step i) as c) (x ^ fold inv_exp as e)"
  using assms(2)
proof (induction as arbitrary: c e)
  case (Cons a as)
  have "stands (gf_sqr c) (x ^ (2 * e))"
    unfolding gf_sqr_def using stands_mul [OF Cons.prems Cons.prems] by (simp add: power_add mult_2)
  then have "stands (inv_step i a c) (x ^ inv_exp a e)"
    using stands_mul [OF _ assms(1), of "gf_sqr c" "x ^ (2 * e)"] by (simp add: inv_step_def Let_def mult.commute)
  then show ?case using Cons.IH by (simp del: inv_exp.simps)
qed simp

lemma inv_exponent: "fold inv_exp (rev [0..<254]) 1 = nat (p25519 - 2)"
proof -
  have ones: "fold inv_exp (rev [m..<m + n]) e + 1 = 2 ^ n * (e + 1)" if "5 \<le> m" for m n e
    using that by (induction n arbitrary: e) (simp_all add: algebra_simps)
  have "[0..<5] = [0, 1, 2, 3, 4 :: nat]" by (simp add: upt_rec)
  then have "rev [0..<254] = rev [5..<5 + 249] @ [4, 3, 2, 1, 0 :: nat]"
    using upt_add_eq_append [of 0 5 249] by simp
  moreover have "fold inv_exp (rev [5..<5 + 249]) 1 = 2 ^ 250 - 1" using ones [of 5 249 1] by simp
  ultimately have "fold inv_exp (rev [0..<254]) 1 = fold inv_exp [4, 3, 2, 1, 0] (2 ^ 250 - 1)" by simp
  then show ?thesis by (simp add: p25519_def)
qed

lemma inv25519_val:
  assumes "stands i x"
  shows "stands (inv25519 i) (x ^ nat (p25519 - 2))"
  using inv_fold [OF assms, of i 1 "rev [0..<254]"] assms
  unfolding inv25519_def inv_exponent by simp

section \<open>The ladder\<close>

lemma fe_stands:
  "stands a x \<Longrightarrow> stands b y \<Longrightarrow> wide (gf_add a b) (fe_add x y)"
  "stands a x \<Longrightarrow> stands b y \<Longrightarrow> wide (gf_sub a b) (fe_sub x y)"
  "wide a x \<Longrightarrow> wide b y \<Longrightarrow> stands (gf_mul a b) (fe_mul x y)"
  by (simp_all add: fe_add_def fe_sub_def fe_mul_def stands_add stands_sub wide_mul del: stands_mod)

lemma fe_commute: "fe_add x y = fe_add y x" "fe_mul x y = fe_mul y x"
  "fe_mul (fe_sub x y) (fe_sub x y) = fe_mul (fe_sub y x) (fe_sub y x)"
proof -
  show "fe_add x y = fe_add y x" "fe_mul x y = fe_mul y x" by (simp_all add: fe_add_def fe_mul_def ac_simps)
  have "(x - y) * (x - y) = (y - x) * (y - x)" by (simp add: algebra_simps)
  then show "fe_mul (fe_sub x y) (fe_sub x y) = fe_mul (fe_sub y x) (fe_sub y x)"
    unfolding fe_mul_def fe_sub_def mod_mult_eq by simp
qed

lemma stands_constants: "stands gf0 0" "stands gf1 1" "stands c121665 121665"
proof -
  have "gval ((replicate 16 0)[0 := x, 1 := y]) = x + y * 65536" for x y
    by (simp add: cval_update) (simp add: cval_def)
  moreover have "reduced ((replicate 16 0)[0 := x, 1 := y])" if "0 \<le> x" "x < 65536" "0 \<le> y" "y < 65536" for x y
    using that by (simp add: reduced_def nth_list_update)
  ultimately have st: "stands ((replicate 16 0)[0 := x, 1 := y]) (x + y * 65536)"
    if "0 \<le> x" "x < 65536" "0 \<le> y" "y < 65536" for x y
    using that by (simp only: stands_def)
  have "gf0 = (replicate 16 0)[0 := 0, 1 := 0]" "gf1 = (replicate 16 0)[0 := 1, 1 := 0]"
    "c121665 = (replicate 16 0)[0 := 0xDB41, 1 := 1]"
    by (simp_all add: gf0_def gf1_def c121665_def numeral_eq_Suc)
  then show "stands gf0 0" "stands gf1 1" "stands c121665 121665"
    using st [of 0 0] st [of 1 0] st [of "0xDB41" 1] by simp_all
qed

lemma digits_stands: "digits a \<Longrightarrow> stands a (gval a)"
  by (force simp: stands_def digits_def reduced_def)

definition stands4 :: "gf \<times> gf \<times> gf \<times> gf \<Rightarrow> ladder_state \<Rightarrow> bool" where
  "stands4 s r \<longleftrightarrow> (case (s, r) of ((a, b, c, d), (swap, x2, z2, x3, z3)) \<Rightarrow>
     stands a (fst (cswap swap x2 x3)) \<and> stands b (snd (cswap swap x2 x3))
     \<and> stands c (fst (cswap swap z2 z3)) \<and> stands d (snd (cswap swap z2 z3)))"

lemma stands_length: "stands a x \<Longrightarrow> length a = 16"
  by (simp add: stands_def reduced_def)

lemma ladder_stands:
  assumes "stands x x1" and "stands4 s r" and bit: "ladder_bit z i = (if odd (k div 2 ^ i) then 1 else 0)"
  shows "stands4 (ladder_step z x i s) (rfc7748_step k x1 i r)"
proof -
  obtain a b c d where s: "s = (a, b, c, d)" by (cases s)
  obtain swap x2 z2 x3 z3 where r: "r = (swap, x2, z2, x3, z3)" by (cases r)
  define kt where "kt \<longleftrightarrow> odd (k div 2 ^ i)"
  obtain X2 X3 where X: "cswap (swap \<noteq> kt) x2 x3 = (X2, X3)" by (cases "cswap (swap \<noteq> kt) x2 x3")
  obtain Z2 Z3 where Z: "cswap (swap \<noteq> kt) z2 z3 = (Z2, Z3)" by (cases "cswap (swap \<noteq> kt) z2 z3")
  obtain a1 b1 where ab: "sel25519 a b (ladder_bit z i) = (a1, b1)" by (cases "sel25519 a b (ladder_bit z i)")
  obtain c1 d1 where cd: "sel25519 c d (ladder_bit z i) = (c1, d1)" by (cases "sel25519 c d (ladder_bit z i)")
  have len: "length a = length b" "length c = length d"
    using assms(2) by (auto simp: stands4_def s r dest!: stands_length)
  have st: "stands a1 X2" "stands b1 X3" "stands c1 Z2" "stands d1 Z3"
    using assms(2) ab cd X Z sel25519_eq [OF len(1)] sel25519_eq [OF len(2)]
    by (auto simp: s r stands4_def bit kt_def [symmetric] cswap_def split: if_splits)
  define A where "A = fe_add X2 Z2"
  define B where "B = fe_sub X2 Z2"
  define C where "C = fe_add X3 Z3"
  define D where "D = fe_sub X3 Z3"
  define AA where "AA = fe_mul A A"
  define BB where "BB = fe_mul B B"
  define E where "E = fe_sub AA BB"
  define DA where "DA = fe_mul D A"
  define CB where "CB = fe_mul C B"
  define e1 where "e1 = gf_add a1 c1"
  define a2 where "a2 = gf_sub a1 c1"
  define c2 where "c2 = gf_add b1 d1"
  define b2 where "b2 = gf_sub b1 d1"
  have 1: "wide e1 A" "wide a2 B" "wide c2 C" "wide b2 D"
    unfolding e1_def a2_def c2_def b2_def A_def B_def C_def D_def using st by (simp_all add: fe_stands)
  define d2 where "d2 = gf_mul e1 e1"
  define f1 where "f1 = gf_mul a2 a2"
  define a3 where "a3 = gf_mul c2 a2"
  define c3 where "c3 = gf_mul b2 e1"
  have 2: "stands d2 AA" "stands f1 BB" "stands a3 CB" "stands c3 DA"
    unfolding d2_def f1_def a3_def c3_def AA_def BB_def CB_def DA_def using 1 by (simp_all add: fe_stands)
  have 3: "wide (gf_add a3 c3) (fe_add DA CB)" "wide (gf_sub a3 c3) (fe_sub CB DA)" "wide (gf_sub d2 f1) E"
    using 2 fe_stands(1) [of a3 CB c3 DA] unfolding E_def by (simp_all add: fe_stands fe_commute(1))
  have 4: "stands (gf_mul (gf_sub d2 f1) c121665) (fe_mul 121665 E)"
    using fe_stands(3) [OF 3(3) stands_wide [OF stands_constants(3)]] by (simp add: fe_commute(2))
  have 5: "stands (gf_mul (gf_sub a3 c3) (gf_sub a3 c3)) (fe_mul (fe_sub DA CB) (fe_sub DA CB))"
    using fe_stands(3) [OF 3(2) 3(2)] by (simp only: fe_commute(3) [of CB])
  define c4 where "c4 = gf_mul (gf_sub d2 f1) (gf_add (gf_mul (gf_sub d2 f1) c121665) d2)"
  define a4 where "a4 = gf_mul d2 f1"
  define d4 where "d4 = gf_mul (gf_mul (gf_sub a3 c3) (gf_sub a3 c3)) x"
  define b4 where "b4 = gf_mul (gf_add a3 c3) (gf_add a3 c3)"
  have 6: "stands a4 (fe_mul AA BB)" "stands b4 (fe_mul (fe_add DA CB) (fe_add DA CB))"
    unfolding a4_def b4_def using 2 3 by (simp_all add: fe_stands stands_wide)
  have 7: "stands c4 (fe_mul E (fe_add AA (fe_mul 121665 E)))"
    unfolding c4_def fe_commute(1) [of AA] using fe_stands(1) [OF 4 2(1)] 3(3) by (simp add: fe_stands)
  have 8: "stands d4 (fe_mul x1 (fe_mul (fe_sub DA CB) (fe_sub DA CB)))"
    unfolding d4_def fe_commute(2) [of x1] using 5 assms(1) by (simp add: fe_stands stands_wide)
  have step: "ladder_step z x i s = (let (a, b) = sel25519 a4 b4 (ladder_bit z i); (c, d) = sel25519 c4 d4 (ladder_bit z i) in (a, b, c, d))"
    unfolding s ladder_step.simps ab cd Let_def prod.case gf_sqr_def
    by (simp only: e1_def a2_def c2_def b2_def d2_def f1_def a3_def c3_def a4_def b4_def c4_def d4_def)
  have rfc: "rfc7748_step k x1 i r = (kt, fe_mul AA BB, fe_mul E (fe_add AA (fe_mul 121665 E)),
      fe_mul (fe_add DA CB) (fe_add DA CB), fe_mul x1 (fe_mul (fe_sub DA CB) (fe_sub DA CB)))"
    unfolding r rfc7748_step.simps kt_def [symmetric] Let_def X Z prod.case
    by (simp only: A_def B_def C_def D_def AA_def BB_def E_def DA_def CB_def)
  have "length a4 = length b4" "length c4 = length d4" by (simp_all add: a4_def b4_def c4_def d4_def)
  note sel25519_eq [OF this(1)] sel25519_eq [OF this(2)]
  with 6 7 8 show ?thesis
    unfolding step rfc by (simp add: stands4_def bit kt_def [symmetric] cswap_def)
qed

section \<open>The scalar\<close>

lemma le_val_Cons: "le_val (b # n) = uint b + 256 * le_val n"
  unfolding le_val_def length_Cons sum.lessThan_Suc_shift by (simp add: sum_distrib_left power_add algebra_simps)

lemma le_val_bit: "odd (le_val z div 2 ^ i) \<longleftrightarrow> i < 8 * length z \<and> bit (z ! (i div 8)) (i mod 8)"
proof (induction z arbitrary: i)
  case Nil
  then show ?case by (simp add: le_val_def)
next
  case (Cons b z)
  show ?case
  proof (cases "i < 8")
    case True
    then have "(2 :: int) ^ 8 = 2 ^ i * 2 ^ (8 - i)" by (simp flip: power_add)
    then have "le_val (b # z) div 2 ^ i = uint b div 2 ^ i + 2 ^ (8 - i) * le_val z"
      using div_mult_self2 [of "2 ^ i" "uint b" "2 ^ (8 - i) * le_val z"] by (simp add: le_val_Cons mult.assoc [symmetric])
    moreover have "even (2 ^ (8 - i) * le_val z)" using True by simp
    ultimately show ?thesis using True bit_uint_iff [of b i] by (simp add: bit_iff_odd [of "uint b"])
  next
    case False
    define j where "j = i - 8"
    have i: "i = 8 + j" "(8 + j) div 8 = Suc (j div 8)" using False by (simp_all add: j_def)
    have "le_val (b # z) div 256 = le_val z" using uint_u8 [of b] by (simp add: le_val_Cons)
    then have "le_val (b # z) div 2 ^ i = le_val z div 2 ^ j" by (simp add: i(1) power_add zdiv_zmult2_eq)
    then show ?thesis using Cons [of j] by (simp add: i)
  qed
qed

lemma ladder_bit_scalar:
  assumes "length z = 32" and "i < 255"
  shows "ladder_bit z i = (if odd (le_val z div 2 ^ i) then 1 else 0)"
proof -
  have "drop_bit (i mod 8) (z ! (i div 8)) AND 1 = (if bit (z ! (i div 8)) (i mod 8) then 1 else 0)"
    unfolding and_one_eq odd_iff_mod_2_eq_one [symmetric] bit_iff_odd_drop_bit by (simp add: mod2_eq_if)
  with assms show ?thesis by (simp add: ladder_bit_def le_val_bit)
qed

section \<open>The whole function\<close>

lemma scalarmult_rfc7748:
  assumes "length k = 32" and "length u = 32"
  shows "scalarmult k u = rfc7748_x25519 k u"
proof -
  define z where "z = clamp k"
  have z: "length z = 32" "decode_scalar k = le_val z"
    using assms(1) by (simp_all add: z_def clamp_def Let_def decode_scalar_def list_update_swap)
  define x where "x = unpack25519 u"
  have x: "stands x (decode_u u)"
    using unpack_val [OF assms(2)] digits_stands [of x] by (simp add: x_def decode_u_def)
  have "stands4 (fold (ladder_step z x) is s) (fold (rfc7748_step (le_val z) (decode_u u)) is r)"
    if "stands4 s r" "set is \<subseteq> {..<255}" for "is" s r
    using that
  proof (induction "is" arbitrary: s r)
    case (Cons i "is")
    then have "stands4 (ladder_step z x i s) (rfc7748_step (le_val z) (decode_u u) i r)"
      using x z(1) by (intro ladder_stands ladder_bit_scalar) simp_all
    with Cons show ?case by simp
  qed simp
  moreover have "stands4 (gf1, x, gf0, gf1) (False, 1, 0, decode_u u, 1)"
    using x stands_constants by (simp add: stands4_def cswap_def)
  ultimately have l: "stands4 (fold (ladder_step z x) (rev [0..<255]) (gf1, x, gf0, gf1))
      (fold (rfc7748_step (le_val z) (decode_u u)) (rev [0..<255]) (False, 1, 0, decode_u u, 1))"
    by (simp add: atLeast0LessThan)
  obtain a b c d where code: "fold (ladder_step z x) (rev [0..<255]) (gf1, x, gf0, gf1) = (a, b, c, d)"
    by (cases "fold (ladder_step z x) (rev [0..<255]) (gf1, x, gf0, gf1)")
  obtain s x2 z2 x3 z3 where rfc:
    "fold (rfc7748_step (le_val z) (decode_u u)) (rev [0..<255]) (False, 1, 0, decode_u u, 1) = (s, x2, z2, x3, z3)"
    by (cases "fold (rfc7748_step (le_val z) (decode_u u)) (rev [0..<255]) (False, 1, 0, decode_u u, 1)")
  define x2' where "x2' = fst (cswap s x2 x3)"
  define z2' where "z2' = fst (cswap s z2 z3)"
  have ac: "stands a x2'" "stands c z2'" using l unfolding code rfc by (simp_all add: stands4_def x2'_def z2'_def)
  have "rfc7748_ladder (le_val z) (decode_u u) = fe_mul x2' (z2' ^ nat (p25519 - 2))"
    unfolding rfc7748_ladder_def rfc by (simp add: x2'_def z2'_def Let_def split_beta)
  moreover have "scalarmult k u = pack25519 (gf_mul a (inv25519 c))"
    unfolding scalarmult_def z_def [symmetric] x_def [symmetric] Let_def code by simp
  moreover have "stands (gf_mul a (inv25519 c)) (fe_mul x2' (z2' ^ nat (p25519 - 2)))"
    using ac by (intro fe_stands(3) stands_wide inv25519_val)
  ultimately show ?thesis
    using pack25519_val [of "gf_mul a (inv25519 c)"] by (simp add: rfc7748_x25519_def z(2) stands_def fe_mul_def)
qed

lemma all_zero_eq:
  assumes "length s = 32"
  shows "all_zero s \<longleftrightarrow> s = replicate 32 0"
proof -
  have "fold (\<lambda>i v. v OR s ! i) xs (v :: u8) = 0 \<longleftrightarrow> v = 0 \<and> (\<forall>i \<in> set xs. s ! i = 0)" for xs v
    by (induction xs arbitrary: v) (auto simp: or_eq_0_iff)
  then have "all_zero s \<longleftrightarrow> (\<forall>i < 32. s ! i = 0)" by (auto simp: all_zero_def)
  then show ?thesis using assms by (auto simp: list_eq_iff_nth_eq)
qed

lemma x25519_public_from_private_eq:
  "x25519_public_from_private k = (if span_null k then Err XT_ERR_INVALID_ARGUMENT
     else bind_res (rd_bytes k 0 32) (\<lambda>k. Ok (rfc7748_x25519 k (9 # replicate 31 0))))"
  by (simp add: x25519_public_from_private_def rd_bytes_def scalarmult_rfc7748 split: if_splits)

lemma x25519_shared_secret_rfc7748:
  "x25519_shared_secret k u = (if span_null k \<or> span_null u then Err XT_ERR_INVALID_ARGUMENT
     else bind_res (rd_bytes k 0 32) (\<lambda>k. bind_res (rd_bytes u 0 32) (\<lambda>u.
       if rfc7748_x25519 k u = replicate 32 0 then Err XT_ERR_VERIFY else Ok (rfc7748_x25519 k u))))"
  by (simp add: x25519_shared_secret_def rd_bytes_def scalarmult_rfc7748 [symmetric] all_zero_eq Let_def)

end
