(* ===== verification/OpenSslVerifier.thy ===== *)
theory OpenSslVerifier
  imports Authentication Program
begin

text \<open>
  The verifier of a host build, \<open>src/verifier/openssl/openssl_verifier.cpp\<close>: it hands certificates, the
  trust store and signatures to OpenSSL. The calls of OpenSSL are a parameter; the contract of those
  calls, as their manual pages state it, is the locale \<open>openssl_laws\<close>. It says which objects the caller
  owns and what they hold, and a call is promised to work only on objects that the caller owns. From
  it follow that every object that a check makes is released once, in order, and that nothing is
  accepted that OpenSSL did not accept.
\<close>

section \<open>Model: the calls of OpenSSL\<close>

type_synonym ptr = nat

definition X509_PURPOSE_SSL_SERVER :: int where "X509_PURPOSE_SSL_SERVER = 2"
definition X509_CHECK_FLAG_NO_PARTIAL_WILDCARDS :: int where "X509_CHECK_FLAG_NO_PARTIAL_WILDCARDS = 4"
definition EVP_PKEY_RSA :: int where "EVP_PKEY_RSA = 6"
definition EVP_PKEY_EC :: int where "EVP_PKEY_EC = 408"
definition EVP_PKEY_RSA_PSS :: int where "EVP_PKEY_RSA_PSS = 912"
definition RSA_PKCS1_PSS_PADDING :: int where "RSA_PKCS1_PSS_PADDING = 6"

text \<open>
  A constructor gives no pointer when it fails. \<open>ssl_d2i_x509\<close> also gives how many bytes it read. The hash
  of \<open>ssl_digest_verify_init\<close> and of \<open>ssl_set_rsa_mgf1_md\<close> is always SHA-256.
\<close>

record 'o openssl =
  ssl_store_new :: "'o \<Rightarrow> ptr option \<times> 'o"
  ssl_store_free :: "ptr \<Rightarrow> 'o \<Rightarrow> 'o"
  ssl_store_set_default_paths :: "ptr \<Rightarrow> 'o \<Rightarrow> int \<times> 'o"
  ssl_store_add_cert :: "ptr \<Rightarrow> ptr \<Rightarrow> 'o \<Rightarrow> int \<times> 'o"
  ssl_d2i_x509 :: "bytes \<Rightarrow> 'o \<Rightarrow> (ptr option \<times> nat) \<times> 'o"
  ssl_x509_free :: "ptr \<Rightarrow> 'o \<Rightarrow> 'o"
  ssl_sk_new_null :: "'o \<Rightarrow> ptr option \<times> 'o"
  ssl_sk_push :: "ptr \<Rightarrow> ptr \<Rightarrow> 'o \<Rightarrow> int \<times> 'o"
  ssl_sk_num :: "ptr \<Rightarrow> 'o \<Rightarrow> int"
  ssl_sk_pop :: "ptr \<Rightarrow> 'o \<Rightarrow> ptr option \<times> 'o"
  ssl_sk_free :: "ptr \<Rightarrow> 'o \<Rightarrow> 'o"
  ssl_ctx_new :: "'o \<Rightarrow> ptr option \<times> 'o"
  ssl_ctx_init :: "ptr \<Rightarrow> ptr \<Rightarrow> ptr \<Rightarrow> ptr \<Rightarrow> 'o \<Rightarrow> int \<times> 'o"
  ssl_ctx_get0_param :: "ptr \<Rightarrow> 'o \<Rightarrow> ptr option"
  ssl_param_set_purpose :: "ptr \<Rightarrow> int \<Rightarrow> 'o \<Rightarrow> int \<times> 'o"
  ssl_param_set_hostflags :: "ptr \<Rightarrow> int \<Rightarrow> 'o \<Rightarrow> 'o"
  ssl_param_set1_host :: "ptr \<Rightarrow> bytes \<Rightarrow> 'o \<Rightarrow> int \<times> 'o"
  ssl_verify_cert :: "ptr \<Rightarrow> 'o \<Rightarrow> int \<times> 'o"
  ssl_ctx_free :: "ptr \<Rightarrow> 'o \<Rightarrow> 'o"
  ssl_get_pubkey :: "ptr \<Rightarrow> 'o \<Rightarrow> ptr option \<times> 'o"
  ssl_pkey_base_id :: "ptr \<Rightarrow> 'o \<Rightarrow> int"
  ssl_pkey_free :: "ptr \<Rightarrow> 'o \<Rightarrow> 'o"
  ssl_md_new :: "'o \<Rightarrow> ptr option \<times> 'o"
  ssl_digest_verify_init :: "ptr \<Rightarrow> ptr \<Rightarrow> 'o \<Rightarrow> (int \<times> ptr option) \<times> 'o"
  ssl_set_rsa_padding :: "ptr \<Rightarrow> int \<Rightarrow> 'o \<Rightarrow> int \<times> 'o"
  ssl_set_rsa_pss_saltlen :: "ptr \<Rightarrow> int \<Rightarrow> 'o \<Rightarrow> int \<times> 'o"
  ssl_set_rsa_mgf1_md :: "ptr \<Rightarrow> 'o \<Rightarrow> int \<times> 'o"
  ssl_digest_verify_update :: "ptr \<Rightarrow> bytes \<Rightarrow> 'o \<Rightarrow> int \<times> 'o"
  ssl_digest_verify_final :: "ptr \<Rightarrow> bytes \<Rightarrow> 'o \<Rightarrow> int \<times> 'o"
  ssl_md_free :: "ptr \<Rightarrow> 'o \<Rightarrow> 'o"

section \<open>Model: the verifier\<close>

text \<open>A certificate is parsed only when it fills its span.\<close>

definition parse_cert :: "'o openssl \<Rightarrow> byte_span \<Rightarrow> 'o \<Rightarrow> ptr option \<times> 'o" where
  "parse_cert lib der st =
     (if span_null der \<or> span_size der = 0 then (None, st)
      else
        let ((x, used), st) = ssl_d2i_x509 lib (span_bytes der) st
        in case x of
             None \<Rightarrow> (None, st)
           | Some c \<Rightarrow>
               if used \<noteq> span_size der then (None, ssl_x509_free lib c st) else (Some c, st))"

text \<open>The object is its pointer \<open>store_\<close>.\<close>

type_synonym openssl_verifier = "ptr option"

definition openssl_verifier_new :: "'o openssl \<Rightarrow> 'o \<Rightarrow> openssl_verifier \<times> 'o" where
  "openssl_verifier_new lib st = ssl_store_new lib st"

definition openssl_verifier_delete :: "'o openssl \<Rightarrow> openssl_verifier \<Rightarrow> 'o \<Rightarrow> openssl_verifier \<times> 'o" where
  "openssl_verifier_delete lib v st =
     (None, case v of None \<Rightarrow> st | Some s \<Rightarrow> ssl_store_free lib s st)"

definition use_default_trust_store :: "'o openssl \<Rightarrow> openssl_verifier \<Rightarrow> ('o, unit) action" where
  "use_default_trust_store lib v st =
     (case v of
        None \<Rightarrow> (Err XT_ERR_VERIFY, st)
      | Some s \<Rightarrow>
          let (r, st) = ssl_store_set_default_paths lib s st
          in (if r = 1 then Ok () else Err XT_ERR_VERIFY, st))"

definition openssl_add_trust_anchor :: "'o openssl \<Rightarrow> openssl_verifier \<Rightarrow> byte_span \<Rightarrow> ('o, unit) action" where
  "openssl_add_trust_anchor lib v der st =
     (case v of
        None \<Rightarrow> (Err XT_ERR_VERIFY, st)
      | Some s \<Rightarrow>
          let (cert, st) = parse_cert lib der st
          in case cert of
               None \<Rightarrow> (Err XT_ERR_BAD_HANDSHAKE, st)
             | Some c \<Rightarrow>
                 let (ok, st) = ssl_store_add_cert lib s c st;
                     st = ssl_x509_free lib c st
                 in (if ok = 1 then Ok () else Err XT_ERR_VERIFY, st))"

section \<open>Model: the chain\<close>

text \<open>The certificates behind the leaf go to the stack, up to the first that cannot.\<close>

primrec push_certs :: "'o openssl \<Rightarrow> ptr \<Rightarrow> byte_span list \<Rightarrow> 'o \<Rightarrow> bool \<times> 'o" where
  "push_certs lib sk [] st = (True, st)"
| "push_certs lib sk (der # ders) st =
     (let (cert, st) = parse_cert lib der st
      in case cert of
           None \<Rightarrow> (False, st)
         | Some c \<Rightarrow>
             let (r, st) = ssl_sk_push lib sk c st
             in if r = 0 then (False, ssl_x509_free lib c st) else push_certs lib sk ders st)"

text \<open>The context, if one was made, and the value of \<open>ok\<close>.\<close>

definition check_chain :: "'o openssl \<Rightarrow> ptr \<Rightarrow> ptr \<Rightarrow> ptr \<Rightarrow> bytes \<Rightarrow> 'o \<Rightarrow> (ptr option \<times> int) \<times> 'o" where
  "check_chain lib store leaf untrusted hostname st =
     (let (ctx, st) = ssl_ctx_new lib st
      in case ctx of
           None \<Rightarrow> ((ctx, 0), st)
         | Some c \<Rightarrow>
             let (r, st) = ssl_ctx_init lib c store leaf untrusted st
             in if r \<noteq> 1 then ((ctx, 0), st)
                else
                  case ssl_ctx_get0_param lib c st of
                    None \<Rightarrow> ((ctx, 0), st)
                  | Some param \<Rightarrow>
                      let (_, st) = ssl_param_set_purpose lib param X509_PURPOSE_SSL_SERVER st;
                          st = ssl_param_set_hostflags lib param X509_CHECK_FLAG_NO_PARTIAL_WILDCARDS st;
                          (r, st) = ssl_param_set1_host lib param hostname st
                      in if r \<noteq> 1 then ((ctx, 0), st)
                         else let (ok, st) = ssl_verify_cert lib c st in ((ctx, ok), st))"

text \<open>\<open>X509_free\<close> takes the null pointer, too.\<close>

definition pop_cert :: "'o openssl \<Rightarrow> ptr \<Rightarrow> unit \<Rightarrow> ('o, unit + unit) prog" where
  "pop_cert lib untrusted u st =
     (if ssl_sk_num lib untrusted st > 0 then
        let (x, st) = ssl_sk_pop lib untrusted st
        in Some (Ok (Inl ()), case x of None \<Rightarrow> st | Some c \<Rightarrow> ssl_x509_free lib c st)
      else Some (Ok (Inr ()), st))"

definition openssl_verify_chain ::
    "'o openssl \<Rightarrow> openssl_verifier \<Rightarrow> chain_view \<Rightarrow> cstring \<Rightarrow> ('o, unit) prog" where
  "openssl_verify_chain lib v chain hostname st =
     (if v = None \<or> hostname = None \<or> hostname = Some [] \<or> chain = [] then Some (Err XT_ERR_VERIFY, st)
      else
        let (leaf, st) = parse_cert lib (ce_der (hd chain)) st
        in case leaf of
             None \<Rightarrow> Some (Err XT_ERR_BAD_HANDSHAKE, st)
           | Some leaf \<Rightarrow>
               let (untrusted, st) = ssl_sk_new_null lib st
               in case untrusted of
                    None \<Rightarrow> Some (Err XT_ERR_VERIFY, ssl_x509_free lib leaf st)
                  | Some untrusted \<Rightarrow>
                      let (parse_ok, st) = push_certs lib untrusted (map ce_der (tl chain)) st;
                          ((ctx, ok), st) =
                            (if parse_ok then check_chain lib (the v) leaf untrusted (the hostname) st
                             else ((None, 0), st));
                          st = (case ctx of None \<Rightarrow> st | Some c \<Rightarrow> ssl_ctx_free lib c st)
                      in then_prog (loop_prog (pop_cert lib untrusted) ())
                           (\<lambda>st.
                             let st = ssl_sk_free lib untrusted st;
                                 st = ssl_x509_free lib leaf st
                             in Some (if ok = 1 then Ok () else Err XT_ERR_VERIFY, st)) st)"

section \<open>Model: signatures\<close>

definition is_pss :: "signature_scheme \<Rightarrow> bool" where
  "is_pss scheme \<longleftrightarrow> scheme = SIG_RSA_PSS_RSAE_SHA256 \<or> scheme = SIG_RSA_PSS_PSS_SHA256"

definition configure_pss :: "'o openssl \<Rightarrow> ptr option \<Rightarrow> 'o \<Rightarrow> bool \<times> 'o" where
  "configure_pss lib pkctx st =
     (case pkctx of
        None \<Rightarrow> (False, st)
      | Some c \<Rightarrow>
          let (r, st) = ssl_set_rsa_padding lib c RSA_PKCS1_PSS_PADDING st
          in if r \<le> 0 then (False, st)
             else
               let (r, st) = ssl_set_rsa_pss_saltlen lib c 32 st
               in if r \<le> 0 then (False, st)
                  else let (r, st) = ssl_set_rsa_mgf1_md lib c st in (r > 0, st))"

definition check_signature ::
    "'o openssl \<Rightarrow> signature_scheme \<Rightarrow> ptr \<Rightarrow> bytes \<Rightarrow> bytes \<Rightarrow> 'o \<Rightarrow> (ptr option \<times> int) \<times> 'o" where
  "check_signature lib scheme pkey signed_message signature st =
     (let (md, st) = ssl_md_new lib st
      in case md of
           None \<Rightarrow> ((md, 0), st)
         | Some m \<Rightarrow>
             let ((r, pkctx), st) = ssl_digest_verify_init lib m pkey st
             in if r \<noteq> 1 then ((md, 0), st)
                else
                  let (configured, st) = (if is_pss scheme then configure_pss lib pkctx st else (True, st))
                  in if \<not> configured then ((md, 0), st)
                     else
                       let (r, st) = ssl_digest_verify_update lib m signed_message st
                       in if r \<noteq> 1 then ((md, 0), st)
                          else let (ok, st) = ssl_digest_verify_final lib m signature st in ((md, ok), st))"

definition key_fits :: "signature_scheme \<Rightarrow> int \<Rightarrow> bool" where
  "key_fits scheme base \<longleftrightarrow>
     \<not> (scheme = SIG_ECDSA_SECP256R1_SHA256 \<and> base \<noteq> EVP_PKEY_EC
        \<or> is_pss scheme \<and> base \<noteq> EVP_PKEY_RSA \<and> base \<noteq> EVP_PKEY_RSA_PSS)"

definition openssl_verify_signature ::
    "'o openssl \<Rightarrow> signature_scheme \<Rightarrow> x509_view \<Rightarrow> byte_span \<Rightarrow> byte_span \<Rightarrow> ('o, unit) action" where
  "openssl_verify_signature lib scheme leaf signed_message signature st =
     (if span_null (x_der leaf) \<or> span_null signed_message \<or> span_null signature
      then (Err XT_ERR_INVALID_ARGUMENT, st)
      else
        let (cert, st) = parse_cert lib (x_der leaf) st
        in case cert of
             None \<Rightarrow> (Err XT_ERR_BAD_HANDSHAKE, st)
           | Some cert \<Rightarrow>
               let (pkey, st) = ssl_get_pubkey lib cert st
               in case pkey of
                    None \<Rightarrow> (Err XT_ERR_VERIFY, ssl_x509_free lib cert st)
                  | Some pkey \<Rightarrow>
                      if \<not> key_fits scheme (ssl_pkey_base_id lib pkey st)
                      then (Err XT_ERR_VERIFY, ssl_x509_free lib cert (ssl_pkey_free lib pkey st))
                      else
                        let ((md, ok), st) =
                              check_signature lib scheme pkey (span_bytes signed_message) (span_bytes signature) st;
                            st = (case md of None \<Rightarrow> st | Some m \<Rightarrow> ssl_md_free lib m st);
                            st = ssl_pkey_free lib pkey st;
                            st = ssl_x509_free lib cert st
                        in (if ok = 1 then Ok () else Err XT_ERR_VERIFY, st))"

section \<open>The contract of OpenSSL\<close>

text \<open>
  What a check was asked for: the store, the certificates and the parameters of the context; the
  certificate whose key is used, the parameters and the data of a signature.
\<close>

record chain_query =
  cq_default_paths :: bool
  cq_anchors :: "bytes list"
  cq_leaf :: bytes
  cq_untrusted :: "bytes list"
  cq_purpose :: "int option"
  cq_hostflags :: "int option"
  cq_host :: "bytes option"

record signature_query =
  sq_cert :: bytes
  sq_padding :: "int option"
  sq_saltlen :: "int option"
  sq_mgf1_sha256 :: bool
  sq_data :: bytes

text \<open>
  What the caller owns, by pointer. A certificate that was pushed belongs to the stack until it is popped;
  a context holds its query from when it is initialised.
\<close>

datatype resource =
    Store bool "bytes list"
  | Cert bytes
  | Piled bytes
  | Pile "ptr list"
  | Context "chain_query option"
  | Key bytes
  | Digest "signature_query option"

definition makes :: "('o \<Rightarrow> ptr \<rightharpoonup> resource) \<Rightarrow> resource \<Rightarrow> 'o \<Rightarrow> ptr option \<times> 'o \<Rightarrow> bool" where
  "makes owned r st p \<longleftrightarrow>
     (case p of
        (None, st') \<Rightarrow> owned st' = owned st
      | (Some q, st') \<Rightarrow> owned st q = None \<and> owned st' = (owned st)(q \<mapsto> r))"

text \<open>What OpenSSL is asked about a chain. Whether the purpose could be set is not checked.\<close>

definition asks_chain :: "(bool \<times> bytes list) \<Rightarrow> bytes list \<Rightarrow> bytes \<Rightarrow> chain_query \<Rightarrow> bool" where
  "asks_chain store ders host g \<longleftrightarrow>
     (\<exists>p \<in> {None, Some X509_PURPOSE_SSL_SERVER}. g =
       \<lparr>cq_default_paths = fst store, cq_anchors = snd store, cq_leaf = hd ders, cq_untrusted = tl ders,
        cq_purpose = p, cq_hostflags = Some X509_CHECK_FLAG_NO_PARTIAL_WILDCARDS, cq_host = Some host\<rparr>)"

text \<open>What OpenSSL is asked about a signature.\<close>

definition asks_signature :: "signature_scheme \<Rightarrow> bytes \<Rightarrow> bytes \<Rightarrow> signature_query" where
  "asks_signature scheme cert msg =
     \<lparr>sq_cert = cert, sq_padding = (if is_pss scheme then Some RSA_PKCS1_PSS_PADDING else None),
      sq_saltlen = (if is_pss scheme then Some 32 else None), sq_mgf1_sha256 = is_pss scheme, sq_data = msg\<rparr>"

text \<open>The stack holds the certificates \<open>ds\<close>, and \<open>B\<close> is what the caller owns besides.\<close>

definition holds_pile :: "(ptr \<rightharpoonup> resource) \<Rightarrow> ptr \<Rightarrow> ptr list \<Rightarrow> bytes list \<Rightarrow> (ptr \<rightharpoonup> resource) \<Rightarrow> bool" where
  "holds_pile h sk ps ds B \<longleftrightarrow> h sk = Some (Pile ps) \<and> list_all2 (\<lambda>p d. h p = Some (Piled d)) ps ds
     \<and> distinct ps \<and> sk \<notin> set ps \<and> B = h |` (- insert sk (set ps))"

locale openssl_laws =
  fixes lib :: "'o openssl" and owned :: "'o \<Rightarrow> ptr \<rightharpoonup> resource" and owner :: "ptr \<Rightarrow> ptr"
    and chain_ok :: "chain_query \<Rightarrow> bool" and signature_ok :: "signature_query \<Rightarrow> bytes \<Rightarrow> bool"
    and key_id :: "bytes \<Rightarrow> int"
  assumes store_new: "makes owned (Store False []) st (ssl_store_new lib st)"
    and store_free: "owned st s = Some (Store b as) \<Longrightarrow> owned (ssl_store_free lib s st) = (owned st)(s := None)"
    and set_default_paths: "owned st s = Some (Store b as) \<Longrightarrow> ssl_store_set_default_paths lib s st = (r, st') \<Longrightarrow>
      owned st' = (owned st)(s \<mapsto> Store (b \<or> r = 1) as)"
    and add_cert: "owned st s = Some (Store b as) \<Longrightarrow> owned st c = Some (Cert d) \<Longrightarrow>
      ssl_store_add_cert lib s c st = (r, st') \<Longrightarrow>
      owned st' = (owned st)(s \<mapsto> Store b (if r = 1 then d # as else as))"
    and d2i_x509: "ssl_d2i_x509 lib bs st = ((x, used), st') \<Longrightarrow> makes owned (Cert (take used bs)) st (x, st')"
    and x509_free: "owned st c = Some (Cert d) \<Longrightarrow> owned (ssl_x509_free lib c st) = (owned st)(c := None)"
    and sk_new_null: "makes owned (Pile []) st (ssl_sk_new_null lib st)"
    and sk_push: "owned st sk = Some (Pile ps) \<Longrightarrow> owned st c = Some (Cert d) \<Longrightarrow>
      ssl_sk_push lib sk c st = (r, st') \<Longrightarrow>
      owned st' = (if r = 0 then owned st else (owned st)(sk \<mapsto> Pile (ps @ [c]), c \<mapsto> Piled d))"
    and sk_num: "owned st sk = Some (Pile ps) \<Longrightarrow> ssl_sk_num lib sk st = int (length ps)"
    and sk_pop: "owned st sk = Some (Pile (ps @ [c])) \<Longrightarrow> owned st c = Some (Piled d) \<Longrightarrow>
      ssl_sk_pop lib sk st = (x, st') \<Longrightarrow>
      x = Some c \<and> owned st' = (owned st)(sk \<mapsto> Pile ps, c \<mapsto> Cert d)"
    and sk_free: "owned st sk = Some (Pile []) \<Longrightarrow> owned (ssl_sk_free lib sk st) = (owned st)(sk := None)"
    and ctx_new: "makes owned (Context None) st (ssl_ctx_new lib st)"
    and ctx_init: "owned st c = Some (Context None) \<Longrightarrow> owned st s = Some (Store b as) \<Longrightarrow>
      owned st l = Some (Cert d) \<Longrightarrow> owned st sk = Some (Pile ps) \<Longrightarrow>
      list_all2 (\<lambda>p d. owned st p = Some (Piled d)) ps ds \<Longrightarrow>
      ssl_ctx_init lib c s l sk st = (r, st') \<Longrightarrow>
      owned st' = (owned st)(c \<mapsto> Context (if r = 1 then
        Some \<lparr>cq_default_paths = b, cq_anchors = as, cq_leaf = d, cq_untrusted = ds, cq_purpose = None,
          cq_hostflags = None, cq_host = None\<rparr> else None))"
    and ctx_get0_param: "owned st c = Some (Context (Some g)) \<Longrightarrow> ssl_ctx_get0_param lib c st = Some q \<Longrightarrow> owner q = c"
    and set_purpose: "owned st (owner q) = Some (Context (Some g)) \<Longrightarrow> ssl_param_set_purpose lib q v st = (r, st') \<Longrightarrow>
      owned st' = (owned st)(owner q \<mapsto> Context (Some (if r = 1 then g\<lparr>cq_purpose := Some v\<rparr> else g)))"
    and set_hostflags: "owned st (owner q) = Some (Context (Some g)) \<Longrightarrow>
      owned (ssl_param_set_hostflags lib q v st) = (owned st)(owner q \<mapsto> Context (Some (g\<lparr>cq_hostflags := Some v\<rparr>)))"
    and set1_host: "owned st (owner q) = Some (Context (Some g)) \<Longrightarrow> ssl_param_set1_host lib q h st = (r, st') \<Longrightarrow>
      owned st' = (owned st)(owner q \<mapsto> Context (Some (if r = 1 then g\<lparr>cq_host := Some h\<rparr> else g)))"
    and verify_cert: "owned st c = Some (Context (Some g)) \<Longrightarrow> ssl_verify_cert lib c st = (r, st') \<Longrightarrow>
      owned st' = owned st \<and> (r = 1 \<longrightarrow> chain_ok g)"
    and ctx_free: "owned st c = Some (Context gc) \<Longrightarrow> owned (ssl_ctx_free lib c st) = (owned st)(c := None)"
    and get_pubkey: "owned st c = Some (Cert d) \<Longrightarrow> makes owned (Key d) st (ssl_get_pubkey lib c st)"
    and pkey_base_id: "owned st k = Some (Key d) \<Longrightarrow> ssl_pkey_base_id lib k st = key_id d"
    and pkey_free: "owned st k = Some (Key d) \<Longrightarrow> owned (ssl_pkey_free lib k st) = (owned st)(k := None)"
    and md_new: "makes owned (Digest None) st (ssl_md_new lib st)"
    and digest_verify_init: "owned st m = Some (Digest None) \<Longrightarrow> owned st k = Some (Key d) \<Longrightarrow>
      ssl_digest_verify_init lib m k st = ((r, x), st') \<Longrightarrow>
      owned st' = (owned st)(m \<mapsto> Digest (if r = 1 then
        Some \<lparr>sq_cert = d, sq_padding = None, sq_saltlen = None, sq_mgf1_sha256 = False, sq_data = []\<rparr> else None))
      \<and> (r = 1 \<longrightarrow> (\<forall>c. x = Some c \<longrightarrow> owner c = m))"
    and set_rsa_padding: "owned st (owner c) = Some (Digest (Some sg)) \<Longrightarrow> ssl_set_rsa_padding lib c v st = (r, st') \<Longrightarrow>
      owned st' = (owned st)(owner c \<mapsto> Digest (Some (if r > 0 then sg\<lparr>sq_padding := Some v\<rparr> else sg)))"
    and set_rsa_pss_saltlen: "owned st (owner c) = Some (Digest (Some sg)) \<Longrightarrow>
      ssl_set_rsa_pss_saltlen lib c v st = (r, st') \<Longrightarrow>
      owned st' = (owned st)(owner c \<mapsto> Digest (Some (if r > 0 then sg\<lparr>sq_saltlen := Some v\<rparr> else sg)))"
    and set_rsa_mgf1_md: "owned st (owner c) = Some (Digest (Some sg)) \<Longrightarrow> ssl_set_rsa_mgf1_md lib c st = (r, st') \<Longrightarrow>
      owned st' = (owned st)(owner c \<mapsto> Digest (Some (if r > 0 then sg\<lparr>sq_mgf1_sha256 := True\<rparr> else sg)))"
    and digest_verify_update: "owned st m = Some (Digest (Some sg)) \<Longrightarrow> ssl_digest_verify_update lib m bs st = (r, st') \<Longrightarrow>
      owned st' = (owned st)(m \<mapsto> Digest (Some (if r = 1 then sg\<lparr>sq_data := sq_data sg @ bs\<rparr> else sg)))"
    and digest_verify_final: "owned st m = Some (Digest (Some sg)) \<Longrightarrow> ssl_digest_verify_final lib m sig st = (r, st') \<Longrightarrow>
      (\<exists>gd. owned st' = (owned st)(m \<mapsto> Digest gd)) \<and> (r = 1 \<longrightarrow> signature_ok sg sig)"
    and md_free: "owned st m = Some (Digest gd) \<Longrightarrow> owned (ssl_md_free lib m st) = (owned st)(m := None)"
begin

lemma parse_cert_owned:
  "parse_cert lib der st = (x, st') \<Longrightarrow> makes owned (Cert (span_bytes der)) st (x, st')"
  using d2i_x509 [of "span_bytes der" st] x509_free
  by (cases der) (fastforce simp: parse_cert_def makes_def Let_def split: if_splits prod.splits option.splits)+

lemmas parse_cert_cases = parse_cert_owned [unfolded makes_def, simplified]

lemma holds_pile_base: "holds_pile h sk ps ds B \<Longrightarrow> B q = Some r \<Longrightarrow> h q = Some r"
  by (auto simp: holds_pile_def restrict_map_def split: if_splits)

lemma holds_pile_other:
  "holds_pile h sk ps ds B \<Longrightarrow> h q = None \<Longrightarrow> holds_pile (h(q := r)) sk ps ds (B(q := r))"
  unfolding holds_pile_def
  by (auto simp: restrict_map_def fun_eq_iff elim!: list.rel_mono_strong) (auto simp: list_all2_conv_all_nth in_set_conv_nth)

lemma push_cert_owned:
  assumes h: "holds_pile (owned st) sk ps ds B" and c: "owned st c = None"
    and st1: "owned st1 = (owned st)(c \<mapsto> Cert d)" and run: "ssl_sk_push lib sk c st1 = (r, st2)"
  shows "if r = 0 then owned (ssl_x509_free lib c st2) = owned st
    else holds_pile (owned st2) sk (ps @ [c]) (ds @ [d]) B"
proof -
  from h c have sk: "owned st sk = Some (Pile ps)" "sk \<noteq> c" "c \<notin> set ps"
    by (auto simp: holds_pile_def list_all2_conv_all_nth in_set_conv_nth)
  then have 2: "owned st2 = (if r = 0 then owned st1 else (owned st1)(sk \<mapsto> Pile (ps @ [c]), c \<mapsto> Piled d))"
    using sk_push [OF _ _ run, of ps d] st1 by simp
  show ?thesis
  proof (cases "r = 0")
    case True
    with 2 st1 c x509_free [of st2 c d] show ?thesis by (simp add: fun_upd_idem)
  next
    case False
    have "list_all2 (\<lambda>p d. owned st2 p = Some (Piled d)) ps ds"
      using h sk 2 False st1 unfolding holds_pile_def by (auto elim!: list.rel_mono_strong)
    with h sk 2 False st1 c show ?thesis
      by (auto simp: holds_pile_def list_all2_appendI restrict_map_def fun_eq_iff)
  qed
qed

lemma push_certs_owned:
  assumes "holds_pile (owned st) sk ps ds B" and "push_certs lib sk ders st = (ok, st')"
  shows "\<exists>qs es. holds_pile (owned st') sk qs es B \<and> (ok \<longrightarrow> es = ds @ map span_bytes ders)"
  using assms
proof (induction ders arbitrary: st ps ds)
  case Nil
  then show ?case by auto
next
  case (Cons der ders)
  obtain cert st1 where p: "parse_cert lib der st = (cert, st1)" by fastforce
  show ?case
  proof (cases cert)
    case None
    with p Cons.prems parse_cert_cases [OF p] show ?thesis by auto
  next
    case (Some c)
    with parse_cert_cases [OF p] have 1: "owned st c = None" "owned st1 = (owned st)(c \<mapsto> Cert (span_bytes der))" by auto
    obtain r st2 where r: "ssl_sk_push lib sk c st1 = (r, st2)" by fastforce
    note push = push_cert_owned [OF Cons.prems(1) 1 r]
    show ?thesis
    proof (cases "r = 0")
      case True
      with Cons.prems push p Some r show ?thesis by auto
    next
      case False
      with push Cons.IH [of st2 "ps @ [c]" "ds @ [span_bytes der]"] Cons.prems(2) p Some r show ?thesis by auto
    qed
  qed
qed

text \<open>The loop that empties the stack ends and releases every certificate in it.\<close>

lemma pop_certs_owned:
  assumes "holds_pile (owned st) sk ps ds B"
  shows "\<exists>st'. loop_prog (pop_cert lib sk) () st = Some (Ok (), st') \<and> owned (ssl_sk_free lib sk st') = B"
  using assms
proof (induction ps arbitrary: st ds rule: rev_induct)
  case Nil
  then have "owned st sk = Some (Pile [])" "B = (owned st)(sk := None)"
    by (auto simp: holds_pile_def restrict_map_def)
  moreover from this(1) have "pop_cert lib sk () st = Some (Ok (Inr ()), st)" using sk_num [of st sk] by (simp add: pop_cert_def)
  ultimately show ?case using sk_free [of st sk] by (simp add: loop_prog.simps fun_upd_def)
next
  case (snoc c ps)
  from snoc.prems obtain es d where ds: "ds = es @ [d]" by (auto simp: holds_pile_def list_all2_append1 list_all2_Cons1)
  with snoc.prems have h: "owned st sk = Some (Pile (ps @ [c]))" "owned st c = Some (Piled d)"
    "list_all2 (\<lambda>p d. owned st p = Some (Piled d)) ps es" "c \<notin> set ps" "c \<noteq> sk" "sk \<notin> set ps" "distinct ps"
    by (auto simp: holds_pile_def dest: list_all2_lengthD elim: list_all2_append1 [THEN iffD1, elim_format])
  obtain x st1 where x: "ssl_sk_pop lib sk st = (x, st1)" by fastforce
  with sk_pop [OF h(1,2)] have 1: "x = Some c" "owned st1 = (owned st)(sk \<mapsto> Pile ps, c \<mapsto> Cert d)" by auto
  define st2 where "st2 = ssl_x509_free lib c st1"
  have 2: "owned st2 = (owned st)(sk \<mapsto> Pile ps, c := None)" using x509_free [of st1 c d] 1 by (simp add: st2_def)
  have "pop_cert lib sk () st = Some (Ok (Inl ()), st2)"
    using sk_num [OF h(1)] x 1 by (simp add: pop_cert_def st2_def)
  moreover have "holds_pile (owned st2) sk ps es B"
    using snoc.prems 2 h by (auto simp: holds_pile_def restrict_map_def fun_eq_iff elim!: list.rel_mono_strong)
  ultimately show ?case using snoc.IH by (simp add: loop_prog.simps)
qed

lemma check_chain_owned:
  assumes h: "holds_pile (owned st) sk ps ds B" and s: "B s = Some (Store b as)" and l: "B l = Some (Cert d)"
    and run: "check_chain lib s l sk host st = ((ctx, ok), st')"
  shows "holds_pile (owned (case ctx of None \<Rightarrow> st' | Some c \<Rightarrow> ssl_ctx_free lib c st')) sk ps ds B
    \<and> (ok = 1 \<longrightarrow> (\<exists>g. asks_chain (b, as) (d # ds) host g \<and> chain_ok g))"
proof -
  obtain c0 st1 where n: "ssl_ctx_new lib st = (c0, st1)" by fastforce
  show ?thesis
  proof (cases c0)
    case None
    with n run ctx_new [of st] h show ?thesis by (auto simp: check_chain_def makes_def)
  next
    case (Some c)
    with n ctx_new [of st] have c: "owned st c = None" "owned st1 = (owned st)(c \<mapsto> Context None)" by (simp_all add: makes_def)
    have keep: "holds_pile (owned (ssl_ctx_free lib c t)) sk ps ds B"
      if "owned t = (owned st)(c \<mapsto> Context gc)" for t gc
      using ctx_free [of t c gc] that h c(1) by (simp add: fun_upd_idem)
    have old: "owned st s = Some (Store b as)" "owned st l = Some (Cert d)" "owned st sk = Some (Pile ps)"
      "list_all2 (\<lambda>p d. owned st p = Some (Piled d)) ps ds"
      using holds_pile_base [OF h] s l h by (auto simp: holds_pile_def)
    then have old1: "owned st1 s = Some (Store b as)" "owned st1 l = Some (Cert d)" "owned st1 sk = Some (Pile ps)"
      "list_all2 (\<lambda>p d. owned st1 p = Some (Piled d)) ps ds"
      using c by (auto elim!: list.rel_mono_strong)
    obtain r st2 where i: "ssl_ctx_init lib c s l sk st1 = (r, st2)" by fastforce
    define g0 where "g0 = \<lparr>cq_default_paths = b, cq_anchors = as, cq_leaf = d, cq_untrusted = ds, cq_purpose = None,
      cq_hostflags = None, cq_host = None\<rparr>"
    have 2: "owned st2 = (owned st)(c \<mapsto> Context (if r = 1 then Some g0 else None))"
      using ctx_init [OF _ old1 i] c by (simp add: g0_def)
    show ?thesis
    proof (cases "r = 1 \<and> ssl_ctx_get0_param lib c st2 \<noteq> None")
      case False
      with run n Some i keep [OF 2] show ?thesis by (auto simp: check_chain_def Let_def split: option.splits)
    next
      case True
      then obtain q where q: "ssl_ctx_get0_param lib c st2 = Some q" "owner q = c" and r: "r = 1"
        using ctx_get0_param [of st2 c g0] 2 by fastforce
      obtain r3 st3 where p: "ssl_param_set_purpose lib q X509_PURPOSE_SSL_SERVER st2 = (r3, st3)" by fastforce
      define st4 where "st4 = ssl_param_set_hostflags lib q X509_CHECK_FLAG_NO_PARTIAL_WILDCARDS st3"
      obtain r5 st5 where f: "ssl_param_set1_host lib q host st4 = (r5, st5)" by fastforce
      define g3 where "g3 = (if r3 = 1 then g0\<lparr>cq_purpose := Some X509_PURPOSE_SSL_SERVER\<rparr> else g0)"
      define g4 where "g4 = g3\<lparr>cq_hostflags := Some X509_CHECK_FLAG_NO_PARTIAL_WILDCARDS\<rparr>"
      define g5 where "g5 = (if r5 = 1 then g4\<lparr>cq_host := Some host\<rparr> else g4)"
      have 3: "owned st3 = (owned st)(c \<mapsto> Context (Some g3))"
        using set_purpose [OF _ p, of g0] 2 q r by (simp add: g3_def)
      then have 4: "owned st4 = (owned st)(c \<mapsto> Context (Some g4))"
        using set_hostflags [of st3 q g3] q by (simp add: g4_def st4_def)
      then have 5: "owned st5 = (owned st)(c \<mapsto> Context (Some g5))"
        using set1_host [OF _ f, of g4] q by (simp add: g5_def)
      show ?thesis
      proof (cases "r5 = 1")
        case False
        with run n Some i r q p f st4_def keep [OF 5] show ?thesis by (auto simp: check_chain_def Let_def)
      next
        case True
        obtain ok6 st6 where v: "ssl_verify_cert lib c st5 = (ok6, st6)" by fastforce
        from verify_cert [OF _ this, of g5] 5 have 6: "owned st6 = (owned st)(c \<mapsto> Context (Some g5))" "ok6 = 1 \<longrightarrow> chain_ok g5"
          by simp_all
        have "ctx = Some c" "ok = ok6" "st' = st6"
          using run n Some i r q p f st4_def v True by (simp_all add: check_chain_def Let_def)
        moreover have "asks_chain (b, as) (d # ds) host g5"
          using True by (simp add: asks_chain_def g5_def g4_def g3_def g0_def)
        ultimately show ?thesis using 6 keep [OF 6(1)] by auto
      qed
    qed
  qed
qed

lemma openssl_verify_chain_owned:
  assumes "v = None \<or> (\<exists>s b as. v = Some s \<and> owned st s = Some (Store b as))"
  shows "\<exists>r st'. openssl_verify_chain lib v chain hostname st = Some (r, st') \<and> r \<noteq> UB \<and> owned st' = owned st
    \<and> (r = Ok () \<longrightarrow> (\<exists>s b as host g. v = Some s \<and> owned st s = Some (Store b as) \<and> hostname = Some host \<and> host \<noteq> []
         \<and> chain \<noteq> [] \<and> asks_chain (b, as) (map (\<lambda>en. span_bytes (ce_der en)) chain) host g \<and> chain_ok g))"
proof (cases "v = None \<or> hostname = None \<or> hostname = Some [] \<or> chain = []")
  case True
  then show ?thesis by (simp add: openssl_verify_chain_def)
next
  case False
  then obtain s b as host where v: "v = Some s" "owned st s = Some (Store b as)" "hostname = Some host" "host \<noteq> []" "chain \<noteq> []"
    using assms by auto
  obtain leaf st1 where p: "parse_cert lib (ce_der (hd chain)) st = (leaf, st1)" by fastforce
  show ?thesis
  proof (cases leaf)
    case None
    with p False parse_cert_cases [OF p] show ?thesis by (simp add: openssl_verify_chain_def)
  next
    case (Some l)
    define d where "d = span_bytes (ce_der (hd chain))"
    from Some parse_cert_cases [OF p] have 1: "owned st l = None" "owned st1 = (owned st)(l \<mapsto> Cert d)" by (auto simp: d_def)
    have free_l: "owned (ssl_x509_free lib l t) = owned st" if "owned t = owned st1" for t
      using x509_free [of t l d] that 1 by (simp add: fun_upd_idem)
    obtain u st2 where u: "ssl_sk_new_null lib st1 = (u, st2)" by fastforce
    show ?thesis
    proof (cases u)
      case None
      with u sk_new_null [of st1] have "owned st2 = owned st1" by (simp add: makes_def)
      with free_l p Some False u None show ?thesis by (simp add: openssl_verify_chain_def)
    next
      case (Some sk)
      with u sk_new_null [of st1] have 2: "owned st1 sk = None" "owned st2 = (owned st1)(sk \<mapsto> Pile [])" by (simp_all add: makes_def)
      then have "holds_pile (owned st2) sk [] [] (owned st1)" by (auto simp: holds_pile_def restrict_map_def fun_eq_iff)
      moreover obtain ok st3 where push: "push_certs lib sk (map ce_der (tl chain)) st2 = (ok, st3)" by fastforce
      ultimately obtain qs es where 3: "holds_pile (owned st3) sk qs es (owned st1)"
        "ok \<longrightarrow> es = map (\<lambda>en. span_bytes (ce_der en)) (tl chain)"
        using push_certs_owned [of st2 sk "[]" "[]" "owned st1" "map ce_der (tl chain)" ok st3] by (auto simp: comp_def)
      obtain ctx k st4 where check: "(if ok then check_chain lib s l sk host st3 else ((None, 0), st3)) = ((ctx, k), st4)"
        by (metis prod.collapse)
      define st5 where "st5 = (case ctx of None \<Rightarrow> st4 | Some c \<Rightarrow> ssl_ctx_free lib c st4)"
      have base: "owned st1 s = Some (Store b as)" "owned st1 l = Some (Cert d)" using 1 v(2) by auto
      have 5: "holds_pile (owned st5) sk qs es (owned st1)
        \<and> (k = 1 \<longrightarrow> ok \<and> (\<exists>g. asks_chain (b, as) (d # es) host g \<and> chain_ok g))"
        using check check_chain_owned [OF 3(1) base, of host ctx k st4] 3(1) by (auto simp: st5_def split: if_splits)
      then obtain st6 where 6: "loop_prog (pop_cert lib sk) () st5 = Some (Ok (), st6)" "owned (ssl_sk_free lib sk st6) = owned st1"
        using pop_certs_owned by blast
      have run: "openssl_verify_chain lib v chain hostname st =
          Some (if k = 1 then Ok () else Err XT_ERR_VERIFY, ssl_x509_free lib l (ssl_sk_free lib sk st6))"
        using False p \<open>leaf = Some l\<close> u Some push check v 6(1)
        by (cases ok) (auto simp: openssl_verify_chain_def st5_def then_prog_def bind_prog_def)
      have "map (\<lambda>en. span_bytes (ce_der en)) chain = d # map (\<lambda>en. span_bytes (ce_der en)) (tl chain)"
        using v(5) by (cases chain) (simp_all add: d_def)
      then have "\<exists>g. asks_chain (b, as) (map (\<lambda>en. span_bytes (ce_der en)) chain) host g \<and> chain_ok g" if "k = 1"
        using 5 3(2) that by simp
      then have "k = 1 \<longrightarrow> (\<exists>s b as host g. v = Some s \<and> owned st s = Some (Store b as) \<and> hostname = Some host \<and> host \<noteq> []
         \<and> chain \<noteq> [] \<and> asks_chain (b, as) (map (\<lambda>en. span_bytes (ce_der en)) chain) host g \<and> chain_ok g)"
        using v by blast
      then show ?thesis
        unfolding run using free_l [OF 6(2)]
        by (intro exI [of _ "if k = 1 then Ok () else Err XT_ERR_VERIFY"] exI [of _ "ssl_x509_free lib l (ssl_sk_free lib sk st6)"])
          (simp split: if_splits)
    qed
  qed
qed

lemma configure_pss_owned:
  assumes m: "owned st m = Some (Digest (Some g))" and c: "\<forall>c. pkctx = Some c \<longrightarrow> owner c = m"
    and run: "configure_pss lib pkctx st = (ok, st')"
  shows "\<exists>g'. owned st' = (owned st)(m \<mapsto> Digest (Some g'))
    \<and> (ok \<longrightarrow> g' = g\<lparr>sq_padding := Some RSA_PKCS1_PSS_PADDING, sq_saltlen := Some 32, sq_mgf1_sha256 := True\<rparr>)"
proof (cases pkctx)
  case None
  with run m show ?thesis by (auto simp: configure_pss_def intro!: exI [of _ g])
next
  case (Some c)
  with c have c: "owner c = m" by blast
  obtain r1 st1 where 1: "ssl_set_rsa_padding lib c RSA_PKCS1_PSS_PADDING st = (r1, st1)" by fastforce
  obtain r2 st2 where 2: "ssl_set_rsa_pss_saltlen lib c 32 st1 = (r2, st2)" by fastforce
  obtain r3 st3 where 3: "ssl_set_rsa_mgf1_md lib c st2 = (r3, st3)" by fastforce
  note o1 = set_rsa_padding [OF _ 1, unfolded c, OF m]
  note o2 = set_rsa_pss_saltlen [OF _ 2, unfolded c]
  note o3 = set_rsa_mgf1_md [OF _ 3, unfolded c]
  show ?thesis
    using run Some 1 2 3 o1 o2 o3 by (auto simp: configure_pss_def Let_def split: if_splits)
qed

lemma check_signature_owned:
  assumes k: "owned st k = Some (Key d)" and run: "check_signature lib scheme k msg sig st = ((md, ok), st')"
  shows "owned (case md of None \<Rightarrow> st' | Some m \<Rightarrow> ssl_md_free lib m st') = owned st
    \<and> (ok = 1 \<longrightarrow> signature_ok (asks_signature scheme d msg) sig)"
proof -
  obtain m0 st1 where n: "ssl_md_new lib st = (m0, st1)" by fastforce
  show ?thesis
  proof (cases m0)
    case None
    with n run md_new [of st] show ?thesis by (auto simp: check_signature_def makes_def)
  next
    case (Some m)
    with n md_new [of st] have m: "owned st m = None" "owned st1 = (owned st)(m \<mapsto> Digest None)" by (simp_all add: makes_def)
    have keep: "owned (ssl_md_free lib m t) = owned st" if "owned t = (owned st)(m \<mapsto> Digest gd)" for t gd
      using md_free [of t m gd] that m(1) by (simp add: fun_upd_idem)
    obtain r x st2 where i: "ssl_digest_verify_init lib m k st1 = ((r, x), st2)" by (metis prod.collapse)
    define g0 where "g0 = \<lparr>sq_cert = d, sq_padding = None, sq_saltlen = None, sq_mgf1_sha256 = False, sq_data = []\<rparr>"
    have 2: "owned st2 = (owned st)(m \<mapsto> Digest (if r = 1 then Some g0 else None))" "r = 1 \<longrightarrow> (\<forall>c. x = Some c \<longrightarrow> owner c = m)"
    proof -
      have "owned st1 k = Some (Key d)" "owned st1 m = Some (Digest None)" using m k by auto
      from digest_verify_init [OF this(2,1) i] m show "owned st2 = (owned st)(m \<mapsto> Digest (if r = 1 then Some g0 else None))"
        "r = 1 \<longrightarrow> (\<forall>c. x = Some c \<longrightarrow> owner c = m)" by (auto simp: g0_def)
    qed
    show ?thesis
    proof (cases "r = 1")
      case False
      with run n Some i keep [OF 2(1)] show ?thesis by (auto simp: check_signature_def)
    next
      case r: True
      obtain ok3 st3 where conf: "(if is_pss scheme then configure_pss lib x st2 else (True, st2)) = (ok3, st3)" by fastforce
      obtain g3 where 3: "owned st3 = (owned st)(m \<mapsto> Digest (Some g3))" "ok3 \<longrightarrow> g3\<lparr>sq_data := msg\<rparr> = asks_signature scheme d msg"
        "ok3 \<longrightarrow> sq_data g3 = []"
      proof (cases "is_pss scheme")
        case True
        then have conf': "configure_pss lib x st2 = (ok3, st3)" using conf by simp
        from 2 r have "owned st2 m = Some (Digest (Some g0))" "\<forall>c. x = Some c \<longrightarrow> owner c = m" by simp_all
        from configure_pss_owned [OF this conf'] 2 r True that show ?thesis
          by (auto simp: asks_signature_def g0_def)
      next
        case False
        with conf 2 r that show ?thesis by (auto simp: asks_signature_def g0_def)
      qed
      show ?thesis
      proof (cases ok3)
        case False
        with run n Some i r conf keep [OF 3(1)] show ?thesis by (auto simp: check_signature_def)
      next
        case ok3: True
        obtain r4 st4 where u: "ssl_digest_verify_update lib m msg st3 = (r4, st4)" by fastforce
        define g4 where "g4 = (if r4 = 1 then g3\<lparr>sq_data := sq_data g3 @ msg\<rparr> else g3)"
        have 4: "owned st4 = (owned st)(m \<mapsto> Digest (Some g4))"
          using digest_verify_update [OF _ u, of g3] 3(1) by (simp add: g4_def)
        show ?thesis
        proof (cases "r4 = 1")
          case False
          with run n Some i r conf ok3 u keep [OF 4] show ?thesis by (auto simp: check_signature_def)
        next
          case True
          obtain ok5 st5 where f: "ssl_digest_verify_final lib m sig st4 = (ok5, st5)" by fastforce
          obtain gd where 5: "owned st5 = (owned st)(m \<mapsto> Digest gd)" "ok5 = 1 \<longrightarrow> signature_ok g4 sig"
            using digest_verify_final [OF _ f, of g4] 4 by auto
          have "md = Some m" "ok = ok5" "st' = st5"
            using run n Some i r conf ok3 u True f by (auto simp: check_signature_def)
          with keep [OF 5(1)] 5(2) 3(2,3) True ok3 show ?thesis by (auto simp: g4_def)
        qed
      qed
    qed
  qed
qed

lemma openssl_verify_signature_owned:
  assumes run: "openssl_verify_signature lib scheme leaf msg sig st = (r, st')"
  shows "r \<noteq> UB \<and> owned st' = owned st \<and> (r = Ok () \<longrightarrow>
    signature_ok (asks_signature scheme (span_bytes (x_der leaf)) (span_bytes msg)) (span_bytes sig)
    \<and> key_fits scheme (key_id (span_bytes (x_der leaf))))"
proof (cases "span_null (x_der leaf) \<or> span_null msg \<or> span_null sig")
  case True
  with run show ?thesis by (auto simp: openssl_verify_signature_def)
next
  case nonnull: False
  define d where "d = span_bytes (x_der leaf)"
  obtain cert st1 where p: "parse_cert lib (x_der leaf) st = (cert, st1)" by fastforce
  show ?thesis
  proof (cases cert)
    case None
    with run nonnull p parse_cert_cases [OF p] show ?thesis by (auto simp: openssl_verify_signature_def)
  next
    case (Some c)
    from Some parse_cert_cases [OF p] have 1: "owned st c = None" "owned st1 = (owned st)(c \<mapsto> Cert d)" by (auto simp: d_def)
    have free_c: "owned (ssl_x509_free lib c t) = owned st" if "owned t = owned st1" for t
      using x509_free [of t c d] that 1 by (simp add: fun_upd_idem)
    obtain key st2 where g: "ssl_get_pubkey lib c st1 = (key, st2)" by fastforce
    note made = get_pubkey [of st1 c d] 
    show ?thesis
    proof (cases key)
      case None
      with made g 1 have "owned st2 = owned st1" by (simp add: makes_def)
      with run nonnull p Some g None free_c show ?thesis by (auto simp: openssl_verify_signature_def)
    next
      case k: (Some k)
      with made g 1 have 2: "owned st1 k = None" "owned st2 = (owned st1)(k \<mapsto> Key d)" by (simp_all add: makes_def)
      have free_k: "owned (ssl_x509_free lib c (ssl_pkey_free lib k t)) = owned st" if "owned t = owned st2" for t
      proof -
        have "owned (ssl_pkey_free lib k t) = owned st1"
          using pkey_free [of t k d] that 2 by (simp add: fun_upd_idem)
        then show ?thesis by (rule free_c)
      qed
      have id: "ssl_pkey_base_id lib k st2 = key_id d" using pkey_base_id [of st2 k d] 2 by simp
      show ?thesis
      proof (cases "key_fits scheme (key_id d)")
        case False
        with run nonnull p Some g k id free_k [OF refl] show ?thesis by (auto simp: openssl_verify_signature_def)
      next
        case fits: True
        obtain md ok st3 where ch: "check_signature lib scheme k (span_bytes msg) (span_bytes sig) st2 = ((md, ok), st3)"
          by (metis prod.collapse)
        from 2 have "owned st2 k = Some (Key d)" by simp
        from check_signature_owned [OF this ch]
        have 3: "owned (case md of None \<Rightarrow> st3 | Some m \<Rightarrow> ssl_md_free lib m st3) = owned st2"
          "ok = 1 \<longrightarrow> signature_ok (asks_signature scheme d (span_bytes msg)) (span_bytes sig)" by simp_all
        with run nonnull p Some g k id fits ch free_k [OF 3(1)] show ?thesis
          unfolding openssl_verify_signature_def by (auto simp: d_def split: if_splits)
      qed
    qed
  qed
qed

text \<open>The trust store: what was added is what OpenSSL took, and the store is released with the object.\<close>

lemma openssl_add_trust_anchor_owned:
  assumes "owned st s = Some (Store b as)" and run: "openssl_add_trust_anchor lib (Some s) der st = (r, st')"
  shows "r \<noteq> UB \<and> owned st' = (owned st)(s \<mapsto> Store b (if r = Ok () then span_bytes der # as else as))"
proof -
  obtain cert st1 where p: "parse_cert lib der st = (cert, st1)" by fastforce
  show ?thesis
  proof (cases cert)
    case None
    with run p parse_cert_cases [OF p] assms(1) show ?thesis by (auto simp: openssl_add_trust_anchor_def fun_upd_idem)
  next
    case (Some c)
    from Some parse_cert_cases [OF p] have 1: "owned st c = None" "owned st1 = (owned st)(c \<mapsto> Cert (span_bytes der))" by auto
    then have sc: "s \<noteq> c" using assms(1) by auto
    obtain ok st2 where a: "ssl_store_add_cert lib s c st1 = (ok, st2)" by fastforce
    have 2: "owned st2 = (owned st1)(s \<mapsto> Store b (if ok = 1 then span_bytes der # as else as))"
      using add_cert [OF _ _ a] 1 sc assms(1) by simp
    then have "owned (ssl_x509_free lib c st2) = (owned st)(s \<mapsto> Store b (if ok = 1 then span_bytes der # as else as))"
      using x509_free [of st2 c "span_bytes der"] 1 sc by (auto simp: fun_eq_iff)
    with run p Some a show ?thesis by (auto simp: openssl_add_trust_anchor_def Let_def)
  qed
qed

lemma openssl_verifier_lifetime:
  assumes "openssl_verifier_new lib st = (v, st1)"
    and "owned st2 = (case v of None \<Rightarrow> owned st1 | Some s \<Rightarrow> (owned st1)(s \<mapsto> Store b as))"
  shows "owned (snd (openssl_verifier_delete lib v st2)) = owned st"
proof (cases v)
  case None
  with assms store_new [of st] show ?thesis by (simp add: openssl_verifier_new_def openssl_verifier_delete_def makes_def)
next
  case (Some s)
  with assms store_new [of st] have "owned st s = None" "owned st2 = (owned st)(s \<mapsto> Store b as)"
    by (simp_all add: openssl_verifier_new_def makes_def)
  with Some store_free [of st2 s b as] show ?thesis by (simp add: openssl_verifier_delete_def fun_upd_idem)
qed

end

section \<open>A library that keeps the contract\<close>

text \<open>
  The state is the table of objects; a pointer is a place in it. Every byte string is a certificate; a
  chain is accepted when its leaf is an anchor, and a signature when it is the message.
\<close>

type_synonym ledger = "resource option list"

definition ledger_owned :: "ledger \<Rightarrow> ptr \<rightharpoonup> resource" where
  "ledger_owned st p = (if p < length st then st ! p else None)"

definition ledger_new :: "resource \<Rightarrow> ledger \<Rightarrow> ptr option \<times> ledger" where
  "ledger_new r st = (Some (length st), st @ [Some r])"

definition ledger_free :: "ptr \<Rightarrow> ledger \<Rightarrow> ledger" where
  "ledger_free p st = st[p := None]"

definition ledger_add_cert :: "ptr \<Rightarrow> ptr \<Rightarrow> ledger \<Rightarrow> int \<times> ledger" where
  "ledger_add_cert s c st =
     (case (ledger_owned st s, ledger_owned st c) of
        (Some (Store b as), Some (Cert d)) \<Rightarrow> (1, st[s := Some (Store b (d # as))])
      | _ \<Rightarrow> (0, st))"

definition ledger_push :: "ptr \<Rightarrow> ptr \<Rightarrow> ledger \<Rightarrow> int \<times> ledger" where
  "ledger_push sk c st =
     (case (ledger_owned st sk, ledger_owned st c) of
        (Some (Pile ps), Some (Cert d)) \<Rightarrow> (int (length ps + 1), st[sk := Some (Pile (ps @ [c])), c := Some (Piled d)])
      | _ \<Rightarrow> (0, st))"

definition ledger_num :: "ptr \<Rightarrow> ledger \<Rightarrow> int" where
  "ledger_num sk st = (case ledger_owned st sk of Some (Pile ps) \<Rightarrow> int (length ps) | _ \<Rightarrow> - 1)"

definition ledger_pop :: "ptr \<Rightarrow> ledger \<Rightarrow> ptr option \<times> ledger" where
  "ledger_pop sk st =
     (case ledger_owned st sk of
        Some (Pile ps) \<Rightarrow>
          if ps = [] then (None, st)
          else (case ledger_owned st (last ps) of
                  Some (Piled d) \<Rightarrow> (Some (last ps), st[sk := Some (Pile (butlast ps)), last ps := Some (Cert d)])
                | _ \<Rightarrow> (None, st))
      | _ \<Rightarrow> (None, st))"

definition ledger_piled :: "ledger \<Rightarrow> ptr \<Rightarrow> bytes" where
  "ledger_piled st p = (case ledger_owned st p of Some (Piled d) \<Rightarrow> d | _ \<Rightarrow> [])"

definition ledger_init :: "ptr \<Rightarrow> ptr \<Rightarrow> ptr \<Rightarrow> ptr \<Rightarrow> ledger \<Rightarrow> int \<times> ledger" where
  "ledger_init c s l sk st =
     (case (ledger_owned st s, ledger_owned st l, ledger_owned st sk) of
        (Some (Store b as), Some (Cert d), Some (Pile ps)) \<Rightarrow>
          (1, st[c := Some (Context (Some \<lparr>cq_default_paths = b, cq_anchors = as, cq_leaf = d,
             cq_untrusted = map (ledger_piled st) ps, cq_purpose = None, cq_hostflags = None, cq_host = None\<rparr>))])
      | _ \<Rightarrow> (0, st))"

definition ledger_context :: "(chain_query \<Rightarrow> chain_query) \<Rightarrow> ptr \<Rightarrow> ledger \<Rightarrow> int \<times> ledger" where
  "ledger_context f c st =
     (case ledger_owned st c of
        Some (Context (Some g)) \<Rightarrow> (1, st[c := Some (Context (Some (f g)))])
      | _ \<Rightarrow> (0, st))"

definition ledger_chain_ok :: "chain_query \<Rightarrow> bool" where
  "ledger_chain_ok g \<longleftrightarrow> cq_leaf g \<in> set (cq_anchors g) \<and> cq_host g \<noteq> None"

definition ledger_verify_cert :: "ptr \<Rightarrow> ledger \<Rightarrow> int \<times> ledger" where
  "ledger_verify_cert c st =
     (case ledger_owned st c of
        Some (Context (Some g)) \<Rightarrow> (if ledger_chain_ok g then 1 else 0, st)
      | _ \<Rightarrow> (- 1, st))"

definition ledger_pubkey :: "ptr \<Rightarrow> ledger \<Rightarrow> ptr option \<times> ledger" where
  "ledger_pubkey c st = (case ledger_owned st c of Some (Cert d) \<Rightarrow> ledger_new (Key d) st | _ \<Rightarrow> (None, st))"

definition ledger_verify_init :: "ptr \<Rightarrow> ptr \<Rightarrow> ledger \<Rightarrow> (int \<times> ptr option) \<times> ledger" where
  "ledger_verify_init m k st =
     (case ledger_owned st k of
        Some (Key d) \<Rightarrow> ((1, Some m), st[m := Some (Digest (Some \<lparr>sq_cert = d, sq_padding = None,
          sq_saltlen = None, sq_mgf1_sha256 = False, sq_data = []\<rparr>))])
      | _ \<Rightarrow> ((0, None), st))"

definition ledger_digest :: "(signature_query \<Rightarrow> signature_query) \<Rightarrow> ptr \<Rightarrow> ledger \<Rightarrow> int \<times> ledger" where
  "ledger_digest f m st =
     (case ledger_owned st m of
        Some (Digest (Some g)) \<Rightarrow> (1, st[m := Some (Digest (Some (f g)))])
      | _ \<Rightarrow> (0, st))"

definition ledger_signature_ok :: "signature_query \<Rightarrow> bytes \<Rightarrow> bool" where
  "ledger_signature_ok g sig \<longleftrightarrow> sig = sq_data g"

definition ledger_verify_final :: "ptr \<Rightarrow> bytes \<Rightarrow> ledger \<Rightarrow> int \<times> ledger" where
  "ledger_verify_final m sig st =
     (case ledger_owned st m of
        Some (Digest (Some g)) \<Rightarrow> (if ledger_signature_ok g sig then 1 else 0, st)
      | _ \<Rightarrow> (- 1, st))"

definition ledger_library :: "ledger openssl" where
  "ledger_library =
     \<lparr>ssl_store_new = ledger_new (Store False []), ssl_store_free = ledger_free,
      ssl_store_set_default_paths = (\<lambda>s st. (0, st)), ssl_store_add_cert = ledger_add_cert,
      ssl_d2i_x509 = (\<lambda>bs st. let (x, st) = ledger_new (Cert bs) st in ((x, length bs), st)),
      ssl_x509_free = ledger_free, ssl_sk_new_null = ledger_new (Pile []), ssl_sk_push = ledger_push,
      ssl_sk_num = ledger_num, ssl_sk_pop = ledger_pop, ssl_sk_free = ledger_free,
      ssl_ctx_new = ledger_new (Context None), ssl_ctx_init = ledger_init,
      ssl_ctx_get0_param = (\<lambda>c st. Some c),
      ssl_param_set_purpose = (\<lambda>c v. ledger_context (\<lambda>g. g\<lparr>cq_purpose := Some v\<rparr>) c),
      ssl_param_set_hostflags = (\<lambda>c v st. snd (ledger_context (\<lambda>g. g\<lparr>cq_hostflags := Some v\<rparr>) c st)),
      ssl_param_set1_host = (\<lambda>c h. ledger_context (\<lambda>g. g\<lparr>cq_host := Some h\<rparr>) c),
      ssl_verify_cert = ledger_verify_cert, ssl_ctx_free = ledger_free,
      ssl_get_pubkey = ledger_pubkey, ssl_pkey_base_id = (\<lambda>k st. EVP_PKEY_RSA), ssl_pkey_free = ledger_free,
      ssl_md_new = ledger_new (Digest None), ssl_digest_verify_init = ledger_verify_init,
      ssl_set_rsa_padding = (\<lambda>c v. ledger_digest (\<lambda>g. g\<lparr>sq_padding := Some v\<rparr>) c),
      ssl_set_rsa_pss_saltlen = (\<lambda>c v. ledger_digest (\<lambda>g. g\<lparr>sq_saltlen := Some v\<rparr>) c),
      ssl_set_rsa_mgf1_md = ledger_digest (\<lambda>g. g\<lparr>sq_mgf1_sha256 := True\<rparr>),
      ssl_digest_verify_update = (\<lambda>m bs. ledger_digest (\<lambda>g. g\<lparr>sq_data := sq_data g @ bs\<rparr>) m),
      ssl_digest_verify_final = ledger_verify_final, ssl_md_free = ledger_free\<rparr>"

lemma ledger_owned_simps [simp]:
  "ledger_owned (st @ [x]) p = (if p = length st then x else ledger_owned st p)"
  "ledger_owned (ledger_free p st) = (ledger_owned st)(p := None)"
  by (auto simp: ledger_owned_def ledger_free_def nth_append nth_list_update fun_eq_iff)

lemma ledger_owned_update: "ledger_owned st p \<noteq> None \<Longrightarrow> ledger_owned (st[p := x]) = (ledger_owned st)(p := x)"
  by (auto simp: ledger_owned_def nth_list_update fun_eq_iff split: if_splits)

lemma ledger_makes: "makes ledger_owned r st (ledger_new r st)"
  by (auto simp: makes_def ledger_new_def fun_eq_iff) (simp add: ledger_owned_def)

lemma ledger_piled_map: "list_all2 (\<lambda>p d. ledger_owned st p = Some (Piled d)) ps ds \<Longrightarrow> map (ledger_piled st) ps = ds"
  by (induction rule: list_all2_induct) (simp_all add: ledger_piled_def)

lemma ledger_update2:
  "ledger_owned st p \<noteq> None \<Longrightarrow> ledger_owned st q \<noteq> None \<Longrightarrow>
   ledger_owned (st[p := x, q := y]) = (ledger_owned st)(p := x, q := y)"
  by (auto simp: ledger_owned_def nth_list_update fun_eq_iff split: if_splits)

lemmas ledger_operations = ledger_add_cert_def ledger_push_def ledger_num_def ledger_pop_def ledger_init_def
  ledger_context_def ledger_verify_cert_def ledger_pubkey_def ledger_verify_init_def ledger_digest_def
  ledger_verify_final_def ledger_owned_update ledger_update2 ledger_makes ledger_piled_map

interpretation ledger: openssl_laws ledger_library ledger_owned "\<lambda>p. p" ledger_chain_ok ledger_signature_ok
  "\<lambda>_. EVP_PKEY_RSA"
proof (unfold_locales, goal_cases)
  case (5 bs st x used st')
  then show ?case using ledger_makes [of "Cert bs" st] by (auto simp: ledger_library_def split: prod.splits)
next
  case (29 st m sg sig r st')
  then show ?case
    by (auto simp: ledger_library_def ledger_operations split: if_splits)
      (metis fun_upd_triv)+
qed (auto simp: ledger_library_def ledger_operations fun_upd_idem split: prod.splits if_splits)

end
