(* ===== verification/Win32Platform.thy ===== *)
theory Win32Platform
  imports Platform XboxPlatform
begin

text \<open>
  The platform of a Windows host, \<open>src/platform/win32/platform_win32.cpp\<close>: random bytes of the system's
  cryptographic provider and the system's time. The calls of the system are a parameter. Within the
  sizes that the library asks for it keeps the contract of \<open>Platform\<close>; its clock is that of the console
  from 1970 on.
\<close>

section \<open>Model: the calls of the system\<close>

text \<open>
  \<open>CryptAcquireContext\<close> gives a provider or fails; \<open>CryptGenRandom\<close> gives the bytes it wrote, for a size
  of 32 bits; \<open>GetSystemTimeAsFileTime\<close> the low and the high half of the time.
\<close>

record 'o win32 =
  wn_acquire_context :: "'o \<Rightarrow> nat option \<times> 'o"
  wn_gen_random :: "nat \<Rightarrow> u32 \<Rightarrow> 'o \<Rightarrow> (bool \<times> bytes) \<times> 'o"
  wn_release_context :: "nat \<Rightarrow> 'o \<Rightarrow> 'o"
  wn_file_time :: "'o \<Rightarrow> (u32 \<times> u32) \<times> 'o"

section \<open>Model: the platform\<close>

definition win32_random_bytes :: "'o win32 \<Rightarrow> nat \<Rightarrow> ('o, bytes) action" where
  "win32_random_bytes os n st =
     (let (p, st) = wn_acquire_context os st
      in case p of
           None \<Rightarrow> (Err XT_ERR_CRYPTO, st)
         | Some p \<Rightarrow>
             let ((ok, bs), st) = wn_gen_random os p (of_nat n) st;
                 st = wn_release_context os p st
             in (if ok then Ok bs else Err XT_ERR_CRYPTO, st))"

text \<open>The difference wraps for a time before 1970.\<close>

definition win32_seconds :: "u32 \<Rightarrow> u32 \<Rightarrow> u64" where
  "win32_seconds low high =
     (let u = ucast low OR push_bit 32 (ucast high)
      in (u - 116444736000000000) div 10000000)"

definition win32_unix_time_seconds :: "'o win32 \<Rightarrow> 'o \<Rightarrow> u64 \<times> 'o" where
  "win32_unix_time_seconds os st =
     (let ((low, high), st) = wn_file_time os st in (win32_seconds low high, st))"

definition win32_platform :: "'o win32 \<Rightarrow> 'o platform" where
  "win32_platform os =
     \<lparr>pf_random_bytes = win32_random_bytes os, pf_unix_time_seconds = win32_unix_time_seconds os\<rparr>"

section \<open>The laws of the interface\<close>

text \<open>What the documentation of the calls says: the generator fills the buffer; no call takes bytes from the peer.\<close>

locale win32_laws =
  fixes os :: "'o win32" and left :: "'o \<Rightarrow> nat"
  assumes gen_random: "wn_gen_random os p k st = ((ok, bs), st') \<Longrightarrow> length bs = unat k \<and> left st' \<le> left st"
    and acquire: "left (snd (wn_acquire_context os st)) \<le> left st"
    and release: "left (wn_release_context os p st) \<le> left st"
    and clock: "left (snd (wn_file_time os st)) \<le> left st"

sublocale win32_laws \<subseteq> platform_laws "win32_platform os" left
proof (unfold_locales, goal_cases)
  case (1 n)
  have "safe r (\<lambda>bs. length bs = n) \<and> left st' \<le> left st" if run: "win32_random_bytes os n st = (r, st')" for st r st'
  proof -
    obtain p st1 where p: "wn_acquire_context os st = (p, st1)" by fastforce
    show ?thesis
    proof (cases p)
      case None
      then show ?thesis using run p acquire [of st] by (auto simp: win32_random_bytes_def)
    next
      case (Some h)
      obtain ok bs st2 where g: "wn_gen_random os h (of_nat n) st1 = ((ok, bs), st2)"
        by (metis prod.collapse)
      have "length bs = n" using gen_random [OF g] 1 by (simp add: unat_of_nat)
      moreover have "left (wn_release_context os h st2) \<le> left st"
        using gen_random [OF g] acquire [of st] release [of h st2] p by simp
      ultimately show ?thesis using run p g Some by (auto simp: win32_random_bytes_def Let_def)
    qed
  qed
  then show ?case by (auto intro!: obeysI simp: win32_platform_def)
next
  case (2 w)
  show ?case
    using clock [of w] by (auto simp: win32_platform_def win32_unix_time_seconds_def Let_def split: prod.splits)
qed

text \<open>A system on which every call succeeds.\<close>

definition win32_still :: "unit win32" where
  "win32_still =
     \<lparr>wn_acquire_context = (\<lambda>st. (Some 0, st)), wn_gen_random = (\<lambda>p k st. ((True, replicate (unat k) 1), st)),
      wn_release_context = (\<lambda>p st. st), wn_file_time = (\<lambda>st. ((0, 0), st))\<rparr>"

interpretation win32_still: win32_laws win32_still "\<lambda>_. 0"
  by unfold_locales (auto simp: win32_still_def)

section \<open>The clock\<close>

text \<open>The two platforms agree on the time from 1970 on, and before it the host's clock is in the far future.\<close>

lemma win32_seconds_after_1970:
  assumes "116444736000000000 \<le> (ucast low OR push_bit 32 (ucast high) :: u64)"
  shows "win32_seconds low high = unix_seconds (ucast low OR push_bit 32 (ucast high))"
proof -
  define t where "t = (ucast low OR push_bit 32 (ucast high) :: u64)"
  show ?thesis using assms unfolding win32_seconds_def t_def [symmetric] Let_def
    by (auto simp: unix_seconds_def FILETIME_EPOCH_def)
qed

lemma win32_seconds_before_1970:
  assumes "(ucast low OR push_bit 32 (ucast high) :: u64) < 116444736000000000"
  shows "1833029933770 \<le> win32_seconds low high"
proof -
  define t where "t = (ucast low OR push_bit 32 (ucast high) :: u64)"
  have t: "unat t < 116444736000000000" using assms by (simp add: t_def word_less_nat_alt)
  then have "unat (t - 116444736000000000) = 2 ^ 64 + unat t - 116444736000000000"
    by (simp add: unat_sub_if' word_less_nat_alt)
  then have "1833029933770 \<le> unat (t - 116444736000000000) div 10000000" by simp
  then show ?thesis by (simp add: win32_seconds_def t_def [symmetric] Let_def word_le_nat_alt unat_div)
qed

end
