(* ===== verification/Spec2Isabelle.thy ===== *)
theory Spec2Isabelle
  imports Facade Flight Completion Retry Sample RsaSpec P256Spec X25519Spec OpenSslVerifier Win32Platform
begin

text \<open>
  A verification library for the TLS 1.3 client in C++ under \<open>src/\<close>: one cipher suite
  (TLS_AES_128_GCM_SHA256), key agreement over X25519 and P-256, certificates with RSA and ECDSA
  signatures, on the Xbox 360.

  \<^bold>\<open>The program.\<close> \<open>TlsClient\<close> (\<open>src/tls/connection.cpp\<close>) is the object that an application uses:
  \<open>connect\<close>, \<open>send\<close>, \<open>recv\<close>, \<open>key_update\<close>, \<open>reset\<close>, \<open>close\<close>. It builds and reads messages with
  \<open>client_hello.cpp\<close>, \<open>server_hello.cpp\<close> and \<open>handshake.cpp\<close>, keeps the hash of all messages
  (\<open>transcript.cpp\<close>), derives secrets and keys (\<open>key_schedule.cpp\<close>, \<open>hkdf.cpp\<close>, \<open>sha256.cpp\<close>) and seals
  and opens records (\<open>record.cpp\<close>, \<open>protected_record.cpp\<close>, \<open>aes_gcm.cpp\<close>). The outside world is behind
  three interfaces: \<open>Platform\<close> (random bytes, time), \<open>Stream\<close> (bytes to and from the peer) and
  \<open>ServerAuthVerifier\<close> (certificate chains and signatures), which \<open>authentication.cpp\<close> calls. The
  console's platform and stream are \<open>platform_xbox360.cpp\<close>; the verifier is \<open>native_verifier.cpp\<close> with
  \<open>trust_store.cpp\<close>, \<open>x509.cpp\<close>, \<open>rsa_verify.cpp\<close> and \<open>p256_verify.cpp\<close>.

  \<^bold>\<open>How the code is modelled.\<close> Bytes and integers keep their width (\<open>8 word\<close> and so on); sizes and
  offsets, which never wrap in this code because they are bounded by buffers, are natural numbers. A
  span is a pointer with a size, and the null pointer is a value of its own. A routine that may fail
  gives \<open>Ok\<close>, \<open>Err\<close> with the code's error, or \<open>UB\<close>, the value of an access outside a buffer; that the
  result is never \<open>UB\<close> is proved, not assumed. Buffers that a routine fills are results; what the code
  reads from them later is state. \<open>malloc\<close> is a parameter \<open>alloc\<close> that says which sizes succeed. A
  member function of the client is a program on the object and the world (theory \<open>Program\<close>): a
  function to \<open>option\<close>, in which a loop that does not end has no result, so that termination is a
  theorem. The loops of the client are \<open>loop_prog\<close>, over one body each. The world of the interfaces is
  a type parameter; their contracts are the locales \<open>platform_laws\<close>, \<open>stream_laws\<close> and
  \<open>verifier_laws\<close>, with a measure \<open>budget\<close> of how many bytes the peer will still send, and they are
  interpreted on the models of the console's platform and of the native verifier.

  \<^bold>\<open>The theories.\<close>
  \<^item> \<open>Prelude\<close>, \<open>Endian\<close>, \<open>Wire\<close>, \<open>Program\<close>: results, spans, byte order, extension lists, programs, and
    the generic lemmas; the locale of extension loops, which three message parsers interpret.
  \<^item> \<open>Sha256\<close>, \<open>Hkdf\<close>, \<open>KeySchedule\<close>, \<open>AesGcm\<close>, \<open>RecordLayer\<close>: the code of those files, equal to the
    padded one-shot hash, to RFC 2104 and RFC 5869, to the secrets of RFC 8446, section 7.1; decryption
    undoes encryption, records open to what was sealed, nonces and counter blocks are distinct.
  \<^item> \<open>Handshake\<close>, \<open>ClientHello\<close>, \<open>ServerHello\<close>: the messages; which byte strings each parser accepts,
    the bytes that the writer writes, and the reassembly buffer as a queue of bytes (locale
    \<open>byte_queue\<close>).
  \<^item> \<open>Bignum\<close>, \<open>RsaVerify\<close>, \<open>RsaSpec\<close>: numbers of many words, whose operations are those of the numbers
    modulo the modulus; the RSA checks, which accept exactly the two encodings of RFC 8017.
  \<^item> \<open>P256\<close>, \<open>Primality\<close>, \<open>P256Prime\<close>, \<open>Weierstrass\<close>, \<open>P256Field\<close>, \<open>P256Points\<close>, \<open>P256Spec\<close>: the code of
    P-256, and its mathematics: certificates that the order of the field and that of the base point are
    prime, the group law of a curve (locale \<open>elliptic_curve\<close>), the field as a type. The code's Jacobian
    arithmetic computes the sums and multiples of points, so that both sides of a key agreement get the
    same secret and ECDSA is that of FIPS 186-4. That the base point has the order it is stated to have is
    not proved; no statement needs it.
  \<^item> \<open>X25519\<close>, \<open>X25519Field\<close>, \<open>X25519Spec\<close>: the other key agreement: the code on sixteen signed limbs, the
    number that the limbs stand for modulo \<open>2^255 - 19\<close> and the bounds within which they stay, and the
    function of RFC 7748, which the code computes.
  \<^item> \<open>Der\<close>, \<open>X509\<close>: one contract for the four readers of DER (locale \<open>tlv_reader\<close>); certificates, whose
    spans lie inside them; times by the civil calendar; host names.
  \<^item> \<open>Platform\<close>, \<open>Authentication\<close>, \<open>NativeVerifier\<close>, \<open>Trust\<close>: the interfaces; the checks of a flight;
    the chain walk, which accepts exactly the chains that are certified link by link up to an anchor;
    the trust store.
  \<^item> \<open>OpenSslVerifier\<close>: the verifier of a host build (\<open>openssl_verifier.cpp\<close>) over a record of the calls
    of OpenSSL; their contract is the locale \<open>openssl_laws\<close>, which follows what the caller owns and what
    each object holds, with a small library that keeps it.
  \<^item> \<open>Connection\<close>, \<open>Session\<close>, \<open>Contract\<close>, \<open>Traffic\<close>, \<open>Flight\<close>: the client. \<open>Session\<close> has its state
    machine: the results of every call, the transitions, and what holds in every reachable state.
    \<open>Contract\<close> shows that all calls return and stay in their buffers in an environment that keeps its
    contracts. \<open>Traffic\<close> is about application data and key updates, \<open>Flight\<close> about the handshake.
  \<^item> \<open>Completion\<close>, \<open>Sample\<close>: the handshake as a whole. A flight of acceptable messages, in any records and
    pieces, is read to its end (locale \<open>flight_run\<close>, which \<open>server_flight\<close>, the four messages of a server,
    gives); with the hello before it, \<open>connect\<close> returns, connected. \<open>Sample\<close> plays it on concrete data.
  \<^item> \<open>Retry\<close>: the answer to a HelloRetryRequest.
  \<^item> \<open>XboxClient\<close>, \<open>SocketLife\<close>, \<open>Facade\<close>: the class \<open>XboxTlsClient\<close> (\<open>src/xbox_client.cpp\<close>), which
    owns the client, the verifier, the socket and the trust store that it reads from a file. \<open>SocketLife\<close>
    follows the socket through every step of the client; \<open>Facade\<close> has the invariant of the object over
    any sequence of calls, what \<open>connect\<close> gives, and that every call returns (locale
    \<open>console_system\<close>).
  \<^item> \<open>XboxPlatform\<close>, \<open>Win32Platform\<close>, \<open>Environment\<close>: the platforms of the console and of a Windows host
    (\<open>platform_win32.cpp\<close>) over records of system calls, the contracts they keep, and a scripted system
    on which the properties are tried.

  \<^bold>\<open>Bounds and loops.\<close> Structural recursion where the code counts; measures on what is left of a buffer
  for the parsers; no fuel. The client's loops end because every round takes bytes from the peer, of
  which there are finitely many (\<open>budget\<close>), or messages from a buffer of 32768 bytes.

  \<^bold>\<open>What the properties show\<close> of faults: the early secret is not that of RFC 8446
  (\<open>handshake_secrets\<close>); a server flight without a certificate is accepted
  (\<open>finished_alone_accepted\<close>); \<open>recv\<close> with a small buffer can be made to write beyond a buffer
  (\<open>recv_overflows\<close>, and \<open>recv_total\<close> for buffers of at least 239 bytes); \<open>send\<close> fails on long data with
  little padding (lemma \<open>send_too_long\<close> of \<open>Traffic\<close>); a call of the facade's \<open>connect\<close> that is refused because a
  connection is open counts an attempt but no failure (\<open>facade_connects\<close>).

  \<^bold>\<open>Not modelled.\<close> The code of the system and of OpenSSL, which is not in the repository: its calls are
  parameters. The headers of the console's system under \<open>external/\<close>, the tests and the demo; timing, and
  with it whether the code is constant-time; the wiping of locals, which has no observer in the model.
\<close>

section \<open>The client\<close>



text \<open>C2: Over any sequence of calls, in any world and with any peer, a client that is not connected
  holds no secret: its private key, its key schedule and all its traffic keys are zero. A connected
  client has a stream, and no client is found in the middle of a handshake.\<close>

theorem client_settled:
  assumes "reachable c"
  shows "c_state c \<noteq> CLIENT_HANDSHAKING
    \<and> (c_state c \<noteq> CLIENT_CONNECTED \<longrightarrow> secrets_wiped c)
    \<and> (c_state c = CLIENT_CONNECTED \<longrightarrow> cc_stream (c_config c) \<noteq> None)"
  using reachable_settled [OF assms] by (auto simp: settled_def)

theorem client_settled_witness:
  "secrets_wiped (tls_client_new :: unit client)"
  using client_settled [OF reachable_new] by (simp add: tls_client_new_def)



text \<open>C4: In such an environment, with a readable destination of at least 239 bytes, \<open>recv\<close> returns
  and stays inside its buffers.\<close>

theorem recv_total:
  assumes "environment pf sm av budget" and "good sm av s" and "span_valid out"
    and "239 \<le> span_size out"
  shows "\<exists>r s'. recv alloc out s = Some (r, s') \<and> r \<noteq> UB \<and> good sm av s'"
  by (rule runs_returns [OF fulfilsD [OF environment.recv_sound [OF assms(1,3,4)] assms(2)]]) simp_all

theorem recv_total_witness:
  "\<exists>r s'. recv (\<lambda>_. True) (Span (replicate 300 0))
      (tls_client_new\<lparr>c_config := client_config_init\<lparr>cc_stream := Some (xbox360_stream script_system),
         cc_verifier := Some (native_auth_verifier script_verifier)\<rparr>, c_state := CLIENT_CONNECTED\<rparr>,
       \<lparr>xw_socket = 1, xw_system = \<lparr>sc_incoming = [[23, 3, 3]], sc_sent = []\<rparr>\<rparr>) = Some (r, s')
    \<and> r \<noteq> UB \<and> good (xbox360_stream script_system) (native_auth_verifier script_verifier) s'"
  by (rule recv_total [OF script.environment_axioms]) (simp_all add: good_def shape_new)

text \<open>C5: In such an environment \<open>send\<close>, \<open>key_update\<close> and \<open>close\<close> return on every readable input and
  stay inside their buffers.\<close>

theorem send_total:
  assumes "environment pf sm av budget" and "good sm av s" and "span_valid data"
  shows "(\<exists>r s'. send alloc data s = Some (r, s') \<and> r \<noteq> UB \<and> good sm av s')
    \<and> (\<exists>r s'. key_update alloc request s = Some (r, s') \<and> r \<noteq> UB \<and> good sm av s')
    \<and> (\<exists>r s'. close alloc s = Some (r, s') \<and> r \<noteq> UB \<and> good sm av s')"
  using runs_returns [OF fulfilsD [OF environment.send_sound [OF assms(1,3)] assms(2)]]
    runs_returns [OF fulfilsD [OF environment.key_update_sound [OF assms(1)] assms(2)]]
    runs_returns [OF fulfilsD [OF environment.close_sound [OF assms(1)] assms(2)]]
  by simp

theorem send_total_witness:
  "\<exists>r s'. send (\<lambda>_. True) (Span (replicate 20000 0))
      (tls_client_new\<lparr>c_config := client_config_init\<lparr>cc_stream := Some (xbox360_stream script_system),
         cc_verifier := Some (native_auth_verifier script_verifier)\<rparr>, c_state := CLIENT_CONNECTED\<rparr>,
       \<lparr>xw_socket = 1, xw_system = \<lparr>sc_incoming = [], sc_sent = []\<rparr>\<rparr>) = Some (r, s') \<and> r \<noteq> UB
    \<and> good (xbox360_stream script_system) (native_auth_verifier script_verifier) s'"
  by (rule send_total [OF script.environment_axioms, THEN conjunct1]) (simp_all add: good_def shape_new)

section \<open>The facade\<close>







section \<open>The handshake\<close>

text \<open>C9: After ServerHello the client derives, from the shared secret of the key exchange and the hash of
  the transcript, the handshake secret, the two handshake traffic secrets and the two sets of
  handshake keys of RFC 8446, section 7.1, and empties the reassembly buffer; a failed key exchange
  installs nothing. The early secret they start from has the empty string as its input.\<close>

theorem handshake_secrets:
  assumes "sha_inv m (c_transcript c)"
  shows "handshake_keys sh (sh_group sh) (c, w) =
    (let c' = c\<lparr>c_deframer := deframer_reset (c_deframer c)\<rparr> in
     case shared_secret (c_private_key c) sh of
       Ok shared \<Rightarrow>
         (let ks = handshake_schedule (hmac_spec (replicate 32 0) []) shared (sha256_spec m) (c_schedule c)
          in Some (Ok (), (c'\<lparr>c_schedule := ks,
              c_client_hs_keys := rfc_traffic_keys (client_handshake_traffic_secret ks),
              c_server_hs_keys := rfc_traffic_keys (server_handshake_traffic_secret ks)\<rparr>, w)))
     | Err e \<Rightarrow> Some (Err e, (c', w))
     | UB \<Rightarrow> Some (UB, (c', w)))"
proof (cases "shared_secret (c_private_key c) sh")
  case (Ok shared)
  then show ?thesis using handshake_keys_run [OF assms refl Ok] by (simp add: Let_def)
qed (simp_all add: handshake_keys_def step_defs Let_def)

theorem handshake_secrets_witness:
  "handshake_keys (server_hello_info_init\<lparr>sh_key_share_length := 1\<rparr>)
       (sh_group server_hello_info_init) (tls_client_new, ()) =
     Some (Err XT_ERR_UNSUPPORTED, (tls_client_new\<lparr>c_deframer := deframer_reset (c_deframer tls_client_new)\<rparr>, ()))"
  using handshake_secrets [of "[]" "tls_client_new" "server_hello_info_init\<lparr>sh_key_share_length := 1\<rparr>" "()"]
    transcript_inv_reset
  by (simp add: tls_client_new_def shared_secret_def server_hello_info_init_def)

text \<open>C10: A server Finished is accepted exactly when its body is the verify data of RFC 8446, section
  4.4.4, under the server's handshake secret, over the transcript that precedes it; it then joins
  the transcript. Anything else is an error that leaves the client as it was.\<close>

theorem server_finished_checked:
  assumes "sha_inv m (c_transcript c)" and "hm_body msg = Span b"
    and "length (server_handshake_traffic_secret (c_schedule c)) = 32"
  shows "handle_finished msg fl (c, w) =
    (if hm_type msg \<noteq> hs_finished \<or> length b \<noteq> 32 then Some (Err XT_ERR_BAD_HANDSHAKE, (c, w))
     else if b = rfc_verify_data (server_handshake_traffic_secret (c_schedule c)) (sha256_spec m)
     then Some (Ok (fl\<lparr>fl_got_finished := True\<rparr>),
            (c\<lparr>c_transcript := transcript_update (c_transcript c) (hm_encoded msg)\<rparr>, w))
     else Some (Err XT_ERR_VERIFY, (c, w)))"
  using assms by (rule handle_finished_run)

theorem server_finished_checked_witness:
  "handle_finished (handshake_of hs_finished []) flight_init (tls_client_new, ())
     = Some (Err XT_ERR_BAD_HANDSHAKE, (tls_client_new, ()))"
  by (subst server_finished_checked [where m = "[]" and b = "[]"])
    (simp_all add: tls_client_new_def transcript_inv_reset handshake_of_def key_schedule_zero_def)

text \<open>C11: The handshake comes to its end: once the ClientHello is out, and when the server answers it with a
  ServerHello for it and a flight of EncryptedExtensions, Certificate, CertificateVerify and Finished, cut
  into records in any way that fits the buffers, sent in any pieces, and acceptable to the parsers, the
  host name check and the verifier, under secrets that start, as the client's do, from the early secret of
  \<open>handshake_secrets\<close>, then \<open>connect\<close> returns without an error, connected, having read exactly that
  answer. The last record it sends is its own Finished, the verify data over the transcript through the
  server's, under its handshake keys; the application secrets and keys are those of that transcript.\<close>

theorem connect_completes:
  assumes "byte_source sm queue" and "accepts_all sm app" and "\<And>n. alloc n"
    and "cc_platform cfg = Some pf" and "cc_stream cfg = Some sm" and "cc_verifier cfg \<noteq> None"
    and "cc_hostname cfg \<noteq> None" and "cc_hostname cfg \<noteq> Some []"
    and "first_client_hello cfg pf (connect_start cfg tls_client_new, w) = Some (Ok (sid, p), (c, w1))"
    and "answer_ok cfg sid (c_client_hello c) (c_private_key c) a shared"
    and "queue w1 = answer_bytes (c_client_hello c) a shared @ rest"
  shows "let ks = answer_schedule (c_client_hello c) a shared;
      th = sha256_spec ((c_client_hello c @ answer_hello a) @ encode_messages (answer_messages (c_client_hello c) a shared));
      fin = encode_handshake hs_finished (rfc_verify_data (client_handshake_traffic_secret ks) th)
    in \<exists>c' w'. connect alloc cfg (tls_client_new, w) = Some (Ok (), (c', app w'
          (sealed_record (rfc_traffic_keys (client_handshake_traffic_secret ks)) content_handshake fin 0)))
      \<and> queue w' = rest \<and> c_state c' = CLIENT_CONNECTED \<and> c_schedule c' = application_schedule th ks
      \<and> c_client_app_keys c' = rfc_traffic_keys (client_application_traffic_secret (c_schedule c'))
      \<and> c_server_app_keys c' = rfc_traffic_keys (server_application_traffic_secret (c_schedule c'))"
  unfolding Let_def by (rule byte_source.connect_completes_run [OF assms(1,4-8,2,3,9-11)])

theorem connect_completes_witness:
  "\<exists>c' w'. connect (\<lambda>_. True) sample_config
       (tls_client_new, (answer_bytes (client_hello_bytes sample_params) sample_server GX_BE @ [7], []))
     = Some (Ok (), (c', pipe_send w' (sealed_record (rfc_traffic_keys (client_handshake_traffic_secret
           (answer_schedule (client_hello_bytes sample_params) sample_server GX_BE))) content_handshake
         (encode_handshake hs_finished (rfc_verify_data (client_handshake_traffic_secret
           (answer_schedule (client_hello_bytes sample_params) sample_server GX_BE))
           (sha256_spec ((client_hello_bytes sample_params @ answer_hello sample_server)
             @ encode_messages (answer_messages (client_hello_bytes sample_params) sample_server GX_BE))))) 0)))
     \<and> fst w' = [7] \<and> c_state c' = CLIENT_CONNECTED"
proof -
  let ?i = "answer_bytes (client_hello_bytes sample_params) sample_server GX_BE @ [7]"
  obtain c sent where c: "first_client_hello sample_config one_platform (connect_start sample_config tls_client_new, (?i, []))
      = Some (Ok (one_key, sample_params), (c, (?i, sent)))" "c_client_hello c = client_hello_bytes sample_params"
      "c_private_key c = one_key" using sample_first_hello by blast
  have cfg: "cc_platform sample_config = Some one_platform" "cc_stream sample_config = Some pipe_stream"
    "cc_verifier sample_config \<noteq> None" "cc_hostname sample_config \<noteq> None" "cc_hostname sample_config \<noteq> Some []"
    by (simp_all add: sample_config_def)
  show ?thesis
    using connect_completes [OF pipe.byte_source_axioms pipe_accepts TrueI cfg c(1), of sample_server GX_BE "[7]"] sample_ok
    unfolding c(2,3) Let_def fst_conv by blast
qed

text \<open>C12: A HelloRetryRequest that the client answers is the first one and asks for a group it has not
  offered a key for. The second ClientHello is the first with the group, a new public key and the cookie
  replaced; the key is that of the private key the client then holds. The transcript is the message that
  stands for the hash of the first ClientHello (RFC 8446, section 4.4.1), the request and the second ClientHello;
  the request was the last thing in the reassembly buffer, and another one will be refused.\<close>

theorem retry_answered:
  assumes "sha_inv m (c_transcript c)" and "hm_encoded hm = Span hrr"
    and "hello_retry pf hl hm sh (c, w) = Some (Ok hl', (c', w'))"
  shows "\<not> hl_had_hrr hl \<and> sh_group sh \<noteq> hl_active_group hl \<and> hl_had_hrr hl' \<and> hl_active_group hl' = sh_group sh
    \<and> (\<exists>share. public_share (sh_group sh) (c_private_key c') = Ok share
        \<and> hl_params hl' = (hl_params hl)\<lparr>chp_group := sh_group sh, chp_key_share := Span share,
            chp_cookie := Span (take (sh_cookie_length sh) (sh_cookie sh))\<rparr>)
    \<and> build_client_hello (hl_params hl') (Span (replicate 2048 0)) = Ok (c_client_hello c')
    \<and> sha_inv (encode_handshake 0xfe (sha256_spec m) @ hrr @ c_client_hello c') (c_transcript c')
    \<and> deframer_content (c_deframer c') = [] \<and> c_state c' = c_state c
    \<and> hello_retry pf hl' hm2 sh2 s = Some (Err XT_ERR_BAD_HANDSHAKE, s)"
  using hello_retry_answers [OF assms] by (simp add: hello_retry_def throw_def)

theorem retry_answered_witness:
  "\<exists>hl c' w'. hello_retry one_platform \<lparr>hl_had_hrr = False, hl_active_group = group_x25519, hl_params = sample_params\<rparr>
      (handshake_of hs_server_hello []) (server_hello_info_init\<lparr>sh_group := group_secp256r1\<rparr>)
      (tls_client_new\<lparr>c_config := sample_config, c_deframer := \<lparr>df_storage = Span [2, 0, 0, 0], df_used = 4\<rparr>\<rparr>, ([], []))
    = Some (Ok hl, (c', w')) \<and> hl_had_hrr hl
    \<and> sha_inv (encode_handshake 0xfe (sha256_spec []) @ [2, 0, 0, 0] @ c_client_hello c') (c_transcript c')"
proof -
  let ?c = "tls_client_new\<lparr>c_config := sample_config, c_deframer := \<lparr>df_storage = Span [2, 0, 0, 0], df_used = 4\<rparr>\<rparr>"
  have inv: "sha_inv [] (c_transcript ?c)" by (simp add: tls_client_new_def transcript_inv_reset)
  have enc: "hm_encoded (handshake_of hs_server_hello []) = Span [2, 0, 0, 0]"
    by (simp add: handshake_of_def encode_handshake_def hs_server_hello_def store_be24_def)
  have "cc_stream (c_config ?c) = Some pipe_stream" by (simp add: sample_config_def)
  from sample_retry [OF this _ inv, of "([], [])"] retry_answered [OF inv enc] show ?thesis by fastforce
qed

text \<open>C13: A flight that consists of a Finished message alone is accepted: the client goes on without a
  certificate, and no verifier has been asked. Only a CertificateVerify message needs a certificate
  before it.\<close>

theorem finished_alone_accepted:
  assumes "sha_inv m (c_transcript c)"
    and "length (server_handshake_traffic_secret (c_schedule c)) = 32"
    and "deframer_inv (c_deframer c)"
    and "deframer_content (c_deframer c) = encode_handshake hs_finished
      (rfc_verify_data (server_handshake_traffic_secret (c_schedule c)) (sha256_spec m))"
  shows "\<exists>fl c'. flight_messages flight_init (c, w) = Some (Ok fl, (c', w))
    \<and> fl_got_finished fl \<and> \<not> fl_have_cert fl \<and> c_certificate_storage c' = c_certificate_storage c"
  using assms by (rule finished_alone)

theorem finished_alone_accepted_witness:
  "\<exists>fl c'. flight_messages flight_init
     (tls_client_new\<lparr>c_deframer := \<lparr>df_storage = Span (encode_handshake hs_finished
        (rfc_verify_data (replicate 32 0) (sha256_spec []))), df_used = 36\<rparr>\<rparr>, ()) = Some (Ok fl, (c', ()))
    \<and> fl_got_finished fl \<and> \<not> fl_have_cert fl \<and> c_certificate_storage c' = []"
proof -
  let ?c = "tls_client_new\<lparr>c_deframer := \<lparr>df_storage = Span (encode_handshake hs_finished
        (rfc_verify_data (replicate 32 0) (sha256_spec []))), df_used = 36\<rparr>\<rparr> :: unit client"
  have "sha_inv [] (c_transcript ?c)" "server_handshake_traffic_secret (c_schedule ?c) = replicate 32 0"
    "c_certificate_storage ?c = []"
    by (simp_all add: tls_client_new_def transcript_inv_reset key_schedule_zero_def)
  with finished_alone_accepted [of "[]" ?c "()"] show ?thesis
    by (simp add: deframer_inv_def deframer_content_def)
qed

section \<open>Authentication\<close>

text \<open>C14: A CertificateVerify message is accepted exactly when a Certificate message came before it, the
  certificate list parses, its first certificate names the host, the verifier accepts the chain, the
  signature scheme is known and fits the key of the certificate, and the verifier accepts the
  signature over 64 spaces, the context string, a zero byte and the hash of the transcript.\<close>

theorem certificate_verify_accepted:
  assumes "sha_inv m (c_transcript c)" and "cc_verifier (c_config c) = Some v"
  shows "handle_certificate_verify msg fl (c, w) = Some (Ok fl', (c', w'')) \<longleftrightarrow>
    fl_have_cert fl \<and> fl' = fl
    \<and> c' = c\<lparr>c_transcript := transcript_update (c_transcript c) (hm_encoded msg)\<rparr>
    \<and> (\<exists>cv host chain leaf scheme w'. parse_certificate_verify msg = Ok cv
      \<and> cc_hostname (c_config c) = Some host
      \<and> parse_certificate_chain (fl_cert_info fl) = Ok chain
      \<and> x509_parse_certificate (ce_der (hd chain)) = Ok leaf
      \<and> x509_verify_hostname leaf (cc_hostname (c_config c)) = Ok ()
      \<and> av_verify_chain v chain (cc_hostname (c_config c)) w = (Ok (), w')
      \<and> scheme_of (cv_algorithm cv) = Ok scheme \<and> scheme_fits_key scheme (x_public_key_kind leaf)
      \<and> av_verify_signature v scheme leaf
          (Span (replicate 64 0x20 @ cert_verify_context @ [0] @ sha256_spec m)) (cv_signature cv) w' = (Ok (), w''))"
proof -
  have th: "length (sha256_spec m) = 32" "transcript_snapshot (c_transcript c) = sha256_spec m"
    using transcript_snapshot_eq [OF assms(1)] by (simp_all add: sha256_correct flip: sha256_correct)
  show ?thesis
    unfolding handle_certificate_verify_iff assms(2) th(2) authenticate_server_flight_iff [OF th(1)] by blast
qed

theorem certificate_verify_accepted_witness:
  "\<nexists>s'. handle_certificate_verify (handshake_of hs_certificate_verify [8, 4, 0, 1, 7]) flight_init
     (tls_client_new\<lparr>c_config := client_config_init\<lparr>cc_verifier := Some (native_auth_verifier script_verifier)\<rparr>\<rparr>,
      \<lparr>xw_socket = 1, xw_system = \<lparr>sc_incoming = [], sc_sent = []\<rparr>\<rparr>) = Some (Ok flight_init, s')"
proof -
  let ?c = "tls_client_new\<lparr>c_config := client_config_init\<lparr>cc_verifier := Some (native_auth_verifier script_verifier)\<rparr>\<rparr>"
  have "sha_inv [] (c_transcript ?c)" "cc_verifier (c_config ?c) = Some (native_auth_verifier script_verifier)"
    by (simp_all add: tls_client_new_def transcript_inv_reset)
  from certificate_verify_accepted [OF this, of _ flight_init] show ?thesis
    by (auto simp: flight_init_def)
qed





text \<open>C17: The compact trust store is loaded completely or not at all: exactly the encodings of at most 16
  certificates that parse are accepted, and then the anchors are these certificates; after a refusal
  the verifier is unchanged or has no anchors left, and no buffer is ever left.\<close>

theorem trust_store_loaded:
  "(load_compact_trust_store (Span xs) v = (Ok n, v') \<longleftrightarrow>
     (\<exists>certs. xs = encode_trust_store certs \<and> length certs = n \<and> n \<le> 16 \<and> list_all cert_ok certs
        \<and> v' = v\<lparr>nv_anchors := map Span certs\<rparr>))
   \<and> fst (load_compact_trust_store (Span xs) v) \<noteq> UB
   \<and> (is_ok (fst (load_compact_trust_store (Span xs) v))
      \<or> snd (load_compact_trust_store (Span xs) v) \<in> {v, v\<lparr>nv_anchors := []\<rparr>})"
  using load_trust_store_Ok_iff [of xs v n v'] load_trust_store_failed [of xs v]
  by (cases "load_compact_trust_store (Span xs) v"; cases "fst (load_compact_trust_store (Span xs) v)") auto

text \<open>C18: The PKCS #1 v1.5 check accepts a signature exactly when it is a number below the modulus, as
  long as the modulus, whose power \<open>s^e mod m\<close>, written in that many bytes, is the padded DigestInfo
  of the SHA-256 hash of the message with at least eight bytes of padding.\<close>

theorem rsa_pkcs1_accepts:
  "native_rsa_pkcs1_sha256_verify key (Span msg) (Span sg) = Ok () \<longleftrightarrow>
    (\<exists>md e k. parse_rsa key = Ok (Span md, e) \<and> length sg = length md \<and> be_val sg < be_val md
       \<and> 8 \<le> k \<and> be_bytes (length md) (be_val sg ^ unat e mod be_val md) = emsa_pkcs1 k (sha256_spec msg))"
  by (rule native_rsa_pkcs1_iff)

text \<open>C19: The PSS check accepts a signature exactly when its power \<open>s^e mod m\<close> is the PSS encoding of
  the hash of the message under MGF1 with SHA-256 for some 32-byte salt, in as many bytes as the
  modulus has.\<close>

theorem rsa_pss_accepts:
  "native_rsa_pss_sha256_verify key (Span msg) (Span sg) = Ok () \<longleftrightarrow>
    (\<exists>md e em embits salt. parse_rsa key = Ok (Span md, e) \<and> length sg = length md \<and> be_val sg < be_val md
       \<and> em = be_bytes (length md) (be_val sg ^ unat e mod be_val md)
       \<and> embits = bit_length (be_val md) - 1 \<and> length em = (embits + 7) div 8 \<and> 66 \<le> length em
       \<and> length salt = 32 \<and> em = emsa_pss (length em) embits (sha256_spec msg) salt)"
  by (rule native_rsa_pss_iff)

text \<open>C20: The verifier of a host build, over an OpenSSL that keeps its contract: a check of a chain returns,
  releases every object that it made, each once, and accepts only what OpenSSL accepted when asked about
  exactly this store, these certificates, in order, and this host; the same for a signature, whose query
  has the key of the leaf, the message and, for PSS, the parameters of the scheme.\<close>

theorem openssl_verifier_checks:
  assumes "openssl_laws lib own owner chain_ok signature_ok key_id"
    and "v = None \<or> (\<exists>s b as. v = Some s \<and> own st s = Some (Store b as))"
  shows "(\<exists>r st'. openssl_verify_chain lib v chain hostname st = Some (r, st') \<and> r \<noteq> UB \<and> own st' = own st
      \<and> (r = Ok () \<longrightarrow> (\<exists>s b as host g. v = Some s \<and> own st s = Some (Store b as)
           \<and> hostname = Some host \<and> host \<noteq> [] \<and> chain \<noteq> []
           \<and> asks_chain (b, as) (map (\<lambda>en. span_bytes (ce_der en)) chain) host g \<and> chain_ok g)))
    \<and> (case openssl_verify_signature lib scheme leaf msg sig st of (r, st') \<Rightarrow>
        r \<noteq> UB \<and> own st' = own st \<and> (r = Ok () \<longrightarrow>
          signature_ok (asks_signature scheme (span_bytes (x_der leaf)) (span_bytes msg)) (span_bytes sig)
          \<and> key_fits scheme (key_id (span_bytes (x_der leaf)))))"
proof (cases "openssl_verify_signature lib scheme leaf msg sig st")
  case (Pair r st')
  with openssl_laws.openssl_verify_chain_owned [OF assms] openssl_laws.openssl_verify_signature_owned [OF assms(1) Pair]
  show ?thesis by simp
qed

theorem openssl_verifier_checks_witness:
  "\<exists>r st'. openssl_verify_chain ledger_library (Some 0) [\<lparr>ce_der = Span [1], ce_extensions = Span []\<rparr>] (Some [97])
      [Some (Store False [[1]])] = Some (r, st') \<and> r = Ok () \<and> ledger_owned st' = ledger_owned [Some (Store False [[1]])]"
proof -
  let ?chain = "[\<lparr>ce_der = Span [1], ce_extensions = Span []\<rparr>]"
  have "\<exists>st'. openssl_verify_chain ledger_library (Some 0) ?chain (Some [97]) [Some (Store False [[1]])] = Some (Ok (), st')"
    by (simp add: openssl_verify_chain_def parse_cert_def ledger_library_def ledger_new_def check_chain_def
        ledger_init_def ledger_owned_def ledger_context_def ledger_verify_cert_def ledger_chain_ok_def
        then_prog_def bind_prog_def loop_prog.simps pop_cert_def ledger_num_def ledger_free_def)
  then show ?thesis
    using openssl_verifier_checks [OF ledger.openssl_laws_axioms, of "Some 0" "[Some (Store False [[1]])]" ?chain "Some [97]"]
    by (force simp: ledger_owned_def)
qed

section \<open>Application data\<close>

text \<open>C21: \<open>send\<close> cuts the data into pieces, seals them under successive record numbers, puts the records on
  the stream in order and advances the sending keys by their number; opening those records in order
  under the same keys gives back the pieces, which make up the data. It holds when the padding is at
  least 239 bytes or the data at most 16384.\<close>

theorem send_delivers:
  assumes "c_state c = CLIENT_CONNECTED" and "cc_stream (c_config c) = Some sm" and "accepts_all sm app"
    and "\<And>n. alloc n" and "padding = min 255 (cc_application_record_padding (c_config c))"
    and "239 \<le> padding \<or> length data \<le> 16384"
  shows "\<exists>cs. concat cs = data
    \<and> send alloc (Span data) (c, w) = Some (Ok (), (c\<lparr>c_client_app_keys := advance (c_client_app_keys c) (length cs)\<rparr>,
        foldl app w (sealed_records (c_client_app_keys c) padding cs)))
    \<and> open_records (c_client_app_keys c) (sealed_records (c_client_app_keys c) padding cs)
        = Ok (map (Pair content_application_data) cs)"
proof -
  have pad: "padding \<le> 255" using assms(5) by simp
  have "send alloc (Span data) (c, w) =
    Some (Ok (), (c\<lparr>c_client_app_keys :=
        advance (c_client_app_keys c) (length (chunks (16623 - padding) data))\<rparr>,
      foldl app w (sealed_records (c_client_app_keys c) padding (chunks (16623 - padding) data))))"
    using assms by (intro send_ok)
  with sent_records_open [OF pad] show ?thesis by (intro exI [of _ "chunks (16623 - padding) data"]) simp
qed

theorem send_delivers_witness:
  "\<exists>c' w'. send (\<lambda>_. True) (Span (replicate 20000 7))
     (tls_client_new\<lparr>c_state := CLIENT_CONNECTED, c_config := client_config_init\<lparr>cc_stream := Some sink_stream,
        cc_application_record_padding := 239\<rparr>\<rparr>, []) = Some (Ok (), (c', w'))"
  using send_delivers [OF _ _ sink_stream_accepts, where alloc = "\<lambda>_. True" and padding = 239
      and data = "replicate 20000 7" and w = "[]" and
      c = "tls_client_new\<lparr>c_state := CLIENT_CONNECTED, c_config := client_config_init\<lparr>cc_stream := Some sink_stream,
        cc_application_record_padding := 239\<rparr>\<rparr>"]
  by auto

text \<open>C22: Every byte that the peer sends is handed out by \<open>recv\<close> after finitely many calls, once and in
  order, however the stream cuts the records: given records under successive numbers on the stream and
  a buffer of at least 239 bytes, some number of calls returns exactly what was pending and what the
  records hold, and nothing is left.\<close>

theorem recv_delivers:
  assumes "byte_source sm queue" and "cc_stream (c_config c) = Some sm" and "incoming queue padding c w cs"
    and "239 \<le> length out"
  shows "\<exists>n c' w'. recv_calls alloc (Span out) n (c, w) = Some (Ok (pending c @ concat cs), (c', w'))
    \<and> pending c' = [] \<and> incoming queue padding c' w' []"
  using assms by (rule byte_source.recv_all)

theorem recv_delivers_witness:
  "\<exists>n s'. recv_calls (\<lambda>_. True) (Span (replicate 300 0)) n
     (tls_client_new\<lparr>c_state := CLIENT_CONNECTED,
        c_config := client_config_init\<lparr>cc_stream := Some (xbox360_stream script_system)\<rparr>\<rparr>,
      \<lparr>xw_socket = 1, xw_system = \<lparr>sc_incoming = [sealed_record traffic_keys_zero 23 [1, 2, 3] 0], sc_sent = []\<rparr>\<rparr>)
     = Some (Ok [1, 2, 3], s')"
proof -
  let ?c = "tls_client_new\<lparr>c_state := CLIENT_CONNECTED,
        c_config := client_config_init\<lparr>cc_stream := Some (xbox360_stream script_system)\<rparr>\<rparr>"
  let ?w = "\<lparr>xw_socket = 1, xw_system = \<lparr>sc_incoming = [sealed_record traffic_keys_zero 23 [1, 2, 3] 0], sc_sent = []\<rparr>\<rparr>"
  have stream: "cc_stream (c_config ?c) = Some (xbox360_stream script_system)" by simp
  have "incoming script_queue 0 ?c ?w [[1, 2, 3]]"
    by (simp add: incoming_def pending_ok_def script_queue_def is_open_def INVALID_SOCKET_def tls_client_new_def
        content_application_data_def)
  from recv_delivers [OF script.byte_source_axioms stream this, of "replicate 300 0" "\<lambda>_. True"]
  show ?thesis by (auto simp: pending_def tls_client_new_def)
qed

text \<open>C23: A key update sends the KeyUpdate message under the old keys and then replaces the sending
  secret by the next one of RFC 8446, section 7.2, with keys derived from it and the record number
  back at zero. When the peer announces a key update the receiving keys change at once; when it asks for
  one in return, the answer goes out under the old sending keys, and then these change too.\<close>

theorem key_update_rekeys:
  assumes "c_state c = CLIENT_CONNECTED" and "cc_stream (c_config c) = Some sm" and "accepts_all sm app"
    and "\<And>n. alloc n"
  shows "key_update alloc request (c, w) = Some (Ok (), (client_rekeyed c,
      app w (sealed_record (c_client_app_keys c) content_handshake (key_update_message request) 0)))
    \<and> tk_seq (c_client_app_keys (client_rekeyed c)) = 0
    \<and> post_handshake_message alloc (handshake_of hs_key_update [if request then 1 else 0]) (c, w) =
    (if request
     then Some (Ok (), (client_rekeyed (server_rekeyed c),
       app w (sealed_record (c_client_app_keys c) content_handshake (key_update_message False) 0)))
     else Some (Ok (), (server_rekeyed c, w)))"
  using key_update_run [OF assms] peer_key_update_run [OF assms]
  by (simp add: client_rekeyed_def rfc_traffic_keys_def Let_def)

theorem key_update_rekeys_witness:
  "\<exists>c' w'. key_update (\<lambda>_. True) True
     (tls_client_new\<lparr>c_state := CLIENT_CONNECTED, c_config := client_config_init\<lparr>cc_stream := Some sink_stream\<rparr>\<rparr>, [])
     = Some (Ok (), (c', w')) \<and> tk_seq (c_client_app_keys c') = 0"
  using key_update_rekeys [OF _ _ sink_stream_accepts, where alloc = "\<lambda>_. True" and w = "[]" and request = True and
      c = "tls_client_new\<lparr>c_state := CLIENT_CONNECTED, c_config := client_config_init\<lparr>cc_stream := Some sink_stream\<rparr>\<rparr>"]
  by auto

text \<open>C24: A record whose content exceeds the caller's buffer by more than 16384 bytes is copied beyond the
  end of the client's buffer for pending data.\<close>

theorem recv_overflows:
  assumes "c_state c = CLIENT_CONNECTED" and "pending_ok c" and "c_pending_app_length c = 0"
    and "read_record 16645 (c, w)
      = Some (Ok (sealed_record (c_server_app_keys c) content_application_data p padding), (c, w'))"
    and "length p + padding \<le> 16623" and "16384 + length out < length p"
  shows "\<exists>s'. recv alloc (Span out) (c, w) = Some (UB, s')"
  using assms by (rule recv_record_overflow)

theorem recv_overflows_witness:
  "\<exists>s'. recv (\<lambda>_. True) (Span [])
     (tls_client_new\<lparr>c_state := CLIENT_CONNECTED,
        c_config := client_config_init\<lparr>cc_stream := Some (xbox360_stream script_system)\<rparr>\<rparr>,
      \<lparr>xw_socket = 1, xw_system =
        \<lparr>sc_incoming = [sealed_record traffic_keys_zero content_application_data (replicate 16500 7) 0], sc_sent = []\<rparr>\<rparr>)
     = Some (UB, s')"
proof -
  let ?c = "tls_client_new\<lparr>c_state := CLIENT_CONNECTED,
        c_config := client_config_init\<lparr>cc_stream := Some (xbox360_stream script_system)\<rparr>\<rparr>"
  let ?r = "sealed_record traffic_keys_zero content_application_data (replicate 16500 7) 0"
  let ?w = "\<lparr>xw_socket = 1, xw_system = \<lparr>sc_incoming = [?r], sc_sent = []\<rparr>\<rparr>"
  have "cc_stream (c_config ?c) = Some (xbox360_stream script_system)" by simp
  moreover have "whole_record 16645 ?r" by (rule sealed_record_whole) simp
  moreover have "script_queue ?w = ?r @ []" by (simp add: script_queue_def is_open_def INVALID_SOCKET_def)
  ultimately obtain w' where "read_record 16645 (?c, ?w) = Some (Ok ?r, (?c, w'))"
    using script.read_record_queue [of ?c] by blast
  then have "read_record 16645 (?c, ?w) = Some (Ok (sealed_record (c_server_app_keys ?c) content_application_data
      (replicate 16500 7) 0), (?c, w'))" by (simp add: tls_client_new_def)
  then show ?thesis by (rule recv_overflows [rotated 3]) (simp_all add: pending_ok_def tls_client_new_def)
qed

section \<open>Records\<close>

text \<open>C25: Removing protection from a record that was protected under the same keys gives back its
  content type and content and advances both sequence numbers alike, for every content, type and
  padding that \<open>protect_record_aes128_gcm\<close> accepts.\<close>

theorem record_roundtrip:
  assumes "20 \<le> t" and "t \<le> 23" and "length content \<le> 16384" and "padding \<le> 255"
    and "length content + padding \<le> 16623" and "length content + padding + 22 \<le> length out"
    and "alloc (length content + 1 + padding)" and "length content + 1 + padding \<le> length buf"
  shows "\<exists>rec keys'.
    protect_record_aes128_gcm alloc keys t (Span content) padding (Span out) = (Ok rec, keys')
    \<and> unprotect_record_aes128_gcm keys (Span rec) (Span buf) = (Ok (t, content), keys')"
  using assms opened_sealed [of t content padding "length buf" keys]
  by (auto simp: protect_record_eq unprotect_record_eq not_less not_le)

theorem record_roundtrip_witness:
  "\<exists>rec keys'.
    protect_record_aes128_gcm (\<lambda>n. n < 100) traffic_keys_zero 23 (Span [1, 2, 3]) 2
      (Span (replicate 30 0)) = (Ok rec, keys')
    \<and> unprotect_record_aes128_gcm traffic_keys_zero (Span rec) (Span (replicate 8 0))
        = (Ok (23, [1, 2, 3]), keys')"
  by (rule record_roundtrip) simp_all


text \<open>C27: Under one set of keys no block of the cipher's key stream is used twice: two counter blocks of
  two records are equal only when the record numbers and the positions in the record are.\<close>

theorem key_stream_never_repeats:
  assumes "length iv = 12" and "i < 2 ^ 32" and "j < 2 ^ 32"
  shows "(inc32 ^^ i) (gcm_j0 (make_record_nonce iv m)) = (inc32 ^^ j) (gcm_j0 (make_record_nonce iv n))
    \<longleftrightarrow> m = n \<and> i = j"
proof
  have len: "length (make_record_nonce iv k) = 12" for k using assms(1) by (simp add: make_record_nonce_eq)
  assume eq: "(inc32 ^^ i) (gcm_j0 (make_record_nonce iv m)) = (inc32 ^^ j) (gcm_j0 (make_record_nonce iv n))"
  then have "make_record_nonce iv m = make_record_nonce iv n"
    unfolding inc32_iterate [OF len] by (simp add: len)
  with counter_blocks_distinct [OF len assms(2,3)] eq show "m = n \<and> i = j"
    using make_record_nonce_inject [OF assms(1)] by metis
qed simp

theorem key_stream_never_repeats_witness:
  "(inc32 ^^ 1) (gcm_j0 (make_record_nonce (replicate 12 9) 5)) \<noteq>
   (inc32 ^^ 1) (gcm_j0 (make_record_nonce (replicate 12 9) 6))"
  using key_stream_never_repeats [of "replicate 12 9" 1 1 5 6] by simp

section \<open>Messages\<close>

text \<open>C28: The ClientHello writer returns the encoding of its parameters exactly when they are in
  range and fit the buffer, with every length field equal to the number of bytes it counts, and the
  documented error otherwise.\<close>

theorem client_hello_exact:
  assumes "ch_spans_valid p"
  shows "build_client_hello p (Span out) =
    (if span_null (chp_random32 p) \<or> span_size (chp_random32 p) \<noteq> 32
        \<or> span_size (chp_session_id p) > 32 \<or> span_size (chp_key_share p) = 0
        \<or> span_size (chp_key_share p) > 65535
     then Err XT_ERR_INVALID_ARGUMENT
     else if \<not> ch_names_ok p \<or> length (client_hello_bytes p) > length out
     then Err XT_ERR_BUFFER_TOO_SMALL
     else if length (exts_bytes (ch_extensions p)) > 65535 then Err XT_ERR_INVALID_ARGUMENT
     else Ok (client_hello_bytes p))"
  using assms by (rule build_client_hello_eq)

theorem client_hello_exact_witness:
  "build_client_hello (client_hello_params_init\<lparr>chp_random32 := Span (replicate 32 7),
     chp_key_share := Span (replicate 32 9)\<rparr>) (Span (replicate 200 0))
   = Ok (client_hello_bytes (client_hello_params_init\<lparr>chp_random32 := Span (replicate 32 7),
     chp_key_share := Span (replicate 32 9)\<rparr>))"
proof -
  define p where "p = client_hello_params_init\<lparr>chp_random32 := Span (replicate 32 7),
     chp_key_share := Span (replicate 32 9)\<rparr>"
  have p: "ch_spans_valid p" "ch_names_ok p"
    by (simp_all add: p_def client_hello_params_init_def ch_spans_valid_def ch_names_ok_def)
  have l: "length (exts_bytes (ch_extensions p)) = 71" "length (client_hello_bytes p) = 118"
    by (simp_all add: p_def client_hello_params_init_def ch_extensions_def ch_sni_def ch_cookie_def
        ch_alpn_def client_hello_bytes_def)
  show ?thesis
    unfolding p_def [symmetric] client_hello_exact [OF p(1)]
    using p(2) l by (simp add: p_def client_hello_params_init_def)
qed


text \<open>C30: A handshake message that arrives in any fragments that fit the reassembly buffer comes out
  whole, once, and what followed it stays in the buffer.\<close>

theorem handshake_reassembled:
  assumes "deframer_inv d" and "deframer_content d = []" and "length (concat cs) \<le> deframer_room d"
    and "concat cs = encode_handshake t body @ rest" and "length body < 16777216"
  shows "\<exists>d' d''. feed (\<lambda>d bs. deframer_append d (Span bs)) d cs = (XT_OK, d')
    \<and> deframer_peek d' = Ok (handshake_of t body)
    \<and> deframer_consume d' = (Ok (), d'') \<and> deframer_inv d'' \<and> deframer_content d'' = rest"
  using assms by (rule df.feed_message)

theorem handshake_reassembled_witness:
  "\<exists>d' d''. feed (\<lambda>d bs. deframer_append d (Span bs)) (deframer_new (Span (replicate 64 0)))
       [[20, 0], [0], [2, 7], [8, 20, 0]] = (XT_OK, d')
    \<and> deframer_peek d' = Ok (handshake_of 20 [7, 8])
    \<and> deframer_consume d' = (Ok (), d'') \<and> deframer_inv d'' \<and> deframer_content d'' = [20, 0]"
  by (rule handshake_reassembled)
    (simp_all add: deframer_new_inv deframer_new_content deframer_new_room encode_handshake_def store_be24_def)

text \<open>C31: A Certificate message and its list are accepted exactly when the message is a context and a
  list, each of the stated length, and the list one to eight entries, each a non-empty certificate
  and its extensions; the entries the client then works with are these.\<close>

theorem certificate_accepted:
  "(\<exists>info. parse_certificate msg = Ok info \<and> parse_certificate_chain info = Ok chain) \<longleftrightarrow>
    hm_type msg = hs_certificate \<and>
    (\<exists>ctx es. hm_body msg = Span (encode_certificate ctx (encode_chain es)) \<and> length ctx < 256
       \<and> length (encode_chain es) < 16777216 \<and> list_all entry_ok es \<and> es \<noteq> [] \<and> length es \<le> 8
       \<and> chain = map entry_view es)"
proof -
  have "parse_certificate_chain \<lparr>ci_request_context = x, ci_certificate_list = Span xs\<rparr> = Ok chain \<longleftrightarrow>
      (\<exists>es. xs = encode_chain es \<and> list_all entry_ok es \<and> es \<noteq> [] \<and> length es \<le> 8 \<and> chain = map entry_view es)"
    for x xs by (rule parse_certificate_chain_iff) simp
  note chain = this
  have "(\<exists>info. parse_certificate msg = Ok info \<and> parse_certificate_chain info = Ok chain) \<longleftrightarrow>
      hm_type msg = hs_certificate \<and> (\<exists>ctx l. hm_body msg = Span (encode_certificate ctx l)
        \<and> length ctx < 256 \<and> length l < 16777216
        \<and> parse_certificate_chain \<lparr>ci_request_context = Span ctx, ci_certificate_list = Span l\<rparr> = Ok chain)"
    unfolding parse_certificate_iff by blast
  then show ?thesis unfolding chain by blast
qed

section \<open>Certificates\<close>

text \<open>C32: Parsing any bytes as a certificate stays inside them, and every span of the result lies in the
  certificate; the result has a key of a known kind and a validity period in order.\<close>

theorem certificate_view_inside:
  "safe (x509_parse_certificate (Span bs)) (\<lambda>v. x509_within bs v \<and> x509_complete v \<and> x_der v = Span bs)"
  by (rule safe_mono_Ok [OF x509_parse_certificate_within]) (auto dest: x509_parse_certificate_complete)

text \<open>C33: A UTCTime or GeneralizedTime that is accepted stands for the number of seconds since 1970 that
  counting years, months and days of the civil calendar gives, and the count does not wrap.\<close>

theorem certificate_time_counts:
  assumes "parse_asn1_time t = Ok s" and "el_value t = Span bs"
  shows "uint s = asn1_seconds t"
  using assms by (rule parse_asn1_time_Ok)

theorem certificate_time_counts_witness:
  "asn1_seconds \<lparr>el_tag = 0x17, el_full = Span [], el_value = Span (ascii ''240229120000Z'')\<rparr> = 1709208000"
proof -
  have "parse_asn1_time \<lparr>el_tag = 0x17, el_full = Span [], el_value = Span (ascii ''240229120000Z'')\<rparr>
      = Ok 1709208000"
    by code_simp
  from certificate_time_counts [OF this] show ?thesis by simp
qed

text \<open>C34: A certificate names a host exactly when one of the DNS names of its subject alternative name
  equals the host up to case, or is a wildcard for exactly the first label of the host.\<close>

theorem hostname_verified:
  "x509_verify_hostname v (Some h) = Ok () \<longleftrightarrow>
     h \<noteq> [] \<and> (\<exists>els name. san_dns_names (x_subject_alt_name v) els name \<and> dns_matches name h)"
  by (rule x509_verify_hostname_iff)

section \<open>Cryptography\<close>

text \<open>C35: Feeding a message to the hash in any pieces and finishing gives the SHA-256 of the whole message:
  the compression function over the 64-byte blocks of the message with the padding of FIPS 180-4.\<close>

theorem sha256_streams:
  "sha_final (fold (\<lambda>p s. sha_update s p) pieces sha_reset) = sha256_spec (concat pieces)"
  using sha_final_correct [OF sha_inv_updates [OF sha_inv_reset, of pieces]] by simp




text \<open>C37: Over P-256 the public key of a private key between 1 and the order of the group is the
  uncompressed encoding of that multiple of the base point, where a multiple is a repeated addition of
  points of the curve; the shared secret is the abscissa of the multiple of the peer's point. Every
  other key, and every peer point that is not the encoding of a point of the curve, is refused.\<close>

theorem p256_multiplies:
  assumes "length k = 32" and "length u = 65"
  shows "p256_public_from_private (Span k) =
      (if 0 < be_val k \<and> be_val k < p256_n \<and> pmul (be_val k) p256_G \<noteq> Infinity
       then Ok (encode_point (pmul (be_val k) p256_G)) else Err XT_ERR_VERIFY)
    \<and> p256_shared_secret (Span k) (Span u) =
      (case decode_point u of
         None \<Rightarrow> Err XT_ERR_VERIFY
       | Some Q \<Rightarrow>
           if 0 < be_val k \<and> be_val k < p256_n then
             (case pmul (be_val k) Q of
                Infinity \<Rightarrow> Err XT_ERR_VERIFY
              | Point x y \<Rightarrow> Ok (be_bytes 32 (fp_nat x)))
           else Err XT_ERR_VERIFY)"
  using p256_public_from_private_eq [OF assms(1)] p256_shared_secret_eq [OF assms] by simp

theorem p256_multiplies_witness:
  "p256_public_from_private (Span (replicate 31 0 @ [1])) = Ok (encode_point p256_G)"
  using p256_multiplies [of "replicate 31 0 @ [1]" "replicate 65 0"]
  by (simp add: p256_n_def) (simp add: p256_G_def)

text \<open>C38: Two clients that each send the public key of their private key over P-256 compute the same shared
  secret, the abscissa of the product of both private keys with the base point.\<close>

theorem p256_keys_agree:
  assumes "length a = 32" and "length b = 32"
    and "p256_public_from_private (Span a) = Ok pa" and "p256_public_from_private (Span b) = Ok pb"
  shows "p256_shared_secret (Span a) (Span pb) = p256_shared_secret (Span b) (Span pa)
    \<and> p256_shared_secret (Span a) (Span pb) = (case pmul (be_val a * be_val b) p256_G of
        Infinity \<Rightarrow> Err XT_ERR_VERIFY | Point x y \<Rightarrow> Ok (be_bytes 32 (fp_nat x)))"
  using p256_agreement [OF assms] by simp

theorem p256_keys_agree_witness:
  "p256_shared_secret (Span (replicate 31 0 @ [1])) (Span (encode_point p256_G)) = Ok (be_bytes 32 (be_val GX_BE))"
proof -
  have "p256_public_from_private (Span (replicate 31 0 @ [1])) = Ok (encode_point p256_G)"
    by (simp add: p256_public_from_private_eq p256_n_def) (simp add: p256_G_def)
  moreover have "fp_nat (of_nat (be_val GX_BE)) = be_val GX_BE"
    by (rule fp_nat_of_nat) (simp add: G_val p256_p_def)
  ultimately show ?thesis
    using p256_keys_agree [of "replicate 31 0 @ [1]" "replicate 31 0 @ [1]"] by (simp add: p256_G_def)
qed

text \<open>C39: An ECDSA signature is accepted exactly when the key is the encoding of a point of the curve, the
  signature is a sequence of two numbers, and these satisfy the equation of FIPS 186-4, section 6.4, for
  the SHA-256 hash of the message; the base point's order is prime, so that the power that the code
  computes for the inverse is one.\<close>

theorem ecdsa_verified:
  "native_p256_ecdsa_sha256_verify (Span key) (Span msg) (Span sg) = Ok () \<longleftrightarrow>
    (\<exists>Q r s. decode_point key = Some Q \<and> parse_sig (Span sg) = Ok (r, s)
       \<and> ecdsa_accepts Q (be_val (sha256_spec msg)) (limbs_val r) (limbs_val s))"
  by (rule native_p256_ecdsa_iff)

text \<open>C40: The X25519 key agreement is that of RFC 7748: the public key is the function of the RFC, section 5,
  applied to the private key and 9, and the shared secret the function applied to the private key and
  the peer's key, except that a result of zeros is refused; this includes the decoding of the private
  key, the dropped top bit of the peer's, and the only encoding of the result below the prime.\<close>

theorem x25519_rfc7748:
  "x25519_public_from_private k = (if span_null k then Err XT_ERR_INVALID_ARGUMENT
     else bind_res (rd_bytes k 0 32) (\<lambda>k. Ok (rfc7748_x25519 k (9 # replicate 31 0))))
   \<and> x25519_shared_secret k u = (if span_null k \<or> span_null u then Err XT_ERR_INVALID_ARGUMENT
     else bind_res (rd_bytes k 0 32) (\<lambda>k. bind_res (rd_bytes u 0 32) (\<lambda>u.
       if rfc7748_x25519 k u = replicate 32 0 then Err XT_ERR_VERIFY else Ok (rfc7748_x25519 k u))))"
  using x25519_public_from_private_eq x25519_shared_secret_rfc7748 by blast

end
